(* ===== verification/Prelude.thy ===== *)
theory Prelude
  imports Main "HOL-Library.AList"
begin

text \<open>
  Shared vocabulary of the development.

  \<^item> JavaScript strings are \<open>string\<close> (a list of characters): the value is the UTF-8
    encoding of the JavaScript string, and every string operation modelled here only looks
    for ASCII characters, so it acts alike on both. A Node \<open>Buffer\<close> is a list of bytes,
    and \<open>char\<close> is the type of bytes, so it has the same type.
  \<^item> A JavaScript \<open>Map\<close> or plain object is an association list in insertion order:
    writing a key replaces the value in place or appends the key, as \<open>AList.update\<close> does.
  \<^item> A statement that may throw returns \<open>'e + 'a\<close>, with \<open>Inl\<close> for the exception.
  \<^item> \<open>x || d\<close> on strings is \<open>or_default\<close>; \<open>x ?? d\<close> is \<open>nullish\<close>.
\<close>

named_theorems js_simps "unfolding rules for the JavaScript vocabulary"
named_theorems frame_simps "what an operation leaves unchanged"

type_synonym buffer = string
type_synonym ('k, 'v) js_map = "('k \<times> 'v) list"

section \<open>Results\<close>

fun bind_result :: "'e + 'a \<Rightarrow> ('a \<Rightarrow> 'e + 'b) \<Rightarrow> 'e + 'b" where
  "bind_result (Inl e) f = Inl e"
| "bind_result (Inr x) f = f x"

fun map_result :: "('a \<Rightarrow> 'e + 'b) \<Rightarrow> 'a list \<Rightarrow> 'e + 'b list" where
  "map_result f [] = Inr []"
| "map_result f (x # xs) =
     bind_result (f x) (\<lambda>y. bind_result (map_result f xs) (\<lambda>ys. Inr (y # ys)))"

lemma bind_result_Inr_iff [simp]:
  "bind_result r f = Inr y \<longleftrightarrow> (\<exists>x. r = Inr x \<and> f x = Inr y)"
  by (cases r) auto

lemma bind_result_Inl_iff:
  "bind_result r f = Inl e \<longleftrightarrow> r = Inl e \<or> (\<exists>x. r = Inr x \<and> f x = Inl e)"
  by (cases r) auto

lemma map_result_Inr_map: "(\<And>x. x \<in> set xs \<Longrightarrow> f x = Inr (g x)) \<Longrightarrow> map_result f xs = Inr (map g xs)"
  by (induction xs) auto

lemma map_result_length: "map_result f xs = Inr ys \<Longrightarrow> length ys = length xs"
  by (induction xs arbitrary: ys) auto

section \<open>Nullish values\<close>

fun nullish :: "'a option \<Rightarrow> 'a \<Rightarrow> 'a" where
  "nullish None d = d"
| "nullish (Some x) d = x"

definition or_default :: "string option \<Rightarrow> string \<Rightarrow> string" where
  "or_default x d = (case x of None \<Rightarrow> d | Some s \<Rightarrow> if s = [] then d else s)"

lemma or_default_simps [simp, js_simps]:
  "or_default None d = d"
  "or_default (Some []) d = d"
  "or_default (Some (c # s)) d = c # s"
  by (simp_all add: or_default_def)

section \<open>Strings\<close>

definition starts_with :: "string \<Rightarrow> string \<Rightarrow> bool" where
  "starts_with s p \<longleftrightarrow> take (length p) s = p"

definition ends_with :: "string \<Rightarrow> string \<Rightarrow> bool" where
  "ends_with s p \<longleftrightarrow> length p \<le> length s \<and> drop (length s - length p) s = p"

fun includes_str :: "string \<Rightarrow> string \<Rightarrow> bool" where
  "includes_str [] p \<longleftrightarrow> p = []"
| "includes_str (c # s) p \<longleftrightarrow> starts_with (c # s) p \<or> includes_str s p"

lemma starts_with_append [simp]: "starts_with (p @ s) p"
  by (simp add: starts_with_def)

lemma starts_with_iff: "starts_with s p \<longleftrightarrow> (\<exists>t. s = p @ t)"
  by (metis append_take_drop_id starts_with_append starts_with_def)

lemma ends_with_append [simp]: "ends_with (s @ p) p"
  by (simp add: ends_with_def)

text \<open>\<open>s.split(c)\<close>: one more part than there are separators, never the empty list.\<close>

fun split_on :: "char \<Rightarrow> string \<Rightarrow> string list" where
  "split_on c [] = [[]]"
| "split_on c (x # xs) =
     (if x = c then [] # split_on c xs
      else (case split_on c xs of [] \<Rightarrow> [[x]] | p # ps \<Rightarrow> (x # p) # ps))"

text \<open>\<open>parts.join(sep)\<close>.\<close>

fun join_with :: "string \<Rightarrow> string list \<Rightarrow> string" where
  "join_with sep [] = []"
| "join_with sep [p] = p"
| "join_with sep (p # q # ps) = p @ sep @ join_with sep (q # ps)"

lemma split_on_not_Nil [simp]: "split_on c s \<noteq> []"
  by (cases s) (auto split: list.split)

lemma split_on_single: "c \<notin> set s \<Longrightarrow> split_on c s = [s]"
  by (induction s) auto

lemma split_on_cons: "c \<notin> set p \<Longrightarrow> split_on c (p @ c # s) = p # split_on c s"
  by (induction p) auto

lemma join_split: "join_with [c] (split_on c s) = s"
proof (induction s)
  case Nil
  then show ?case by simp
next
  case (Cons x s)
  obtain p ps where "split_on c s = p # ps"
    by (cases "split_on c s") auto
  with Cons show ?case by (cases ps) auto
qed

lemma split_join: "ps \<noteq> [] \<Longrightarrow> \<forall>p\<in>set ps. c \<notin> set p \<Longrightarrow> split_on c (join_with [c] ps) = ps"
  by (induction "[c]" ps rule: join_with.induct) (auto simp: split_on_single split_on_cons)

text \<open>\<open>parts[i]\<close>, \<open>undefined\<close> out of range.\<close>

fun part_at :: "'a list \<Rightarrow> nat \<Rightarrow> 'a option" where
  "part_at [] i = None"
| "part_at (x # xs) 0 = Some x"
| "part_at (x # xs) (Suc i) = part_at xs i"

lemma part_at_nth: "part_at xs i = (if i < length xs then Some (xs ! i) else None)"
  by (induction xs i rule: part_at.induct) auto

text \<open>\<open>s.replaceAll(p, r)\<close> with a literal, non-empty search string.\<close>

function replace_all :: "string \<Rightarrow> string \<Rightarrow> string \<Rightarrow> string" where
  "replace_all p r [] = []"
| "replace_all p r (c # s) =
     (if p \<noteq> [] \<and> starts_with (c # s) p then r @ replace_all p r (drop (length p) (c # s))
      else c # replace_all p r s)"
  by pat_completeness auto
termination
proof (relation "measure (\<lambda>(p, r, s). length s)", goal_cases)
  case (2 p r c s)
  then show ?case by (cases p) auto
qed auto

lemma replace_all_absent: "\<not> includes_str s p \<Longrightarrow> replace_all p r s = s"
  by (induction s) auto

text \<open>\<open>String(n)\<close> for a whole number.\<close>

function show_nat :: "nat \<Rightarrow> string" where
  "show_nat n =
     (if n < 10 then [char_of (48 + n)] else show_nat (n div 10) @ [char_of (48 + n mod 10)])"
  by pat_completeness auto
termination by (relation "measure id") auto

declare show_nat.simps [simp del]

definition show_int :: "int \<Rightarrow> string" where
  "show_int i = (if i < 0 then CHR ''-'' # show_nat (nat (- i)) else show_nat (nat i))"

definition show_bool :: "bool \<Rightarrow> string" where
  "show_bool b = (if b then ''true'' else ''false'')"

section \<open>Maps in insertion order\<close>

abbreviation js_set :: "'k \<Rightarrow> 'v \<Rightarrow> ('k, 'v) js_map \<Rightarrow> ('k, 'v) js_map" where
  "js_set \<equiv> AList.update"

abbreviation js_delete :: "'k \<Rightarrow> ('k, 'v) js_map \<Rightarrow> ('k, 'v) js_map" where
  "js_delete \<equiv> AList.delete"

abbreviation js_keys :: "('k, 'v) js_map \<Rightarrow> 'k list" where
  "js_keys m \<equiv> map fst m"

definition set_all :: "('k, 'v) js_map \<Rightarrow> ('k, 'v) js_map \<Rightarrow> ('k, 'v) js_map" where
  "set_all base upd = fold (\<lambda>(k, v). js_set k v) upd base"

lemma set_all_simps [simp]:
  "set_all base [] = base"
  "set_all base ((k, v) # upd) = set_all (js_set k v base) upd"
  by (simp_all add: set_all_def)

lemma map_of_set_all: "map_of (set_all base upd) = map_of base ++ map_of (rev upd)"
  by (induction upd arbitrary: base)
    (auto simp: fun_eq_iff map_add_def AList.update_conv split: option.splits)

lemma distinct_set_all: "distinct (js_keys base) \<Longrightarrow> distinct (js_keys (set_all base upd))"
  by (induction upd arbitrary: base) (auto simp: AList.distinct_update)

lemma map_of_rev_distinct: "distinct (js_keys m) \<Longrightarrow> map_of (rev m) = map_of m"
  by (rule ext) (metis distinct_rev map_of_eq_Some_iff not_Some_eq rev_map set_rev)

lemma map_of_perm:
  assumes "distinct (js_keys m)" "distinct (js_keys m')" "set m = set m'"
  shows "map_of m = map_of m'"
proof (rule ext)
  fix k
  show "map_of m k = map_of m' k"
    using assms by (cases "map_of m k"; cases "map_of m' k") (metis map_of_eq_Some_iff option.exhaust)+
qed

lemma js_keys_delete: "js_keys (js_delete k m) = filter (\<lambda>x. x \<noteq> k) (js_keys m)"
  by (induction m) auto

section \<open>Plain objects\<close>

text \<open>
  \<open>Object.entries\<close> lists the keys that are array indices first, in ascending order, and the
  other keys in insertion order.
\<close>

fun digits_value :: "nat \<Rightarrow> string \<Rightarrow> nat option" where
  "digits_value acc [] = Some acc"
| "digits_value acc (c # s) =
     (if of_char c \<ge> (48::nat) \<and> of_char c \<le> (57::nat)
      then digits_value (10 * acc + (of_char c - 48)) s else None)"

definition array_index :: "string \<Rightarrow> nat option" where
  "array_index s =
     (case s of
        [] \<Rightarrow> None
      | [c] \<Rightarrow> digits_value 0 s
      | c # _ \<Rightarrow> if c = CHR ''0'' then None
                 else (case digits_value 0 s of
                         None \<Rightarrow> None
                       | Some n \<Rightarrow> if n < 4294967295 then Some n else None))"

definition object_entries :: "(string, 'v) js_map \<Rightarrow> (string, 'v) js_map" where
  "object_entries m =
     sort_key (\<lambda>(k, v). the (array_index k)) (filter (\<lambda>(k, v). array_index k \<noteq> None) m)
     @ filter (\<lambda>(k, v). array_index k = None) m"

text \<open>\<open>Object.fromEntries\<close>, and the spread \<open>{...base, ...update}\<close>.\<close>

definition from_entries :: "(string, 'v) js_map \<Rightarrow> (string, 'v) js_map" where
  "from_entries es = set_all [] es"

definition spread :: "(string, 'v) js_map \<Rightarrow> (string, 'v) js_map \<Rightarrow> (string, 'v) js_map" where
  "spread base upd = set_all base (object_entries upd)"

lemma set_object_entries [simp]: "set (object_entries m) = set m"
  by (auto simp: object_entries_def)

lemma distinct_object_entries:
  assumes "distinct (js_keys m)"
  shows "distinct (js_keys (object_entries m))"
proof -
  have inj: "inj_on fst (set m)" and d: "distinct m"
    using assms by (simp_all add: distinct_map)
  have "distinct (object_entries m)"
    using d by (auto simp: object_entries_def)
  moreover have "inj_on fst (set (object_entries m))"
    using inj by simp
  ultimately show ?thesis by (simp add: distinct_map)
qed

lemma map_of_object_entries [simp]:
  "distinct (js_keys m) \<Longrightarrow> map_of (object_entries m) = map_of m"
  by (rule map_of_perm) (simp_all add: distinct_object_entries)

lemma map_of_spread:
  "distinct (js_keys upd) \<Longrightarrow> map_of (spread base upd) = map_of base ++ map_of upd"
  by (simp add: spread_def map_of_set_all map_of_rev_distinct distinct_object_entries)

lemma distinct_spread: "distinct (js_keys base) \<Longrightarrow> distinct (js_keys (spread base upd))"
  by (simp add: spread_def distinct_set_all)

lemma distinct_from_entries [simp]: "distinct (js_keys (from_entries es))"
  by (simp add: from_entries_def distinct_set_all)

lemma map_of_from_entries: "distinct (js_keys es) \<Longrightarrow> map_of (from_entries es) = map_of es"
  by (simp add: from_entries_def map_of_set_all map_of_rev_distinct)

end
