(* ===== verification/Archive_Types.thy ===== *)
theory Archive_Types
  imports Prelude
begin

text \<open>
  The data of the filesystem cache (\<open>packages/shared/src/fs-cache/archive-types.ts\<close>):
  outcomes of filesystem operations, the values they carry, the per-path node of the archive
  and the archive document. The TypeScript casts the stored values freely between the typed
  fields of a node, so the model keeps them in one sum type \<open>stored_value\<close>, as the
  run-time does; the typing of the fields is an invariant that \<open>Archive_Nodes\<close> proves.
\<close>

definition FS_CACHE_MAGIC :: string where
  "FS_CACHE_MAGIC = ''sonarjs-filesystem-cache''"

definition FS_CACHE_FORMAT_VERSION :: nat where
  "FS_CACHE_FORMAT_VERSION = 5"

definition LOCK_RETRY_DELAY_MS :: int where
  "LOCK_RETRY_DELAY_MS = 10"

definition LOCK_RETRY_LIMIT :: nat where
  "LOCK_RETRY_LIMIT = 1000"

definition LOCK_STALE_AGE_MS :: int where
  "LOCK_STALE_AGE_MS = LOCK_RETRY_DELAY_MS * int LOCK_RETRY_LIMIT"

record fs_error =
  err_name :: string
  err_message :: string
  err_code :: "string option"
  err_errno :: "int option"
  err_syscall :: "string option"

datatype 'a outcome = Success 'a | Failure fs_error

datatype path_kind = AbsolutePath | RelativePath

record portable_path =
  pp_kind :: path_kind
  pp_path :: string

datatype realpath_operation = Realpath | RealpathNative

datatype cached_name = BufferName string | StringName string

record cached_stat =
  cs_fields :: "(string, string option) js_map"
  cs_types :: "(string, bool) js_map"

datatype directory_entry =
    NameEntry cached_name
  | DirentEntry cached_name "string option" "portable_path option"

datatype content_value = ContentBuffer buffer | ContentBase64 string

datatype stored_value =
    NullValue
  | BoolValue bool
  | ContentValue content_value
  | EntriesValue "directory_entry list"
  | NameValue cached_name
  | PathValue portable_path
  | StatValue cached_stat

type_synonym stored_outcome = "stored_value outcome"
type_synonym outcome_map = "(string, stored_outcome) js_map"

record cache_node =
  nd_exists :: "bool option"
  nd_linkExists :: "bool option"
  nd_content :: "stored_outcome option"
  nd_access :: "outcome_map option"
  nd_directories :: "outcome_map option"
  nd_opens :: "outcome_map option"
  nd_readlinks :: "outcome_map option"
  nd_realpaths :: "outcome_map option"
  nd_stats :: "outcome_map option"

datatype map_field = Access | Directories | Opens | Readlinks | Realpaths | Stats

datatype operation_slot = ContentSlot | MapSlot map_field string

datatype archive_mode = Record | Replay

record archive_entry =
  ent_path :: string
  ent_node :: cache_node

record archive_document =
  doc_magic :: string
  doc_formatVersion :: nat
  doc_createdAt :: string
  doc_updatedAt :: string
  doc_entries :: "archive_entry list"
  doc_missingPaths :: "string list"

record comparison_root =
  cr_directory :: string
  cr_prefix :: string

text \<open>The enumeration \<open>MAP_FIELDS\<close> and the access to a field by its name.\<close>

definition MAP_FIELDS :: "map_field list" where
  "MAP_FIELDS = [Access, Directories, Opens, Readlinks, Realpaths, Stats]"

fun node_field :: "cache_node \<Rightarrow> map_field \<Rightarrow> outcome_map option" where
  "node_field nd Access = nd_access nd"
| "node_field nd Directories = nd_directories nd"
| "node_field nd Opens = nd_opens nd"
| "node_field nd Readlinks = nd_readlinks nd"
| "node_field nd Realpaths = nd_realpaths nd"
| "node_field nd Stats = nd_stats nd"

fun set_node_field :: "cache_node \<Rightarrow> map_field \<Rightarrow> outcome_map \<Rightarrow> cache_node" where
  "set_node_field nd Access m = nd\<lparr>nd_access := Some m\<rparr>"
| "set_node_field nd Directories m = nd\<lparr>nd_directories := Some m\<rparr>"
| "set_node_field nd Opens m = nd\<lparr>nd_opens := Some m\<rparr>"
| "set_node_field nd Readlinks m = nd\<lparr>nd_readlinks := Some m\<rparr>"
| "set_node_field nd Realpaths m = nd\<lparr>nd_realpaths := Some m\<rparr>"
| "set_node_field nd Stats m = nd\<lparr>nd_stats := Some m\<rparr>"

definition empty_node :: cache_node where
  "empty_node = \<lparr>nd_exists = None, nd_linkExists = None, nd_content = None, nd_access = None,
     nd_directories = None, nd_opens = None, nd_readlinks = None, nd_realpaths = None,
     nd_stats = None\<rparr>"

lemma node_field_set [simp]:
  "node_field (set_node_field nd f m) g = (if f = g then Some m else node_field nd g)"
  by (cases f; cases g) auto

lemma set_node_field_frame [simp, frame_simps]:
  "nd_exists (set_node_field nd f m) = nd_exists nd"
  "nd_linkExists (set_node_field nd f m) = nd_linkExists nd"
  "nd_content (set_node_field nd f m) = nd_content nd"
  by (cases f, simp_all)+

lemma node_field_frame [simp, frame_simps]:
  "node_field (nd\<lparr>nd_exists := e\<rparr>) f = node_field nd f"
  "node_field (nd\<lparr>nd_linkExists := e\<rparr>) f = node_field nd f"
  "node_field (nd\<lparr>nd_content := c\<rparr>) f = node_field nd f"
  by (cases f, simp_all)+

lemma node_field_empty [simp]: "node_field empty_node f = None"
  by (cases f) (simp_all add: empty_node_def)

lemma empty_node_simps [simp]:
  "nd_exists empty_node = None" "nd_linkExists empty_node = None" "nd_content empty_node = None"
  by (simp_all add: empty_node_def)

lemma set_MAP_FIELDS [simp]: "f \<in> set MAP_FIELDS"
  by (cases f) (simp_all add: MAP_FIELDS_def)

lemma cache_node_eqI:
  assumes "nd_exists a = nd_exists b" "nd_linkExists a = nd_linkExists b"
    and "nd_content a = nd_content b" "\<And>f. node_field a f = node_field b f"
  shows "a = (b :: cache_node)"
  using assms(1-3) assms(4) [of Access] assms(4) [of Directories] assms(4) [of Opens]
    assms(4) [of Readlinks] assms(4) [of Realpaths] assms(4) [of Stats]
  by simp

text \<open>The enumerations of file kinds; the protobuf mask and enum use their positions.\<close>

definition STAT_TYPES :: "string list" where
  "STAT_TYPES = [''blockDevice'', ''characterDevice'', ''directory'', ''fifo'', ''file'',
     ''socket'', ''symbolicLink'']"

definition DIRENT_TYPES :: "string list" where
  "DIRENT_TYPES = [''unknown'', ''file'', ''directory'', ''symbolicLink'', ''blockDevice'',
     ''characterDevice'', ''fifo'', ''socket'']"

text \<open>
  \<open>FsCacheArchiveError\<close>. The \<open>UnsupportedOperation\<close> constructor carries the operation
  of the message; \<open>incompatible\<close> is the flag of the class.
\<close>

datatype archive_error =
    MissingField string
  | UnsupportedOperation string
  | ArchivePathRequired
  | RootDirRequired
  | ArchiveDoesNotExist string
  | CannotReadArchive string
  | NotAnArchive string
  | UnsupportedFormat nat
  | LockTimeout string

fun incompatible :: "archive_error \<Rightarrow> bool" where
  "incompatible (UnsupportedFormat v) = True"
| "incompatible _ = False"

fun required :: "'a option \<Rightarrow> string \<Rightarrow> archive_error + 'a" where
  "required None field = Inl (MissingField field)"
| "required (Some v) field = Inr v"

text \<open>
  \<open>writeFileWithNativePrimitives\<close>: the native \<open>writeSync\<close> writes a prefix of the remaining
  bytes and returns how many it wrote. \<open>written\<close> gives that count for each call, from the
  number of the call and the bytes that remain. The result is the file's content and the
  number of calls; the fuel is the number of calls allowed.
\<close>

fun write_loop :: "nat \<Rightarrow> (nat \<Rightarrow> nat \<Rightarrow> nat) \<Rightarrow> nat \<Rightarrow> buffer \<Rightarrow> nat \<Rightarrow> buffer \<Rightarrow> (buffer \<times> nat) option" where
  "write_loop 0 written i bytes offset out =
     (if offset < length bytes then None else Some (out, i))"
| "write_loop (Suc fuel) written i bytes offset out =
     (if offset < length bytes
      then (let n = written i (length bytes - offset)
            in write_loop fuel written (Suc i) bytes (offset + n)
                 (out @ take n (drop offset bytes)))
      else Some (out, i))"

lemma write_loop_complete:
  assumes "\<And>i r. 0 < r \<Longrightarrow> 1 \<le> written i r \<and> written i r \<le> r"
    and "offset \<le> length bytes" "length bytes - offset \<le> fuel" "out = take offset bytes"
  shows "\<exists>n. write_loop fuel written i bytes offset out = Some (bytes, n)"
  using assms(2-4)
proof (induction fuel arbitrary: i offset out)
  case 0
  then show ?case by simp
next
  case (Suc fuel)
  show ?case
  proof (cases "offset < length bytes")
    case True
    define n where "n = written i (length bytes - offset)"
    have n: "1 \<le> n" "n \<le> length bytes - offset"
      using assms(1) [of "length bytes - offset" i] True by (simp_all add: n_def)
    have "out @ take n (drop offset bytes) = take (offset + n) bytes"
      using Suc.prems(3) by (simp add: take_add)
    then have "\<exists>m. write_loop fuel written (Suc i) bytes (offset + n)
        (out @ take n (drop offset bytes)) = Some (bytes, m)"
      using Suc.IH [of "offset + n"] Suc.prems(1,2) n by simp
    with True show ?thesis by (simp add: n_def Let_def)
  next
    case False
    with Suc.prems show ?thesis by simp
  qed
qed

end
