(* ===== verification/Archive_Nodes.thy ===== *)
theory Archive_Nodes
  imports Archive_Types "HOL-Library.Sorting_Algorithms" "HOL-Library.Char_ord" "HOL-Library.List_Lexorder"
begin

text \<open>
  \<open>packages/shared/src/fs-cache/archive-nodes.ts\<close>: the operations on one node of the archive.
  A filesystem operation is named by a string such as \<open>stat:number:throw\<close>; \<open>operationSlot\<close>
  parses it into the slot of the node that holds its outcome.
  \<open>localeCompare\<close> is a parameter of type \<open>string comparator\<close>, which carries the laws of a
  consistent comparison.
\<close>

section \<open>Creating, merging and sorting nodes\<close>

text \<open>
  \<open>copyMapField\<close> spreads the source map into a fresh object. The map of a node is never
  \<open>null\<close> and always an object when it is present, so the guard of the loop is presence.
\<close>

definition copyMapField :: "cache_node \<Rightarrow> cache_node \<Rightarrow> map_field \<Rightarrow> cache_node" where
  "copyMapField target source f =
     (case node_field source f of
        None \<Rightarrow> target
      | Some m \<Rightarrow> set_node_field target f (spread [] m))"

definition createNode :: "cache_node \<Rightarrow> cache_node" where
  "createNode nd =
     fold (\<lambda>f result. if node_field nd f \<noteq> None then copyMapField result nd f else result)
       MAP_FIELDS
       (empty_node\<lparr>nd_exists := nd_exists nd, nd_linkExists := nd_linkExists nd,
          nd_content := nd_content nd\<rparr>)"

definition mergeMapField :: "cache_node \<Rightarrow> cache_node \<Rightarrow> cache_node \<Rightarrow> map_field \<Rightarrow> cache_node" where
  "mergeMapField target base upd f =
     set_node_field target f
       (spread (spread [] (nullish (node_field base f) [])) (nullish (node_field upd f) []))"

text \<open>\<open>{...base, ...update}\<close> on the fields of a node: a field of the update wins if present.\<close>

definition override :: "'a option \<Rightarrow> 'a option \<Rightarrow> 'a option" where
  "override base upd = (case upd of None \<Rightarrow> base | Some v \<Rightarrow> Some v)"

definition spread_nodes :: "cache_node \<Rightarrow> cache_node \<Rightarrow> cache_node" where
  "spread_nodes base upd =
     \<lparr>nd_exists = override (nd_exists base) (nd_exists upd),
      nd_linkExists = override (nd_linkExists base) (nd_linkExists upd),
      nd_content = override (nd_content base) (nd_content upd),
      nd_access = override (nd_access base) (nd_access upd),
      nd_directories = override (nd_directories base) (nd_directories upd),
      nd_opens = override (nd_opens base) (nd_opens upd),
      nd_readlinks = override (nd_readlinks base) (nd_readlinks upd),
      nd_realpaths = override (nd_realpaths base) (nd_realpaths upd),
      nd_stats = override (nd_stats base) (nd_stats upd)\<rparr>"

definition mergeNodes :: "cache_node \<Rightarrow> cache_node \<Rightarrow> cache_node" where
  "mergeNodes base upd =
     fold (\<lambda>f result.
            if node_field base f \<noteq> None \<or> node_field upd f \<noteq> None
            then mergeMapField result base upd f else result)
       MAP_FIELDS (spread_nodes base upd)"

definition sortMapField :: "string comparator \<Rightarrow> cache_node \<Rightarrow> cache_node \<Rightarrow> map_field \<Rightarrow> cache_node" where
  "sortMapField localeCompare target source f =
     (case node_field source f of
        None \<Rightarrow> target
      | Some m \<Rightarrow>
          set_node_field target f
            (from_entries (Sorting_Algorithms.sort (key fst localeCompare) (object_entries m))))"

definition sortedNode :: "string comparator \<Rightarrow> cache_node \<Rightarrow> cache_node" where
  "sortedNode localeCompare nd =
     fold (\<lambda>f result. if node_field nd f \<noteq> None then sortMapField localeCompare result nd f else result)
       MAP_FIELDS
       (empty_node\<lparr>nd_exists := nd_exists nd, nd_linkExists := nd_linkExists nd,
          nd_content := nd_content nd\<rparr>)"

section \<open>Slots\<close>

definition operationSlot :: "string \<Rightarrow> archive_error + operation_slot" where
  "operationSlot operation =
     (let ps = split_on (CHR '':'') operation; name = hd ps; parts = tl ps in
      if name = ''readFile'' then Inr ContentSlot
      else if name = ''stat'' \<or> name = ''lstat'' then
        Inr (MapSlot Stats (name @ '':'' @ or_default (part_at parts 0) ''number''))
      else if name = ''fstat'' then
        Inr (MapSlot Stats (''stat:'' @ or_default (part_at parts 0) ''number''))
      else if name = ''readdir'' then
        (let encoding = nullish (part_at parts 0) ''utf8'';
             withFileTypes = nullish (part_at parts 1) ''false'';
             recursive = nullish (part_at parts 2) ''false'';
             scope = (if recursive = ''true'' then ''readdir-recursive'' else ''flat'');
             kind = (if withFileTypes = ''true'' then ''entries'' else ''names'')
         in Inr (MapSlot Directories (scope @ '':'' @ encoding @ '':'' @ kind)))
      else if name = ''opendir'' then
        (let encoding = nullish (part_at parts 0) ''utf8'';
             recursive = nullish (part_at parts 1) ''false'';
             scope = (if recursive = ''true'' then ''opendir-recursive'' else ''flat'')
         in Inr (MapSlot Directories (scope @ '':'' @ encoding @ '':entries'')))
      else if name = ''access'' then Inr (MapSlot Access (or_default (part_at parts 0) ''0''))
      else if name = ''realpath'' \<or> name = ''realpath.native'' then Inr (MapSlot Realpaths name)
      else if name = ''readlink'' then Inr (MapSlot Readlinks (or_default (part_at parts 0) ''utf8''))
      else if name = ''open'' then Inr (MapSlot Opens (or_default (Some (join_with '':'' parts)) ''r''))
      else Inl (UnsupportedOperation operation))"

fun readSlot :: "cache_node \<Rightarrow> operation_slot \<Rightarrow> stored_outcome option" where
  "readSlot nd ContentSlot = nd_content nd"
| "readSlot nd (MapSlot f k) =
     (case node_field nd f of None \<Rightarrow> None | Some m \<Rightarrow> map_of m k)"

fun writeSlot :: "cache_node \<Rightarrow> operation_slot \<Rightarrow> stored_outcome \<Rightarrow> cache_node" where
  "writeSlot nd ContentSlot out = nd\<lparr>nd_content := Some out\<rparr>"
| "writeSlot nd (MapSlot f k) out =
     set_node_field nd f (js_set k out (nullish (node_field nd f) []))"

section \<open>Existence\<close>

fun is_null_value :: "stored_value \<Rightarrow> bool" where
  "is_null_value NullValue = True"
| "is_null_value _ = False"

definition isMissingOutcome :: "string \<Rightarrow> stored_outcome \<Rightarrow> bool" where
  "isMissingOutcome operation out =
     (case out of
        Failure e \<Rightarrow> err_code e = Some ''ENOENT''
      | Success v \<Rightarrow>
          (starts_with operation ''stat:'' \<or> starts_with operation ''lstat:'') \<and> is_null_value v)"

definition observesLink :: "string \<Rightarrow> bool" where
  "observesLink operation \<longleftrightarrow>
     starts_with operation ''lstat:'' \<or> starts_with operation ''readlink:''"

text \<open>\<open>Boolean(value)\<close> on the values an outcome may carry.\<close>

fun truthy :: "stored_value \<Rightarrow> bool" where
  "truthy NullValue = False"
| "truthy (BoolValue b) = b"
| "truthy (ContentValue (ContentBase64 s)) = (s \<noteq> [])"
| "truthy _ = True"

definition updateExistence :: "cache_node \<Rightarrow> string \<Rightarrow> stored_outcome \<Rightarrow> bool \<Rightarrow> cache_node" where
  "updateExistence nd operation out missing =
     (let linkOperation = observesLink operation in
      case (operation = ''exists'', out) of
        (True, Success v) \<Rightarrow>
          (let nd' = nd\<lparr>nd_exists := Some (truthy v)\<rparr>
           in if truthy v then nd'\<lparr>nd_linkExists := Some True\<rparr> else nd')
      | _ \<Rightarrow>
          if missing then
            (let nd' = nd\<lparr>nd_exists := Some False\<rparr>
             in if linkOperation then nd'\<lparr>nd_linkExists := Some False\<rparr> else nd')
          else (case out of
                  Failure _ \<Rightarrow> nd
                | Success _ \<Rightarrow>
                    (let nd' = nd\<lparr>nd_linkExists := Some True\<rparr>
                     in if linkOperation then nd' else nd'\<lparr>nd_exists := Some True\<rparr>)))"

text \<open>\<open>namesFromEntries\<close> drops the types of a directory listing.\<close>

fun entry_name :: "directory_entry \<Rightarrow> cached_name" where
  "entry_name (NameEntry n) = n"
| "entry_name (DirentEntry n t p) = n"

fun namesFromEntries :: "stored_outcome option \<Rightarrow> stored_outcome option" where
  "namesFromEntries (Some (Success (EntriesValue es))) =
     Some (Success (EntriesValue (map (\<lambda>e. NameEntry (entry_name e)) es)))"
| "namesFromEntries out = out"

section \<open>Lemmas on fields\<close>

lemma fold_fields:
  assumes "\<And>f g nd. c f \<Longrightarrow> node_field (step f nd) g = (if f = g then val f else node_field nd g)"
    and "\<And>f nd. c f \<Longrightarrow> nd_exists (step f nd) = nd_exists nd"
    and "\<And>f nd. c f \<Longrightarrow> nd_linkExists (step f nd) = nd_linkExists nd"
    and "\<And>f nd. c f \<Longrightarrow> nd_content (step f nd) = nd_content nd"
  shows "node_field (fold (\<lambda>f nd. if c f then step f nd else nd) fs nd) g =
           (if g \<in> set fs \<and> c g then val g else node_field nd g)"
    and "nd_exists (fold (\<lambda>f nd. if c f then step f nd else nd) fs nd) = nd_exists nd"
    and "nd_linkExists (fold (\<lambda>f nd. if c f then step f nd else nd) fs nd) = nd_linkExists nd"
    and "nd_content (fold (\<lambda>f nd. if c f then step f nd else nd) fs nd) = nd_content nd"
  by (induction fs arbitrary: nd) (auto simp: assms)

text \<open>The maps of a node are JavaScript objects: a key occurs once.\<close>

definition wf_map :: "outcome_map \<Rightarrow> bool" where
  "wf_map m \<longleftrightarrow> distinct (js_keys m)"

definition wf_node :: "cache_node \<Rightarrow> bool" where
  "wf_node nd \<longleftrightarrow>
     list_all (\<lambda>f. case node_field nd f of None \<Rightarrow> True | Some m \<Rightarrow> wf_map m) MAP_FIELDS"

lemma wf_nodeD:
  assumes "wf_node nd" "node_field nd f = Some m"
  shows "distinct (js_keys m)"
proof -
  have "case node_field nd f of None \<Rightarrow> True | Some m \<Rightarrow> wf_map m"
    using assms(1) set_MAP_FIELDS unfolding wf_node_def list_all_iff by blast
  with assms(2) show ?thesis by (simp add: wf_map_def)
qed

lemma wf_nodeI: "(\<And>f m. node_field nd f = Some m \<Longrightarrow> distinct (js_keys m)) \<Longrightarrow> wf_node nd"
  by (auto simp: wf_node_def wf_map_def list_all_iff split: option.splits)

lemma node_field_createNode:
  "node_field (createNode nd) f =
     (case node_field nd f of None \<Rightarrow> None | Some m \<Rightarrow> Some (spread [] m))"
  unfolding createNode_def
  by (subst fold_fields(1) [where val = "\<lambda>f. Some (spread [] (the (node_field nd f)))"])
    (auto simp: copyMapField_def split: option.splits)

lemma createNode_flags [simp]:
  "nd_exists (createNode nd) = nd_exists nd"
  "nd_linkExists (createNode nd) = nd_linkExists nd"
  "nd_content (createNode nd) = nd_content nd"
  unfolding createNode_def
  by (subst fold_fields(2-4) [where val = "\<lambda>f. Some (spread [] (the (node_field nd f)))"];
      auto simp: copyMapField_def split: option.splits)+

lemma node_field_mergeNodes:
  "node_field (mergeNodes base upd) f =
     (if node_field base f = None \<and> node_field upd f = None then None
      else Some (spread (spread [] (nullish (node_field base f) [])) (nullish (node_field upd f) [])))"
  unfolding mergeNodes_def
  by (subst fold_fields(1) [where val = "\<lambda>f. Some (spread (spread [] (nullish (node_field base f) []))
        (nullish (node_field upd f) []))"])
    (cases f; auto simp: mergeMapField_def spread_nodes_def override_def)+

lemma mergeNodes_flags [simp]:
  "nd_exists (mergeNodes base upd) = override (nd_exists base) (nd_exists upd)"
  "nd_linkExists (mergeNodes base upd) = override (nd_linkExists base) (nd_linkExists upd)"
  "nd_content (mergeNodes base upd) = override (nd_content base) (nd_content upd)"
  unfolding mergeNodes_def
  by (subst fold_fields(2-4) [where val = "\<lambda>f. Some (spread (spread [] (nullish (node_field base f) []))
        (nullish (node_field upd f) []))"]; auto simp: mergeMapField_def spread_nodes_def)+

lemma node_field_sortedNode:
  "node_field (sortedNode cmp nd) f =
     (case node_field nd f of None \<Rightarrow> None
      | Some m \<Rightarrow> Some (from_entries (Sorting_Algorithms.sort (key fst cmp) (object_entries m))))"
  unfolding sortedNode_def
  by (subst fold_fields(1) [where val = "\<lambda>f. Some (from_entries
        (Sorting_Algorithms.sort (key fst cmp) (object_entries (the (node_field nd f)))))"])
    (auto simp: sortMapField_def split: option.splits)

lemma sortedNode_flags [simp]:
  "nd_exists (sortedNode cmp nd) = nd_exists nd"
  "nd_linkExists (sortedNode cmp nd) = nd_linkExists nd"
  "nd_content (sortedNode cmp nd) = nd_content nd"
  unfolding sortedNode_def
  by (subst fold_fields(2-4) [where val = "\<lambda>f. Some (from_entries
        (Sorting_Algorithms.sort (key fst cmp) (object_entries (the (node_field nd f)))))"];
      auto simp: sortMapField_def split: option.splits)+

lemma distinct_js_keys_perm: "mset xs = mset ys \<Longrightarrow> distinct (js_keys xs) \<Longrightarrow> distinct (js_keys ys)"
  by (metis mset_eq_imp_distinct_iff mset_map)

lemma map_of_sorted_entries:
  assumes "distinct (js_keys m)"
  shows "map_of (from_entries (Sorting_Algorithms.sort (key fst cmp) (object_entries m))) = map_of m"
proof -
  let ?s = "Sorting_Algorithms.sort (key fst cmp) (object_entries m)"
  have d: "distinct (js_keys ?s)"
    by (rule distinct_js_keys_perm [OF _ distinct_object_entries [OF assms]]) simp
  then have "map_of (from_entries ?s) = map_of ?s"
    by (rule map_of_from_entries)
  also have "\<dots> = map_of m"
    using assms d by (intro map_of_perm) simp_all
  finally show ?thesis .
qed

section \<open>What is read back\<close>

lemma readSlot_createNode [simp]:
  "wf_node nd \<Longrightarrow> readSlot (createNode nd) slot = readSlot nd slot"
  by (cases slot) (auto simp: node_field_createNode map_of_spread dest: wf_nodeD split: option.splits)

lemma readSlot_mergeNodes:
  assumes "wf_node base" "wf_node upd"
  shows "readSlot (mergeNodes base upd) slot = override (readSlot base slot) (readSlot upd slot)"
proof (cases slot)
  case ContentSlot
  then show ?thesis by simp
next
  case (MapSlot f k)
  have d: "distinct (js_keys (nullish (node_field base f) []))"
    "distinct (js_keys (nullish (node_field upd f) []))"
    using wf_nodeD [OF assms(1)] wf_nodeD [OF assms(2)]
    by (cases "node_field base f"; simp; cases "node_field upd f"; simp)+
  show ?thesis
    using d MapSlot
    by (auto simp: node_field_mergeNodes map_of_spread override_def map_add_def
        split: option.splits)
qed

lemma readSlot_sortedNode [simp]:
  "wf_node nd \<Longrightarrow> readSlot (sortedNode cmp nd) slot = readSlot nd slot"
  by (cases slot)
    (auto simp: node_field_sortedNode map_of_sorted_entries dest: wf_nodeD split: option.splits)

lemma readSlot_writeSlot [simp]: "readSlot (writeSlot nd slot out) slot = Some out"
  by (cases slot) (auto simp: AList.update_conv)

lemma readSlot_writeSlot_other:
  "slot \<noteq> slot' \<Longrightarrow> readSlot (writeSlot nd slot out) slot' = readSlot nd slot'"
  by (cases slot; cases slot'; cases "node_field nd (case slot of MapSlot f k \<Rightarrow> f | _ \<Rightarrow> Access)")
    (auto simp: AList.update_conv split: option.splits)

lemma writeSlot_flags [simp, frame_simps]:
  "nd_exists (writeSlot nd slot out) = nd_exists nd"
  "nd_linkExists (writeSlot nd slot out) = nd_linkExists nd"
  by (cases slot, simp_all)+

lemma updateExistence_frame [simp, frame_simps]:
  "nd_content (updateExistence nd op out m) = nd_content nd"
  "node_field (updateExistence nd op out m) f = node_field nd f"
  by (auto simp: updateExistence_def Let_def split: outcome.splits bool.splits)

lemma readSlot_updateExistence [simp]:
  "readSlot (updateExistence nd op out m) slot = readSlot nd slot"
  by (cases slot) auto

section \<open>Well-formedness is kept\<close>

lemma wf_empty_node [simp]: "wf_node empty_node"
  by (auto intro: wf_nodeI)

lemma wf_createNode [simp]: "wf_node (createNode nd)"
  by (rule wf_nodeI) (auto simp: node_field_createNode distinct_spread split: option.splits)

lemma wf_mergeNodes [simp]: "wf_node (mergeNodes base upd)"
  by (rule wf_nodeI) (auto simp: node_field_mergeNodes distinct_spread split: if_splits)

lemma wf_sortedNode [simp]: "wf_node (sortedNode cmp nd)"
  by (rule wf_nodeI) (auto simp: node_field_sortedNode split: option.splits)

lemma wf_writeSlot [simp]: "wf_node nd \<Longrightarrow> wf_node (writeSlot nd slot out)"
proof (rule wf_nodeI)
  fix f m assume wf: "wf_node nd" and m: "node_field (writeSlot nd slot out) f = Some m"
  show "distinct (js_keys m)"
  proof (cases slot)
    case ContentSlot
    with wf m show ?thesis by (auto dest: wf_nodeD)
  next
    case (MapSlot g k)
    with wf m show ?thesis
      by (cases "node_field nd g")
        (auto simp: AList.distinct_update dest: wf_nodeD split: if_splits)
  qed
qed

lemma wf_updateExistence [simp]: "wf_node (updateExistence nd op out m) = wf_node nd"
  by (simp add: wf_node_def)

end
