(* ===== verification/Archive_Serialization.thy ===== *)
theory Archive_Serialization
  imports Archive_Nodes Base64 "HOL-Library.Word"
begin

unbundle bit_operations_syntax

text \<open>
  \<open>packages/shared/src/fs-cache/archive-serialization.ts\<close>: the archive document to and from
  the messages of \<open>archive.proto\<close>. The byte encoding of a message is protobufjs, code outside
  the repository: \<open>encode\<close> and \<open>decode\<close> are parameters wherever they are used. A message
  is modelled as what protobufjs keeps of it: an optional field that is \<open>undefined\<close> or
  \<open>null\<close> is absent, and a \<open>oneof\<close> holds the member that is set, or none.
  A \<open>TypeError\<close> that the code would raise on an ill-typed stored value is a result.
\<close>

section \<open>Messages\<close>

datatype 'v observation_result = ObsValue 'v | ObsError fs_error | ObsUnset

record 'v observation =
  ob_key :: string
  ob_result :: "'v observation_result"

record stat_snapshot =
  sn_fields :: "(string, string) js_map"
  sn_types :: nat

record proto_path =
  px_relative :: bool
  px_path :: string

record proto_directory_entry =
  de_dirent :: bool
  de_nameIsBuffer :: bool
  de_name :: buffer
  de_type :: int
  de_parentPath :: "proto_path option"

record proto_name =
  pn_buffer :: bool
  pn_value :: buffer

datatype content_result = NoContent | Content buffer | ContentError fs_error

record proto_entry =
  pe_path :: string
  pe_exists :: "bool option"
  pe_linkExists :: "bool option"
  pe_content :: content_result
  pe_stats :: "stat_snapshot observation list"
  pe_access :: "unit observation list"
  pe_opens :: "unit observation list"
  pe_directories :: "proto_directory_entry list observation list"
  pe_realpaths :: "proto_path observation list"
  pe_readlinks :: "proto_name observation list"

record proto_document =
  pd_magic :: string
  pd_formatVersion :: nat
  pd_createdAt :: string
  pd_updatedAt :: string
  pd_missingPaths :: "string list"
  pd_entries :: "proto_entry list"

datatype type_error = TypeError string

section \<open>To messages\<close>

text \<open>
  The shape the six \<open>typed...\<close> functions share: one observation per entry of the object, with
  the error of a failed outcome or the converted value of a successful one.
\<close>

definition typed_entries :: "(stored_value \<Rightarrow> type_error + 'v) \<Rightarrow> outcome_map option \<Rightarrow>
    type_error + 'v observation list" where
  "typed_entries conv m =
     map_result (\<lambda>(k, out).
         case out of
           Success v \<Rightarrow> bind_result (conv v) (\<lambda>w. Inr \<lparr>ob_key = k, ob_result = ObsValue w\<rparr>)
         | Failure e \<Rightarrow> Inr \<lparr>ob_key = k, ob_result = ObsError e\<rparr>)
       (object_entries (nullish m []))"

definition typedVoid :: "outcome_map option \<Rightarrow> type_error + unit observation list" where
  "typedVoid = typed_entries (\<lambda>v. Inr ())"

text \<open>\<open>STAT_TYPES.reduce((mask, type, index) => mask | (types[type] ? 1 << index : 0), 0)\<close>.\<close>

definition type_mask :: "(string, bool) js_map \<Rightarrow> nat" where
  "type_mask types =
     fold (\<lambda>(index, t) mask. mask OR (if map_of types t = Some True then push_bit index 1 else 0))
       (List.enumerate 0 STAT_TYPES) 0"

fun present_fields :: "(string, string option) js_map \<Rightarrow> (string, string) js_map" where
  "present_fields [] = []"
| "present_fields ((f, None) # fs) = present_fields fs"
| "present_fields ((f, Some v) # fs) = (f, v) # present_fields fs"

fun typed_stat :: "stored_value \<Rightarrow> type_error + stat_snapshot" where
  "typed_stat (StatValue st) =
     Inr \<lparr>sn_fields = present_fields (cs_fields st), sn_types = type_mask (cs_types st)\<rparr>"
| "typed_stat _ = Inl (TypeError ''fields'')"

definition typedStats :: "outcome_map option \<Rightarrow> type_error + stat_snapshot observation list" where
  "typedStats = typed_entries typed_stat"

text \<open>\<open>DIRENT_TYPES.indexOf(type)\<close> is \<open>-1\<close> for a type that is not listed.\<close>

definition index_of :: "string list \<Rightarrow> string \<Rightarrow> int" where
  "index_of xs x =
     (case find (\<lambda>(i, y). y = x) (List.enumerate 0 xs) of None \<Rightarrow> -1 | Some (i, y) \<Rightarrow> int i)"

fun name_bytes :: "cached_name \<Rightarrow> buffer" where
  "name_bytes (BufferName v) = b64_decode v"
| "name_bytes (StringName v) = v"

fun is_buffer_name :: "cached_name \<Rightarrow> bool" where
  "is_buffer_name (BufferName v) = True"
| "is_buffer_name (StringName v) = False"

definition typed_path :: "portable_path \<Rightarrow> proto_path" where
  "typed_path p = \<lparr>px_relative = (pp_kind p = RelativePath), px_path = pp_path p\<rparr>"

text \<open>
  An entry of a listing. \<open>indexOf(undefined)\<close> is \<open>-1\<close>, and reading the kind of an absent
  parent path is a \<open>TypeError\<close>.
\<close>

fun typed_directory_entry :: "directory_entry \<Rightarrow> type_error + proto_directory_entry" where
  "typed_directory_entry (NameEntry n) =
     Inr \<lparr>de_dirent = False, de_nameIsBuffer = is_buffer_name n, de_name = name_bytes n,
          de_type = 0, de_parentPath = None\<rparr>"
| "typed_directory_entry (DirentEntry n t None) = Inl (TypeError ''kind'')"
| "typed_directory_entry (DirentEntry n t (Some p)) =
     Inr \<lparr>de_dirent = True, de_nameIsBuffer = is_buffer_name n, de_name = name_bytes n,
          de_type = (case t of None \<Rightarrow> -1 | Some t' \<Rightarrow> index_of DIRENT_TYPES t'),
          de_parentPath = Some (typed_path p)\<rparr>"

fun typed_entries_value :: "stored_value \<Rightarrow> type_error + proto_directory_entry list" where
  "typed_entries_value (EntriesValue es) = map_result typed_directory_entry es"
| "typed_entries_value _ = Inl (TypeError ''map'')"

definition typedDirectories :: "outcome_map option \<Rightarrow>
    type_error + proto_directory_entry list observation list" where
  "typedDirectories = typed_entries typed_entries_value"

fun typed_path_value :: "stored_value \<Rightarrow> type_error + proto_path" where
  "typed_path_value (PathValue p) = Inr (typed_path p)"
| "typed_path_value _ = Inl (TypeError ''path'')"

definition typedPaths :: "outcome_map option \<Rightarrow> type_error + proto_path observation list" where
  "typedPaths = typed_entries typed_path_value"

fun typed_name_value :: "stored_value \<Rightarrow> type_error + proto_name" where
  "typed_name_value (NameValue n) =
     Inr \<lparr>pn_buffer = is_buffer_name n, pn_value = name_bytes n\<rparr>"
| "typed_name_value _ = Inl (TypeError ''value'')"

definition typedNames :: "outcome_map option \<Rightarrow> type_error + proto_name observation list" where
  "typedNames = typed_entries typed_name_value"

fun typed_content :: "stored_outcome option \<Rightarrow> type_error + content_result" where
  "typed_content None = Inr NoContent"
| "typed_content (Some (Failure e)) = Inr (ContentError e)"
| "typed_content (Some (Success (ContentValue (ContentBuffer b)))) = Inr (Content b)"
| "typed_content (Some (Success (ContentValue (ContentBase64 s)))) = Inr (Content (b64_decode s))"
| "typed_content (Some (Success _)) = Inl (TypeError ''content'')"

text \<open>\<open>Object.keys(node).length === 1 && node.exists === false\<close>.\<close>

definition only_missing :: "cache_node \<Rightarrow> bool" where
  "only_missing nd \<longleftrightarrow> nd_exists nd = Some False \<and> nd_linkExists nd = None \<and> nd_content nd = None
     \<and> list_all (\<lambda>f. node_field nd f = None) MAP_FIELDS"

definition serialize_entry :: "archive_entry \<Rightarrow> type_error + proto_entry" where
  "serialize_entry en =
     (let nd = ent_node en in
      bind_result (typedStats (nd_stats nd)) (\<lambda>stats.
      bind_result (typedVoid (nd_access nd)) (\<lambda>access.
      bind_result (typedVoid (nd_opens nd)) (\<lambda>opens.
      bind_result (typedDirectories (nd_directories nd)) (\<lambda>directories.
      bind_result (typedPaths (nd_realpaths nd)) (\<lambda>realpaths.
      bind_result (typedNames (nd_readlinks nd)) (\<lambda>readlinks.
      bind_result (typed_content (nd_content nd)) (\<lambda>content.
        Inr \<lparr>pe_path = ent_path en, pe_exists = nd_exists nd, pe_linkExists = nd_linkExists nd,
             pe_content = content, pe_stats = stats, pe_access = access, pe_opens = opens,
             pe_directories = directories, pe_realpaths = realpaths, pe_readlinks = readlinks\<rparr>))))))))"

definition serializeProtobufDocument :: "archive_document \<Rightarrow> type_error + proto_document" where
  "serializeProtobufDocument d =
     bind_result (map_result serialize_entry (filter (\<lambda>en. \<not> only_missing (ent_node en)) (doc_entries d)))
       (\<lambda>es. Inr \<lparr>pd_magic = doc_magic d, pd_formatVersion = doc_formatVersion d,
          pd_createdAt = doc_createdAt d, pd_updatedAt = doc_updatedAt d,
          pd_missingPaths = map ent_path (filter (\<lambda>en. only_missing (ent_node en)) (doc_entries d)),
          pd_entries = es\<rparr>)"

section \<open>From messages\<close>

definition restore_entries :: "string \<Rightarrow> ('v \<Rightarrow> stored_value) \<Rightarrow> 'v observation list \<Rightarrow>
    archive_error + outcome_map" where
  "restore_entries what conv obs =
     bind_result
       (map_result (\<lambda>ob.
           case ob_result ob of
             ObsValue w \<Rightarrow> Inr (ob_key ob, Success (conv w))
           | ObsError e \<Rightarrow> Inr (ob_key ob, Failure e)
           | ObsUnset \<Rightarrow> Inl (MissingField (what @ '' observation error''))) obs)
       (\<lambda>es. Inr (from_entries es))"

definition restoreVoid :: "unit observation list \<Rightarrow> archive_error + outcome_map" where
  "restoreVoid = restore_entries ''void'' (\<lambda>_. NullValue)"

definition restore_types :: "nat \<Rightarrow> (string, bool) js_map" where
  "restore_types types =
     map (\<lambda>(index, t). (t, types AND push_bit index 1 \<noteq> 0)) (List.enumerate 0 STAT_TYPES)"

definition restore_stat :: "stat_snapshot \<Rightarrow> stored_value" where
  "restore_stat s =
     StatValue \<lparr>cs_fields = map (\<lambda>(f, v). (f, Some v)) (sn_fields s),
                cs_types = restore_types (sn_types s)\<rparr>"

definition restoreStats :: "stat_snapshot observation list \<Rightarrow> archive_error + outcome_map" where
  "restoreStats = restore_entries ''stat'' restore_stat"

definition restore_path :: "proto_path \<Rightarrow> portable_path" where
  "restore_path p = \<lparr>pp_kind = (if px_relative p then RelativePath else AbsolutePath),
     pp_path = px_path p\<rparr>"

definition restore_name :: "bool \<Rightarrow> buffer \<Rightarrow> cached_name" where
  "restore_name is_buffer b = (if is_buffer then BufferName (b64_encode b) else StringName b)"

text \<open>\<open>DIRENT_TYPES[type]\<close> is \<open>undefined\<close> out of range.\<close>

definition restore_directory_entry :: "proto_directory_entry \<Rightarrow> directory_entry" where
  "restore_directory_entry d =
     (let n = restore_name (de_nameIsBuffer d) (de_name d) in
      if de_dirent d
      then DirentEntry n
             (if 0 \<le> de_type d then part_at DIRENT_TYPES (nat (de_type d)) else None)
             (map_option restore_path (de_parentPath d))
      else NameEntry n)"

definition restoreDirectories :: "proto_directory_entry list observation list \<Rightarrow>
    archive_error + outcome_map" where
  "restoreDirectories =
     restore_entries ''directory'' (\<lambda>ds. EntriesValue (map restore_directory_entry ds))"

definition restorePaths :: "proto_path observation list \<Rightarrow> archive_error + outcome_map" where
  "restorePaths = restore_entries ''path'' (\<lambda>p. PathValue (restore_path p))"

definition restoreNames :: "proto_name observation list \<Rightarrow> archive_error + outcome_map" where
  "restoreNames =
     restore_entries ''name'' (\<lambda>n. NameValue (restore_name (pn_buffer n) (pn_value n)))"

text \<open>A repeated field is restored only when it has elements: \<open>entry.stats?.length\<close>.\<close>

definition restore_field :: "('v observation list \<Rightarrow> archive_error + outcome_map) \<Rightarrow>
    'v observation list \<Rightarrow> archive_error + outcome_map option" where
  "restore_field restore obs =
     (if obs = [] then Inr None else bind_result (restore obs) (\<lambda>m. Inr (Some m)))"

fun restore_content :: "content_result \<Rightarrow> stored_outcome option" where
  "restore_content NoContent = None"
| "restore_content (Content b) = Some (Success (ContentValue (ContentBuffer b)))"
| "restore_content (ContentError e) = Some (Failure e)"

definition deserialize_entry :: "proto_entry \<Rightarrow> archive_error + archive_entry" where
  "deserialize_entry e =
     bind_result (restore_field restoreStats (pe_stats e)) (\<lambda>stats.
     bind_result (restore_field restoreVoid (pe_access e)) (\<lambda>access.
     bind_result (restore_field restoreVoid (pe_opens e)) (\<lambda>opens.
     bind_result (restore_field restoreDirectories (pe_directories e)) (\<lambda>directories.
     bind_result (restore_field restorePaths (pe_realpaths e)) (\<lambda>realpaths.
     bind_result (restore_field restoreNames (pe_readlinks e)) (\<lambda>readlinks.
       Inr \<lparr>ent_path = pe_path e,
            ent_node = \<lparr>nd_exists = pe_exists e, nd_linkExists = pe_linkExists e,
              nd_content = restore_content (pe_content e), nd_access = access,
              nd_directories = directories, nd_opens = opens, nd_readlinks = readlinks,
              nd_realpaths = realpaths, nd_stats = stats\<rparr>\<rparr>))))))"

definition deserializeProtobufDocument :: "proto_document \<Rightarrow> archive_error + archive_document" where
  "deserializeProtobufDocument p =
     bind_result (map_result deserialize_entry (pd_entries p))
       (\<lambda>es. Inr \<lparr>doc_magic = pd_magic p, doc_formatVersion = pd_formatVersion p,
          doc_createdAt = pd_createdAt p, doc_updatedAt = pd_updatedAt p, doc_entries = es,
          doc_missingPaths = pd_missingPaths p\<rparr>)"

section \<open>What a stored value may be\<close>

fun valid_name :: "cached_name \<Rightarrow> bool" where
  "valid_name (BufferName v) \<longleftrightarrow> b64_encode (b64_decode v) = v"
| "valid_name (StringName v) \<longleftrightarrow> True"

fun valid_directory_entry :: "directory_entry \<Rightarrow> bool" where
  "valid_directory_entry (NameEntry n) \<longleftrightarrow> valid_name n"
| "valid_directory_entry (DirentEntry n t p) \<longleftrightarrow>
     valid_name n \<and> (case t of None \<Rightarrow> False | Some t' \<Rightarrow> t' \<in> set DIRENT_TYPES) \<and> p \<noteq> None"

fun value_fits :: "map_field \<Rightarrow> stored_value \<Rightarrow> bool" where
  "value_fits Access v \<longleftrightarrow> v = NullValue"
| "value_fits Opens v \<longleftrightarrow> v = NullValue"
| "value_fits Directories v \<longleftrightarrow>
     (case v of EntriesValue es \<Rightarrow> list_all valid_directory_entry es | _ \<Rightarrow> False)"
| "value_fits Readlinks v \<longleftrightarrow> (case v of NameValue n \<Rightarrow> valid_name n | _ \<Rightarrow> False)"
| "value_fits Realpaths v \<longleftrightarrow> (case v of PathValue p \<Rightarrow> True | _ \<Rightarrow> False)"
| "value_fits Stats v \<longleftrightarrow> (case v of StatValue st \<Rightarrow> True | _ \<Rightarrow> False)"

fun outcome_fits :: "(stored_value \<Rightarrow> bool) \<Rightarrow> stored_outcome \<Rightarrow> bool" where
  "outcome_fits P (Success v) \<longleftrightarrow> P v"
| "outcome_fits P (Failure e) \<longleftrightarrow> True"

fun is_content :: "stored_value \<Rightarrow> bool" where
  "is_content (ContentValue c) \<longleftrightarrow> True"
| "is_content _ \<longleftrightarrow> False"

definition typed_node :: "cache_node \<Rightarrow> bool" where
  "typed_node nd \<longleftrightarrow> wf_node nd
     \<and> (case nd_content nd of None \<Rightarrow> True | Some out \<Rightarrow> outcome_fits is_content out)
     \<and> list_all (\<lambda>f. case node_field nd f of None \<Rightarrow> True
          | Some m \<Rightarrow> list_all (\<lambda>(k, out). outcome_fits (value_fits f) out) m) MAP_FIELDS"

text \<open>What survives in the archive: the fields of a stat that are defined, all its types as
  booleans, and content as bytes.\<close>

definition normal_stat :: "cached_stat \<Rightarrow> cached_stat" where
  "normal_stat st =
     \<lparr>cs_fields = map (\<lambda>(f, v). (f, Some v)) (present_fields (cs_fields st)),
      cs_types = map (\<lambda>t. (t, map_of (cs_types st) t = Some True)) STAT_TYPES\<rparr>"

fun normal_value :: "stored_value \<Rightarrow> stored_value" where
  "normal_value (StatValue st) = StatValue (normal_stat st)"
| "normal_value (ContentValue (ContentBase64 s)) = ContentValue (ContentBuffer (b64_decode s))"
| "normal_value v = v"

definition normal_outcome :: "stored_outcome \<Rightarrow> stored_outcome" where
  "normal_outcome = map_outcome normal_value"

section \<open>Round trips\<close>

lemma enumerate_fold_or_bit:
  "bit (fold (\<lambda>(index, t) mask. mask OR (if P t then push_bit index 1 else 0)) (List.enumerate n ts) m) i
     \<longleftrightarrow> bit (m::nat) i \<or> (n \<le> i \<and> i < n + length ts \<and> P (ts ! (i - n)))"
proof (induction ts arbitrary: n m i)
  case Nil
  show ?case by auto
next
  case (Cons t ts)
  show ?case
    by (cases "i = n"; cases "n < i")
      (auto simp: Cons.IH bit_or_iff bit_push_bit_iff bit_1_iff bit_exp_iff nth_Cons' Suc_diff_Suc)
qed

lemma bit_type_mask:
  "bit (type_mask types) i \<longleftrightarrow> i < length STAT_TYPES \<and> map_of types (STAT_TYPES ! i) = Some True"
  by (simp add: type_mask_def enumerate_fold_or_bit [where P = "\<lambda>t. map_of types t = Some True"])

lemma and_power_iff: "(m :: nat) AND 2 ^ i = 0 \<longleftrightarrow> \<not> bit m i"
  by (simp add: and_exp_eq_0_iff_not_bit)

lemma restore_types_mask:
  "restore_types (type_mask types) = map (\<lambda>t. (t, map_of types t = Some True)) STAT_TYPES"
proof (rule nth_equalityI)
  show "length (restore_types (type_mask types)) = length (map (\<lambda>t. (t, map_of types t = Some True)) STAT_TYPES)"
    by (simp add: restore_types_def)
next
  fix i
  assume "i < length (restore_types (type_mask types))"
  then have "i < length STAT_TYPES"
    by (simp add: restore_types_def)
  then show "restore_types (type_mask types) ! i = map (\<lambda>t. (t, map_of types t = Some True)) STAT_TYPES ! i"
    by (simp add: restore_types_def nth_enumerate_eq and_power_iff bit_type_mask del: neq0_conv)
qed

lemma restore_typed_stat: "typed_stat v = Inr s \<Longrightarrow> restore_stat s = normal_value v"
  by (cases v) (auto simp: restore_stat_def normal_stat_def restore_types_mask)

lemma restore_typed_path [simp]: "restore_path (typed_path p) = p"
  by (cases p; cases "pp_kind p") (auto simp: restore_path_def typed_path_def)

lemma restore_name_bytes: "valid_name n \<Longrightarrow> restore_name (is_buffer_name n) (name_bytes n) = n"
  by (cases n) (auto simp: restore_name_def)

lemma index_of_DIRENT: "t \<in> set DIRENT_TYPES \<Longrightarrow>
    0 \<le> index_of DIRENT_TYPES t \<and> part_at DIRENT_TYPES (nat (index_of DIRENT_TYPES t)) = Some t"
  by (auto simp: DIRENT_TYPES_def index_of_def eval_nat_numeral)

lemma restore_typed_directory_entry:
  assumes "valid_directory_entry e"
  shows "\<exists>d. typed_directory_entry e = Inr d \<and> restore_directory_entry d = e"
proof (cases e)
  case (NameEntry n)
  with assms show ?thesis by (simp add: restore_directory_entry_def Let_def restore_name_bytes)
next
  case (DirentEntry n t p)
  with assms obtain t' p' where "t = Some t'" "p = Some p'" "t' \<in> set DIRENT_TYPES" "valid_name n"
    by (auto split: option.splits)
  with DirentEntry index_of_DIRENT [of t'] show ?thesis
    by (simp add: restore_directory_entry_def Let_def restore_name_bytes)
qed

lemma map_result_inverse:
  assumes "\<And>x. x \<in> set xs \<Longrightarrow> \<exists>y. f x = Inr y \<and> g y = x"
  shows "\<exists>ys. map_result f xs = Inr ys \<and> map g ys = xs"
  using assms
proof (induction xs)
  case Nil
  then show ?case by simp
next
  case (Cons x xs)
  from Cons.prems [of x] obtain y where "f x = Inr y" "g y = x" by auto
  moreover obtain ys where "map_result f xs = Inr ys" "map g ys = xs"
    using Cons by auto
  ultimately show ?case by simp
qed

lemma typed_restore_entries:
  assumes d: "distinct (js_keys (nullish m []))"
    and conv: "\<And>k v. (k, Success v) \<in> set (nullish m []) \<Longrightarrow> \<exists>w. conv v = Inr w \<and> back w = normal_value v"
  shows "\<exists>obs m'. typed_entries conv m = Inr obs
    \<and> restore_field (restore_entries what back) obs = Inr m'
    \<and> (\<forall>k. map_of (nullish m' []) k = map_option normal_outcome (map_of (nullish m []) k))
    \<and> (case m' of None \<Rightarrow> True | Some m'' \<Rightarrow> distinct (js_keys m''))"
proof -
  let ?m = "object_entries (nullish m [])"
  let ?t = "\<lambda>(k, out). case out of
           Success v \<Rightarrow> bind_result (conv v) (\<lambda>w. Inr \<lparr>ob_key = k, ob_result = ObsValue w\<rparr>)
         | Failure e \<Rightarrow> Inr \<lparr>ob_key = k, ob_result = ObsError e\<rparr>"
  let ?r = "\<lambda>ob. case ob_result ob of
             ObsValue w \<Rightarrow> Inr (ob_key ob, Success (back w))
           | ObsError e \<Rightarrow> Inr (ob_key ob, Failure e)
           | ObsUnset \<Rightarrow> Inl (MissingField (what @ '' observation error''))"
  have "\<exists>obs. map_result ?t xs = Inr obs
      \<and> map_result ?r obs = Inr (map (\<lambda>(k, out). (k, normal_outcome out)) xs)"
    if "set xs \<subseteq> set (nullish m [])" for xs
    using that
  proof (induction xs)
    case Nil
    then show ?case by simp
  next
    case (Cons x xs)
    then obtain obs where obs: "map_result ?t xs = Inr obs"
      "map_result ?r obs = Inr (map (\<lambda>(k, out). (k, normal_outcome out)) xs)"
      by auto
    obtain k out where x: "x = (k, out)" by (cases x)
    show ?case
    proof (cases out)
      case (Success v)
      with Cons.prems x obtain w where "conv v = Inr w" "back w = normal_value v"
        using conv [of k v] by auto
      with obs x Success show ?thesis by (auto simp: normal_outcome_def)
    next
      case (Failure e)
      with obs x show ?thesis by (auto simp: normal_outcome_def)
    qed
  qed
  from this [of ?m] obtain obs where obs: "map_result ?t ?m = Inr obs"
    "map_result ?r obs = Inr (map (\<lambda>(k, out). (k, normal_outcome out)) ?m)"
    by auto
  let ?m' = "map (\<lambda>(k, out). (k, normal_outcome out)) ?m"
  have keys: "js_keys ?m' = js_keys ?m"
    by (simp add: comp_def split_def)
  have look: "map_of (from_entries ?m') k = map_option normal_outcome (map_of (nullish m []) k)" for k
  proof -
    have "map_of (from_entries ?m') = map_of ?m'"
      by (rule map_of_from_entries) (simp only: keys distinct_object_entries [OF d])
    then show ?thesis using d by (simp add: map_of_map)
  qed
  show ?thesis
  proof (cases "obs = []")
    case True
    then have "?m' = []" using obs(2) by auto
    with True obs look show ?thesis
      by (auto simp: typed_entries_def restore_field_def from_entries_def)
  next
    case False
    have "restore_entries what back obs = Inr (from_entries ?m')"
      using obs(2) by (simp add: restore_entries_def)
    with False obs(1) look show ?thesis
      by (intro exI [of _ obs] exI [of _ "Some (from_entries ?m')"])
        (simp add: typed_entries_def restore_field_def)
  qed
qed

lemma typed_node_fields:
  assumes "typed_node nd"
  shows "distinct (js_keys (nullish (node_field nd f) []))"
    and "(k, out) \<in> set (nullish (node_field nd f) []) \<Longrightarrow> outcome_fits (value_fits f) out"
proof -
  have wf: "wf_node nd"
    and fits: "case node_field nd f of None \<Rightarrow> True
      | Some m \<Rightarrow> list_all (\<lambda>(k, out). outcome_fits (value_fits f) out) m"
    using assms set_MAP_FIELDS [of f] unfolding typed_node_def list_all_iff by blast+
  from wf show "distinct (js_keys (nullish (node_field nd f) []))"
    by (cases "node_field nd f") (auto dest: wf_nodeD)
  from fits show "(k, out) \<in> set (nullish (node_field nd f) []) \<Longrightarrow> outcome_fits (value_fits f) out"
    by (cases "node_field nd f") (auto simp: list_all_iff)
qed

lemma typed_restore_field:
  assumes "typed_node nd"
    and "\<And>v. value_fits f v \<Longrightarrow> \<exists>w. conv v = Inr w \<and> back w = normal_value v"
  shows "\<exists>obs m'. typed_entries conv (node_field nd f) = Inr obs
    \<and> restore_field (restore_entries what back) obs = Inr m'
    \<and> (\<forall>k. map_of (nullish m' []) k = map_option normal_outcome (map_of (nullish (node_field nd f) []) k))
    \<and> (case m' of None \<Rightarrow> True | Some m'' \<Rightarrow> distinct (js_keys m''))"
  by (rule typed_restore_entries) (use typed_node_fields [OF assms(1)] assms(2) in fastforce)+

lemma convert_stat: "value_fits Stats v \<Longrightarrow> \<exists>w. typed_stat v = Inr w \<and> restore_stat w = normal_value v"
  by (cases v) (auto simp: restore_stat_def normal_stat_def restore_types_mask)

lemma convert_path: "value_fits Realpaths v \<Longrightarrow>
    \<exists>w. typed_path_value v = Inr w \<and> PathValue (restore_path w) = normal_value v"
  by (cases v) auto

lemma convert_name: "value_fits Readlinks v \<Longrightarrow>
    \<exists>w. typed_name_value v = Inr w \<and> NameValue (restore_name (pn_buffer w) (pn_value w)) = normal_value v"
  by (cases v) (auto simp: restore_name_bytes)

lemma convert_entries: "value_fits Directories v \<Longrightarrow>
    \<exists>w. typed_entries_value v = Inr w \<and> EntriesValue (map restore_directory_entry w) = normal_value v"
proof (cases v)
  case (EntriesValue es)
  moreover assume "value_fits Directories v"
  ultimately have "\<exists>ws. map_result typed_directory_entry es = Inr ws
      \<and> map restore_directory_entry ws = es"
    by (intro map_result_inverse restore_typed_directory_entry) (auto simp: list_all_iff)
  with EntriesValue show ?thesis by auto
qed auto

lemma convert_access: "value_fits Access v \<Longrightarrow> \<exists>w. Inr () = Inr w \<and> NullValue = normal_value v"
  by auto

lemma convert_opens: "value_fits Opens v \<Longrightarrow> \<exists>w. Inr () = Inr w \<and> NullValue = normal_value v"
  by auto

lemma convert_content:
  assumes "typed_node nd"
  shows "\<exists>c. typed_content (nd_content nd) = Inr c
    \<and> restore_content c = map_option normal_outcome (nd_content nd)"
proof -
  have "case nd_content nd of None \<Rightarrow> True | Some out \<Rightarrow> outcome_fits is_content out"
    using assms by (simp add: typed_node_def)
  then show ?thesis
    by (cases "nd_content nd" rule: typed_content.cases) (auto simp: normal_outcome_def)
qed

text \<open>
  An entry survives the archive: its path and flags as they are, and every slot with the
  normalised outcome.
\<close>

lemma entry_roundtrip:
  assumes "typed_node (ent_node en)"
  shows "\<exists>e nd. serialize_entry en = Inr e
    \<and> deserialize_entry e = Inr \<lparr>ent_path = ent_path en, ent_node = nd\<rparr>
    \<and> nd_exists nd = nd_exists (ent_node en) \<and> nd_linkExists nd = nd_linkExists (ent_node en)
    \<and> wf_node nd \<and> (\<forall>slot. readSlot nd slot = map_option normal_outcome (readSlot (ent_node en) slot))"
proof -
  let ?n = "ent_node en"
  obtain s s' where s: "typedStats (nd_stats ?n) = Inr s" "restore_field restoreStats s = Inr s'"
    "\<forall>k. map_of (nullish s' []) k = map_option normal_outcome (map_of (nullish (nd_stats ?n) []) k)"
    "case s' of None \<Rightarrow> True | Some m \<Rightarrow> distinct (js_keys m)"
    using typed_restore_field [where f = Stats and what = "''stat''", OF assms convert_stat]
    by (auto simp: typedStats_def restoreStats_def)
  obtain a a' where a: "typedVoid (nd_access ?n) = Inr a" "restore_field restoreVoid a = Inr a'"
    "\<forall>k. map_of (nullish a' []) k = map_option normal_outcome (map_of (nullish (nd_access ?n) []) k)"
    "case a' of None \<Rightarrow> True | Some m \<Rightarrow> distinct (js_keys m)"
    using typed_restore_field [where f = Access and what = "''void''", OF assms convert_access]
    by (auto simp: typedVoid_def restoreVoid_def)
  obtain p p' where p: "typedVoid (nd_opens ?n) = Inr p" "restore_field restoreVoid p = Inr p'"
    "\<forall>k. map_of (nullish p' []) k = map_option normal_outcome (map_of (nullish (nd_opens ?n) []) k)"
    "case p' of None \<Rightarrow> True | Some m \<Rightarrow> distinct (js_keys m)"
    using typed_restore_field [where f = Opens and what = "''void''", OF assms convert_opens]
    by (auto simp: typedVoid_def restoreVoid_def)
  obtain d d' where d: "typedDirectories (nd_directories ?n) = Inr d"
    "restore_field restoreDirectories d = Inr d'"
    "\<forall>k. map_of (nullish d' []) k = map_option normal_outcome (map_of (nullish (nd_directories ?n) []) k)"
    "case d' of None \<Rightarrow> True | Some m \<Rightarrow> distinct (js_keys m)"
    using typed_restore_field [where f = Directories and what = "''directory''", OF assms convert_entries]
    by (auto simp: typedDirectories_def restoreDirectories_def)
  obtain r r' where r: "typedPaths (nd_realpaths ?n) = Inr r" "restore_field restorePaths r = Inr r'"
    "\<forall>k. map_of (nullish r' []) k = map_option normal_outcome (map_of (nullish (nd_realpaths ?n) []) k)"
    "case r' of None \<Rightarrow> True | Some m \<Rightarrow> distinct (js_keys m)"
    using typed_restore_field [where f = Realpaths and what = "''path''", OF assms convert_path]
    by (auto simp: typedPaths_def restorePaths_def)
  obtain l l' where l: "typedNames (nd_readlinks ?n) = Inr l" "restore_field restoreNames l = Inr l'"
    "\<forall>k. map_of (nullish l' []) k = map_option normal_outcome (map_of (nullish (nd_readlinks ?n) []) k)"
    "case l' of None \<Rightarrow> True | Some m \<Rightarrow> distinct (js_keys m)"
    using typed_restore_field [where f = Readlinks and what = "''name''", OF assms convert_name]
    by (auto simp: typedNames_def restoreNames_def)
  obtain c where c: "typed_content (nd_content ?n) = Inr c"
    "restore_content c = map_option normal_outcome (nd_content ?n)"
    using convert_content [OF assms] by auto
  define nd where "nd = \<lparr>nd_exists = nd_exists ?n, nd_linkExists = nd_linkExists ?n,
    nd_content = restore_content c, nd_access = a', nd_directories = d', nd_opens = p',
    nd_readlinks = l', nd_realpaths = r', nd_stats = s'\<rparr>"
  have look: "readSlot x (MapSlot f k) = map_of (nullish (node_field x f) []) k" for x f k
    by (cases "node_field x f") auto
  have "readSlot nd slot = map_option normal_outcome (readSlot ?n slot)" for slot
  proof (cases slot)
    case ContentSlot
    then show ?thesis by (simp add: nd_def c)
  next
    case (MapSlot f k)
    then show ?thesis
      using s(3) a(3) p(3) d(3) r(3) l(3) unfolding MapSlot look by (cases f) (simp_all add: nd_def)
  qed
  moreover have "wf_node nd"
    by (rule wf_nodeI) (use s(4) a(4) p(4) d(4) r(4) l(4) in \<open>rename_tac f m, case_tac f; simp add: nd_def\<close>)
  ultimately show ?thesis
    using s(1,2) a(1,2) p(1,2) d(1,2) r(1,2) l(1,2) c(1)
    by (simp add: serialize_entry_def deserialize_entry_def Let_def nd_def)
qed

end
