(* ===== verification/Posix_Path.thy ===== *)
theory Posix_Path
  imports Prelude
begin

text \<open>
  The functions of Node's \<open>path\<close> module that the sources call, on a POSIX platform
  (\<open>path.sep\<close> is \<open>'/'\<close>): \<open>isAbsolute\<close>, \<open>resolve\<close>, \<open>relative\<close>, \<open>normalize\<close>
  and \<open>join\<close>. The working directory is an
  argument of those that read it.
\<close>

definition path_isAbsolute :: "string \<Rightarrow> bool" where
  "path_isAbsolute p \<longleftrightarrow> starts_with p ''/''"

text \<open>\<open>normalizeString\<close>: one segment at a time, the result so far in reverse.\<close>

fun norm_step :: "bool \<Rightarrow> string list \<Rightarrow> string \<Rightarrow> string list" where
  "norm_step aboveRoot acc seg =
     (if seg = '''' \<or> seg = ''.'' then acc
      else if seg = ''..'' then
        (case acc of
           [] \<Rightarrow> if aboveRoot then [''..''] else []
         | seg0 # rest \<Rightarrow> if seg0 = ''..'' then (if aboveRoot then ''..'' # acc else acc) else rest)
      else seg # acc)"

definition norm_segments :: "bool \<Rightarrow> string list \<Rightarrow> string list" where
  "norm_segments aboveRoot segs = rev (foldl (norm_step aboveRoot) [] segs)"

definition abs_segments :: "string \<Rightarrow> string list" where
  "abs_segments p = norm_segments False (split_on (CHR ''/'') p)"

definition path_resolve :: "string \<Rightarrow> string \<Rightarrow> string" where
  "path_resolve cwd p =
     ''/'' @ join_with ''/'' (abs_segments (if path_isAbsolute p then p else cwd @ ''/'' @ p))"

fun strip_common :: "'a list \<Rightarrow> 'a list \<Rightarrow> 'a list \<times> 'a list" where
  "strip_common (x # xs) (y # ys) = (if x = y then strip_common xs ys else (x # xs, y # ys))"
| "strip_common xs ys = (xs, ys)"

definition path_relative :: "string \<Rightarrow> string \<Rightarrow> string \<Rightarrow> string" where
  "path_relative cwd from_path to_path =
     (if from_path = to_path then ''''
      else (let (fs, ts) = strip_common (abs_segments (path_resolve cwd from_path))
                             (abs_segments (path_resolve cwd to_path))
            in join_with ''/'' (replicate (length fs) ''..'' @ ts)))"

definition path_normalize :: "string \<Rightarrow> string" where
  "path_normalize p =
     (if p = '''' then ''.''
      else (let absolute = path_isAbsolute p;
                body = join_with ''/'' (norm_segments (\<not> absolute) (split_on (CHR ''/'') p));
                body' = (if body = '''' \<and> \<not> absolute then ''.'' else body);
                body'' = (if body' \<noteq> '''' \<and> ends_with p ''/'' then body' @ ''/'' else body')
            in if absolute then ''/'' @ body'' else body''))"

text \<open>\<open>path.join\<close> drops the empty arguments.\<close>

definition path_join :: "string list \<Rightarrow> string" where
  "path_join args =
     (let joined = join_with ''/'' (filter (\<lambda>a. a \<noteq> '''') args)
      in if joined = '''' then ''.'' else path_normalize joined)"

section \<open>Clean segments\<close>

definition clean_segment :: "string \<Rightarrow> bool" where
  "clean_segment s \<longleftrightarrow> s \<noteq> '''' \<and> s \<noteq> ''.'' \<and> s \<noteq> ''..'' \<and> CHR ''/'' \<notin> set s"

abbreviation clean :: "string list \<Rightarrow> bool" where
  "clean segs \<equiv> list_all clean_segment segs"

text \<open>The absolute path with the given segments; the root for none.\<close>

definition abs_path :: "string list \<Rightarrow> string" where
  "abs_path segs = ''/'' @ join_with ''/'' segs"

lemma foldl_norm_clean: "clean segs \<Longrightarrow> foldl (norm_step b) acc segs = rev segs @ acc"
  by (induction segs arbitrary: acc) (auto simp: clean_segment_def)

lemma norm_segments_clean: "clean segs \<Longrightarrow> norm_segments b segs = segs"
  by (simp add: norm_segments_def foldl_norm_clean)

lemma norm_step_clean:
  "clean acc \<Longrightarrow> CHR ''/'' \<notin> set seg \<Longrightarrow> clean (norm_step False acc seg)"
  by (cases acc) (auto simp: clean_segment_def)

lemma foldl_norm_step_clean:
  "clean acc \<Longrightarrow> \<forall>s\<in>set segs. CHR ''/'' \<notin> set s \<Longrightarrow> clean (foldl (norm_step False) acc segs)"
  by (induction segs arbitrary: acc) (auto simp: norm_step_clean simp del: norm_step.simps)

lemma split_on_parts: "s \<in> set (split_on c p) \<Longrightarrow> c \<notin> set s"
  by (induction c p arbitrary: s rule: split_on.induct) (auto split: list.splits if_splits)

lemma clean_norm_segments: "clean (norm_segments False (split_on (CHR ''/'') p))"
proof -
  have "clean (foldl (norm_step False) [] (split_on (CHR ''/'') p))"
    by (rule foldl_norm_step_clean) (auto dest: split_on_parts)
  then show ?thesis by (simp add: norm_segments_def list_all_iff)
qed

lemma clean_abs_segments: "clean (abs_segments p)"
  by (simp add: abs_segments_def clean_norm_segments)

lemma clean_no_slash: "clean segs \<Longrightarrow> \<forall>p\<in>set segs. CHR ''/'' \<notin> set p"
  by (auto simp: list_all_iff clean_segment_def)

lemma split_abs_path:
  assumes "clean segs"
  shows "split_on (CHR ''/'') (abs_path segs) = '''' # (if segs = [] then [''''] else segs)"
proof (cases "segs = []")
  case True
  then show ?thesis by (simp add: abs_path_def)
next
  case False
  with assms have "split_on (CHR ''/'') (join_with ''/'' segs) = segs"
    by (intro split_join) (simp_all add: clean_no_slash)
  with False show ?thesis by (simp add: abs_path_def)
qed

lemma abs_segments_abs_path [simp]: "clean segs \<Longrightarrow> abs_segments (abs_path segs) = segs"
proof -
  assume c: "clean segs"
  have "norm_segments False ('''' # (if segs = [] then [''''] else segs)) = segs"
    using foldl_norm_clean [OF c, of False "[]"] by (simp add: norm_segments_def)
  with c show ?thesis by (simp add: abs_segments_def split_abs_path)
qed

lemma abs_path_absolute [simp]: "path_isAbsolute (abs_path segs)"
  by (simp add: abs_path_def path_isAbsolute_def starts_with_def)

lemma path_resolve_abs_path [simp]: "clean segs \<Longrightarrow> path_resolve cwd (abs_path segs) = abs_path segs"
  by (simp add: path_resolve_def) (simp add: abs_path_def)

lemma path_resolve_is_abs_path: "\<exists>segs. clean segs \<and> path_resolve cwd p = abs_path segs"
  by (metis abs_path_def clean_abs_segments path_resolve_def)

lemma path_resolve_idem [simp]: "path_resolve cwd (path_resolve cwd' p) = path_resolve cwd' p"
  using path_resolve_is_abs_path [of cwd' p] by auto

lemma abs_path_inject: "clean a \<Longrightarrow> clean b \<Longrightarrow> abs_path a = abs_path b \<longleftrightarrow> a = b"
  by (metis abs_segments_abs_path)

lemma strip_common_append [simp]: "strip_common xs (xs @ ys) = ([], ys)"
  by (induction xs) (cases ys; simp)+

lemma strip_common_self [simp]: "strip_common xs xs = ([], [])"
  using strip_common_append [of xs "[]"] by simp

lemma strip_common_prefix: "strip_common xs ys = ([], zs) \<Longrightarrow> ys = xs @ zs"
  by (induction xs ys rule: strip_common.induct) (auto split: if_splits)

lemma path_relative_abs_path:
  assumes "clean root" "clean segs"
  shows "path_relative cwd (abs_path root) (abs_path segs) =
    (case strip_common root segs of (fs, ts) \<Rightarrow> join_with ''/'' (replicate (length fs) ''..'' @ ts))"
  using assms by (auto simp: path_relative_def abs_path_inject split: prod.splits)

end
