(* ===== verification/Archive.thy ===== *)
theory Archive
  imports Archive_Serialization Posix_Path
begin

text \<open>
  \<open>packages/shared/src/fs-cache/archive.ts\<close>, first part: the class \<open>FsCacheArchive\<close>
  without its locking and flushing (\<open>Archive_Flush\<close>): the constructor, \<open>load\<close>, \<open>get\<close>,
  \<open>set\<close>, \<open>getExists\<close> and the statistics. The platform is POSIX, so
  \<open>normalizeForComparison\<close> is the identity. The native filesystem is a map from paths to
  contents, with \<open>None\<close> for an entry that exists and cannot be read; decompressing and
  decoding the archive's bytes is the parameter \<open>decode\<close>, \<open>None\<close> when it throws.
\<close>

section \<open>State\<close>

record archive =
  ar_archivePath :: string
  ar_rootDir :: string
  ar_physicalRootDirs :: "(realpath_operation, string) js_map"
  ar_comparisonRoots :: "comparison_root list"
  ar_mode :: archive_mode
  ar_createdAt :: string
  ar_entries :: "(string, cache_node) js_map"
  ar_missingPaths :: "string list"
  ar_pathKeys :: "(string, string) js_map"
  ar_dirty :: bool
  ar_cacheHits :: nat
  ar_cacheMisses :: nat

type_synonym disk = "(string, buffer option) js_map"

definition disk_exists :: "disk \<Rightarrow> string \<Rightarrow> bool" where
  "disk_exists d p \<longleftrightarrow> map_of d p \<noteq> None"

definition disk_read :: "disk \<Rightarrow> string \<Rightarrow> buffer option" where
  "disk_read d p = (case map_of d p of None \<Rightarrow> None | Some c \<Rightarrow> c)"

text \<open>\<open>Set.prototype.add\<close> and \<open>delete\<close> in insertion order.\<close>

definition set_add :: "'a \<Rightarrow> 'a list \<Rightarrow> 'a list" where
  "set_add x xs = (if x \<in> set xs then xs else xs @ [x])"

section \<open>Construction\<close>

definition normalizeForComparison :: "string \<Rightarrow> string" where
  "normalizeForComparison filePath = filePath"

definition comparisonRoot :: "string \<Rightarrow> comparison_root" where
  "comparisonRoot directory =
     \<lparr>cr_directory = directory,
      cr_prefix = (if ends_with directory ''/'' then directory else directory @ ''/'')\<rparr>"

text \<open>
  \<open>native op p\<close> is what \<open>realpathSync\<close> and \<open>realpathSync.native\<close> return, \<open>None\<close> when they
  throw. The result is the pair of \<open>physicalRootDirs\<close> and \<open>rootAliases\<close>.
\<close>

definition resolvePhysicalRoots :: "(realpath_operation \<Rightarrow> string \<Rightarrow> string option) \<Rightarrow> string \<Rightarrow>
    (realpath_operation, string) js_map \<times> string list" where
  "resolvePhysicalRoots native rootDir =
     fold (\<lambda>operation (physicalRootDirs, rootAliases).
         case native operation rootDir of
           None \<Rightarrow> (physicalRootDirs, rootAliases)
         | Some physicalRootDir \<Rightarrow>
             (js_set operation physicalRootDir physicalRootDirs,
              (let physicalRoot = normalizeForComparison physicalRootDir
               in if physicalRoot \<in> set rootAliases then rootAliases
                  else rootAliases @ [physicalRoot])))
       [Realpath, RealpathNative] ([], [normalizeForComparison rootDir])"

definition new_archive :: "string \<Rightarrow> disk \<Rightarrow> (realpath_operation \<Rightarrow> string \<Rightarrow> string option) \<Rightarrow> string \<Rightarrow>
    string \<Rightarrow> string \<Rightarrow> archive_error + archive" where
  "new_archive cwd d native now archivePath rootDir =
     (if archivePath = '''' then Inl ArchivePathRequired
      else if rootDir = '''' then Inl RootDirRequired
      else (let archivePath' = path_resolve cwd archivePath;
                rootDir' = path_resolve cwd rootDir;
                mode = (if disk_exists d archivePath' then Replay else Record);
                (physicalRootDirs, rootAliases) =
                  (if mode = Record then resolvePhysicalRoots native rootDir'
                   else ([], [normalizeForComparison rootDir']))
            in Inr \<lparr>ar_archivePath = archivePath', ar_rootDir = rootDir',
                 ar_physicalRootDirs = physicalRootDirs,
                 ar_comparisonRoots =
                   sort_key (\<lambda>r. - int (length (cr_directory r))) (map comparisonRoot rootAliases),
                 ar_mode = mode, ar_createdAt = now, ar_entries = [], ar_missingPaths = [],
                 ar_pathKeys = [], ar_dirty = False, ar_cacheHits = 0, ar_cacheMisses = 0\<rparr>))"

section \<open>Loading\<close>

definition load_entries :: "archive \<Rightarrow> archive_document \<Rightarrow> archive" where
  "load_entries ar doc =
     ar\<lparr>ar_createdAt := or_default (Some (doc_createdAt doc)) (ar_createdAt ar),
        ar_missingPaths := fold set_add (doc_missingPaths doc) (ar_missingPaths ar),
        ar_entries := fold (\<lambda>en. js_set (ent_path en) (createNode (ent_node en)))
                        (doc_entries doc) (ar_entries ar)\<rparr>"

definition load_document :: "(buffer \<Rightarrow> proto_document option) \<Rightarrow> disk \<Rightarrow> string \<Rightarrow>
    archive_error + archive_document" where
  "load_document decode d archivePath =
     (case disk_read d archivePath of
        None \<Rightarrow> Inl (CannotReadArchive archivePath)
      | Some bytes \<Rightarrow>
          (case decode bytes of
             None \<Rightarrow> Inl (CannotReadArchive archivePath)
           | Some p \<Rightarrow>
               (case deserializeProtobufDocument p of
                  Inl _ \<Rightarrow> Inl (CannotReadArchive archivePath)
                | Inr doc \<Rightarrow> Inr doc)))"

definition load :: "(buffer \<Rightarrow> proto_document option) \<Rightarrow> disk \<Rightarrow> archive \<Rightarrow> archive_error + archive" where
  "load decode d ar =
     (if \<not> disk_exists d (ar_archivePath ar)
      then (if ar_mode ar = Replay then Inl (ArchiveDoesNotExist (ar_archivePath ar)) else Inr ar)
      else bind_result (load_document decode d (ar_archivePath ar)) (\<lambda>doc.
        if doc_magic doc \<noteq> FS_CACHE_MAGIC then Inl (NotAnArchive (ar_archivePath ar))
        else if doc_formatVersion doc \<noteq> FS_CACHE_FORMAT_VERSION
             then Inl (UnsupportedFormat (doc_formatVersion doc))
        else Inr (load_entries ar doc)))"

section \<open>Reading and writing outcomes\<close>

definition is_ok :: "stored_outcome option \<Rightarrow> bool" where
  "is_ok out = (case out of Some (Success _) \<Rightarrow> True | _ \<Rightarrow> False)"

definition names_view :: "cache_node \<Rightarrow> string \<Rightarrow> stored_outcome option" where
  "names_view node operation =
     (let parts = split_on (CHR '':'') operation;
          name = hd parts;
          encoding = nullish (part_at parts 1) ''utf8'';
          withFileTypes = nullish (part_at parts 2) ''false'';
          recursive = nullish (part_at parts 3) ''false''
      in if name = ''readdir'' \<and> withFileTypes = ''false'' \<and> recursive = ''false''
         then namesFromEntries (readSlot node (MapSlot Directories (''flat:'' @ encoding @ '':entries'')))
         else None)"

definition archive_get :: "archive \<Rightarrow> string \<Rightarrow> string \<Rightarrow> archive_error + stored_outcome option" where
  "archive_get ar k operation =
     (case map_of (ar_entries ar) k of
        None \<Rightarrow> Inr None
      | Some node \<Rightarrow>
          (case (operation = ''exists'', nd_exists node) of
             (True, Some b) \<Rightarrow> Inr (Some (Success (BoolValue b)))
           | _ \<Rightarrow>
               bind_result (operationSlot operation) (\<lambda>slot.
                 let outcome = readSlot node slot;
                     outcome1 =
                       (if outcome = None \<and> operation = ''open:r'' \<and> is_ok (nd_content node)
                           \<and> is_ok (readSlot node (MapSlot Stats ''stat:number''))
                           \<and> is_ok (readSlot node (MapSlot Stats ''stat:bigint''))
                        then Some (Success NullValue) else outcome);
                     outcome2 =
                       (if outcome1 = None \<and> starts_with operation ''readdir:''
                        then names_view node operation else outcome1)
                 in Inr outcome2)))"

text \<open>
  \<open>set\<close> updates the state before \<open>operationSlot\<close> may throw, so the result is the state and
  the exception, if any.
\<close>

definition node_for_set :: "archive \<Rightarrow> string \<Rightarrow> cache_node \<times> string list" where
  "node_for_set ar k =
     (case map_of (ar_entries ar) k of
        Some node \<Rightarrow> (node, ar_missingPaths ar)
      | None \<Rightarrow>
          (if k \<in> set (ar_missingPaths ar)
           then (createNode (empty_node\<lparr>nd_exists := Some False\<rparr>), remove1 k (ar_missingPaths ar))
           else (createNode empty_node, ar_missingPaths ar)))"

definition archive_set :: "archive \<Rightarrow> string \<Rightarrow> string \<Rightarrow> stored_outcome \<Rightarrow>
    archive \<times> archive_error option" where
  "archive_set ar k operation outcome =
     (let (node, missingPaths) = node_for_set ar k;
          missing = isMissingOutcome operation outcome;
          node1 = updateExistence node operation outcome missing;
          ar1 = ar\<lparr>ar_entries := js_set k node1 (ar_entries ar), ar_missingPaths := missingPaths\<rparr>
      in if operation \<noteq> ''exists'' \<and> \<not> missing
         then (case operationSlot operation of
                 Inl e \<Rightarrow> (ar1, Some e)
               | Inr slot \<Rightarrow>
                   (ar1\<lparr>ar_entries := js_set k (writeSlot node1 slot outcome) (ar_entries ar1),
                        ar_dirty := True\<rparr>, None))
         else (ar1\<lparr>ar_dirty := True\<rparr>, None))"

definition getExists :: "archive \<Rightarrow> string \<Rightarrow> string \<Rightarrow> bool option" where
  "getExists ar k operation =
     (let node = map_of (ar_entries ar) k in
      if node = None \<and> k \<in> set (ar_missingPaths ar) then Some False
      else if observesLink operation
           then (case node of None \<Rightarrow> None | Some nd \<Rightarrow> nd_linkExists nd)
           else (case node of None \<Rightarrow> None | Some nd \<Rightarrow> nd_exists nd))"

definition recordCacheHit :: "archive \<Rightarrow> archive" where
  "recordCacheHit ar = ar\<lparr>ar_cacheHits := ar_cacheHits ar + 1\<rparr>"

definition recordCacheMiss :: "archive \<Rightarrow> archive" where
  "recordCacheMiss ar = ar\<lparr>ar_cacheMisses := ar_cacheMisses ar + 1\<rparr>"

text \<open>Hits, misses and paths.\<close>

definition getStatistics :: "archive \<Rightarrow> nat \<times> nat \<times> nat" where
  "getStatistics ar =
     (ar_cacheHits ar, ar_cacheMisses ar, length (ar_entries ar) + length (ar_missingPaths ar))"

section \<open>The invariant\<close>

text \<open>
  A path is recorded once, either with a node or as missing; the nodes hold in each field the
  values of that field's operations.
\<close>

definition wf_archive :: "archive \<Rightarrow> bool" where
  "wf_archive ar \<longleftrightarrow>
     distinct (js_keys (ar_entries ar)) \<and> distinct (ar_missingPaths ar)
     \<and> list_all (\<lambda>(k, nd). typed_node nd \<and> k \<notin> set (ar_missingPaths ar)) (ar_entries ar)"

text \<open>The values an operation may record.\<close>

definition operation_fits :: "string \<Rightarrow> stored_outcome \<Rightarrow> bool" where
  "operation_fits operation out \<longleftrightarrow>
     operation = ''exists'' \<or> isMissingOutcome operation out
     \<or> (case operationSlot operation of
          Inl _ \<Rightarrow> True
        | Inr ContentSlot \<Rightarrow> outcome_fits is_content out
        | Inr (MapSlot f k) \<Rightarrow> outcome_fits (value_fits f) out)"

lemma typed_empty_node [simp]: "typed_node empty_node"
  by (simp add: typed_node_def list_all_iff)

lemma typed_node_flags [simp]:
  "typed_node (nd\<lparr>nd_exists := b\<rparr>) = typed_node nd"
  "typed_node (nd\<lparr>nd_linkExists := b\<rparr>) = typed_node nd"
  by (simp_all add: typed_node_def wf_node_def list_all_iff)

lemma typed_updateExistence [simp]: "typed_node (updateExistence nd op out m) = typed_node nd"
  by (simp add: typed_node_def)

lemma typed_nodeI:
  assumes "wf_node nd"
    and "\<And>out. nd_content nd = Some out \<Longrightarrow> outcome_fits is_content out"
    and "\<And>f k out. readSlot nd (MapSlot f k) = Some out \<Longrightarrow> outcome_fits (value_fits f) out"
  shows "typed_node nd"
proof -
  have "outcome_fits (value_fits f) out" if "node_field nd f = Some m" "(k, out) \<in> set m" for f m k out
  proof -
    have "map_of m k = Some out"
      using that wf_nodeD [OF assms(1) that(1)] by simp
    with that(1) assms(3) [of f k out] show ?thesis by simp
  qed
  with assms(1,2) show ?thesis
    by (fastforce simp: typed_node_def list_all_iff split: option.splits)
qed

lemma typed_nodeD:
  assumes "typed_node nd"
  shows "wf_node nd"
    and "nd_content nd = Some out \<Longrightarrow> outcome_fits is_content out"
    and "readSlot nd (MapSlot f k) = Some out \<Longrightarrow> outcome_fits (value_fits f) out"
proof -
  show "wf_node nd" using assms by (simp add: typed_node_def)
  show "nd_content nd = Some out \<Longrightarrow> outcome_fits is_content out"
    using assms by (simp add: typed_node_def)
  assume "readSlot nd (MapSlot f k) = Some out"
  then obtain m where "node_field nd f = Some m" "map_of m k = Some out"
    by (auto split: option.splits)
  then show "outcome_fits (value_fits f) out"
    using typed_node_fields(2) [OF assms, of k out f] by (simp add: map_of_SomeD)
qed

lemma typed_createNode [simp]: "typed_node nd \<Longrightarrow> typed_node (createNode nd)"
  by (rule typed_nodeI)
    (auto simp: typed_nodeD(1) simp del: readSlot.simps dest: typed_nodeD(2,3))

lemma typed_sortedNode [simp]: "typed_node nd \<Longrightarrow> typed_node (sortedNode cmp nd)"
  by (rule typed_nodeI)
    (auto simp: typed_nodeD(1) simp del: readSlot.simps dest: typed_nodeD(2,3))

lemma typed_mergeNodes [simp]:
  "typed_node a \<Longrightarrow> typed_node b \<Longrightarrow> typed_node (mergeNodes a b)"
  by (rule typed_nodeI)
    (auto simp: typed_nodeD(1) readSlot_mergeNodes override_def simp del: readSlot.simps
      dest: typed_nodeD(2,3) split: option.splits)

definition slot_fits :: "operation_slot \<Rightarrow> stored_outcome \<Rightarrow> bool" where
  "slot_fits slot out =
     (case slot of ContentSlot \<Rightarrow> outcome_fits is_content out
      | MapSlot f k \<Rightarrow> outcome_fits (value_fits f) out)"

lemma typed_writeSlot:
  assumes "typed_node nd" "slot_fits slot out"
  shows "typed_node (writeSlot nd slot out)"
proof (rule typed_nodeI)
  show "wf_node (writeSlot nd slot out)"
    using assms(1) by (simp add: typed_nodeD(1))
  show "outcome_fits is_content o'" if "nd_content (writeSlot nd slot out) = Some o'" for o'
    using that assms by (cases slot) (auto simp: slot_fits_def dest: typed_nodeD(2))
  show "outcome_fits (value_fits f) o'"
    if "readSlot (writeSlot nd slot out) (MapSlot f k) = Some o'" for f k o'
    using that assms typed_nodeD(3) [OF assms(1), of f k o']
    by (cases "slot = MapSlot f k")
      (auto simp: slot_fits_def readSlot_writeSlot_other simp del: readSlot.simps writeSlot.simps)
qed

lemma wf_archive_entry:
  "wf_archive ar \<Longrightarrow> map_of (ar_entries ar) k = Some nd \<Longrightarrow> typed_node nd \<and> k \<notin> set (ar_missingPaths ar)"
  by (auto simp: wf_archive_def list_all_iff dest!: map_of_SomeD)

lemma wf_archiveI:
  assumes "distinct (js_keys (ar_entries ar))" "distinct (ar_missingPaths ar)"
    and "\<And>k nd. map_of (ar_entries ar) k = Some nd \<Longrightarrow> typed_node nd \<and> k \<notin> set (ar_missingPaths ar)"
  shows "wf_archive ar"
  using assms by (auto simp: wf_archive_def list_all_iff)

section \<open>What \<open>set\<close> does\<close>

text \<open>The node that \<open>set\<close> leaves under the key.\<close>

definition node_after_set :: "archive \<Rightarrow> string \<Rightarrow> string \<Rightarrow> stored_outcome \<Rightarrow> cache_node" where
  "node_after_set ar k operation outcome =
     (let missing = isMissingOutcome operation outcome;
          node1 = updateExistence (fst (node_for_set ar k)) operation outcome missing
      in if operation = ''exists'' \<or> missing then node1
         else (case operationSlot operation of Inl _ \<Rightarrow> node1
               | Inr slot \<Rightarrow> writeSlot node1 slot outcome))"

lemma archive_set_entries:
  "ar_entries (fst (archive_set ar k operation out)) =
     js_set k (node_after_set ar k operation out) (ar_entries ar)"
  by (auto simp: archive_set_def node_after_set_def Let_def split: prod.splits sum.splits)

lemma archive_set_missing:
  "ar_missingPaths (fst (archive_set ar k operation out)) = snd (node_for_set ar k)"
  by (auto simp: archive_set_def Let_def split: prod.splits sum.splits)

lemma archive_set_frame [simp, frame_simps]:
  "ar_archivePath (fst (archive_set ar k operation out)) = ar_archivePath ar"
  "ar_rootDir (fst (archive_set ar k operation out)) = ar_rootDir ar"
  "ar_comparisonRoots (fst (archive_set ar k operation out)) = ar_comparisonRoots ar"
  "ar_physicalRootDirs (fst (archive_set ar k operation out)) = ar_physicalRootDirs ar"
  "ar_mode (fst (archive_set ar k operation out)) = ar_mode ar"
  "ar_pathKeys (fst (archive_set ar k operation out)) = ar_pathKeys ar"
  by (auto simp: archive_set_def Let_def split: prod.splits sum.splits)

lemma archive_set_lookup:
  "map_of (ar_entries (fst (archive_set ar k operation out))) k' =
     (if k' = k then Some (node_after_set ar k operation out) else map_of (ar_entries ar) k')"
  by (simp add: archive_set_entries AList.update_conv)

lemma readSlot_empty [simp]: "readSlot empty_node slot = None"
  by (cases slot) simp_all

lemma typed_node_for_set: "wf_archive ar \<Longrightarrow> typed_node (fst (node_for_set ar k))"
  by (auto simp: node_for_set_def wf_archive_entry split: option.splits)

lemma readSlot_node_for_set:
  "readSlot (fst (node_for_set ar k)) slot =
     (case map_of (ar_entries ar) k of None \<Rightarrow> None | Some nd \<Rightarrow> readSlot nd slot)"
proof -
  have "readSlot (empty_node\<lparr>nd_exists := Some False\<rparr>) slot = None"
    by (cases slot) simp_all
  then show ?thesis
    by (auto simp: node_for_set_def readSlot_createNode wf_node_def list_all_iff split: option.splits)
qed

lemma missing_node_for_set:
  "wf_archive ar \<Longrightarrow> set (snd (node_for_set ar k)) = set (ar_missingPaths ar) - {k}
     \<and> distinct (snd (node_for_set ar k))"
  using wf_archive_entry [of ar k]
  by (auto simp: node_for_set_def wf_archive_def split: option.splits)

lemma operation_fits_slot:
  "operation_fits operation out \<Longrightarrow> operation \<noteq> ''exists'' \<Longrightarrow> \<not> isMissingOutcome operation out \<Longrightarrow>
     operationSlot operation = Inr slot \<Longrightarrow> slot_fits slot out"
  by (cases slot) (auto simp: operation_fits_def slot_fits_def)

lemma typed_node_after_set:
  assumes "wf_archive ar" "operation_fits operation out"
  shows "typed_node (node_after_set ar k operation out)"
  using typed_node_for_set [OF assms(1)] operation_fits_slot [OF assms(2)]
  by (auto simp: node_after_set_def Let_def typed_writeSlot split: sum.splits)

lemma wf_archive_set:
  assumes "wf_archive ar" "operation_fits operation out"
  shows "wf_archive (fst (archive_set ar k operation out))"
proof (rule wf_archiveI)
  let ?ar' = "fst (archive_set ar k operation out)"
  show "distinct (js_keys (ar_entries ?ar'))"
    using assms(1) by (simp add: archive_set_entries AList.distinct_update wf_archive_def)
  show "distinct (ar_missingPaths ?ar')"
    using missing_node_for_set [OF assms(1)] by (simp add: archive_set_missing)
  show "typed_node nd \<and> k' \<notin> set (ar_missingPaths ?ar')"
    if "map_of (ar_entries ?ar') k' = Some nd" for k' nd
    using that typed_node_after_set [OF assms] missing_node_for_set [OF assms(1)]
      wf_archive_entry [OF assms(1), of k' nd]
    by (auto simp: archive_set_lookup archive_set_missing split: if_splits)
qed

text \<open>The raw outcome recorded for a slot of a path.\<close>

definition slot_view :: "archive \<Rightarrow> string \<Rightarrow> operation_slot \<Rightarrow> stored_outcome option" where
  "slot_view ar k slot =
     (case map_of (ar_entries ar) k of None \<Rightarrow> None | Some nd \<Rightarrow> readSlot nd slot)"

lemma slot_view_set:
  "slot_view (fst (archive_set ar k operation out)) k' slot =
     (if k' = k \<and> operation \<noteq> ''exists'' \<and> \<not> isMissingOutcome operation out
         \<and> operationSlot operation = Inr slot
      then Some out else slot_view ar k' slot)"
proof (cases "k' = k")
  case True
  then show ?thesis
    using readSlot_writeSlot_other [of _ slot]
    by (auto simp: slot_view_def archive_set_lookup node_after_set_def Let_def readSlot_node_for_set
        simp del: readSlot.simps writeSlot.simps split: sum.splits)
next
  case False
  then show ?thesis by (simp add: slot_view_def archive_set_lookup)
qed

lemma operationSlot_exists [simp]: "operationSlot ''exists'' = Inl (UnsupportedOperation ''exists'')"
  by (simp add: operationSlot_def Let_def)

lemma archive_get_recorded:
  assumes "operationSlot operation = Inr slot" "slot_view ar k slot = Some out"
  shows "archive_get ar k operation = Inr (Some out)"
proof -
  have "operation \<noteq> ''exists''" using assms(1) by auto
  then show ?thesis
    using assms by (auto simp: archive_get_def slot_view_def Let_def split: option.splits)
qed

lemma getExists_set:
  "getExists (fst (archive_set ar k operation out)) k' operation' =
     (if k' = k
      then (let nd = node_after_set ar k operation out
            in if observesLink operation' then nd_linkExists nd else nd_exists nd)
      else if map_of (ar_entries ar) k' = None \<and> k' \<in> set (snd (node_for_set ar k))
      then Some False
      else (case map_of (ar_entries ar) k' of None \<Rightarrow> None
            | Some nd \<Rightarrow> if observesLink operation' then nd_linkExists nd else nd_exists nd))"
  by (auto simp: getExists_def Let_def archive_set_lookup archive_set_missing split: option.splits)

lemma node_after_set_exists:
  "nd_exists (node_after_set ar k operation out) =
     nd_exists (updateExistence (fst (node_for_set ar k)) operation out (isMissingOutcome operation out))"
  "nd_linkExists (node_after_set ar k operation out) =
     nd_linkExists (updateExistence (fst (node_for_set ar k)) operation out (isMissingOutcome operation out))"
  by (auto simp: node_after_set_def Let_def split: sum.splits)

section \<open>What \<open>load\<close> keeps\<close>

lemma set_set_add [simp]: "set (fold set_add ys xs) = set xs \<union> set ys"
  by (induction ys arbitrary: xs) (auto simp: set_add_def)

lemma distinct_set_add: "distinct xs \<Longrightarrow> distinct (fold set_add ys xs)"
  by (induction ys arbitrary: xs) (auto simp: set_add_def)

lemma fold_js_set_all: "fold (\<lambda>x. js_set (f x) (g x)) xs base = set_all base (map (\<lambda>x. (f x, g x)) xs)"
  by (induction xs arbitrary: base) simp_all

lemma load_entries_entries:
  "ar_entries (load_entries ar doc) =
     set_all (ar_entries ar) (map (\<lambda>en. (ent_path en, createNode (ent_node en))) (doc_entries doc))"
  by (simp add: load_entries_def fold_js_set_all)

lemma load_frame:
  assumes "load decode d ar = Inr ar'"
  shows "ar_archivePath ar' = ar_archivePath ar" "ar_rootDir ar' = ar_rootDir ar"
    "ar_comparisonRoots ar' = ar_comparisonRoots ar"
    "ar_physicalRootDirs ar' = ar_physicalRootDirs ar" "ar_mode ar' = ar_mode ar"
    "ar_pathKeys ar' = ar_pathKeys ar" "ar_dirty ar' = ar_dirty ar"
    "ar_cacheHits ar' = ar_cacheHits ar" "ar_cacheMisses ar' = ar_cacheMisses ar"
  using assms by (auto simp: load_def load_entries_def split: if_splits)

end
