(* ===== verification/Archive_Keys.thy ===== *)
theory Archive_Keys
  imports Archive
begin

text \<open>
  \<open>packages/shared/src/fs-cache/archive.ts\<close>, second part: the keys under which paths are
  recorded (\<open>keyFor\<close>, \<open>absolutePathFor\<close>) and the portable form of the paths that outcomes
  mention (\<open>encodePortablePath\<close>, \<open>decodePortablePath\<close>). The working directory is the
  argument \<open>cwd\<close>.
\<close>

section \<open>Operations\<close>

text \<open>
  \<open>fs.PathLike\<close>: a string, a buffer (the UTF-8 bytes of its text), a \<open>file:\<close> URL with the path
  that \<open>fileURLToPath\<close> gives for it, and any other URL with its text.
\<close>

datatype path_like = StringPath string | BufferPath buffer | FileUrl string string | OtherUrl string

fun path_like_text :: "path_like \<Rightarrow> string option" where
  "path_like_text (StringPath p) = Some p"
| "path_like_text (BufferPath b) = Some b"
| "path_like_text (FileUrl url p) = Some p"
| "path_like_text (OtherUrl url) = None"

text \<open>\<open>String(filePath)\<close>.\<close>

fun path_like_string :: "path_like \<Rightarrow> string" where
  "path_like_string (StringPath p) = p"
| "path_like_string (BufferPath b) = b"
| "path_like_string (FileUrl url p) = url"
| "path_like_string (OtherUrl url) = url"

definition needs_normalization :: "string \<Rightarrow> bool" where
  "needs_normalization p \<longleftrightarrow>
     includes_str p ''/./'' \<or> ends_with p ''/.'' \<or> includes_str p ''/../''
     \<or> ends_with p ''/..'' \<or> includes_str p ''//''"

definition relative_to_root :: "string \<Rightarrow> archive \<Rightarrow> string \<Rightarrow> string" where
  "relative_to_root cwd ar p =
     normalizeForComparison (path_relative cwd (ar_rootDir ar) (path_resolve cwd p))"

text \<open>The relative path of \<open>keyFor\<close>, \<open>None\<close> where it returns \<open>undefined\<close>.\<close>

definition compute_relative :: "string \<Rightarrow> archive \<Rightarrow> string \<Rightarrow> string option" where
  "compute_relative cwd ar filePath =
     (let comparisonFilePath = normalizeForComparison filePath in
      if path_isAbsolute comparisonFilePath \<and> \<not> needs_normalization comparisonFilePath
      then (case find (\<lambda>r. comparisonFilePath = cr_directory r
                          \<or> starts_with comparisonFilePath (cr_prefix r)) (ar_comparisonRoots ar) of
              None \<Rightarrow> None
            | Some root \<Rightarrow>
                Some (if comparisonFilePath = cr_directory root then ''''
                      else drop (length (cr_prefix root)) comparisonFilePath))
      else Some (relative_to_root cwd ar filePath))"

definition key_of_relative :: "string \<Rightarrow> string option" where
  "key_of_relative relativePath =
     (if relativePath = ''..'' \<or> starts_with relativePath ''../'' \<or> path_isAbsolute relativePath
      then None
      else Some (if relativePath = '''' then ''.'' else relativePath))"

definition compute_key :: "string \<Rightarrow> archive \<Rightarrow> string \<Rightarrow> string option" where
  "compute_key cwd ar filePath = Option.bind (compute_relative cwd ar filePath) key_of_relative"

definition keyFor :: "string \<Rightarrow> archive \<Rightarrow> path_like \<Rightarrow> string option \<times> archive" where
  "keyFor cwd ar input =
     (case path_like_text input of
        None \<Rightarrow> (None, ar)
      | Some filePath \<Rightarrow>
          (case map_of (ar_pathKeys ar) filePath of
             Some cachedKey \<Rightarrow> (Some cachedKey, ar)
           | None \<Rightarrow>
               (case compute_key cwd ar filePath of
                  None \<Rightarrow> (None, ar)
                | Some k \<Rightarrow>
                    (Some k,
                     ar\<lparr>ar_pathKeys := js_set (normalizeForComparison filePath) k
                           (js_set filePath k (ar_pathKeys ar))\<rparr>))))"

definition absolutePathFor :: "string \<Rightarrow> string \<Rightarrow> string" where
  "absolutePathFor rootDir k =
     (if k = ''.'' then rootDir else path_join (rootDir # split_on (CHR ''/'') k))"

definition encodePortablePath :: "string \<Rightarrow> archive \<Rightarrow> path_like \<Rightarrow> portable_path \<times> archive" where
  "encodePortablePath cwd ar filePath =
     (case keyFor cwd ar filePath of
        (None, ar') \<Rightarrow> (\<lparr>pp_kind = AbsolutePath, pp_path = path_like_string filePath\<rparr>, ar')
      | (Some k, ar') \<Rightarrow> (\<lparr>pp_kind = RelativePath, pp_path = k\<rparr>, ar'))"

definition decodePortablePath :: "archive \<Rightarrow> portable_path \<Rightarrow> realpath_operation option \<Rightarrow> string" where
  "decodePortablePath ar p operation =
     (let rootDir = (case operation of
            None \<Rightarrow> ar_rootDir ar
          | Some op' \<Rightarrow> nullish (map_of (ar_physicalRootDirs ar) op') (ar_rootDir ar))
      in if pp_kind p = RelativePath then absolutePathFor rootDir (pp_path p) else pp_path p)"

section \<open>The key cache\<close>

definition keys_sound :: "string \<Rightarrow> archive \<Rightarrow> bool" where
  "keys_sound cwd ar \<longleftrightarrow>
     list_all (\<lambda>(p, k). compute_key cwd ar p = Some k) (ar_pathKeys ar)"

lemma compute_key_cong:
  "ar_comparisonRoots ar' = ar_comparisonRoots ar \<Longrightarrow> ar_rootDir ar' = ar_rootDir ar \<Longrightarrow>
     compute_key cwd ar' = compute_key cwd ar"
  by (rule ext) (simp add: compute_key_def compute_relative_def relative_to_root_def cong: if_cong option.case_cong)

lemma keyFor_frame [simp, frame_simps]:
  "ar_entries (snd (keyFor cwd ar p)) = ar_entries ar"
  "ar_missingPaths (snd (keyFor cwd ar p)) = ar_missingPaths ar"
  "ar_comparisonRoots (snd (keyFor cwd ar p)) = ar_comparisonRoots ar"
  "ar_rootDir (snd (keyFor cwd ar p)) = ar_rootDir ar"
  "ar_archivePath (snd (keyFor cwd ar p)) = ar_archivePath ar"
  "ar_physicalRootDirs (snd (keyFor cwd ar p)) = ar_physicalRootDirs ar"
  "ar_mode (snd (keyFor cwd ar p)) = ar_mode ar"
  "ar_dirty (snd (keyFor cwd ar p)) = ar_dirty ar"
  "ar_createdAt (snd (keyFor cwd ar p)) = ar_createdAt ar"
  by (auto simp: keyFor_def split: option.splits)

lemma compute_key_keyFor [simp]: "compute_key cwd (snd (keyFor cwd' ar p)) = compute_key cwd ar"
  by (rule compute_key_cong) simp_all

lemma keys_soundD: "keys_sound cwd ar \<Longrightarrow> map_of (ar_pathKeys ar) p = Some k \<Longrightarrow> compute_key cwd ar p = Some k"
  by (auto simp: keys_sound_def list_all_iff dest!: map_of_SomeD)

lemma keyFor_sound:
  assumes "keys_sound cwd ar"
  shows "fst (keyFor cwd ar p) = Option.bind (path_like_text p) (compute_key cwd ar)"
  using keys_soundD [OF assms] by (auto simp: keyFor_def split: option.splits)

lemma keys_sound_keyFor:
  assumes "keys_sound cwd ar"
  shows "keys_sound cwd (snd (keyFor cwd ar p))"
proof -
  have sub: "set (js_set q k m) \<subseteq> insert (q, k) (set m)" for q :: string and k :: string and m
    by (induction m) auto
  have "compute_key cwd ar q = Some k" if "(q, k) \<in> set (ar_pathKeys (snd (keyFor cwd ar p)))" for q k
    using that assms sub
    by (fastforce simp: keyFor_def keys_sound_def list_all_iff normalizeForComparison_def split: option.splits)
  then show ?thesis by (auto simp: keys_sound_def list_all_iff)
qed

section \<open>Which paths need normalising\<close>

lemma includes_str_append: "includes_str (xs @ p @ ys) p"
proof (induction xs)
  case Nil
  have "starts_with (p @ ys) p" by simp
  then show ?case by (cases "p @ ys") auto
next
  case (Cons x xs)
  then show ?case by simp
qed

lemma includes_strI: "s = xs @ p @ ys \<Longrightarrow> includes_str s p"
  using includes_str_append by simp

lemma join_with_append: "xs \<noteq> [] \<Longrightarrow> ys \<noteq> [] \<Longrightarrow>
    join_with sep (xs @ ys) = join_with sep xs @ sep @ join_with sep ys"
  by (induction sep xs rule: join_with.induct) (auto simp: neq_Nil_conv)

text \<open>
  An absolute path that does not need normalising, and does not end in a separator, has only
  clean segments.
\<close>

lemma no_normalization_clean:
  assumes a: "path_isAbsolute p" and n: "\<not> needs_normalization p" and e: "\<not> ends_with p ''/''"
  shows "clean (tl (split_on (CHR ''/'') p)) \<and> p = abs_path (tl (split_on (CHR ''/'') p))"
proof -
  obtain q where p: "p = CHR ''/'' # q"
    using a by (auto simp: path_isAbsolute_def starts_with_iff)
  let ?s = "split_on (CHR ''/'') q"
  have tl: "tl (split_on (CHR ''/'') p) = ?s" by (simp add: p)
  have q: "join_with ''/'' ?s = q" by (rule join_split)
  have "clean_segment seg" if "seg \<in> set ?s" for seg
  proof -
    obtain xs ys where s: "?s = xs @ seg # ys" using \<open>seg \<in> set ?s\<close> by (meson split_list)
    define pre where "pre = (if xs = [] then '''' else ''/'' @ join_with ''/'' xs)"
    define post where "post = (if ys = [] then '''' else ''/'' @ join_with ''/'' ys)"
    have seg_ys: "join_with ''/'' (seg # ys) = seg @ post"
      by (cases ys) (simp_all add: post_def)
    have "p = pre @ ''/'' @ seg @ post"
    proof (cases "xs = []")
      case True
      then show ?thesis using q s seg_ys by (simp add: p pre_def)
    next
      case False
      then have "q = join_with ''/'' xs @ ''/'' @ join_with ''/'' (seg # ys)"
        using q s join_with_append [of xs "seg # ys" "''/''"] by simp
      then show ?thesis using False seg_ys by (simp add: p pre_def)
    qed
    note shape = this
    have post: "post = '''' \<or> (\<exists>r. post = CHR ''/'' # r)" by (auto simp: post_def)
    have "seg \<noteq> ''''"
    proof
      assume "seg = ''''"
      with post shape have "ends_with p ''/'' \<or> includes_str p ''//''"
        using includes_strI [of p pre "''//''"] ends_with_append [of pre "''/''"] by auto
      with e n show False by (auto simp: needs_normalization_def)
    qed
    moreover have "seg \<noteq> ''.''"
    proof
      assume "seg = ''.''"
      with post shape have "ends_with p ''/.'' \<or> includes_str p ''/./''"
        using includes_strI [of p pre "''/./''"] ends_with_append [of pre "''/.''"] by auto
      with n show False by (auto simp: needs_normalization_def)
    qed
    moreover have "seg \<noteq> ''..''"
    proof
      assume "seg = ''..''"
      with post shape have "ends_with p ''/..'' \<or> includes_str p ''/../''"
        using includes_strI [of p pre "''/../''"] ends_with_append [of pre "''/..''"] by auto
      with n show False by (auto simp: needs_normalization_def)
    qed
    ultimately show ?thesis
      using split_on_parts [OF \<open>seg \<in> set ?s\<close>] by (simp add: clean_segment_def)
  qed
  with q tl show ?thesis by (simp add: list_all_iff abs_path_def p)
qed

section \<open>One key per file\<close>

lemma ends_with_abs_path: "clean segs \<Longrightarrow> ends_with (abs_path segs) ''/'' \<longleftrightarrow> segs = []"
proof (cases segs rule: rev_cases)
  case (snoc xs x)
  assume "clean segs"
  with snoc have x: "x \<noteq> ''''" "CHR ''/'' \<notin> set x"
    by (simp_all add: clean_segment_def list_all_iff)
  then obtain y c where xc: "x = y @ [c]" "c \<noteq> CHR ''/''"
    by (cases x rule: rev_cases) auto
  have "\<exists>r. join_with ''/'' segs = r @ x"
    using snoc by (cases "xs = []") (auto simp: join_with_append)
  then obtain r where "abs_path segs = (CHR ''/'' # r @ y) @ [c]"
    using xc by (auto simp: abs_path_def)
  then show ?thesis
    using xc snoc by (simp add: ends_with_def)
qed (simp add: abs_path_def ends_with_def)

lemma split_on_append: "split_on c (xs @ c # ys) = split_on c xs @ split_on c ys"
  by (induction xs) (auto split: list.split)

text \<open>
  The specification: the key of the file with segments \<open>segs\<close> under the root with segments
  \<open>root\<close>.
\<close>

definition root_key :: "string list \<Rightarrow> string list \<Rightarrow> string option" where
  "root_key root segs =
     (if take (length root) segs = root
      then Some (if segs = root then ''.'' else join_with ''/'' (drop (length root) segs))
      else None)"

lemma join_clean_relative:
  assumes "clean ts"
  shows "key_of_relative (join_with ''/'' ts) = Some (if ts = [] then ''.'' else join_with ''/'' ts)"
proof (cases ts)
  case Nil
  then show ?thesis by (simp add: key_of_relative_def starts_with_def path_isAbsolute_def)
next
  case (Cons t us)
  have t: "t \<noteq> ''''" "t \<noteq> ''..''" "CHR ''/'' \<notin> set t"
    using assms Cons by (simp_all add: clean_segment_def)
  have first: "hd (split_on (CHR ''/'') (join_with ''/'' ts)) = t"
    using split_join [of ts "CHR ''/''"] assms Cons by (simp add: clean_no_slash)
  have "join_with ''/'' ts \<noteq> ''..''" "\<not> starts_with (join_with ''/'' ts) ''../''"
    "\<not> path_isAbsolute (join_with ''/'' ts)" "join_with ''/'' ts \<noteq> ''''"
    using first t by (auto simp: starts_with_iff path_isAbsolute_def)
  then show ?thesis using Cons by (simp add: key_of_relative_def)
qed

lemma key_of_parent: "n \<noteq> 0 \<Longrightarrow> key_of_relative (join_with ''/'' (replicate n ''..'' @ ts)) = None"
proof (cases n)
  case (Suc m)
  then show ?thesis
    by (cases "replicate m ''..'' @ ts") (auto simp: key_of_relative_def starts_with_def)
qed simp

lemma relative_root_key:
  assumes "clean root" "clean segs" "ar_rootDir ar = abs_path root" "path_resolve cwd p = abs_path segs"
  shows "key_of_relative (relative_to_root cwd ar p) = root_key root segs"
proof -
  obtain fs ts where st: "strip_common root segs = (fs, ts)" by (cases "strip_common root segs")
  have rel: "relative_to_root cwd ar p = join_with ''/'' (replicate (length fs) ''..'' @ ts)"
    using assms st by (simp add: relative_to_root_def normalizeForComparison_def path_relative_abs_path)
  show ?thesis
  proof (cases "fs = []")
    case True
    with st have "segs = root @ ts" by (simp add: strip_common_prefix)
    with True rel assms(2) show ?thesis
      by (simp add: root_key_def join_clean_relative)
  next
    case False
    have "take (length root) segs \<noteq> root"
      using False st strip_common_append [of root "drop (length root) segs"]
      by (metis append_take_drop_id fst_conv)
    with False rel show ?thesis by (simp add: root_key_def key_of_parent)
  qed
qed

lemma abs_path_append: "xs \<noteq> [] \<Longrightarrow> ys \<noteq> [] \<Longrightarrow> abs_path (xs @ ys) = abs_path xs @ ''/'' @ join_with ''/'' ys"
  by (simp add: abs_path_def join_with_append)

lemma starts_with_root:
  assumes "clean root" "clean segs" "root \<noteq> []" "segs \<noteq> []"
  shows "starts_with (abs_path segs) (abs_path root @ ''/'') \<longleftrightarrow>
    take (length root) segs = root \<and> segs \<noteq> root"
proof
  assume "starts_with (abs_path segs) (abs_path root @ ''/'')"
  then obtain t where "abs_path segs = abs_path root @ CHR ''/'' # t"
    by (auto simp: starts_with_iff)
  then have "'''' # segs = ('''' # root) @ split_on (CHR ''/'') t"
    using assms split_abs_path [OF assms(2)] split_abs_path [OF assms(1)]
    by (simp add: split_on_append)
  then show "take (length root) segs = root \<and> segs \<noteq> root" by simp
next
  assume p: "take (length root) segs = root \<and> segs \<noteq> root"
  then obtain ts where "segs = root @ ts" "ts \<noteq> []"
    by (metis append_Nil2 append_take_drop_id)
  with assms(3) show "starts_with (abs_path segs) (abs_path root @ ''/'')"
    by (simp add: abs_path_append starts_with_iff)
qed

text \<open>What the fast path computes for a clean path.\<close>

lemma fast_root_key:
  assumes "clean root" "clean segs"
  shows "Option.bind
    (case find (\<lambda>r. abs_path segs = cr_directory r \<or> starts_with (abs_path segs) (cr_prefix r))
       [comparisonRoot (abs_path root)] of
       None \<Rightarrow> None
     | Some r \<Rightarrow> Some (if abs_path segs = cr_directory r then ''''
                       else drop (length (cr_prefix r)) (abs_path segs))) key_of_relative
    = root_key root segs"
proof (cases "root = []")
  case True
  have "starts_with (abs_path segs) ''/''" by (simp add: abs_path_def starts_with_def)
  with True assms(2) show ?thesis
    using abs_path_inject [OF assms(2), of "[]"] join_clean_relative [OF assms(2)]
      join_clean_relative [of "[]"]
    by (auto simp: comparisonRoot_def root_key_def ends_with_abs_path)
      (simp_all add: abs_path_def ends_with_def)
next
  case False
  then have dir: "comparisonRoot (abs_path root) =
      \<lparr>cr_directory = abs_path root, cr_prefix = abs_path root @ ''/''\<rparr>"
    using assms by (simp add: comparisonRoot_def ends_with_abs_path)
  show ?thesis
  proof (cases "segs = root")
    case True
    then show ?thesis
      using join_clean_relative [of "[]"] by (simp add: dir root_key_def)
  next
    case diff: False
    then have ne: "abs_path segs \<noteq> abs_path root" using assms by (simp add: abs_path_inject)
    have sw: "starts_with (abs_path segs) (abs_path root @ ''/'') \<longleftrightarrow> take (length root) segs = root"
    proof (cases "segs = []")
      case True
      then show ?thesis using False by (auto simp: abs_path_def starts_with_def)
    qed (use assms diff False in \<open>simp add: starts_with_root\<close>)
    show ?thesis
    proof (cases "take (length root) segs = root")
      case True
      then obtain ts where ts: "segs = root @ ts" "ts \<noteq> []"
        using diff by (metis append_Nil2 append_take_drop_id)
      have "drop (length (abs_path root @ ''/'')) (abs_path segs) = join_with ''/'' ts"
        using ts False by (simp add: abs_path_append)
      with True sw ne ts assms(2) show ?thesis
        by (simp add: dir root_key_def join_clean_relative)
    next
      case False
      with sw ne show ?thesis by (simp add: dir root_key_def)
    qed
  qed
qed

text \<open>The aliases of the root are tried one after the other.\<close>

lemma root_matches:
  assumes "clean root" "clean segs"
  shows "abs_path segs = cr_directory (comparisonRoot (abs_path root))
      \<or> starts_with (abs_path segs) (cr_prefix (comparisonRoot (abs_path root)))
    \<longleftrightarrow> take (length root) segs = root"
proof (cases "root = []")
  case True
  have "starts_with (abs_path segs) ''/''" by (simp add: abs_path_def starts_with_def)
  with True show ?thesis by (simp add: comparisonRoot_def ends_with_abs_path) (simp add: abs_path_def)
next
  case False
  then have dir: "comparisonRoot (abs_path root) =
      \<lparr>cr_directory = abs_path root, cr_prefix = abs_path root @ ''/''\<rparr>"
    using assms by (simp add: comparisonRoot_def ends_with_abs_path)
  show ?thesis
  proof (cases "segs = []")
    case True
    then have "abs_path segs \<noteq> abs_path root" using False assms by (simp add: abs_path_inject)
    with True False show ?thesis by (auto simp: dir) (auto simp: abs_path_def starts_with_def)
  next
    case segs: False
    from starts_with_root [OF assms False segs] show ?thesis
      using assms by (auto simp: dir abs_path_inject)
  qed
qed

definition first_root_key :: "string list list \<Rightarrow> string list \<Rightarrow> string option" where
  "first_root_key roots segs =
     Option.bind (find (\<lambda>root. take (length root) segs = root) roots) (\<lambda>root. root_key root segs)"

lemma find_map: "find P (map f xs) = map_option f (find (P \<circ> f) xs)"
  by (induction xs) simp_all

lemma fast_roots_key:
  assumes "list_all clean roots" "clean segs"
  shows "Option.bind
    (case find (\<lambda>r. abs_path segs = cr_directory r \<or> starts_with (abs_path segs) (cr_prefix r))
       (map (\<lambda>root. comparisonRoot (abs_path root)) roots) of
       None \<Rightarrow> None
     | Some r \<Rightarrow> Some (if abs_path segs = cr_directory r then ''''
                       else drop (length (cr_prefix r)) (abs_path segs))) key_of_relative
    = first_root_key roots segs"
  using assms(1)
proof (induction roots)
  case (Cons root roots)
  show ?case
  proof (cases "take (length root) segs = root")
    case True
    then show ?thesis
      using fast_root_key [of root segs] root_matches [of root segs] assms(2) Cons.prems
      by (simp add: first_root_key_def)
  next
    case False
    then show ?thesis
      using root_matches [of root segs] assms(2) Cons by (simp add: first_root_key_def)
  qed
qed (simp add: first_root_key_def)

text \<open>
  What \<open>keyFor\<close> computes: an absolute path that needs no normalising is looked for under every
  alias of the root, any other one under the root itself.
\<close>

lemma compute_key_roots:
  assumes "clean root" "ar_rootDir ar = abs_path root" "list_all clean roots"
    and "ar_comparisonRoots ar = map (\<lambda>root. comparisonRoot (abs_path root)) roots"
    and "\<not> ends_with p ''/''"
  shows "compute_key cwd ar p =
     (if path_isAbsolute p \<and> \<not> needs_normalization p then first_root_key roots (abs_segments (path_resolve cwd p))
      else root_key root (abs_segments (path_resolve cwd p)))"
proof (cases "path_isAbsolute p \<and> \<not> needs_normalization p")
  case True
  then obtain segs where segs: "clean segs" "p = abs_path segs"
    using no_normalization_clean [of p] assms(5) by blast
  have np: "path_isAbsolute (abs_path segs) \<and> \<not> needs_normalization (abs_path segs)"
    using True segs by simp
  have "compute_key cwd ar p = first_root_key roots segs"
    unfolding compute_key_def compute_relative_def segs(2) normalizeForComparison_def Let_def
      if_P [OF np] assms(4) by (rule fast_roots_key [OF assms(3) segs(1)])
  with segs True show ?thesis by simp
next
  case False
  then have "compute_key cwd ar p = key_of_relative (relative_to_root cwd ar p)"
    by (auto simp: compute_key_def compute_relative_def normalizeForComparison_def Let_def)
  moreover obtain segs where segs: "clean segs" "path_resolve cwd p = abs_path segs"
    using path_resolve_is_abs_path by blast
  ultimately show ?thesis
    using relative_root_key [OF assms(1) segs(1) assms(2) segs(2)] False by auto
qed

lemma first_root_key_single: "first_root_key [root] segs = root_key root segs"
  by (simp add: first_root_key_def root_key_def)

lemma compute_key_root_key:
  assumes "clean root" "ar_rootDir ar = abs_path root"
    and "ar_comparisonRoots ar = [comparisonRoot (ar_rootDir ar)]"
    and "\<not> ends_with p ''/''"
  shows "compute_key cwd ar p = root_key root (abs_segments (path_resolve cwd p))"
  using compute_key_roots [of root ar "[root]" p cwd] assms by (simp add: first_root_key_single)

section \<open>Relocation\<close>

lemma not_ends_with_join:
  assumes "clean ts" "ts \<noteq> []"
  shows "\<not> ends_with (x @ join_with ''/'' ts) ''/''"
proof -
  obtain us u where ts: "ts = us @ [u]" using assms(2) by (metis rev_exhaust)
  then obtain y c where u: "u = y @ [c]" "c \<noteq> CHR ''/''"
    using assms(1) by (cases u rule: rev_cases) (auto simp: clean_segment_def)
  have "\<exists>r. join_with ''/'' ts = r @ u"
    using ts by (cases "us = []") (auto simp: join_with_append)
  then obtain r where "x @ join_with ''/'' ts = (x @ r @ y) @ [c]" using u by auto
  then show ?thesis using u(2) by (simp add: ends_with_def)
qed

lemma norm_split_append:
  assumes "clean root" "clean ts" "ts \<noteq> []"
  shows "norm_segments False (split_on (CHR ''/'') (abs_path root @ CHR ''/'' # join_with ''/'' ts)) = root @ ts"
proof -
  have "split_on (CHR ''/'') (abs_path root @ CHR ''/'' # join_with ''/'' ts)
      = ('''' # (if root = [] then [''''] else root)) @ ts"
    using assms split_join [of ts "CHR ''/''"] by (simp add: split_on_append split_abs_path clean_no_slash)
  then show ?thesis
    using foldl_norm_clean [of "root @ ts" False "[]"] assms(1,2)
    by (simp add: norm_segments_def foldl_norm_clean)
qed

lemma path_normalize_absolute:
  assumes "path_isAbsolute p" "\<not> ends_with p ''/'' \<or> abs_segments p = []"
  shows "path_normalize p = abs_path (abs_segments p)"
proof -
  have "p \<noteq> ''''" using assms(1) by (auto simp: path_isAbsolute_def starts_with_def)
  with assms show ?thesis
    by (auto simp: path_normalize_def Let_def abs_segments_def abs_path_def)
qed

lemma path_normalize_abs_path: "clean segs \<Longrightarrow> path_normalize (abs_path segs) = abs_path segs"
  using path_normalize_absolute [of "abs_path segs"] ends_with_abs_path [of segs] by auto

lemma join_abs_path:
  assumes "clean root" "clean ts"
  shows "path_join (abs_path root # ts) = abs_path (root @ ts)"
proof (cases "ts = []")
  case True
  then show ?thesis
    using path_normalize_abs_path [OF assms(1)]
    by (simp add: path_join_def) (simp add: abs_path_def)
next
  case False
  let ?p = "abs_path root @ CHR ''/'' # join_with ''/'' ts"
  have "filter (\<lambda>a. a \<noteq> '''') ts = ts"
    using assms(2) by (auto simp: filter_id_conv list_all_iff clean_segment_def)
  then have "path_join (abs_path root # ts) = path_normalize ?p"
    using False by (cases ts) (simp_all add: path_join_def Let_def, simp add: abs_path_def)
  moreover have "path_isAbsolute ?p" by (simp add: abs_path_def path_isAbsolute_def starts_with_def)
  moreover have "\<not> ends_with ?p ''/''"
    using not_ends_with_join [OF assms(2) False, of "abs_path root @ ''/''"] by simp
  ultimately show ?thesis
    using norm_split_append [OF assms False] by (simp add: path_normalize_absolute abs_segments_def)
qed

lemma root_key_drop:
  assumes "clean (root @ ts)"
  shows "root_key root (root @ ts) = Some (if ts = [] then ''.'' else join_with ''/'' ts)"
  by (simp add: root_key_def)

lemma absolutePathFor_key:
  assumes "clean root" "clean ts"
  shows "absolutePathFor (abs_path root) (if ts = [] then ''.'' else join_with ''/'' ts) = abs_path (root @ ts)"
proof (cases ts)
  case (Cons t us)
  have "split_on (CHR ''/'') (join_with ''/'' ts) = ts"
    using split_join [of ts "CHR ''/''"] clean_no_slash [OF assms(2)] Cons by simp
  moreover have "join_with ''/'' ts \<noteq> ''.''"
  proof
    assume "join_with ''/'' ts = ''.''"
    with calculation have "ts = [''.'']" using split_on_single [of "CHR ''/''" "''.''"] by simp
    with assms(2) show False by (simp add: clean_segment_def)
  qed
  ultimately show ?thesis
    using Cons join_abs_path [OF assms] by (simp add: absolutePathFor_def)
qed (simp add: absolutePathFor_def)

text \<open>What an encoded path is decoded to by an archive with another root.\<close>

lemma relocate:
  assumes "clean root" "clean ts" "clean root'"
    and "ar_rootDir ar = abs_path root" "ar_comparisonRoots ar = [comparisonRoot (ar_rootDir ar)]"
    and "keys_sound cwd ar" "ar_rootDir ar' = abs_path root'" "root @ ts \<noteq> []"
  shows "decodePortablePath ar' (fst (encodePortablePath cwd ar (StringPath (abs_path (root @ ts))))) None =
      abs_path (root' @ ts)
    \<and> (take (length root) ts \<noteq> root \<longrightarrow> ts \<noteq> [] \<longrightarrow>
       decodePortablePath ar' (fst (encodePortablePath cwd ar (StringPath (abs_path ts)))) None = abs_path ts)"
proof -
  have key: "fst (keyFor cwd ar (StringPath (abs_path segs))) = root_key root segs" if "clean segs" "segs \<noteq> []" for segs
    using keyFor_sound [OF assms(6), of "StringPath (abs_path segs)"] compute_key_root_key [OF assms(1,4,5), of "abs_path segs" cwd]
      ends_with_abs_path [OF that(1)] that by simp
  have c: "clean (root @ ts)" using assms(1,2) by simp
  have "encodePortablePath cwd ar (StringPath (abs_path (root @ ts))) =
      (\<lparr>pp_kind = RelativePath, pp_path = if ts = [] then ''.'' else join_with ''/'' ts\<rparr>,
       snd (keyFor cwd ar (StringPath (abs_path (root @ ts)))))"
    using key [OF c assms(8)] root_key_drop [OF c]
    by (cases "keyFor cwd ar (StringPath (abs_path (root @ ts)))") (simp add: encodePortablePath_def)
  moreover have "fst (encodePortablePath cwd ar (StringPath (abs_path ts))) =
      \<lparr>pp_kind = AbsolutePath, pp_path = abs_path ts\<rparr>" if "take (length root) ts \<noteq> root" "ts \<noteq> []"
    using key [OF assms(2) that(2)] that(1)
    by (cases "keyFor cwd ar (StringPath (abs_path ts))") (simp add: encodePortablePath_def root_key_def)
  ultimately show ?thesis
    using absolutePathFor_key [OF assms(3,2)] assms(7) by (simp add: decodePortablePath_def)
qed

end
