(* ===== verification/FS_Executor.thy ===== *)
theory FS_Executor
  imports Archive_Keys
begin

text \<open>
  \<open>packages/shared/src/fs-cache/hook.ts\<close>, first part: errors and their snapshots, the names
  of operations, and the executor that answers a filesystem call from the archive or runs the
  native function and records its outcome. The executor reaches the archive through the
  interface \<open>ArchiveFacade\<close>, a record of functions here as in the source.
  An input is a path, a descriptor number or a file handle.
\<close>

section \<open>Errors\<close>

text \<open>An \<open>FsError\<close>: the fields of a snapshot, and the path.\<close>

record thrown_error =
  te_error :: fs_error
  te_path :: "string option"

datatype thrown =
    FsThrown thrown_error
  | ArchiveThrown archive_error
  | UnsupportedThrown string
  | NoActiveAnalysis
  | TypeThrown string

text \<open>
  \<open>s.replaceAll(p, r)\<close> with a literal search string and a replacement in which
  \<open>$$\<close>, \<open>$&\<close>, \<open>$`\<close> and \<open>$'\<close> are expanded.
\<close>

fun expand_replacement :: "string \<Rightarrow> string \<Rightarrow> string \<Rightarrow> string \<Rightarrow> string" where
  "expand_replacement before matched after [] = []"
| "expand_replacement before matched after [c] = [c]"
| "expand_replacement before matched after (c # d # r) =
     (if c = CHR ''$'' \<and> d = CHR ''$'' then CHR ''$'' # expand_replacement before matched after r
      else if c = CHR ''$'' \<and> d = CHR ''&'' then matched @ expand_replacement before matched after r
      else if c = CHR ''$'' \<and> d = CHR 0x60 then before @ expand_replacement before matched after r
      else if c = CHR ''$'' \<and> d = CHR 0x27 then after @ expand_replacement before matched after r
      else c # expand_replacement before matched after (d # r))"

function replace_from :: "string \<Rightarrow> string \<Rightarrow> string \<Rightarrow> string \<Rightarrow> string" where
  "replace_from p r before [] = []"
| "replace_from p r before (c # s) =
     (if p \<noteq> [] \<and> starts_with (c # s) p
      then expand_replacement before p (drop (length p) (c # s)) r
           @ replace_from p r (before @ p) (drop (length p) (c # s))
      else c # replace_from p r (before @ [c]) s)"
  by pat_completeness auto
termination
proof (relation "measure (\<lambda>(p, r, b, s). length s)", goal_cases)
  case (2 p r b c s)
  then show ?case by (cases p) auto
qed auto

definition js_replaceAll :: "string \<Rightarrow> string \<Rightarrow> string \<Rightarrow> string" where
  "js_replaceAll s p r = replace_from p r '''' s"

fun pathDisplay :: "path_like \<Rightarrow> string" where
  "pathDisplay (BufferPath b) = b"
| "pathDisplay input = path_like_string input"

text \<open>
  \<open>errorPath || '\0'\<close>: an absent or empty path is replaced by a string that does not occur. The text
  of an error without a message is its name.
\<close>

definition snapshotError :: "thrown_error \<Rightarrow> fs_error" where
  "snapshotError e =
     (let err = te_error e;
          errorPath = te_path e
      in \<lparr>err_name = (if err_name err = '''' then ''Error'' else err_name err),
          err_message = js_replaceAll (if err_message err = '''' then err_name err else err_message err) (or_default errorPath [CHR 0x00]) ''$PATH'',
          err_code = err_code err, err_errno = err_errno err, err_syscall = err_syscall err\<rparr>)"

definition restoreError :: "fs_error \<Rightarrow> path_like \<Rightarrow> thrown_error" where
  "restoreError snapshot input =
     (let currentPath = pathDisplay input in
      \<lparr>te_error = snapshot\<lparr>err_message := js_replaceAll (err_message snapshot) ''$PATH'' currentPath\<rparr>,
       te_path = Some currentPath\<rparr>)"

definition cacheMiss :: "string \<Rightarrow> path_like \<Rightarrow> thrown_error" where
  "cacheMiss operation input =
     \<lparr>te_error = \<lparr>err_name = ''FsCacheMissError'',
        err_message = ''Filesystem cache has no '' @ operation @ '' observation for '' @ [CHR 0x27]
          @ pathDisplay input @ [CHR 0x27],
        err_code = Some ''ERR_SONARJS_FS_CACHE_MISS'', err_errno = None,
        err_syscall = Some (hd (split_on (CHR '':'') operation))\<rparr>,
      te_path = Some (pathDisplay input)\<rparr>"

definition ENOENT_ERRNO :: int where
  "ENOENT_ERRNO = -2"

definition missing_syscall :: "string \<Rightarrow> string" where
  "missing_syscall name =
     (if name = ''readFile'' then ''open''
      else if name = ''readdir'' then ''scandir''
      else if name = ''realpath'' then ''lstat''
      else if name = ''realpath.native'' then ''realpath''
      else name)"

definition enoent :: "string \<Rightarrow> string \<Rightarrow> thrown_error" where
  "enoent syscall currentPath =
     \<lparr>te_error = \<lparr>err_name = ''Error'',
        err_message = ''ENOENT: no such file or directory, '' @ syscall @ '' '' @ [CHR 0x27]
          @ currentPath @ [CHR 0x27],
        err_code = Some ''ENOENT'', err_errno = Some ENOENT_ERRNO, err_syscall = Some syscall\<rparr>,
      te_path = Some currentPath\<rparr>"

section \<open>Values\<close>

text \<open>
  What a filesystem call returns. A stat object is the text of its numeric fields, its dates
  (the text of the milliseconds they are made from) and the results of its type methods;
  \<open>st_bigint\<close> tells which numeric type the fields have.
\<close>

datatype js_name = StrName string | BufName buffer

record stat_object =
  st_fields :: "(string, string) js_map"
  st_dates :: "(string, string) js_map"
  st_types :: "(string, bool) js_map"
  st_bigint :: bool

text \<open>
  A directory entry: a name, or a \<open>Dirent\<close> with its name, the results of its type methods and
  \<open>parentPath || path || ''\<close>.
\<close>

datatype dir_value = DirName js_name | Dirent js_name "(string, bool) js_map" string

datatype js_value =
    Undefined
  | JsNull
  | JsBool bool
  | JsBuffer buffer
  | JsString string
  | JsName js_name
  | JsStats stat_object
  | JsEntries "dir_value list"

datatype replayed = Missing | Replayed js_value | Throws thrown

text \<open>\<open>missingPath\<close> returns \<open>false\<close> or \<open>undefined\<close>, or throws.\<close>

definition missingPath :: "string \<Rightarrow> path_like \<Rightarrow> replayed" where
  "missingPath operation input =
     (if operation = ''exists'' then Replayed (JsBool False)
      else if (starts_with operation ''stat:'' \<or> starts_with operation ''lstat:'')
              \<and> ends_with operation '':soft''
      then Replayed Undefined
      else Throws (FsThrown (enoent (missing_syscall (hd (split_on (CHR '':'') operation)))
             (pathDisplay input))))"

section \<open>Encoding and decoding\<close>

text \<open>
  The functions between the values of a call and what is stored. They may add path keys, and may throw.
\<close>

type_synonym 's encoder = "js_value \<Rightarrow> 's \<Rightarrow> (thrown + stored_value) \<times> 's"
type_synonym 's decoder = "'s \<Rightarrow> stored_value \<Rightarrow> thrown + js_value"

definition encodes :: "(js_value \<Rightarrow> stored_value) \<Rightarrow> 's encoder" where
  "encodes f v s = (Inr (f v), s)"

definition decodes :: "(stored_value \<Rightarrow> js_value) \<Rightarrow> 's decoder" where
  "decodes f s v = Inr (f v)"

section \<open>The executor\<close>

datatype cache_input = PathInput path_like | FdInput int | HandleInput int

record 's facade =
  fc_mode :: "'s \<Rightarrow> archive_mode"
  fc_keyFor :: "'s \<Rightarrow> path_like \<Rightarrow> string option \<times> 's"
  fc_get :: "'s \<Rightarrow> string \<Rightarrow> string \<Rightarrow> archive_error + stored_outcome option"
  fc_getExists :: "'s \<Rightarrow> string \<Rightarrow> string \<Rightarrow> bool option"
  fc_set :: "'s \<Rightarrow> string \<Rightarrow> string \<Rightarrow> stored_outcome \<Rightarrow> 's \<times> archive_error option"
  fc_hit :: "'s \<Rightarrow> 's"
  fc_miss :: "'s \<Rightarrow> 's"
  fc_encode :: "'s \<Rightarrow> path_like \<Rightarrow> portable_path \<times> 's"
  fc_decode :: "'s \<Rightarrow> portable_path \<Rightarrow> realpath_operation option \<Rightarrow> string"

text \<open>The facade of the active archive.\<close>

definition archive_facade :: "string \<Rightarrow> archive facade" where
  "archive_facade cwd =
     \<lparr>fc_mode = ar_mode, fc_keyFor = keyFor cwd, fc_get = archive_get, fc_getExists = getExists,
      fc_set = archive_set, fc_hit = recordCacheHit, fc_miss = recordCacheMiss,
      fc_encode = encodePortablePath cwd, fc_decode = decodePortablePath\<rparr>"

definition input_key :: "'s facade \<Rightarrow> 's \<Rightarrow> cache_input \<Rightarrow> string option \<times> 's" where
  "input_key F s input =
     (case input of PathInput p \<Rightarrow> fc_keyFor F s p | FdInput _ \<Rightarrow> (None, s) | HandleInput _ \<Rightarrow> (None, s))"

text \<open>
  The lookup of \<open>replay\<close> for a path with a key. \<open>decode\<close> may read the archive (to rebuild
  portable paths), so it gets the state.
\<close>

definition replay_key :: "'s facade \<Rightarrow> 's \<Rightarrow> string \<Rightarrow> path_like \<Rightarrow> string \<Rightarrow> 's decoder \<Rightarrow> replayed \<times> 's" where
  "replay_key F s k input operation decode =
     (case fc_get F s k operation of
        Inl e \<Rightarrow> (Throws (ArchiveThrown e), s)
      | Inr None \<Rightarrow>
          if fc_getExists F s k operation = Some False
          then (missingPath operation input, fc_hit F s)
          else (let s' = fc_miss F s in
                if fc_mode F s' = Replay
                then (Throws (FsThrown (cacheMiss operation input)), s')
                else (Missing, s'))
      | Inr (Some outcome) \<Rightarrow>
          (let s' = fc_hit F s in
           case outcome of
             Failure e \<Rightarrow> (Throws (FsThrown (restoreError e input)), s')
           | Success v \<Rightarrow> (case_sum Throws Replayed (decode s' v), s')))"

definition replay :: "'s facade \<Rightarrow> 's \<Rightarrow> cache_input \<Rightarrow> string \<Rightarrow> 's decoder \<Rightarrow> replayed \<times> 's" where
  "replay F s input operation decode =
     (case (input, input_key F s input) of
        (PathInput p, (Some k, s')) \<Rightarrow> replay_key F s' k p operation decode
      | (_, (_, s')) \<Rightarrow> (Missing, s'))"

text \<open>
  \<open>runSync\<close>. \<open>producer\<close> is the result of the native call. The \<open>try\<close> covers it, \<open>encode\<close> and
  \<open>archive.set\<close>: an exception of any of them is recorded as a failure and thrown, unless recording
  it throws in turn. \<open>runAsync\<close> has the same steps around an \<open>await\<close> (theory FS_Async).
\<close>

type_synonym native_result = "thrown_error + js_value"

definition record_outcome :: "'s facade \<Rightarrow> 's \<Rightarrow> string option \<Rightarrow> string \<Rightarrow> stored_outcome \<Rightarrow>
    's \<times> archive_error option" where
  "record_outcome F s k operation outcome =
     (case k of
        Some k' \<Rightarrow> if fc_mode F s = Record then fc_set F s k' operation outcome else (s, None)
      | None \<Rightarrow> (s, None))"

text \<open>The snapshot of what may be thrown.\<close>

definition plain_snapshot :: "string \<Rightarrow> string \<Rightarrow> string option \<Rightarrow> fs_error" where
  "plain_snapshot name message code =
     \<lparr>err_name = name, err_message = message, err_code = code, err_errno = None, err_syscall = None\<rparr>"

fun snapshot_thrown :: "thrown \<Rightarrow> fs_error" where
  "snapshot_thrown (FsThrown e) = snapshotError e"
| "snapshot_thrown (ArchiveThrown e) =
     plain_snapshot ''FsCacheArchiveError''
       (case e of UnsupportedOperation operation \<Rightarrow>
          ''Unsupported filesystem cache operation: '' @ operation | _ \<Rightarrow> '''')
       (Some ''ERR_SONARJS_FS_CACHE_ARCHIVE'')"
| "snapshot_thrown (UnsupportedThrown message) =
     plain_snapshot ''UnsupportedFsOperationError'' message (Some ''ERR_SONARJS_FS_CACHE_UNSUPPORTED_OPERATION'')"
| "snapshot_thrown NoActiveAnalysis = plain_snapshot ''Error'' ''No filesystem cache analysis is active'' None"
| "snapshot_thrown (TypeThrown message) = plain_snapshot ''TypeError'' message None"

text \<open>The \<open>catch\<close>.\<close>

definition record_thrown :: "'s facade \<Rightarrow> 's \<Rightarrow> string option \<Rightarrow> string \<Rightarrow> thrown \<Rightarrow> (thrown + js_value) \<times> 's" where
  "record_thrown F s k operation e =
     (case record_outcome F s k operation (Failure (snapshot_thrown e)) of
        (s', None) \<Rightarrow> (Inl e, s')
      | (s', Some e') \<Rightarrow> (Inl (ArchiveThrown e'), s'))"

definition runSync :: "'s facade \<Rightarrow> 's \<Rightarrow> cache_input \<Rightarrow> string \<Rightarrow> native_result \<Rightarrow> 's encoder \<Rightarrow> 's decoder \<Rightarrow>
    (thrown + js_value) \<times> 's" where
  "runSync F s input operation producer encode decode =
     (case replay F s input operation decode of
        (Throws e, s1) \<Rightarrow> (Inl e, s1)
      | (Replayed v, s1) \<Rightarrow> (Inr v, s1)
      | (Missing, s1) \<Rightarrow>
          (let (k, s2) = input_key F s1 input in
           case producer of
             Inr v \<Rightarrow>
               if fc_mode F s2 = Record \<and> k \<noteq> None
               then (case encode v s2 of
                       (Inl e, s3) \<Rightarrow> record_thrown F s3 k operation e
                     | (Inr sv, s3) \<Rightarrow>
                         (case record_outcome F s3 k operation (Success sv) of
                            (s4, None) \<Rightarrow> (Inr v, s4)
                          | (s4, Some e) \<Rightarrow> record_thrown F s4 k operation (ArchiveThrown e)))
               else (Inr v, s2)
           | Inl err \<Rightarrow> record_thrown F s2 k operation (FsThrown err)))"

section \<open>Restored errors\<close>

lemma expand_plain: "CHR ''$'' \<notin> set r \<Longrightarrow> expand_replacement b m a r = r"
  by (induction b m a r rule: expand_replacement.induct) auto

lemma expand_PATH [simp]: "expand_replacement b m a ''$PATH'' = ''$PATH''"
  by simp

lemma replace_from_plain:
  "(\<And>b a. expand_replacement b p a r = r) \<Longrightarrow> replace_from p r before s = replace_all p r s"
  by (induction p r before s rule: replace_from.induct) auto

lemma js_replaceAll_plain: "CHR ''$'' \<notin> set r \<Longrightarrow> js_replaceAll s p r = replace_all p r s"
  by (simp add: js_replaceAll_def replace_from_plain expand_plain)

lemma js_replaceAll_PATH: "js_replaceAll s p ''$PATH'' = replace_all p ''$PATH'' s"
  unfolding js_replaceAll_def by (rule replace_from_plain) simp

lemma replace_all_inverse:
  assumes "CHR ''$'' \<notin> set m"
  shows "replace_all ''$PATH'' q (replace_all p ''$PATH'' m) = replace_all p q m"
  using assms
proof (induction p "''$PATH''" m rule: replace_all.induct)
  case (2 p c s)
  show ?case
  proof (cases "p \<noteq> [] \<and> starts_with (c # s) p")
    case True
    have "CHR ''$'' \<notin> set (drop (length p) (c # s))"
      using 2(3) by (meson in_set_dropD)
    with True 2(1) show ?thesis
      by (simp add: starts_with_def)
  next
    case False
    with 2 show ?thesis by (auto simp: starts_with_def)
  qed
qed simp

lemma replace_all_same: "r = p \<Longrightarrow> replace_all p r m = m"
  by (induction p r m rule: replace_all.induct) (auto simp: starts_with_iff)

end
