(* ===== verification/FS_Values.thy ===== *)
theory FS_Values
  imports FS_Executor
begin

unbundle bit_operations_syntax

text \<open>
  \<open>packages/shared/src/fs-cache/hook.ts\<close>, second part: the options of the filesystem calls, the
  names of operations, and the snapshots of stats, names, directory listings and paths. Text
  encodings other than the identity on UTF-8 are the parameter \<open>to_text\<close>; the conversions of
  floating point numbers that \<open>BigInt\<close> stats need are the parameters \<open>trunc_number\<close> and
  \<open>ms_to_ns\<close>.
\<close>

section \<open>Options\<close>

record operation_options =
  oo_encoding :: "string option"
  oo_withFileTypes :: bool
  oo_recursive :: bool
  oo_bigint :: bool
  oo_throwIfNoEntry :: "bool option"

datatype options_input = NoOptions | NullOptions | EncodingName string | OptionsObject operation_options

definition falsy_to_none :: "string option \<Rightarrow> string option" where
  "falsy_to_none s = (if s = Some '''' then None else s)"

fun getEncoding :: "options_input \<Rightarrow> string option" where
  "getEncoding (EncodingName e) = Some e"
| "getEncoding (OptionsObject opts) = falsy_to_none (oo_encoding opts)"
| "getEncoding _ = None"

fun withoutEncoding :: "options_input \<Rightarrow> options_input" where
  "withoutEncoding (EncodingName e) = NullOptions"
| "withoutEncoding (OptionsObject opts) = OptionsObject (opts\<lparr>oo_encoding := None\<rparr>)"
| "withoutEncoding opts = opts"

definition returnReadBuffer :: "(string \<Rightarrow> buffer \<Rightarrow> string) \<Rightarrow> buffer \<Rightarrow> options_input \<Rightarrow> js_value" where
  "returnReadBuffer to_text b opts =
     (case falsy_to_none (getEncoding opts) of
        Some encoding \<Rightarrow> if encoding \<noteq> ''buffer'' then JsString (to_text encoding b) else JsBuffer b
      | None \<Rightarrow> JsBuffer b)"

fun withBufferEncoding :: "options_input \<Rightarrow> options_input" where
  "withBufferEncoding (OptionsObject opts) = OptionsObject (opts\<lparr>oo_encoding := Some ''buffer''\<rparr>)"
| "withBufferEncoding _ = EncodingName ''buffer''"

definition returnPathBuffer :: "(string \<Rightarrow> buffer \<Rightarrow> string) \<Rightarrow> buffer \<Rightarrow> options_input \<Rightarrow> js_value" where
  "returnPathBuffer to_text b opts =
     (let encoding = or_default (getEncoding opts) ''utf8'' in
      if encoding = ''buffer'' then JsBuffer b else JsString (to_text encoding b))"

section \<open>Names of operations\<close>

text \<open>The options of \<open>statOperation\<close> default to \<open>{}\<close>.\<close>

definition statOperation :: "string \<Rightarrow> bool \<Rightarrow> bool option \<Rightarrow> string" where
  "statOperation name bigint throwIfNoEntry =
     name @ '':'' @ (if bigint then ''bigint'' else ''number'') @ '':''
       @ (if throwIfNoEntry = Some False then ''soft'' else ''throw'')"

fun input_encoding :: "options_input \<Rightarrow> string option" where
  "input_encoding (EncodingName e) = Some e"
| "input_encoding (OptionsObject opts) = oo_encoding opts"
| "input_encoding _ = None"

fun input_flag :: "(operation_options \<Rightarrow> bool) \<Rightarrow> options_input \<Rightarrow> bool" where
  "input_flag f (OptionsObject opts) = f opts"
| "input_flag f _ = False"

definition readdirOperation :: "options_input \<Rightarrow> string" where
  "readdirOperation opts =
     ''readdir:'' @ or_default (input_encoding opts) ''utf8'' @ '':''
       @ show_bool (input_flag oo_withFileTypes opts) @ '':'' @ show_bool (input_flag oo_recursive opts)"

definition pathOperation :: "string \<Rightarrow> options_input \<Rightarrow> string" where
  "pathOperation name opts =
     (if starts_with name ''realpath'' then name else name @ '':'' @ or_default (getEncoding opts) ''utf8'')"

definition opendirOperation :: "options_input \<Rightarrow> string" where
  "opendirOperation opts =
     ''opendir:'' @ or_default (getEncoding opts) ''utf8'' @ '':'' @ show_bool (input_flag oo_recursive opts)"

text \<open>Open modes: a string, or 32 flag bits with the constants of Linux.\<close>

datatype open_mode = FlagString string | FlagBits "32 word"

definition write_mask :: "32 word" where
  "write_mask = 1 OR 2 OR 64 OR 1024 OR 512"

fun readonlyFlags :: "open_mode option \<Rightarrow> bool" where
  "readonlyFlags None = True"
| "readonlyFlags (Some (FlagString f)) \<longleftrightarrow> f = ''r'' \<or> f = ''rs'' \<or> f = ''sr''"
| "readonlyFlags (Some (FlagBits b)) \<longleftrightarrow> b AND write_mask = 0"

fun openOperation :: "open_mode option \<Rightarrow> string" where
  "openOperation None = ''open:r''"
| "openOperation (Some (FlagString f)) = (if f = ''r'' then ''open:r'' else ''open:'' @ f)"
| "openOperation (Some (FlagBits b)) = (if b = 0 then ''open:r'' else ''open:'' @ show_int (sint b))"

text \<open>Offset, length and position of a read, from an options object or from arguments.\<close>

definition readArguments :: "nat \<Rightarrow> nat option \<Rightarrow> nat option \<Rightarrow> int option \<Rightarrow> nat \<times> int \<times> int option" where
  "readArguments byteLength offset len position =
     (let off = nullish offset 0
      in (off, (case len of None \<Rightarrow> int byteLength - int off | Some n \<Rightarrow> int n), position))"

section \<open>Stats\<close>

definition STAT_FIELDS :: "string list" where
  "STAT_FIELDS = [''dev'', ''ino'', ''mode'', ''nlink'', ''uid'', ''gid'', ''rdev'', ''size'', ''blksize'',
     ''blocks'', ''atimeMs'', ''mtimeMs'', ''ctimeMs'', ''birthtimeMs'', ''atimeNs'', ''mtimeNs'',
     ''ctimeNs'', ''birthtimeNs'']"

definition snapshotStat :: "stat_object \<Rightarrow> cached_stat" where
  "snapshotStat st =
     \<lparr>cs_fields = map (\<lambda>f. (f, map_of (st_fields st) f)) STAT_FIELDS,
      cs_types = map (\<lambda>t. (t, map_of (st_types st) t = Some True)) STAT_TYPES\<rparr>"

definition is_digit :: "char \<Rightarrow> bool" where
  "is_digit c \<longleftrightarrow> of_char c \<ge> (48::nat) \<and> of_char c \<le> (57::nat)"

definition integer_text :: "string \<Rightarrow> bool" where
  "integer_text s \<longleftrightarrow>
     (let digits = (case s of c # r \<Rightarrow> if c = CHR ''-'' then r else s | [] \<Rightarrow> s)
      in digits \<noteq> '''' \<and> list_all is_digit digits)"

definition restoreStatField :: "(string \<Rightarrow> string) \<Rightarrow> string \<Rightarrow> bool \<Rightarrow> string" where
  "restoreStatField trunc_number v bigint =
     (if \<not> bigint then v else if integer_text v then v else trunc_number v)"

definition DATE_FIELDS :: "string list" where
  "DATE_FIELDS = [''atime'', ''mtime'', ''ctime'', ''birthtime'']"

definition snapshot_ms :: "cached_stat \<Rightarrow> string \<Rightarrow> string" where
  "snapshot_ms snapshot field =
     (case map_of (cs_fields snapshot) (field @ ''Ms'') of Some (Some v) \<Rightarrow> v | _ \<Rightarrow> ''NaN'')"

definition restoreStat :: "(string \<Rightarrow> string) \<Rightarrow> (string \<Rightarrow> string) \<Rightarrow> cached_stat \<Rightarrow> bool \<Rightarrow> stat_object" where
  "restoreStat trunc_number ms_to_ns snapshot bigint =
     (let fields = map (\<lambda>(f, v). (f, restoreStatField trunc_number v bigint)) (present_fields (cs_fields snapshot));
          with_ns = fold (\<lambda>field fs.
              if bigint \<and> map_of fs (field @ ''Ns'') = None
              then js_set (field @ ''Ns'') (ms_to_ns (snapshot_ms snapshot field)) fs else fs)
            DATE_FIELDS fields
      in \<lparr>st_fields = with_ns,
          st_dates = map (\<lambda>field. (field, snapshot_ms snapshot field)) DATE_FIELDS,
          st_types = map (\<lambda>t. (t, map_of (cs_types snapshot) t = Some True)) STAT_TYPES,
          st_bigint = bigint\<rparr>)"

section \<open>Names, directory listings and paths\<close>

fun snapshotName :: "js_name \<Rightarrow> cached_name" where
  "snapshotName (BufName b) = BufferName (b64_encode b)"
| "snapshotName (StrName s) = StringName s"

fun restoreName :: "cached_name \<Rightarrow> js_name" where
  "restoreName (BufferName v) = BufName (b64_decode v)"
| "restoreName (StringName v) = StrName v"

definition direntType :: "(string, bool) js_map \<Rightarrow> string" where
  "direntType types =
     (case find (\<lambda>t. map_of types t = Some True) (tl DIRENT_TYPES) of None \<Rightarrow> ''unknown'' | Some t \<Rightarrow> t)"

fun snapshot_entry :: "'s facade \<Rightarrow> dir_value \<Rightarrow> 's \<Rightarrow> directory_entry \<times> 's" where
  "snapshot_entry F (DirName n) s = (NameEntry (snapshotName n), s)"
| "snapshot_entry F (Dirent n types parent) s =
     (let (p, s') = fc_encode F s (StringPath parent)
      in (DirentEntry (snapshotName n) (Some (direntType types)) (Some p), s'))"

fun snapshotDirectoryResult :: "'s facade \<Rightarrow> dir_value list \<Rightarrow> 's \<Rightarrow> directory_entry list \<times> 's" where
  "snapshotDirectoryResult F [] s = ([], s)"
| "snapshotDirectoryResult F (e # es) s =
     (let (x, s') = snapshot_entry F e s; (xs, s'') = snapshotDirectoryResult F es s' in (x # xs, s''))"

definition createDirent :: "'s facade \<Rightarrow> 's \<Rightarrow> cached_name \<Rightarrow> string option \<Rightarrow> portable_path option \<Rightarrow> dir_value" where
  "createDirent F s name type parent =
     Dirent (restoreName name) (map (\<lambda>t. (t, type = Some t)) (tl DIRENT_TYPES))
       (case parent of None \<Rightarrow> '''' | Some p \<Rightarrow> fc_decode F s p None)"

fun restore_entry :: "'s facade \<Rightarrow> 's \<Rightarrow> directory_entry \<Rightarrow> dir_value" where
  "restore_entry F s (NameEntry n) = DirName (restoreName n)"
| "restore_entry F s (DirentEntry n t p) = createDirent F s n t p"

definition restoreDirectoryResult :: "'s facade \<Rightarrow> 's \<Rightarrow> directory_entry list \<Rightarrow> dir_value list" where
  "restoreDirectoryResult F s es = map (restore_entry F s) es"

definition snapshotPathResult :: "'s facade \<Rightarrow> buffer \<Rightarrow> 's \<Rightarrow> stored_value \<times> 's" where
  "snapshotPathResult F b s = (let (p, s') = fc_encode F s (StringPath b) in (PathValue p, s'))"

definition restorePathResult :: "'s facade \<Rightarrow> 's \<Rightarrow> portable_path \<Rightarrow> realpath_operation \<Rightarrow> buffer" where
  "restorePathResult F s p operation = fc_decode F s p (Some operation)"

section \<open>Lemmas\<close>

lemma restore_snapshot_name [simp]: "restoreName (snapshotName n) = n"
  by (cases n) simp_all

lemma distinct_STAT_FIELDS [simp]: "distinct STAT_FIELDS"
  by (simp add: STAT_FIELDS_def)

lemma map_of_present_fields:
  "distinct (js_keys m) \<Longrightarrow> map_of (present_fields m) f = Option.bind (map_of m f) id"
proof (induction m rule: present_fields.induct)
  case (2 g fs)
  then have "map_of fs g = None" by (simp add: map_of_eq_None_iff)
  with 2 show ?case by auto
qed auto

lemma map_of_fields: "map_of (map (\<lambda>f. (f, h f)) fs) f = (if f \<in> set fs then Some (h f) else None)"
  by (induction fs) auto

lemma map_of_map_value: "map_of (map (\<lambda>(f, v). (f, g v)) m) f = map_option g (map_of m f)"
  by (induction m) auto

lemma map_of_restored_fields:
  assumes "f \<in> set STAT_FIELDS"
  shows "map_of (map (\<lambda>(f, v). (f, restoreStatField trunc_number v bigint))
      (present_fields (cs_fields (snapshotStat st)))) f
    = map_option (\<lambda>v. restoreStatField trunc_number v bigint) (map_of (st_fields st) f)"
proof -
  have d: "distinct (js_keys (map (\<lambda>f. (f, map_of (st_fields st) f)) STAT_FIELDS))"
    by (simp add: comp_def)
  show ?thesis
    unfolding map_of_map_value snapshotStat_def cached_stat.simps map_of_present_fields [OF d]
    by (simp add: map_of_fields assms)
qed

text \<open>The type of a \<open>Dirent\<close> survives: exactly the type method of the found type answers true.\<close>

lemma direntType_restored:
  "type \<in> set DIRENT_TYPES \<Longrightarrow> direntType (map (\<lambda>t. (t, Some type = Some t)) (tl DIRENT_TYPES)) = type"
  by (auto simp: DIRENT_TYPES_def direntType_def)

lemma direntType_known: "direntType types \<in> set DIRENT_TYPES"
proof -
  have "find P xs = Some t \<Longrightarrow> t \<in> set xs" for P and xs :: "string list" and t
    by (auto simp: find_Some_iff)
  then have "find (\<lambda>t. map_of types t = Some True) (tl DIRENT_TYPES) = Some t \<Longrightarrow> t \<in> set (tl DIRENT_TYPES)" for t .
  then show ?thesis
    by (auto simp: direntType_def DIRENT_TYPES_def split: option.split)
qed

end
