(* ===== verification/FS_Hook.thy ===== *)
theory FS_Hook
  imports FS_Values
begin

text \<open>
  \<open>packages/shared/src/fs-cache/hook.ts\<close>, third part: the patched filesystem functions, in
  their synchronous form. Each takes the result its native counterpart would give; the
  promise and callback forms wrap the same steps. \<open>opendir\<close> handles, and descriptors
  replayed from recorded content, are state of the hook.
\<close>

section \<open>State\<close>

text \<open>\<open>TrackedDescriptor\<close>: opened natively, or virtual over recorded content.\<close>

datatype tracked =
    NativeFd "string option" nat
  | VirtualFd "buffer option" string string nat "fs_error option"

record 's hook_state =
  hs_store :: 's
  hs_descriptors :: "(int, tracked) js_map"
  hs_next :: int

definition initial_fd :: int where
  "initial_fd = 0x3fffffff"

definition unsupported :: "string \<Rightarrow> string \<Rightarrow> thrown" where
  "unsupported moduleName name =
     UnsupportedThrown (''Filesystem cache does not support '' @ moduleName @ ''.'' @ name)"

definition with_store :: "'s hook_state \<Rightarrow> (thrown + js_value) \<times> 's \<Rightarrow> (thrown + js_value) \<times> 's hook_state" where
  "with_store hs r = (fst r, hs\<lparr>hs_store := snd r\<rparr>)"

definition map_value :: "(js_value \<Rightarrow> js_value) \<Rightarrow> (thrown + js_value) \<times> 'x \<Rightarrow> (thrown + js_value) \<times> 'x" where
  "map_value f r = (case fst r of Inl e \<Rightarrow> Inl e | Inr v \<Rightarrow> Inr (f v), snd r)"

section \<open>Reading files\<close>

fun decodeFileContent :: "stored_value \<Rightarrow> js_value" where
  "decodeFileContent (ContentValue (ContentBuffer b)) = JsBuffer b"
| "decodeFileContent (ContentValue (ContentBase64 s)) = JsBuffer (b64_decode s)"
| "decodeFileContent _ = Undefined"

fun encode_content :: "js_value \<Rightarrow> stored_value" where
  "encode_content (JsBuffer b) = ContentValue (ContentBuffer b)"
| "encode_content _ = NullValue"

fun buffer_value :: "(buffer \<Rightarrow> js_value) \<Rightarrow> js_value \<Rightarrow> js_value" where
  "buffer_value f (JsBuffer b) = f b"
| "buffer_value f v = v"

definition readFileSync :: "(string \<Rightarrow> buffer \<Rightarrow> string) \<Rightarrow> 's facade \<Rightarrow> 's hook_state \<Rightarrow> cache_input \<Rightarrow>
    options_input \<Rightarrow> native_result \<Rightarrow> (thrown + js_value) \<times> 's hook_state" where
  "readFileSync to_text F hs input opts native =
     (let cached = map_value (buffer_value (\<lambda>b. returnReadBuffer to_text b opts))
            (with_store hs (runSync F (hs_store hs) input ''readFile'' native
               (encodes encode_content) (decodes decodeFileContent)))
      in case input of
           FdInput fd \<Rightarrow>
             (case map_of (hs_descriptors hs) fd of
                None \<Rightarrow> (Inl (unsupported ''fs'' ''readFileSync with an unknown descriptor''), hs)
              | Some (VirtualFd content path k position readError) \<Rightarrow>
                  (case readError of
                     Some e \<Rightarrow> (Inl (FsThrown (restoreError e (StringPath path))), hs)
                   | None \<Rightarrow>
                       (case content of
                          None \<Rightarrow> (Inl (FsThrown (cacheMiss ''readFile'' (StringPath path))), hs)
                        | Some b \<Rightarrow>
                            (Inr (returnReadBuffer to_text (drop position b) opts),
                             hs\<lparr>hs_descriptors := js_set fd (VirtualFd content path k (length b) None)
                                  (hs_descriptors hs)\<rparr>)))
              | Some (NativeFd _ _) \<Rightarrow> cached)
         | _ \<Rightarrow> cached)"

section \<open>Directory listings\<close>

fun encode_entries :: "'s facade \<Rightarrow> 's encoder" where
  "encode_entries F (JsEntries es) s = (let (xs, s') = snapshotDirectoryResult F es s in (Inr (EntriesValue xs), s'))"
| "encode_entries F _ s = (Inr NullValue, s)"

fun decode_entries :: "'s facade \<Rightarrow> 's decoder" where
  "decode_entries F s (EntriesValue es) = Inr (JsEntries (restoreDirectoryResult F s es))"
| "decode_entries F s _ = Inr Undefined"

definition readdirSync :: "'s facade \<Rightarrow> 's hook_state \<Rightarrow> path_like \<Rightarrow> options_input \<Rightarrow> native_result \<Rightarrow>
    (thrown + js_value) \<times> 's hook_state" where
  "readdirSync F hs input opts native =
     with_store hs (runSync F (hs_store hs) (PathInput input) (readdirOperation opts) native
       (encode_entries F) (decode_entries F))"

section \<open>Stats, existence, access and links\<close>

fun encode_stat :: "js_value \<Rightarrow> stored_value" where
  "encode_stat (JsStats st) = StatValue (snapshotStat st)"
| "encode_stat _ = NullValue"

fun decode_stat :: "(string \<Rightarrow> string) \<Rightarrow> (string \<Rightarrow> string) \<Rightarrow> bool \<Rightarrow> stored_value \<Rightarrow> js_value" where
  "decode_stat trunc_number ms_to_ns bigint (StatValue st) = JsStats (restoreStat trunc_number ms_to_ns st bigint)"
| "decode_stat trunc_number ms_to_ns bigint _ = Undefined"

definition makeStatSync :: "(string \<Rightarrow> string) \<Rightarrow> (string \<Rightarrow> string) \<Rightarrow> string \<Rightarrow> 's facade \<Rightarrow> 's hook_state \<Rightarrow>
    path_like \<Rightarrow> bool \<Rightarrow> bool option \<Rightarrow> native_result \<Rightarrow> (thrown + js_value) \<times> 's hook_state" where
  "makeStatSync trunc_number ms_to_ns name F hs input bigint throwIfNoEntry native =
     with_store hs (runSync F (hs_store hs) (PathInput input) (statOperation name bigint throwIfNoEntry) native
       (encodes encode_stat) (decodes (decode_stat trunc_number ms_to_ns bigint)))"

fun encode_bool :: "js_value \<Rightarrow> stored_value" where
  "encode_bool (JsBool b) = BoolValue b"
| "encode_bool _ = NullValue"

fun decode_bool :: "stored_value \<Rightarrow> js_value" where
  "decode_bool (BoolValue b) = JsBool b"
| "decode_bool _ = Undefined"

definition existsSync :: "'s facade \<Rightarrow> 's hook_state \<Rightarrow> path_like \<Rightarrow> native_result \<Rightarrow>
    (thrown + js_value) \<times> 's hook_state" where
  "existsSync F hs input native =
     with_store hs (runSync F (hs_store hs) (PathInput input) ''exists'' native
       (encodes encode_bool) (decodes decode_bool))"

text \<open>\<open>exists\<close> hands its callback the result, \<open>false\<close> after an exception.\<close>

definition exists_callback :: "'s facade \<Rightarrow> 's hook_state \<Rightarrow> path_like \<Rightarrow> native_result \<Rightarrow>
    js_value \<times> 's hook_state" where
  "exists_callback F hs input native =
     (case existsSync F hs input native of (Inl _, hs') \<Rightarrow> (JsBool False, hs') | (Inr v, hs') \<Rightarrow> (v, hs'))"

definition accessSync :: "'s facade \<Rightarrow> 's hook_state \<Rightarrow> path_like \<Rightarrow> nat \<Rightarrow> native_result \<Rightarrow>
    (thrown + js_value) \<times> 's hook_state" where
  "accessSync F hs input mode native =
     with_store hs (runSync F (hs_store hs) (PathInput input) (''access:'' @ show_nat mode) native
       (encodes (\<lambda>_. NullValue)) (decodes (\<lambda>_. Undefined)))"

fun encode_path :: "'s facade \<Rightarrow> 's encoder" where
  "encode_path F (JsBuffer b) s = (let (p, s') = snapshotPathResult F b s in (Inr p, s'))"
| "encode_path F _ s = (Inr NullValue, s)"

fun decode_path :: "'s facade \<Rightarrow> realpath_operation \<Rightarrow> 's decoder" where
  "decode_path F operation s (PathValue p) = Inr (JsBuffer (restorePathResult F s p operation))"
| "decode_path F operation s _ = Inr Undefined"

fun realpath_name :: "realpath_operation \<Rightarrow> string" where
  "realpath_name Realpath = ''realpath''"
| "realpath_name RealpathNative = ''realpath.native''"

definition makeRealpathSync :: "(string \<Rightarrow> buffer \<Rightarrow> string) \<Rightarrow> realpath_operation \<Rightarrow> 's facade \<Rightarrow> 's hook_state \<Rightarrow>
    path_like \<Rightarrow> options_input \<Rightarrow> native_result \<Rightarrow> (thrown + js_value) \<times> 's hook_state" where
  "makeRealpathSync to_text operation F hs input opts native =
     map_value (buffer_value (\<lambda>b. returnPathBuffer to_text b opts))
       (with_store hs (runSync F (hs_store hs) (PathInput input) (pathOperation (realpath_name operation) opts) native
          (encode_path F) (decode_path F operation)))"

fun encode_name :: "js_value \<Rightarrow> stored_value" where
  "encode_name (JsName n) = NameValue (snapshotName n)"
| "encode_name _ = NullValue"

fun decode_name :: "stored_value \<Rightarrow> js_value" where
  "decode_name (NameValue n) = JsName (restoreName n)"
| "decode_name _ = Undefined"

definition readlinkSync :: "'s facade \<Rightarrow> 's hook_state \<Rightarrow> path_like \<Rightarrow> options_input \<Rightarrow> native_result \<Rightarrow>
    (thrown + js_value) \<times> 's hook_state" where
  "readlinkSync F hs input opts native =
     with_store hs (runSync F (hs_store hs) (PathInput input) (pathOperation ''readlink'' opts) native
       (encodes encode_name) (decodes decode_name))"

section \<open>Directory handles\<close>

record cached_dir =
  cd_path :: string
  cd_entries :: "dir_value list"
  cd_index :: nat
  cd_closed :: bool

definition new_cached_dir :: "path_like \<Rightarrow> dir_value list \<Rightarrow> cached_dir" where
  "new_cached_dir dirPath entries =
     \<lparr>cd_path = pathDisplay dirPath, cd_entries = entries, cd_index = 0, cd_closed = False\<rparr>"

datatype dir_error = DirClosed

text \<open>An entry that is the empty string counts as the end, by \<open>entries[index] || null\<close>.\<close>

fun truthy_entry :: "dir_value \<Rightarrow> bool" where
  "truthy_entry (DirName (StrName s)) \<longleftrightarrow> s \<noteq> ''''"
| "truthy_entry _ \<longleftrightarrow> True"

definition dir_readSync :: "cached_dir \<Rightarrow> (dir_error + dir_value option) \<times> cached_dir" where
  "dir_readSync d =
     (if cd_closed d then (Inl DirClosed, d)
      else (Inr (case part_at (cd_entries d) (cd_index d) of Some e \<Rightarrow> if truthy_entry e then Some e else None | None \<Rightarrow> None),
            d\<lparr>cd_index := cd_index d + 1\<rparr>))"

definition dir_closeSync :: "cached_dir \<Rightarrow> (dir_error + unit) \<times> cached_dir" where
  "dir_closeSync d = (if cd_closed d then (Inl DirClosed, d) else (Inr (), d\<lparr>cd_closed := True\<rparr>))"

text \<open>
  The async iterator: read until \<open>null\<close>, then close unless closed. The fuel bounds the reads.
\<close>

fun dir_iterate :: "nat \<Rightarrow> cached_dir \<Rightarrow> dir_value list \<Rightarrow> ((dir_error + dir_value list) \<times> cached_dir) option" where
  "dir_iterate 0 d acc = None"
| "dir_iterate (Suc n) d acc =
     (case dir_readSync d of
        (Inl e, d') \<Rightarrow> Some (Inl e, if cd_closed d' then d' else snd (dir_closeSync d'))
      | (Inr None, d') \<Rightarrow> Some (Inr acc, if cd_closed d' then d' else snd (dir_closeSync d'))
      | (Inr (Some e), d') \<Rightarrow> dir_iterate n d' (acc @ [e]))"

text \<open>
  \<open>readDirectoryWithOpendirSync\<close> reads a native directory to the end: \<open>reads i\<close> is what the
  \<open>i\<close>-th \<open>readSync\<close> returns. It is closed in any case.
\<close>

fun readDirectoryWithOpendirSync :: "nat \<Rightarrow> (nat \<Rightarrow> thrown_error + dir_value option) \<Rightarrow> nat \<Rightarrow> dir_value list \<Rightarrow>
    (thrown_error + dir_value list) option" where
  "readDirectoryWithOpendirSync 0 reads i acc = None"
| "readDirectoryWithOpendirSync (Suc n) reads i acc =
     (case reads i of
        Inl e \<Rightarrow> Some (Inl e)
      | Inr None \<Rightarrow> Some (Inr acc)
      | Inr (Some e) \<Rightarrow> readDirectoryWithOpendirSync n reads (Suc i) (acc @ [e]))"

datatype dir_handle = CachedHandle cached_dir | NativeHandle

text \<open>
  \<open>opendirSync\<close>: \<open>native\<close> is the native call's result and \<open>listing\<close> the auxiliary one that reads
  the entries to record. Failures of the recording are swallowed.
\<close>

definition opendirSync :: "'s facade \<Rightarrow> 's hook_state \<Rightarrow> path_like \<Rightarrow> options_input \<Rightarrow> thrown_error + unit \<Rightarrow>
    thrown_error + dir_value list \<Rightarrow> (thrown + dir_handle) \<times> 's hook_state" where
  "opendirSync F hs input opts native listing =
     (let operation = opendirOperation opts in
      case replay F (hs_store hs) (PathInput input) operation (decode_entries F) of
        (Throws e, s1) \<Rightarrow> (Inl e, hs\<lparr>hs_store := s1\<rparr>)
      | (Replayed v, s1) \<Rightarrow>
          (Inr (CachedHandle (new_cached_dir input (case v of JsEntries es \<Rightarrow> es | _ \<Rightarrow> []))), hs\<lparr>hs_store := s1\<rparr>)
      | (Missing, s1) \<Rightarrow>
          (let (k, s2) = fc_keyFor F s1 input in
           case native of
             Inr _ \<Rightarrow>
               (Inr NativeHandle,
                hs\<lparr>hs_store :=
                  (case (listing, k) of
                     (Inr es, Some k') \<Rightarrow>
                       if fc_mode F s2 = Record
                       then (let (xs, s3) = snapshotDirectoryResult F es s2
                             in fst (fc_set F s3 k' operation (Success (EntriesValue xs))))
                       else s2
                   | _ \<Rightarrow> s2)\<rparr>)
           | Inl e \<Rightarrow>
               (case record_outcome F s2 k operation (Failure (snapshotError e)) of
                  (s3, None) \<Rightarrow> (Inl (FsThrown e), hs\<lparr>hs_store := s3\<rparr>)
                | (s3, Some e') \<Rightarrow> (Inl (ArchiveThrown e'), hs\<lparr>hs_store := s3\<rparr>))))"

section \<open>Lemmas\<close>

lemma dir_iterate_all:
  assumes "\<not> cd_closed d" "cd_index d \<le> length (cd_entries d)" "length (cd_entries d) - cd_index d < n"
    and "list_all truthy_entry (cd_entries d)"
  shows "\<exists>d'. dir_iterate n d acc = Some (Inr (acc @ drop (cd_index d) (cd_entries d)), d') \<and> cd_closed d'"
  using assms
proof (induction n arbitrary: d acc)
  case (Suc n)
  show ?case
  proof (cases "cd_index d < length (cd_entries d)")
    case True
    let ?d = "d\<lparr>cd_index := cd_index d + 1\<rparr>"
    have less: "length (cd_entries d) - Suc (cd_index d) < n" using Suc.prems(3) True by linarith
    obtain d' where "dir_iterate n ?d (acc @ [cd_entries d ! cd_index d]) =
        Some (Inr ((acc @ [cd_entries d ! cd_index d]) @ drop (Suc (cd_index d)) (cd_entries d)), d')" "cd_closed d'"
      using Suc.IH [of ?d "acc @ [cd_entries d ! cd_index d]"] Suc.prems True less by auto
    with True Suc.prems(1,4) show ?thesis
      by (simp add: dir_readSync_def part_at_nth Cons_nth_drop_Suc list_all_length)
  next
    case False
    with Suc.prems show ?thesis
      by (simp add: dir_readSync_def part_at_nth dir_closeSync_def)
  qed
qed simp

end
