(* ===== verification/FS_Descriptors.thy ===== *)
theory FS_Descriptors
  imports FS_Hook
begin

text \<open>
  \<open>packages/shared/src/fs-cache/hook.ts\<close>, fourth part: opening files and descriptors. A file
  opened in replay mode is a virtual descriptor over the recorded content; numbers for
  virtual descriptors count down from \<open>0x3fffffff\<close>.
\<close>

section \<open>Capturing an opened file\<close>

definition CHUNK_SIZE :: nat where
  "CHUNK_SIZE = 64 * 1024"

text \<open>
  \<open>readDescriptorContent\<close>: \<open>read pos\<close> is what the native \<open>readSync\<close> delivers at a position.
\<close>

fun readDescriptorContent :: "nat \<Rightarrow> (nat \<Rightarrow> thrown_error + buffer) \<Rightarrow> nat \<Rightarrow> buffer list \<Rightarrow>
    (thrown_error + buffer) option" where
  "readDescriptorContent 0 read position chunks = None"
| "readDescriptorContent (Suc n) read position chunks =
     (case read position of
        Inl e \<Rightarrow> Some (Inl e)
      | Inr chunk \<Rightarrow>
          if 0 < length chunk
          then readDescriptorContent n read (position + length chunk) (chunks @ [chunk])
          else Some (Inr (concat chunks)))"

definition record_if_absent :: "'s facade \<Rightarrow> 's \<Rightarrow> string \<Rightarrow> string \<Rightarrow> stored_outcome \<Rightarrow> 's" where
  "record_if_absent F s k operation outcome =
     (if fc_get F s k operation = Inr None then fst (fc_set F s k operation outcome) else s)"

text \<open>
  \<open>captureOpenedFile\<close>: content and both stats, each unless recorded. The stats are read inside
  one \<open>try\<close>: a failure of the first skips the second.
\<close>

definition captureOpenedFile :: "'s facade \<Rightarrow> 's \<Rightarrow> path_like \<Rightarrow> thrown_error + buffer \<Rightarrow>
    thrown_error + stat_object \<Rightarrow> thrown_error + stat_object \<Rightarrow> 's" where
  "captureOpenedFile F s input content number_stat bigint_stat =
     (let (k, s1) = fc_keyFor F s input in
      case k of
        None \<Rightarrow> s1
      | Some k' \<Rightarrow>
          if fc_mode F s1 \<noteq> Record then s1
          else
            (let s2 = record_if_absent F s1 k' ''readFile''
                   (case content of Inr b \<Rightarrow> Success (ContentValue (ContentBuffer b))
                    | Inl e \<Rightarrow> Failure (snapshotError e));
                 number_operation = statOperation ''fstat'' False None;
                 bigint_operation = statOperation ''fstat'' True None;
                 need_number = (fc_get F s2 k' number_operation = Inr None)
             in case number_stat of
                  Inl _ \<Rightarrow> if need_number then s2
                    else (case bigint_stat of
                            Inl _ \<Rightarrow> s2
                          | Inr st \<Rightarrow> record_if_absent F s2 k' bigint_operation (Success (StatValue (snapshotStat st))))
                | Inr st \<Rightarrow>
                    (let s3 = record_if_absent F s2 k' number_operation (Success (StatValue (snapshotStat st)))
                     in case bigint_stat of
                          Inl _ \<Rightarrow> s3
                        | Inr st' \<Rightarrow> record_if_absent F s3 k' bigint_operation (Success (StatValue (snapshotStat st'))))))"

section \<open>Opening\<close>

datatype open_result = NotFound | Opened int | OpenThrows thrown

definition content_of_outcome :: "stored_outcome \<Rightarrow> buffer option" where
  "content_of_outcome out =
     (case out of Success v \<Rightarrow> (case decodeFileContent v of JsBuffer b \<Rightarrow> Some b | _ \<Rightarrow> None) | Failure _ \<Rightarrow> None)"

definition error_of_outcome :: "stored_outcome \<Rightarrow> fs_error option" where
  "error_of_outcome out = (case out of Success _ \<Rightarrow> None | Failure e \<Rightarrow> Some e)"

definition replayOpen :: "'s facade \<Rightarrow> 's hook_state \<Rightarrow> path_like \<Rightarrow> string \<Rightarrow> open_result \<times> 's hook_state" where
  "replayOpen F hs input operation =
     (let (k, s1) = fc_keyFor F (hs_store hs) input; hs1 = hs\<lparr>hs_store := s1\<rparr> in
      case k of
        None \<Rightarrow> (NotFound, hs1)
      | Some k' \<Rightarrow>
          (case fc_get F s1 k' operation of
             Inl e \<Rightarrow> (OpenThrows (ArchiveThrown e), hs1)
           | Inr None \<Rightarrow>
               if fc_getExists F s1 k' operation = Some False
               then (OpenThrows (FsThrown (enoent (missing_syscall (hd (split_on (CHR '':'') operation)))
                       (pathDisplay input))), hs1\<lparr>hs_store := fc_hit F s1\<rparr>)
               else (let s2 = fc_miss F s1; hs2 = hs1\<lparr>hs_store := s2\<rparr>
                     in if fc_mode F s2 = Replay
                        then (OpenThrows (FsThrown (cacheMiss operation input)), hs2)
                        else (NotFound, hs2))
           | Inr (Some outcome) \<Rightarrow>
               (let s2 = fc_hit F s1; hs2 = hs1\<lparr>hs_store := s2\<rparr> in
                case outcome of
                  Failure e \<Rightarrow> (OpenThrows (FsThrown (restoreError e input)), hs2)
                | Success _ \<Rightarrow>
                    (case fc_get F s2 k' ''readFile'' of
                       Inl e \<Rightarrow> (OpenThrows (ArchiveThrown e), hs2)
                     | Inr None \<Rightarrow>
                         if fc_mode F s2 = Replay
                         then (OpenThrows (FsThrown (cacheMiss ''readFile'' input)), hs2)
                         else (NotFound, hs2)
                     | Inr (Some file) \<Rightarrow>
                         (Opened (hs_next hs),
                          hs2\<lparr>hs_next := hs_next hs - 1,
                              hs_descriptors := js_set (hs_next hs)
                                (VirtualFd (content_of_outcome file) (pathDisplay input) k' 0
                                   (error_of_outcome file))
                                (hs_descriptors hs)\<rparr>)))))"

text \<open>
  What the native calls of \<open>openSync\<close> give: the descriptor, and what capturing reads from it.
\<close>

record native_open =
  no_open :: "thrown_error + int"
  no_content :: "thrown_error + buffer"
  no_number_stat :: "thrown_error + stat_object"
  no_bigint_stat :: "thrown_error + stat_object"

definition openSync :: "'s facade \<Rightarrow> 's hook_state \<Rightarrow> path_like \<Rightarrow> open_mode option \<Rightarrow> native_open \<Rightarrow>
    (thrown + int) \<times> 's hook_state" where
  "openSync F hs input flags native =
     (let flags' = Some (nullish flags (FlagString ''r'')) in
      if \<not> readonlyFlags flags' then (Inl (unsupported ''fs'' ''openSync with write-capable flags''), hs)
      else
        (let operation = openOperation flags';
             (k, s0) = fc_keyFor F (hs_store hs) input
         in case replayOpen F (hs\<lparr>hs_store := s0\<rparr>) input operation of
              (OpenThrows e, hs1) \<Rightarrow> (Inl e, hs1)
            | (Opened fd, hs1) \<Rightarrow> (Inr fd, hs1)
            | (NotFound, hs1) \<Rightarrow>
                (case no_open native of
                   Inr fd \<Rightarrow>
                     (let s2 = (case k of
                            Some k' \<Rightarrow>
                              if fc_mode F (hs_store hs1) = Record
                              then captureOpenedFile F (fst (fc_set F (hs_store hs1) k' operation (Success NullValue)))
                                     input (no_content native) (no_number_stat native) (no_bigint_stat native)
                              else hs_store hs1
                          | None \<Rightarrow> hs_store hs1)
                      in (Inr fd, hs1\<lparr>hs_store := s2,
                            hs_descriptors := js_set fd (NativeFd k 0) (hs_descriptors hs1)\<rparr>))
                 | Inl e \<Rightarrow>
                     (Inl (FsThrown e),
                      hs1\<lparr>hs_store := fst (record_outcome F (hs_store hs1) k operation (Failure (snapshotError e)))\<rparr>))))"

section \<open>Reading through a descriptor\<close>

text \<open>
  \<open>readVirtual\<close> fills \<open>target\<close>; the result is the number of bytes and the filled buffer.
  \<open>content.copy\<close> copies what fits behind the offset.
\<close>

definition virtual_copy :: "buffer \<Rightarrow> buffer \<Rightarrow> nat \<Rightarrow> int \<Rightarrow> int \<Rightarrow> nat \<times> buffer" where
  "virtual_copy content target offset len requestedStart =
     (let start = max 0 (min (int (length content)) requestedStart);
          finish = min (int (length content)) (start + len);
          n = nat (min (max start finish - start) (int (length target) - int offset))
      in (n, if n = 0 then target
             else take offset target @ take n (drop (nat start) content) @ drop (offset + n) target))"

definition readVirtual :: "'s hook_state \<Rightarrow> int \<Rightarrow> buffer \<Rightarrow> nat option \<Rightarrow> nat option \<Rightarrow> int option \<Rightarrow>
    (thrown + (nat \<times> buffer) option) \<times> 's hook_state" where
  "readVirtual hs fd target off len pos =
     (case map_of (hs_descriptors hs) fd of
        Some (VirtualFd content path k position readError) \<Rightarrow>
          (case readError of
             Some e \<Rightarrow> (Inl (FsThrown (restoreError e (StringPath path))), hs)
           | None \<Rightarrow>
               (case content of
                  None \<Rightarrow> (Inl (FsThrown (cacheMiss ''readFile'' (StringPath path))), hs)
                | Some c \<Rightarrow>
                    (let (offset, lengthArg, positionArg) = readArguments (length target) off len pos;
                         requestedStart = nullish positionArg (int position);
                         (n, target') = virtual_copy c target offset lengthArg requestedStart;
                         start = max 0 (min (int (length c)) requestedStart);
                         hs' = (if positionArg = None
                                then hs\<lparr>hs_descriptors := js_set fd
                                       (VirtualFd content path k (nat start + n) None) (hs_descriptors hs)\<rparr>
                                else hs)
                     in (Inr (Some (n, target')), hs'))))
      | _ \<Rightarrow> (Inr None, hs))"

definition readSync :: "'s hook_state \<Rightarrow> int \<Rightarrow> buffer \<Rightarrow> nat option \<Rightarrow> nat option \<Rightarrow> int option \<Rightarrow>
    (thrown + nat \<times> buffer) \<Rightarrow> (thrown + nat \<times> buffer) \<times> 's hook_state" where
  "readSync hs fd target off len pos native =
     (case map_of (hs_descriptors hs) fd of
        None \<Rightarrow> (Inl (unsupported ''fs'' ''readSync with an unknown descriptor''), hs)
      | Some _ \<Rightarrow>
          (case readVirtual hs fd target off len pos of
             (Inl e, hs') \<Rightarrow> (Inl e, hs')
           | (Inr (Some r), hs') \<Rightarrow> (Inr r, hs')
           | (Inr None, hs') \<Rightarrow> (native, hs')))"

definition fstatSync :: "(string \<Rightarrow> string) \<Rightarrow> (string \<Rightarrow> string) \<Rightarrow> 's facade \<Rightarrow> 's hook_state \<Rightarrow> int \<Rightarrow> bool \<Rightarrow>
    bool option \<Rightarrow> thrown + stat_object \<Rightarrow> thrown + stat_object" where
  "fstatSync trunc_number ms_to_ns F hs fd bigint throwIfNoEntry native =
     (case map_of (hs_descriptors hs) fd of
        None \<Rightarrow> Inl (unsupported ''fs'' ''fstatSync with an unknown descriptor'')
      | Some (NativeFd _ _) \<Rightarrow> native
      | Some (VirtualFd content path k position readError) \<Rightarrow>
          (case fc_get F (hs_store hs) k (statOperation ''fstat'' bigint throwIfNoEntry) of
             Inl e \<Rightarrow> Inl (ArchiveThrown e)
           | Inr (Some (Success (StatValue st))) \<Rightarrow> Inr (restoreStat trunc_number ms_to_ns st bigint)
           | Inr _ \<Rightarrow> Inl (FsThrown (cacheMiss ''fstat'' (StringPath k)))))"

text \<open>\<open>closeSync\<close> calls the native function for a native descriptor: the second result.\<close>

definition closeSync :: "'s hook_state \<Rightarrow> int \<Rightarrow> (thrown + bool) \<times> 's hook_state" where
  "closeSync hs fd =
     (case map_of (hs_descriptors hs) fd of
        None \<Rightarrow> (Inl (unsupported ''fs'' ''closeSync with an unknown descriptor''), hs)
      | Some t \<Rightarrow>
          (Inr (case t of NativeFd _ _ \<Rightarrow> True | VirtualFd _ _ _ _ _ \<Rightarrow> False),
           hs\<lparr>hs_descriptors := js_delete fd (hs_descriptors hs)\<rparr>))"

text \<open>Only the standard streams may be written.\<close>

definition writeSync :: "int \<Rightarrow> thrown + nat \<Rightarrow> thrown + nat" where
  "writeSync fd native =
     (if fd \<noteq> 1 \<and> fd \<noteq> 2 then Inl (unsupported ''fs'' ''writeSync outside stdout or stderr'') else native)"

section \<open>Lemmas\<close>

lemma readDescriptorContent_all:
  assumes "\<And>pos. pos < length c \<Longrightarrow> \<exists>n. 0 < n \<and> read pos = Inr (take n (drop pos c))"
    and "read (length c) = Inr ''''"
    and "position \<le> length c" "concat chunks = take position c" "length c - position < fuel"
  shows "readDescriptorContent fuel read position chunks = Some (Inr c)"
  using assms(3-5)
proof (induction fuel arbitrary: position chunks)
  case (Suc fuel)
  show ?case
  proof (cases "position < length c")
    case True
    then obtain n where n: "0 < n" "read position = Inr (take n (drop position c))"
      using assms(1) by blast
    let ?chunk = "take n (drop position c)"
    have len: "0 < length ?chunk" "position + length ?chunk \<le> length c" using n True by auto
    have "concat (chunks @ [?chunk]) = take (position + length ?chunk) c"
      using Suc.prems(2) by (simp add: take_add min_def)
    moreover have "length c - (position + length ?chunk) < fuel"
      using Suc.prems(3) len by linarith
    ultimately have "readDescriptorContent fuel read (position + length ?chunk) (chunks @ [?chunk]) = Some (Inr c)"
      using Suc.IH [of "position + length ?chunk" "chunks @ [?chunk]"] len(2) by blast
    with n len show ?thesis by simp
  next
    case False
    then have "position = length c" using Suc.prems(1) by simp
    with assms(2) Suc.prems(2) show ?thesis by simp
  qed
qed simp

text \<open>A sequential read of a virtual descriptor.\<close>

lemma readVirtual_sequential:
  assumes "map_of (hs_descriptors hs) fd = Some (VirtualFd (Some c) path k position None)"
    and "position \<le> length c"
  shows "readVirtual hs fd target None None None =
    (let n = min (length target) (length c - position)
     in (Inr (Some (n, take n (drop position c) @ drop n target)),
         hs\<lparr>hs_descriptors := js_set fd (VirtualFd (Some c) path k (position + n) None) (hs_descriptors hs)\<rparr>))"
proof -
  have n: "nat (min (max (int position) (min (int (length c)) (int position + int (length target))) - int position)
      (int (length target) - int 0)) = min (length target) (length c - position)"
    using assms(2) by (simp add: min_def max_def split: if_splits) linarith?
  have zero: "min (int (length c)) (int position + int (length target)) \<le> int position \<Longrightarrow>
      min (length target) (length c - position) = 0"
    using assms(2) by (auto simp: min_def split: if_splits)
  have "virtual_copy c target 0 (int (length target)) (int position) =
      (min (length target) (length c - position),
       take (min (length target) (length c - position)) (drop position c)
         @ drop (min (length target) (length c - position)) target)"
    using assms(2) n zero by (auto simp: virtual_copy_def Let_def)
  then show ?thesis
    using assms by (simp add: readVirtual_def readArguments_def Let_def)
qed

end
