(* ===== verification/Archive_Flush.thy ===== *)
theory Archive_Flush
  imports Archive_Keys
begin

text \<open>
  \<open>packages/shared/src/fs-cache/archive.ts\<close>, third part: the lock that serialises writers
  (\<open>removeStaleLock\<close>, \<open>acquireLock\<close>) and \<open>flush\<close>, which merges the recorded observations
  with the archive on disk and replaces it. Other processes act on the lock file between our
  calls, so what each native call returns is a parameter, attempt by attempt. A native
  failure is its error code.
\<close>

section \<open>The lock\<close>

datatype flush_error =
    NativeError string
  | ArchiveFailure archive_error
  | SerializeFailure type_error

text \<open>
  The native calls of one acquisition, at each attempt: \<open>openSync\<close> with \<open>wx\<close>; \<open>statSync\<close>, which
  finds a lock file (each that is created has a number of its own) of the age that \<open>Date.now()\<close> less
  its modification time gives; and \<open>unlinkSync\<close>, which removes the lock file that is
  there by then.
\<close>

record lock_calls =
  lk_open :: "nat \<Rightarrow> string + nat"
  lk_stat :: "nat \<Rightarrow> string + nat \<times> int"
  lk_unlink :: "nat \<Rightarrow> string + nat"

text \<open>What the acquisition does to the outside: removing a lock file at an attempt, or waiting.\<close>

datatype lock_event = RemovedLock nat nat | Waited int

definition removeStaleLock :: "lock_calls \<Rightarrow> nat \<Rightarrow> (flush_error + bool) \<times> lock_event list" where
  "removeStaleLock calls attempt =
     (let caught = (\<lambda>code. if code = ''ENOENT'' then Inr True else Inl (NativeError code)) in
      case lk_stat calls attempt of
        Inl code \<Rightarrow> (caught code, [])
      | Inr (_, age) \<Rightarrow>
          if age < LOCK_STALE_AGE_MS then (Inr False, [])
          else (case lk_unlink calls attempt of
                  Inl code \<Rightarrow> (caught code, [])
                | Inr removed \<Rightarrow> (Inr True, [RemovedLock attempt removed])))"

text \<open>The loop of \<open>acquireLock\<close>; \<open>n\<close> counts the attempts that are left.\<close>

fun acquire_from :: "lock_calls \<Rightarrow> string \<Rightarrow> nat \<Rightarrow> nat \<Rightarrow> (flush_error + nat) \<times> lock_event list" where
  "acquire_from calls archivePath 0 attempt = (Inl (ArchiveFailure (LockTimeout archivePath)), [])"
| "acquire_from calls archivePath (Suc n) attempt =
     (case lk_open calls attempt of
        Inr fd \<Rightarrow> (Inr fd, [])
      | Inl code \<Rightarrow>
          if code \<noteq> ''EEXIST'' then (Inl (NativeError code), [])
          else (case removeStaleLock calls attempt of
                  (Inl e, ev) \<Rightarrow> (Inl e, ev)
                | (Inr True, ev) \<Rightarrow>
                    (let (r, ev') = acquire_from calls archivePath n (Suc attempt) in (r, ev @ ev'))
                | (Inr False, ev) \<Rightarrow>
                    if attempt = LOCK_RETRY_LIMIT - 1
                    then (Inl (ArchiveFailure (LockTimeout archivePath)), ev)
                    else (let (r, ev') = acquire_from calls archivePath n (Suc attempt)
                          in (r, ev @ Waited LOCK_RETRY_DELAY_MS # ev'))))"

definition acquireLock :: "lock_calls \<Rightarrow> string \<Rightarrow> (flush_error + nat) \<times> lock_event list" where
  "acquireLock calls archivePath = acquire_from calls archivePath LOCK_RETRY_LIMIT 0"

lemma removeStaleLock_False:
  "removeStaleLock calls i = (Inr False, ev) \<longleftrightarrow>
     ev = [] \<and> (\<exists>lock age. lk_stat calls i = Inr (lock, age) \<and> age < LOCK_STALE_AGE_MS)"
  by (cases "lk_stat calls i"; cases "lk_unlink calls i") (auto simp: removeStaleLock_def split: if_splits)

text \<open>
  What the acquisition may do to the outside: remove a lock file after it has found a stale one in
  the same attempt, or wait one delay.
\<close>

fun lock_event_ok :: "lock_calls \<Rightarrow> lock_event \<Rightarrow> bool" where
  "lock_event_ok calls (RemovedLock i removed) \<longleftrightarrow> lk_unlink calls i = Inr removed
     \<and> (\<exists>lock age. lk_stat calls i = Inr (lock, age) \<and> LOCK_STALE_AGE_MS \<le> age)"
| "lock_event_ok calls (Waited ms) \<longleftrightarrow> ms = LOCK_RETRY_DELAY_MS"

fun is_wait :: "lock_event \<Rightarrow> bool" where
  "is_wait (Waited ms) = True"
| "is_wait (RemovedLock i removed) = False"

lemma removeStaleLock_events:
  "list_all (lock_event_ok calls) (snd (removeStaleLock calls i)) \<and> filter is_wait (snd (removeStaleLock calls i)) = []"
  by (cases "lk_stat calls i"; cases "lk_unlink calls i") (auto simp: removeStaleLock_def)

lemma acquire_events: "list_all (lock_event_ok calls) (snd (acquire_from calls p n i))"
proof (induction n arbitrary: i)
  case (Suc n)
  obtain r ev where st: "removeStaleLock calls i = (r, ev)" by (cases "removeStaleLock calls i")
  have ev: "list_all (lock_event_ok calls) ev" using removeStaleLock_events [of calls i] st by simp
  obtain r' ev' where rec: "acquire_from calls p n (Suc i) = (r', ev')"
    by (cases "acquire_from calls p n (Suc i)")
  have "list_all (lock_event_ok calls) ev'" using Suc.IH [of "Suc i"] rec by simp
  with ev show ?case
    unfolding acquire_from.simps st rec by (auto split: sum.split bool.split)
qed simp

text \<open>No process waits after its last attempt.\<close>

lemma acquire_waits:
  "n + i = LOCK_RETRY_LIMIT \<Longrightarrow> length (filter is_wait (snd (acquire_from calls p n i))) \<le> n - 1"
proof (induction n arbitrary: i)
  case (Suc n)
  obtain r ev where st: "removeStaleLock calls i = (r, ev)" by (cases "removeStaleLock calls i")
  have ev: "filter is_wait ev = []" using removeStaleLock_events [of calls i] st by simp
  obtain r' ev' where rec: "acquire_from calls p n (Suc i) = (r', ev')"
    by (cases "acquire_from calls p n (Suc i)")
  have "length (filter is_wait ev') \<le> n - 1" using Suc.IH [of "Suc i"] Suc.prems rec by simp
  moreover have "n \<noteq> 0" if "i \<noteq> LOCK_RETRY_LIMIT - 1" using that Suc.prems by auto
  ultimately show ?case
    using ev unfolding acquire_from.simps st rec by (auto split: sum.split bool.split)
qed simp

text \<open>The call that ends an acquisition with a native error.\<close>

definition lock_fails :: "lock_calls \<Rightarrow> nat \<Rightarrow> string \<Rightarrow> bool" where
  "lock_fails calls i code \<longleftrightarrow>
     lk_open calls i = Inl code \<and> code \<noteq> ''EEXIST''
     \<or> lk_open calls i = Inl ''EEXIST'' \<and> code \<noteq> ''ENOENT''
       \<and> (lk_stat calls i = Inl code
          \<or> lk_unlink calls i = Inl code \<and> (\<exists>lock age. lk_stat calls i = Inr (lock, age) \<and> LOCK_STALE_AGE_MS \<le> age))"

text \<open>How an acquisition ends: at the first attempt \<open>j\<close> that does not find the lock taken, or with a timeout.\<close>

definition lock_result :: "lock_calls \<Rightarrow> string \<Rightarrow> nat \<Rightarrow> flush_error + nat \<Rightarrow> bool" where
  "lock_result calls p i r \<longleftrightarrow>
     r = Inl (ArchiveFailure (LockTimeout p)) \<and> list_all (\<lambda>k. lk_open calls k = Inl ''EEXIST'') [i..<LOCK_RETRY_LIMIT]
     \<or> list_ex (\<lambda>j. list_all (\<lambda>k. lk_open calls k = Inl ''EEXIST'') [i..<j]
            \<and> (case r of Inr fd \<Rightarrow> lk_open calls j = Inr fd
                       | Inl e \<Rightarrow> (\<exists>code. e = NativeError code \<and> lock_fails calls j code))) [i..<LOCK_RETRY_LIMIT]"

lemma lock_result_here:
  "i < LOCK_RETRY_LIMIT \<Longrightarrow> lk_open calls i = Inr fd \<Longrightarrow> lock_result calls p i (Inr fd)"
  "i < LOCK_RETRY_LIMIT \<Longrightarrow> lock_fails calls i code \<Longrightarrow> lock_result calls p i (Inl (NativeError code))"
  by (auto simp: lock_result_def list_ex_iff intro!: bexI [of _ i])

lemma lock_result_later:
  assumes "lock_result calls p (Suc i) r" "lk_open calls i = Inl ''EEXIST''" "i < LOCK_RETRY_LIMIT"
  shows "lock_result calls p i r"
proof -
  have "list_all (\<lambda>k. lk_open calls k = Inl ''EEXIST'') [i..<j] \<longleftrightarrow>
      list_all (\<lambda>k. lk_open calls k = Inl ''EEXIST'') [Suc i..<j]" if "i < j" for j
    using assms(2) that by (simp add: upt_conv_Cons)
  then show ?thesis using assms(1,3) unfolding lock_result_def list_ex_iff by fastforce
qed

lemma removeStaleLock_fails:
  assumes "removeStaleLock calls i = (Inl e, ev)" "lk_open calls i = Inl ''EEXIST''"
  shows "\<exists>code. e = NativeError code \<and> lock_fails calls i code"
  using assms
  by (cases "lk_stat calls i"; cases "lk_unlink calls i")
    (auto simp: removeStaleLock_def lock_fails_def split: if_splits)

lemma acquire_result:
  "n + i = LOCK_RETRY_LIMIT \<Longrightarrow> lock_result calls p i (fst (acquire_from calls p n i))"
proof (induction n arbitrary: i)
  case 0
  then show ?case by (simp add: lock_result_def)
next
  case (Suc n)
  have i: "i < LOCK_RETRY_LIMIT" using Suc.prems by simp
  show ?case
  proof (cases "lk_open calls i")
    case (Inr fd)
    then show ?thesis using lock_result_here(1) [OF i] by simp
  next
    case (Inl code)
    show ?thesis
    proof (cases "code = ''EEXIST''")
      case False
      then have "lock_fails calls i code" using Inl by (simp add: lock_fails_def)
      then show ?thesis using lock_result_here(2) [OF i] Inl False by simp
    next
      case True
      then have taken: "lk_open calls i = Inl ''EEXIST''" using Inl by simp
      obtain r ev where st: "removeStaleLock calls i = (r, ev)" by (cases "removeStaleLock calls i")
      have later: "lock_result calls p i (fst (acquire_from calls p n (Suc i)))"
        using Suc.IH [of "Suc i"] Suc.prems by (intro lock_result_later [OF _ taken i]) simp
      show ?thesis
      proof (cases r)
        case (Inl e)
        then obtain code where "e = NativeError code" "lock_fails calls i code"
          using removeStaleLock_fails [OF _ taken] st by blast
        then show ?thesis using lock_result_here(2) [OF i] taken st Inl by simp
      next
        case (Inr b)
        have "lock_result calls p i (Inl (ArchiveFailure (LockTimeout p)))" if "i = LOCK_RETRY_LIMIT - 1"
        proof -
          have "[i..<LOCK_RETRY_LIMIT] = [i]" using that i by (simp add: upt_conv_Cons)
          then show ?thesis using taken by (simp add: lock_result_def)
        qed
        then show ?thesis using later taken st Inr
          by (cases b; cases "acquire_from calls p n (Suc i)") simp_all
      qed
    qed
  qed
qed

text \<open>Rounds of the loop: a lock that stays fresh is waited for until the limit.\<close>

lemma acquire_held:
  assumes "\<And>i. lk_open calls i = Inl ''EEXIST''"
    and "\<And>i. \<exists>lock age. lk_stat calls i = Inr (lock, age) \<and> age < LOCK_STALE_AGE_MS"
    and "Suc n + i = LOCK_RETRY_LIMIT"
  shows "acquire_from calls p (Suc n) i =
    (Inl (ArchiveFailure (LockTimeout p)), replicate n (Waited LOCK_RETRY_DELAY_MS))"
  using assms(3)
proof (induction n arbitrary: i)
  case 0
  have "removeStaleLock calls i = (Inr False, [])" using assms(2) [of i] by (simp add: removeStaleLock_False)
  with 0 assms(1) [of i] show ?case by simp
next
  case (Suc n)
  have "removeStaleLock calls i = (Inr False, [])" using assms(2) [of i] by (simp add: removeStaleLock_False)
  moreover have "i \<noteq> LOCK_RETRY_LIMIT - 1" using Suc.prems by simp
  ultimately show ?case
    using Suc.IH [of "Suc i"] Suc.prems assms(1) [of i] by simp
qed

section \<open>Flushing\<close>

text \<open>
  The native calls of \<open>flush\<close> that may fail, and the sizes that \<open>writeSync\<close> returns. A
  failing \<open>writeSync\<close> leaves \<open>fe_partial\<close> bytes in the file.
\<close>

datatype flush_step =
    MkdirStep | OpenTempStep | WriteStep | CloseTempStep | RenameStep | UnlinkTempStep
  | CloseLockStep | UnlinkLockStep

record flush_env =
  fe_fails :: "flush_step \<Rightarrow> string option"
  fe_written :: "nat \<Rightarrow> nat \<Rightarrow> nat"
  fe_partial :: nat
  fe_unique :: string
  fe_now :: string

definition lock_path :: "string \<Rightarrow> string" where
  "lock_path archivePath = archivePath @ ''.lock''"

definition temporary_path :: "flush_env \<Rightarrow> string \<Rightarrow> string" where
  "temporary_path env archivePath = archivePath @ ''.'' @ fe_unique env @ ''.tmp''"

text \<open>
  \<open>writeFileWithNativePrimitives\<close>; the outer \<open>None\<close> is a loop that does not end. The file is
  created empty by \<open>openSync\<close> and closed in any case.
\<close>

definition writeFileWithNativePrimitives :: "flush_env \<Rightarrow> string \<Rightarrow> buffer \<Rightarrow> disk \<Rightarrow>
    (disk \<times> flush_error option) option" where
  "writeFileWithNativePrimitives env p bytes d =
     (case fe_fails env OpenTempStep of
        Some code \<Rightarrow> Some (d, Some (NativeError code))
      | None \<Rightarrow>
          (let close = (\<lambda>err. case fe_fails env CloseTempStep of
                 Some code \<Rightarrow> Some (NativeError code) | None \<Rightarrow> err) in
           case fe_fails env WriteStep of
             Some code \<Rightarrow>
               Some (js_set p (Some (take (fe_partial env) bytes)) d, close (Some (NativeError code)))
           | None \<Rightarrow>
               (case write_loop (length bytes) (fe_written env) 0 bytes 0 '''' of
                  None \<Rightarrow> None
                | Some (content, calls) \<Rightarrow> Some (js_set p (Some content) d, close None))))"

text \<open>Writing the temporary file, renaming it, and the \<open>finally\<close> that removes it.\<close>

definition replace_archive :: "flush_env \<Rightarrow> buffer \<Rightarrow> disk \<Rightarrow> archive \<Rightarrow>
    (disk \<times> archive \<times> flush_error option) option" where
  "replace_archive env bytes d ar =
     (let tmp = temporary_path env (ar_archivePath ar) in
      case writeFileWithNativePrimitives env tmp bytes d of
        None \<Rightarrow> None
      | Some (d1, e1) \<Rightarrow>
          (let (d2, ar2, e2) =
             (case e1 of
                Some e \<Rightarrow> (d1, ar, Some e)
              | None \<Rightarrow>
                  (case fe_fails env RenameStep of
                     Some code \<Rightarrow> (d1, ar, Some (NativeError code))
                   | None \<Rightarrow>
                       (js_set (ar_archivePath ar) (disk_read d1 tmp) (js_delete tmp d1),
                        ar\<lparr>ar_dirty := False\<rparr>, None)))
           in Some (if disk_exists d2 tmp
                    then (case fe_fails env UnlinkTempStep of
                            Some code \<Rightarrow> (d2, ar2, Some (NativeError code))
                          | None \<Rightarrow> (js_delete tmp d2, ar2, e2))
                    else (d2, ar2, e2))))"

text \<open>The merge with what the archive on disk holds: our observations win.\<close>

definition merged_missing :: "archive \<Rightarrow> archive \<Rightarrow> string list" where
  "merged_missing own loaded =
     fold (\<lambda>(p, node). removeAll p) (ar_entries own)
       (fold set_add (ar_missingPaths own) (ar_missingPaths loaded))"

definition merged_entries :: "archive \<Rightarrow> archive \<Rightarrow> (string, cache_node) js_map" where
  "merged_entries own loaded =
     fold (\<lambda>(p, node) m. js_set p (mergeNodes (nullish (map_of m p) empty_node) node) m)
       (ar_entries own) (fold js_delete (ar_missingPaths own) (ar_entries loaded))"

definition flush_document :: "string comparator \<Rightarrow> string \<Rightarrow> archive \<Rightarrow> archive \<Rightarrow> archive_document" where
  "flush_document localeCompare now own loaded =
     \<lparr>doc_magic = FS_CACHE_MAGIC, doc_formatVersion = FS_CACHE_FORMAT_VERSION,
      doc_createdAt = ar_createdAt loaded, doc_updatedAt = now,
      doc_entries = map (\<lambda>(p, node). \<lparr>ent_path = p, ent_node = sortedNode localeCompare node\<rparr>)
        (Sorting_Algorithms.sort (key fst localeCompare)
           (map (\<lambda>p. (p, empty_node\<lparr>nd_exists := Some False\<rparr>)) (merged_missing own loaded)
            @ merged_entries own loaded)),
      doc_missingPaths = []\<rparr>"

definition flush_locked :: "(proto_document \<Rightarrow> buffer) \<Rightarrow> (buffer \<Rightarrow> proto_document option) \<Rightarrow>
    string comparator \<Rightarrow> flush_env \<Rightarrow> disk \<Rightarrow> archive \<Rightarrow>
    (disk \<times> archive \<times> flush_error option) option" where
  "flush_locked encode decode localeCompare env d ar =
     (case load decode d (ar\<lparr>ar_entries := [], ar_missingPaths := []\<rparr>) of
        Inl e \<Rightarrow> Some (d, ar, Some (ArchiveFailure e))
      | Inr loaded \<Rightarrow>
          (let ar' = ar\<lparr>ar_createdAt := ar_createdAt loaded\<rparr> in
           case serializeProtobufDocument (flush_document localeCompare (fe_now env) ar' loaded) of
             Inl e \<Rightarrow> Some (d, ar', Some (SerializeFailure e))
           | Inr p \<Rightarrow> replace_archive env (encode p) d ar'))"

definition release_lock :: "flush_env \<Rightarrow> string \<Rightarrow> disk \<times> archive \<times> flush_error option \<Rightarrow>
    disk \<times> archive \<times> flush_error option" where
  "release_lock env p r =
     (let (d, ar, err) = r in
      case fe_fails env CloseLockStep of
        Some code \<Rightarrow> (d, ar, Some (NativeError code))
      | None \<Rightarrow>
          if disk_exists d p
          then (case fe_fails env UnlinkLockStep of
                  Some code \<Rightarrow> (d, ar, Some (NativeError code))
                | None \<Rightarrow> (js_delete p d, ar, err))
          else (d, ar, err))"

definition flush :: "(proto_document \<Rightarrow> buffer) \<Rightarrow> (buffer \<Rightarrow> proto_document option) \<Rightarrow>
    string comparator \<Rightarrow> flush_env \<Rightarrow> lock_calls \<Rightarrow> disk \<Rightarrow> archive \<Rightarrow>
    (disk \<times> archive \<times> flush_error option) option" where
  "flush encode decode localeCompare env calls d ar =
     (if ar_mode ar \<noteq> Record \<or> \<not> ar_dirty ar then Some (d, ar, None)
      else
        (case fe_fails env MkdirStep of
           Some code \<Rightarrow> Some (d, ar, Some (NativeError code))
         | None \<Rightarrow>
             (case fst (acquireLock calls (ar_archivePath ar)) of
                Inl e \<Rightarrow> Some (d, ar, Some e)
              | Inr fd \<Rightarrow>
                  map_option (release_lock env (lock_path (ar_archivePath ar)))
                    (flush_locked encode decode localeCompare env
                       (js_set (lock_path (ar_archivePath ar)) (Some '''') d) ar))))"

section \<open>The document that is written\<close>

text \<open>What an archived node keeps of the node it was written from.\<close>

definition archived :: "cache_node \<Rightarrow> cache_node \<Rightarrow> bool" where
  "archived nd nd' \<longleftrightarrow> wf_node nd' \<and> nd_exists nd' = nd_exists nd \<and> nd_linkExists nd' = nd_linkExists nd
     \<and> (\<forall>slot. readSlot nd' slot = map_option normal_outcome (readSlot nd slot))"

lemma map_result_relate:
  assumes "\<And>x. x \<in> set xs \<Longrightarrow> \<exists>y z. f x = Inr y \<and> g y = Inr z \<and> R x z"
  shows "\<exists>ys zs. map_result f xs = Inr ys \<and> map_result g ys = Inr zs \<and> list_all2 R xs zs"
  using assms
proof (induction xs)
  case Nil
  then show ?case by simp
next
  case (Cons x xs)
  from Cons.prems [of x] obtain y z where "f x = Inr y" "g y = Inr z" "R x z" by auto
  moreover obtain ys zs where "map_result f xs = Inr ys" "map_result g ys = Inr zs" "list_all2 R xs zs"
    using Cons by auto
  ultimately show ?case by simp
qed

lemma document_roundtrip:
  assumes "list_all (\<lambda>en. typed_node (ent_node en)) (doc_entries doc)"
  shows "\<exists>p es. serializeProtobufDocument doc = Inr p
    \<and> deserializeProtobufDocument p = Inr (doc\<lparr>doc_entries := es,
        doc_missingPaths := map ent_path (filter (\<lambda>en. only_missing (ent_node en)) (doc_entries doc))\<rparr>)
    \<and> list_all2 (\<lambda>en en'. ent_path en' = ent_path en \<and> archived (ent_node en) (ent_node en'))
        (filter (\<lambda>en. \<not> only_missing (ent_node en)) (doc_entries doc)) es"
proof -
  have "\<exists>y z. serialize_entry en = Inr y \<and> deserialize_entry y = Inr z
      \<and> (ent_path z = ent_path en \<and> archived (ent_node en) (ent_node z))"
    if "en \<in> set (filter (\<lambda>en. \<not> only_missing (ent_node en)) (doc_entries doc))" for en
  proof -
    have "typed_node (ent_node en)" using that assms by (simp add: list_all_iff)
    from entry_roundtrip [OF this] show ?thesis by (fastforce simp: archived_def)
  qed
  then have "\<exists>ys zs. map_result serialize_entry (filter (\<lambda>en. \<not> only_missing (ent_node en)) (doc_entries doc)) = Inr ys
      \<and> map_result deserialize_entry ys = Inr zs
      \<and> list_all2 (\<lambda>en en'. ent_path en' = ent_path en \<and> archived (ent_node en) (ent_node en'))
          (filter (\<lambda>en. \<not> only_missing (ent_node en)) (doc_entries doc)) zs"
    by (rule map_result_relate)
  then obtain ys es where
    "map_result serialize_entry (filter (\<lambda>en. \<not> only_missing (ent_node en)) (doc_entries doc)) = Inr ys"
    "map_result deserialize_entry ys = Inr es"
    "list_all2 (\<lambda>en en'. ent_path en' = ent_path en \<and> archived (ent_node en) (ent_node en'))
        (filter (\<lambda>en. \<not> only_missing (ent_node en)) (doc_entries doc)) es"
    by blast
  then show ?thesis
    by (cases doc) (auto simp: serializeProtobufDocument_def deserializeProtobufDocument_def intro!: exI [of _ es])
qed

section \<open>The merge\<close>

lemma map_of_fold_delete: "map_of (fold js_delete ps m) k = (if k \<in> set ps then None else map_of m k)"
  by (induction ps arbitrary: m) (auto simp: AList.delete_conv)

lemma distinct_fold_delete: "distinct (js_keys m) \<Longrightarrow> distinct (js_keys (fold js_delete ps m))"
  by (induction ps arbitrary: m) (auto simp: AList.distinct_delete)

lemma map_of_fold_merge:
  "distinct (js_keys own) \<Longrightarrow>
   map_of (fold (\<lambda>(p, node) m. js_set p (mergeNodes (nullish (map_of m p) empty_node) node) m) own m) k =
     (case map_of own k of
        None \<Rightarrow> map_of m k
      | Some node \<Rightarrow> Some (mergeNodes (nullish (map_of m k) empty_node) node))"
proof (induction own arbitrary: m)
  case (Cons e own)
  obtain p node where e: "e = (p, node)" by (cases e)
  have "map_of own p = None" using Cons.prems e by (simp add: map_of_eq_None_iff)
  then show ?case
    using Cons.prems Cons.IH e by (auto simp: AList.update_conv split: option.split)
qed simp

lemma distinct_fold_merge:
  "distinct (js_keys m) \<Longrightarrow>
   distinct (js_keys (fold (\<lambda>(p, node) m. js_set p (mergeNodes (nullish (map_of m p) empty_node) node) m) own m))"
  by (induction own arbitrary: m) (auto simp: AList.distinct_update)

text \<open>What the loaded archive still holds after our missing paths were taken out.\<close>

definition kept_node :: "archive \<Rightarrow> archive \<Rightarrow> string \<Rightarrow> cache_node option" where
  "kept_node own loaded k =
     (if k \<in> set (ar_missingPaths own) then None else map_of (ar_entries loaded) k)"

lemma map_of_merged_entries:
  "wf_archive own \<Longrightarrow> map_of (merged_entries own loaded) k =
     (case map_of (ar_entries own) k of
        None \<Rightarrow> kept_node own loaded k
      | Some node \<Rightarrow> Some (mergeNodes (nullish (kept_node own loaded k) empty_node) node))"
  by (simp add: merged_entries_def map_of_fold_merge map_of_fold_delete kept_node_def wf_archive_def split: option.split)

lemma fold_removeAll:
  "set (fold (\<lambda>(p, node). removeAll p) es ps) = set ps - set (js_keys es)"
  "distinct ps \<Longrightarrow> distinct (fold (\<lambda>(p, node). removeAll p) es ps)"
  by (induction es arbitrary: ps) (auto simp: distinct_removeAll)

lemma set_merged_missing:
  "set (merged_missing own loaded) =
     (set (ar_missingPaths loaded) \<union> set (ar_missingPaths own)) - set (js_keys (ar_entries own))"
  by (simp add: merged_missing_def fold_removeAll(1))

lemma typed_kept_node: "wf_archive loaded \<Longrightarrow> kept_node own loaded k = Some nd \<Longrightarrow> typed_node nd"
  by (auto simp: kept_node_def wf_archive_entry split: if_splits)

lemma merged_wf:
  assumes "wf_archive own" "wf_archive loaded"
  shows "distinct (js_keys (merged_entries own loaded))" "distinct (merged_missing own loaded)"
    "map_of (merged_entries own loaded) k = Some nd \<Longrightarrow>
       typed_node nd \<and> k \<notin> set (merged_missing own loaded)"
proof -
  show "distinct (js_keys (merged_entries own loaded))"
    using assms(2) by (simp add: merged_entries_def distinct_fold_merge distinct_fold_delete wf_archive_def)
  show "distinct (merged_missing own loaded)"
    using assms(2) by (simp add: merged_missing_def fold_removeAll(2) distinct_set_add wf_archive_def)
  assume nd: "map_of (merged_entries own loaded) k = Some nd"
  show "typed_node nd \<and> k \<notin> set (merged_missing own loaded)"
  proof (cases "map_of (ar_entries own) k")
    case None
    with nd assms(1) have "kept_node own loaded k = Some nd" by (simp add: map_of_merged_entries)
    then show ?thesis
      using typed_kept_node [OF assms(2), of own k nd] wf_archive_entry [OF assms(2), of k nd]
      by (auto simp: set_merged_missing kept_node_def split: if_splits)
  next
    case (Some node)
    then have "k \<in> set (js_keys (ar_entries own))" by (metis fst_conv image_eqI list.set_map map_of_SomeD)
    moreover have "typed_node (nullish (kept_node own loaded k) empty_node)"
      using typed_kept_node [OF assms(2), of own k] by (cases "kept_node own loaded k") simp_all
    ultimately show ?thesis
      using nd Some assms(1) wf_archive_entry [OF assms(1) Some]
      by (auto simp: map_of_merged_entries set_merged_missing)
  qed
qed

section \<open>The file is replaced as a whole, or not at all\<close>

lemma flush_paths [simp]:
  "lock_path p \<noteq> p" "temporary_path env p \<noteq> p" "temporary_path env p \<noteq> lock_path p"
proof -
  show "lock_path p \<noteq> p" "temporary_path env p \<noteq> p"
    by (simp_all add: lock_path_def temporary_path_def)
  have "last (temporary_path env p) \<noteq> last (lock_path p)"
    by (simp add: lock_path_def temporary_path_def)
  then show "temporary_path env p \<noteq> lock_path p" by auto
qed

lemmas flush_paths' [simp] = flush_paths [symmetric]

text \<open>Native \<open>writeSync\<close> writes at least one byte and at most the bytes it is given.\<close>

definition writes_progress :: "flush_env \<Rightarrow> bool" where
  "writes_progress env \<longleftrightarrow> (\<forall>i r. 0 < r \<longrightarrow> 1 \<le> fe_written env i r \<and> fe_written env i r \<le> r)"

lemma write_file_result:
  assumes "writes_progress env"
  shows "\<exists>d' err. writeFileWithNativePrimitives env p bytes d = Some (d', err)
    \<and> (\<forall>q. q \<noteq> p \<longrightarrow> map_of d' q = map_of d q) \<and> (err = None \<longrightarrow> map_of d' p = Some (Some bytes))"
proof -
  obtain n where "write_loop (length bytes) (fe_written env) 0 bytes 0 '''' = Some (bytes, n)"
    using write_loop_complete [of "fe_written env" 0 bytes "length bytes" "''''" 0] assms
    by (auto simp: writes_progress_def)
  then show ?thesis
    by (auto simp: writeFileWithNativePrimitives_def Let_def AList.update_conv split: option.split)
qed

lemma replace_archive_result:
  assumes "writes_progress env"
  shows "\<exists>d' ar' err. replace_archive env bytes d ar = Some (d', ar', err)
    \<and> (\<forall>q. q \<noteq> ar_archivePath ar \<longrightarrow> q \<noteq> temporary_path env (ar_archivePath ar) \<longrightarrow> map_of d' q = map_of d q)
    \<and> (ar' = ar \<and> map_of d' (ar_archivePath ar) = map_of d (ar_archivePath ar) \<and> err \<noteq> None
       \<or> ar' = ar\<lparr>ar_dirty := False\<rparr> \<and> map_of d' (ar_archivePath ar) = Some (Some bytes)
         \<and> err = None \<and> map_of d' (temporary_path env (ar_archivePath ar)) = None)"
proof -
  let ?tmp = "temporary_path env (ar_archivePath ar)"
  obtain d1 e1 where w: "writeFileWithNativePrimitives env ?tmp bytes d = Some (d1, e1)"
    "\<forall>q. q \<noteq> ?tmp \<longrightarrow> map_of d1 q = map_of d q" "e1 = None \<longrightarrow> map_of d1 ?tmp = Some (Some bytes)"
    using write_file_result [OF assms] by blast
  show ?thesis
  proof (cases "e1 = None \<and> fe_fails env RenameStep = None")
    case True
    with w show ?thesis
      by (simp add: replace_archive_def disk_exists_def disk_read_def AList.update_conv AList.delete_conv)
  next
    case False
    with w show ?thesis
      by (cases e1)
        (auto simp: replace_archive_def disk_exists_def AList.delete_conv Let_def split: option.split)
  qed
qed

lemma load_frame_cleared:
  assumes "load decode d (ar\<lparr>ar_entries := [], ar_missingPaths := []\<rparr>) = Inr loaded"
  shows "ar_archivePath loaded = ar_archivePath ar"
  using load_frame(1) [OF assms] by simp

lemma flush_locked_result:
  assumes "writes_progress env"
  shows "\<exists>d' ar' err. flush_locked encode decode cmp env d ar = Some (d', ar', err)
    \<and> (\<forall>q. q \<noteq> ar_archivePath ar \<longrightarrow> q \<noteq> temporary_path env (ar_archivePath ar) \<longrightarrow> map_of d' q = map_of d q)
    \<and> ar_entries ar' = ar_entries ar \<and> ar_missingPaths ar' = ar_missingPaths ar
    \<and> (ar_dirty ar' = ar_dirty ar \<and> map_of d' (ar_archivePath ar) = map_of d (ar_archivePath ar) \<and> err \<noteq> None
       \<or> \<not> ar_dirty ar' \<and> err = None \<and> map_of d' (temporary_path env (ar_archivePath ar)) = None
         \<and> (\<exists>loaded p. load decode d (ar\<lparr>ar_entries := [], ar_missingPaths := []\<rparr>) = Inr loaded
              \<and> serializeProtobufDocument (flush_document cmp (fe_now env)
                    (ar\<lparr>ar_createdAt := ar_createdAt loaded\<rparr>) loaded) = Inr p
              \<and> map_of d' (ar_archivePath ar) = Some (Some (encode p))))"
proof (cases "load decode d (ar\<lparr>ar_entries := [], ar_missingPaths := []\<rparr>)")
  case (Inl e)
  then show ?thesis by (simp add: flush_locked_def)
next
  case (Inr loaded)
  let ?ar = "ar\<lparr>ar_createdAt := ar_createdAt loaded\<rparr>"
  show ?thesis
  proof (cases "serializeProtobufDocument (flush_document cmp (fe_now env) ?ar loaded)")
    case (Inl e)
    with Inr show ?thesis by (simp add: flush_locked_def Let_def)
  next
    case p: (Inr p)
    from replace_archive_result [OF assms, of "encode p" d ?ar] Inr p show ?thesis
      by (fastforce simp: flush_locked_def Let_def)
  qed
qed

lemma release_lock_result:
  "release_lock env p (d, ar, err) = (d', ar', err') \<Longrightarrow>
     ar' = ar \<and> (\<forall>q. q \<noteq> p \<longrightarrow> map_of d' q = map_of d q)
     \<and> (err' = None \<longrightarrow> err = None \<and> map_of d' p = None)"
  by (auto simp: release_lock_def disk_exists_def AList.delete_conv split: option.splits if_splits)

text \<open>The document that \<open>flush\<close> writes and the archive it was merged with.\<close>

definition flushed :: "(buffer \<Rightarrow> proto_document option) \<Rightarrow> string comparator \<Rightarrow> flush_env \<Rightarrow> disk \<Rightarrow>
    archive \<Rightarrow> archive \<Rightarrow> proto_document \<Rightarrow> bool" where
  "flushed decode cmp env d ar loaded p \<longleftrightarrow>
     load decode (js_set (lock_path (ar_archivePath ar)) (Some '''') d)
       (ar\<lparr>ar_entries := [], ar_missingPaths := []\<rparr>) = Inr loaded
     \<and> serializeProtobufDocument (flush_document cmp (fe_now env)
           (ar\<lparr>ar_createdAt := ar_createdAt loaded\<rparr>) loaded) = Inr p"

lemma flush_result:
  assumes "writes_progress env"
  shows "\<exists>d' ar' err. flush encode decode cmp env calls d ar = Some (d', ar', err)
    \<and> ar_entries ar' = ar_entries ar \<and> ar_missingPaths ar' = ar_missingPaths ar
    \<and> (\<forall>q. q \<notin> {ar_archivePath ar, lock_path (ar_archivePath ar), temporary_path env (ar_archivePath ar)}
           \<longrightarrow> map_of d' q = map_of d q)
    \<and> (map_of d' (ar_archivePath ar) = map_of d (ar_archivePath ar) \<and> ar_dirty ar' = ar_dirty ar
         \<and> (err = None \<longrightarrow> ar_mode ar \<noteq> Record \<or> \<not> ar_dirty ar)
       \<or> \<not> ar_dirty ar'
         \<and> (err = None \<longrightarrow> map_of d' (temporary_path env (ar_archivePath ar)) = None
               \<and> map_of d' (lock_path (ar_archivePath ar)) = None)
         \<and> (\<exists>loaded p. flushed decode cmp env d ar loaded p
              \<and> map_of d' (ar_archivePath ar) = Some (Some (encode p))))"
proof -
  let ?l = "lock_path (ar_archivePath ar)"
  consider (idle) "ar_mode ar \<noteq> Record \<or> \<not> ar_dirty ar"
    | (mkdir) code where "ar_mode ar = Record" "ar_dirty ar" "fe_fails env MkdirStep = Some code"
    | (lock) e where "ar_mode ar = Record" "ar_dirty ar" "fe_fails env MkdirStep = None"
        "fst (acquireLock calls (ar_archivePath ar)) = Inl e"
    | (held) fd where "ar_mode ar = Record" "ar_dirty ar" "fe_fails env MkdirStep = None"
        "fst (acquireLock calls (ar_archivePath ar)) = Inr fd"
    by (metis not_None_eq old.sum.exhaust)
  then show ?thesis
  proof cases
    case held
    obtain d1 ar1 e1 where f: "flush_locked encode decode cmp env (js_set ?l (Some '''') d) ar = Some (d1, ar1, e1)"
      and f': "\<forall>q. q \<noteq> ar_archivePath ar \<longrightarrow> q \<noteq> temporary_path env (ar_archivePath ar) \<longrightarrow>
          map_of d1 q = map_of (js_set ?l (Some '''') d) q"
        "ar_entries ar1 = ar_entries ar \<and> ar_missingPaths ar1 = ar_missingPaths ar"
        "ar_dirty ar1 = ar_dirty ar \<and> map_of d1 (ar_archivePath ar) = map_of d (ar_archivePath ar) \<and> e1 \<noteq> None
         \<or> \<not> ar_dirty ar1 \<and> e1 = None \<and> map_of d1 (temporary_path env (ar_archivePath ar)) = None
           \<and> (\<exists>loaded p. flushed decode cmp env d ar loaded p
              \<and> map_of d1 (ar_archivePath ar) = Some (Some (encode p)))"
      using flush_locked_result [OF assms, of encode decode cmp "js_set ?l (Some '''') d" ar]
      by (auto simp: flushed_def AList.update_conv)
    obtain d2 ar2 e2 where r: "release_lock env ?l (d1, ar1, e1) = (d2, ar2, e2)"
      by (cases "release_lock env ?l (d1, ar1, e1)")
    have "flush encode decode cmp env calls d ar = Some (d2, ar2, e2)"
      using held f r by (simp add: flush_def)
    moreover have "map_of d2 q = map_of d q"
      if "q \<notin> {ar_archivePath ar, ?l, temporary_path env (ar_archivePath ar)}" for q
      using that f'(1) release_lock_result [OF r] by (simp add: AList.update_conv)
    ultimately show ?thesis
      using f' release_lock_result [OF r] by (cases "e2 = None") auto
  qed (simp_all add: flush_def)
qed

end
