(* ===== verification/Archive_Reload.thy ===== *)
theory Archive_Reload
  imports Archive_Flush
begin

text \<open>
  Reading back what \<open>flush\<close> wrote: a fresh archive that loads the file sees every outcome
  and every existence flag that was recorded, merged with what the file held before.
\<close>

section \<open>Reading the archive back\<close>

lemma archived_lookup:
  assumes "list_all2 (\<lambda>en en'. ent_path en' = ent_path en \<and> archived (ent_node en) (ent_node en')) xs ys"
  shows "case map_of (map (\<lambda>en. (ent_path en, ent_node en)) xs) k of
      None \<Rightarrow> map_of (map (\<lambda>en. (ent_path en, createNode (ent_node en))) ys) k = None
    | Some nd \<Rightarrow> \<exists>nd'. map_of (map (\<lambda>en. (ent_path en, createNode (ent_node en))) ys) k = Some nd'
        \<and> archived nd nd'"
  using assms by (induction rule: list_all2_induct) (auto simp: archived_def split: option.splits)

lemma archived_paths:
  "list_all2 (\<lambda>en en'. ent_path en' = ent_path en \<and> archived (ent_node en) (ent_node en')) xs ys \<Longrightarrow>
     map ent_path ys = map ent_path xs"
  by (induction rule: list_all2_induct) auto

lemma map_of_filter_value:
  "distinct (js_keys m) \<Longrightarrow> map_of (filter (\<lambda>(k, v). P v) m) k =
     (case map_of m k of None \<Rightarrow> None | Some v \<Rightarrow> if P v then Some v else None)"
  by (induction m) (auto simp: map_of_eq_None_iff split: option.splits dest: map_of_SomeD)

definition doc_node :: "archive_document \<Rightarrow> string \<Rightarrow> cache_node option" where
  "doc_node doc = map_of (map (\<lambda>en. (ent_path en, ent_node en)) (doc_entries doc))"

lemma reload:
  assumes typed: "list_all (\<lambda>en. typed_node (ent_node en)) (doc_entries doc)"
    and dist: "distinct (map ent_path (doc_entries doc))"
    and magic: "doc_magic doc = FS_CACHE_MAGIC" "doc_formatVersion doc = FS_CACHE_FORMAT_VERSION"
    and p: "serializeProtobufDocument doc = Inr p" "decode bytes = Some p"
    and disk: "map_of d (ar_archivePath fresh) = Some (Some bytes)"
    and fresh: "ar_entries fresh = []" "ar_missingPaths fresh = []"
  shows "\<exists>ar. load decode d fresh = Inr ar \<and> distinct (js_keys (ar_entries ar)) \<and> distinct (ar_missingPaths ar)
    \<and> (\<forall>k. case doc_node doc k of
          None \<Rightarrow> map_of (ar_entries ar) k = None \<and> k \<notin> set (ar_missingPaths ar)
        | Some nd \<Rightarrow>
            if only_missing nd then map_of (ar_entries ar) k = None \<and> k \<in> set (ar_missingPaths ar)
            else (\<exists>nd'. map_of (ar_entries ar) k = Some nd' \<and> archived nd nd')
                 \<and> k \<notin> set (ar_missingPaths ar))"
proof -
  let ?keep = "filter (\<lambda>en. \<not> only_missing (ent_node en)) (doc_entries doc)"
  let ?miss = "map ent_path (filter (\<lambda>en. only_missing (ent_node en)) (doc_entries doc))"
  let ?pairs = "map (\<lambda>en. (ent_path en, ent_node en)) (doc_entries doc)"
  obtain es where es: "deserializeProtobufDocument p = Inr (doc\<lparr>doc_entries := es, doc_missingPaths := ?miss\<rparr>)"
    "list_all2 (\<lambda>en en'. ent_path en' = ent_path en \<and> archived (ent_node en) (ent_node en')) ?keep es"
    using document_roundtrip [OF typed] unfolding p(1) sum.inject(2) by blast
  let ?doc' = "doc\<lparr>doc_entries := es, doc_missingPaths := ?miss\<rparr>"
  have pairs: "js_keys ?pairs = map ent_path (doc_entries doc)" by (simp add: comp_def)
  have keep: "map_of (map (\<lambda>en. (ent_path en, ent_node en)) ?keep) k =
      (case doc_node doc k of None \<Rightarrow> None | Some nd \<Rightarrow> if \<not> only_missing nd then Some nd else None)" for k
  proof -
    have "map (\<lambda>en. (ent_path en, ent_node en)) ?keep = filter (\<lambda>(k, v). \<not> only_missing v) ?pairs"
      by (simp add: filter_map comp_def)
    then show ?thesis
      using map_of_filter_value [OF dist [folded pairs], of "\<lambda>v. \<not> only_missing v" k]
      by (simp add: doc_node_def)
  qed
  have miss: "k \<in> set ?miss \<longleftrightarrow> (\<exists>nd. doc_node doc k = Some nd \<and> only_missing nd)" for k
  proof -
    have "doc_node doc k = Some nd \<longleftrightarrow> (k, nd) \<in> set ?pairs" for nd
      using dist pairs unfolding doc_node_def by (metis map_of_eq_Some_iff)
    then show ?thesis by auto
  qed
  have keys: "distinct (map ent_path es)"
    using archived_paths [OF es(2)] dist by (simp add: distinct_map inj_on_def)
  define ar where "ar = load_entries fresh ?doc'"
  have "load decode d fresh = Inr ar"
    using es(1) p(2) disk magic
    by (simp add: load_def load_document_def disk_exists_def disk_read_def ar_def)
  moreover have entries: "map_of (ar_entries ar) = map_of (map (\<lambda>en. (ent_path en, createNode (ent_node en))) es)"
    using keys fresh
    by (simp add: ar_def load_entries_entries map_of_set_all map_of_rev_distinct comp_def)
  moreover have "distinct (js_keys (ar_entries ar))"
    using fresh by (simp add: ar_def load_entries_entries distinct_set_all)
  moreover have missing: "set (ar_missingPaths ar) = set ?miss" "distinct (ar_missingPaths ar)"
    using fresh by (simp_all add: ar_def load_entries_def distinct_set_add del: set_map set_filter)
  moreover have "case doc_node doc k of
          None \<Rightarrow> map_of (ar_entries ar) k = None \<and> k \<notin> set (ar_missingPaths ar)
        | Some nd \<Rightarrow>
            if only_missing nd then map_of (ar_entries ar) k = None \<and> k \<in> set (ar_missingPaths ar)
            else (\<exists>nd'. map_of (ar_entries ar) k = Some nd' \<and> archived nd nd')
                 \<and> k \<notin> set (ar_missingPaths ar)" for k
    using archived_lookup [OF es(2), of k] keep [of k] miss [of k] unfolding entries missing(1)
    by (cases "doc_node doc k") (auto simp del: set_map set_filter split: if_splits)
  ultimately show ?thesis by (intro exI [of _ ar]) simp
qed

lemma map_of_sort_key:
  assumes "distinct (js_keys m)"
  shows "map_of (Sorting_Algorithms.sort (key fst cmp) m) = map_of m"
    "distinct (js_keys (Sorting_Algorithms.sort (key fst cmp) m))"
proof -
  show d: "distinct (js_keys (Sorting_Algorithms.sort (key fst cmp) m))"
    by (rule distinct_js_keys_perm [OF _ assms]) simp
  show "map_of (Sorting_Algorithms.sort (key fst cmp) m) = map_of m"
    by (rule map_of_perm [OF d assms]) simp
qed

lemma map_of_missing_pairs:
  "map_of (map (\<lambda>p. (p, n)) ps @ m) k = (if k \<in> set ps then Some n else map_of m k)"
  by (induction ps) auto

lemma only_missing_sortedNode [simp]: "only_missing (sortedNode cmp nd) = only_missing nd"
  by (auto simp: only_missing_def node_field_sortedNode list_all_iff split: option.splits)

lemma only_missing_new [simp]: "only_missing (empty_node\<lparr>nd_exists := Some False\<rparr>)"
  by (simp add: only_missing_def list_all_iff)

lemma archived_sortedNode: "wf_node nd \<Longrightarrow> archived (sortedNode cmp nd) nd' = archived nd nd'"
  by (simp add: archived_def del: readSlot.simps)

lemma flush_document_entries:
  assumes wf: "wf_archive own" "wf_archive loaded"
  shows
  "distinct (map ent_path (doc_entries (flush_document cmp now own loaded)))"
  "list_all (\<lambda>en. typed_node (ent_node en)) (doc_entries (flush_document cmp now own loaded))"
  "doc_node (flush_document cmp now own loaded) k =
     (if k \<in> set (merged_missing own loaded)
      then Some (sortedNode cmp (empty_node\<lparr>nd_exists := Some False\<rparr>))
      else map_option (sortedNode cmp) (map_of (merged_entries own loaded) k))"
proof -
  let ?pairs = "map (\<lambda>p. (p, empty_node\<lparr>nd_exists := Some False\<rparr>)) (merged_missing own loaded)
      @ merged_entries own loaded"
  have disj: "set (merged_missing own loaded) \<inter> set (js_keys (merged_entries own loaded)) = {}"
    using merged_wf(3) [OF wf] by (metis disjoint_iff map_of_eq_None_iff not_Some_eq list.set_map)
  have d: "distinct (js_keys ?pairs)"
    using merged_wf(1,2) [OF wf] disj by (simp add: comp_def)
  have paths: "map ent_path (doc_entries (flush_document cmp now own loaded)) =
      js_keys (Sorting_Algorithms.sort (key fst cmp) ?pairs)"
    by (simp add: flush_document_def comp_def split_def)
  show "distinct (map ent_path (doc_entries (flush_document cmp now own loaded)))"
    unfolding paths by (rule map_of_sort_key(2) [OF d])
  show "list_all (\<lambda>en. typed_node (ent_node en)) (doc_entries (flush_document cmp now own loaded))"
  proof -
    have "typed_node nd" if "(p, nd) \<in> set (merged_entries own loaded)" for p nd
      using merged_wf(3) [OF wf] map_of_is_SomeI [OF merged_wf(1) [OF wf] that] by blast
    then show ?thesis by (auto simp: flush_document_def list_all_iff)
  qed
  have "doc_node (flush_document cmp now own loaded) =
      map_of (map (\<lambda>(p, node). (p, sortedNode cmp node)) (Sorting_Algorithms.sort (key fst cmp) ?pairs))"
    by (simp add: doc_node_def flush_document_def comp_def split_def)
  then show "doc_node (flush_document cmp now own loaded) k =
     (if k \<in> set (merged_missing own loaded)
      then Some (sortedNode cmp (empty_node\<lparr>nd_exists := Some False\<rparr>))
      else map_option (sortedNode cmp) (map_of (merged_entries own loaded) k))"
    using map_of_sort_key(1) [OF d, of cmp] by (simp add: map_of_map map_of_missing_pairs del: map_of_append)
qed

lemma flush_document_createdAt [simp]:
  "flush_document cmp now (own\<lparr>ar_createdAt := c\<rparr>) loaded = flush_document cmp now own loaded"
  by (simp add: flush_document_def merged_missing_def merged_entries_def)

lemma flush_then_load:
  assumes wf: "wf_archive own" "wf_archive loaded"
    and fl: "flushed decode cmp env d own loaded p" "decode bytes = Some p"
    and disk: "map_of d' (ar_archivePath fresh) = Some (Some bytes)"
    and fresh: "ar_entries fresh = []" "ar_missingPaths fresh = []"
  shows "\<exists>ar. load decode d' fresh = Inr ar
    \<and> distinct (js_keys (ar_entries ar)) \<and> distinct (ar_missingPaths ar)
    \<and> (\<forall>k. if k \<in> set (merged_missing own loaded)
           then map_of (ar_entries ar) k = None \<and> k \<in> set (ar_missingPaths ar)
           else (case map_of (merged_entries own loaded) k of
               None \<Rightarrow> map_of (ar_entries ar) k = None \<and> k \<notin> set (ar_missingPaths ar)
             | Some nd \<Rightarrow>
                 if only_missing nd then map_of (ar_entries ar) k = None \<and> k \<in> set (ar_missingPaths ar)
                 else (\<exists>nd'. map_of (ar_entries ar) k = Some nd' \<and> archived nd nd')
                   \<and> k \<notin> set (ar_missingPaths ar)))"
proof -
  let ?doc = "flush_document cmp (fe_now env) own loaded"
  have p: "serializeProtobufDocument ?doc = Inr p" using fl(1) by (simp add: flushed_def)
  have magic: "doc_magic ?doc = FS_CACHE_MAGIC" "doc_formatVersion ?doc = FS_CACHE_FORMAT_VERSION"
    by (simp_all add: flush_document_def)
  obtain ar where ar: "load decode d' fresh = Inr ar"
    "distinct (js_keys (ar_entries ar))" "distinct (ar_missingPaths ar)"
    and view: "\<And>k. case doc_node ?doc k of
          None \<Rightarrow> map_of (ar_entries ar) k = None \<and> k \<notin> set (ar_missingPaths ar)
        | Some nd \<Rightarrow>
            if only_missing nd then map_of (ar_entries ar) k = None \<and> k \<in> set (ar_missingPaths ar)
            else (\<exists>nd'. map_of (ar_entries ar) k = Some nd' \<and> archived nd nd')
                 \<and> k \<notin> set (ar_missingPaths ar)"
    using reload [where doc = ?doc and decode = decode and bytes = bytes, OF flush_document_entries(2,1) [OF wf] magic p fl(2) disk fresh] by blast
  have "if k \<in> set (merged_missing own loaded)
           then map_of (ar_entries ar) k = None \<and> k \<in> set (ar_missingPaths ar)
           else (case map_of (merged_entries own loaded) k of
               None \<Rightarrow> map_of (ar_entries ar) k = None \<and> k \<notin> set (ar_missingPaths ar)
             | Some nd \<Rightarrow>
                 if only_missing nd then map_of (ar_entries ar) k = None \<and> k \<in> set (ar_missingPaths ar)
                 else (\<exists>nd'. map_of (ar_entries ar) k = Some nd' \<and> archived nd nd')
                   \<and> k \<notin> set (ar_missingPaths ar))" for k
  proof (cases "k \<in> set (merged_missing own loaded)")
    case True
    then show ?thesis using view [of k] by (simp add: flush_document_entries(3) [OF wf])
  next
    case False
    show ?thesis
    proof (cases "map_of (merged_entries own loaded) k")
      case None
      with False show ?thesis using view [of k] by (simp add: flush_document_entries(3) [OF wf])
    next
      case (Some nd)
      then have "wf_node nd" using merged_wf(3) [OF wf Some] by (simp add: typed_nodeD(1))
      with False Some show ?thesis
        using view [of k] archived_sortedNode [OF \<open>wf_node nd\<close>, of cmp]
        by (auto simp: flush_document_entries(3) [OF wf] split: if_splits)
    qed
  qed
  with ar show ?thesis by blast
qed

lemma only_missing_readSlot: "only_missing nd \<Longrightarrow> readSlot nd slot = None"
  by (cases slot) (auto simp: only_missing_def list_all_iff split: option.splits)

lemma slots_of_view:
  assumes wf: "wf_archive own" "wf_archive loaded"
    and view: "if k \<in> set (merged_missing own loaded)
           then map_of (ar_entries ar) k = None \<and> k \<in> set (ar_missingPaths ar)
           else (case map_of (merged_entries own loaded) k of
               None \<Rightarrow> map_of (ar_entries ar) k = None \<and> k \<notin> set (ar_missingPaths ar)
             | Some nd \<Rightarrow>
                 if only_missing nd then map_of (ar_entries ar) k = None \<and> k \<in> set (ar_missingPaths ar)
                 else (\<exists>nd'. map_of (ar_entries ar) k = Some nd' \<and> archived nd nd')
                   \<and> k \<notin> set (ar_missingPaths ar))"
  shows "slot_view ar k slot = map_option normal_outcome
    (override (case kept_node own loaded k of None \<Rightarrow> None | Some nd \<Rightarrow> readSlot nd slot) (slot_view own k slot))"
proof -
  have slots: "slot_view ar k slot = map_option normal_outcome
      (case map_of (merged_entries own loaded) k of None \<Rightarrow> None | Some nd \<Rightarrow> readSlot nd slot)"
  proof (cases "map_of (merged_entries own loaded) k")
    case None
    with view show ?thesis by (simp add: slot_view_def split: if_splits)
  next
    case (Some nd)
    then have "k \<notin> set (merged_missing own loaded)" using merged_wf(3) [OF wf Some] by simp
    with Some view show ?thesis
      by (cases "only_missing nd") (auto simp: slot_view_def archived_def only_missing_readSlot)
  qed
  show ?thesis
  proof (cases "map_of (ar_entries own) k")
    case None
    then show ?thesis
      unfolding slots by (simp add: map_of_merged_entries [OF wf(1)] slot_view_def override_def)
  next
    case (Some node)
    have w: "wf_node (nullish (kept_node own loaded k) empty_node)" "wf_node node"
      using typed_kept_node [OF wf(2), of own k] wf_archive_entry [OF wf(1) Some]
      by (cases "kept_node own loaded k"; simp add: typed_nodeD(1))+
    show ?thesis
      unfolding slots using Some readSlot_mergeNodes [OF w]
      by (cases "kept_node own loaded k") (simp_all add: map_of_merged_entries [OF wf(1)] slot_view_def)
  qed
qed

section \<open>Flushing succeeds\<close>

lemma flush_succeeds:
  assumes wf: "wf_archive own" and mode: "ar_mode own = Record" "ar_dirty own"
    and native: "\<And>step. fe_fails env step = None" "writes_progress env"
    and lock: "fst (acquireLock calls (ar_archivePath own)) = Inr fd"
    and loaded: "load decode (js_set (lock_path (ar_archivePath own)) (Some '''') d)
        (own\<lparr>ar_entries := [], ar_missingPaths := []\<rparr>) = Inr loaded" "wf_archive loaded"
  shows "\<exists>d' own' p. flush encode decode cmp env calls d own = Some (d', own', None)
    \<and> \<not> ar_dirty own' \<and> flushed decode cmp env d own loaded p
    \<and> map_of d' (ar_archivePath own) = Some (Some (encode p))"
proof -
  let ?l = "lock_path (ar_archivePath own)"
  let ?d = "js_set ?l (Some '''') d"
  obtain p where p: "serializeProtobufDocument (flush_document cmp (fe_now env)
      (own\<lparr>ar_createdAt := ar_createdAt loaded\<rparr>) loaded) = Inr p"
    using document_roundtrip [OF flush_document_entries(2) [OF wf loaded(2)], of cmp "fe_now env"] by auto
  let ?ar = "own\<lparr>ar_createdAt := ar_createdAt loaded\<rparr>"
  obtain d1 e1 where w: "writeFileWithNativePrimitives env (temporary_path env (ar_archivePath own)) (encode p) ?d = Some (d1, e1)"
    "map_of d1 (temporary_path env (ar_archivePath own)) = Some (Some (encode p))" "e1 = None"
    using write_loop_complete [of "fe_written env" 0 "encode p" "length (encode p)" "''''" 0] native
    by (auto simp: writeFileWithNativePrimitives_def writes_progress_def AList.update_conv)
  have "fe_fails env CloseLockStep = None" "fe_fails env UnlinkLockStep = None" by (simp_all add: native(1))
  then show ?thesis
    using mode lock loaded(1) p w native(1)
    by (auto simp: flush_def flush_locked_def Let_def replace_archive_def disk_exists_def disk_read_def
        release_lock_def flushed_def AList.update_conv AList.delete_conv)
qed

end
