(* ===== verification/FS_Session.thy ===== *)
theory FS_Session
  imports FS_Descriptors Archive_Reload
begin

text \<open>
  \<open>packages/shared/src/fs-cache/hook.ts\<close>, last part: \<open>installFsCache\<close>. At most one analysis
  is active; its session flushes the archive when it ends. An archive has the number of its
  session, which stands for the identity of the object.
\<close>

section \<open>State and operations\<close>

record session_state =
  ss_active :: "(nat \<times> archive) option"
  ss_next :: nat
  ss_ended :: "nat list"
  ss_disk :: disk
  ss_descriptors :: "(int, tracked) js_map"
  ss_warnings :: "flush_error list"

definition no_session :: "disk \<Rightarrow> session_state" where
  "no_session d = \<lparr>ss_active = None, ss_next = 0, ss_ended = [], ss_disk = d, ss_descriptors = [], ss_warnings = []\<rparr>"

datatype session_error = AlreadyActive | ChangedUnexpectedly | BeginFailed archive_error | NotActive

text \<open>What the process gives: the codec, the comparison of strings and the native calls.\<close>

record process_env =
  pe_encode :: "proto_document \<Rightarrow> buffer"
  pe_decode :: "buffer \<Rightarrow> proto_document option"
  pe_compare :: "string comparator"
  pe_flush :: flush_env
  pe_locks :: lock_calls
  pe_cwd :: string
  pe_native :: "realpath_operation \<Rightarrow> string \<Rightarrow> string option"
  pe_now :: string

definition requireActiveArchive :: "session_state \<Rightarrow> session_error + archive" where
  "requireActiveArchive s = (case ss_active s of None \<Rightarrow> Inl NotActive | Some (i, ar) \<Rightarrow> Inr ar)"

definition beginAnalysis :: "process_env \<Rightarrow> session_state \<Rightarrow> string \<Rightarrow> string \<Rightarrow> (session_error + nat) \<times> session_state" where
  "beginAnalysis env s archivePath rootDir =
     (if ss_active s \<noteq> None then (Inl AlreadyActive, s)
      else
        (case new_archive (pe_cwd env) (ss_disk s) (pe_native env) (pe_now env) archivePath rootDir of
           Inl e \<Rightarrow> (Inl (BeginFailed e), s)
         | Inr ar \<Rightarrow>
             (case (if ar_mode ar = Replay then load (pe_decode env) (ss_disk s) ar else Inr ar) of
                Inl e \<Rightarrow> (Inl (BeginFailed e), s)
              | Inr ar' \<Rightarrow>
                  (Inr (ss_next s), s\<lparr>ss_active := Some (ss_next s, ar'), ss_next := ss_next s + 1\<rparr>))))"

text \<open>The flush of a session, with its failure reported and swallowed; \<open>None\<close> does not return.\<close>

definition flush_reporting :: "process_env \<Rightarrow> session_state \<Rightarrow> archive \<Rightarrow> (archive \<times> session_state) option" where
  "flush_reporting env s ar =
     (case flush (pe_encode env) (pe_decode env) (pe_compare env) (pe_flush env) (pe_locks env) (ss_disk s) ar of
        None \<Rightarrow> None
      | Some (d', ar', err) \<Rightarrow>
          Some (ar', s\<lparr>ss_disk := d',
            ss_warnings := ss_warnings s @ (case err of None \<Rightarrow> [] | Some e \<Rightarrow> [e])\<rparr>))"

definition end_session :: "process_env \<Rightarrow> session_state \<Rightarrow> nat \<Rightarrow> ((session_error + unit) \<times> session_state) option" where
  "end_session env s i =
     (if i \<in> set (ss_ended s) then Some (Inr (), s)
      else
        (case ss_active s of
           None \<Rightarrow> Some (Inl ChangedUnexpectedly, s)
         | Some (j, ar) \<Rightarrow>
             if j \<noteq> i then Some (Inl ChangedUnexpectedly, s)
             else map_option (\<lambda>(ar', s'). (Inr (), s'\<lparr>ss_descriptors := [], ss_active := None, ss_ended := ss_ended s' @ [i]\<rparr>))
                    (flush_reporting env s ar)))"

definition exitListener :: "process_env \<Rightarrow> session_state \<Rightarrow> session_state option" where
  "exitListener env s =
     (case ss_active s of
        None \<Rightarrow> Some s
      | Some (i, ar) \<Rightarrow> map_option (\<lambda>(ar', s'). s'\<lparr>ss_active := Some (i, ar')\<rparr>) (flush_reporting env s ar))"

definition session_statistics :: "session_state \<Rightarrow> session_error + nat \<times> nat \<times> nat" where
  "session_statistics s = (case requireActiveArchive s of Inl e \<Rightarrow> Inl e | Inr ar \<Rightarrow> Inr (getStatistics ar))"

section \<open>Runs\<close>

text \<open>
  A run of the process: analyses begin and end, in any order and with any arguments, and the
  active archive is used in between.
\<close>

inductive session_step :: "process_env \<Rightarrow> session_state \<Rightarrow> session_state \<Rightarrow> bool" for env where
  step_begin: "beginAnalysis env s archivePath rootDir = (r, s') \<Longrightarrow> session_step env s s'"
| step_end: "i < ss_next s \<Longrightarrow> end_session env s i = Some (r, s') \<Longrightarrow> session_step env s s'"
| step_use: "ss_active s = Some (i, ar) \<Longrightarrow>
    session_step env s (s\<lparr>ss_active := Some (i, ar'), ss_descriptors := fds\<rparr>)"
| step_exit: "exitListener env s = Some s' \<Longrightarrow> session_step env s s'"

inductive session_run :: "process_env \<Rightarrow> disk \<Rightarrow> session_state \<Rightarrow> bool" for env d where
  run_start: "session_run env d (no_session d)"
| run_step: "session_run env d s \<Longrightarrow> session_step env s s' \<Longrightarrow> session_run env d s'"

inductive_cases session_stepE: "session_step env s s'"

text \<open>Every session that began has ended or is the active one.\<close>

definition sessions_accounted :: "session_state \<Rightarrow> bool" where
  "sessions_accounted s \<longleftrightarrow>
     (\<forall>i < ss_next s. i \<in> set (ss_ended s) \<or> (\<exists>ar. ss_active s = Some (i, ar)))
     \<and> (\<forall>i ar. ss_active s = Some (i, ar) \<longrightarrow> i < ss_next s \<and> i \<notin> set (ss_ended s))
     \<and> (\<forall>i\<in>set (ss_ended s). i < ss_next s)"

lemma flush_reporting_frame:
  "flush_reporting env s ar = Some (ar', s') \<Longrightarrow>
     ss_next s' = ss_next s \<and> ss_ended s' = ss_ended s \<and> ss_active s' = ss_active s"
  by (auto simp: flush_reporting_def split: option.splits)

lemma accounted_begin:
  "sessions_accounted s \<Longrightarrow> beginAnalysis env s a b = (r, s') \<Longrightarrow> sessions_accounted s'"
  by (auto simp: beginAnalysis_def sessions_accounted_def less_Suc_eq split: if_splits sum.splits)

lemma accounted_end:
  assumes "sessions_accounted s" "end_session env s i = Some (r, s')"
  shows "sessions_accounted s'"
proof (cases "i \<in> set (ss_ended s) \<or> ss_active s = None \<or> fst (the (ss_active s)) \<noteq> i")
  case True
  with assms show ?thesis by (auto simp: end_session_def split: if_splits option.splits prod.splits)
next
  case False
  then obtain ar where act: "ss_active s = Some (i, ar)" "i \<notin> set (ss_ended s)" by auto
  then obtain ar' s1 where "flush_reporting env s ar = Some (ar', s1)"
    "s' = s1\<lparr>ss_descriptors := [], ss_active := None, ss_ended := ss_ended s1 @ [i]\<rparr>"
    using assms(2) by (auto simp: end_session_def)
  with flush_reporting_frame [of env s ar ar' s1] assms(1) act show ?thesis
    by (auto simp: sessions_accounted_def)
qed

lemma accounted_step: "session_step env s s' \<Longrightarrow> sessions_accounted s \<Longrightarrow> sessions_accounted s'"
proof (induction rule: session_step.induct)
  case (step_begin s a b r s')
  then show ?case by (metis accounted_begin)
next
  case (step_end i s r s')
  then show ?case by (metis accounted_end)
next
  case (step_use s i ar ar' fds)
  then show ?case by (auto simp: sessions_accounted_def)
next
  case (step_exit s s')
  then show ?case
    using flush_reporting_frame
    by (fastforce simp: exitListener_def sessions_accounted_def split: option.splits prod.splits)
qed

lemma run_accounted: "session_run env d s \<Longrightarrow> sessions_accounted s"
proof (induction rule: session_run.induct)
  case run_start
  then show ?case by (simp add: no_session_def sessions_accounted_def)
next
  case (run_step s s')
  then show ?case by (blast intro: accounted_step)
qed

lemma flush_reporting_returns:
  assumes "writes_progress (pe_flush env)"
  shows "\<exists>ar' s'. flush_reporting env s ar = Some (ar', s')"
proof -
  obtain d' ar' err where "flush (pe_encode env) (pe_decode env) (pe_compare env) (pe_flush env) (pe_locks env)
      (ss_disk s) ar = Some (d', ar', err)"
    using flush_result [OF assms, of "pe_encode env" "pe_decode env" "pe_compare env" "pe_locks env" "ss_disk s" ar]
    by blast
  then show ?thesis by (simp add: flush_reporting_def)
qed

end
