(* ===== verification/FS_Async.thy ===== *)
theory FS_Async
  imports FS_Descriptors
begin

text \<open>
  \<open>packages/shared/src/fs-cache/hook.ts\<close>: the promise and callback forms of the filesystem
  functions. An asynchronous call has two steps: up to the \<open>await\<close> of the native call, and
  after it; other calls may run in between. A call of the executor is its arguments, so that
  the promise form and the synchronous form of a function can be compared.
\<close>

section \<open>Calls of the executor\<close>

record 's fs_call =
  ca_input :: cache_input
  ca_operation :: string
  ca_encode :: "'s encoder"
  ca_decode :: "'s decoder"

datatype async_start = AsyncSettled "thrown + js_value" | AsyncAwait "string option"

text \<open>\<open>runAsync\<close> until the native call is awaited: settled by the archive, or waiting with the key.\<close>

definition runAsync_start :: "'s facade \<Rightarrow> 's \<Rightarrow> 's fs_call \<Rightarrow> async_start \<times> 's" where
  "runAsync_start F s c =
     (case replay F s (ca_input c) (ca_operation c) (ca_decode c) of
        (Throws e, s1) \<Rightarrow> (AsyncSettled (Inl e), s1)
      | (Replayed v, s1) \<Rightarrow> (AsyncSettled (Inr v), s1)
      | (Missing, s1) \<Rightarrow> (let (k, s2) = input_key F s1 (ca_input c) in (AsyncAwait k, s2)))"

text \<open>\<open>runAsync\<close> after the native promise has settled.\<close>

definition runAsync_finish :: "'s facade \<Rightarrow> 's \<Rightarrow> 's fs_call \<Rightarrow> string option \<Rightarrow> native_result \<Rightarrow>
    (thrown + js_value) \<times> 's" where
  "runAsync_finish F s c k producer =
     (case producer of
        Inr v \<Rightarrow>
          if fc_mode F s = Record \<and> k \<noteq> None
          then (case ca_encode c v s of
                  (Inl e, s1) \<Rightarrow> record_thrown F s1 k (ca_operation c) e
                | (Inr sv, s1) \<Rightarrow>
                    (case record_outcome F s1 k (ca_operation c) (Success sv) of
                       (s2, None) \<Rightarrow> (Inr v, s2)
                     | (s2, Some e) \<Rightarrow> record_thrown F s2 k (ca_operation c) (ArchiveThrown e)))
          else (Inr v, s)
      | Inl err \<Rightarrow> record_thrown F s k (ca_operation c) (FsThrown err))"

text \<open>An asynchronous call that nothing overlaps.\<close>

definition runAsync :: "'s facade \<Rightarrow> 's \<Rightarrow> 's fs_call \<Rightarrow> native_result \<Rightarrow> (thrown + js_value) \<times> 's" where
  "runAsync F s c producer =
     (case runAsync_start F s c of
        (AsyncSettled r, s1) \<Rightarrow> (r, s1)
      | (AsyncAwait k, s1) \<Rightarrow> runAsync_finish F s1 c k producer)"

lemma runAsync_runSync:
  "runAsync F s c producer = runSync F s (ca_input c) (ca_operation c) producer (ca_encode c) (ca_decode c)"
  by (auto simp: runAsync_def runAsync_start_def runAsync_finish_def runSync_def
      split: prod.splits replayed.splits)

section \<open>Promise forms\<close>

text \<open>The calls the promise functions make.\<close>

definition readFile_call :: "cache_input \<Rightarrow> 's fs_call" where
  "readFile_call input =
     \<lparr>ca_input = input, ca_operation = ''readFile'', ca_encode = encodes encode_content,
      ca_decode = decodes decodeFileContent\<rparr>"

definition readdirPromise :: "'s facade \<Rightarrow> path_like \<Rightarrow> options_input \<Rightarrow> 's fs_call" where
  "readdirPromise F input opts =
     \<lparr>ca_input = PathInput input, ca_operation = readdirOperation opts, ca_encode = encode_entries F,
      ca_decode = decode_entries F\<rparr>"

text \<open>
  The promise form of a stat hands the results to \<open>snapshotStat\<close> and \<open>restoreStat\<close> as they are. These
  take a \<open>Stats\<close> object and its snapshot, and throw a \<open>TypeError\<close> on anything else.
\<close>

fun snapshotStat_of :: "'s encoder" where
  "snapshotStat_of (JsStats st) s = (Inr (StatValue (snapshotStat st)), s)"
| "snapshotStat_of Undefined s = (Inl (TypeThrown (''Cannot read properties of undefined (reading '' @ [CHR 0x27] @ ''dev'' @ [CHR 0x27] @ '')'')), s)"
| "snapshotStat_of JsNull s = (Inl (TypeThrown (''Cannot read properties of null (reading '' @ [CHR 0x27] @ ''dev'' @ [CHR 0x27] @ '')'')), s)"
| "snapshotStat_of _ s = (Inl (TypeThrown ''stat[method] is not a function''), s)"

fun restoreStat_of :: "(string \<Rightarrow> string) \<Rightarrow> (string \<Rightarrow> string) \<Rightarrow> bool \<Rightarrow> 's decoder" where
  "restoreStat_of trunc_number ms_to_ns bigint s (StatValue st) = Inr (JsStats (restoreStat trunc_number ms_to_ns st bigint))"
| "restoreStat_of trunc_number ms_to_ns bigint s NullValue = Inl (TypeThrown (''Cannot read properties of null (reading '' @ [CHR 0x27] @ ''fields'' @ [CHR 0x27] @ '')''))"
| "restoreStat_of trunc_number ms_to_ns bigint s _ = Inl (TypeThrown ''Cannot convert undefined or null to object'')"

definition makeStatPromise :: "(string \<Rightarrow> string) \<Rightarrow> (string \<Rightarrow> string) \<Rightarrow> string \<Rightarrow> path_like \<Rightarrow> bool \<Rightarrow>
    bool option \<Rightarrow> 's fs_call" where
  "makeStatPromise trunc_number ms_to_ns name input bigint throwIfNoEntry =
     \<lparr>ca_input = PathInput input, ca_operation = statOperation name bigint throwIfNoEntry,
      ca_encode = snapshotStat_of, ca_decode = restoreStat_of trunc_number ms_to_ns bigint\<rparr>"

definition accessPromise :: "path_like \<Rightarrow> nat \<Rightarrow> 's fs_call" where
  "accessPromise input mode =
     \<lparr>ca_input = PathInput input, ca_operation = ''access:'' @ show_nat mode,
      ca_encode = encodes (\<lambda>_. NullValue), ca_decode = decodes (\<lambda>_. Undefined)\<rparr>"

definition realpath_call :: "'s facade \<Rightarrow> realpath_operation \<Rightarrow> path_like \<Rightarrow> options_input \<Rightarrow> 's fs_call" where
  "realpath_call F operation input opts =
     \<lparr>ca_input = PathInput input, ca_operation = pathOperation (realpath_name operation) opts,
      ca_encode = encode_path F, ca_decode = decode_path F operation\<rparr>"

definition makeRealpathPromise :: "(string \<Rightarrow> buffer \<Rightarrow> string) \<Rightarrow> realpath_operation \<Rightarrow> 's facade \<Rightarrow> 's \<Rightarrow>
    path_like \<Rightarrow> options_input \<Rightarrow> native_result \<Rightarrow> (thrown + js_value) \<times> 's" where
  "makeRealpathPromise to_text operation F s input opts native =
     map_value (buffer_value (\<lambda>b. returnPathBuffer to_text b opts))
       (runAsync F s (realpath_call F operation input opts) native)"

text \<open>The callback of the native \<open>realpath\<close> gives an error, a path or neither.\<close>

definition realpathAsPromise :: "string \<Rightarrow> thrown_error option \<Rightarrow> buffer option \<Rightarrow> native_result" where
  "realpathAsPromise operation err v =
     (case err of
        Some e \<Rightarrow> Inl e
      | None \<Rightarrow>
          (case v of
             None \<Rightarrow> Inl \<lparr>te_error = \<lparr>err_name = ''Error'', err_message = operation @ '' returned no path'',
                        err_code = None, err_errno = None, err_syscall = None\<rparr>, te_path = None\<rparr>
           | Some b \<Rightarrow> Inr (JsBuffer b)))"

definition readlinkPromise :: "path_like \<Rightarrow> options_input \<Rightarrow> 's fs_call" where
  "readlinkPromise input opts =
     \<lparr>ca_input = PathInput input, ca_operation = pathOperation ''readlink'' opts,
      ca_encode = encodes encode_name, ca_decode = decodes decode_name\<rparr>"

text \<open>
  The state of the promise functions: the native handles that were given out, and the handles
  over recorded content. A handle is known by its descriptor.
\<close>

record 's promise_state = "'s hook_state" +
  ps_handles :: "int list"
  ps_cached :: "int list"

definition readFilePromise :: "(string \<Rightarrow> buffer \<Rightarrow> string) \<Rightarrow> 's facade \<Rightarrow> 's promise_state \<Rightarrow> cache_input \<Rightarrow>
    options_input \<Rightarrow> native_result \<Rightarrow> (thrown + js_value) \<times> 's promise_state" where
  "readFilePromise to_text F ps input opts native =
     (let cached = (case runAsync F (hs_store ps) (readFile_call input) native of (r, s) \<Rightarrow>
            map_value (buffer_value (\<lambda>b. returnReadBuffer to_text b opts)) (r, ps\<lparr>hs_store := s\<rparr>))
      in case input of
           HandleInput h \<Rightarrow>
             if h \<in> set (ps_cached ps) then
               (case readFileSync to_text F (hook_state.truncate ps) (FdInput h) opts native of (r, hs) \<Rightarrow>
                  (r, ps\<lparr>hs_store := hs_store hs, hs_descriptors := hs_descriptors hs\<rparr>))
             else if h \<notin> set (ps_handles ps)
             then (Inl (unsupported ''fs/promises'' ''readFile with an unknown FileHandle''), ps)
             else cached
         | _ \<Rightarrow> cached)"

text \<open>
  \<open>opendirPromise\<close> follows \<open>opendirSync\<close>; \<open>readDirectoryWithOpendir\<close> reads the native directory to
  its end like the synchronous form.
\<close>

definition readDirectoryWithOpendir :: "nat \<Rightarrow> (nat \<Rightarrow> thrown_error + dir_value option) \<Rightarrow>
    (thrown_error + dir_value list) option" where
  "readDirectoryWithOpendir n reads = readDirectoryWithOpendirSync n reads 0 []"

definition opendirPromise :: "'s facade \<Rightarrow> 's hook_state \<Rightarrow> path_like \<Rightarrow> options_input \<Rightarrow> thrown_error + unit \<Rightarrow>
    thrown_error + dir_value list \<Rightarrow> (thrown + dir_handle) \<times> 's hook_state" where
  "opendirPromise F hs input opts native listing =
     (let operation = opendirOperation opts in
      case replay F (hs_store hs) (PathInput input) operation (decode_entries F) of
        (Throws e, s1) \<Rightarrow> (Inl e, hs\<lparr>hs_store := s1\<rparr>)
      | (Replayed v, s1) \<Rightarrow>
          (Inr (CachedHandle (new_cached_dir input (case v of JsEntries es \<Rightarrow> es | _ \<Rightarrow> []))), hs\<lparr>hs_store := s1\<rparr>)
      | (Missing, s1) \<Rightarrow>
          (case fc_keyFor F s1 input of (k, s2) \<Rightarrow>
             (case native of
                Inr _ \<Rightarrow>
                  (Inr NativeHandle,
                   hs\<lparr>hs_store := (case (listing, k) of
                        (Inr es, Some k') \<Rightarrow>
                          if fc_mode F s2 = Record
                          then (case snapshotDirectoryResult F es s2 of (xs, s3) \<Rightarrow>
                                  fst (fc_set F s3 k' operation (Success (EntriesValue xs))))
                          else s2
                      | _ \<Rightarrow> s2)\<rparr>)
              | Inl e \<Rightarrow>
                  (case record_outcome F s2 k operation (Failure (snapshotError e)) of
                     (s3, None) \<Rightarrow> (Inl (FsThrown e), hs\<lparr>hs_store := s3\<rparr>)
                   | (s3, Some e') \<Rightarrow> (Inl (ArchiveThrown e'), hs\<lparr>hs_store := s3\<rparr>)))))"

text \<open>\<open>openPromise\<close>: a handle over recorded content, or a native one that is remembered.\<close>

definition openPromise :: "'s facade \<Rightarrow> 's promise_state \<Rightarrow> path_like \<Rightarrow> open_mode option \<Rightarrow> native_open \<Rightarrow>
    (thrown + int) \<times> 's promise_state" where
  "openPromise F ps input flags native =
     (let flags' = Some (nullish flags (FlagString ''r'')) in
      if \<not> readonlyFlags flags' then (Inl (unsupported ''fs/promises'' ''open with write-capable flags''), ps)
      else
        (let operation = openOperation flags' in
         case replayOpen F (hook_state.truncate ps) input operation of
           (OpenThrows e, hs1) \<Rightarrow> (Inl e, ps\<lparr>hs_store := hs_store hs1\<rparr>)
         | (Opened fd, hs1) \<Rightarrow>
             (Inr fd, ps\<lparr>hs_store := hs_store hs1, hs_descriptors := hs_descriptors hs1, hs_next := hs_next hs1,
                ps_cached := fd # ps_cached ps\<rparr>)
         | (NotFound, hs1) \<Rightarrow>
             (case fc_keyFor F (hs_store hs1) input of (k, s1) \<Rightarrow>
                (case no_open native of
                   Inr h \<Rightarrow>
                     (Inr h, ps\<lparr>hs_store := (case k of
                          Some k' \<Rightarrow>
                            if fc_mode F s1 = Record
                            then captureOpenedFile F (fst (fc_set F s1 k' operation (Success NullValue)))
                                   input (no_content native) (no_number_stat native) (no_bigint_stat native)
                            else s1
                        | None \<Rightarrow> s1),
                        ps_handles := h # ps_handles ps\<rparr>)
                 | Inl e \<Rightarrow>
                     (Inl (FsThrown e),
                      ps\<lparr>hs_store := fst (record_outcome F s1 k operation (Failure (snapshotError e)))\<rparr>)))))"

section \<open>Methods of cached file handles\<close>

text \<open>\<open>undefined\<close> bytes after the handle was closed.\<close>

definition handle_read :: "'s hook_state \<Rightarrow> int \<Rightarrow> buffer \<Rightarrow> nat option \<Rightarrow> nat option \<Rightarrow> int option \<Rightarrow>
    (thrown + (nat option \<times> buffer)) \<times> 's hook_state" where
  "handle_read hs fd target off len pos =
     (case readVirtual hs fd target off len pos of
        (Inl e, hs') \<Rightarrow> (Inl e, hs')
      | (Inr None, hs') \<Rightarrow> (Inr (None, target), hs')
      | (Inr (Some (n, target')), hs') \<Rightarrow> (Inr (Some n, target'), hs'))"

definition default_target :: buffer where
  "default_target = replicate 16384 (CHR 0x00)"

section \<open>Callback forms\<close>

text \<open>
  The options argument may be the callback itself; without a callback the call throws a
  \<open>TypeError\<close>.
\<close>

datatype 'o options_arg = OptionsGiven 'o | OptionsAreCallback

datatype callback_error = RequiresCallback string

definition requireCallback :: "'c option \<Rightarrow> string \<Rightarrow> callback_error + 'c" where
  "requireCallback callback operation =
     (case callback of None \<Rightarrow> Inl (RequiresCallback operation) | Some c \<Rightarrow> Inr c)"

definition callback_options :: "'o \<Rightarrow> 'o options_arg \<Rightarrow> bool \<Rightarrow> string \<Rightarrow> callback_error + 'o" where
  "callback_options undefined_options options has_callback operation =
     (case options of
        OptionsAreCallback \<Rightarrow> Inr undefined_options
      | OptionsGiven opts \<Rightarrow>
          (case requireCallback (if has_callback then Some () else None) operation of
             Inl e \<Rightarrow> Inl e | Inr _ \<Rightarrow> Inr opts))"

text \<open>What the callback gets once the promise has settled.\<close>

datatype callback_call = CallError thrown | CallValue js_value

fun settle_callback :: "thrown + js_value \<Rightarrow> callback_call" where
  "settle_callback (Inl e) = CallError e"
| "settle_callback (Inr v) = CallValue v"

text \<open>\<open>makeCallback\<close> of a promise function: the error of the arguments, or the call of the callback.\<close>

definition makeCallback :: "(path_like \<Rightarrow> options_input \<Rightarrow> (thrown + js_value) \<times> 's) \<Rightarrow> path_like \<Rightarrow>
    options_input options_arg \<Rightarrow> bool \<Rightarrow> callback_error + callback_call \<times> 's" where
  "makeCallback promiseFunction input options has_callback =
     (case callback_options NoOptions options has_callback ''filesystem callback operation'' of
        Inl e \<Rightarrow> Inl e
      | Inr opts \<Rightarrow> (case promiseFunction input opts of (r, s) \<Rightarrow> Inr (settle_callback r, s)))"

definition readdir_callback :: "'s facade \<Rightarrow> 's \<Rightarrow> path_like \<Rightarrow> options_input options_arg \<Rightarrow> bool \<Rightarrow>
    (options_input \<Rightarrow> native_result) \<Rightarrow> callback_error + callback_call \<times> 's" where
  "readdir_callback F s input options has_callback native =
     (case callback_options NoOptions options has_callback ''fs.readdir'' of
        Inl e \<Rightarrow> Inl e
      | Inr opts \<Rightarrow> (case runAsync F s (readdirPromise F input opts) (native opts) of (r, s') \<Rightarrow> Inr (settle_callback r, s')))"

definition access_callback :: "'s facade \<Rightarrow> 's \<Rightarrow> path_like \<Rightarrow> nat options_arg \<Rightarrow> bool \<Rightarrow>
    (nat \<Rightarrow> native_result) \<Rightarrow> callback_error + callback_call \<times> 's" where
  "access_callback F s input mode has_callback native =
     (case callback_options 0 mode has_callback ''fs.access'' of
        Inl e \<Rightarrow> Inl e
      | Inr m \<Rightarrow> (case runAsync F s (accessPromise input m) (native m) of (r, s') \<Rightarrow> Inr (settle_callback r, s')))"

text \<open>
  \<open>readFile\<close> with a callback: an unknown descriptor throws, a native one is left to the native
  function (\<open>None\<close>), a virtual one is read like \<open>readFileSync\<close>, a path like \<open>readFilePromise\<close>.
\<close>

datatype callback_throw = ThrowsCallback callback_error | ThrowsUnsupported thrown

definition readFile_callback :: "(string \<Rightarrow> buffer \<Rightarrow> string) \<Rightarrow> 's facade \<Rightarrow> 's promise_state \<Rightarrow> cache_input \<Rightarrow>
    options_input options_arg \<Rightarrow> bool \<Rightarrow> native_result \<Rightarrow>
    callback_throw + (callback_call option \<times> 's promise_state)" where
  "readFile_callback to_text F ps input options has_callback native =
     (case callback_options NoOptions options has_callback ''fs.readFile'' of
        Inl e \<Rightarrow> Inl (ThrowsCallback e)
      | Inr opts \<Rightarrow>
          (case input of
             FdInput fd \<Rightarrow>
               (case map_of (hs_descriptors ps) fd of
                  None \<Rightarrow> Inl (ThrowsUnsupported (unsupported ''fs'' ''readFile with an unknown descriptor''))
                | Some (NativeFd _ _) \<Rightarrow> Inr (None, ps)
                | Some (VirtualFd _ _ _ _ _) \<Rightarrow>
                    (case readFileSync to_text F (hook_state.truncate ps) input opts native of (r, hs) \<Rightarrow>
                       Inr (Some (settle_callback r), ps\<lparr>hs_store := hs_store hs, hs_descriptors := hs_descriptors hs\<rparr>)))
           | _ \<Rightarrow> (case readFilePromise to_text F ps input opts native of (r, ps') \<Rightarrow>
                     Inr (Some (settle_callback r), ps'))))"

text \<open>
  \<open>open\<close> with a callback: a path with a key is opened like \<open>openSync\<close>, another one natively, and
  its descriptor is tracked; the key is looked up again when the native call answers.
\<close>

definition open_callback :: "'s facade \<Rightarrow> 's hook_state \<Rightarrow> path_like \<Rightarrow> open_mode options_arg \<Rightarrow> bool \<Rightarrow>
    native_open \<Rightarrow> callback_throw + (thrown + int) \<times> 's hook_state" where
  "open_callback F hs input flags has_callback native =
     (let flags' = (case flags of OptionsAreCallback \<Rightarrow> FlagString ''r'' | OptionsGiven f \<Rightarrow> f) in
      if \<not> readonlyFlags (Some flags')
      then Inl (ThrowsUnsupported (unsupported ''fs'' ''open with write-capable flags''))
      else
        (case callback_options flags' flags has_callback ''fs.open'' of
           Inl e \<Rightarrow> Inl (ThrowsCallback e)
         | Inr _ \<Rightarrow>
             (case fc_keyFor F (hs_store hs) input of
                (Some k, s1) \<Rightarrow> Inr (openSync F (hs\<lparr>hs_store := s1\<rparr>) input (Some flags') native)
              | (None, s1) \<Rightarrow>
                  (case fc_keyFor F s1 input of (k, s2) \<Rightarrow>
                     (case no_open native of
                        Inr fd \<Rightarrow>
                          Inr (Inr fd,
                            hs\<lparr>hs_store := (case k of
                                 Some k' \<Rightarrow>
                                   if fc_mode F s2 = Record
                                   then captureOpenedFile F
                                          (fst (fc_set F s2 k' (openOperation (Some flags')) (Success NullValue)))
                                          input (no_content native) (no_number_stat native) (no_bigint_stat native)
                                   else s2
                               | None \<Rightarrow> s2),
                               hs_descriptors := js_set fd (NativeFd k 0) (hs_descriptors hs)\<rparr>)
                      | Inl e \<Rightarrow>
                          Inr (Inl (FsThrown e),
                            hs\<lparr>hs_store := fst (record_outcome F s2 k (openOperation (Some flags'))
                                 (Failure (snapshotError e)))\<rparr>))))))"

text \<open>
  \<open>read\<close>, \<open>fstat\<close> and \<open>close\<close> with callbacks: unknown descriptors throw, native ones go to the
  native function (\<open>None\<close>).
\<close>

definition read_callback :: "'s hook_state \<Rightarrow> int \<Rightarrow> buffer option \<Rightarrow> nat option \<Rightarrow> nat option \<Rightarrow> int option \<Rightarrow>
    thrown + ((thrown + nat) \<times> buffer) option \<times> 's hook_state" where
  "read_callback hs fd target off len pos =
     (case map_of (hs_descriptors hs) fd of
        None \<Rightarrow> Inl (unsupported ''fs'' ''read with an unknown descriptor'')
      | Some (NativeFd _ _) \<Rightarrow> Inr (None, hs)
      | Some (VirtualFd _ _ _ _ _) \<Rightarrow>
          (let target' = nullish target default_target in
           case readVirtual hs fd target' off len pos of
             (Inl e, hs') \<Rightarrow> Inr (Some (Inl e, target'), hs')
           | (Inr None, hs') \<Rightarrow> Inr (Some (Inr 0, target'), hs')
           | (Inr (Some (n, b)), hs') \<Rightarrow> Inr (Some (Inr n, b), hs')))"

definition fstat_callback :: "(string \<Rightarrow> string) \<Rightarrow> (string \<Rightarrow> string) \<Rightarrow> 's facade \<Rightarrow> 's hook_state \<Rightarrow> int \<Rightarrow> bool \<Rightarrow>
    bool option \<Rightarrow> thrown + stat_object \<Rightarrow> thrown + (thrown + stat_object) option" where
  "fstat_callback trunc_number ms_to_ns F hs fd bigint throwIfNoEntry native =
     (case map_of (hs_descriptors hs) fd of
        None \<Rightarrow> Inl (unsupported ''fs'' ''fstat with an unknown descriptor'')
      | Some (NativeFd _ _) \<Rightarrow> Inr None
      | Some (VirtualFd _ _ _ _ _) \<Rightarrow>
          Inr (Some (fstatSync trunc_number ms_to_ns F hs fd bigint throwIfNoEntry native)))"

definition close_callback :: "'s hook_state \<Rightarrow> int \<Rightarrow> (thrown + bool) \<times> 's hook_state" where
  "close_callback hs fd =
     (case map_of (hs_descriptors hs) fd of
        None \<Rightarrow> (Inl (unsupported ''fs'' ''close with an unknown descriptor''), hs)
      | Some t \<Rightarrow>
          (Inr (case t of NativeFd _ _ \<Rightarrow> True | VirtualFd _ _ _ _ _ \<Rightarrow> False),
           hs\<lparr>hs_descriptors := js_delete fd (hs_descriptors hs)\<rparr>))"

end
