(* ===== verification/FS_Install.thy ===== *)
theory FS_Install
  imports Prelude
begin

text \<open>
  \<open>packages/shared/src/fs-cache/hook.ts\<close>: how the functions of \<open>fs\<close> and \<open>fs/promises\<close> are
  replaced. A module is its exported names with their values; a patched function runs the
  cached implementation while an analysis is active and the native one otherwise. Every other
  function that is exported is guarded: it throws or rejects while an analysis is active.
  Metadata of functions (symbols, \<open>promisify.custom\<close>) is not part of the model.
\<close>

section \<open>Modules\<close>

text \<open>What a patched function does while an analysis is active.\<close>

datatype replacement = CachedFunction string | GuardThrows string | GuardRejects string

text \<open>The flag of a function tells whether it has a function \<open>native\<close> as a property.\<close>

datatype export_value = OtherExport | FunctionExport bool | SelectedExport replacement bool

type_synonym fs_module = "(string, export_value) js_map"

record patch_state =
  pt_module :: fs_module
  pt_patched :: "string list"

definition FS_NON_OPERATION_EXPORTS :: "string list" where
  "FS_NON_OPERATION_EXPORTS = [''F_OK'', ''R_OK'', ''W_OK'', ''X_OK'', ''constants'', ''promises'', ''Dir'', ''Dirent'',
     ''FSWatcher'', ''FileReadStream'', ''FileWriteStream'', ''ReadStream'', ''StatWatcher'', ''Stats'', ''WriteStream'',
     ''_StatWatcher'']"

definition FS_PROMISE_ASYNC_ITERABLE_OPERATIONS :: "string list" where
  "FS_PROMISE_ASYNC_ITERABLE_OPERATIONS = [''glob'', ''watch'']"

definition is_function :: "export_value \<Rightarrow> bool" where
  "is_function v \<longleftrightarrow> v \<noteq> OtherExport"

fun has_native :: "export_value \<Rightarrow> bool" where
  "has_native (FunctionExport n) = n"
| "has_native (SelectedExport r n) = n"
| "has_native OtherExport = False"

section \<open>Patching\<close>

text \<open>
  \<open>selectFilesystemImplementation\<close>: the selected function has a \<open>native\<close> property, selected in the
  same way, when both functions have one.
\<close>

definition selectFilesystemImplementation :: "replacement \<Rightarrow> bool \<Rightarrow> export_value \<Rightarrow> export_value" where
  "selectFilesystemImplementation r cached_native native = SelectedExport r (cached_native \<and> has_native native)"

datatype install_error = MissingProperty string

definition patch :: "patch_state \<Rightarrow> string \<Rightarrow> replacement \<Rightarrow> bool \<Rightarrow> install_error + patch_state" where
  "patch st name r cached_native =
     (case map_of (pt_module st) name of
        None \<Rightarrow> Inl (MissingProperty name)
      | Some v \<Rightarrow>
          Inr \<lparr>pt_module = js_set name (selectFilesystemImplementation r cached_native v) (pt_module st),
               pt_patched = name # pt_patched st\<rparr>)"

fun patch_all :: "patch_state \<Rightarrow> string list \<Rightarrow> install_error + patch_state" where
  "patch_all st [] = Inr st"
| "patch_all st (name # names) =
     (case patch st name (CachedFunction name) (name = ''realpath'' \<or> name = ''realpathSync'') of
        Inl e \<Rightarrow> Inl e | Inr st' \<Rightarrow> patch_all st' names)"

text \<open>The replacement of an operation the cache does not handle.\<close>

definition guard_replacement :: "bool \<Rightarrow> string \<Rightarrow> replacement" where
  "guard_replacement rejects name =
     (if rejects \<and> name \<notin> set FS_PROMISE_ASYNC_ITERABLE_OPERATIONS then GuardRejects name else GuardThrows name)"

fun guard_entries :: "(string, export_value) js_map \<Rightarrow> string list \<Rightarrow> bool \<Rightarrow> patch_state \<Rightarrow>
    install_error + patch_state" where
  "guard_entries [] nonOperations rejects st = Inr st"
| "guard_entries ((name, v) # rest) nonOperations rejects st =
     (if name \<in> set (pt_patched st) \<or> name \<in> set nonOperations then guard_entries rest nonOperations rejects st
      else if \<not> is_function v then guard_entries rest nonOperations rejects st
      else
        (case patch st name (guard_replacement rejects name) False of
           Inl e \<Rightarrow> Inl e
         | Inr st' \<Rightarrow> guard_entries rest nonOperations rejects st'))"

definition guardUnhandledFilesystemOperations :: "string list \<Rightarrow> bool \<Rightarrow> patch_state \<Rightarrow> install_error + patch_state" where
  "guardUnhandledFilesystemOperations nonOperations rejects st =
     guard_entries (pt_module st) nonOperations rejects st"

section \<open>Installation\<close>

definition patched_fs :: "string list" where
  "patched_fs = [''readFileSync'', ''readFile'', ''readdirSync'', ''readdir'', ''existsSync'', ''exists'', ''accessSync'',
     ''access'', ''statSync'', ''stat'', ''lstatSync'', ''lstat'', ''realpathSync'', ''realpath'', ''readlinkSync'',
     ''readlink'', ''opendirSync'', ''opendir'', ''openSync'', ''open'', ''readSync'', ''read'', ''fstatSync'', ''fstat'',
     ''closeSync'', ''close'', ''writeSync'']"

definition patched_promises :: "string list" where
  "patched_promises = [''readFile'', ''readdir'', ''access'', ''stat'', ''lstat'', ''realpath'', ''readlink'',
     ''opendir'', ''open'']"

definition installPatches :: "fs_module \<Rightarrow> fs_module \<Rightarrow> install_error + fs_module \<times> fs_module" where
  "installPatches fs_exports promise_exports =
     (case patch_all \<lparr>pt_module = fs_exports, pt_patched = []\<rparr> patched_fs of
        Inl e \<Rightarrow> Inl e
      | Inr a \<Rightarrow>
          (case patch_all \<lparr>pt_module = promise_exports, pt_patched = []\<rparr> patched_promises of
             Inl e \<Rightarrow> Inl e
           | Inr b \<Rightarrow>
               (case guardUnhandledFilesystemOperations FS_NON_OPERATION_EXPORTS False a of
                  Inl e \<Rightarrow> Inl e
                | Inr a' \<Rightarrow>
                    (case guardUnhandledFilesystemOperations [] True b of
                       Inl e \<Rightarrow> Inl e
                     | Inr b' \<Rightarrow> Inr (pt_module a', pt_module b')))))"

text \<open>The installation is kept under a global symbol: a second call returns it and patches nothing.\<close>

record modules_state =
  ms_fs :: fs_module
  ms_promises :: fs_module
  ms_installed :: bool

definition install_once :: "modules_state \<Rightarrow> install_error + modules_state" where
  "install_once m =
     (if ms_installed m then Inr m
      else (case installPatches (ms_fs m) (ms_promises m) of
              Inl e \<Rightarrow> Inl e
            | Inr (a, b) \<Rightarrow> Inr \<lparr>ms_fs = a, ms_promises = b, ms_installed = True\<rparr>))"

text \<open>What calling an export does.\<close>

datatype dispatch = RunsNative | RunsCached string | ThrowsUnsupportedOp string | RejectsUnsupportedOp string | NotCallable

fun run_replacement :: "replacement \<Rightarrow> dispatch" where
  "run_replacement (CachedFunction name) = RunsCached name"
| "run_replacement (GuardThrows name) = ThrowsUnsupportedOp name"
| "run_replacement (GuardRejects name) = RejectsUnsupportedOp name"

fun call_export :: "bool \<Rightarrow> export_value \<Rightarrow> dispatch" where
  "call_export active OtherExport = NotCallable"
| "call_export active (FunctionExport n) = RunsNative"
| "call_export active (SelectedExport r n) = (if active then run_replacement r else RunsNative)"

section \<open>Lemmas\<close>

lemma patch_result:
  assumes "patch st name r n = Inr st'"
  shows "pt_patched st' = name # pt_patched st \<and> js_keys (pt_module st') = js_keys (pt_module st)
    \<and> (\<exists>n'. map_of (pt_module st') = (map_of (pt_module st))(name \<mapsto> SelectedExport r n'))
    \<and> (\<exists>v. map_of (pt_module st) name = Some v)"
proof -
  obtain v where v: "map_of (pt_module st) name = Some v"
    and st': "st' = \<lparr>pt_module = js_set name (SelectedExport r (n \<and> has_native v)) (pt_module st), pt_patched = name # pt_patched st\<rparr>"
    using assms by (auto simp: patch_def selectFilesystemImplementation_def split: option.splits)
  have "name \<in> fst ` set (pt_module st)" using v by (force dest: map_of_SomeD)
  then have "js_keys (js_set name w (pt_module st)) = js_keys (pt_module st)" for w
    by (simp add: update_keys)
  then show ?thesis using v unfolding st' by (simp add: AList.update_conv') blast
qed

text \<open>What patching keeps: the names, what is not patched, and that patched names are selected.\<close>

definition patch_sound :: "fs_module \<Rightarrow> patch_state \<Rightarrow> bool" where
  "patch_sound m st \<longleftrightarrow> js_keys (pt_module st) = js_keys m
     \<and> (\<forall>name\<in>set (pt_patched st). \<exists>r n. map_of (pt_module st) name = Some (SelectedExport r n))
     \<and> (\<forall>name. name \<notin> set (pt_patched st) \<longrightarrow> map_of (pt_module st) name = map_of m name)"

lemma patch_sound_step: "patch_sound m st \<Longrightarrow> patch st name r n = Inr st' \<Longrightarrow> patch_sound m st'"
  using patch_result [of st name r n st'] by (auto simp: patch_sound_def)

lemma patch_all_sound:
  "patch_sound m st \<Longrightarrow> patch_all st names = Inr st' \<Longrightarrow>
     patch_sound m st' \<and> set (pt_patched st') = set names \<union> set (pt_patched st)
     \<and> (\<forall>name. name \<in> set names \<longrightarrow> (\<exists>n. map_of (pt_module st') name = Some (SelectedExport (CachedFunction name) n)))
     \<and> (\<forall>name. name \<notin> set names \<longrightarrow> map_of (pt_module st') name = map_of (pt_module st) name)"
proof (induction names arbitrary: st)
  case (Cons name names)
  then obtain st1 where st1: "patch st name (CachedFunction name) (name = ''realpath'' \<or> name = ''realpathSync'') = Inr st1"
    and rest: "patch_all st1 names = Inr st'"
    by (auto split: sum.splits)
  note p = patch_result [OF st1]
  note IH = Cons.IH [OF patch_sound_step [OF Cons.prems(1) st1] rest]
  show ?case using p IH by (cases "name \<in> set names") auto
qed simp

lemma guard_entries_sound:
  assumes "patch_sound m st" "guard_entries es nonOps rejects st = Inr st'"
  shows "patch_sound m st' \<and> set (pt_patched st) \<subseteq> set (pt_patched st')
     \<and> (\<forall>name v. (name, v) \<in> set es \<longrightarrow> is_function v \<longrightarrow> name \<in> set nonOps \<or> name \<in> set (pt_patched st'))
     \<and> (\<forall>name\<in>set (pt_patched st). map_of (pt_module st') name = map_of (pt_module st) name)"
  using assms
proof (induction es arbitrary: st)
  case (Cons e es)
  obtain name v where e: "e = (name, v)" by (cases e)
  show ?case
  proof (cases "name \<in> set (pt_patched st) \<or> name \<in> set nonOps \<or> \<not> is_function v")
    case True
    then have "guard_entries es nonOps rejects st = Inr st'" using Cons.prems(2) e by (auto split: if_splits)
    from Cons.IH [OF Cons.prems(1) this] True e show ?thesis by auto
  next
    case False
    then obtain st1 where st1: "patch st name (guard_replacement rejects name) False = Inr st1"
      and rest: "guard_entries es nonOps rejects st1 = Inr st'"
      using Cons.prems(2) e by (auto split: sum.splits)
    note p = patch_result [OF st1]
    note IH = Cons.IH [OF patch_sound_step [OF Cons.prems(1) st1] rest]
    show ?thesis using p IH False e by auto
  qed
qed auto

lemma patch_sound_start: "patch_sound m \<lparr>pt_module = m, pt_patched = []\<rparr>"
  by (simp add: patch_sound_def)

text \<open>One module: patched, then guarded.\<close>

lemma module_guarded:
  assumes "patch_all \<lparr>pt_module = m, pt_patched = []\<rparr> names = Inr a"
    and "guardUnhandledFilesystemOperations nonOps rejects a = Inr a'"
  shows "js_keys (pt_module a') = js_keys m
    \<and> (\<forall>name v. map_of (pt_module a') name = Some v \<longrightarrow> name \<notin> set nonOps \<longrightarrow> call_export True v \<noteq> RunsNative)
    \<and> (\<forall>name\<in>set names. \<exists>v. map_of (pt_module a') name = Some v \<and> call_export True v = RunsCached name)
    \<and> (\<forall>name v. map_of (pt_module a') name = Some v \<longrightarrow> v = OtherExport \<or> call_export False v = RunsNative)"
proof -
  note pa = patch_all_sound [OF patch_sound_start assms(1)]
  note ga = guard_entries_sound [OF conjunct1 [OF pa] assms(2) [unfolded guardUnhandledFilesystemOperations_def]]
  have sound: "patch_sound m a'" using ga by blast
  have native: "call_export True v \<noteq> RunsNative" if "map_of (pt_module a') name = Some v" "name \<notin> set nonOps" for name v
  proof (cases "name \<in> set (pt_patched a')")
    case True
    then have "\<exists>r n. v = SelectedExport r n" using sound that(1) by (fastforce simp: patch_sound_def)
    then obtain r n where v: "v = SelectedExport r n" by blast
    show ?thesis unfolding v by (cases r) simp_all
  next
    case False
    then have "name \<notin> set (pt_patched a)" using ga by blast
    then have "map_of (pt_module a) name = Some v"
      using False sound that(1) conjunct1 [OF pa] by (simp add: patch_sound_def)
    then have "\<not> is_function v" using ga False that(2) by (metis map_of_SomeD)
    then show ?thesis by (simp add: is_function_def)
  qed
  have "\<exists>v. map_of (pt_module a') name = Some v \<and> call_export True v = RunsCached name" if "name \<in> set names" for name
  proof -
    have "name \<in> set (pt_patched a)" using pa that by auto
    then show ?thesis using pa ga that by fastforce
  qed
  moreover have "v = OtherExport \<or> call_export False v = RunsNative" for v by (cases v) auto
  moreover have "js_keys (pt_module a') = js_keys m" using sound by (simp add: patch_sound_def)
  ultimately show ?thesis using native by blast
qed

lemma installPatches_parts:
  assumes "installPatches m p = Inr (m', p')"
  obtains a b a' b' where "patch_all \<lparr>pt_module = m, pt_patched = []\<rparr> patched_fs = Inr a"
    "guardUnhandledFilesystemOperations FS_NON_OPERATION_EXPORTS False a = Inr a'" "m' = pt_module a'"
    "patch_all \<lparr>pt_module = p, pt_patched = []\<rparr> patched_promises = Inr b"
    "guardUnhandledFilesystemOperations [] True b = Inr b'" "p' = pt_module b'"
  using assms by (auto simp: installPatches_def split: sum.splits)

end
