(* ===== verification/FS_Record.thy ===== *)
theory FS_Record
  imports FS_Executor
begin

text \<open>
  What recording promises: an analysis that replays the archive sees what the recorded one saw.
  The native filesystem is a parameter: which paths are present, which are present as links, for
  which \<open>existsSync\<close> is true, and the outcome of every operation on a present path. The interface between the executor
  and the archive is the locale \<open>observation_store\<close>; \<open>Archive\<close>'s model interprets it.
\<close>

section \<open>A filesystem that does not change\<close>

record native_fs =
  nf_present :: "string \<Rightarrow> bool"
  nf_linked :: "string \<Rightarrow> bool"
  nf_exists :: "string \<Rightarrow> bool"
  nf_outcome :: "string \<Rightarrow> operation_slot \<Rightarrow> stored_outcome"

text \<open>
  The operations the hook asks for: the name is known, and the operations that observe the
  link itself are written with their options.
\<close>

definition operation_name :: "string \<Rightarrow> string" where
  "operation_name operation = hd (split_on (CHR '':'') operation)"

definition slot_of :: "string \<Rightarrow> operation_slot" where
  "slot_of operation = (case operationSlot operation of Inl _ \<Rightarrow> ContentSlot | Inr slot \<Rightarrow> slot)"

definition valid_operation :: "string \<Rightarrow> bool" where
  "valid_operation operation \<longleftrightarrow>
     operationSlot operation = Inr (slot_of operation)
     \<and> (observesLink operation \<longleftrightarrow> operation_name operation = ''lstat'' \<or> operation_name operation = ''readlink'')"

text \<open>Whether an operation that follows links, or not, finds the path.\<close>

definition visible :: "native_fs \<Rightarrow> string \<Rightarrow> string \<Rightarrow> bool" where
  "visible N k operation \<longleftrightarrow> (if observesLink operation then nf_linked N k else nf_present N k)"

definition soft_operation :: "string \<Rightarrow> bool" where
  "soft_operation operation \<longleftrightarrow>
     (starts_with operation ''stat:'' \<or> starts_with operation ''lstat:'') \<and> ends_with operation '':soft''"

text \<open>
  What the native call leaves to be stored: an \<open>ENOENT\<close> failure for a missing path. \<open>existsSync\<close> is
  false for every error; where it is false only for a missing path, it is honest.
\<close>

definition honest :: "native_fs \<Rightarrow> string \<Rightarrow> bool" where
  "honest N k \<longleftrightarrow> nf_exists N k = nf_present N k"

definition native_outcome :: "native_fs \<Rightarrow> string \<Rightarrow> string \<Rightarrow> stored_outcome" where
  "native_outcome N k operation =
     (if operation = ''exists'' then Success (BoolValue (nf_exists N k))
      else if visible N k operation then nf_outcome N k (slot_of operation)
      else if soft_operation operation then Success NullValue
      else Failure (te_error (enoent (missing_syscall (operation_name operation)) ''$PATH'')))"

definition names_of :: "stored_outcome \<Rightarrow> stored_outcome" where
  "names_of out = the (namesFromEntries (Some out))"

text \<open>
  A link target that is present makes the link present; \<open>existsSync\<close> is only true for a path that is
  present; the outcome of an operation on a
  present path is not \<open>ENOENT\<close>; a file that can be read and stat'ed can be opened; the
  names of a directory are those of its entries.
\<close>

definition stable_fs :: "native_fs \<Rightarrow> bool" where
  "stable_fs N \<longleftrightarrow>
     (\<forall>k. (nf_present N k \<longrightarrow> nf_linked N k) \<and> (nf_exists N k \<longrightarrow> nf_present N k))
     \<and> (\<forall>k slot. case nf_outcome N k slot of
            Failure e \<Rightarrow> err_code e \<noteq> Some ''ENOENT'' | Success v \<Rightarrow> v \<noteq> NullValue \<or> (\<forall>f. slot \<noteq> MapSlot Stats f))
     \<and> (\<forall>k. nf_present N k \<and> is_ok (Some (nf_outcome N k ContentSlot))
            \<and> is_ok (Some (nf_outcome N k (MapSlot Stats ''stat:number'')))
            \<and> is_ok (Some (nf_outcome N k (MapSlot Stats ''stat:bigint'')))
            \<longrightarrow> nf_outcome N k (MapSlot Opens ''r'') = Success NullValue)
     \<and> (\<forall>k encoding. nf_outcome N k (MapSlot Directories (''flat:'' @ encoding @ '':names'')) =
            names_of (nf_outcome N k (MapSlot Directories (''flat:'' @ encoding @ '':entries''))))"

lemma observesLink_cases: "observesLink operation \<Longrightarrow> operation \<noteq> ''exists''"
  by (auto simp: observesLink_def starts_with_def)

lemma valid_not_exists: "valid_operation operation \<Longrightarrow> operation \<noteq> ''exists''"
  by (auto simp: valid_operation_def)

text \<open>The slot tells whether the operation observes the link.\<close>

definition link_slot :: "operation_slot \<Rightarrow> bool" where
  "link_slot slot \<longleftrightarrow>
     (case slot of MapSlot Stats k \<Rightarrow> starts_with k ''lstat:'' | MapSlot Readlinks k \<Rightarrow> True | _ \<Rightarrow> False)"

lemma link_slot_of:
  assumes "valid_operation operation"
  shows "link_slot (slot_of operation) \<longleftrightarrow> observesLink operation"
proof -
  obtain slot where s: "operationSlot operation = Inr slot" "slot_of operation = slot"
    and l: "observesLink operation \<longleftrightarrow> operation_name operation = ''lstat'' \<or> operation_name operation = ''readlink''"
    using assms by (simp add: valid_operation_def)
  show ?thesis
    unfolding l s(2) using s(1)
    by (auto simp: operationSlot_def operation_name_def Let_def link_slot_def starts_with_def split: if_splits)
qed

lemma stat_slot:
  assumes "valid_operation operation" "starts_with operation ''stat:'' \<or> starts_with operation ''lstat:''"
  shows "\<exists>f. slot_of operation = MapSlot Stats f"
proof -
  have "operation_name operation = ''stat'' \<or> operation_name operation = ''lstat''"
    using assms(2) split_on_cons [of "CHR '':''" "''stat''"] split_on_cons [of "CHR '':''" "''lstat''"]
    by (auto simp: operation_name_def starts_with_iff)
  then show ?thesis
    by (auto simp: slot_of_def operationSlot_def operation_name_def Let_def)
qed

lemma missing_native_outcome:
  assumes "stable_fs N" "valid_operation operation"
  shows "isMissingOutcome operation (native_outcome N k operation) \<longleftrightarrow> \<not> visible N k operation"
proof (cases "visible N k operation")
  case True
  then have out: "native_outcome N k operation = nf_outcome N k (slot_of operation)"
    using valid_not_exists [OF assms(2)] by (simp add: native_outcome_def)
  have st: "case nf_outcome N k (slot_of operation) of Failure e \<Rightarrow> err_code e \<noteq> Some ''ENOENT''
      | Success v \<Rightarrow> v \<noteq> NullValue \<or> (\<forall>f. slot_of operation \<noteq> MapSlot Stats f)"
    using assms(1) by (simp add: stable_fs_def)
  show ?thesis
  proof (cases "nf_outcome N k (slot_of operation)")
    case (Success v)
    then have "v = NullValue \<Longrightarrow> \<not> (starts_with operation ''stat:'' \<or> starts_with operation ''lstat:'')"
      using st stat_slot [OF assms(2)] by auto
    with True out Success show ?thesis
      by (cases v) (auto simp: isMissingOutcome_def)
  next
    case (Failure e)
    with True out st show ?thesis by (simp add: isMissingOutcome_def)
  qed
next
  case False
  then show ?thesis
    using valid_not_exists [OF assms(2)]
    by (auto simp: native_outcome_def isMissingOutcome_def soft_operation_def enoent_def)
qed

section \<open>The interface\<close>

text \<open>A store answers an operation on a key: with an outcome, or by knowing the path is absent.\<close>

definition answered :: "'s facade \<Rightarrow> 's \<Rightarrow> string \<Rightarrow> string \<Rightarrow> bool" where
  "answered F s k operation \<longleftrightarrow>
     (\<exists>out. fc_get F s k operation = Inr (Some out)) \<or> fc_getExists F s k operation = Some False"

text \<open>What a call on a key does to the store: \<open>replay\<close>, and on a miss the recording.\<close>

definition observe :: "'s facade \<Rightarrow> native_fs \<Rightarrow> string \<times> string \<Rightarrow> 's \<Rightarrow> 's" where
  "observe F N call s =
     (let (k, operation) = call in
      case replay_key F s k (StringPath k) operation (decodes (\<lambda>_. Undefined)) of
        (Missing, s') \<Rightarrow> fst (record_outcome F s' (Some k) operation (native_outcome N k operation))
      | (_, s') \<Rightarrow> s')"

text \<open>What the replay of an operation should be, given the filesystem that was recorded.\<close>

definition faithful :: "native_fs \<Rightarrow> string \<Rightarrow> path_like \<Rightarrow> string \<Rightarrow> (stored_value \<Rightarrow> thrown + js_value) \<Rightarrow> replayed" where
  "faithful N k input operation decode =
     (if visible N k operation
      then (case nf_outcome N k (slot_of operation) of
              Failure e \<Rightarrow> Throws (FsThrown (restoreError e input))
            | Success v \<Rightarrow> case_sum Throws Replayed (decode v))
      else missingPath operation input)"

text \<open>Agreement is about the paths for which \<open>existsSync\<close> is honest.\<close>

locale observation_store =
  fixes F :: "'s facade" and agrees :: "native_fs \<Rightarrow> 's \<Rightarrow> bool"
  assumes get_total: "valid_operation operation \<Longrightarrow> \<exists>r. fc_get F s k operation = Inr r"
    and get_agrees: "stable_fs N \<Longrightarrow> agrees N s \<Longrightarrow> honest N k \<Longrightarrow> valid_operation operation \<Longrightarrow>
      fc_get F s k operation = Inr (Some out) \<Longrightarrow>
      visible N k operation \<and> out = nf_outcome N k (slot_of operation)"
    and exists_agrees: "stable_fs N \<Longrightarrow> agrees N s \<Longrightarrow> honest N k \<Longrightarrow>
      fc_getExists F s k operation = Some False \<Longrightarrow> \<not> visible N k operation"
    and set_agrees: "stable_fs N \<Longrightarrow> agrees N s \<Longrightarrow> valid_operation operation \<or> operation = ''exists'' \<Longrightarrow>
      agrees N (fst (fc_set F s k operation (native_outcome N k operation)))"
    and set_answers: "valid_operation operation \<Longrightarrow>
      answered F (fst (fc_set F s k operation (native_outcome N k operation))) k operation"
    and set_keeps: "stable_fs N \<Longrightarrow> agrees N s \<Longrightarrow> honest N k \<Longrightarrow> valid_operation operation \<Longrightarrow>
      valid_operation operation' \<or> operation' = ''exists'' \<Longrightarrow> \<not> answered F s k' operation' \<Longrightarrow>
      answered F s k operation \<Longrightarrow>
      answered F (fst (fc_set F s k' operation' (native_outcome N k' operation'))) k operation"
    and set_mode: "fc_mode F (fst (fc_set F s k operation out)) = fc_mode F s"
    and count_mode: "fc_mode F (fc_hit F s) = fc_mode F s" "fc_mode F (fc_miss F s) = fc_mode F s"
    and count_agrees: "agrees N (fc_hit F s) = agrees N s" "agrees N (fc_miss F s) = agrees N s"
    and count_get: "fc_get F (fc_hit F s) = fc_get F s" "fc_get F (fc_miss F s) = fc_get F s"
    and count_exists: "fc_getExists F (fc_hit F s) = fc_getExists F s"
      "fc_getExists F (fc_miss F s) = fc_getExists F s"
begin

lemma answered_count [simp]:
  "answered F (fc_hit F s) k operation = answered F s k operation"
  "answered F (fc_miss F s) k operation = answered F s k operation"
  by (simp_all add: answered_def count_get count_exists)

lemma missingPath_not_Missing [simp]: "missingPath operation input \<noteq> Missing"
  by (simp add: missingPath_def)

text \<open>A miss happens exactly when the store does not answer.\<close>

lemma replay_Missing:
  assumes "fst (replay_key F s k input operation decode) = Missing"
  shows "snd (replay_key F s k input operation decode) = fc_miss F s"
    and "fc_getExists F s k operation \<noteq> Some False \<and> fc_get F s k operation = Inr None"
  using assms
  by (auto simp: replay_key_def Let_def split: sum.splits option.splits outcome.splits if_splits)

lemma replay_state:
  "snd (replay_key F s k input operation decode) \<in> {s, fc_hit F s, fc_miss F s}"
  by (auto simp: replay_key_def Let_def split: sum.splits option.splits outcome.splits)

lemma observe_cases:
  "observe F N (k, operation) s \<in> {s, fc_hit F s, fc_miss F s}
   \<or> \<not> answered F s k operation
     \<and> observe F N (k, operation) s = fst (fc_set F (fc_miss F s) k operation (native_outcome N k operation))"
proof (cases "replay_key F s k (StringPath k) operation (decodes (\<lambda>_. Undefined))")
  case (Pair r s')
  then show ?thesis
    using replay_state [of s k "StringPath k" operation "decodes (\<lambda>_. Undefined)"]
      replay_Missing [of s k "StringPath k" operation "decodes (\<lambda>_. Undefined)"]
    by (cases r) (auto simp: observe_def record_outcome_def answered_def)
qed

lemma observe_mode: "fc_mode F (observe F N call s) = fc_mode F s"
  using observe_cases [of N "fst call" "snd call" s] by (auto simp: set_mode count_mode)

lemma observe_agrees:
  assumes "stable_fs N" "agrees N s" "valid_operation operation \<or> operation = ''exists''"
  shows "agrees N (observe F N (k, operation) s)"
  using observe_cases [of N k operation s] set_agrees [OF assms(1) _ assms(3)] assms(2)
  by (auto simp: count_agrees)

lemma observe_keeps:
  assumes "stable_fs N" "agrees N s" "honest N k" "valid_operation operation"
    and "valid_operation operation' \<or> operation' = ''exists''" "answered F s k operation"
  shows "answered F (observe F N (k', operation') s) k operation"
  using observe_cases [of N k' operation' s] assms(6)
    set_keeps [OF assms(1) _ assms(3-5), where s = "fc_miss F s" and k' = k'] assms(2)
  by (auto simp: count_agrees)

lemma observe_answers:
  assumes "stable_fs N" "agrees N s" "honest N k" "valid_operation operation" "fc_mode F s = Record"
  shows "answered F (observe F N (k, operation) s) k operation"
proof (cases "answered F s k operation")
  case True
  then show ?thesis using assms by (simp add: observe_keeps)
next
  case False
  then have "fc_get F s k operation = Inr None" "fc_getExists F s k operation \<noteq> Some False"
    using get_total [OF assms(4), of s k] by (auto simp: answered_def)
  then have "observe F N (k, operation) s =
      fst (fc_set F (fc_miss F s) k operation (native_outcome N k operation))"
    using assms(5) by (simp add: observe_def replay_key_def Let_def count_mode record_outcome_def)
  then show ?thesis using assms(4) by (simp add: set_answers)
qed

text \<open>An answered operation replays as the filesystem had it.\<close>

lemma replay_faithful:
  assumes "stable_fs N" "agrees N s" "honest N k" "valid_operation operation" "answered F s k operation"
    and "\<And>s v. decode s v = dec v"
  shows "fst (replay_key F s k input operation decode) = faithful N k input operation dec"
proof -
  obtain r where r: "fc_get F s k operation = Inr r" using get_total [OF assms(4)] by blast
  show ?thesis
  proof (cases r)
    case None
    then have "fc_getExists F s k operation = Some False" using r assms(5) by (simp add: answered_def)
    with None r exists_agrees [OF assms(1-3)] show ?thesis
      by (simp add: replay_key_def faithful_def)
  next
    case (Some out)
    with r get_agrees [OF assms(1-4)] assms(6) show ?thesis
      by (auto simp: replay_key_def faithful_def Let_def split: outcome.split)
  qed
qed

lemma record_all_invariant:
  assumes "stable_fs N" "agrees N s"
    and "\<forall>(k, operation)\<in>set calls. valid_operation operation \<or> operation = ''exists''"
  shows "agrees N (fold (observe F N) calls s) \<and> fc_mode F (fold (observe F N) calls s) = fc_mode F s
    \<and> (\<forall>k operation. honest N k \<longrightarrow> valid_operation operation \<longrightarrow> answered F s k operation \<longrightarrow>
         answered F (fold (observe F N) calls s) k operation)"
  using assms(2,3)
proof (induction calls arbitrary: s)
  case (Cons c calls)
  obtain k operation where c: "c = (k, operation)" by (cases c)
  have "agrees N (observe F N c s)"
    unfolding c using Cons.prems c by (intro observe_agrees assms(1)) auto
  moreover have "answered F (observe F N c s) k' operation'"
    if "honest N k'" "valid_operation operation'" "answered F s k' operation'" for k' operation'
    unfolding c using Cons.prems c that by (intro observe_keeps assms(1)) auto
  ultimately show ?case using Cons by (simp add: observe_mode)
qed simp

lemma recorded_answered:
  assumes "stable_fs N" "agrees N s" "fc_mode F s = Record"
    and "\<forall>(k, operation)\<in>set calls. valid_operation operation \<or> operation = ''exists''"
    and "honest N k" "(k, operation) \<in> set calls" "valid_operation operation"
  shows "agrees N (fold (observe F N) calls s) \<and> answered F (fold (observe F N) calls s) k operation"
proof -
  obtain xs ys where calls: "calls = xs @ (k, operation) # ys" using assms(6) by (meson split_list)
  let ?s = "fold (observe F N) xs s"
  have xs: "agrees N ?s \<and> fc_mode F ?s = fc_mode F s"
    using record_all_invariant [OF assms(1,2), of xs] assms(4) calls by auto
  then have ag: "agrees N (observe F N (k, operation) ?s)"
    using assms(1,7) by (intro observe_agrees) auto
  have "answered F (observe F N (k, operation) ?s) k operation"
    using xs assms(1,3,5,7) by (intro observe_answers) auto
  with record_all_invariant [OF assms(1) ag, of ys] assms(4,5,7) calls show ?thesis by auto
qed

end

section \<open>The archive is such a store\<close>

definition archive_agrees :: "native_fs \<Rightarrow> archive \<Rightarrow> bool" where
  "archive_agrees N ar \<longleftrightarrow>
     (\<forall>k slot out. honest N k \<longrightarrow> slot_view ar k slot = Some out \<longrightarrow>
        (if link_slot slot then nf_linked N k else nf_present N k) \<and> out = nf_outcome N k slot)
     \<and> (\<forall>k nd. map_of (ar_entries ar) k = Some nd \<longrightarrow> wf_node nd
          \<and> (honest N k \<longrightarrow> (\<forall>b. nd_exists nd = Some b \<longrightarrow> b = nf_present N k)
               \<and> (\<forall>b. nd_linkExists nd = Some b \<longrightarrow> b = nf_linked N k)))
     \<and> (\<forall>k\<in>set (ar_missingPaths ar). honest N k \<longrightarrow> \<not> nf_linked N k)"

lemma archive_agrees_slot:
  "archive_agrees N ar \<Longrightarrow> honest N k \<Longrightarrow> slot_view ar k slot = Some out \<Longrightarrow>
     (if link_slot slot then nf_linked N k else nf_present N k) \<and> out = nf_outcome N k slot"
  unfolding archive_agrees_def by blast

lemma archive_agrees_node:
  "archive_agrees N ar \<Longrightarrow> map_of (ar_entries ar) k = Some nd \<Longrightarrow>
     wf_node nd \<and> (honest N k \<longrightarrow>
       (nd_exists nd = Some b \<longrightarrow> b = nf_present N k) \<and> (nd_linkExists nd = Some c \<longrightarrow> c = nf_linked N k))"
  by (auto simp: archive_agrees_def)

lemma archive_agrees_missing:
  "archive_agrees N ar \<Longrightarrow> honest N k \<Longrightarrow> k \<in> set (ar_missingPaths ar) \<Longrightarrow> \<not> nf_linked N k"
  unfolding archive_agrees_def by blast

lemma stable_linked: "stable_fs N \<Longrightarrow> nf_present N k \<Longrightarrow> nf_linked N k"
  by (simp add: stable_fs_def)

lemma stable_open:
  "stable_fs N \<Longrightarrow> nf_present N k \<Longrightarrow> is_ok (Some (nf_outcome N k ContentSlot)) \<Longrightarrow>
     is_ok (Some (nf_outcome N k (MapSlot Stats ''stat:number''))) \<Longrightarrow>
     is_ok (Some (nf_outcome N k (MapSlot Stats ''stat:bigint''))) \<Longrightarrow>
     nf_outcome N k (MapSlot Opens ''r'') = Success NullValue"
  unfolding stable_fs_def by blast

lemma slot_of_open_r [simp]: "slot_of ''open:r'' = MapSlot Opens ''r''"
  by (simp add: slot_of_def operationSlot_def)

lemma readdir_names_slot:
  assumes "operation_name operation = ''readdir''"
  shows "names_view nd operation \<noteq> None \<Longrightarrow> \<exists>encoding. slot_of operation = MapSlot Directories (''flat:'' @ encoding @ '':names'')
     \<and> names_view nd operation = namesFromEntries (readSlot nd (MapSlot Directories (''flat:'' @ encoding @ '':entries'')))"
proof -
  assume nv: "names_view nd operation \<noteq> None"
  obtain parts where p: "split_on (CHR '':'') operation = ''readdir'' # parts"
    using assms by (cases "split_on (CHR '':'') operation") (auto simp: operation_name_def)
  have at: "part_at (''readdir'' # parts) 1 = part_at parts 0" "part_at (''readdir'' # parts) 2 = part_at parts 1"
    "part_at (''readdir'' # parts) 3 = part_at parts 2"
    by (simp_all add: eval_nat_numeral)
  have "nullish (part_at parts 1) ''false'' = ''false'' \<and> nullish (part_at parts 2) ''false'' = ''false''"
    using nv by (auto simp: names_view_def p at Let_def split: if_splits)
  then show ?thesis
    using nv by (intro exI [of _ "nullish (part_at parts 0) ''utf8''"])
      (auto simp: slot_of_def operationSlot_def names_view_def p at Let_def simp del: readSlot.simps)
qed

lemma namesFromEntries_None [simp]: "namesFromEntries out = None \<longleftrightarrow> out = None"
  by (cases out rule: namesFromEntries.cases) auto

lemma archive_get_valid:
  assumes "valid_operation operation"
  shows "archive_get ar k operation = Inr
    (case map_of (ar_entries ar) k of None \<Rightarrow> None
     | Some node \<Rightarrow>
        (case readSlot node (slot_of operation) of
           Some out \<Rightarrow> Some out
         | None \<Rightarrow>
            if operation = ''open:r'' \<and> is_ok (nd_content node)
               \<and> is_ok (readSlot node (MapSlot Stats ''stat:number''))
               \<and> is_ok (readSlot node (MapSlot Stats ''stat:bigint''))
            then Some (Success NullValue)
            else if starts_with operation ''readdir:'' then names_view node operation else None))"
  using valid_not_exists [OF assms] assms
  by (auto simp: archive_get_def valid_operation_def Let_def simp del: readSlot.simps split: option.split)

lemma agrees_is_ok:
  assumes "archive_agrees N ar" "honest N k" "is_ok (slot_view ar k slot)" "\<not> link_slot slot"
  shows "nf_present N k \<and> is_ok (Some (nf_outcome N k slot))"
proof -
  obtain v where v: "slot_view ar k slot = Some (Success v)"
    using assms(3) by (auto simp: is_ok_def split: option.splits outcome.splits)
  have "nf_present N k \<and> Success v = nf_outcome N k slot"
    using archive_agrees_slot [OF assms(1,2) v] assms(4) by simp
  then show ?thesis by (metis assms(3) v)
qed

lemma archive_get_agrees:
  assumes N: "stable_fs N" and ag: "archive_agrees N ar" "honest N k" and op: "valid_operation operation"
    and get: "archive_get ar k operation = Inr (Some out)"
  shows "visible N k operation \<and> out = nf_outcome N k (slot_of operation)"
proof -
  obtain nd where nd: "map_of (ar_entries ar) k = Some nd"
    using get by (auto simp: archive_get_valid [OF op] split: option.splits)
  have view: "readSlot nd slot = slot_view ar k slot" for slot by (simp add: slot_view_def nd)
  have vis: "visible N k operation = (if link_slot (slot_of operation) then nf_linked N k else nf_present N k)"
    by (simp add: visible_def link_slot_of [OF op])
  consider (slot) "slot_view ar k (slot_of operation) = Some out"
    | (open_r) "operation = ''open:r''" "is_ok (slot_view ar k ContentSlot)"
        "is_ok (slot_view ar k (MapSlot Stats ''stat:number''))"
        "is_ok (slot_view ar k (MapSlot Stats ''stat:bigint''))" "out = Success NullValue"
    | (names) "starts_with operation ''readdir:''" "names_view nd operation = Some out"
    using get by (auto simp: archive_get_valid [OF op] nd view [symmetric] simp del: readSlot.simps(2)
        split: option.splits if_splits)
  then show ?thesis
  proof cases
    case slot
    with archive_agrees_slot [OF ag(1,2)] vis show ?thesis by metis
  next
    case open_r
    have "nf_present N k \<and> is_ok (Some (nf_outcome N k ContentSlot))"
      "is_ok (Some (nf_outcome N k (MapSlot Stats ''stat:number'')))"
      "is_ok (Some (nf_outcome N k (MapSlot Stats ''stat:bigint'')))"
      using agrees_is_ok [OF ag open_r(2)] agrees_is_ok [OF ag open_r(3)] agrees_is_ok [OF ag open_r(4)]
      by (simp_all add: link_slot_def starts_with_def)
    then show ?thesis
      using open_r(1,5) vis stable_open [OF N, of k] by (simp add: link_slot_def)
  next
    case names
    then have "operation_name operation = ''readdir''"
      using split_on_cons [of "CHR '':''" "''readdir''"] by (auto simp: operation_name_def starts_with_iff)
    with names obtain encoding where e: "slot_of operation = MapSlot Directories (''flat:'' @ encoding @ '':names'')"
      "namesFromEntries (readSlot nd (MapSlot Directories (''flat:'' @ encoding @ '':entries''))) = Some out"
      using readdir_names_slot [of operation nd] by auto
    then obtain out' where o': "slot_view ar k (MapSlot Directories (''flat:'' @ encoding @ '':entries'')) = Some out'"
      unfolding view by (metis namesFromEntries_None not_None_eq)
    from archive_agrees_slot [OF ag o'] have "nf_present N k"
      "out' = nf_outcome N k (MapSlot Directories (''flat:'' @ encoding @ '':entries''))"
      by (simp_all add: link_slot_def)
    moreover have "names_of out' = out" using e(2) o' unfolding view by (simp add: names_of_def)
    ultimately show ?thesis
      using N e(1) vis by (simp add: stable_fs_def link_slot_def)
  qed
qed

lemma archive_set_agrees:
  assumes N: "stable_fs N" and ag: "archive_agrees N ar"
    and op: "valid_operation operation \<or> operation = ''exists''"
  shows "archive_agrees N (fst (archive_set ar k operation (native_outcome N k operation)))"
proof -
  let ?out = "native_outcome N k operation"
  let ?ar = "fst (archive_set ar k operation ?out)"
  let ?old = "fst (node_for_set ar k)"
  have old_flags: "(nd_exists ?old = Some b \<longrightarrow> b = nf_present N k) \<and> (nd_linkExists ?old = Some c \<longrightarrow> c = nf_linked N k)"
    if "honest N k" for b c
    using archive_agrees_node [OF ag, of k _ b c] stable_linked [OF N] archive_agrees_missing [OF ag that] that
    by (auto simp: node_for_set_def split: option.split)
  have old_wf: "wf_node ?old"
    using archive_agrees_node [OF ag, of k] by (auto simp: node_for_set_def split: option.split)
  have new_flags: "(nd_exists (node_after_set ar k operation ?out) = Some b \<longrightarrow> b = nf_present N k)
      \<and> (nd_linkExists (node_after_set ar k operation ?out) = Some c \<longrightarrow> c = nf_linked N k)" if "honest N k" for b c
  proof (cases "operation = ''exists''")
    case True
    then have out: "?out = Success (BoolValue (nf_present N k))" using that by (simp add: native_outcome_def honest_def)
    show ?thesis
      unfolding node_after_set_exists out using True old_flags [OF that] stable_linked [OF N, of k]
      by (auto simp: updateExistence_def Let_def)
  next
    case False
    then have v: "valid_operation operation" using op by simp
    note m = missing_native_outcome [OF N v, of k]
    show ?thesis
      unfolding node_after_set_exists m using False old_flags [OF that, of b c] stable_linked [OF N, of k]
      by (cases ?out) (auto simp: updateExistence_def Let_def visible_def split: if_splits)
  qed
  have new_wf: "wf_node (node_after_set ar k operation ?out)"
    using old_wf by (auto simp: node_after_set_def Let_def split: sum.split)
  have slots: "(if link_slot slot then nf_linked N k' else nf_present N k') \<and> out = nf_outcome N k' slot"
    if "honest N k'" "slot_view ?ar k' slot = Some out" for k' slot out
  proof (cases "k' = k \<and> operation \<noteq> ''exists'' \<and> \<not> isMissingOutcome operation ?out \<and> operationSlot operation = Inr slot")
    case True
    then have v: "valid_operation operation" and s: "slot_of operation = slot"
      using op by (auto simp: slot_of_def)
    from True that(2) have "out = ?out" by (simp add: slot_view_set)
    moreover have "visible N k operation" using True missing_native_outcome [OF N v, of k] by simp
    ultimately show ?thesis
      using True s link_slot_of [OF v] by (simp add: native_outcome_def visible_def)
  next
    case False
    then have "slot_view ar k' slot = Some out" using that(2) by (simp add: slot_view_set del: de_Morgan_conj)
    then show ?thesis by (rule archive_agrees_slot [OF ag that(1)])
  qed
  have nodes: "wf_node nd \<and> (honest N k' \<longrightarrow>
      (nd_exists nd = Some b \<longrightarrow> b = nf_present N k') \<and> (nd_linkExists nd = Some c \<longrightarrow> c = nf_linked N k'))"
    if "map_of (ar_entries ?ar) k' = Some nd" for k' nd b c
    using that new_flags [of b c] new_wf archive_agrees_node [OF ag, of k' nd b c]
    by (auto simp: archive_set_lookup split: if_splits)
  have miss: "\<not> nf_linked N k'" if "honest N k'" "k' \<in> set (ar_missingPaths ?ar)" for k'
  proof -
    have "k' \<in> set (ar_missingPaths ar)"
      using that(2) set_remove1_subset [of k "ar_missingPaths ar"]
      by (auto simp: archive_set_missing node_for_set_def split: option.splits if_splits)
    then show ?thesis by (rule archive_agrees_missing [OF ag that(1)])
  qed
  show ?thesis
    unfolding archive_agrees_def using slots nodes miss by blast
qed

lemma archive_exists_agrees:
  assumes "stable_fs N" "archive_agrees N ar" "honest N k" "getExists ar k operation = Some False"
  shows "\<not> visible N k operation"
  using assms(3,4) archive_agrees_node [OF assms(2), of k _ False False] stable_linked [OF assms(1), of k]
    archive_agrees_missing [OF assms(2,3)]
  by (auto simp: getExists_def visible_def Let_def split: if_splits option.splits)

lemma archive_set_answers:
  assumes v: "valid_operation operation"
  shows "answered (archive_facade cwd) (fst (archive_set ar k operation out)) k operation"
proof (cases "isMissingOutcome operation out")
  case True
  then show ?thesis
    using valid_not_exists [OF v]
    by (auto simp: answered_def archive_facade_def getExists_set node_after_set_exists updateExistence_def Let_def
        split: outcome.split)
next
  case False
  have s: "operationSlot operation = Inr (slot_of operation)" using v by (simp add: valid_operation_def)
  have "archive_get (fst (archive_set ar k operation out)) k operation = Inr (Some out)"
    by (rule archive_get_recorded [OF s]) (use False s valid_not_exists [OF v] in \<open>simp add: slot_view_set\<close>)
  then show ?thesis by (auto simp: answered_def archive_facade_def)
qed

lemma names_view_if: "\<exists>c S. \<forall>nd. names_view nd operation = (if c then namesFromEntries (readSlot nd S) else None)"
  unfolding names_view_def Let_def by blast

lemma updateExistence_keeps:
  "nd_exists (updateExistence nd op out m) = None \<Longrightarrow> nd_exists nd = None"
  "nd_linkExists (updateExistence nd op out m) = None \<Longrightarrow> nd_linkExists nd = None"
  by (auto simp: updateExistence_def Let_def split: outcome.splits bool.splits if_splits)

text \<open>What was answered stays answered.\<close>

lemma archive_set_keeps:
  assumes N: "stable_fs N" and ag: "archive_agrees N ar" and h: "honest N k" and v: "valid_operation operation"
    and v': "valid_operation operation' \<or> operation' = ''exists''"
    and new: "\<not> answered (archive_facade cwd) ar k' operation'"
    and ans: "answered (archive_facade cwd) ar k operation"
  shows "answered (archive_facade cwd) (fst (archive_set ar k' operation' (native_outcome N k' operation'))) k operation"
proof -
  let ?ar = "fst (archive_set ar k' operation' (native_outcome N k' operation'))"
  have ag': "archive_agrees N ?ar" by (rule archive_set_agrees [OF N ag v'])
  consider (get) out where "archive_get ar k operation = Inr (Some out)"
    | (absent) "getExists ar k operation = Some False"
    using ans by (auto simp: answered_def archive_facade_def)
  then show ?thesis
  proof cases
    case get
    have grow: "slot_view ?ar k slot = slot_view ar k slot \<or> (\<exists>o'. slot_view ?ar k slot = Some o')" for slot
      by (auto simp: slot_view_set)
    have same: "slot_view ar k slot = Some o' \<Longrightarrow> slot_view ?ar k slot = Some o'" for slot o'
      using grow [of slot] archive_agrees_slot [OF ag' h, of slot] archive_agrees_slot [OF ag h, of slot] by auto
    obtain nd where nd: "map_of (ar_entries ar) k = Some nd"
      using get by (auto simp: archive_get_valid [OF v] split: option.splits)
    obtain nd' where nd': "map_of (ar_entries ?ar) k = Some nd'"
      using nd by (cases "k = k'") (simp_all add: archive_set_lookup)
    have view: "readSlot nd slot = Some o' \<Longrightarrow> readSlot nd' slot = Some o'" for slot o'
      using same [of slot o'] nd nd' by (simp add: slot_view_def)
    have ok: "is_ok (readSlot nd slot) \<Longrightarrow> is_ok (readSlot nd' slot)" for slot
      using view [of slot] by (cases "readSlot nd slot") (auto simp: is_ok_def)
    have names: "names_view nd' operation = Some o'" if "names_view nd operation = Some o'" for o'
    proof -
      note o' = that
      obtain c S where nv: "\<And>nd. names_view nd operation = (if c then namesFromEntries (readSlot nd S) else None)"
        using names_view_if by blast
      with o' obtain out' where "readSlot nd S = Some out'"
        by (cases "readSlot nd S") (auto split: if_splits)
      with nv view [of S out'] o' show "names_view nd' operation = Some o'" by (cases c) simp_all
    qed
    have "\<exists>o'. archive_get ?ar k operation = Inr (Some o')"
      using get view [of "slot_of operation"] ok [of ContentSlot] ok [of "MapSlot Stats ''stat:number''"]
        ok [of "MapSlot Stats ''stat:bigint''"] names
      by (auto simp: archive_get_valid [OF v] nd nd' simp del: readSlot.simps(2) split: option.splits if_splits)
    then show ?thesis by (auto simp: answered_def archive_facade_def)
  next
    case absent
    have inv: "\<not> visible N k operation" by (rule archive_exists_agrees [OF N ag h absent])
    have "getExists ?ar k operation = Some False"
    proof (cases "k = k'")
      case True
      have "\<not> (map_of (ar_entries ar) k = None \<and> k \<in> set (ar_missingPaths ar))"
        using new True by (auto simp: answered_def archive_facade_def getExists_def Let_def)
      then obtain nd where nd: "map_of (ar_entries ar) k = Some nd"
        "(if observesLink operation then nd_linkExists nd else nd_exists nd) = Some False"
        using absent by (auto simp: getExists_def Let_def split: if_splits option.splits)
      let ?new = "node_after_set ar k operation' (native_outcome N k operation')"
      have look: "map_of (ar_entries ?ar) k = Some ?new" using True by (simp add: archive_set_lookup)
      have "(if observesLink operation then nd_linkExists ?new else nd_exists ?new) \<noteq> None"
      proof (cases "observesLink operation")
        case True
        have "nd_linkExists ?new = None \<Longrightarrow> nd_linkExists nd = None"
          by (rule updateExistence_keeps(2)) (simp add: node_after_set_exists node_for_set_def nd(1))
        with True nd(2) show ?thesis by auto
      next
        case False
        have "nd_exists ?new = None \<Longrightarrow> nd_exists nd = None"
          by (rule updateExistence_keeps(1)) (simp add: node_after_set_exists node_for_set_def nd(1))
        with False nd(2) show ?thesis by auto
      qed
      then have "(if observesLink operation then nd_linkExists ?new else nd_exists ?new) = Some False"
        using archive_agrees_node [OF ag' look, of True True] inv h by (auto simp: visible_def split: if_splits)
      then show ?thesis using True by (auto simp: getExists_set Let_def)
    next
      case False
      then have "map_of (ar_entries ar) k = None \<and> k \<in> set (ar_missingPaths ar) \<longleftrightarrow>
          map_of (ar_entries ar) k = None \<and> k \<in> set (snd (node_for_set ar k'))"
        by (auto simp: node_for_set_def split: option.splits)
      then have "getExists ?ar k operation = getExists ar k operation"
        unfolding getExists_set using False by (simp add: getExists_def Let_def split: option.split)
      with absent show ?thesis by simp
    qed
    then show ?thesis by (simp add: answered_def archive_facade_def)
  qed
qed

interpretation archive_store: observation_store "archive_facade cwd" archive_agrees for cwd
proof unfold_locales
  show "\<exists>r. fc_get (archive_facade cwd) s k operation = Inr r" if "valid_operation operation" for s k operation
    using archive_get_valid [OF that] by (simp add: archive_facade_def)
  show "visible N k operation \<and> out = nf_outcome N k (slot_of operation)"
    if "stable_fs N" "archive_agrees N s" "honest N k" "valid_operation operation"
      "fc_get (archive_facade cwd) s k operation = Inr (Some out)" for N s k operation out
    using archive_get_agrees [OF that(1-4)] that(5) by (simp add: archive_facade_def)
  show "\<not> visible N k operation"
    if "stable_fs N" "archive_agrees N s" "honest N k" "fc_getExists (archive_facade cwd) s k operation = Some False"
    for N s k operation
    using archive_exists_agrees [OF that(1-3)] that(4) by (simp add: archive_facade_def)
  show "archive_agrees N (fst (fc_set (archive_facade cwd) s k operation (native_outcome N k operation)))"
    if "stable_fs N" "archive_agrees N s" "valid_operation operation \<or> operation = ''exists''" for N s k operation
    using archive_set_agrees [OF that] by (simp add: archive_facade_def)
  show "answered (archive_facade cwd) (fst (fc_set (archive_facade cwd) s k operation (native_outcome N k operation))) k operation"
    if "valid_operation operation" for N s k operation
    using archive_set_answers [OF that] by (simp add: archive_facade_def)
  show "answered (archive_facade cwd) (fst (fc_set (archive_facade cwd) s k' operation' (native_outcome N k' operation'))) k operation"
    if "stable_fs N" "archive_agrees N s" "honest N k" "valid_operation operation"
      "valid_operation operation' \<or> operation' = ''exists''"
      "\<not> answered (archive_facade cwd) s k' operation'" "answered (archive_facade cwd) s k operation"
    for N s k k' operation operation'
    using archive_set_keeps [OF that] by (simp add: archive_facade_def)
  have count: "archive_agrees N (recordCacheHit s) = archive_agrees N s"
    "archive_agrees N (recordCacheMiss s) = archive_agrees N s" for N s
    by (simp_all add: archive_agrees_def slot_view_def recordCacheHit_def recordCacheMiss_def)
  then show "archive_agrees N (fc_hit (archive_facade cwd) s) = archive_agrees N s"
    "archive_agrees N (fc_miss (archive_facade cwd) s) = archive_agrees N s" for N s
    by (simp_all add: archive_facade_def)
  have "archive_get (recordCacheHit s) k op = archive_get s k op" "archive_get (recordCacheMiss s) k op = archive_get s k op"
    "getExists (recordCacheHit s) k op = getExists s k op" "getExists (recordCacheMiss s) k op = getExists s k op" for s k op
    by (simp_all add: archive_get_def getExists_def recordCacheHit_def recordCacheMiss_def)
  then show "fc_get (archive_facade cwd) (fc_hit (archive_facade cwd) s) = fc_get (archive_facade cwd) s"
    "fc_get (archive_facade cwd) (fc_miss (archive_facade cwd) s) = fc_get (archive_facade cwd) s"
    "fc_getExists (archive_facade cwd) (fc_hit (archive_facade cwd) s) = fc_getExists (archive_facade cwd) s"
    "fc_getExists (archive_facade cwd) (fc_miss (archive_facade cwd) s) = fc_getExists (archive_facade cwd) s" for s
    by (simp_all add: archive_facade_def fun_eq_iff)
qed (simp_all add: archive_facade_def recordCacheHit_def recordCacheMiss_def)

end
