(* ===== verification/FS_Fidelity.thy ===== *)
theory FS_Fidelity
  imports FS_Record Archive_Reload
begin

text \<open>
  From the recorded analysis to the replayed one: the archive is flushed, loaded by another
  process, and answers every recorded operation as the filesystem did.
\<close>

section \<open>Existence after reloading\<close>

lemma merged_own:
  assumes "wf_archive own" "map_of (ar_entries own) k = Some nd"
  shows "map_of (merged_entries own loaded) k = Some (mergeNodes (nullish (kept_node own loaded k) empty_node) nd)"
    "k \<notin> set (merged_missing own loaded)"
proof -
  show "map_of (merged_entries own loaded) k = Some (mergeNodes (nullish (kept_node own loaded k) empty_node) nd)"
    using assms by (simp add: map_of_merged_entries)
  have "k \<in> set (js_keys (ar_entries own))"
    using assms(2) by (metis fst_conv image_eqI list.set_map map_of_SomeD)
  then show "k \<notin> set (merged_missing own loaded)" by (simp add: set_merged_missing)
qed

text \<open>What a loaded archive knows of a key, in terms of the merge that was flushed.\<close>

definition reloads :: "archive \<Rightarrow> archive \<Rightarrow> archive \<Rightarrow> bool" where
  "reloads own loaded ar \<longleftrightarrow>
     (\<forall>k. if k \<in> set (merged_missing own loaded)
           then map_of (ar_entries ar) k = None \<and> k \<in> set (ar_missingPaths ar)
           else (case map_of (merged_entries own loaded) k of
               None \<Rightarrow> map_of (ar_entries ar) k = None \<and> k \<notin> set (ar_missingPaths ar)
             | Some nd \<Rightarrow>
                 if only_missing nd then map_of (ar_entries ar) k = None \<and> k \<in> set (ar_missingPaths ar)
                 else (\<exists>nd'. map_of (ar_entries ar) k = Some nd' \<and> archived nd nd')
                   \<and> k \<notin> set (ar_missingPaths ar)))"

lemma reloadsD:
  "reloads own loaded ar \<Longrightarrow>
   if k \<in> set (merged_missing own loaded)
           then map_of (ar_entries ar) k = None \<and> k \<in> set (ar_missingPaths ar)
           else (case map_of (merged_entries own loaded) k of
               None \<Rightarrow> map_of (ar_entries ar) k = None \<and> k \<notin> set (ar_missingPaths ar)
             | Some nd \<Rightarrow>
                 if only_missing nd then map_of (ar_entries ar) k = None \<and> k \<in> set (ar_missingPaths ar)
                 else (\<exists>nd'. map_of (ar_entries ar) k = Some nd' \<and> archived nd nd')
                   \<and> k \<notin> set (ar_missingPaths ar))"
  unfolding reloads_def by blast

lemma flush_reloads:
  assumes "wf_archive own" "wf_archive loaded"
    and "flushed decode cmp env d own loaded p" "decode bytes = Some p"
    and "map_of d' (ar_archivePath fresh) = Some (Some bytes)"
    and "ar_entries fresh = []" "ar_missingPaths fresh = []"
  shows "\<exists>ar. load decode d' fresh = Inr ar \<and> reloads own loaded ar"
  using flush_then_load [OF assms] unfolding reloads_def by blast

lemma reloads_exists:
  assumes "reloads own loaded ar" "wf_archive own" "getExists own k operation = Some b"
  shows "getExists ar k operation = Some b"
proof (cases "map_of (ar_entries own) k")
  case None
  then have "k \<in> set (ar_missingPaths own)" and b: "b = False"
    using assms(3) by (auto simp: getExists_def Let_def split: if_splits)
  moreover have "k \<notin> set (js_keys (ar_entries own))" using None by (simp add: map_of_eq_None_iff)
  ultimately have "k \<in> set (merged_missing own loaded)" by (simp add: set_merged_missing)
  then have "map_of (ar_entries ar) k = None \<and> k \<in> set (ar_missingPaths ar)"
    using assms(1) by (auto simp: reloads_def)
  with b show ?thesis by (simp add: getExists_def)
next
  case (Some nd)
  let ?m = "mergeNodes (nullish (kept_node own loaded k) empty_node) nd"
  have v: "if only_missing ?m then map_of (ar_entries ar) k = None \<and> k \<in> set (ar_missingPaths ar)
      else (\<exists>nd'. map_of (ar_entries ar) k = Some nd' \<and> archived ?m nd') \<and> k \<notin> set (ar_missingPaths ar)"
    using reloadsD [OF assms(1), of k] merged_own [OF assms(2) Some, of loaded] by simp
  have flag: "(if observesLink operation then nd_linkExists nd else nd_exists nd) = Some b"
    using assms(3) Some by (simp add: getExists_def Let_def split: if_splits)
  then have m: "(if observesLink operation then nd_linkExists ?m else nd_exists ?m) = Some b"
    by (auto simp: override_def split: if_splits)
  show ?thesis
  proof (cases "only_missing ?m")
    case True
    then have "b = False" using m by (auto simp: only_missing_def split: if_splits)
    with True v show ?thesis by (simp add: getExists_def)
  next
    case False
    with v obtain nd' where nd': "map_of (ar_entries ar) k = Some nd'" "archived ?m nd'" by auto
    then show ?thesis
      using m by (simp add: getExists_def Let_def archived_def split: if_splits)
  qed
qed

lemma reloads_slot:
  assumes "reloads own loaded ar" "wf_archive own" "wf_archive loaded"
  shows "slot_view ar k slot = map_option normal_outcome
    (override (case kept_node own loaded k of None \<Rightarrow> None | Some nd \<Rightarrow> readSlot nd slot) (slot_view own k slot))"
proof -
  show ?thesis by (rule slots_of_view [OF assms(2,3) reloadsD [OF assms(1)]])
qed

section \<open>Agreement after reloading\<close>

text \<open>The filesystem as the archive can tell it: outcomes in the form they have on disk.\<close>

definition archived_fs :: "native_fs \<Rightarrow> native_fs" where
  "archived_fs N = N\<lparr>nf_outcome := \<lambda>k slot. normal_outcome (nf_outcome N k slot)\<rparr>"

lemma archived_fs_simps [simp]:
  "nf_present (archived_fs N) = nf_present N" "nf_linked (archived_fs N) = nf_linked N"
  "nf_exists (archived_fs N) = nf_exists N" "honest (archived_fs N) k = honest N k"
  "nf_outcome (archived_fs N) k slot = normal_outcome (nf_outcome N k slot)"
  "visible (archived_fs N) k operation = visible N k operation"
  by (simp_all add: archived_fs_def visible_def honest_def)

lemma is_ok_normal [simp]: "is_ok (Some (normal_outcome out)) = is_ok (Some out)"
  by (cases out) (simp_all add: is_ok_def normal_outcome_def)

lemma normal_value_Null [simp]: "normal_value v = NullValue \<longleftrightarrow> v = NullValue"
  by (cases v rule: normal_value.cases) auto

lemma names_of_normal: "names_of (normal_outcome out) = normal_outcome (names_of out)"
proof (cases out)
  case (Success v)
  then show ?thesis
    by (cases v rule: normal_value.cases) (simp_all add: names_of_def normal_outcome_def)
qed (simp add: names_of_def normal_outcome_def)

lemma stable_archived: "stable_fs N \<Longrightarrow> stable_fs (archived_fs N)"
proof -
  assume N: "stable_fs N"
  have c: "case normal_outcome (nf_outcome N k slot) of
      Failure e \<Rightarrow> err_code e \<noteq> Some ''ENOENT'' | Success v \<Rightarrow> v \<noteq> NullValue \<or> (\<forall>f. slot \<noteq> MapSlot Stats f)" for k slot
  proof -
    have "case nf_outcome N k slot of
      Failure e \<Rightarrow> err_code e \<noteq> Some ''ENOENT'' | Success v \<Rightarrow> v \<noteq> NullValue \<or> (\<forall>f. slot \<noteq> MapSlot Stats f)"
      using N unfolding stable_fs_def by blast
    then show ?thesis by (cases "nf_outcome N k slot") (simp_all add: normal_outcome_def)
  qed
  have n: "nf_outcome N k (MapSlot Directories (''flat:'' @ encoding @ '':names'')) =
      names_of (nf_outcome N k (MapSlot Directories (''flat:'' @ encoding @ '':entries'')))" for k encoding
    using N unfolding stable_fs_def by blast
  have o: "normal_outcome (nf_outcome N k (MapSlot Opens ''r'')) = Success NullValue"
    if "nf_present N k" "is_ok (Some (nf_outcome N k ContentSlot))"
      "is_ok (Some (nf_outcome N k (MapSlot Stats ''stat:number'')))"
      "is_ok (Some (nf_outcome N k (MapSlot Stats ''stat:bigint'')))" for k
    using stable_open [OF N that] by (simp add: normal_outcome_def)
  have e: "nf_exists N k \<Longrightarrow> nf_present N k" for k using N by (simp add: stable_fs_def)
  show ?thesis
    unfolding stable_fs_def archived_fs_simps is_ok_normal
    by (intro conjI allI impI stable_linked [OF N] c o) (simp_all add: n [simplified] names_of_normal e)
qed

text \<open>
  A path that is only recorded as missing, as a link that dangles may be, counts as having no link
  either once the archive was reloaded.
\<close>

definition reloaded_fs :: "native_fs \<Rightarrow> archive \<Rightarrow> native_fs" where
  "reloaded_fs N ar =
     (archived_fs N)\<lparr>nf_linked := \<lambda>k. nf_linked N k \<and> (k \<in> set (ar_missingPaths ar) \<longrightarrow> nf_present N k)\<rparr>"

lemma reloaded_fs_simps [simp]:
  "nf_present (reloaded_fs N ar) = nf_present N" "nf_exists (reloaded_fs N ar) = nf_exists N"
  "nf_linked (reloaded_fs N ar) k \<longleftrightarrow> nf_linked N k \<and> (k \<in> set (ar_missingPaths ar) \<longrightarrow> nf_present N k)"
  "nf_outcome (reloaded_fs N ar) k slot = normal_outcome (nf_outcome N k slot)"
  "honest (reloaded_fs N ar) k = honest N k"
  by (simp_all add: reloaded_fs_def honest_def)

lemma stable_reloaded:
  assumes "stable_fs N"
  shows "stable_fs (reloaded_fs N ar)"
  using stable_archived [OF assms] stable_linked [OF assms] unfolding stable_fs_def by simp

lemma reloads_agrees:
  assumes r: "reloads own loaded ar" and wf: "wf_archive own" "wf_archive loaded"
    and ag: "archive_agrees N own" "archive_agrees N loaded"
    and N: "stable_fs N"
  shows "archive_agrees (reloaded_fs N ar) ar"
proof -
  have kept: "map_of (ar_entries loaded) k = Some nd" if "kept_node own loaded k = Some nd" for k nd
    using that by (simp add: kept_node_def split: if_splits)
  have merged: "(nd_exists nd = Some b \<longrightarrow> b = nf_present N k) \<and> (nd_linkExists nd = Some c \<longrightarrow> c = nf_linked N k)"
    if "honest N k" "map_of (merged_entries own loaded) k = Some nd" for k nd b c
  proof (cases "map_of (ar_entries own) k")
    case None
    with that(2) have "kept_node own loaded k = Some nd" by (simp add: map_of_merged_entries [OF wf(1)])
    from archive_agrees_node [OF ag(2) kept [OF this], of b c] that(1) show ?thesis by blast
  next
    case (Some own_nd)
    then have nd: "nd = mergeNodes (nullish (kept_node own loaded k) empty_node) own_nd"
      using that(2) merged_own(1) [OF wf(1) Some, of loaded] by simp
    have "(nd_exists (nullish (kept_node own loaded k) empty_node) = Some b \<longrightarrow> b = nf_present N k)
      \<and> (nd_linkExists (nullish (kept_node own loaded k) empty_node) = Some c \<longrightarrow> c = nf_linked N k)"
      using archive_agrees_node [OF ag(2) kept, of k _ b c] that(1) by (cases "kept_node own loaded k") auto
    with archive_agrees_node [OF ag(1) Some, of b c] that(1) show ?thesis
      by (auto simp: nd override_def split: option.splits)
  qed
  have slots: "(if link_slot slot then nf_linked N k else nf_present N k) \<and> out = normal_outcome (nf_outcome N k slot)"
    if "honest N k" "slot_view ar k slot = Some out" for k slot out
  proof -
    note sv = that(2)
    obtain out' where o': "override (case kept_node own loaded k of None \<Rightarrow> None | Some nd \<Rightarrow> readSlot nd slot)
        (slot_view own k slot) = Some out'" "out = normal_outcome out'"
      using sv unfolding reloads_slot [OF r wf] map_option_eq_Some by blast
    then consider "slot_view own k slot = Some out'" | "slot_view loaded k slot = Some out'"
      using kept by (auto simp: override_def slot_view_def split: option.splits)
    then have "(if link_slot slot then nf_linked N k else nf_present N k) \<and> out' = nf_outcome N k slot"
      by cases (use archive_agrees_slot [OF ag(1) that(1)] archive_agrees_slot [OF ag(2) that(1)] in blast)+
    with o'(2) show ?thesis by simp
  qed
  note view = reloadsD [OF r]
  have entry: "k \<notin> set (ar_missingPaths ar)" if "map_of (ar_entries ar) k = Some nd'" for k nd'
    using view [of k] that by (auto split: if_splits option.splits)
  have nodes: "wf_node nd' \<and> (honest N k \<longrightarrow>
      (nd_exists nd' = Some b \<longrightarrow> b = nf_present N k) \<and> (nd_linkExists nd' = Some c \<longrightarrow> c = nf_linked N k))"
    if "map_of (ar_entries ar) k = Some nd'" for k nd' b c
    using view [of k] that merged [of k _ b c]
    by (auto simp: archived_def split: if_splits option.splits)
  have absent: "\<not> nf_present N k" if h: "honest N k" and k: "k \<in> set (ar_missingPaths ar)" for k
  proof (cases "k \<in> set (merged_missing own loaded)")
    case True
    then have "\<not> nf_linked N k"
      using archive_agrees_missing [OF ag(1) h] archive_agrees_missing [OF ag(2) h]
      by (auto simp: set_merged_missing)
    then show ?thesis using stable_linked [OF N] by blast
  next
    case False
    then obtain nd where "map_of (merged_entries own loaded) k = Some nd" "only_missing nd"
      using view [of k] k by (auto split: option.splits if_splits)
    then show ?thesis using merged [OF h, of nd False] by (auto simp: only_missing_def)
  qed
  have slot_entry: "\<exists>nd'. map_of (ar_entries ar) k = Some nd'" if "slot_view ar k slot = Some out" for k slot out
    using that by (auto simp: slot_view_def split: option.splits)
  show ?thesis
    unfolding archive_agrees_def reloaded_fs_simps
    using slots nodes absent entry slot_entry by meson
qed

text \<open>What was read from the archive that was flushed has an entry in the one that was loaded.\<close>

lemma reloads_entry:
  assumes r: "reloads own loaded ar" and wf: "wf_archive own" "wf_archive loaded"
    and v: "valid_operation operation" and get: "archive_get own k operation = Inr (Some out)"
  shows "\<exists>nd nd'. map_of (ar_entries own) k = Some nd \<and> map_of (ar_entries ar) k = Some nd'
    \<and> (\<forall>slot o'. readSlot nd slot = Some o' \<longrightarrow> readSlot nd' slot = Some (normal_outcome o'))"
proof -
  obtain nd where nd: "map_of (ar_entries own) k = Some nd"
    using get by (auto simp: archive_get_valid [OF v] split: option.splits)
  have view: "slot_view ar k slot = Some (normal_outcome o')" if "readSlot nd slot = Some o'" for slot o'
    using reloads_slot [OF r wf, of k slot] that nd by (simp add: slot_view_def override_def)
  have some: "\<exists>slot o'. readSlot nd slot = Some o'"
  proof (rule ccontr)
    assume "\<not> (\<exists>slot o'. readSlot nd slot = Some o')"
    then have none: "readSlot nd slot = None" for slot by (cases "readSlot nd slot") auto
    then have "names_view nd operation = None" using none unfolding names_view_def Let_def by (simp del: readSlot.simps)
    then show False using get none none [of ContentSlot]
      by (auto simp: archive_get_valid [OF v] nd is_ok_def simp del: readSlot.simps(2) split: option.splits if_splits)
  qed
  then obtain slot o' where "readSlot nd slot = Some o'" by blast
  from view [OF this] obtain nd' where nd': "map_of (ar_entries ar) k = Some nd'"
    by (cases "map_of (ar_entries ar) k") (simp_all add: slot_view_def)
  then show ?thesis using nd view by (auto simp: slot_view_def)
qed

lemma reloads_answers:
  assumes r: "reloads own loaded ar" and wf: "wf_archive own" "wf_archive loaded"
    and v: "valid_operation operation" and ans: "answered (archive_facade cwd) own k operation"
  shows "answered (archive_facade cwd') ar k operation"
proof -
  consider (get) out where "archive_get own k operation = Inr (Some out)"
    | (absent) "getExists own k operation = Some False"
    using ans by (auto simp: answered_def archive_facade_def)
  then show ?thesis
  proof cases
    case absent
    then show ?thesis
      using reloads_exists [OF r wf(1)] by (simp add: answered_def archive_facade_def)
  next
    case get
    from reloads_entry [OF r wf v get] obtain nd nd' where nd: "map_of (ar_entries own) k = Some nd"
      and nd': "map_of (ar_entries ar) k = Some nd'"
      and view': "\<And>slot o'. readSlot nd slot = Some o' \<Longrightarrow> readSlot nd' slot = Some (normal_outcome o')"
      by blast
    have ok: "is_ok (readSlot nd' slot)" if "is_ok (readSlot nd slot)" for slot
      using view' [of slot] that by (cases "readSlot nd slot") (simp_all add: is_ok_def normal_outcome_def split: outcome.splits)
    have names: "names_view nd' operation \<noteq> None" if "names_view nd operation \<noteq> None"
    proof -
      obtain c S where nv: "\<And>nd. names_view nd operation = (if c then namesFromEntries (readSlot nd S) else None)"
        using names_view_if by blast
      with that have "c" "readSlot nd S \<noteq> None"
        by (cases c; simp) (metis namesFromEntries_None not_None_eq nv that)
      with nv view' [of S] show ?thesis by (cases "readSlot nd S") simp_all
    qed
    have "\<exists>o'. archive_get ar k operation = Inr (Some o')"
      using get view' [of "slot_of operation"] ok [of ContentSlot] ok [of "MapSlot Stats ''stat:number''"]
        ok [of "MapSlot Stats ''stat:bigint''"] names
      by (auto simp: archive_get_valid [OF v] nd nd' simp del: readSlot.simps(2) split: option.splits if_splits)
    then show ?thesis by (auto simp: answered_def archive_facade_def)
  qed
qed

section \<open>The recorded archive is well formed\<close>

text \<open>The filesystem gives each operation a value of its kind.\<close>

definition typed_fs :: "native_fs \<Rightarrow> bool" where
  "typed_fs N \<longleftrightarrow> (\<forall>k slot. slot_fits slot (nf_outcome N k slot))"

lemma native_fits:
  assumes "stable_fs N" "typed_fs N" "valid_operation operation \<or> operation = ''exists''"
  shows "operation_fits operation (native_outcome N k operation)"
proof (cases "operation = ''exists''")
  case True
  then show ?thesis by (simp add: operation_fits_def)
next
  case False
  then have v: "valid_operation operation" using assms(3) by simp
  show ?thesis
  proof (cases "visible N k operation")
    case True
    then have "native_outcome N k operation = nf_outcome N k (slot_of operation)"
      using False by (simp add: native_outcome_def)
    moreover have "slot_fits (slot_of operation) (nf_outcome N k (slot_of operation))"
      using assms(2) by (simp add: typed_fs_def)
    moreover have "operationSlot operation = Inr (slot_of operation)" using v by (simp add: valid_operation_def)
    ultimately show ?thesis
      by (simp add: operation_fits_def slot_fits_def split: operation_slot.splits)
  next
    case no: False
    then show ?thesis using missing_native_outcome [OF assms(1) v] by (simp add: operation_fits_def)
  qed
qed

lemma observe_archive:
  assumes "stable_fs N" "typed_fs N" "wf_archive ar" "valid_operation operation \<or> operation = ''exists''"
  shows "wf_archive (observe (archive_facade cwd) N (k, operation) ar)"
proof -
  have count: "wf_archive (recordCacheHit ar)" "wf_archive (recordCacheMiss ar)"
    using assms(3) by (simp_all add: wf_archive_def recordCacheHit_def recordCacheMiss_def)
  then have "wf_archive (fst (archive_set (recordCacheMiss ar) k operation (native_outcome N k operation)))"
    using native_fits [OF assms(1,2,4)] by (intro wf_archive_set)
  with count assms(3) show ?thesis
    using archive_store.observe_cases [of cwd N k operation ar] by (auto simp: archive_facade_def)
qed

lemma observe_paths:
  "ar_archivePath (observe (archive_facade cwd) N call ar) = ar_archivePath ar"
  "ar_mode (observe (archive_facade cwd) N call ar) = ar_mode ar"
  "ar_rootDir (observe (archive_facade cwd) N call ar) = ar_rootDir ar"
  using archive_store.observe_cases [of cwd N "fst call" "snd call" ar]
  by (auto simp: archive_facade_def recordCacheHit_def recordCacheMiss_def)

lemma record_archive:
  assumes "stable_fs N" "typed_fs N" "wf_archive ar"
    and "list_all (\<lambda>(k, operation). valid_operation operation \<or> operation = ''exists'') calls"
  shows "wf_archive (fold (observe (archive_facade cwd) N) calls ar)
    \<and> ar_archivePath (fold (observe (archive_facade cwd) N) calls ar) = ar_archivePath ar
    \<and> ar_mode (fold (observe (archive_facade cwd) N) calls ar) = ar_mode ar"
  using assms(3,4)
proof (induction calls arbitrary: ar)
  case (Cons c calls)
  obtain k operation where "c = (k, operation)" by (cases c)
  with Cons show ?case by (simp add: observe_archive [OF assms(1,2)] observe_paths)
qed simp

lemma archive_set_dirty:
  "ar_dirty ar \<or> (\<exists>slot. operationSlot operation = Inr slot) \<Longrightarrow> ar_dirty (fst (archive_set ar k operation out))"
  by (auto simp: archive_set_def Let_def split: prod.split sum.split)

lemma observe_dirty: "ar_dirty ar \<Longrightarrow> ar_dirty (observe (archive_facade cwd) N call ar)"
  using archive_store.observe_cases [of cwd N "fst call" "snd call" ar]
  by (auto simp: archive_facade_def recordCacheHit_def recordCacheMiss_def archive_set_dirty)

lemma new_archive_fields:
  assumes "new_archive cwd d native now archivePath rootDir = Inr ar"
  shows "ar_entries ar = [] \<and> ar_missingPaths ar = [] \<and> ar_archivePath ar = path_resolve cwd archivePath
    \<and> ar_rootDir ar = path_resolve cwd rootDir \<and> \<not> ar_dirty ar \<and> ar_pathKeys ar = []
    \<and> ar_mode ar = (if disk_exists d (path_resolve cwd archivePath) then Replay else Record)"
  using assms by (auto simp: new_archive_def Let_def split: if_splits prod.splits)

lemma new_archive_agrees:
  "ar_entries ar = [] \<Longrightarrow> ar_missingPaths ar = [] \<Longrightarrow> archive_agrees N ar \<and> wf_archive ar"
  by (simp add: archive_agrees_def wf_archive_def slot_view_def)

section \<open>Properties\<close>

lemma reloaded_faithful:
  assumes N: "stable_fs N" "honest N k" and wf: "wf_archive own" "wf_archive loaded"
    and r: "reloads own loaded ar" and ag: "archive_agrees N own"
    and v: "valid_operation operation" and ans: "answered (archive_facade cwd) own k operation"
  shows "faithful (reloaded_fs N ar) k input operation dec = faithful (archived_fs N) k input operation dec"
proof -
  have "k \<notin> set (ar_missingPaths ar)" if "nf_linked N k" "observesLink operation"
  proof -
    have "visible N k operation" using that by (simp add: visible_def)
    then obtain out where "archive_get own k operation = Inr (Some out)"
      using ans archive_exists_agrees [OF N(1) ag N(2)] by (auto simp: answered_def archive_facade_def)
    from reloads_entry [OF r wf v this] show ?thesis
      using reloadsD [OF r, of k] by (auto split: if_splits option.splits)
  qed
  then have "visible (reloaded_fs N ar) k operation = visible N k operation" by (auto simp: visible_def)
  then show ?thesis by (simp add: faithful_def)
qed

lemma record_flush_replay_honest:
  assumes N: "stable_fs N" "typed_fs N" "honest N k"
    and start: "new_archive cwd d native now archivePath rootDir = Inr start" "ar_mode start = Record"
    and calls: "list_all (\<lambda>(k, operation). valid_operation operation \<or> operation = ''exists'') calls"
    and own: "own = fold (observe (archive_facade cwd) N) calls start" "ar_dirty own"
    and native: "writes_progress env"
    and codec: "\<And>p. serializeProtobufDocument (flush_document cmp (fe_now env) own
        (own\<lparr>ar_entries := [], ar_missingPaths := []\<rparr>)) = Inr p \<Longrightarrow> decode (encode p) = Some p"
    and fl: "flush encode decode cmp env locks d own = Some (d', own', None)"
    and again: "new_archive cwd' d' native' now' archivePath' rootDir' = Inr fresh"
      "path_resolve cwd' archivePath' = path_resolve cwd archivePath"
    and call: "(k, operation) \<in> set calls" "valid_operation operation"
  shows "ar_mode fresh = Replay \<and> (\<exists>ar. load decode d' fresh = Inr ar
    \<and> fst (replay_key (archive_facade cwd') ar k input operation (\<lambda>_. dec)) =
        faithful (archived_fs N) k input operation dec)"
proof -
  note s = new_archive_fields [OF start(1)]
  note f = new_archive_fields [OF again(1)]
  have set_calls: "\<forall>(k, operation)\<in>set calls. valid_operation operation \<or> operation = ''exists''"
    using calls by (simp add: list_all_iff)
  have sa: "archive_agrees N start" "wf_archive start" using s new_archive_agrees by simp_all
  have wf: "wf_archive own" and path: "ar_archivePath own = ar_archivePath start" and mode: "ar_mode own = Record"
    using record_archive [OF N(1,2) sa(2) calls, of cwd] start(2) own(1) by simp_all
  let ?loaded = "own\<lparr>ar_entries := [], ar_missingPaths := []\<rparr>"
  have ag: "archive_agrees N own" and ans: "answered (archive_facade cwd) own k operation"
    using archive_store.recorded_answered [OF N(1) sa(1) _ set_calls N(3) call, of cwd] start(2) own(1)
    by (simp_all add: archive_facade_def)
  have empty: "archive_agrees N ?loaded" "wf_archive ?loaded" using new_archive_agrees by simp_all
  have "\<not> disk_exists d (ar_archivePath own)" using s start(2) path by (auto split: if_splits)
  then have lo: "load decode (js_set (lock_path (ar_archivePath own)) (Some '''') d) ?loaded = Inr ?loaded"
    using mode by (simp add: load_def disk_exists_def AList.update_conv)
  from flush_result [OF native, of encode decode cmp locks d own] fl mode own(2)
  obtain p where p: "flushed decode cmp env d own ?loaded p"
    "map_of d' (ar_archivePath own) = Some (Some (encode p))"
    using lo by (auto simp: flushed_def)
  then have dec: "decode (encode p) = Some p" using codec by (simp add: flushed_def)
  have fp: "ar_archivePath fresh = ar_archivePath own" using f again(2) s path by simp
  obtain ar where ar: "load decode d' fresh = Inr ar" "reloads own ?loaded ar"
    using flush_reloads [OF wf empty(2) p(1) dec, of d' fresh] p(2) f fp by auto
  have "fst (replay_key (archive_facade cwd') ar k input operation (\<lambda>_. dec)) =
      faithful (reloaded_fs N ar) k input operation dec"
    by (rule archive_store.replay_faithful [OF stable_reloaded [OF N(1)] reloads_agrees [OF ar(2) wf empty(2) ag empty(1) N(1)]])
      (use N(3) call(2) reloads_answers [OF ar(2) wf empty(2) call(2) ans] in simp_all)
  moreover have "ar_mode fresh = Replay"
    using f p(2) fp by (simp add: disk_exists_def)
  ultimately show ?thesis
    using ar(1) reloaded_faithful [OF N(1,3) wf empty(2) ar(2) ag call(2) ans] by auto
qed

text \<open>What \<open>existsSync\<close> answers for a path does not matter if it is not called for it.\<close>

lemma observe_cong:
  assumes "\<forall>(k, operation)\<in>set calls. native_outcome N' k operation = native_outcome N k operation"
  shows "fold (observe F N') calls s = fold (observe F N) calls s"
  using assms
proof (induction calls arbitrary: s)
  case (Cons c calls)
  then have "observe F N' c s = observe F N c s" by (cases c) (auto simp: observe_def split: prod.split replayed.split)
  then show ?case using Cons by simp
qed simp

text \<open>
  C1. Record, flush, load, replay. One process records calls against a filesystem that does
  not change, in a new archive, and flushes it without an error. Another process, with a
  checkout anywhere else, opens the same archive file: it is in replay mode, the file loads,
  and every recorded call other than \<open>existsSync\<close> replays as the filesystem had it: the recorded value or
  error, and an \<open>ENOENT\<close> for a path that was missing. The path is one for which \<open>existsSync\<close> was
  not called, or was false only because it is missing; paths for which it was false because of another
  error do not disturb the others. The codec of the message is only assumed to
  decode the document that was written.
\<close>

theorem record_flush_replay:
  assumes N: "stable_fs N" "typed_fs N"
    and start: "new_archive cwd d native now archivePath rootDir = Inr start" "ar_mode start = Record"
    and calls: "list_all (\<lambda>(k, operation). valid_operation operation \<or> operation = ''exists'') calls"
    and own: "own = fold (observe (archive_facade cwd) N) calls start" "ar_dirty own"
    and native: "writes_progress env"
    and codec: "\<And>p. serializeProtobufDocument (flush_document cmp (fe_now env) own
        (own\<lparr>ar_entries := [], ar_missingPaths := []\<rparr>)) = Inr p \<Longrightarrow> decode (encode p) = Some p"
    and fl: "flush encode decode cmp env locks d own = Some (d', own', None)"
    and again: "new_archive cwd' d' native' now' archivePath' rootDir' = Inr fresh"
      "path_resolve cwd' archivePath' = path_resolve cwd archivePath"
    and call: "(k, operation) \<in> set calls" "valid_operation operation"
    and exists: "honest N k \<or> (k, ''exists'') \<notin> set calls"
  shows "ar_mode fresh = Replay \<and> (\<exists>ar. load decode d' fresh = Inr ar
    \<and> fst (replay_key (archive_facade cwd') ar k input operation (\<lambda>_. dec)) =
        faithful (archived_fs N) k input operation dec)"
proof -
  let ?N = "N\<lparr>nf_exists := (nf_exists N)(k := nf_present N k)\<rparr>"
  have N': "stable_fs ?N" "typed_fs ?N" "honest ?N k"
    using N by (simp_all add: stable_fs_def typed_fs_def honest_def)
  have "native_outcome ?N k' operation' = native_outcome N k' operation'" if "(k', operation') \<in> set calls" for k' operation'
    using exists that by (auto simp: native_outcome_def visible_def honest_def)
  then have same: "own = fold (observe (archive_facade cwd) ?N) calls start"
    unfolding own(1) by (intro observe_cong [symmetric]) auto
  have "faithful (archived_fs ?N) k input operation dec = faithful (archived_fs N) k input operation dec"
    by (simp add: faithful_def visible_def archived_fs_def)
  then show ?thesis
    using record_flush_replay_honest [OF N' start calls same own(2) native codec fl again call, of input dec] by simp
qed

text \<open>A filesystem with one file \<open>a\<close>, to instantiate the property.\<close>

fun sample_outcome :: "operation_slot \<Rightarrow> stored_outcome" where
  "sample_outcome ContentSlot = Success (ContentValue (ContentBuffer ''hi''))"
| "sample_outcome (MapSlot Stats k) = Success (StatValue \<lparr>cs_fields = [(''size'', Some ''2'')], cs_types = [(''file'', True)]\<rparr>)"
| "sample_outcome (MapSlot Realpaths k) = Success (PathValue \<lparr>pp_kind = RelativePath, pp_path = ''a''\<rparr>)"
| "sample_outcome (MapSlot Access k) = Success NullValue"
| "sample_outcome (MapSlot Opens k) = Success NullValue"
| "sample_outcome (MapSlot Directories k) =
     Failure \<lparr>err_name = ''Error'', err_message = ''ENOTDIR'', err_code = Some ''ENOTDIR'', err_errno = None, err_syscall = None\<rparr>"
| "sample_outcome (MapSlot Readlinks k) =
     Failure \<lparr>err_name = ''Error'', err_message = ''EINVAL'', err_code = Some ''EINVAL'', err_errno = None, err_syscall = None\<rparr>"

definition sample_fs :: native_fs where
  "sample_fs = \<lparr>nf_present = (\<lambda>k. k = ''a''), nf_linked = (\<lambda>k. k = ''a''), nf_exists = (\<lambda>k. False),
     nf_outcome = (\<lambda>k. sample_outcome)\<rparr>"

definition sample_env :: flush_env where
  "sample_env = \<lparr>fe_fails = (\<lambda>_. None), fe_written = (\<lambda>i r. r), fe_partial = 0, fe_unique = ''1.2'', fe_now = ''now''\<rparr>"

definition sample_locks :: lock_calls where
  "sample_locks = \<lparr>lk_open = (\<lambda>_. Inr 3), lk_stat = (\<lambda>_. Inr (0, 0)), lk_unlink = (\<lambda>_. Inr 0)\<rparr>"

lemma sample_fs_ok: "stable_fs sample_fs" "typed_fs sample_fs"
proof -
  have "case sample_outcome slot of Failure e \<Rightarrow> err_code e \<noteq> Some ''ENOENT''
      | Success v \<Rightarrow> v \<noteq> NullValue \<or> (\<forall>f. slot \<noteq> MapSlot Stats f)" for slot
    by (cases slot rule: sample_outcome.cases) simp_all
  then show "stable_fs sample_fs"
    by (simp add: stable_fs_def sample_fs_def names_of_def)
  have "slot_fits slot (sample_outcome slot)" for slot
    by (cases slot rule: sample_outcome.cases) (simp_all add: slot_fits_def)
  then show "typed_fs sample_fs" by (simp add: typed_fs_def sample_fs_def)
qed

lemma sample_operations: "valid_operation ''readFile''" "valid_operation ''access:0''"
  by (simp_all add: valid_operation_def slot_of_def operationSlot_def operation_name_def observesLink_def starts_with_def)

lemma sample_env_ok: "fe_fails sample_env step = None" "writes_progress sample_env"
  by (simp_all add: sample_env_def writes_progress_def)

lemma sample_lock_ok: "fst (acquireLock sample_locks p) = Inr 3"
  by (simp add: acquireLock_def LOCK_RETRY_LIMIT_def sample_locks_def acquire_from.simps(2) [of _ _ 999, simplified])

theorem record_flush_replay_witness:
  "\<exists>decode d' fresh ar. load decode d' fresh = Inr ar
    \<and> fst (replay_key (archive_facade ''/'') ar ''b'' (StringPath ''/elsewhere/b'') ''access:0'' (\<lambda>_ _. Inr Undefined))
      = Throws (FsThrown (enoent ''access'' ''/elsewhere/b''))"
proof -
  define start where "start = projr (new_archive ''/'' [] (\<lambda>_ _. None) ''t'' ''cache'' ''root'')"
  have start: "new_archive ''/'' [] (\<lambda>_ _. None) ''t'' ''cache'' ''root'' = Inr start"
    by (simp add: start_def new_archive_def Let_def split: prod.split)
  have mode: "ar_mode start = Record" using new_archive_fields [OF start] by (simp add: disk_exists_def)
  define calls where "calls = [(''a'', ''readFile''), (''a'', ''exists''), (''b'', ''access:0'')]"
  have calls: "list_all (\<lambda>(k, operation). valid_operation operation \<or> operation = ''exists'') calls"
    by (simp add: calls_def sample_operations)
  define own where "own = fold (observe (archive_facade ''/'') sample_fs) calls start"
  have wf: "wf_archive own \<and> ar_archivePath own = ar_archivePath start \<and> ar_mode own = Record"
    using record_archive [OF sample_fs_ok _ calls, of start "''/''"] new_archive_fields [OF start] mode
      new_archive_agrees [of start] by (simp add: own_def)
  have start_fields: "ar_entries start = []" "ar_missingPaths start = []"
    using new_archive_fields [OF start] by simp_all
  have first: "ar_dirty (observe (archive_facade ''/'') sample_fs (''a'', ''readFile'') start)"
    using start_fields mode
    by (simp add: observe_def replay_key_def archive_facade_def archive_get_def getExists_def recordCacheMiss_def
        record_outcome_def archive_set_dirty operationSlot_def)
  have dirty: "ar_dirty own"
    unfolding own_def calls_def by (simp add: observe_dirty first)
  define loaded where "loaded = own\<lparr>ar_entries := [], ar_missingPaths := []\<rparr>"
  define p where "p = projr (serializeProtobufDocument (flush_document default (fe_now sample_env) own loaded))"
  have lo: "load (\<lambda>_. Some p) (js_set (lock_path (ar_archivePath own)) (Some '''') []) loaded = Inr loaded"
    using wf by (simp add: loaded_def load_def disk_exists_def)
  have "\<exists>d' own'. flush (\<lambda>_. ''bytes'') (\<lambda>_. Some p) default sample_env sample_locks [] own = Some (d', own', None)
      \<and> map_of d' (ar_archivePath own) = Some (Some ''bytes'')"
    using flush_succeeds [OF conjunct1 [OF wf] _ dirty sample_env_ok sample_lock_ok, of "\<lambda>_. Some p" "[]" loaded
      "\<lambda>_. ''bytes''" default] lo wf new_archive_agrees [of loaded]
    by (auto simp: loaded_def)
  then obtain d' own' where fl: "flush (\<lambda>_. ''bytes'') (\<lambda>_. Some p) default sample_env sample_locks [] own = Some (d', own', None)"
    by blast
  define fresh where "fresh = projr (new_archive ''/'' d' (\<lambda>_ _. None) ''t'' ''cache'' ''elsewhere'')"
  have fresh: "new_archive ''/'' d' (\<lambda>_ _. None) ''t'' ''cache'' ''elsewhere'' = Inr fresh"
    by (simp add: fresh_def new_archive_def Let_def split: prod.split)
  have codec: "serializeProtobufDocument (flush_document default (fe_now sample_env) own
        (own\<lparr>ar_entries := [], ar_missingPaths := []\<rparr>)) = Inr p' \<Longrightarrow> (\<lambda>_. Some p) ((\<lambda>_. ''bytes'') p') = Some p'" for p'
    by (simp add: p_def loaded_def)
  have exists: "honest sample_fs ''b'' \<or> (''b'', ''exists'') \<notin> set calls" by (simp add: calls_def)
  have "(''b'', ''access:0'') \<in> set calls" by (simp add: calls_def)
  from record_flush_replay [OF sample_fs_ok start mode calls own_def dirty sample_env_ok(2) codec fl fresh refl this
      sample_operations(2) _, of "StringPath ''/elsewhere/b''" "\<lambda>_. Inr Undefined"] exists
  obtain ar where "load (\<lambda>_. Some p) d' fresh = Inr ar"
    "fst (replay_key (archive_facade ''/'') ar ''b'' (StringPath ''/elsewhere/b'') ''access:0'' (\<lambda>_ _. Inr Undefined))
      = faithful (archived_fs sample_fs) ''b'' (StringPath ''/elsewhere/b'') ''access:0'' (\<lambda>_. Inr Undefined)"
    by blast
  moreover have "faithful (archived_fs sample_fs) ''b'' (StringPath ''/elsewhere/b'') ''access:0'' (\<lambda>_. Inr Undefined)
      = Throws (FsThrown (enoent ''access'' ''/elsewhere/b''))"
    by (simp add: faithful_def visible_def observesLink_def starts_with_def sample_fs_def missingPath_def missing_syscall_def ends_with_def)
  ultimately show ?thesis by metis
qed

end
