(* ===== verification/Archive_Properties.thy ===== *)
theory Archive_Properties
  imports FS_Fidelity
begin

text \<open>
  The properties of the filesystem cache archive: what \<open>set\<close> and \<open>get\<close> promise, the keys of
  paths, the lock, the atomic replacement of the file, the round trip through the messages,
  and the behaviours of the code that deviate from what its documentation says.
\<close>

section \<open>Samples\<close>

definition sample_archive :: archive where
  "sample_archive =
     \<lparr>ar_archivePath = ''/tmp/cache'', ar_rootDir = ''/work/app'', ar_physicalRootDirs = [],
      ar_comparisonRoots = [comparisonRoot ''/work/app''], ar_mode = Record, ar_createdAt = ''t'',
      ar_entries = [], ar_missingPaths = [], ar_pathKeys = [], ar_dirty = False, ar_cacheHits = 0,
      ar_cacheMisses = 0\<rparr>"

lemma sample_archive_simps [simp]:
  "ar_entries sample_archive = []" "ar_missingPaths sample_archive = []" "ar_mode sample_archive = Record"
  "ar_rootDir sample_archive = ''/work/app''" "ar_pathKeys sample_archive = []"
  "ar_comparisonRoots sample_archive = [comparisonRoot ''/work/app'']"
  "ar_archivePath sample_archive = ''/tmp/cache''"
  by (simp_all add: sample_archive_def)

lemma wf_sample_archive [simp]: "wf_archive sample_archive"
  by (simp add: wf_archive_def)


section \<open>Recording and reading\<close>

text \<open>
  C7. What \<open>set\<close> records, \<open>get\<close> returns, and nothing else of what the archive answers for any
  slot of any path changes. An outcome that means the path is missing is not stored; the
  path is then known not to exist.
\<close>

theorem set_then_get:
  assumes "operationSlot operation = Inr slot"
  shows "(if isMissingOutcome operation out
      then getExists (fst (archive_set ar k operation out)) k operation = Some False
      else archive_get (fst (archive_set ar k operation out)) k operation = Inr (Some out))
    \<and> (\<forall>k' slot'. (k', slot') \<noteq> (k, slot) \<longrightarrow>
        slot_view (fst (archive_set ar k operation out)) k' slot' = slot_view ar k' slot')"
proof -
  have ne: "operation \<noteq> ''exists''" using assms by auto
  have "getExists (fst (archive_set ar k operation out)) k operation = Some False"
    if "isMissingOutcome operation out"
    using that ne
    by (auto simp: getExists_set node_after_set_exists updateExistence_def Let_def split: outcome.split)
  moreover have "archive_get (fst (archive_set ar k operation out)) k operation = Inr (Some out)"
    if "\<not> isMissingOutcome operation out"
    by (rule archive_get_recorded [OF assms]) (simp add: slot_view_set ne that assms)
  ultimately show ?thesis by (auto simp: slot_view_set assms)
qed

theorem set_then_get_witness:
  "archive_get (fst (archive_set sample_archive ''src/a.ts'' ''readFile'' (Success (ContentValue (ContentBuffer ''x'')))))
     ''src/a.ts'' ''readFile'' = Inr (Some (Success (ContentValue (ContentBuffer ''x''))))"
  using set_then_get [of "''readFile''" ContentSlot "Success (ContentValue (ContentBuffer ''x''))" sample_archive "''src/a.ts''"]
  by (simp add: operationSlot_def isMissingOutcome_def starts_with_def split: if_splits)

text \<open>
  C8. The invariant of the archive. Whatever sequence of outcomes is recorded, as long as each
  fits its operation, a path has one node or is listed as missing, never both, no key occurs
  twice, and every field of a node holds values of its type only.
\<close>

theorem recording_keeps_archive_well_formed:
  assumes "wf_archive ar" "list_all (\<lambda>(k, operation, out). operation_fits operation out) records"
  shows "wf_archive (fold (\<lambda>(k, operation, out) ar. fst (archive_set ar k operation out)) records ar)"
  using assms by (induction records arbitrary: ar) (auto intro: wf_archive_set)

theorem recording_keeps_archive_well_formed_witness:
  "wf_archive (fst (archive_set sample_archive ''a'' ''access:0'' (Success NullValue)))"
  using recording_keeps_archive_well_formed [of sample_archive "[(''a'', ''access:0'', Success NullValue)]"]
  by (simp add: operation_fits_def operationSlot_def)

text \<open>
  An archive that knows a path only by an operation on the link itself, such as a
  successful \<open>lstat\<close>, throws on the question whether the path exists: \<open>get\<close> asks
  \<open>operationSlot\<close> for the slot of \<open>exists\<close>, which has none.
\<close>

theorem exists_after_lstat_throws:
  assumes "map_of (ar_entries ar) k = None" "k \<notin> set (ar_missingPaths ar)"
  shows "archive_get (fst (archive_set ar k ''lstat:number:throw'' (Success (StatValue st)))) k ''exists'' =
    Inl (UnsupportedOperation ''exists'')"
proof -
  let ?nd = "node_after_set ar k ''lstat:number:throw'' (Success (StatValue st))"
  have "nd_exists ?nd = None"
    using assms
    by (simp add: node_after_set_exists node_for_set_def updateExistence_def isMissingOutcome_def
        starts_with_def observesLink_def Let_def)
  then show ?thesis by (simp add: archive_get_def archive_set_lookup)
qed

theorem exists_after_lstat_throws_witness:
  "archive_get (fst (archive_set sample_archive ''link'' ''lstat:number:throw''
     (Success (StatValue \<lparr>cs_fields = [], cs_types = []\<rparr>)))) ''link'' ''exists'' = Inl (UnsupportedOperation ''exists'')"
  by (rule exists_after_lstat_throws) simp_all

section \<open>The file on disk\<close>

text \<open>
  C2. \<open>flush\<close> replaces the archive as a whole or leaves it alone. It always returns; the
  observations in memory and all files other than the archive, its lock and the temporary
  file stay as they are. Either the archive's content is unchanged and the archive is still
  dirty if it was, or it is exactly the encoding of the merged document and the archive is
  clean. With no error, the temporary file and the lock are gone.
\<close>

theorem flush_is_atomic:
  assumes "writes_progress env"
  shows "\<exists>d' ar' err. flush encode decode cmp env calls d ar = Some (d', ar', err)
    \<and> ar_entries ar' = ar_entries ar \<and> ar_missingPaths ar' = ar_missingPaths ar
    \<and> (\<forall>q. q \<notin> {ar_archivePath ar, lock_path (ar_archivePath ar), temporary_path env (ar_archivePath ar)}
           \<longrightarrow> map_of d' q = map_of d q)
    \<and> (map_of d' (ar_archivePath ar) = map_of d (ar_archivePath ar) \<and> ar_dirty ar' = ar_dirty ar
         \<and> (err = None \<longrightarrow> ar_mode ar \<noteq> Record \<or> \<not> ar_dirty ar)
       \<or> \<not> ar_dirty ar'
         \<and> (err = None \<longrightarrow> map_of d' (temporary_path env (ar_archivePath ar)) = None
               \<and> map_of d' (lock_path (ar_archivePath ar)) = None)
         \<and> (\<exists>loaded p. flushed decode cmp env d ar loaded p
              \<and> map_of d' (ar_archivePath ar) = Some (Some (encode p))))"
  by (rule flush_result [OF assms])

theorem flush_is_atomic_witness:
  "\<exists>d' ar' err. flush (\<lambda>_. ''bytes'') (\<lambda>_. None) default sample_env sample_locks
     [(''/tmp/other'', Some ''data'')] sample_archive = Some (d', ar', err)
    \<and> map_of d' ''/tmp/other'' = Some (Some ''data'')"
proof -
  obtain d' ar' err where f: "flush (\<lambda>_. ''bytes'') (\<lambda>_. None) default sample_env sample_locks
      [(''/tmp/other'', Some ''data'')] sample_archive = Some (d', ar', err)"
    "\<forall>q. q \<notin> {ar_archivePath sample_archive, lock_path (ar_archivePath sample_archive),
         temporary_path sample_env (ar_archivePath sample_archive)}
       \<longrightarrow> map_of d' q = map_of [(''/tmp/other'', Some ''data'')] q"
    using flush_is_atomic [OF sample_env_ok(2), of "\<lambda>_. ''bytes''" "\<lambda>_. None" default sample_locks
      "[(''/tmp/other'', Some ''data'')]" sample_archive] by blast
  from f(2) have "map_of d' ''/tmp/other'' = Some (Some ''data'')"
    by (simp add: lock_path_def temporary_path_def)
  with f(1) show ?thesis by blast
qed

text \<open>
  C3. The merge with what another process has flushed. Loading the flushed file gives, for
  every slot of every path, the outcome recorded by this process, else the outcome the file
  held before unless this process knows the path to be missing; each in its archived form.
\<close>

theorem flush_merges_observations:
  assumes "wf_archive own" "wf_archive loaded"
    and "flushed decode cmp env d own loaded p" "decode bytes = Some p"
    and "map_of d' (ar_archivePath fresh) = Some (Some bytes)"
    and "ar_entries fresh = []" "ar_missingPaths fresh = []"
  shows "\<exists>ar. load decode d' fresh = Inr ar
    \<and> slot_view ar k slot = map_option normal_outcome
        (case slot_view own k slot of
           Some out \<Rightarrow> Some out
         | None \<Rightarrow> if k \<in> set (ar_missingPaths own) then None else slot_view loaded k slot)
    \<and> (\<forall>b. getExists own k operation = Some b \<longrightarrow> getExists ar k operation = Some b)"
proof -
  obtain ar where ar: "load decode d' fresh = Inr ar" "reloads own loaded ar"
    using flush_reloads [OF assms] by blast
  have "slot_view ar k slot = map_option normal_outcome
        (case slot_view own k slot of
           Some out \<Rightarrow> Some out
         | None \<Rightarrow> if k \<in> set (ar_missingPaths own) then None else slot_view loaded k slot)"
    using reloads_slot [OF ar(2) assms(1,2), of k slot]
    by (auto simp: override_def kept_node_def slot_view_def split: option.split)
  with ar reloads_exists [OF ar(2) assms(1), of k operation] show ?thesis by blast
qed

definition sample_own :: archive where
  "sample_own = fst (archive_set sample_archive ''a'' ''readFile'' (Success (ContentValue (ContentBuffer ''x''))))"

lemma sample_own_wf: "wf_archive sample_own"
  unfolding sample_own_def
  by (rule wf_archive_set) (simp_all add: operation_fits_def operationSlot_def)

lemma sample_flushed:
  "\<exists>p. flushed (\<lambda>_. None) default sample_env [] sample_own (sample_own\<lparr>ar_entries := [], ar_missingPaths := []\<rparr>) p"
proof -
  let ?loaded = "sample_own\<lparr>ar_entries := [], ar_missingPaths := []\<rparr>"
  have "wf_archive ?loaded" by (simp add: wf_archive_def)
  from document_roundtrip [OF flush_document_entries(2) [OF sample_own_wf this], of default "fe_now sample_env"]
  obtain p where "serializeProtobufDocument (flush_document default (fe_now sample_env) sample_own ?loaded) = Inr p"
    by blast
  moreover have "ar_mode sample_own = Record" by (simp add: sample_own_def)
  ultimately show ?thesis by (auto simp: flushed_def load_def disk_exists_def)
qed

theorem flush_merges_observations_witness:
  "\<exists>decode d' fresh ar. load decode d' fresh = Inr ar
    \<and> slot_view ar ''a'' ContentSlot = Some (Success (ContentValue (ContentBuffer ''x'')))"
proof -
  let ?loaded = "sample_own\<lparr>ar_entries := [], ar_missingPaths := []\<rparr>"
  obtain p where "flushed (\<lambda>_. None) default sample_env [] sample_own ?loaded p" using sample_flushed by blast
  moreover have "ar_mode sample_own = Record" by (simp add: sample_own_def)
  ultimately have fl: "flushed (\<lambda>_. Some p) default sample_env [] sample_own ?loaded p"
    by (simp add: flushed_def load_def disk_exists_def)
  have wf: "wf_archive ?loaded" by (simp add: wf_archive_def)
  have view: "slot_view sample_own ''a'' ContentSlot = Some (Success (ContentValue (ContentBuffer ''x'')))"
    by (simp add: sample_own_def slot_view_set operationSlot_def isMissingOutcome_def starts_with_def)
  from flush_merges_observations [OF sample_own_wf wf fl, where bytes = "''bytes''" and d' = "[(''/tmp/cache'', Some ''bytes'')]"
      and fresh = sample_archive and k = "''a''" and slot = ContentSlot and operation = "''''"] view
  obtain ar where "load (\<lambda>_. Some p) [(''/tmp/cache'', Some ''bytes'')] sample_archive = Inr ar"
    "slot_view ar ''a'' ContentSlot = Some (Success (ContentValue (ContentBuffer ''x'')))"
    by (auto simp: normal_outcome_def)
  then show ?thesis by blast
qed

text \<open>
  A path that was only found missing when following links (by \<open>stat\<close>) has no answer for
  an operation on the link itself; after the archive was flushed and loaded, the same
  operation is answered with \<open>ENOENT\<close>. The \<open>missing_paths\<close> list of the file does not tell a
  dangling link from a missing path.
\<close>

theorem reload_conflates_missing_paths:
  assumes "wf_archive own" "wf_archive loaded"
    and "flushed decode cmp env d own loaded p" "decode bytes = Some p"
    and "map_of d' (ar_archivePath fresh) = Some (Some bytes)"
    and "ar_entries fresh = []" "ar_missingPaths fresh = []"
    and "map_of (ar_entries own) k = Some nd" "only_missing nd" "map_of (ar_entries loaded) k = None"
  shows "getExists own k ''lstat:number:throw'' = None
    \<and> (\<exists>ar. load decode d' fresh = Inr ar \<and> getExists ar k ''lstat:number:throw'' = Some False)"
proof -
  obtain ar where ar: "load decode d' fresh = Inr ar" "reloads own loaded ar"
    using flush_reloads [OF assms(1-7)] by blast
  have k: "kept_node own loaded k = None" using assms(10) by (simp add: kept_node_def)
  have "only_missing (mergeNodes empty_node nd)"
    using assms(9) by (auto simp: only_missing_def override_def node_field_mergeNodes list_all_iff)
  with reloadsD [OF ar(2), of k] merged_own [OF assms(1,8), of loaded] k
  have "map_of (ar_entries ar) k = None \<and> k \<in> set (ar_missingPaths ar)" by simp
  moreover have "nd_linkExists nd = None" using assms(9) by (simp add: only_missing_def)
  ultimately show ?thesis
    using ar(1) assms(8) by (simp add: getExists_def observesLink_def starts_with_def)
qed

definition sample_gone :: archive where
  "sample_gone = fst (archive_set sample_archive ''a'' ''stat:number:soft'' (Success NullValue))"

lemma sample_gone_entry:
  "map_of (ar_entries sample_gone) ''a'' = Some (empty_node\<lparr>nd_exists := Some False\<rparr>)"
proof -
  have "createNode empty_node = empty_node"
    by (rule cache_node_eqI) (simp_all add: node_field_createNode)
  then show ?thesis
    by (simp add: sample_gone_def archive_set_lookup node_after_set_def node_for_set_def isMissingOutcome_def
        starts_with_def updateExistence_def observesLink_def Let_def)
qed

lemma sample_gone_wf: "wf_archive sample_gone"
  unfolding sample_gone_def
  by (rule wf_archive_set) (simp_all add: operation_fits_def isMissingOutcome_def starts_with_def)

theorem reload_conflates_missing_paths_witness:
  "\<exists>decode d' fresh ar. load decode d' fresh = Inr ar \<and> getExists ar ''a'' ''lstat:number:throw'' = Some False"
proof -
  let ?loaded = "sample_gone\<lparr>ar_entries := [], ar_missingPaths := []\<rparr>"
  have wf: "wf_archive ?loaded" by (simp add: wf_archive_def)
  from document_roundtrip [OF flush_document_entries(2) [OF sample_gone_wf this], of default "fe_now sample_env"]
  obtain p where p: "serializeProtobufDocument (flush_document default (fe_now sample_env) sample_gone ?loaded) = Inr p"
    by blast
  have "ar_mode sample_gone = Record" by (simp add: sample_gone_def)
  with p have fl: "flushed (\<lambda>_. Some p) default sample_env [] sample_gone ?loaded p"
    by (simp add: flushed_def load_def disk_exists_def)
  from reload_conflates_missing_paths [OF sample_gone_wf wf fl, where bytes = "''bytes''"
      and d' = "[(''/tmp/cache'', Some ''bytes'')]" and fresh = sample_archive and k = "''a''"
      and nd = "empty_node\<lparr>nd_exists := Some False\<rparr>"] sample_gone_entry
  show ?thesis by fastforce
qed

section \<open>The lock\<close>

text \<open>The lock file that \<open>unlinkSync\<close> removes is still the one that \<open>statSync\<close> has looked at.\<close>

definition not_replaced :: "lock_calls \<Rightarrow> bool" where
  "not_replaced calls \<longleftrightarrow>
     (\<forall>i lock age removed. lk_stat calls i = Inr (lock, age) \<longrightarrow> lk_unlink calls i = Inr removed \<longrightarrow> removed = lock)"

definition removes_stale :: "lock_calls \<Rightarrow> lock_event \<Rightarrow> bool" where
  "removes_stale calls ev =
     (case ev of
        RemovedLock i removed \<Rightarrow> (\<exists>age. lk_stat calls i = Inr (removed, age) \<and> LOCK_STALE_AGE_MS \<le> age)
      | Waited ms \<Rightarrow> ms = LOCK_RETRY_DELAY_MS)"

text \<open>
  C4. Acquiring the lock ends in one of three ways. It holds the lock after an exclusive
  \<open>openSync\<close> succeeded, all attempts before it having found the lock taken; or it throws the
  native error of the first attempt whose calls fail otherwise; or, when all
  \<open>LOCK_RETRY_LIMIT\<close> attempts found the lock taken, it throws the timeout. In between it waits only
  \<open>LOCK_RETRY_DELAY_MS\<close> at a time and fewer times than the limit, and it removes a lock
  file only in an attempt in which \<open>statSync\<close> found one at least \<open>LOCK_STALE_AGE_MS\<close> old; this is the
  one removed if no other process replaces it between the two calls.
\<close>

theorem lock_is_acquired_safely:
  "lock_result calls archivePath 0 (fst (acquireLock calls archivePath))
   \<and> length (filter is_wait (snd (acquireLock calls archivePath))) < LOCK_RETRY_LIMIT
   \<and> list_all (lock_event_ok calls) (snd (acquireLock calls archivePath))
   \<and> (not_replaced calls \<longrightarrow> list_all (removes_stale calls) (snd (acquireLock calls archivePath)))"
proof (intro conjI impI)
  show "lock_result calls archivePath 0 (fst (acquireLock calls archivePath))"
    using acquire_result by (simp add: acquireLock_def)
  show "length (filter is_wait (snd (acquireLock calls archivePath))) < LOCK_RETRY_LIMIT"
    using acquire_waits [of LOCK_RETRY_LIMIT 0 calls archivePath] by (simp add: acquireLock_def LOCK_RETRY_LIMIT_def)
  show ok: "list_all (lock_event_ok calls) (snd (acquireLock calls archivePath))"
    by (simp add: acquireLock_def acquire_events)
  have "removes_stale calls ev" if "not_replaced calls" "lock_event_ok calls ev" for ev
    using that by (cases ev) (auto simp: removes_stale_def not_replaced_def)
  then show "list_all (removes_stale calls) (snd (acquireLock calls archivePath))" if "not_replaced calls"
    using that ok by (simp add: list_all_iff)
qed

text \<open>A stale lock is removed, and the next attempt holds the lock.\<close>

definition stale_lock :: lock_calls where
  "stale_lock = \<lparr>lk_open = (\<lambda>i. if i = 0 then Inl ''EEXIST'' else Inr 3),
     lk_stat = (\<lambda>_. Inr (7, LOCK_STALE_AGE_MS)), lk_unlink = (\<lambda>_. Inr 7)\<rparr>"

lemma stale_lock_acquired: "acquireLock stale_lock p = (Inr 3, [RemovedLock 0 7])"
  by (simp add: acquireLock_def LOCK_RETRY_LIMIT_def stale_lock_def removeStaleLock_def
      acquire_from.simps(2) [of _ _ 999, simplified] acquire_from.simps(2) [of _ _ 998, simplified])

theorem lock_is_acquired_safely_witness:
  "list_all (removes_stale stale_lock) [RemovedLock 0 7] \<and> lock_result stale_lock ''/c'' 0 (Inr 3)"
proof -
  have "not_replaced stale_lock" by (simp add: not_replaced_def stale_lock_def)
  then show ?thesis using lock_is_acquired_safely [of stale_lock "''/c''"] by (simp add: stale_lock_acquired)
qed

text \<open>
  Otherwise another process may have removed the stale lock too and taken the lock: the file that
  \<open>unlinkSync\<close> removes is its fresh lock, and both processes hold the lock.
\<close>

lemma fresh_lock_is_removed:
  "acquireLock (stale_lock\<lparr>lk_unlink := (\<lambda>_. Inr 8)\<rparr>) p = (Inr 3, [RemovedLock 0 8])"
  "\<not> removes_stale (stale_lock\<lparr>lk_unlink := (\<lambda>_. Inr 8)\<rparr>) (RemovedLock 0 8)"
  by (simp_all add: acquireLock_def LOCK_RETRY_LIMIT_def stale_lock_def removeStaleLock_def removes_stale_def
      acquire_from.simps(2) [of _ _ 999, simplified] acquire_from.simps(2) [of _ _ 998, simplified])

text \<open>
  A lock that another process holds and keeps fresh is waited for, and given up after 999
  delays with the timeout error; the lock file is left alone.
\<close>

lemma held_lock_times_out:
  assumes "\<And>i. lk_open calls i = Inl ''EEXIST''"
    and "\<And>i. \<exists>lock age. lk_stat calls i = Inr (lock, age) \<and> age < LOCK_STALE_AGE_MS"
  shows "acquireLock calls archivePath =
    (Inl (ArchiveFailure (LockTimeout archivePath)), replicate 999 (Waited LOCK_RETRY_DELAY_MS))"
proof -
  have "Suc 999 + 0 = LOCK_RETRY_LIMIT" by (simp add: LOCK_RETRY_LIMIT_def)
  from acquire_held [OF assms this, of archivePath] show ?thesis
    by (simp add: acquireLock_def LOCK_RETRY_LIMIT_def)
qed

section \<open>Messages\<close>

text \<open>
  C9. The archive document survives its messages. Serialising a document whose nodes are well
  typed raises no \<open>TypeError\<close>, and the message restores the header, the paths that are only
  known to be missing, and every other entry with its flags and, for every slot, the
  outcome in normal form: stat fields that are defined, all stat types as booleans, content
  as bytes, everything else as it was.
\<close>

theorem document_survives_serialization:
  assumes "list_all (\<lambda>en. typed_node (ent_node en)) (doc_entries doc)"
  shows "\<exists>p es. serializeProtobufDocument doc = Inr p
    \<and> deserializeProtobufDocument p = Inr (doc\<lparr>doc_entries := es,
        doc_missingPaths := map ent_path (filter (\<lambda>en. only_missing (ent_node en)) (doc_entries doc))\<rparr>)
    \<and> list_all2 (\<lambda>en en'. ent_path en' = ent_path en \<and> archived (ent_node en) (ent_node en'))
        (filter (\<lambda>en. \<not> only_missing (ent_node en)) (doc_entries doc)) es"
  by (rule document_roundtrip [OF assms])

definition sample_document :: archive_document where
  "sample_document =
     \<lparr>doc_magic = FS_CACHE_MAGIC, doc_formatVersion = 5, doc_createdAt = ''t'', doc_updatedAt = ''t'',
      doc_entries = [\<lparr>ent_path = ''gone'', ent_node = empty_node\<lparr>nd_exists := Some False\<rparr>\<rparr>,
        \<lparr>ent_path = ''d'', ent_node = empty_node\<lparr>nd_directories := Some
           [(''flat:utf8:names'', Success (EntriesValue [NameEntry (StringName ''x'')]))]\<rparr>\<rparr>],
      doc_missingPaths = []\<rparr>"

lemma sample_directory_typed:
  "typed_node (empty_node\<lparr>nd_directories := Some [(''flat:utf8:names'', Success (EntriesValue [NameEntry (StringName ''x'')]))]\<rparr>)"
  by (simp add: typed_node_def wf_node_def wf_map_def MAP_FIELDS_def empty_node_def)

theorem document_survives_serialization_witness:
  "\<exists>p doc. serializeProtobufDocument sample_document = Inr p \<and> deserializeProtobufDocument p = Inr doc
    \<and> doc_missingPaths doc = [''gone'']"
proof -
  have "only_missing (empty_node\<lparr>nd_exists := Some False\<rparr>)" by simp
  moreover have "\<not> only_missing (empty_node\<lparr>nd_directories := m\<rparr>)" for m
    by (simp add: only_missing_def empty_node_def)
  moreover have "list_all (\<lambda>en. typed_node (ent_node en)) (doc_entries sample_document)"
    using sample_directory_typed by (simp add: sample_document_def)
  from document_survives_serialization [OF this] obtain p es where "serializeProtobufDocument sample_document = Inr p"
    "deserializeProtobufDocument p = Inr (sample_document\<lparr>doc_entries := es,
        doc_missingPaths := map ent_path (filter (\<lambda>en. only_missing (ent_node en)) (doc_entries sample_document))\<rparr>)"
    by blast
  ultimately show ?thesis by (auto simp: sample_document_def)
qed

section \<open>Keys of paths\<close>

text \<open>
  C5. The key of a path that does not end in a separator. An absolute path without dot segments or
  empty ones is looked for under the aliases of the root in their order, and its key is what
  follows the first alias that it lies under; every other path, relative or absolute, is resolved, and its
  key is what follows the root itself. A path outside has no key. So the fast path on strings finds whole
  segments, as \<open>path.relative\<close> does; where the root has no alias but itself, as always in
  replay, all spellings of a path have one key; and the cache of keys never changes an answer.
\<close>

theorem keyFor_canonical:
  assumes "clean root" "ar_rootDir ar = abs_path root" "list_all clean roots"
    and "ar_comparisonRoots ar = map (\<lambda>root. comparisonRoot (abs_path root)) roots"
    and "keys_sound cwd ar" "\<not> ends_with p ''/''"
  shows "fst (keyFor cwd ar (StringPath p)) =
      (if path_isAbsolute p \<and> \<not> needs_normalization p then first_root_key roots (abs_segments (path_resolve cwd p))
       else root_key root (abs_segments (path_resolve cwd p)))
    \<and> (roots = [root] \<longrightarrow> fst (keyFor cwd ar (StringPath p)) = root_key root (abs_segments (path_resolve cwd p)))
    \<and> keys_sound cwd (snd (keyFor cwd ar (StringPath p)))"
  using keyFor_sound [OF assms(5), of "StringPath p"] keys_sound_keyFor [OF assms(5)]
    compute_key_roots [OF assms(1-4,6), of cwd] by (simp add: first_root_key_single)

text \<open>An archive whose root is reached by a symbolic link, on \<open>/tmp\<close> as it may be found on macOS.\<close>

definition linked_archive :: archive where
  "linked_archive = sample_archive\<lparr>ar_rootDir := ''/tmp/x'',
     ar_comparisonRoots := [comparisonRoot ''/private/tmp/x'', comparisonRoot ''/tmp/x'']\<rparr>"

theorem keyFor_canonical_witness:
  "fst (keyFor ''/tmp/x/src'' linked_archive (StringPath ''./y/../a.ts'')) = Some ''src/a.ts''
   \<and> fst (keyFor ''/tmp/x/src'' linked_archive (StringPath ''/private/tmp/x/src/a.ts'')) = Some ''src/a.ts''"
proof -
  have roots: "clean [''tmp'', ''x'']" "list_all clean [[''private'', ''tmp'', ''x''], [''tmp'', ''x'']]"
    "ar_rootDir linked_archive = abs_path [''tmp'', ''x'']" "keys_sound cwd linked_archive"
    "ar_comparisonRoots linked_archive
       = map (\<lambda>root. comparisonRoot (abs_path root)) [[''private'', ''tmp'', ''x''], [''tmp'', ''x'']]" for cwd
    by (simp_all add: linked_archive_def clean_segment_def abs_path_def keys_sound_def)
  note key = keyFor_canonical [OF roots(1,3,2,5,4), THEN conjunct1]
  show ?thesis
    by (simp add: key ends_with_def path_isAbsolute_def starts_with_def needs_normalization_def)
      (simp add: first_root_key_def root_key_def path_resolve_def path_isAbsolute_def starts_with_def
        abs_segments_def norm_segments_def)
qed

text \<open>
  A path under an alias that has to be normalised is taken relative to the root as it was given, so
  it has no key, although the same path without the dot segment has one.
\<close>

lemma alias_needs_plain_path:
  "fst (keyFor ''/'' linked_archive (StringPath ''/private/tmp/x/a'')) = Some ''a''"
  "fst (keyFor ''/'' linked_archive (StringPath ''/private/tmp/x/./a'')) = None"
  by code_simp+



text \<open>
  An absolute path that ends in a separator takes the fast path with the separator, so a
  directory has two keys.
\<close>

lemma trailing_separator_key:
  "fst (keyFor ''/'' sample_archive (StringPath ''/work/app/src'')) = Some ''src''"
  "fst (keyFor ''/'' sample_archive (StringPath ''/work/app/src/'')) = Some ''src/''"
  by (simp_all add: keyFor_def compute_key_def compute_relative_def normalizeForComparison_def
      path_isAbsolute_def starts_with_def needs_normalization_def ends_with_def comparisonRoot_def key_of_relative_def)

section \<open>Errors\<close>

text \<open>
  Errors move with the checkout. A native error that was recorded for one path and is
  replayed for another has the same name, code, number and system call; every mention of the
  path in its message is replaced, provided the message is not empty and neither it nor the new path has a
  dollar sign; replayed for the same path, it is the recorded error.
\<close>

theorem errors_relocate:
  assumes "te_path e = Some p" "p \<noteq> ''''" "err_name (te_error e) \<noteq> ''''"
    and "err_message (te_error e) \<noteq> ''''" "CHR ''$'' \<notin> set (err_message (te_error e))" "CHR ''$'' \<notin> set q"
  shows "restoreError (snapshotError e) (StringPath q) =
      \<lparr>te_error = (te_error e)\<lparr>err_message := replace_all p q (err_message (te_error e))\<rparr>, te_path = Some q\<rparr>
    \<and> (q = p \<longrightarrow> restoreError (snapshotError e) (StringPath q) = e)"
proof -
  have d: "or_default (Some p) [CHR 0x00] = p" using assms(2) by (cases p) simp_all
  have "restoreError (snapshotError e) (StringPath q) =
      \<lparr>te_error = (te_error e)\<lparr>err_message := replace_all p q (err_message (te_error e))\<rparr>, te_path = Some q\<rparr>"
    using assms d
    by (simp add: restoreError_def snapshotError_def Let_def js_replaceAll_plain js_replaceAll_PATH replace_all_inverse)
  with assms(1) show ?thesis by (cases e) (auto simp: replace_all_same)
qed

theorem errors_relocate_witness:
  "restoreError (snapshotError (enoent ''open'' ''/a'')) (StringPath ''/b'') = enoent ''open'' ''/b''"
  using errors_relocate [of "enoent ''open'' ''/a''" "''/a''" "''/b''"]
  by (simp add: enoent_def starts_with_def)

text \<open>
  A path with a dollar sign is garbled in the message of a replayed error: \<open>replaceAll\<close> expands
  \<open>$$\<close> in the replacement.
\<close>

lemma dollar_path_garbled:
  "err_message (te_error (restoreError (snapshotError (enoent ''open'' ''/a$$b'')) (StringPath ''/a$$b'')))
     \<noteq> err_message (te_error (enoent ''open'' ''/a$$b''))"
  by (simp add: restoreError_def snapshotError_def enoent_def js_replaceAll_def Let_def starts_with_def)

end
