(* ===== verification/FS_Properties.thy ===== *)
theory FS_Properties
  imports FS_Session FS_Async FS_Install Archive_Properties
begin

text \<open>
  The properties of the filesystem hook: which operations it records, what recording changes
  for the program that runs, the values that are stored, virtual descriptors and sessions.
\<close>

section \<open>Operations\<close>

lemma part_name: "CHR '':'' \<notin> set name \<Longrightarrow> operation_name (name @ '':'' @ rest) = name"
  by (simp add: operation_name_def split_on_cons)

lemma valid_named:
  assumes "CHR '':'' \<notin> set name"
    and "name \<in> {''stat'', ''lstat'', ''fstat'', ''readdir'', ''opendir'', ''access'', ''readlink'', ''open''}"
  shows "valid_operation (name @ '':'' @ rest)"
  using assms part_name [OF assms(1), of rest]
  by (auto simp: valid_operation_def slot_of_def operationSlot_def operation_name_def Let_def observesLink_def
      starts_with_def)

text \<open>
  Every operation the hook asks the archive for has a slot, and the archive recognises the
  operations that observe a link: whatever the options and flags, no call of the hook runs
  into an unsupported operation.
\<close>

lemma hook_valid:
  "valid_operation ''readFile''"
  "name \<in> {''stat'', ''lstat'', ''fstat''} \<Longrightarrow> valid_operation (statOperation name bigint soft)"
  "valid_operation (readdirOperation opts)"
  "valid_operation (pathOperation ''readlink'' opts)"
  "valid_operation (pathOperation ''realpath'' opts)" "valid_operation (pathOperation ''realpath.native'' opts)"
  "valid_operation (''access:'' @ show_nat mode)"
  using sample_operations(1) valid_named [of "''stat''"] valid_named [of "''lstat''"] valid_named [of "''fstat''"]
    valid_named [of "''readdir''"] valid_named [of "''access''"] valid_named [of "''readlink''"]
  by (auto simp: statOperation_def readdirOperation_def pathOperation_def starts_with_def valid_operation_def slot_of_def
      operationSlot_def operation_name_def observesLink_def)

theorem hook_operations_are_valid:
  "valid_operation ''readFile''
   \<and> list_all (\<lambda>name. valid_operation (statOperation name bigint soft)) [''stat'', ''lstat'', ''fstat'']
   \<and> valid_operation (readdirOperation opts) \<and> valid_operation (opendirOperation opts)
   \<and> list_all (\<lambda>name. valid_operation (pathOperation name opts)) [''readlink'', ''realpath'', ''realpath.native'']
   \<and> valid_operation (''access:'' @ show_nat mode) \<and> valid_operation (openOperation flags)"
proof -
  have "valid_operation (openOperation flags)"
    using valid_named [of "''open''"]
    by (cases flags rule: openOperation.cases) auto
  moreover have "valid_operation ''realpath''" "valid_operation ''realpath.native''"
    by (simp_all add: valid_operation_def slot_of_def operationSlot_def operation_name_def observesLink_def starts_with_def)
  ultimately show ?thesis
    using sample_operations(1) valid_named [of "''stat''"] valid_named [of "''lstat''"] valid_named [of "''fstat''"]
      valid_named [of "''readdir''"] valid_named [of "''opendir''"] valid_named [of "''access''"]
      valid_named [of "''readlink''"]
    by (auto simp: statOperation_def readdirOperation_def opendirOperation_def pathOperation_def starts_with_def)
qed

section \<open>What recording changes\<close>

lemma keyFor_again:
  assumes "fst (keyFor cwd ar (StringPath p)) = Some k"
  shows "keyFor cwd (snd (keyFor cwd ar (StringPath p))) (StringPath p) = (Some k, snd (keyFor cwd ar (StringPath p)))"
  using assms by (auto simp: keyFor_def normalizeForComparison_def AList.update_conv split: option.splits)

lemma keyFor_count:
  "keyFor cwd (recordCacheMiss ar) p = (fst (keyFor cwd ar p), recordCacheMiss (snd (keyFor cwd ar p)))"
proof -
  have "compute_key cwd (recordCacheMiss ar) = compute_key cwd ar"
    by (rule compute_key_cong) (simp_all add: recordCacheMiss_def)
  then show ?thesis by (auto simp: keyFor_def recordCacheMiss_def split: option.split)
qed

text \<open>The key of a path, found and then taken from the cache of keys.\<close>

lemma keyFor_step:
  assumes "fst (keyFor cwd ar (StringPath p)) = Some k"
  obtains ar1 where "keyFor cwd ar (StringPath p) = (Some k, ar1)"
    and "keyFor cwd (recordCacheMiss ar1) (StringPath p) = (Some k, recordCacheMiss ar1)"
    and "ar_entries ar1 = ar_entries ar" "ar_missingPaths ar1 = ar_missingPaths ar" "ar_mode ar1 = ar_mode ar"
proof -
  obtain ar1 where k: "keyFor cwd ar (StringPath p) = (Some k, ar1)" using assms by (metis prod.collapse)
  have "keyFor cwd ar1 (StringPath p) = (Some k, ar1)" using keyFor_again [OF assms] k by simp
  then have "keyFor cwd (recordCacheMiss ar1) (StringPath p) = (Some k, recordCacheMiss ar1)"
    by (simp add: keyFor_count)
  moreover have "ar_entries ar1 = ar_entries ar" "ar_missingPaths ar1 = ar_missingPaths ar" "ar_mode ar1 = ar_mode ar"
    using keyFor_frame(1,2,7) [of cwd ar "StringPath p"] k by simp_all
  ultimately show ?thesis using that k by blast
qed

lemma keyFor_count_hit:
  "keyFor cwd (recordCacheHit ar) p = (fst (keyFor cwd ar p), recordCacheHit (snd (keyFor cwd ar p)))"
proof -
  have "compute_key cwd (recordCacheHit ar) = compute_key cwd ar"
    by (rule compute_key_cong) (simp_all add: recordCacheHit_def)
  then show ?thesis by (auto simp: keyFor_def recordCacheHit_def split: option.split)
qed

lemma keyFor_idem: "keyFor cwd (snd (keyFor cwd ar p)) p = (fst (keyFor cwd ar p), snd (keyFor cwd ar p))"
  by (auto simp: keyFor_def AList.update_conv split: option.splits)

lemma archive_set_exists_result:
  "archive_set ar k ''exists'' out = (fst (archive_set ar k ''exists'' out), None)"
  by (auto simp: archive_set_def Let_def split: prod.split)

lemma archive_set_valid_result:
  "valid_operation operation \<Longrightarrow> archive_set ar k operation out = (fst (archive_set ar k operation out), None)"
  by (auto simp: archive_set_def Let_def valid_operation_def split: prod.split)

lemma facade_fields [simp]:
  "fc_keyFor (archive_facade cwd) = keyFor cwd" "fc_mode (archive_facade cwd) = ar_mode"
  "fc_set (archive_facade cwd) = archive_set" "fc_get (archive_facade cwd) = archive_get"
  "fc_getExists (archive_facade cwd) = getExists" "fc_hit (archive_facade cwd) = recordCacheHit"
  "fc_miss (archive_facade cwd) = recordCacheMiss" "fc_encode (archive_facade cwd) = encodePortablePath cwd"
  "fc_decode (archive_facade cwd) = decodePortablePath"
  by (simp_all add: archive_facade_def)

lemma mode_count [simp]: "ar_mode (recordCacheMiss ar) = ar_mode ar" "ar_mode (recordCacheHit ar) = ar_mode ar"
  by (simp_all add: recordCacheMiss_def recordCacheHit_def)

text \<open>
  What a recorded call settles with and what it records: the native value or error, or the exception
  of the encoder, which is recorded in place of the value.
\<close>

definition settled :: "'s encoder \<Rightarrow> native_result \<Rightarrow> 's \<Rightarrow> (thrown + js_value) \<times> stored_outcome" where
  "settled encode native s =
     (case native of
        Inl e \<Rightarrow> (Inl (FsThrown e), Failure (snapshotError e))
      | Inr v \<Rightarrow>
          (case fst (encode v s) of
             Inl e \<Rightarrow> (Inl e, Failure (snapshot_thrown e))
           | Inr sv \<Rightarrow> (Inr v, Success sv)))"

text \<open>The archive knows the outcome: the path is known to be missing, or a lookup gives the outcome.\<close>

definition knows :: "archive \<Rightarrow> string \<Rightarrow> string \<Rightarrow> stored_outcome \<Rightarrow> bool" where
  "knows ar k operation out \<longleftrightarrow>
     (if isMissingOutcome operation out then getExists ar k operation = Some False
      else archive_get ar k operation = Inr (Some out))"

text \<open>The outcomes that are stored as they are: those of the slots, and the answers of \<open>existsSync\<close>.\<close>

definition recordable :: "string \<Rightarrow> stored_outcome \<Rightarrow> bool" where
  "recordable operation out \<longleftrightarrow>
     valid_operation operation \<or> operation = ''exists'' \<and> (\<exists>b. out = Success (BoolValue b))"

lemma recordable_set:
  assumes "recordable operation out"
  obtains ar' where "archive_set ar k operation out = (ar', None)" "knows ar' k operation out"
proof (cases "valid_operation operation")
  case True
  have s: "operationSlot operation = Inr (slot_of operation)" using True by (simp add: valid_operation_def)
  have "knows (fst (archive_set ar k operation out)) k operation out"
  proof (cases "isMissingOutcome operation out")
    case True
    then show ?thesis
      using valid_not_exists [OF \<open>valid_operation operation\<close>]
      by (auto simp: knows_def getExists_set node_after_set_exists updateExistence_def Let_def split: outcome.split)
  next
    case False
    have "archive_get (fst (archive_set ar k operation out)) k operation = Inr (Some out)"
      by (rule archive_get_recorded [OF s])
        (use False s valid_not_exists [OF \<open>valid_operation operation\<close>] in \<open>simp add: slot_view_set\<close>)
    then show ?thesis using False by (simp add: knows_def)
  qed
  then show ?thesis using that archive_set_valid_result [OF True] by blast
next
  case False
  then obtain b where b: "operation = ''exists''" "out = Success (BoolValue b)" using assms by (auto simp: recordable_def)
  have "nd_exists (node_after_set ar k ''exists'' (Success (BoolValue b))) = Some b"
    by (simp add: node_after_set_exists updateExistence_def Let_def)
  then have "archive_get (fst (archive_set ar k ''exists'' (Success (BoolValue b)))) k ''exists'' = Inr (Some (Success (BoolValue b)))"
    by (simp add: archive_get_def archive_set_lookup)
  then have "knows (fst (archive_set ar k operation out)) k operation out"
    by (simp add: knows_def b isMissingOutcome_def starts_with_def)
  then show ?thesis using that archive_set_exists_result b(1) by blast
qed

text \<open>What follows the native call, in \<open>runSync\<close> and after the \<open>await\<close> of \<open>runAsync\<close>.\<close>

lemma finish_records:
  assumes "ar_mode s = Record" "\<And>v s. ar_mode (snd (ca_encode c v s)) = ar_mode s"
    and "recordable (ca_operation c) (snd (settled (ca_encode c) native s))"
  shows "\<exists>s'. runAsync_finish (archive_facade cwd) s c (Some k) native = (fst (settled (ca_encode c) native s), s')
    \<and> knows s' k (ca_operation c) (snd (settled (ca_encode c) native s))"
proof (cases native)
  case (Inl e)
  then obtain s' where "archive_set s k (ca_operation c) (Failure (snapshotError e)) = (s', None)"
    "knows s' k (ca_operation c) (Failure (snapshotError e))"
    using assms(3) recordable_set [of "ca_operation c" "Failure (snapshotError e)" s k] by (auto simp: settled_def)
  then show ?thesis using Inl assms(1)
    by (simp add: runAsync_finish_def record_thrown_def record_outcome_def settled_def archive_facade_def)
next
  case (Inr v)
  obtain r s1 where e: "ca_encode c v s = (r, s1)" by (cases "ca_encode c v s")
  then have m: "ar_mode s1 = Record" using assms(1) assms(2) [of v s] by simp
  show ?thesis
  proof (cases r)
    case (Inl x)
    then obtain s' where "archive_set s1 k (ca_operation c) (Failure (snapshot_thrown x)) = (s', None)"
      "knows s' k (ca_operation c) (Failure (snapshot_thrown x))"
      using assms(3) e Inr recordable_set [of "ca_operation c" "Failure (snapshot_thrown x)" s1 k]
      by (auto simp: settled_def)
    then show ?thesis using Inl Inr e m assms(1)
      by (simp add: runAsync_finish_def record_thrown_def record_outcome_def settled_def archive_facade_def)
  next
    case (Inr x)
    then obtain s' where "archive_set s1 k (ca_operation c) (Success x) = (s', None)"
      "knows s' k (ca_operation c) (Success x)"
      using assms(3) e \<open>native = Inr v\<close> recordable_set [of "ca_operation c" "Success x" s1 k]
      by (auto simp: settled_def)
    then show ?thesis using Inr \<open>native = Inr v\<close> e m assms(1)
      by (simp add: runAsync_finish_def record_outcome_def settled_def archive_facade_def)
  qed
qed

text \<open>
  C10. Recording does not change what the program sees of an operation the archive does not answer:
  the call returns the native value or throws the native error, unless storing the value throws;
  then that exception is thrown. The archive then knows the outcome, so the next such call is
  answered from it. It holds of the operations that have a slot, and of \<open>existsSync\<close>
  where asking the archive for it does not throw (theorem \<open>exists_after_lstat_throws\<close>).
\<close>

theorem recording_is_transparent:
  assumes "fst (keyFor cwd ar (StringPath p)) = Some k" "ar_mode ar = Record"
    and "archive_get ar k operation = Inr None" "getExists ar k operation \<noteq> Some False"
    and "\<And>v s. ar_mode (snd (encode v s)) = ar_mode s"
    and "recordable operation (snd (settled encode native (recordCacheMiss (snd (keyFor cwd ar (StringPath p))))))"
  shows "\<exists>ar'. runSync (archive_facade cwd) ar (PathInput (StringPath p)) operation native encode decode =
        (fst (settled encode native (recordCacheMiss (snd (keyFor cwd ar (StringPath p))))), ar')
    \<and> knows ar' k operation (snd (settled encode native (recordCacheMiss (snd (keyFor cwd ar (StringPath p))))))"
proof -
  obtain ar1 where k1: "keyFor cwd ar (StringPath p) = (Some k, ar1)"
    and k2: "keyFor cwd (recordCacheMiss ar1) (StringPath p) = (Some k, recordCacheMiss ar1)"
    and ar1: "ar_entries ar1 = ar_entries ar" "ar_missingPaths ar1 = ar_missingPaths ar" "ar_mode ar1 = ar_mode ar"
    using keyFor_step [OF assms(1)] .
  have same: "archive_get ar1 k operation = Inr None" "getExists ar1 k operation \<noteq> Some False"
    using assms(3,4) ar1 by (simp_all add: archive_get_def getExists_def)
  let ?c = "\<lparr>ca_input = PathInput (StringPath p), ca_operation = operation, ca_encode = encode, ca_decode = decode\<rparr>"
  have "runAsync_start (archive_facade cwd) ar ?c = (AsyncAwait (Some k), recordCacheMiss ar1)"
    using k1 k2 same ar1(3) assms(2) by (simp add: runAsync_start_def replay_def input_key_def replay_key_def)
  then have "runSync (archive_facade cwd) ar (PathInput (StringPath p)) operation native encode decode =
      runAsync_finish (archive_facade cwd) (recordCacheMiss ar1) ?c (Some k) native"
    using runAsync_runSync [of "archive_facade cwd" ar ?c native] by (simp add: runAsync_def)
  then show ?thesis
    using finish_records [of "recordCacheMiss ar1" ?c native cwd k] k1 assms(2,5,6) ar1(3) by simp
qed

text \<open>The encoders of the hook keep the mode.\<close>

lemma snapshotDirectoryResult_mode [simp]:
  "ar_mode (snd (snapshotDirectoryResult (archive_facade cwd) es s)) = ar_mode s"
proof (induction es arbitrary: s)
  case (Cons e es)
  have "ar_mode (snd (snapshot_entry (archive_facade cwd) e s)) = ar_mode s"
    by (cases e) (auto simp: encodePortablePath_def split: prod.splits option.splits dest: arg_cong [of _ _ "\<lambda>r. ar_mode (snd r)"])
  then show ?case using Cons by (simp add: split_beta Let_def)
qed simp

lemma hook_encoders_keep_mode:
  "ar_mode (snd (encodes f v s)) = ar_mode s"
  "ar_mode (snd (encode_entries (archive_facade cwd) v s)) = ar_mode s"
  "ar_mode (snd (encode_path (archive_facade cwd) v s)) = ar_mode s"
  "ar_mode (snd (snapshotStat_of v s)) = ar_mode s"
proof -
  show "ar_mode (snd (encodes f v s)) = ar_mode s" by (simp add: encodes_def)
  show "ar_mode (snd (encode_entries (archive_facade cwd) v s)) = ar_mode s"
    by (cases v) (simp_all add: split_beta Let_def)
  show "ar_mode (snd (encode_path (archive_facade cwd) v s)) = ar_mode s"
    by (cases v) (auto simp: snapshotPathResult_def encodePortablePath_def split: prod.splits option.splits
        dest: arg_cong [of _ _ "\<lambda>r. ar_mode (snd r)"])
  show "ar_mode (snd (snapshotStat_of v s)) = ar_mode s" by (cases v) simp_all
qed

lemma sample_key: "fst (keyFor ''/'' sample_archive (StringPath ''/work/app/a'')) = Some ''a''"
  by (simp add: keyFor_def compute_key_def compute_relative_def normalizeForComparison_def
      path_isAbsolute_def starts_with_def needs_normalization_def ends_with_def comparisonRoot_def key_of_relative_def)

theorem recording_is_transparent_witness:
  "\<exists>ar'. runSync (archive_facade ''/'') sample_archive (PathInput (StringPath ''/work/app/a'')) ''readFile''
      (Inr (JsBuffer ''x'')) (encodes encode_content) (decodes decodeFileContent) = (Inr (JsBuffer ''x''), ar')
    \<and> knows ar' ''a'' ''readFile'' (Success (ContentValue (ContentBuffer ''x'')))"
  using recording_is_transparent [OF sample_key, of "''readFile''" "encodes encode_content" "Inr (JsBuffer ''x'')"
      "decodes decodeFileContent"] sample_operations(1)
  by (simp add: archive_get_def getExists_def hook_encoders_keep_mode recordable_def settled_def encodes_def)

text \<open>
  Recording is not transparent once \<open>existsSync\<close> was false. Native \<open>existsSync\<close> is false for
  every error, for example when a directory on the way may not be searched; after it was
  recorded, \<open>stat\<close> of the path throws \<open>ENOENT\<close> whatever the native call would do, and the native
  call is not made.
\<close>

theorem exists_false_hides_errors:
  assumes "fst (keyFor cwd ar (StringPath p)) = Some k" "ar_mode ar = Record"
    and "map_of (ar_entries ar) k = None" "k \<notin> set (ar_missingPaths ar)"
  shows "fst (makeStatSync tn ns ''stat'' (archive_facade cwd)
      (snd (existsSync (archive_facade cwd) \<lparr>hs_store = ar, hs_descriptors = [], hs_next = initial_fd\<rparr>
        (StringPath p) (Inr (JsBool False))))
      (StringPath p) False None native) = Inl (FsThrown (enoent ''stat'' p))"
proof -
  obtain ar1 where k1: "keyFor cwd ar (StringPath p) = (Some k, ar1)"
    and k2: "keyFor cwd (recordCacheMiss ar1) (StringPath p) = (Some k, recordCacheMiss ar1)"
    and ar1: "ar_entries ar1 = ar_entries ar" "ar_missingPaths ar1 = ar_missingPaths ar" "ar_mode ar1 = ar_mode ar"
    using keyFor_step [OF assms(1)] .
  let ?s = "recordCacheMiss ar1"
  let ?s1 = "fst (archive_set ?s k ''exists'' (Success (BoolValue False)))"
  have s: "map_of (ar_entries ?s) k = None" "k \<notin> set (ar_missingPaths ?s)"
    using assms(3,4) ar1 by (simp_all add: recordCacheMiss_def)
  have before: "archive_get ar1 k ''exists'' = Inr None" "getExists ar1 k ''exists'' = None"
    using assms(3,4) ar1 by (simp_all add: archive_get_def getExists_def)
  have ex: "snd (existsSync (archive_facade cwd) \<lparr>hs_store = ar, hs_descriptors = [], hs_next = initial_fd\<rparr> (StringPath p) (Inr (JsBool False)))
      = \<lparr>hs_store = ?s1, hs_descriptors = [], hs_next = initial_fd\<rparr>"
  proof -
    obtain s1 where set: "archive_set ?s k ''exists'' (Success (BoolValue False)) = (s1, None)"
      using archive_set_exists_result [of ?s k "Success (BoolValue False)"] by blast
    show ?thesis using before k1 k2 ar1(3) assms(2)
      by (simp add: existsSync_def with_store_def runSync_def replay_def input_key_def replay_key_def record_outcome_def
          encodes_def set)
  qed
  have nd: "node_after_set ?s k ''exists'' (Success (BoolValue False)) = createNode empty_node\<lparr>nd_exists := Some False\<rparr>"
    using s by (simp add: node_after_set_def node_for_set_def updateExistence_def)
  have get: "archive_get ?s1 k ''stat:number:throw'' = Inr None"
  proof -
    have "valid_operation ''stat:number:throw''" using valid_named [of "''stat''" "''number:throw''"] by simp
    moreover have "readSlot (createNode empty_node\<lparr>nd_exists := Some False\<rparr>) slot = None" for slot
      by (cases slot) (simp_all add: node_field_createNode)
    ultimately show ?thesis
      using archive_get_valid [of "''stat:number:throw''" ?s1 k]
      by (simp add: archive_set_lookup nd starts_with_def del: readSlot.simps)
  qed
  have gone: "getExists ?s1 k ''stat:number:throw'' = Some False"
    by (simp add: getExists_set nd observesLink_def starts_with_def)
  have "fst (keyFor cwd ?s1 (StringPath p)) = Some k"
  proof -
    have "compute_key cwd ?s1 = compute_key cwd ?s" by (rule compute_key_cong) simp_all
    then show ?thesis using k2 by (auto simp: keyFor_def split: option.splits)
  qed
  then obtain ar2 where k3: "keyFor cwd ?s1 (StringPath p) = (Some k, ar2)"
    and ar2: "ar_entries ar2 = ar_entries ?s1" "ar_missingPaths ar2 = ar_missingPaths ?s1"
    using keyFor_step by metis
  have "archive_get ar2 k ''stat:number:throw'' = Inr None" "getExists ar2 k ''stat:number:throw'' = Some False"
    using get gone ar2 by (simp_all add: archive_get_def getExists_def)
  then show ?thesis
    unfolding ex using k3
    by (simp add: makeStatSync_def with_store_def runSync_def replay_def input_key_def replay_key_def
        statOperation_def missingPath_def ends_with_def starts_with_def missing_syscall_def enoent_def)
qed

theorem exists_false_hides_errors_witness:
  "fst (makeStatSync id id ''stat'' (archive_facade ''/'')
      (snd (existsSync (archive_facade ''/'') \<lparr>hs_store = sample_archive, hs_descriptors = [], hs_next = initial_fd\<rparr>
        (StringPath ''/work/app/a'') (Inr (JsBool False))))
      (StringPath ''/work/app/a'') False None
      (Inl \<lparr>te_error = \<lparr>err_name = ''Error'', err_message = ''EACCES'', err_code = Some ''EACCES'', err_errno = None, err_syscall = None\<rparr>,
         te_path = None\<rparr>)) = Inl (FsThrown (enoent ''stat'' ''/work/app/a''))"
  by (rule exists_false_hides_errors [OF sample_key]) simp_all

section \<open>Stored values\<close>

lemma snapshotStat_normal_fields:
  "present_fields (cs_fields (normal_stat (snapshotStat st))) = present_fields (cs_fields (snapshotStat st))"
proof -
  have "present_fields (map (\<lambda>(f, v). (f, Some v)) m) = m" for m :: "(string, string) js_map"
    by (induction m) auto
  then show ?thesis by (simp add: normal_stat_def)
qed

lemma restored_number_stat:
  assumes "f \<in> set STAT_FIELDS"
  shows "map_of (st_fields (restoreStat trunc_number ms_to_ns (normal_stat (snapshotStat st)) False)) f =
    map_of (st_fields st) f"
  using map_of_restored_fields [OF assms, of trunc_number False st]
  by (simp add: restoreStat_def snapshotStat_normal_fields restoreStatField_def option.map_ident DATE_FIELDS_def)

lemma restored_types:
  assumes "t \<in> set STAT_TYPES"
  shows "map_of (st_types (restoreStat trunc_number ms_to_ns (normal_stat (snapshotStat st)) bigint)) t =
    Some (map_of (st_types st) t = Some True)"
  using assms by (simp add: restoreStat_def normal_stat_def snapshotStat_def map_of_fields)

lemma restored_bigint_stat:
  assumes "f \<in> set STAT_FIELDS" "map_of (st_fields st) f = Some v" "integer_text v"
  shows "map_of (st_fields (restoreStat trunc_number ms_to_ns (normal_stat (snapshotStat st)) True)) f = Some v"
proof -
  let ?fs = "map (\<lambda>(f, v). (f, restoreStatField trunc_number v True)) (present_fields (cs_fields (snapshotStat st)))"
  have "map_of ?fs f = Some v"
    using map_of_restored_fields [OF assms(1), of trunc_number True st] assms(2,3) by (simp add: restoreStatField_def)
  moreover have "map_of (fold (\<lambda>field fs. if map_of fs (field @ ''Ns'') = None
      then js_set (field @ ''Ns'') (h field fs) fs else fs) ds m) f = Some v" if "map_of m f = Some v"
    for h and ds :: "string list" and m
    using that
  proof (induction ds arbitrary: m)
    case (Cons d ds)
    show ?case
    proof (cases "map_of m (d @ ''Ns'') = None")
      case True
      with Cons.prems have "f \<noteq> d @ ''Ns''" by auto
      then show ?thesis using True Cons by (simp add: AList.update_conv')
    next
      case False
      then show ?thesis using Cons by (auto simp del: not_None_eq)
    qed
  qed simp
  ultimately show ?thesis by (simp add: restoreStat_def snapshotStat_normal_fields)
qed

text \<open>
  A stat object survives the archive. What is snapshot, stored in archived form and
  restored has every numeric field of the object, absent fields included, and the answers of
  all type methods; a \<open>BigInt\<close> stat keeps every field that is an integer.
\<close>

theorem stat_survives_archive:
  assumes "f \<in> set STAT_FIELDS" "t \<in> set STAT_TYPES"
  shows "\<exists>st'. decode_stat trunc_number ms_to_ns bigint (normal_value (encode_stat (JsStats st))) = JsStats st'
    \<and> st_bigint st' = bigint
    \<and> map_of (st_types st') t = Some (map_of (st_types st) t = Some True)
    \<and> (\<not> bigint \<longrightarrow> map_of (st_fields st') f = map_of (st_fields st) f)
    \<and> (\<forall>v. bigint \<longrightarrow> map_of (st_fields st) f = Some v \<longrightarrow> integer_text v \<longrightarrow> map_of (st_fields st') f = Some v)"
proof -
  have "st_bigint (restoreStat trunc_number ms_to_ns (normal_stat (snapshotStat st)) bigint) = bigint"
    by (simp add: restoreStat_def Let_def)
  then show ?thesis
    using assms restored_number_stat restored_types restored_bigint_stat by (cases bigint) auto
qed

definition sample_stat :: stat_object where
  "sample_stat = \<lparr>st_fields = [(''size'', ''12''), (''mtimeMs'', ''1.5'')], st_dates = [], st_types = [(''file'', True)],
     st_bigint = False\<rparr>"

theorem stat_survives_archive_witness:
  "\<exists>st'. decode_stat id id False (normal_value (encode_stat (JsStats sample_stat))) = JsStats st'
    \<and> map_of (st_types st') ''file'' = Some True \<and> map_of (st_fields st') ''size'' = Some ''12''"
proof -
  have "''size'' \<in> set STAT_FIELDS" "''file'' \<in> set STAT_TYPES" by (simp_all add: STAT_FIELDS_def STAT_TYPES_def)
  moreover have "map_of (st_types sample_stat) ''file'' = Some True" "map_of (st_fields sample_stat) ''size'' = Some ''12''"
    by (simp_all add: sample_stat_def)
  ultimately show ?thesis using stat_survives_archive [of "''size''" "''file''" id id False sample_stat]
    by (simp del: decode_stat.simps encode_stat.simps normal_value.simps) blast
qed

section \<open>Directory handles\<close>

text \<open>
  A replayed directory handle lists everything once. Iterating a fresh handle ends after
  one read more than it has entries, yields all entries in order and closes the handle (no entry is
  the empty name, as none is in a directory); every
  later read or close then reports the closed directory.
\<close>

theorem replayed_directory_iterates_all:
  assumes "list_all truthy_entry es"
  shows "\<exists>d'. dir_iterate (Suc (length es)) (new_cached_dir input es) [] = Some (Inr es, d')
    \<and> dir_readSync d' = (Inl DirClosed, d') \<and> dir_closeSync d' = (Inl DirClosed, d')"
proof -
  obtain d' where "dir_iterate (Suc (length es)) (new_cached_dir input es) [] = Some (Inr es, d')" "cd_closed d'"
    using dir_iterate_all [of "new_cached_dir input es" "Suc (length es)" "[]"] assms
    by (auto simp: new_cached_dir_def simp del: dir_iterate.simps)
  then show ?thesis by (simp add: dir_readSync_def dir_closeSync_def del: dir_iterate.simps)
qed

theorem replayed_directory_iterates_all_witness:
  "\<exists>d'. dir_iterate 3 (new_cached_dir (StringPath ''src'') [DirName (StrName ''a''), DirName (StrName ''b'')]) [] =
    Some (Inr [DirName (StrName ''a''), DirName (StrName ''b'')], d')"
  using replayed_directory_iterates_all [of "[DirName (StrName ''a''), DirName (StrName ''b'')]" "StringPath ''src''"]
  by (auto simp: numeral_3_eq_3 simp del: dir_iterate.simps)

section \<open>Descriptors\<close>

text \<open>
  Reading recorded content stays within the buffers. Whatever offset, length and position
  are asked for, a virtual read reports no more bytes than the content has or the buffer can
  take behind the offset, keeps the size of the buffer, and changes no byte outside the part
  it reports.
\<close>

theorem virtual_read_in_bounds:
  fixes content :: buffer and target :: buffer
  shows "(let (n, target') = virtual_copy content target offset len start in
    n \<le> length content \<and> n \<le> nat len \<and> n \<le> length target - offset \<and> length target' = length target
    \<and> take offset target' = take offset target \<and> drop (offset + n) target' = drop (offset + n) target)"
proof -
  define lo where "lo = max 0 (min (int (length content)) start)"
  define hi where "hi = min (int (length content)) (lo + len)"
  define n where "n = nat (min (max lo hi - lo) (int (length target) - int offset))"
  have copy: "virtual_copy content target offset len start =
      (n, if n = 0 then target else take offset target @ take n (drop (nat lo) content) @ drop (offset + n) target)"
    unfolding virtual_copy_def n_def hi_def lo_def by (simp add: Let_def)
  show ?thesis
  proof (cases "n = 0")
    case True
    then show ?thesis unfolding copy by simp
  next
    case False
    then have pos: "0 < n" by simp
  have "lo < hi" "offset < length target" using pos unfolding n_def by linarith+
  moreover have "hi \<le> int (length content)" "hi \<le> lo + len" "0 \<le> lo" unfolding hi_def lo_def by simp_all
  moreover have "int n \<le> hi - lo" "n \<le> length target - offset" using pos \<open>lo < hi\<close> unfolding n_def by linarith+
  ultimately have n: "n \<le> length content - nat lo" "n \<le> nat len" "offset + n \<le> length target"
    by linarith+
  have "length (take n (drop (nat lo) content)) = n" using n(1) by simp
  moreover have "n \<le> length content" "n \<le> length target - offset" "offset \<le> length target" using n pos by linarith+
  ultimately show ?thesis using pos n(2,3) unfolding copy by simp
  qed
qed

text \<open>Reads one after the other, each into a buffer of its own.\<close>

fun read_into :: "'s hook_state \<Rightarrow> int \<Rightarrow> buffer list \<Rightarrow> buffer \<times> 's hook_state" where
  "read_into hs fd [] = ([], hs)"
| "read_into hs fd (target # ts) =
     (case readVirtual hs fd target None None None of
        (Inr (Some (n, target')), hs') \<Rightarrow> (let (rest, hs'') = read_into hs' fd ts in (take n target' @ rest, hs''))
      | (_, hs') \<Rightarrow> ([], hs'))"

lemma read_into_content:
  assumes "map_of (hs_descriptors hs) fd = Some (VirtualFd (Some c) path k position None)" "position \<le> length c"
  shows "fst (read_into hs fd ts) = take (sum_list (map length ts)) (drop position c)
    \<and> map_of (hs_descriptors (snd (read_into hs fd ts))) fd =
        Some (VirtualFd (Some c) path k (min (length c) (position + sum_list (map length ts))) None)
    \<and> (\<forall>fd'. fd' \<noteq> fd \<longrightarrow> map_of (hs_descriptors (snd (read_into hs fd ts))) fd' = map_of (hs_descriptors hs) fd')"
  using assms
proof (induction ts arbitrary: hs position)
  case (Cons target ts)
  let ?n = "min (length target) (length c - position)"
  let ?hs = "hs\<lparr>hs_descriptors := js_set fd (VirtualFd (Some c) path k (position + ?n) None) (hs_descriptors hs)\<rparr>"
  have "map_of (hs_descriptors ?hs) fd = Some (VirtualFd (Some c) path k (position + ?n) None)"
    by (simp add: AList.update_conv')
  moreover have "position + ?n \<le> length c" using Cons.prems(2) by simp
  ultimately have IH: "fst (read_into ?hs fd ts) = take (sum_list (map length ts)) (drop (position + ?n) c)
    \<and> map_of (hs_descriptors (snd (read_into ?hs fd ts))) fd =
        Some (VirtualFd (Some c) path k (min (length c) (position + ?n + sum_list (map length ts))) None)
    \<and> (\<forall>fd'. fd' \<noteq> fd \<longrightarrow> map_of (hs_descriptors (snd (read_into ?hs fd ts))) fd' = map_of (hs_descriptors ?hs) fd')"
    by (rule Cons.IH)
  have "take ?n (drop position c) @ take (sum_list (map length ts)) (drop (position + ?n) c) =
      take (length target + sum_list (map length ts)) (drop position c)"
    by (cases "length target \<le> length c - position") (simp_all add: take_add min_def add.commute)
  moreover have "min (length c) (position + ?n + sum_list (map length ts)) =
      min (length c) (position + (length target + sum_list (map length ts)))"
    by (auto simp: min_def)
  moreover have "take ?n (take ?n (drop position c) @ drop ?n target) = take ?n (drop position c)" by simp
  ultimately show ?case
    using IH readVirtual_sequential [OF Cons.prems, of target]
    by (simp add: Let_def split_beta AList.update_conv' del: take_append)
qed simp

text \<open>
  C13. A virtual descriptor is a stream over the recorded content. Reads into any buffers, one
  after the other, deliver exactly the bytes from the position on, as many as the buffers
  hold in total and no more than there are; the position advances by them and no other
  descriptor changes. So buffers that are not empty reach the end after finitely many reads.
\<close>

theorem virtual_reads_stream_content:
  assumes "map_of (hs_descriptors hs) fd = Some (VirtualFd (Some c) path k position None)" "position \<le> length c"
  shows "fst (read_into hs fd ts) = take (sum_list (map length ts)) (drop position c)
    \<and> map_of (hs_descriptors (snd (read_into hs fd ts))) fd =
        Some (VirtualFd (Some c) path k (min (length c) (position + sum_list (map length ts))) None)
    \<and> (\<forall>fd'. fd' \<noteq> fd \<longrightarrow> map_of (hs_descriptors (snd (read_into hs fd ts))) fd' = map_of (hs_descriptors hs) fd')"
  by (rule read_into_content [OF assms])

definition sample_hook :: "nat hook_state" where
  "sample_hook = \<lparr>hs_store = 0, hs_descriptors = [(7, VirtualFd (Some ''abcde'') ''/work/a'' ''a'' 1 None)], hs_next = 6\<rparr>"

theorem virtual_reads_stream_content_witness:
  "fst (read_into sample_hook 7 [''xy'', '''', ''xyz'']) = ''bcde''"
  using virtual_reads_stream_content [of sample_hook 7 "''abcde''" "''/work/a''" "''a''" 1 "[''xy'', '''', ''xyz'']"]
  by (simp add: sample_hook_def)

section \<open>Numbers of descriptors\<close>

text \<open>Numbers given to virtual descriptors are above the next one; all of these are taken from the top.\<close>

definition numbers_ok :: "'s hook_state \<Rightarrow> bool" where
  "numbers_ok hs \<longleftrightarrow> hs_next hs \<le> initial_fd
     \<and> (\<forall>fd c p k pos e. map_of (hs_descriptors hs) fd = Some (VirtualFd c p k pos e) \<longrightarrow> hs_next hs < fd \<and> fd \<le> initial_fd)"

lemma replayOpen_cases:
  "(\<exists>s1 r. replayOpen F hs input operation = (r, hs\<lparr>hs_store := s1\<rparr>) \<and> (\<forall>fd. r \<noteq> Opened fd))
   \<or> (\<exists>s1 c p k e. replayOpen F hs input operation =
        (Opened (hs_next hs), hs\<lparr>hs_store := s1, hs_next := hs_next hs - 1,
           hs_descriptors := js_set (hs_next hs) (VirtualFd c p k 0 e) (hs_descriptors hs)\<rparr>))"
  by (simp add: replayOpen_def Let_def split: prod.split option.split sum.split outcome.split) blast

lemma numbers_update:
  assumes "numbers_ok hs"
  shows "numbers_ok (hs\<lparr>hs_store := s1\<rparr>)"
    and "numbers_ok (hs\<lparr>hs_store := s1, hs_descriptors := js_set fd (NativeFd k n) (hs_descriptors hs)\<rparr>)"
    and "numbers_ok (hs\<lparr>hs_store := s1, hs_next := hs_next hs - 1,
           hs_descriptors := js_set (hs_next hs) (VirtualFd c p k' 0 e) (hs_descriptors hs)\<rparr>)"
  using assms by (fastforce simp: numbers_ok_def AList.update_conv')+

text \<open>
  A descriptor number is given once. Opening keeps the numbers of the virtual descriptors
  above the next number, so a replayed open returns a number no virtual descriptor has, and
  every other virtual descriptor stays as it is; an open for writing is refused and changes
  nothing.
\<close>

theorem open_gives_fresh_descriptor:
  assumes "numbers_ok hs" "openSync F hs input flags native = (r, hs')"
  shows "numbers_ok hs'
    \<and> (\<not> readonlyFlags flags \<longrightarrow> hs' = hs \<and> (\<exists>e. r = Inl e))
    \<and> (\<forall>fd. r = Inr fd \<longrightarrow> no_open native \<noteq> Inr fd \<longrightarrow>
         (\<forall>c p k pos e. map_of (hs_descriptors hs) fd \<noteq> Some (VirtualFd c p k pos e))
         \<and> (\<exists>c p k e. map_of (hs_descriptors hs') fd = Some (VirtualFd c p k 0 e)))"
proof (cases "readonlyFlags (Some (nullish flags (FlagString ''r'')))")
  case False
  then have "\<not> readonlyFlags flags \<and> r = Inl (unsupported ''fs'' ''openSync with write-capable flags'') \<and> hs' = hs"
    using assms(2) by (cases flags) (auto simp: openSync_def)
  with assms(1) show ?thesis by simp
next
  case True
  then have ro: "readonlyFlags flags" by (cases flags) auto
  obtain k s0 where k: "fc_keyFor F (hs_store hs) input = (k, s0)" by (cases "fc_keyFor F (hs_store hs) input")
  let ?operation = "openOperation (Some (nullish flags (FlagString ''r'')))"
  from replayOpen_cases [of F "hs\<lparr>hs_store := s0\<rparr>" input ?operation] show ?thesis
  proof (elim disjE exE conjE)
    fix s1 c p k' e
    assume "replayOpen F (hs\<lparr>hs_store := s0\<rparr>) input ?operation = (Opened (hs_next (hs\<lparr>hs_store := s0\<rparr>)),
      hs\<lparr>hs_store := s0, hs_store := s1, hs_next := hs_next (hs\<lparr>hs_store := s0\<rparr>) - 1,
         hs_descriptors := js_set (hs_next (hs\<lparr>hs_store := s0\<rparr>)) (VirtualFd c p k' 0 e) (hs_descriptors (hs\<lparr>hs_store := s0\<rparr>))\<rparr>)"
    then have "r = Inr (hs_next hs)" "hs' = hs\<lparr>hs_store := s1, hs_next := hs_next hs - 1,
        hs_descriptors := js_set (hs_next hs) (VirtualFd c p k' 0 e) (hs_descriptors hs)\<rparr>"
      using assms(2) True k by (simp_all add: openSync_def)
    moreover have "map_of (hs_descriptors hs) (hs_next hs) \<noteq> Some (VirtualFd c p k pos e)" for c p k pos e
      using assms(1) by (fastforce simp: numbers_ok_def)
    ultimately show ?thesis using ro numbers_update(3) [OF assms(1)] by (simp add: AList.update_conv')
  next
    fix s1 ro'
    assume "replayOpen F (hs\<lparr>hs_store := s0\<rparr>) input ?operation = (ro', hs\<lparr>hs_store := s0, hs_store := s1\<rparr>)"
      and "\<forall>fd. ro' \<noteq> Opened fd"
    then have "(\<exists>s2. hs' = hs\<lparr>hs_store := s2\<rparr> \<and> (\<exists>e. r = Inl e))
      \<or> (\<exists>s2 fd. no_open native = Inr fd \<and> r = Inr fd
           \<and> hs' = hs\<lparr>hs_store := s2, hs_descriptors := js_set fd (NativeFd k 0) (hs_descriptors hs)\<rparr>)"
      using assms(2) True k
      by (cases ro'; cases "no_open native") (auto simp: openSync_def Let_def)
    then show ?thesis using ro assms(1) numbers_update(1,2) [OF assms(1)] by auto
  qed
qed

theorem open_gives_fresh_descriptor_witness:
  "numbers_ok (snd (openSync (archive_facade ''/'')
     \<lparr>hs_store = sample_archive, hs_descriptors = [], hs_next = initial_fd\<rparr> (StringPath ''/work/app/a'')
     (Some (FlagBits 1)) \<lparr>no_open = Inr 3, no_content = Inr '''', no_number_stat = Inr sample_stat, no_bigint_stat = Inr sample_stat\<rparr>))"
proof -
  let ?r = "openSync (archive_facade ''/'')
     \<lparr>hs_store = sample_archive, hs_descriptors = [], hs_next = initial_fd\<rparr> (StringPath ''/work/app/a'')
     (Some (FlagBits 1)) \<lparr>no_open = Inr 3, no_content = Inr '''', no_number_stat = Inr sample_stat, no_bigint_stat = Inr sample_stat\<rparr>"
  have "numbers_ok \<lparr>hs_store = sample_archive, hs_descriptors = [], hs_next = initial_fd\<rparr>" by (simp add: numbers_ok_def)
  moreover have "?r = (fst ?r, snd ?r)" by simp
  ultimately show ?thesis using open_gives_fresh_descriptor by blast
qed

section \<open>Sessions\<close>

text \<open>
  C11. A session can always be ended. In every state a run of the process reaches, ending an
  analysis that began never reports a changed archive; it returns even when the flush fails,
  leaves no analysis active if it was the active one, and then the next analysis is not
  refused as a second one.
\<close>

theorem begun_sessions_can_end:
  assumes "session_run env d s" "i < ss_next s" "writes_progress (pe_flush env)"
  shows "\<exists>s'. end_session env s i = Some (Inr (), s') \<and> i \<in> set (ss_ended s')
    \<and> (i \<notin> set (ss_ended s) \<longrightarrow> ss_active s' = None \<and> ss_descriptors s' = []
         \<and> fst (beginAnalysis env s' archivePath rootDir) \<noteq> Inl AlreadyActive)"
proof (cases "i \<in> set (ss_ended s)")
  case True
  then show ?thesis by (simp add: end_session_def)
next
  case False
  then obtain ar where "ss_active s = Some (i, ar)"
    using run_accounted [OF assms(1)] assms(2) by (auto simp: sessions_accounted_def)
  moreover obtain ar' s1 where "flush_reporting env s ar = Some (ar', s1)"
    using flush_reporting_returns [OF assms(3)] by blast
  ultimately show ?thesis using False
    by (auto simp: end_session_def beginAnalysis_def split: sum.split)
qed

definition sample_process :: process_env where
  "sample_process = \<lparr>pe_encode = (\<lambda>_. ''bytes''), pe_decode = (\<lambda>_. None), pe_compare = default, pe_flush = sample_env,
     pe_locks = sample_locks, pe_cwd = ''/'', pe_native = (\<lambda>_ p. Some p), pe_now = ''now''\<rparr>"

definition sample_session :: session_state where
  "sample_session = snd (beginAnalysis sample_process (no_session []) ''/cache.pb'' ''/work/app'')"

lemma sample_session_next: "ss_next sample_session = 1"
proof -
  have "\<exists>ar. new_archive ''/'' [] (\<lambda>_ p. Some p) ''now'' ''/cache.pb'' ''/work/app'' = Inr ar \<and> ar_mode ar = Record"
    by (simp add: new_archive_def disk_exists_def Let_def split: prod.split)
  then show ?thesis by (auto simp: sample_session_def beginAnalysis_def no_session_def sample_process_def)
qed

theorem begun_sessions_can_end_witness:
  "\<exists>s'. end_session sample_process sample_session 0 = Some (Inr (), s') \<and> 0 \<in> set (ss_ended s')"
proof -
  have "session_run sample_process [] sample_session"
    unfolding sample_session_def by (rule run_step [OF run_start]) (metis prod.collapse step_begin)
  moreover have "writes_progress (pe_flush sample_process)" by (simp add: sample_process_def sample_env_ok)
  ultimately show ?thesis using begun_sessions_can_end [of sample_process "[]" sample_session 0] sample_session_next by fastforce
qed

section \<open>Promise and callback forms\<close>

text \<open>The calls of the executor that the promise functions make for a path.\<close>

inductive hook_call :: "string \<Rightarrow> archive fs_call \<Rightarrow> bool" for cwd where
  call_readFile: "hook_call cwd (readFile_call (PathInput input))"
| call_readdir: "hook_call cwd (readdirPromise (archive_facade cwd) input opts)"
| call_stat: "name = ''stat'' \<or> name = ''lstat'' \<Longrightarrow>
    hook_call cwd (makeStatPromise trunc_number ms_to_ns name input bigint throwIfNoEntry)"
| call_access: "hook_call cwd (accessPromise input mode)"
| call_readlink: "hook_call cwd (readlinkPromise input opts)"
| call_realpath: "hook_call cwd (realpath_call (archive_facade cwd) operation input opts)"

lemma hook_call_valid: "hook_call cwd c \<Longrightarrow> valid_operation (ca_operation c)"
proof (induction rule: hook_call.induct)
  case (call_realpath operation input opts)
  then show ?case using hook_valid(5,6) [of opts] by (cases operation) (simp_all add: realpath_call_def)
qed (use hook_valid in \<open>auto simp: readFile_call_def readdirPromise_def makeStatPromise_def accessPromise_def readlinkPromise_def\<close>)

lemma hook_call_keeps_mode: "hook_call cwd c \<Longrightarrow> ar_mode (snd (ca_encode c v s)) = ar_mode s"
  by (induction rule: hook_call.induct)
    (simp_all add: readFile_call_def readdirPromise_def makeStatPromise_def accessPromise_def readlinkPromise_def
      realpath_call_def hook_encoders_keep_mode)

text \<open>The stored values of a stat are snapshots.\<close>

lemma stat_lookup:
  assumes "wf_archive ar" "name = ''stat'' \<or> name = ''lstat''"
    and "archive_get ar k (statOperation name bigint soft) = Inr (Some (Success v))"
  shows "\<exists>st. v = StatValue st"
proof -
  let ?operation = "statOperation name bigint soft"
  have name: "operation_name ?operation = name" "\<not> starts_with ?operation ''readdir:''" "?operation \<noteq> ''open:r''"
    using assms(2) part_name [of name] by (auto simp: statOperation_def starts_with_def)
  have valid: "valid_operation ?operation" using assms(2) hook_valid(2) by auto
  obtain f where slot: "slot_of ?operation = MapSlot Stats f"
    using assms(2) name(1) by (auto simp: slot_of_def operationSlot_def operation_name_def Let_def)
  obtain nd where nd: "map_of (ar_entries ar) k = Some nd" "readSlot nd (MapSlot Stats f) = Some (Success v)"
    using assms(3) name(2,3) slot unfolding archive_get_valid [OF valid]
    by (auto split: option.splits simp del: readSlot.simps)
  have "typed_node nd" using wf_archive_entry [OF assms(1) nd(1)] by simp
  from typed_nodeD(3) [OF this nd(2)] show ?thesis by (cases v) simp_all
qed

lemma wf_archive_keyFor: "wf_archive (snd (keyFor cwd ar p)) = wf_archive ar"
  by (simp add: wf_archive_def)

lemma stat_replay:
  assumes "wf_archive ar" "name = ''stat'' \<or> name = ''lstat''"
  shows "replay (archive_facade cwd) ar (PathInput input) (statOperation name bigint soft) (restoreStat_of tn ns bigint) =
    replay (archive_facade cwd) ar (PathInput input) (statOperation name bigint soft) (decodes (decode_stat tn ns bigint))"
proof (cases "keyFor cwd ar input")
  case (Pair k ar1)
  have wf: "wf_archive ar1" using wf_archive_keyFor [of cwd ar input] assms(1) Pair by simp
  show ?thesis
  proof (cases k)
    case (Some k')
    have "replay_key (archive_facade cwd) ar1 k' input (statOperation name bigint soft) (restoreStat_of tn ns bigint) =
      replay_key (archive_facade cwd) ar1 k' input (statOperation name bigint soft) (decodes (decode_stat tn ns bigint))"
      using stat_lookup [OF wf assms(2), of k' bigint soft]
      by (auto simp: replay_key_def Let_def decodes_def split: sum.split option.split outcome.split)
    then show ?thesis using Pair Some by (simp add: replay_def input_key_def)
  qed (simp add: replay_def input_key_def Pair)
qed

lemma stat_promise_like_sync:
  assumes "wf_archive (hs_store hs)" "name = ''stat'' \<or> name = ''lstat''" "\<forall>v. native = Inr v \<longrightarrow> (\<exists>st. v = JsStats st)"
  shows "with_store hs (runAsync (archive_facade cwd) (hs_store hs) (makeStatPromise tn ns name input bigint soft) native) =
    makeStatSync tn ns name (archive_facade cwd) hs input bigint soft native"
proof -
  have "snapshotStat_of v s = encodes encode_stat v s" if "native = Inr v" for v and s :: archive
    using assms(3) that by (auto simp: encodes_def)
  then have "runSync (archive_facade cwd) (hs_store hs) (PathInput input) (statOperation name bigint soft) native
      snapshotStat_of (restoreStat_of tn ns bigint) =
    runSync (archive_facade cwd) (hs_store hs) (PathInput input) (statOperation name bigint soft) native
      (encodes encode_stat) (decodes (decode_stat tn ns bigint))"
    unfolding runSync_def stat_replay [OF assms(1,2)] by (auto split: replayed.split prod.split sum.split)
  then show ?thesis by (simp add: makeStatSync_def runAsync_runSync makeStatPromise_def)
qed

lemma readFile_promise_like_sync:
  "(fst (readFilePromise to_text F ps (PathInput input) opts native),
    hook_state.truncate (snd (readFilePromise to_text F ps (PathInput input) opts native))) =
   readFileSync to_text F (hook_state.truncate ps) (PathInput input) opts native"
  by (simp add: readFilePromise_def readFileSync_def runAsync_runSync readFile_call_def map_value_def with_store_def
      hook_state.truncate_def split: prod.split)

text \<open>The key of a path stays the same whatever the executor does before it asks again.\<close>

lemma replayOpen_key:
  "replayOpen (archive_facade cwd) (hs\<lparr>hs_store := snd (keyFor cwd (hs_store hs) input)\<rparr>) input operation =
   replayOpen (archive_facade cwd) hs input operation"
proof (cases "keyFor cwd (hs_store hs) input")
  case (Pair k s1)
  then have "keyFor cwd s1 input = (k, s1)" using keyFor_idem [of cwd "hs_store hs" input] by simp
  then show ?thesis using Pair by (simp add: replayOpen_def Let_def cong: option.case_cong sum.case_cong outcome.case_cong)
qed

lemma replayOpen_not_found:
  assumes "replayOpen (archive_facade cwd) hs input operation = (NotFound, hs1)"
  shows "keyFor cwd (hs_store hs1) input = (fst (keyFor cwd (hs_store hs) input), hs_store hs1)"
    and "hs_descriptors hs1 = hs_descriptors hs" "hs_next hs1 = hs_next hs"
proof -
  obtain k s1 where k: "keyFor cwd (hs_store hs) input = (k, s1)" by (cases "keyFor cwd (hs_store hs) input")
  then have again: "keyFor cwd s1 input = (k, s1)" using keyFor_idem [of cwd "hs_store hs" input] by simp
  then have "keyFor cwd (recordCacheHit s1) input = (k, recordCacheHit s1)"
    "keyFor cwd (recordCacheMiss s1) input = (k, recordCacheMiss s1)"
    by (simp_all add: keyFor_count keyFor_count_hit)
  then show "keyFor cwd (hs_store hs1) input = (fst (keyFor cwd (hs_store hs) input), hs_store hs1)"
    and "hs_descriptors hs1 = hs_descriptors hs" "hs_next hs1 = hs_next hs"
    using assms k again
    by (auto simp: replayOpen_def Let_def split: option.splits sum.splits outcome.splits if_splits)
qed

lemma open_promise_like_sync:
  assumes "readonlyFlags flags"
  shows "(case openPromise (archive_facade cwd) ps input flags native of (r, ps') \<Rightarrow> (r, hs_store ps', hs_next ps')) =
    (case openSync (archive_facade cwd) (hook_state.truncate ps) input flags native of (r, hs') \<Rightarrow> (r, hs_store hs', hs_next hs'))"
proof -
  let ?hs = "hook_state.truncate ps" and ?operation = "openOperation (Some (nullish flags (FlagString ''r'')))"
  have ro: "readonlyFlags (Some (nullish flags (FlagString ''r'')))" using assms by (cases flags) simp_all
  have store: "hs_store ?hs = hs_store ps" "hs_next ?hs = hs_next ps" by (simp_all add: hook_state.truncate_def)
  obtain k s0 where k: "keyFor cwd (hs_store ps) input = (k, s0)" by (cases "keyFor cwd (hs_store ps) input")
  have same: "replayOpen (archive_facade cwd) (?hs\<lparr>hs_store := s0\<rparr>) input ?operation =
      replayOpen (archive_facade cwd) ?hs input ?operation"
    using replayOpen_key [of cwd ?hs input ?operation] k store by simp
  obtain r hs1 where r: "replayOpen (archive_facade cwd) ?hs input ?operation = (r, hs1)"
    by (cases "replayOpen (archive_facade cwd) ?hs input ?operation")
  show ?thesis
  proof (cases r)
    case NotFound
    note nf = replayOpen_not_found [OF r [unfolded NotFound]]
    show ?thesis using ro k same r NotFound nf store
      by (auto simp: openPromise_def openSync_def Let_def split: sum.split option.split)
  next
    case (Opened fd)
    then show ?thesis using ro k same r store by (simp add: openPromise_def openSync_def Let_def)
  next
    case (OpenThrows e)
    have "hs_next hs1 = hs_next ps"
      using r OpenThrows store
      by (auto simp: replayOpen_def Let_def split: prod.splits option.splits sum.splits outcome.splits if_splits)
    then show ?thesis using ro k same r OpenThrows store by (simp add: openPromise_def openSync_def Let_def)
  qed
qed

text \<open>
  C14. The promise forms observe what the synchronous forms observe. Whatever other calls did to
  the archive while a promise call awaited its native counterpart, it settles with the native
  value or error (or the exception of its encoder) and, when recording, leaves the archive knowing
  that outcome. With nothing in between, reading a file by path, listing and opening a directory,
  access, links, real paths, stats and opening for reading give what the synchronous form gives and leave
  the same archive; for stats the native call must give a stat object or an error.
\<close>

theorem promise_forms_match_sync_forms:
  assumes "wf_archive (hs_store hs)"
  shows "(\<forall>c k ar2. hook_call cwd c \<longrightarrow> ar_mode ar2 = Record \<longrightarrow>
      (\<exists>ar3. runAsync_finish (archive_facade cwd) ar2 c (Some k) native = (fst (settled (ca_encode c) native ar2), ar3)
        \<and> knows ar3 k (ca_operation c) (snd (settled (ca_encode c) native ar2))))
   \<and> (\<forall>name. name = ''stat'' \<or> name = ''lstat'' \<longrightarrow> (\<forall>v. native = Inr v \<longrightarrow> (\<exists>st. v = JsStats st)) \<longrightarrow>
        with_store hs (runAsync (archive_facade cwd) (hs_store hs) (makeStatPromise tn ns name input bigint soft) native) =
          makeStatSync tn ns name (archive_facade cwd) hs input bigint soft native)
   \<and> with_store hs (runAsync (archive_facade cwd) (hs_store hs) (readdirPromise (archive_facade cwd) input opts) native) =
        readdirSync (archive_facade cwd) hs input opts native
   \<and> with_store hs (runAsync (archive_facade cwd) (hs_store hs) (accessPromise input mode) native) =
        accessSync (archive_facade cwd) hs input mode native
   \<and> with_store hs (runAsync (archive_facade cwd) (hs_store hs) (readlinkPromise input opts) native) =
        readlinkSync (archive_facade cwd) hs input opts native
   \<and> (case makeRealpathPromise to_text operation (archive_facade cwd) (hs_store hs) input opts native of
        (r, s) \<Rightarrow> (r, hs\<lparr>hs_store := s\<rparr>)) = makeRealpathSync to_text operation (archive_facade cwd) hs input opts native
   \<and> opendirPromise (archive_facade cwd) hs input opts opened listing =
        opendirSync (archive_facade cwd) hs input opts opened listing
   \<and> (fst (readFilePromise to_text (archive_facade cwd) ps (PathInput input) opts native),
       hook_state.truncate (snd (readFilePromise to_text (archive_facade cwd) ps (PathInput input) opts native))) =
        readFileSync to_text (archive_facade cwd) (hook_state.truncate ps) (PathInput input) opts native
   \<and> (readonlyFlags flags \<longrightarrow>
        (case openPromise (archive_facade cwd) ps input flags natives of (r, ps') \<Rightarrow> (r, hs_store ps', hs_next ps')) =
        (case openSync (archive_facade cwd) (hook_state.truncate ps) input flags natives of
           (r, hs') \<Rightarrow> (r, hs_store hs', hs_next hs')))"
proof -
  have recorded: "\<exists>ar3. runAsync_finish (archive_facade cwd) ar2 c (Some k) native = (fst (settled (ca_encode c) native ar2), ar3)
      \<and> knows ar3 k (ca_operation c) (snd (settled (ca_encode c) native ar2))"
    if "hook_call cwd c" "ar_mode ar2 = Record" for c k ar2
    by (rule finish_records [OF that(2) hook_call_keeps_mode [OF that(1)]])
      (simp add: recordable_def hook_call_valid [OF that(1)])
  have forms: "with_store hs (runAsync F (hs_store hs) (readdirPromise F input opts) native) = readdirSync F hs input opts native"
    "with_store hs (runAsync F (hs_store hs) (accessPromise input mode) native) = accessSync F hs input mode native"
    "with_store hs (runAsync F (hs_store hs) (readlinkPromise input opts) native) = readlinkSync F hs input opts native" for F
    by (simp_all add: readdirSync_def accessSync_def readlinkSync_def runAsync_runSync readdirPromise_def accessPromise_def
        readlinkPromise_def)
  have realpath: "(case makeRealpathPromise to_text operation F (hs_store hs) input opts native of (r, s) \<Rightarrow> (r, hs\<lparr>hs_store := s\<rparr>))
      = makeRealpathSync to_text operation F hs input opts native" for F
    by (simp add: makeRealpathSync_def makeRealpathPromise_def runAsync_runSync realpath_call_def with_store_def map_value_def)
  have opendir: "opendirPromise F hs input opts opened listing = opendirSync F hs input opts opened listing" for F
    unfolding opendirSync_def opendirPromise_def Let_def by (rule refl)
  show ?thesis
    apply (intro conjI allI impI)
    subgoal by (rule recorded)
    subgoal by (rule stat_promise_like_sync [OF assms])
    subgoal by (rule forms)
    subgoal by (rule forms)
    subgoal by (rule forms)
    subgoal by (rule realpath)
    subgoal by (rule opendir)
    subgoal by (rule readFile_promise_like_sync)
    subgoal by (rule open_promise_like_sync)
    done
qed

theorem promise_forms_match_sync_forms_witness:
  "(\<exists>ar3. runAsync_finish (archive_facade ''/'') sample_archive
      (makeStatPromise id id ''stat'' (StringPath ''/work/app/a'') False None) (Some ''a'') (Inr (JsStats sample_stat)) =
        (Inr (JsStats sample_stat), ar3)
      \<and> knows ar3 ''a'' ''stat:number:throw'' (Success (StatValue (snapshotStat sample_stat))))
   \<and> with_store \<lparr>hs_store = sample_archive, hs_descriptors = [], hs_next = initial_fd\<rparr>
       (runAsync (archive_facade ''/'') sample_archive
          (makeStatPromise id id ''stat'' (StringPath ''/work/app/a'') False None) (Inr (JsStats sample_stat))) =
     makeStatSync id id ''stat'' (archive_facade ''/'') \<lparr>hs_store = sample_archive, hs_descriptors = [], hs_next = initial_fd\<rparr>
       (StringPath ''/work/app/a'') False None (Inr (JsStats sample_stat))"
proof -
  let ?hs = "\<lparr>hs_store = sample_archive, hs_descriptors = [], hs_next = initial_fd\<rparr>"
  let ?c = "makeStatPromise id id ''stat'' (StringPath ''/work/app/a'') False None :: archive fs_call"
  have "wf_archive (hs_store ?hs)" by (simp add: wf_archive_def)
  note all = promise_forms_match_sync_forms [OF this, where cwd = "''/''" and native = "Inr (JsStats sample_stat)"
      and tn = id and ns = id and input = "StringPath ''/work/app/a''" and bigint = False and soft = None]
  have call: "hook_call ''/'' ?c" by (rule call_stat) simp
  have "\<exists>ar3. runAsync_finish (archive_facade ''/'') sample_archive ?c (Some ''a'') (Inr (JsStats sample_stat)) =
      (fst (settled (ca_encode ?c) (Inr (JsStats sample_stat)) sample_archive), ar3)
      \<and> knows ar3 ''a'' (ca_operation ?c) (snd (settled (ca_encode ?c) (Inr (JsStats sample_stat)) sample_archive))"
    by (rule all [THEN conjunct1, rule_format, OF call]) simp
  then show ?thesis using all [THEN conjunct2, THEN conjunct1, rule_format, of "''stat''"]
    by (simp add: settled_def makeStatPromise_def statOperation_def)
qed

section \<open>Installation\<close>

text \<open>
  C12. No filesystem operation bypasses the cache. After the installation the modules export
  the same names; while an analysis is active no function of \<open>fs/promises\<close>, and none of \<open>fs\<close>
  apart from the listed values and classes, runs the native code, and the handled operations
  run their cached implementation; with no active analysis every function runs natively.
\<close>

theorem installed_operations_go_through_cache:
  assumes "installPatches m p = Inr (m', p')"
  shows "js_keys m' = js_keys m \<and> js_keys p' = js_keys p
    \<and> (\<forall>name v. map_of m' name = Some v \<longrightarrow> name \<notin> set FS_NON_OPERATION_EXPORTS \<longrightarrow> call_export True v \<noteq> RunsNative)
    \<and> (\<forall>name v. map_of p' name = Some v \<longrightarrow> call_export True v \<noteq> RunsNative)
    \<and> (\<forall>name\<in>set patched_fs. \<exists>v. map_of m' name = Some v \<and> call_export True v = RunsCached name)
    \<and> (\<forall>name\<in>set patched_promises. \<exists>v. map_of p' name = Some v \<and> call_export True v = RunsCached name)
    \<and> (\<forall>name v. map_of m' name = Some v \<or> map_of p' name = Some v \<longrightarrow> v = OtherExport \<or> call_export False v = RunsNative)"
proof -
  obtain a b a' b' where f: "patch_all \<lparr>pt_module = m, pt_patched = []\<rparr> patched_fs = Inr a"
    "guardUnhandledFilesystemOperations FS_NON_OPERATION_EXPORTS False a = Inr a'" "m' = pt_module a'"
    and g: "patch_all \<lparr>pt_module = p, pt_patched = []\<rparr> patched_promises = Inr b"
    "guardUnhandledFilesystemOperations [] True b = Inr b'" "p' = pt_module b'"
    by (rule installPatches_parts [OF assms])
  note F = module_guarded [OF f(1,2), folded f(3)] and G = module_guarded [OF g(1,2), folded g(3)]
  have "\<forall>name v. map_of p' name = Some v \<longrightarrow> call_export True v \<noteq> RunsNative" using G by simp
  moreover have "v = OtherExport \<or> call_export False v = RunsNative" for v by (cases v) simp_all
  ultimately show ?thesis using F G by (elim conjE) (intro conjI, assumption+, simp)
qed

definition sample_fs_module :: fs_module where
  "sample_fs_module = map (\<lambda>name. (name, FunctionExport (name = ''realpath''))) patched_fs
     @ [(''constants'', OtherExport), (''Dir'', FunctionExport False), (''writeFile'', FunctionExport False)]"

definition sample_promises_module :: fs_module where
  "sample_promises_module = map (\<lambda>name. (name, FunctionExport False)) patched_promises @ [(''watch'', FunctionExport False)]"

theorem installed_operations_go_through_cache_witness:
  "\<exists>m' p'. installPatches sample_fs_module sample_promises_module = Inr (m', p')
    \<and> (\<forall>v. map_of m' ''writeFile'' = Some v \<longrightarrow> call_export True v \<noteq> RunsNative)"
proof -
  have "\<not> isl (installPatches sample_fs_module sample_promises_module)" by code_simp
  then obtain m' p' where i: "installPatches sample_fs_module sample_promises_module = Inr (m', p')"
    by (cases "installPatches sample_fs_module sample_promises_module") auto
  have "''writeFile'' \<notin> set FS_NON_OPERATION_EXPORTS" by (simp add: FS_NON_OPERATION_EXPORTS_def)
  then show ?thesis using installed_operations_go_through_cache [OF i] i by blast
qed

end
