(* ===== verification/Analysis_Queue.thy ===== *)
theory Analysis_Queue
  imports Prelude
begin

text \<open>
  \<open>packages/grpc/src/analyze-project-server-queue.ts\<close>: the queue of analysis requests. One
  entry is active, up to a maximum wait in order of arrival. An entry is known by the number of
  its admission; what the queue does to the outside (starting a run, settling the promise of a
  submission, asking for a cancellation) is appended to a log. Promise callbacks are the
  operations \<open>complete\<close> and \<open>cancellation_settled\<close>, which may come at any time.
\<close>

section \<open>State\<close>

definition MAX_PENDING_ANALYSIS_REQUESTS :: nat where
  "MAX_PENDING_ANALYSIS_REQUESTS = 4"

datatype entry_state = Active | Pending | Settled

text \<open>\<open>cancellationResult\<close> is the number of the cancellation that was asked for.\<close>

record queue_entry =
  qe_state :: entry_state
  qe_cancellation :: "nat option"

datatype 'e rejection = AnalysisQueueClosedError | AnalysisTransportCancelledError | RunFailed 'e

datatype ('v, 'e) settlement = Resolved 'v | Rejected "'e rejection"

datatype ('v, 'e) queue_event = Started nat | Settles nat "('v, 'e) settlement" | CancellationRequested nat nat

record ('v, 'e) queue =
  q_active :: "nat option"
  q_closed :: bool
  q_pending :: "nat list"
  q_maxPending :: nat
  q_entries :: "nat \<Rightarrow> queue_entry option"
  q_next :: nat
  q_cancellations :: nat
  q_log :: "('v, 'e) queue_event list"

section \<open>Operations\<close>

datatype queue_error = InvalidMaxPending

text \<open>The argument of the constructor, if it is an integer.\<close>

definition new_queue :: "int option \<Rightarrow> queue_error + ('v, 'e) queue" where
  "new_queue maxPending =
     (case maxPending of
        None \<Rightarrow> Inl InvalidMaxPending
      | Some m \<Rightarrow>
          if m < 0 then Inl InvalidMaxPending
          else Inr \<lparr>q_active = None, q_closed = False, q_pending = [], q_maxPending = nat m,
                 q_entries = (\<lambda>_. None), q_next = 0, q_cancellations = 0, q_log = []\<rparr>)"

definition entry_state_of :: "('v, 'e) queue \<Rightarrow> nat \<Rightarrow> entry_state option" where
  "entry_state_of q i = map_option qe_state (q_entries q i)"

definition set_entry_state :: "nat \<Rightarrow> entry_state \<Rightarrow> ('v, 'e) queue \<Rightarrow> ('v, 'e) queue" where
  "set_entry_state i st q =
     (case q_entries q i of
        None \<Rightarrow> q
      | Some e \<Rightarrow> q\<lparr>q_entries := (q_entries q)(i \<mapsto> e\<lparr>qe_state := st\<rparr>)\<rparr>)"

definition emit :: "('v, 'e) queue_event \<Rightarrow> ('v, 'e) queue \<Rightarrow> ('v, 'e) queue" where
  "emit ev q = q\<lparr>q_log := q_log q @ [ev]\<rparr>"

definition start :: "nat \<Rightarrow> ('v, 'e) queue \<Rightarrow> ('v, 'e) queue" where
  "start i q = emit (Started i) ((set_entry_state i Active q)\<lparr>q_active := Some i\<rparr>)"

datatype admission = Accepted nat | RefusedClosed | RefusedFull

definition enqueue :: "('v, 'e) queue \<Rightarrow> admission \<times> ('v, 'e) queue" where
  "enqueue q =
     (if q_closed q then (RefusedClosed, q)
      else if q_active q \<noteq> None \<and> q_maxPending q \<le> length (q_pending q) then (RefusedFull, q)
      else
        (let i = q_next q;
             st = (if q_active q \<noteq> None then Pending else Active);
             q1 = q\<lparr>q_entries := (q_entries q)(i \<mapsto> \<lparr>qe_state = st, qe_cancellation = None\<rparr>), q_next := i + 1\<rparr>
         in (Accepted i, if q_active q \<noteq> None then q1\<lparr>q_pending := q_pending q1 @ [i]\<rparr> else start i q1)))"

definition complete :: "nat \<Rightarrow> ('v, 'e) settlement \<Rightarrow> ('v, 'e) queue \<Rightarrow> ('v, 'e) queue" where
  "complete i r q =
     (if entry_state_of q i \<noteq> Some Active \<or> q_active q \<noteq> Some i then q
      else
        (let q1 = (set_entry_state i Settled q)\<lparr>q_active := None\<rparr>;
             q2 = (case q_pending q1 of [] \<Rightarrow> q1 | n # ps \<Rightarrow> start n (q1\<lparr>q_pending := ps\<rparr>))
         in emit (Settles i r) q2))"

text \<open>The result: whether the entry is active, and the number of its cancellation.\<close>

definition cancelEntry :: "nat \<Rightarrow> ('v, 'e) queue \<Rightarrow> nat option \<times> ('v, 'e) queue" where
  "cancelEntry i q =
     (if entry_state_of q i = Some Pending then
        (None, emit (Settles i (Rejected AnalysisTransportCancelledError))
           (set_entry_state i Settled (q\<lparr>q_pending := remove1 i (q_pending q)\<rparr>)))
      else if entry_state_of q i \<noteq> Some Active \<or> q_active q \<noteq> Some i then (None, q)
      else
        (case q_entries q i of
           None \<Rightarrow> (None, q)
         | Some e \<Rightarrow>
             (case qe_cancellation e of
                Some c \<Rightarrow> (Some c, q)
              | None \<Rightarrow>
                  (let c = q_cancellations q in
                   (Some c, emit (CancellationRequested i c)
                      (q\<lparr>q_cancellations := c + 1, q_entries := (q_entries q)(i \<mapsto> e\<lparr>qe_cancellation := Some c\<rparr>)\<rparr>))))))"

text \<open>The promise of a cancellation settles; \<open>acknowledged\<close> is false for a rejection, too.\<close>

definition cancellation_settled :: "nat \<Rightarrow> nat \<Rightarrow> bool \<Rightarrow> ('v, 'e) queue \<Rightarrow> ('v, 'e) queue" where
  "cancellation_settled i c acknowledged q =
     (case q_entries q i of
        None \<Rightarrow> q
      | Some e \<Rightarrow>
          if \<not> acknowledged \<and> qe_cancellation e = Some c
          then q\<lparr>q_entries := (q_entries q)(i \<mapsto> e\<lparr>qe_cancellation := None\<rparr>)\<rparr> else q)"

definition cancelActiveAnalysis :: "('v, 'e) queue \<Rightarrow> nat option \<times> ('v, 'e) queue" where
  "cancelActiveAnalysis q = (case q_active q of None \<Rightarrow> (None, q) | Some i \<Rightarrow> cancelEntry i q)"

definition reject_closed :: "nat \<Rightarrow> ('v, 'e) queue \<Rightarrow> ('v, 'e) queue" where
  "reject_closed i q = emit (Settles i (Rejected AnalysisQueueClosedError)) (set_entry_state i Settled q)"

text \<open>The entries of the queue, the active one first.\<close>

definition queue_line :: "('v, 'e) queue \<Rightarrow> nat list" where
  "queue_line q = (case q_active q of None \<Rightarrow> q_pending q | Some i \<Rightarrow> i # q_pending q)"

definition close_queue :: "('v, 'e) queue \<Rightarrow> ('v, 'e) queue" where
  "close_queue q =
     (if q_closed q then q
      else fold reject_closed (queue_line q) (q\<lparr>q_closed := True, q_active := None, q_pending := []\<rparr>))"

definition hasActive :: "('v, 'e) queue \<Rightarrow> bool" where
  "hasActive q \<longleftrightarrow> q_active q \<noteq> None"

definition pendingCount :: "('v, 'e) queue \<Rightarrow> nat" where
  "pendingCount q = length (q_pending q)"

section \<open>Invariant\<close>

text \<open>Which entries the log settles and starts.\<close>

definition settled_in :: "('v, 'e) queue_event list \<Rightarrow> nat list" where
  "settled_in log = concat (map (\<lambda>ev. case ev of Settles i r \<Rightarrow> [i] | _ \<Rightarrow> []) log)"

definition started_in :: "('v, 'e) queue_event list \<Rightarrow> nat list" where
  "started_in log = concat (map (\<lambda>ev. case ev of Started i \<Rightarrow> [i] | _ \<Rightarrow> []) log)"

text \<open>
  The line is in order of admission, and every admitted entry is active, pending or settled
  accordingly; promises are settled exactly for the settled entries, once; runs were started in
  order of admission, never beyond the active entry.
\<close>

definition states_ok :: "('v, 'e) queue \<Rightarrow> bool" where
  "states_ok q \<longleftrightarrow>
     (\<forall>i. entry_state_of q i =
        (if i < q_next q then
           Some (if q_active q = Some i then Active else if i \<in> set (q_pending q) then Pending else Settled)
         else None))"

definition line_ok :: "('v, 'e) queue \<Rightarrow> bool" where
  "line_ok q \<longleftrightarrow>
     sorted_wrt (<) (queue_line q) \<and> (\<forall>i\<in>set (queue_line q). i < q_next q)
     \<and> length (q_pending q) \<le> q_maxPending q
     \<and> (q_active q = None \<longrightarrow> q_pending q = []) \<and> (q_closed q \<longrightarrow> q_active q = None)"

definition log_ok :: "('v, 'e) queue \<Rightarrow> bool" where
  "log_ok q \<longleftrightarrow>
     distinct (settled_in (q_log q))
     \<and> set (settled_in (q_log q)) = {i. i < q_next q} - set (queue_line q)
     \<and> sorted_wrt (<) (started_in (q_log q))
     \<and> (\<forall>i\<in>set (started_in (q_log q)). i < q_next q \<and> (\<forall>j\<in>set (q_pending q). i < j))
     \<and> (\<forall>i. q_active q = Some i \<longrightarrow> i \<in> set (started_in (q_log q)))"

definition queue_ok :: "('v, 'e) queue \<Rightarrow> bool" where
  "queue_ok q \<longleftrightarrow> states_ok q \<and> line_ok q \<and> log_ok q"

section \<open>Fields after the helpers\<close>

lemma set_entry_state_fields [simp]:
  "q_active (set_entry_state i st q) = q_active q" "q_closed (set_entry_state i st q) = q_closed q"
  "q_pending (set_entry_state i st q) = q_pending q" "q_maxPending (set_entry_state i st q) = q_maxPending q"
  "q_next (set_entry_state i st q) = q_next q" "q_log (set_entry_state i st q) = q_log q"
  "q_cancellations (set_entry_state i st q) = q_cancellations q"
  by (simp_all add: set_entry_state_def split: option.split)

lemma emit_fields [simp]:
  "q_active (emit ev q) = q_active q" "q_closed (emit ev q) = q_closed q" "q_pending (emit ev q) = q_pending q"
  "q_maxPending (emit ev q) = q_maxPending q" "q_next (emit ev q) = q_next q" "q_entries (emit ev q) = q_entries q"
  "q_log (emit ev q) = q_log q @ [ev]" "q_cancellations (emit ev q) = q_cancellations q"
  by (simp_all add: emit_def)

lemma entry_state_simps [simp]:
  "entry_state_of (emit ev q) j = entry_state_of q j"
  "entry_state_of (q\<lparr>q_active := a\<rparr>) j = entry_state_of q j"
  "entry_state_of (q\<lparr>q_pending := ps\<rparr>) j = entry_state_of q j"
  "entry_state_of (q\<lparr>q_closed := b\<rparr>) j = entry_state_of q j"
  "entry_state_of (set_entry_state i st q) j =
     (if i = j then (if entry_state_of q i = None then None else Some st) else entry_state_of q j)"
  by (auto simp: entry_state_of_def set_entry_state_def split: option.split)

lemma started_in_simps [simp]:
  "started_in [] = []" "started_in (l @ [Started i]) = started_in l @ [i]"
  "started_in (l @ [Settles i r]) = started_in l" "started_in (l @ [CancellationRequested i c]) = started_in l"
  by (simp_all add: started_in_def)

lemma settled_in_simps [simp]:
  "settled_in [] = []" "settled_in (l @ [Started i]) = settled_in l"
  "settled_in (l @ [Settles i r]) = settled_in l @ [i]" "settled_in (l @ [CancellationRequested i c]) = settled_in l"
  by (simp_all add: settled_in_def)

lemma queue_line_simps [simp]:
  "queue_line (emit ev q) = queue_line q" "queue_line (set_entry_state i st q) = queue_line q"
  by (simp_all add: queue_line_def split: option.split)

section \<open>The operations keep the invariant\<close>

lemma new_queue_ok: "new_queue m = Inr q \<Longrightarrow> queue_ok q"
  by (auto simp: new_queue_def queue_ok_def states_ok_def line_ok_def log_ok_def queue_line_def entry_state_of_def
      split: option.splits if_splits)

lemma entry_state_new [simp]:
  "entry_state_of (q\<lparr>q_entries := (q_entries q)(i \<mapsto> e), q_next := n\<rparr>) j =
     (if i = j then Some (qe_state e) else entry_state_of q j)"
  by (simp add: entry_state_of_def)

text \<open>What an accepted submission changes.\<close>

lemma enqueue_accepted:
  assumes "enqueue q = (Accepted i, q')" "line_ok q"
  shows "i = q_next q \<and> q_next q' = Suc i \<and> queue_line q' = queue_line q @ [i] \<and> q_maxPending q' = q_maxPending q
    \<and> q_closed q' = q_closed q \<and> \<not> q_closed q
    \<and> (\<forall>j. entry_state_of q' j = (if j = i then Some (if q_active q = None then Active else Pending) else entry_state_of q j))
    \<and> (if q_active q = None then q_active q' = Some i \<and> q_pending q' = [] \<and> q_log q' = q_log q @ [Started i]
       else q_active q' = q_active q \<and> q_pending q' = q_pending q @ [i] \<and> q_log q' = q_log q
         \<and> length (q_pending q) < q_maxPending q)"
proof -
  have op: "\<not> q_closed q" "q_active q = None \<or> length (q_pending q) < q_maxPending q" "i = q_next q"
    using assms(1) by (auto simp: enqueue_def Let_def not_le split: if_splits)
  show ?thesis
  proof (cases "q_active q")
    case None
    then have "q_pending q = []" using assms(2) by (simp add: line_ok_def)
    moreover have "q' = start i (q\<lparr>q_entries := (q_entries q)(i \<mapsto> \<lparr>qe_state = Active, qe_cancellation = None\<rparr>), q_next := Suc i\<rparr>)"
      using assms(1) None op by (simp add: enqueue_def Let_def)
    ultimately show ?thesis using op None by (simp add: start_def queue_line_def)
  next
    case (Some a)
    then have "q' = q\<lparr>q_entries := (q_entries q)(i \<mapsto> \<lparr>qe_state = Pending, qe_cancellation = None\<rparr>), q_next := Suc i,
        q_pending := q_pending q @ [i]\<rparr>"
      using assms(1) op by (simp add: enqueue_def Let_def)
    then show ?thesis using op Some by (simp add: queue_line_def)
  qed
qed

lemma enqueue_ok:
  assumes "enqueue q = (Accepted i, q')" "queue_ok q"
  shows "queue_ok q'"
proof -
  have ok: "states_ok q" "line_ok q" "log_ok q" using assms(2) by (simp_all add: queue_ok_def)
  note e = enqueue_accepted [OF assms(1) ok(2)]
  have fresh: "j < i" if "j \<in> set (queue_line q)" for j using ok(2) e that by (simp add: line_ok_def)
  have "line_ok q'"
    using ok(2) e fresh by (auto simp: line_ok_def sorted_wrt_append less_Suc_eq split: if_splits)
  moreover have "states_ok q'"
    using ok(1,2) e fresh by (auto simp: states_ok_def line_ok_def queue_line_def less_Suc_eq split: if_splits)
  moreover have "log_ok q'"
    using ok(2,3) e fresh
    by (auto simp: log_ok_def line_ok_def queue_line_def sorted_wrt_append less_Suc_eq split: if_splits)
  ultimately show ?thesis by (simp add: queue_ok_def)
qed

text \<open>A completion of the active entry, and of any other.\<close>

lemma complete_other:
  assumes "queue_ok q" "q_active q \<noteq> Some i"
  shows "complete i r q = q"
  using assms by (simp add: complete_def)

lemma complete_active_entry:
  assumes "queue_ok q" "q_active q = Some i"
  shows "queue_line (complete i r q) = q_pending q \<and> q_next (complete i r q) = q_next q
    \<and> q_maxPending (complete i r q) = q_maxPending q \<and> q_closed (complete i r q) = q_closed q
    \<and> q_active (complete i r q) = (case q_pending q of [] \<Rightarrow> None | n # ps \<Rightarrow> Some n)
    \<and> q_pending (complete i r q) = tl (q_pending q)
    \<and> q_log (complete i r q) = q_log q @ (case q_pending q of [] \<Rightarrow> [] | n # ps \<Rightarrow> [Started n]) @ [Settles i r]
    \<and> (\<forall>j. entry_state_of (complete i r q) j = (if j = i then Some Settled
         else if q_pending q \<noteq> [] \<and> j = hd (q_pending q) then Some Active else entry_state_of q j))"
proof -
  have st: "entry_state_of q i = Some Active" "i < q_next q" "i \<notin> set (q_pending q)"
    and pend: "\<And>n ps. q_pending q = n # ps \<Longrightarrow> entry_state_of q n = Some Pending"
    using assms by (auto simp: queue_ok_def states_ok_def line_ok_def queue_line_def)
  show ?thesis
  proof (cases "q_pending q")
    case Nil
    then show ?thesis using st assms(2) by (simp add: complete_def queue_line_def)
  next
    case (Cons n ps)
    then show ?thesis using st assms(2) pend [OF Cons] by (auto simp: complete_def queue_line_def start_def)
  qed
qed

lemma complete_ok:
  assumes "queue_ok q"
  shows "queue_ok (complete i r q)"
proof (cases "q_active q = Some i")
  case True
  have ok: "states_ok q" "line_ok q" "log_ok q" using assms by (simp_all add: queue_ok_def)
  note c = complete_active_entry [OF assms True, of r]
  let ?q = "complete i r q"
  have closed: "\<not> q_closed q" using ok(2) True by (auto simp: line_ok_def)
  show ?thesis
  proof (cases "q_pending q")
    case Nil
    then show ?thesis
      using ok c True closed
      by (auto simp: queue_ok_def states_ok_def line_ok_def log_ok_def queue_line_def)
  next
    case (Cons n ps)
    have "line_ok ?q" using ok(2) c True Cons closed by (auto simp: line_ok_def queue_line_def)
    moreover have "states_ok ?q" using ok(1,2) c True Cons by (auto simp: states_ok_def line_ok_def queue_line_def)
    moreover have "settled_in (q_log ?q) = settled_in (q_log q) @ [i]" "started_in (q_log ?q) = started_in (q_log q) @ [n]"
      using c Cons settled_in_simps(2,3) started_in_simps(2,3)
      by (simp_all add: settled_in_def started_in_def)
    then have "log_ok ?q"
      using ok(2,3) c True Cons by (auto simp: log_ok_def line_ok_def queue_line_def sorted_wrt_append)
    ultimately show ?thesis by (simp add: queue_ok_def)
  qed
qed (simp add: complete_other assms)

lemma entry_state_cancellation [simp]:
  "q_entries q i = Some e \<Longrightarrow>
     entry_state_of (q\<lparr>q_cancellations := c, q_entries := (q_entries q)(i \<mapsto> e\<lparr>qe_cancellation := x\<rparr>)\<rparr>) j = entry_state_of q j"
  "q_entries q i = Some e \<Longrightarrow>
     entry_state_of (q\<lparr>q_entries := (q_entries q)(i \<mapsto> e\<lparr>qe_cancellation := x\<rparr>)\<rparr>) j = entry_state_of q j"
  by (simp_all add: entry_state_of_def)

text \<open>Cancelling a waiting entry withdraws it; cancelling another one changes no line, state or run.\<close>

lemma cancel_pending:
  assumes "queue_ok q" "i \<in> set (q_pending q)"
  shows "fst (cancelEntry i q) = None \<and> (let q' = snd (cancelEntry i q) in
      q_active q' = q_active q \<and> q_pending q' = remove1 i (q_pending q) \<and> q_next q' = q_next q
      \<and> q_maxPending q' = q_maxPending q \<and> q_closed q' = q_closed q
      \<and> q_log q' = q_log q @ [Settles i (Rejected AnalysisTransportCancelledError)]
      \<and> (\<forall>j. entry_state_of q' j = (if j = i then Some Settled else entry_state_of q j)))"
proof -
  have "entry_state_of q i = Some Pending"
    using assms by (auto simp: queue_ok_def states_ok_def line_ok_def queue_line_def split: option.splits)
  then show ?thesis by (simp add: cancelEntry_def Let_def)
qed

lemma cancel_not_pending:
  assumes "queue_ok q" "i \<notin> set (q_pending q)"
  shows "(let q' = snd (cancelEntry i q) in
      q_active q' = q_active q \<and> q_pending q' = q_pending q \<and> q_next q' = q_next q
      \<and> q_maxPending q' = q_maxPending q \<and> q_closed q' = q_closed q
      \<and> settled_in (q_log q') = settled_in (q_log q) \<and> started_in (q_log q') = started_in (q_log q)
      \<and> (\<forall>j. entry_state_of q' j = entry_state_of q j))"
proof -
  have "entry_state_of q i \<noteq> Some Pending"
    using assms by (auto simp: queue_ok_def states_ok_def)
  then show ?thesis by (auto simp: cancelEntry_def Let_def split: option.split)
qed

text \<open>The invariant depends on these fields only.\<close>

lemma queue_ok_cong:
  assumes "queue_ok q" "q_active q' = q_active q" "q_pending q' = q_pending q" "q_next q' = q_next q"
    "q_maxPending q' = q_maxPending q" "q_closed q' = q_closed q"
    "settled_in (q_log q') = settled_in (q_log q)" "started_in (q_log q') = started_in (q_log q)"
    "\<And>j. entry_state_of q' j = entry_state_of q j"
  shows "queue_ok q'"
proof -
  have "queue_line q' = queue_line q" using assms(2,3) by (simp add: queue_line_def split: option.split)
  with assms show ?thesis by (simp add: queue_ok_def states_ok_def line_ok_def log_ok_def)
qed

lemma cancel_ok:
  assumes "queue_ok q"
  shows "queue_ok (snd (cancelEntry i q))"
proof (cases "i \<in> set (q_pending q)")
  case True
  let ?q = "snd (cancelEntry i q)"
  have ok: "states_ok q" "line_ok q" "log_ok q" using assms by (simp_all add: queue_ok_def)
  note c = cancel_pending [OF assms True, unfolded Let_def]
  obtain a where a: "q_active q = Some a" using True ok(2) by (cases "q_active q") (auto simp: line_ok_def)
  have sorted: "sorted_wrt (<) (q_pending q)" "\<forall>j\<in>set (q_pending q). a < j" and i: "i < q_next q"
    and len: "length (q_pending q) \<le> q_maxPending q"
    using ok(2) a True by (auto simp: line_ok_def queue_line_def)
  have d: "distinct (q_pending q)" using sorted(1) strict_sorted_iff by blast
  then have rem: "set (remove1 i (q_pending q)) = set (q_pending q) - {i}" by simp
  have "sorted_wrt (<) (remove1 i (q_pending q))"
    using sorted(1) d strict_sorted_iff sorted_remove1 distinct_remove1 by metis
  moreover have "length (remove1 i (q_pending q)) \<le> q_maxPending q" using len by (auto simp: length_remove1)
  ultimately have "line_ok ?q" using ok(2) c a rem sorted by (auto simp: line_ok_def queue_line_def)
  moreover have "states_ok ?q" using ok(1) c a rem sorted i True by (auto simp: states_ok_def)
  moreover have "log_ok ?q" using ok(3) c a rem sorted(2) True i by (auto simp: log_ok_def queue_line_def)
  ultimately show ?thesis by (simp add: queue_ok_def)
next
  case False
  show ?thesis
    by (rule queue_ok_cong [OF assms]) (use cancel_not_pending [OF assms False] in \<open>simp_all add: Let_def\<close>)
qed

lemma cancellation_settled_ok: "queue_ok q \<Longrightarrow> queue_ok (cancellation_settled i c b q)"
  by (erule queue_ok_cong) (auto simp: cancellation_settled_def split: option.split)

lemma fold_reject_closed:
  "q_log (fold reject_closed is q) = q_log q @ map (\<lambda>i. Settles i (Rejected AnalysisQueueClosedError)) is
   \<and> q_active (fold reject_closed is q) = q_active q \<and> q_pending (fold reject_closed is q) = q_pending q
   \<and> q_next (fold reject_closed is q) = q_next q \<and> q_maxPending (fold reject_closed is q) = q_maxPending q
   \<and> q_closed (fold reject_closed is q) = q_closed q
   \<and> (\<forall>j. entry_state_of (fold reject_closed is q) j =
        (if j \<in> set is \<and> entry_state_of q j \<noteq> None then Some Settled else entry_state_of q j))"
  by (induction "is" arbitrary: q) (auto simp: reject_closed_def)

lemma close_result:
  assumes "queue_ok q"
  shows "queue_ok (close_queue q) \<and> q_closed (close_queue q) \<and> queue_line (close_queue q) = []
    \<and> q_next (close_queue q) = q_next q"
proof (cases "q_closed q")
  case True
  then show ?thesis using assms by (auto simp: close_queue_def queue_ok_def line_ok_def queue_line_def)
next
  case False
  let ?q0 = "q\<lparr>q_closed := True, q_active := None, q_pending := []\<rparr>"
  have ok: "states_ok q" "line_ok q" "log_ok q" using assms by (simp_all add: queue_ok_def)
  have q: "close_queue q = fold reject_closed (queue_line q) ?q0" using False by (simp add: close_queue_def)
  note f = fold_reject_closed [of "queue_line q" ?q0, folded q]
  have d: "distinct (queue_line q)" using ok(2) strict_sorted_iff by (auto simp: line_ok_def)
  have settled: "settled_in (q_log q @ map (\<lambda>i. Settles i (Rejected AnalysisQueueClosedError)) is) = settled_in (q_log q) @ is"
    for "is" by (simp add: settled_in_def comp_def)
  have started: "started_in (q_log q @ map (\<lambda>i. Settles i (Rejected AnalysisQueueClosedError)) is) = started_in (q_log q)"
    for "is" by (simp add: started_in_def comp_def)
  have line: "queue_line (close_queue q) = []" using f by (simp add: queue_line_def)
  then have "line_ok (close_queue q)" using f by (simp add: line_ok_def)
  moreover have "states_ok (close_queue q)"
    using ok(1,2) f by (auto simp: states_ok_def line_ok_def queue_line_def split: option.splits if_splits)
  moreover have "log_ok (close_queue q)"
    using ok(2,3) f line settled started d by (auto simp: log_ok_def line_ok_def)
  ultimately show ?thesis using f line by (simp add: queue_ok_def)
qed

section \<open>The queue as a line\<close>

text \<open>
  What the server relies on: submissions join the end of a line, completing the first removes
  it, withdrawing removes one from behind the first, and nothing else moves the line.
\<close>

locale fifo_line =
  fixes line :: "'q \<Rightarrow> 'i list" and ok :: "'q \<Rightarrow> bool"
    and submit :: "'q \<Rightarrow> 'i option \<times> 'q" and finish :: "'i \<Rightarrow> 'q \<Rightarrow> 'q" and withdraw :: "'i \<Rightarrow> 'q \<Rightarrow> 'q"
  assumes submit_line: "ok q \<Longrightarrow> submit q = (Some i, q') \<Longrightarrow> ok q' \<and> line q' = line q @ [i]"
    and submit_refused: "ok q \<Longrightarrow> submit q = (None, q') \<Longrightarrow> q' = q"
    and finish_first: "ok q \<Longrightarrow> line q = i # is \<Longrightarrow> ok (finish i q) \<and> line (finish i q) = is"
    and finish_other: "ok q \<Longrightarrow> (\<And>is. line q \<noteq> i # is) \<Longrightarrow> finish i q = q"
    and withdraw_line: "ok q \<Longrightarrow> ok (withdraw i q) \<and>
      line (withdraw i q) = (case line q of [] \<Rightarrow> [] | j # is \<Rightarrow> j # (if i = j then is else remove1 i is))"
begin

text \<open>Serving completes the first of the line, again and again.\<close>

fun serve :: "nat \<Rightarrow> 'q \<Rightarrow> 'q" where
  "serve 0 q = q"
| "serve (Suc n) q = (case line q of [] \<Rightarrow> q | i # is \<Rightarrow> serve n (finish i q))"

lemma serve_line: "ok q \<Longrightarrow> ok (serve n q) \<and> line (serve n q) = drop n (line q)"
proof (induction n arbitrary: q)
  case (Suc n)
  show ?case
  proof (cases "line q")
    case (Cons i "is")
    then show ?thesis using finish_first [OF Suc.prems Cons] Suc.IH [of "finish i q"] by simp
  qed (use Suc.prems in simp)
qed simp

lemma served_in_turn: "ok q \<Longrightarrow> n < length (line q) \<Longrightarrow> \<exists>is. line (serve n q) = line q ! n # is"
  using serve_line [of q n] by (metis Cons_nth_drop_Suc)

lemma submission_waits_for_line:
  assumes "ok q" "submit q = (Some i, q')"
  shows "line (serve (length (line q)) q') = [i]"
proof -
  have "ok q'" "line q' = line q @ [i]" using submit_line [OF assms] by simp_all
  then show ?thesis using serve_line [of q' "length (line q)"] by simp
qed

end

fun admitted :: "admission \<Rightarrow> nat option" where
  "admitted (Accepted i) = Some i"
| "admitted _ = None"

definition submit_request :: "('v, 'e) queue \<Rightarrow> nat option \<times> ('v, 'e) queue" where
  "submit_request q = (admitted (fst (enqueue q)), snd (enqueue q))"

lemma submit_request_accepted: "submit_request q = (Some i, q') \<Longrightarrow> enqueue q = (Accepted i, q')"
  by (cases "enqueue q"; cases "fst (enqueue q)") (auto simp: submit_request_def)

lemma submit_request_refused: "submit_request q = (None, q') \<Longrightarrow> q' = q"
  by (auto simp: submit_request_def enqueue_def Let_def split: if_splits)

lemma complete_first:
  assumes "queue_ok q" "queue_line q = i # is"
  shows "queue_line (complete i r q) = is"
proof -
  have "q_active q = Some i \<and> q_pending q = is"
    using assms by (auto simp: queue_ok_def line_ok_def queue_line_def split: option.splits)
  then show ?thesis using complete_active_entry [OF assms(1)] by simp
qed

lemma cancel_line:
  assumes "queue_ok q"
  shows "queue_line (snd (cancelEntry i q)) =
    (case queue_line q of [] \<Rightarrow> [] | j # is \<Rightarrow> j # (if i = j then is else remove1 i is))"
proof (cases "q_active q")
  case None
  then have "queue_line q = []" "i \<notin> set (q_pending q)"
    using assms by (auto simp: queue_ok_def line_ok_def queue_line_def)
  then show ?thesis using cancel_not_pending [OF assms, of i] None by (simp add: Let_def queue_line_def)
next
  case (Some a)
  then have a: "a \<notin> set (q_pending q)" using assms by (auto simp: queue_ok_def line_ok_def queue_line_def)
  show ?thesis
  proof (cases "i \<in> set (q_pending q)")
    case True
    then show ?thesis using cancel_pending [OF assms True] Some a by (auto simp: Let_def queue_line_def)
  next
    case False
    then show ?thesis using cancel_not_pending [OF assms False] Some by (auto simp: Let_def queue_line_def remove1_idem)
  qed
qed

text \<open>The queue is such a line, whatever the runs result in.\<close>

interpretation aq: fifo_line queue_line queue_ok submit_request "\<lambda>i. complete i (results i)"
    "\<lambda>i q. snd (cancelEntry i q)" for results
proof unfold_locales
  fix q :: "('v, 'e) queue" and i q' results
  assume ok: "queue_ok q"
  { assume "submit_request q = (Some i, q')"
    then have e: "enqueue q = (Accepted i, q')" by (rule submit_request_accepted)
    then show "queue_ok q' \<and> queue_line q' = queue_line q @ [i]"
      using enqueue_ok [OF e ok] enqueue_accepted [OF e] ok by (simp add: queue_ok_def) }
  { assume "submit_request q = (None, q')"
    then show "q' = q" by (rule submit_request_refused) }
  { fix "is" assume "queue_line q = i # is"
    then show "queue_ok (complete i (results i) q) \<and> queue_line (complete i (results i) q) = is"
      using complete_ok [OF ok] complete_first [OF ok] by blast }
  { assume "\<And>is. queue_line q \<noteq> i # is"
    then have "queue_line q \<noteq> i # q_pending q" .
    then have "q_active q \<noteq> Some i" by (auto simp: queue_line_def)
    then show "complete i (results i) q = q" by (rule complete_other [OF ok]) }
  show "queue_ok (snd (cancelEntry i q)) \<and> queue_line (snd (cancelEntry i q)) =
    (case queue_line q of [] \<Rightarrow> [] | j # is \<Rightarrow> j # (if i = j then is else remove1 i is))"
    using cancel_ok [OF ok] cancel_line [OF ok] by blast
qed

section \<open>Runs\<close>

text \<open>The operations of the server and the answers of runs and cancellations, in any order.\<close>

inductive queue_step :: "('v, 'e) queue \<Rightarrow> ('v, 'e) queue \<Rightarrow> bool" where
  step_enqueue: "enqueue q = (a, q') \<Longrightarrow> queue_step q q'"
| step_complete: "queue_step q (complete i r q)"
| step_cancel: "cancelEntry i q = (c, q') \<Longrightarrow> queue_step q q'"
| step_cancelled: "queue_step q (cancellation_settled i c b q)"
| step_close: "queue_step q (close_queue q)"

inductive queue_run :: "('v, 'e) queue \<Rightarrow> bool" where
  queue_start: "new_queue m = Inr q \<Longrightarrow> queue_run q"
| queue_next: "queue_run q \<Longrightarrow> queue_step q q' \<Longrightarrow> queue_run q'"

lemma queue_step_ok: "queue_step q q' \<Longrightarrow> queue_ok q \<Longrightarrow> queue_ok q'"
proof (induction rule: queue_step.induct)
  case (step_enqueue q a q')
  then show ?case
  proof (cases "admitted a")
    case None
    then have "submit_request q = (None, q')" using step_enqueue(1) by (simp add: submit_request_def)
    then show ?thesis using step_enqueue(2) submit_request_refused by metis
  next
    case (Some i)
    then have "a = Accepted i" by (cases a) simp_all
    then show ?thesis using step_enqueue enqueue_ok by metis
  qed
next
  case (step_cancel i q c q')
  then show ?case using cancel_ok [of q i] by simp
qed (simp_all add: complete_ok cancellation_settled_ok close_result)

lemma queue_run_ok: "queue_run q \<Longrightarrow> queue_ok q"
  by (induction rule: queue_run.induct) (auto intro: new_queue_ok queue_step_ok)

section \<open>Properties\<close>

text \<open>
  C17. The queue is bounded and fair. In every reachable state at most the maximum wait behind
  the active request, and runs were started in order of admission, each of them being the
  active one or settled: no two runs overlap.
\<close>

theorem queue_bounded_and_fair:
  assumes "queue_run q"
  shows "length (q_pending q) \<le> q_maxPending q \<and> (q_active q = None \<longrightarrow> q_pending q = [])
    \<and> sorted_wrt (<) (started_in (q_log q))
    \<and> (\<forall>i\<in>set (started_in (q_log q)). q_active q = Some i \<or> i \<in> set (settled_in (q_log q)))"
  using queue_run_ok [OF assms]
  by (auto simp: queue_ok_def line_ok_def log_ok_def queue_line_def split: option.splits)

text \<open>
  C16. Every promise is settled exactly once. The promise of an admitted request is settled
  when, and only when, the request has left the queue: completed, withdrawn or rejected at
  closing; a late answer of a run or a cancellation settles nothing again.
\<close>

theorem promises_settled_once:
  assumes "queue_run q"
  shows "distinct (settled_in (q_log q))
    \<and> (i \<in> set (settled_in (q_log q)) \<longleftrightarrow> i < q_next q \<and> i \<notin> set (queue_line q))
    \<and> (i < q_next q \<longrightarrow> (entry_state_of q i = Some Settled \<longleftrightarrow> i \<in> set (settled_in (q_log q))))"
  using queue_run_ok [OF assms]
  by (auto simp: queue_ok_def log_ok_def states_ok_def queue_line_def split: option.splits if_splits)

text \<open>Completing the active run, again and again, with the given results.\<close>

fun serve_active :: "(nat \<Rightarrow> ('v, 'e) settlement) \<Rightarrow> nat \<Rightarrow> ('v, 'e) queue \<Rightarrow> ('v, 'e) queue" where
  "serve_active results 0 q = q"
| "serve_active results (Suc n) q =
     (case q_active q of None \<Rightarrow> q | Some i \<Rightarrow> serve_active results n (complete i (results i) q))"

lemma serve_active_serve: "queue_ok q \<Longrightarrow> serve_active results n q = aq.serve results n q"
proof (induction n arbitrary: q)
  case (Suc n)
  show ?case
  proof (cases "q_active q")
    case None
    then have "queue_line q = []" using Suc.prems by (simp add: queue_ok_def line_ok_def queue_line_def)
    with None show ?thesis by simp
  next
    case (Some i)
    then have "queue_line q = i # q_pending q" by (simp add: queue_line_def)
    with Some show ?thesis using Suc.IH [OF complete_ok [OF Suc.prems]] by simp
  qed
qed simp

text \<open>
  C15. An accepted request is served. Once the requests before it have completed, as many as
  were in the queue, its run is the active one, it has been started, and the completion of its
  run settles its promise with the result of the run.
\<close>

theorem accepted_request_is_served:
  assumes "queue_run q" "enqueue q = (Accepted i, q')"
  shows "(let s = serve_active results (length (queue_line q)) q' in
    q_active s = Some i \<and> i \<in> set (started_in (q_log s)) \<and> length (queue_line q) \<le> Suc (q_maxPending q)
    \<and> q_log (complete i r s) = q_log s @ [Settles i r])"
proof -
  have ok: "queue_ok q" by (rule queue_run_ok [OF assms(1)])
  have ok': "queue_ok q'" by (rule enqueue_ok [OF assms(2) ok])
  define s where "s = serve_active results (length (queue_line q)) q'"
  have "submit_request q = (Some i, q')" using assms(2) by (simp add: submit_request_def)
  then have line: "queue_line s = [i]"
    unfolding s_def serve_active_serve [OF ok'] by (rule aq.submission_waits_for_line [OF ok])
  have sok: "queue_ok s" unfolding s_def serve_active_serve [OF ok'] using aq.serve_line [OF ok'] by blast
  then have act: "q_active s = Some i" "q_pending s = []"
    using line by (auto simp: queue_ok_def line_ok_def queue_line_def split: option.splits)
  moreover have "length (queue_line q) \<le> Suc (q_maxPending q)"
    using ok by (auto simp: queue_ok_def line_ok_def queue_line_def split: option.splits)
  ultimately show ?thesis
    using complete_active_entry [OF sok act(1), of r] sok
    by (simp add: s_def [symmetric] Let_def queue_ok_def log_ok_def)
qed

text \<open>
  Closing is final. It rejects every request that is still in the queue, the active one
  included; afterwards submissions are refused, and completions and cancellations that arrive
  late change nothing.
\<close>

theorem closed_queue_is_final:
  assumes "queue_run q"
  shows "(let c = close_queue q in
    q_closed c \<and> queue_line c = [] \<and> (\<forall>i < q_next q. i \<in> set (settled_in (q_log c)))
    \<and> (\<not> q_closed q \<longrightarrow> (\<forall>i\<in>set (queue_line q). Settles i (Rejected AnalysisQueueClosedError) \<in> set (q_log c)))
    \<and> enqueue c = (RefusedClosed, c) \<and> complete i r c = c \<and> cancelEntry i c = (None, c) \<and> close_queue c = c)"
proof -
  have ok: "queue_ok q" by (rule queue_run_ok [OF assms])
  let ?c = "close_queue q"
  note c = close_result [OF ok]
  have act: "q_active ?c = None" "i \<notin> set (q_pending ?c)" for i
    using c by (auto simp: queue_line_def split: option.splits)
  have "entry_state_of ?c i \<noteq> Some Pending" for i
    using c act by (auto simp: queue_ok_def states_ok_def)
  then have "cancelEntry i ?c = (None, ?c)" for i using act by (simp add: cancelEntry_def)
  moreover have "\<forall>i < q_next q. i \<in> set (settled_in (q_log ?c))"
    using c by (auto simp: queue_ok_def log_ok_def)
  moreover have "\<not> q_closed q \<longrightarrow> (\<forall>i\<in>set (queue_line q). Settles i (Rejected AnalysisQueueClosedError) \<in> set (q_log ?c))"
    using fold_reject_closed [of "queue_line q" "q\<lparr>q_closed := True, q_active := None, q_pending := []\<rparr>"]
    by (auto simp: close_queue_def)
  moreover have "complete i r ?c = ?c" by (rule complete_other) (use c act in simp_all)
  ultimately show ?thesis using c act by (simp add: Let_def enqueue_def close_queue_def [of ?c])
qed

lemma settled_not_started_step:
  assumes "queue_step q q'" "queue_ok q" "i \<in> set (settled_in (q_log q))"
  shows "i \<in> set (settled_in (q_log q')) \<and> (i \<in> set (started_in (q_log q')) \<longrightarrow> i \<in> set (started_in (q_log q)))"
proof -
  have out: "i < q_next q" "i \<notin> set (queue_line q)" using assms(2,3) by (auto simp: queue_ok_def log_ok_def)
  have keep: "set (settled_in (l @ m)) = set (settled_in l) \<union> set (settled_in m)"
    "set (started_in (l @ m)) = set (started_in l) \<union> set (started_in m)" for l m :: "('a, 'b) queue_event list"
    by (simp_all add: settled_in_def started_in_def)
  show ?thesis
    using assms(1)
  proof cases
    case (step_enqueue a)
    then show ?thesis
      using assms(3) out(1) by (auto simp: enqueue_def Let_def start_def split: if_splits)
  next
    case (step_complete j r)
    show ?thesis
    proof (cases "q_active q = Some j")
      case True
      have "i \<notin> set (q_pending q)" using out(2) True by (simp add: queue_line_def)
      then show ?thesis
        using step_complete complete_active_entry [OF assms(2) True, of r] assms(3)
        by (cases "q_pending q") (auto simp: keep, auto simp: started_in_def settled_in_def)
    qed (use step_complete complete_other [OF assms(2)] assms(3) in simp)
  next
    case (step_cancel j c)
    then have q': "q' = snd (cancelEntry j q)" by simp
    show ?thesis
    proof (cases "j \<in> set (q_pending q)")
      case True
      then show ?thesis using q' cancel_pending [OF assms(2) True] assms(3) by (auto simp: Let_def keep)
    next
      case False
      then show ?thesis using q' cancel_not_pending [OF assms(2) False] assms(3) by (auto simp: Let_def)
    qed
  next
    case (step_cancelled j c b)
    then show ?thesis using assms(3) by (auto simp: cancellation_settled_def split: option.splits)
  next
    case step_close
    then show ?thesis
      using assms(3) fold_reject_closed [of "queue_line q" "q\<lparr>q_closed := True, q_active := None, q_pending := []\<rparr>"]
      by (auto simp: close_queue_def keep) (simp add: started_in_def comp_def)
  qed
qed

text \<open>
  A settled request never runs afterwards. A request that was withdrawn while it waited, or
  rejected, is not started by any later sequence of operations.
\<close>

theorem settled_request_never_starts:
  assumes "queue_run q" "queue_step\<^sup>*\<^sup>* q q'" "i \<in> set (settled_in (q_log q))"
    and "i \<notin> set (started_in (q_log q))"
  shows "i \<notin> set (started_in (q_log q'))"
proof -
  have "queue_ok q' \<and> i \<in> set (settled_in (q_log q')) \<and> i \<notin> set (started_in (q_log q'))"
    using assms(2)
  proof (induction rule: rtranclp_induct)
    case base
    then show ?case using queue_run_ok [OF assms(1)] assms(3,4) by blast
  next
    case (step y z)
    then show ?case using queue_step_ok settled_not_started_step by metis
  qed
  then show ?thesis by blast
qed

definition empty_queue :: "(nat, nat) queue" where
  "empty_queue = projr (new_queue (Some 1))"

definition sample_queue :: "(nat, nat) queue" where
  "sample_queue = snd (enqueue (snd (enqueue empty_queue)))"

lemma sample_queue_run: "queue_run sample_queue"
proof -
  have "queue_run empty_queue" by (rule queue_start [of "Some 1"]) (simp add: new_queue_def empty_queue_def)
  then have "queue_run (snd (enqueue empty_queue))" by (rule queue_next) (metis prod.collapse step_enqueue)
  then show ?thesis unfolding sample_queue_def by (rule queue_next) (metis prod.collapse step_enqueue)
qed

lemma sample_queue_fields:
  "q_active sample_queue = Some 0" "q_pending sample_queue = [1]" "q_maxPending sample_queue = 1"
  "q_closed sample_queue = False" "queue_line sample_queue = [0, 1]" "q_next sample_queue = 2"
  "q_log sample_queue = [Started 0]"
  by (simp_all add: sample_queue_def empty_queue_def new_queue_def enqueue_def start_def queue_line_def Let_def)

theorem queue_bounded_and_fair_witness:
  "length (q_pending sample_queue) \<le> 1"
  using queue_bounded_and_fair [OF sample_queue_run] by (simp add: sample_queue_fields)

theorem promises_settled_once_witness:
  "0 \<notin> set (settled_in (q_log sample_queue))"
  using promises_settled_once [OF sample_queue_run, of 0] by (simp add: sample_queue_fields)

theorem accepted_request_is_served_witness:
  "q_active (serve_active (\<lambda>i. Resolved i) 1 (snd (enqueue (snd (enqueue empty_queue))))) = Some (1::nat)"
proof -
  let ?q = "snd (enqueue empty_queue)"
  have "queue_run empty_queue" by (rule queue_start [of "Some 1"]) (simp add: new_queue_def empty_queue_def)
  then have run: "queue_run ?q" by (rule queue_next) (metis prod.collapse step_enqueue)
  have "enqueue ?q = (Accepted 1, snd (enqueue ?q))" "queue_line ?q = [0]"
    by (simp_all add: empty_queue_def new_queue_def enqueue_def start_def queue_line_def Let_def)
  then show ?thesis
    using accepted_request_is_served [OF run, of 1 _ "\<lambda>i. Resolved i"] by (simp add: Let_def del: serve_active.simps)
qed

theorem closed_queue_is_final_witness:
  "enqueue (close_queue sample_queue) = (RefusedClosed, close_queue sample_queue)"
  using closed_queue_is_final [OF sample_queue_run] by (simp add: Let_def)

theorem settled_request_never_starts_witness:
  "1 \<notin> set (started_in (q_log (complete 0 (Resolved 7) (snd (cancelEntry 1 sample_queue)))))"
proof -
  let ?q = "snd (cancelEntry 1 sample_queue)"
  have ok: "queue_ok sample_queue" by (rule queue_run_ok [OF sample_queue_run])
  have run: "queue_run ?q" by (rule queue_next [OF sample_queue_run]) (metis prod.collapse step_cancel)
  have log: "q_log ?q = [Started 0, Settles 1 (Rejected AnalysisTransportCancelledError)]"
    using cancel_pending [OF ok, of 1] by (simp add: sample_queue_fields Let_def)
  have "queue_step\<^sup>*\<^sup>* ?q (complete 0 (Resolved 7) ?q)" by (rule r_into_rtranclp) (rule step_complete)
  then show ?thesis
    by (rule settled_request_never_starts [OF run]) (simp_all only: log settled_in_def started_in_def, simp_all)
qed

end
