(* ===== verification/Analysis_Server.thy ===== *)
theory Analysis_Server
  imports Analysis_Queue
begin

text \<open>
  \<open>packages/grpc/src/analyze-project-server.ts\<close>, \<open>-lifecycle.ts\<close> and \<open>-grpc.ts\<close>: the gRPC server
  as a state machine over the request queue. Its inputs are calls and their cancellations,
  messages of the worker thread, results of analyses in the current thread, leases and timers;
  its outputs are the answers of calls and the messages posted to the worker. What the gRPC
  library does with an answer is outside the model; requests and responses are opaque.
\<close>

section \<open>Errors\<close>

datatype grpc_status = INTERNAL | UNAVAILABLE | CANCELLED | RESOURCE_EXHAUSTED | INVALID_ARGUMENT

record service_error =
  se_name :: string
  se_message :: string
  se_code :: grpc_status

text \<open>The default code is \<open>INTERNAL\<close>.\<close>

definition toGrpcError :: "string \<Rightarrow> grpc_status \<Rightarrow> service_error" where
  "toGrpcError message code = \<lparr>se_name = ''AnalyzeProjectServiceError'', se_message = message, se_code = code\<rparr>"

datatype failure_reason = InvalidRequest | Runtime

datatype 'a request_result = RequestSuccess 'a | RequestFailure string failure_reason

definition toGrpcErrorFromFailure :: "string \<Rightarrow> failure_reason \<Rightarrow> service_error" where
  "toGrpcErrorFromFailure message reason =
     toGrpcError message (case reason of InvalidRequest \<Rightarrow> INVALID_ARGUMENT | Runtime \<Rightarrow> INTERNAL)"

text \<open>What a run can fail with: an error that has a gRPC code, or any other with its text.\<close>

datatype run_error = ServiceFailure service_error | OtherFailure string

definition toAnalysisServiceError :: "run_error rejection \<Rightarrow> service_error" where
  "toAnalysisServiceError error =
     (case error of
        AnalysisQueueClosedError \<Rightarrow> toGrpcError ''Analyze-project request queue is closed'' UNAVAILABLE
      | AnalysisTransportCancelledError \<Rightarrow>
          toGrpcError ''Analyze-project transport was cancelled before its request started'' CANCELLED
      | RunFailed (ServiceFailure e) \<Rightarrow> e
      | RunFailed (OtherFailure message) \<Rightarrow> toGrpcError message INTERNAL)"

fun queueAdmissionError :: "bool \<Rightarrow> service_error" where
  "queueAdmissionError True = toGrpcError ''Analyze-project request queue is full'' RESOURCE_EXHAUSTED"
| "queueAdmissionError False = toGrpcError ''Analyze-project request queue is closed'' UNAVAILABLE"

section \<open>State\<close>

datatype call_kind = StreamCall | UnaryCall

text \<open>What a call is answered with; a stream call may be written to before it ends.\<close>

datatype 'r answer = Ends | Fails service_error | Replies 'r

record ('q, 'r) call =
  cl_kind :: call_kind
  cl_request :: 'q
  cl_cancelled :: bool
  cl_submission :: "nat option"
  cl_writes :: "'r list"
  cl_answers :: "'r answer list"

datatype 'q worker_message = AnalyzeStream nat 'q | AnalyzeUnary nat 'q | CancelMessage nat | CloseMessage

datatype completion_type = StreamComplete | UnaryComplete | CancelComplete

datatype purpose = RunOf nat | CancellationOf nat nat

text \<open>A \<open>waitForWorkerCompletion\<close> that has not settled.\<close>

record waiter =
  wt_type :: completion_type
  wt_request :: nat
  wt_purpose :: purpose

record ('q, 'r) server =
  sv_queue :: "('r option, run_error) queue"
  sv_calls :: "nat \<Rightarrow> ('q, 'r) call option"
  sv_next_call :: nat
  sv_worker :: bool
  sv_posted :: "'q worker_message list"
  sv_waiters :: "waiter list"
  sv_nextWorkerRequestId :: nat
  sv_lease :: "nat option"
  sv_startup_timer :: bool
  sv_shutdown_scheduled :: bool
  sv_shuttingDown :: bool
  sv_closed :: bool

definition createServerState :: "bool \<Rightarrow> ('q, 'r) server" where
  "createServerState worker =
     \<lparr>sv_queue = projr (new_queue (Some (int MAX_PENDING_ANALYSIS_REQUESTS))), sv_calls = (\<lambda>_. None), sv_next_call = 0,
      sv_worker = worker, sv_posted = [], sv_waiters = [], sv_nextWorkerRequestId = 0, sv_lease = None,
      sv_startup_timer = False, sv_shutdown_scheduled = False, sv_shuttingDown = False, sv_closed = False\<rparr>"

section \<open>Requests to the worker\<close>

definition getNextWorkerRequestId :: "('q, 'r) server \<Rightarrow> nat \<times> ('q, 'r) server" where
  "getNextWorkerRequestId s =
     (sv_nextWorkerRequestId s + 1, s\<lparr>sv_nextWorkerRequestId := sv_nextWorkerRequestId s + 1\<rparr>)"

definition post :: "'q worker_message \<Rightarrow> ('q, 'r) server \<Rightarrow> ('q, 'r) server" where
  "post m s = s\<lparr>sv_posted := sv_posted s @ [m]\<rparr>"

definition wait_for :: "completion_type \<Rightarrow> nat \<Rightarrow> purpose \<Rightarrow> ('q, 'r) server \<Rightarrow> ('q, 'r) server" where
  "wait_for ty rid purpose s =
     s\<lparr>sv_waiters := sv_waiters s @ [\<lparr>wt_type = ty, wt_request = rid, wt_purpose = purpose\<rparr>]\<rparr>"

definition call_of_entry :: "('q, 'r) server \<Rightarrow> nat \<Rightarrow> nat option" where
  "call_of_entry s i =
     find (\<lambda>c. (case sv_calls s c of None \<Rightarrow> False | Some cl \<Rightarrow> cl_submission cl = Some i)) [0..<sv_next_call s]"

text \<open>The run of an entry: with a worker, the request is posted and its completion awaited.\<close>

definition start_run :: "nat \<Rightarrow> ('q, 'r) server \<Rightarrow> ('q, 'r) server" where
  "start_run i s =
     (if \<not> sv_worker s then s
      else
        (case call_of_entry s i of
           None \<Rightarrow> s
         | Some c \<Rightarrow>
             (case sv_calls s c of
                None \<Rightarrow> s
              | Some cl \<Rightarrow>
                  (let (rid, s1) = getNextWorkerRequestId s in
                   case cl_kind cl of
                     StreamCall \<Rightarrow> post (AnalyzeStream rid (cl_request cl)) (wait_for StreamComplete rid (RunOf i) s1)
                   | UnaryCall \<Rightarrow> post (AnalyzeUnary rid (cl_request cl)) (wait_for UnaryComplete rid (RunOf i) s1)))))"

definition requestCancel :: "nat \<Rightarrow> nat \<Rightarrow> ('q, 'r) server \<Rightarrow> ('q, 'r) server" where
  "requestCancel i c s =
     (if \<not> sv_worker s then s
      else (let (rid, s1) = getNextWorkerRequestId s
            in post (CancelMessage rid) (wait_for CancelComplete rid (CancellationOf i c) s1)))"

section \<open>Answers\<close>

text \<open>\<open>writeResponse\<close>, \<open>failResponse\<close>, \<open>endResponse\<close> and the callback: nothing once cancelled.\<close>

definition answer_call :: "nat \<Rightarrow> 'r answer \<Rightarrow> ('q, 'r) server \<Rightarrow> ('q, 'r) server" where
  "answer_call c a s =
     (case sv_calls s c of
        None \<Rightarrow> s
      | Some cl \<Rightarrow>
          if cl_cancelled cl then s
          else s\<lparr>sv_calls := (sv_calls s)(c \<mapsto> cl\<lparr>cl_answers := cl_answers cl @ [a]\<rparr>)\<rparr>)"

definition writeResponse :: "nat \<Rightarrow> 'r \<Rightarrow> ('q, 'r) server \<Rightarrow> ('q, 'r) server" where
  "writeResponse c r s =
     (case sv_calls s c of
        None \<Rightarrow> s
      | Some cl \<Rightarrow>
          if cl_cancelled cl then s
          else s\<lparr>sv_calls := (sv_calls s)(c \<mapsto> cl\<lparr>cl_writes := cl_writes cl @ [r]\<rparr>)\<rparr>)"

text \<open>The answer for the settled promise of a submission. A unary result is never missing.\<close>

fun settlement_answer :: "('r option, run_error) settlement \<Rightarrow> 'r answer" where
  "settlement_answer (Resolved None) = Ends"
| "settlement_answer (Resolved (Some r)) = Replies r"
| "settlement_answer (Rejected e) = Fails (toAnalysisServiceError e)"

definition answer_submission :: "nat \<Rightarrow> ('r option, run_error) settlement \<Rightarrow> ('q, 'r) server \<Rightarrow> ('q, 'r) server" where
  "answer_submission i r s =
     (case call_of_entry s i of None \<Rightarrow> s | Some c \<Rightarrow> answer_call c (settlement_answer r) s)"

text \<open>What the queue asks for: runs to start, promises to settle, cancellations to request.\<close>

fun queue_effect :: "('r option, run_error) queue_event \<Rightarrow> ('q, 'r) server \<Rightarrow> ('q, 'r) server" where
  "queue_effect (Started i) s = start_run i s"
| "queue_effect (Settles i r) s = answer_submission i r s"
| "queue_effect (CancellationRequested i c) s = requestCancel i c s"

definition with_queue :: "('r option, run_error) queue \<Rightarrow> ('q, 'r) server \<Rightarrow> ('q, 'r) server" where
  "with_queue q' s =
     fold queue_effect (drop (length (q_log (sv_queue s))) (q_log q')) (s\<lparr>sv_queue := q'\<rparr>)"

section \<open>Handlers of calls\<close>

text \<open>
  \<open>createAnalyzeProjectStreamHandler\<close> and \<open>createAnalyzeProjectUnaryHandler\<close>: a call that
  arrives cancelled is dropped; one the queue does not admit fails at once; an admitted one
  waits for its promise.
\<close>

definition analyze_call :: "call_kind \<Rightarrow> 'q \<Rightarrow> bool \<Rightarrow> ('q, 'r) server \<Rightarrow> ('q, 'r) server" where
  "analyze_call kind request cancelled s =
     (let c = sv_next_call s;
          new = (\<lambda>sub. s\<lparr>sv_calls := (sv_calls s)(c \<mapsto>
              \<lparr>cl_kind = kind, cl_request = request, cl_cancelled = cancelled, cl_submission = sub, cl_writes = [],
               cl_answers = []\<rparr>), sv_next_call := c + 1\<rparr>)
      in if cancelled then new None
         else
           (case enqueue (sv_queue s) of
              (Accepted i, q') \<Rightarrow> with_queue q' (new (Some i))
            | (RefusedFull, q') \<Rightarrow> answer_call c (Fails (queueAdmissionError True)) (new None)
            | (RefusedClosed, q') \<Rightarrow> answer_call c (Fails (queueAdmissionError False)) (new None)))"

definition createAnalyzeProjectStreamHandler :: "'q \<Rightarrow> bool \<Rightarrow> ('q, 'r) server \<Rightarrow> ('q, 'r) server" where
  "createAnalyzeProjectStreamHandler = analyze_call StreamCall"

definition createAnalyzeProjectUnaryHandler :: "'q \<Rightarrow> bool \<Rightarrow> ('q, 'r) server \<Rightarrow> ('q, 'r) server" where
  "createAnalyzeProjectUnaryHandler = analyze_call UnaryCall"

text \<open>The event \<open>cancelled\<close> of a call.\<close>

definition transport_cancelled :: "nat \<Rightarrow> ('q, 'r) server \<Rightarrow> ('q, 'r) server" where
  "transport_cancelled c s =
     (case sv_calls s c of
        None \<Rightarrow> s
      | Some cl \<Rightarrow>
          (let s1 = s\<lparr>sv_calls := (sv_calls s)(c \<mapsto> cl\<lparr>cl_cancelled := True\<rparr>)\<rparr>
           in case cl_submission cl of
                None \<Rightarrow> s1
              | Some i \<Rightarrow> with_queue (snd (cancelEntry i (sv_queue s1))) s1))"

text \<open>
  \<open>createCancelAnalysisHandler\<close>: the number of the cancellation whose result is the answer, or
  none, which is answered with \<open>cancelled: false\<close>.
\<close>

definition cancel_analysis_call :: "('q, 'r) server \<Rightarrow> nat option \<times> ('q, 'r) server" where
  "cancel_analysis_call s =
     (let (r, q') = cancelActiveAnalysis (sv_queue s) in (r, with_queue q' s))"

section \<open>Results of runs\<close>

text \<open>The settlement of a run: a failure becomes a gRPC error, a missing unary result, too.\<close>

definition run_settlement :: "call_kind \<Rightarrow> 'r option request_result \<Rightarrow> ('r option, run_error) settlement" where
  "run_settlement kind result =
     (case result of
        RequestFailure message reason \<Rightarrow> Rejected (RunFailed (ServiceFailure (toGrpcErrorFromFailure message reason)))
      | RequestSuccess r \<Rightarrow>
          (case kind of
             StreamCall \<Rightarrow> Resolved None
           | UnaryCall \<Rightarrow>
               (case r of
                  None \<Rightarrow> Rejected (RunFailed (ServiceFailure (toGrpcError ''Missing analyze-project unary result'' INTERNAL)))
                | Some v \<Rightarrow> Resolved (Some v))))"

definition entry_kind :: "('q, 'r) server \<Rightarrow> nat \<Rightarrow> call_kind" where
  "entry_kind s i =
     (case call_of_entry s i of
        None \<Rightarrow> StreamCall
      | Some c \<Rightarrow> (case sv_calls s c of None \<Rightarrow> StreamCall | Some cl \<Rightarrow> cl_kind cl))"

text \<open>A waiter is settled by its message, by an error or exit of the worker, or by its timeout.\<close>

datatype 'r wake = WakeResult "'r option request_result" | WakeError string

definition wake_waiter :: "'r wake \<Rightarrow> waiter \<Rightarrow> ('q, 'r) server \<Rightarrow> ('q, 'r) server" where
  "wake_waiter w wt s =
     (case wt_purpose wt of
        RunOf i \<Rightarrow>
          with_queue (complete i (case w of WakeResult r \<Rightarrow> run_settlement (entry_kind s i) r
                                   | WakeError message \<Rightarrow> Rejected (RunFailed (OtherFailure message))) (sv_queue s)) s
      | CancellationOf i c \<Rightarrow>
          with_queue (cancellation_settled i c
            (case w of WakeResult (RequestSuccess r) \<Rightarrow> True | _ \<Rightarrow> False) (sv_queue s)) s)"

text \<open>A completion message goes to the waiters that expect its type and number; an event to its call.\<close>

definition worker_completion :: "completion_type \<Rightarrow> nat \<Rightarrow> 'r option request_result \<Rightarrow> ('q, 'r) server \<Rightarrow> ('q, 'r) server" where
  "worker_completion ty rid result s =
     fold (wake_waiter (WakeResult result))
       (filter (\<lambda>w. wt_type w = ty \<and> wt_request w = rid) (sv_waiters s))
       (s\<lparr>sv_waiters := filter (\<lambda>w. \<not> (wt_type w = ty \<and> wt_request w = rid)) (sv_waiters s)\<rparr>)"

definition worker_event :: "nat \<Rightarrow> 'r \<Rightarrow> ('q, 'r) server \<Rightarrow> ('q, 'r) server" where
  "worker_event rid response s =
     fold (\<lambda>w s. case wt_purpose w of
            RunOf i \<Rightarrow> (case call_of_entry s i of None \<Rightarrow> s | Some c \<Rightarrow> writeResponse c response s)
          | CancellationOf _ _ \<Rightarrow> s)
       (filter (\<lambda>w. wt_type w = StreamComplete \<and> wt_request w = rid) (sv_waiters s)) s"

text \<open>Without a worker: the current thread writes an event, finishes a run or a cancellation.\<close>

definition current_thread_event :: "nat \<Rightarrow> 'r \<Rightarrow> ('q, 'r) server \<Rightarrow> ('q, 'r) server" where
  "current_thread_event i response s =
     (case call_of_entry s i of None \<Rightarrow> s | Some c \<Rightarrow> writeResponse c response s)"

definition current_thread_result :: "nat \<Rightarrow> 'r option request_result \<Rightarrow> ('q, 'r) server \<Rightarrow> ('q, 'r) server" where
  "current_thread_result i result s =
     with_queue (complete i (run_settlement (entry_kind s i) result) (sv_queue s)) s"

definition current_thread_cancelled :: "nat \<Rightarrow> nat \<Rightarrow> bool \<Rightarrow> ('q, 'r) server \<Rightarrow> ('q, 'r) server" where
  "current_thread_cancelled i c success s = with_queue (cancellation_settled i c success (sv_queue s)) s"

definition waiter_timeout :: "waiter \<Rightarrow> ('q, 'r) server \<Rightarrow> ('q, 'r) server" where
  "waiter_timeout w s =
     (if w \<in> set (sv_waiters s) \<and> wt_type w = CancelComplete
      then wake_waiter (WakeError ''Timed out waiting for worker message'') w
             (s\<lparr>sv_waiters := remove1 w (sv_waiters s)\<rparr>)
      else s)"

section \<open>Lifecycle\<close>

definition clearStartupShutdownTimeout :: "('q, 'r) server \<Rightarrow> ('q, 'r) server" where
  "clearStartupShutdownTimeout s = s\<lparr>sv_startup_timer := False\<rparr>"

definition cancelAnalysisOnShutdown :: "bool \<Rightarrow> ('q, 'r) server \<Rightarrow> ('q, 'r) server" where
  "cancelAnalysisOnShutdown hadActive s =
     (if \<not> hadActive then s
      else if sv_worker s then (let (rid, s1) = getNextWorkerRequestId s in post (CancelMessage rid) s1)
      else s)"

definition closeWorker :: "('q, 'r) server \<Rightarrow> ('q, 'r) server" where
  "closeWorker s = (if sv_worker s then post CloseMessage s else s)"

definition shutdown :: "('q, 'r) server \<Rightarrow> ('q, 'r) server" where
  "shutdown s =
     (if sv_shuttingDown s then s
      else
        (let s1 = clearStartupShutdownTimeout (s\<lparr>sv_shuttingDown := True\<rparr>);
             s2 = s1\<lparr>sv_lease := None\<rparr>;
             hadActive = hasActive (sv_queue s2);
             s3 = with_queue (close_queue (sv_queue s2)) s2;
             s4 = closeWorker (cancelAnalysisOnShutdown hadActive s3)
         in s4\<lparr>sv_closed := True\<rparr>))"

definition scheduleStartupShutdownTimeout :: "int \<Rightarrow> ('q, 'r) server \<Rightarrow> ('q, 'r) server" where
  "scheduleStartupShutdownTimeout timeout s =
     (if timeout \<le> 0 then s else (clearStartupShutdownTimeout s)\<lparr>sv_startup_timer := True\<rparr>)"

definition startup_timer_fires :: "('q, 'r) server \<Rightarrow> ('q, 'r) server" where
  "startup_timer_fires s = (if sv_startup_timer s then shutdown s else s)"

text \<open>The lifecycle handlers of the worker run before those of the waiters.\<close>

definition worker_error :: "string \<Rightarrow> ('q, 'r) server \<Rightarrow> ('q, 'r) server" where
  "worker_error message s =
     (let s1 = shutdown s
      in fold (wake_waiter (WakeError message)) (sv_waiters s1) (s1\<lparr>sv_waiters := []\<rparr>))"

text \<open>\<open>createLeaseHandler\<close>: one lease at a time; the loss of the lease schedules the shutdown.\<close>

definition lease_call :: "nat \<Rightarrow> ('q, 'r) server \<Rightarrow> service_error option \<times> ('q, 'r) server" where
  "lease_call l s =
     (if sv_lease s \<noteq> None
      then (Some (toGrpcError ''Analyze-project lease already acquired'' RESOURCE_EXHAUSTED), s)
      else (None, clearStartupShutdownTimeout (s\<lparr>sv_lease := Some l\<rparr>)))"

definition lease_lost :: "nat \<Rightarrow> ('q, 'r) server \<Rightarrow> ('q, 'r) server" where
  "lease_lost l s =
     (if sv_lease s \<noteq> Some l then s
      else s\<lparr>sv_lease := None, sv_shutdown_scheduled := sv_shutdown_scheduled s \<or> \<not> sv_shuttingDown s\<rparr>)"

definition scheduled_shutdown :: "('q, 'r) server \<Rightarrow> ('q, 'r) server" where
  "scheduled_shutdown s = (if sv_shutdown_scheduled s then shutdown (s\<lparr>sv_shutdown_scheduled := False\<rparr>) else s)"

section \<open>Invariant\<close>

text \<open>
  Every call is answered at most once, and exactly when the promise of its submission settles,
  unless its transport was cancelled; \<open>settled\<close> are the entries whose promise has settled.
\<close>

definition call_answered :: "nat list \<Rightarrow> ('q, 'r) call \<Rightarrow> bool" where
  "call_answered settled cl \<longleftrightarrow> length (cl_answers cl) \<le> 1
     \<and> (case cl_submission cl of
          None \<Rightarrow> \<not> cl_cancelled cl \<longrightarrow> length (cl_answers cl) = 1
        | Some i \<Rightarrow> (i \<notin> set settled \<longrightarrow> cl_answers cl = [])
            \<and> (i \<in> set settled \<and> \<not> cl_cancelled cl \<longrightarrow> length (cl_answers cl) = 1))"

definition calls_ok :: "nat list \<Rightarrow> ('q, 'r) server \<Rightarrow> bool" where
  "calls_ok settled s \<longleftrightarrow>
     (\<forall>c cl. sv_calls s c = Some cl \<longrightarrow> c < sv_next_call s \<and> call_answered settled cl)
     \<and> (\<forall>c d cl dl i. sv_calls s c = Some cl \<longrightarrow> sv_calls s d = Some dl \<longrightarrow> cl_submission cl = Some i \<longrightarrow>
          cl_submission dl = Some i \<longrightarrow> c = d)"

definition submissions_known :: "('q, 'r) server \<Rightarrow> bool" where
  "submissions_known s \<longleftrightarrow>
     (\<forall>c cl i. sv_calls s c = Some cl \<longrightarrow> cl_submission cl = Some i \<longrightarrow> i < q_next (sv_queue s))"

definition server_ok :: "('q, 'r) server \<Rightarrow> bool" where
  "server_ok s \<longleftrightarrow> queue_ok (sv_queue s) \<and> calls_ok (settled_in (q_log (sv_queue s))) s \<and> submissions_known s
     \<and> (sv_shuttingDown s \<longrightarrow> q_closed (sv_queue s))"

section \<open>Lemmas\<close>

lemma server_helpers [simp]:
  "sv_calls (post m s) = sv_calls s" "sv_next_call (post m s) = sv_next_call s" "sv_queue (post m s) = sv_queue s"
  "sv_shuttingDown (post m s) = sv_shuttingDown s"
  "sv_calls (wait_for ty rid p s) = sv_calls s" "sv_next_call (wait_for ty rid p s) = sv_next_call s"
  "sv_queue (wait_for ty rid p s) = sv_queue s" "sv_shuttingDown (wait_for ty rid p s) = sv_shuttingDown s"
  by (simp_all add: post_def wait_for_def)

text \<open>Runs and cancellations touch neither the calls nor the queue.\<close>

definition same_calls :: "('q, 'r) server \<Rightarrow> ('q, 'r) server \<Rightarrow> bool" where
  "same_calls s t \<longleftrightarrow> sv_calls t = sv_calls s \<and> sv_next_call t = sv_next_call s \<and> sv_queue t = sv_queue s
     \<and> sv_shuttingDown t = sv_shuttingDown s"

lemma same_calls_ok: "same_calls s t \<Longrightarrow> server_ok t = server_ok s" "same_calls s t \<Longrightarrow> calls_ok l t = calls_ok l s"
  by (simp_all add: same_calls_def server_ok_def calls_ok_def submissions_known_def)

lemma start_run_same: "same_calls s (start_run i s)"
  by (simp add: same_calls_def start_run_def getNextWorkerRequestId_def split: option.split call_kind.split)

lemma requestCancel_same: "same_calls s (requestCancel i c s)"
  by (simp add: same_calls_def requestCancel_def getNextWorkerRequestId_def)

lemma answer_call_fields [simp]:
  "sv_next_call (answer_call c a s) = sv_next_call s" "sv_queue (answer_call c a s) = sv_queue s"
  "sv_shuttingDown (answer_call c a s) = sv_shuttingDown s"
  by (simp_all add: answer_call_def split: option.split)

lemma call_of_entry_Some:
  assumes "call_of_entry s i = Some c"
  shows "\<exists>cl. sv_calls s c = Some cl \<and> cl_submission cl = Some i"
  using assms by (auto simp: call_of_entry_def find_Some_iff split: option.splits)

lemma call_of_entry_None:
  assumes "call_of_entry s i = None" "calls_ok l s" "sv_calls s c = Some cl"
  shows "cl_submission cl \<noteq> Some i"
  using assms by (force simp: call_of_entry_def find_None_iff calls_ok_def)

lemma call_of_entry_unique:
  assumes "calls_ok l s" "sv_calls s c = Some cl" "cl_submission cl = Some i"
  shows "call_of_entry s i = Some c"
proof (cases "call_of_entry s i")
  case None
  then show ?thesis using call_of_entry_None [OF None assms(1,2)] assms(3) by simp
next
  case (Some d)
  obtain dl where "sv_calls s d = Some dl" "cl_submission dl = Some i" using call_of_entry_Some [OF Some] by blast
  then show ?thesis using assms Some unfolding calls_ok_def by metis
qed

lemma call_answered_other:
  "call_answered l cl \<Longrightarrow> cl_submission cl \<noteq> Some i \<Longrightarrow> call_answered (l @ [i]) cl"
  by (auto simp: call_answered_def split: option.splits)

lemma calls_okD:
  "calls_ok l s \<Longrightarrow> sv_calls s c = Some cl \<Longrightarrow> call_answered l cl"
  "calls_ok l s \<Longrightarrow> sv_calls s c = Some cl \<Longrightarrow> c < sv_next_call s"
  by (auto simp: calls_ok_def)

lemma answer_submission_ok:
  assumes "calls_ok l s" "i \<notin> set l"
  shows "calls_ok (l @ [i]) (answer_submission i r s)"
proof (cases "call_of_entry s i")
  case None
  have "call_answered (l @ [i]) cl" if "sv_calls s c = Some cl" for c cl
    using call_answered_other [OF calls_okD(1) [OF assms(1) that]] call_of_entry_None [OF None assms(1) that] .
  then show ?thesis using None assms(1) by (simp add: answer_submission_def calls_ok_def)
next
  case (Some c)
  obtain cl where cl: "sv_calls s c = Some cl" "cl_submission cl = Some i" using call_of_entry_Some [OF Some] by blast
  let ?cl = "if cl_cancelled cl then cl else cl\<lparr>cl_answers := cl_answers cl @ [settlement_answer r]\<rparr>"
  have calls: "sv_calls (answer_submission i r s) = (sv_calls s)(c \<mapsto> ?cl)"
    using Some cl by (auto simp: answer_submission_def answer_call_def)
  have "call_answered l cl" "c < sv_next_call s" using assms(1) cl(1) by (auto simp: calls_ok_def)
  then have here: "call_answered (l @ [i]) ?cl" using assms(2) cl(2) by (auto simp: call_answered_def)
  have other: "call_answered (l @ [i]) dl" if "sv_calls s d = Some dl" "d \<noteq> c" for d dl
  proof -
    have "cl_submission dl \<noteq> Some i" using assms(1) that cl unfolding calls_ok_def by metis
    then show ?thesis using call_answered_other [OF calls_okD(1) [OF assms(1) that(1)]] by simp
  qed
  have sub: "cl_submission ?cl = Some i" using cl(2) by simp
  have next_call: "sv_next_call (answer_submission i r s) = sv_next_call s" by (simp add: answer_submission_def split: option.split)
  have unique: "d = e" if "((sv_calls s)(c \<mapsto> ?cl)) d = Some dl" "((sv_calls s)(c \<mapsto> ?cl)) e = Some el"
    "cl_submission dl = Some j" "cl_submission el = Some j" for d e dl el j
    using assms(1) cl sub that unfolding calls_ok_def by (metis fun_upd_apply option.inject)
  have "d < sv_next_call s \<and> call_answered (l @ [i]) dl" if "((sv_calls s)(c \<mapsto> ?cl)) d = Some dl" for d dl
    using that here other [of d dl] \<open>c < sv_next_call s\<close> calls_okD(2) [OF assms(1), of d dl] by (cases "d = c") auto
  then show ?thesis unfolding calls_ok_def calls next_call using unique by blast
qed

definition submissions :: "('q, 'r) server \<Rightarrow> nat \<Rightarrow> nat option option" where
  "submissions s c = map_option cl_submission (sv_calls s c)"

lemma submissions_known_iff:
  "submissions_known s \<longleftrightarrow> (\<forall>c i. submissions s c = Some (Some i) \<longrightarrow> i < q_next (sv_queue s))"
  by (auto simp: submissions_known_def submissions_def)

lemma queue_effect_frame:
  "sv_queue (queue_effect ev s) = sv_queue s \<and> sv_shuttingDown (queue_effect ev s) = sv_shuttingDown s
   \<and> sv_next_call (queue_effect ev s) = sv_next_call s \<and> submissions (queue_effect ev s) = submissions s"
  using start_run_same [of s] requestCancel_same [of s]
  by (cases ev) (auto simp: same_calls_def submissions_def fun_eq_iff answer_submission_def answer_call_def split: option.split)

lemma queue_effect_ok:
  assumes "calls_ok l s" "distinct (l @ settled_in [ev])"
  shows "calls_ok (l @ settled_in [ev]) (queue_effect ev s)"
proof (cases ev)
  case (Settles i r)
  then show ?thesis using answer_submission_ok [OF assms(1), of i r] assms(2) by (simp add: settled_in_def)
qed (use assms in \<open>simp_all add: settled_in_def same_calls_ok(2) [OF start_run_same] same_calls_ok(2) [OF requestCancel_same]\<close>)

lemma settled_in_Cons: "settled_in (ev # evs) = settled_in [ev] @ settled_in evs"
  by (simp add: settled_in_def)

lemma settled_in_append: "settled_in (l @ m) = settled_in l @ settled_in m"
  by (simp add: settled_in_def)

lemma queue_effects_ok:
  "calls_ok l s \<Longrightarrow> distinct (l @ settled_in evs) \<Longrightarrow>
     calls_ok (l @ settled_in evs) (fold queue_effect evs s)
     \<and> sv_queue (fold queue_effect evs s) = sv_queue s \<and> sv_shuttingDown (fold queue_effect evs s) = sv_shuttingDown s
     \<and> submissions (fold queue_effect evs s) = submissions s"
proof (induction evs arbitrary: l s)
  case (Cons ev evs)
  have d: "distinct ((l @ settled_in [ev]) @ settled_in evs)" using Cons.prems(2) by (simp add: settled_in_Cons [of ev evs])
  then have "calls_ok (l @ settled_in [ev]) (queue_effect ev s)"
    by (intro queue_effect_ok [OF Cons.prems(1)]) auto
  from Cons.IH [OF this d] queue_effect_frame [of ev s] show ?case
    by (simp add: settled_in_Cons [of ev evs])
qed (simp add: settled_in_def)

text \<open>Any operation of the queue that only appends to the log keeps the server in order.\<close>

lemma with_queue_ok:
  assumes "queue_ok q'" "q_log q' = q_log (sv_queue s) @ evs"
    and "calls_ok (settled_in (q_log (sv_queue s))) s"
    and "\<And>c i. submissions s c = Some (Some i) \<Longrightarrow> i < q_next q'"
    and "sv_shuttingDown s \<Longrightarrow> q_closed q'"
  shows "server_ok (with_queue q' s) \<and> sv_queue (with_queue q' s) = q' \<and> submissions (with_queue q' s) = submissions s
    \<and> sv_shuttingDown (with_queue q' s) = sv_shuttingDown s"
proof -
  let ?s = "s\<lparr>sv_queue := q'\<rparr>"
  have eq: "with_queue q' s = fold queue_effect evs ?s" by (simp add: with_queue_def assms(2))
  have "distinct (settled_in (q_log (sv_queue s)) @ settled_in evs)"
    using assms(1,2) by (simp add: queue_ok_def log_ok_def settled_in_append)
  moreover have "calls_ok (settled_in (q_log (sv_queue s))) ?s" using assms(3) by (simp add: calls_ok_def)
  ultimately have f: "calls_ok (settled_in (q_log q')) (with_queue q' s)" "sv_queue (with_queue q' s) = q'"
    "sv_shuttingDown (with_queue q' s) = sv_shuttingDown s" "submissions (with_queue q' s) = submissions ?s"
    using queue_effects_ok [of "settled_in (q_log (sv_queue s))" ?s evs]
    by (simp_all add: eq assms(2) settled_in_append)
  have "submissions ?s = submissions s" by (simp add: submissions_def fun_eq_iff)
  then show ?thesis using f assms(1,4,5) by (simp add: server_ok_def submissions_known_iff)
qed

text \<open>The operations of the queue append to its log.\<close>

lemma queue_logs:
  assumes "queue_ok q"
  shows "\<exists>evs. q_log (complete i r q) = q_log q @ evs"
    and "\<exists>evs. q_log (snd (cancelEntry i q)) = q_log q @ evs"
    and "\<exists>evs. q_log (cancellation_settled i c b q) = q_log q @ evs"
    and "\<exists>evs. q_log (close_queue q) = q_log q @ evs"
    and "\<exists>evs. q_log (snd (enqueue q)) = q_log q @ evs"
proof -
  show "\<exists>evs. q_log (complete i r q) = q_log q @ evs"
    using complete_active_entry [OF assms, of i r] complete_other [OF assms, of i r] by (cases "q_active q = Some i") auto
  show "\<exists>evs. q_log (snd (cancelEntry i q)) = q_log q @ evs"
    by (auto simp: cancelEntry_def Let_def split: option.split)
  show "\<exists>evs. q_log (cancellation_settled i c b q) = q_log q @ evs"
    by (auto simp: cancellation_settled_def split: option.split)
  show "\<exists>evs. q_log (close_queue q) = q_log q @ evs"
    using fold_reject_closed [of "queue_line q" "q\<lparr>q_closed := True, q_active := None, q_pending := []\<rparr>"]
    by (auto simp: close_queue_def)
  show "\<exists>evs. q_log (snd (enqueue q)) = q_log q @ evs"
    by (auto simp: enqueue_def start_def Let_def)
qed

lemma queue_frames:
  "q_next (complete i r q) = q_next q" "q_closed (complete i r q) = q_closed q"
  "q_next (snd (cancelEntry i q)) = q_next q" "q_closed (snd (cancelEntry i q)) = q_closed q"
  "q_next (cancellation_settled i c b q) = q_next q" "q_closed (cancellation_settled i c b q) = q_closed q"
  by (auto simp: complete_def cancelEntry_def cancellation_settled_def start_def Let_def split: option.split list.split)

text \<open>An operation that neither admits nor opens, applied to the queue of a server.\<close>

definition server_same :: "('q, 'r) server \<Rightarrow> ('q, 'r) server \<Rightarrow> bool" where
  "server_same s t \<longleftrightarrow> server_ok t \<and> submissions t = submissions s \<and> sv_shuttingDown t = sv_shuttingDown s
     \<and> q_next (sv_queue t) = q_next (sv_queue s)"

lemma with_queue_same:
  assumes "server_ok s" "queue_ok q'" "\<exists>evs. q_log q' = q_log (sv_queue s) @ evs" "q_next q' = q_next (sv_queue s)"
    and "q_closed (sv_queue s) \<Longrightarrow> q_closed q'"
  shows "server_same s (with_queue q' s)"
proof -
  obtain evs where e: "q_log q' = q_log (sv_queue s) @ evs" using assms(3) by blast
  have "server_ok (with_queue q' s) \<and> sv_queue (with_queue q' s) = q' \<and> submissions (with_queue q' s) = submissions s
    \<and> sv_shuttingDown (with_queue q' s) = sv_shuttingDown s"
    by (rule with_queue_ok [OF assms(2) e])
      (use assms(1,4,5) in \<open>auto simp: server_ok_def submissions_known_iff\<close>)
  then show ?thesis using assms(4) by (simp add: server_same_def)
qed

lemma complete_same: "server_ok s \<Longrightarrow> server_same s (with_queue (complete i r (sv_queue s)) s)"
  by (rule with_queue_same) (auto simp: server_ok_def queue_frames complete_ok queue_logs)

lemma cancellation_settled_same: "server_ok s \<Longrightarrow> server_same s (with_queue (cancellation_settled i c b (sv_queue s)) s)"
  by (rule with_queue_same) (auto simp: server_ok_def queue_frames cancellation_settled_ok queue_logs)

lemma cancelEntry_same: "server_ok s \<Longrightarrow> server_same s (with_queue (snd (cancelEntry i (sv_queue s))) s)"
  by (rule with_queue_same) (auto simp: server_ok_def queue_frames cancel_ok queue_logs)

lemma close_same: "server_ok s \<Longrightarrow> server_same s (with_queue (close_queue (sv_queue s)) s)"
  by (rule with_queue_same) (auto simp: server_ok_def close_result queue_logs)

section \<open>The handlers keep the invariant\<close>

lemma server_ok_cong:
  "server_ok s \<Longrightarrow> sv_queue t = sv_queue s \<Longrightarrow> sv_calls t = sv_calls s \<Longrightarrow> sv_next_call t = sv_next_call s \<Longrightarrow>
     sv_shuttingDown t = sv_shuttingDown s \<Longrightarrow> server_ok t"
  by (simp add: server_ok_def calls_ok_def submissions_known_def)

lemma new_call_ok:
  assumes "calls_ok l s" "call_answered l cl"
    and "\<And>i. cl_submission cl = Some i \<Longrightarrow> \<forall>c. submissions s c \<noteq> Some (Some i)"
  shows "calls_ok l (s\<lparr>sv_calls := (sv_calls s)(sv_next_call s \<mapsto> cl), sv_next_call := Suc (sv_next_call s)\<rparr>)"
proof -
  have old: "d < sv_next_call s" if "sv_calls s d = Some dl" for d dl using calls_okD(2) [OF assms(1) that] .
  have no: "cl_submission cl \<noteq> Some i" if "sv_calls s d = Some dl" "cl_submission dl = Some i" for d dl i
    using assms(3) [of i] that by (auto simp: submissions_def)
  show ?thesis
    unfolding calls_ok_def
  proof (intro conjI allI impI)
    fix c dl
    assume "sv_calls (s\<lparr>sv_calls := (sv_calls s)(sv_next_call s \<mapsto> cl), sv_next_call := Suc (sv_next_call s)\<rparr>) c = Some dl"
    then show "c < sv_next_call (s\<lparr>sv_calls := (sv_calls s)(sv_next_call s \<mapsto> cl), sv_next_call := Suc (sv_next_call s)\<rparr>)"
      and "call_answered l dl"
      using old [of c dl] calls_okD(1) [OF assms(1), of c dl] assms(2) by (auto split: if_splits)
  next
    fix c d dl el i
    assume a: "sv_calls (s\<lparr>sv_calls := (sv_calls s)(sv_next_call s \<mapsto> cl), sv_next_call := Suc (sv_next_call s)\<rparr>) c = Some dl"
      "sv_calls (s\<lparr>sv_calls := (sv_calls s)(sv_next_call s \<mapsto> cl), sv_next_call := Suc (sv_next_call s)\<rparr>) d = Some el"
      "cl_submission dl = Some i" "cl_submission el = Some i"
    show "c = d"
    proof (cases "c = sv_next_call s \<or> d = sv_next_call s")
      case True
      then show ?thesis using a no by (auto split: if_splits)
    next
      case False
      then have "sv_calls s c = Some dl" "sv_calls s d = Some el" using a by simp_all
      then show ?thesis using assms(1) a(3,4) unfolding calls_ok_def by blast
    qed
  qed
qed

lemma submissions_new_call:
  "submissions (s\<lparr>sv_calls := (sv_calls s)(c \<mapsto> cl), sv_next_call := n\<rparr>) =
     (submissions s)(c \<mapsto> cl_submission cl)"
  by (auto simp: submissions_def)

lemma refused_call_ok:
  assumes "server_ok s"
  shows "server_ok (answer_call (sv_next_call s) a (s\<lparr>sv_calls := (sv_calls s)(sv_next_call s \<mapsto>
      \<lparr>cl_kind = kind, cl_request = request, cl_cancelled = False, cl_submission = None, cl_writes = [], cl_answers = []\<rparr>),
      sv_next_call := Suc (sv_next_call s)\<rparr>))" (is "server_ok (answer_call _ _ ?t)")
proof -
  let ?cl = "\<lparr>cl_kind = kind, cl_request = request, cl_cancelled = False, cl_submission = None, cl_writes = [], cl_answers = [a]\<rparr>"
  have eq: "answer_call (sv_next_call s) a ?t =
      s\<lparr>sv_calls := (sv_calls s)(sv_next_call s \<mapsto> ?cl), sv_next_call := Suc (sv_next_call s)\<rparr>"
    by (simp add: answer_call_def)
  have "call_answered l ?cl" for l by (simp add: call_answered_def)
  from new_call_ok [OF _ this, of "settled_in (q_log (sv_queue s))" s] assms show ?thesis
    unfolding eq by (auto simp: server_ok_def submissions_known_iff submissions_new_call)
qed

lemma analyze_call_ok:
  assumes "server_ok s"
  shows "server_ok (analyze_call kind request cancelled s)"
proof -
  let ?new = "\<lambda>sub. s\<lparr>sv_calls := (sv_calls s)(sv_next_call s \<mapsto>
      \<lparr>cl_kind = kind, cl_request = request, cl_cancelled = cancelled, cl_submission = sub, cl_writes = [], cl_answers = []\<rparr>),
      sv_next_call := Suc (sv_next_call s)\<rparr>"
  let ?l = "settled_in (q_log (sv_queue s))"
  have ok: "queue_ok (sv_queue s)" "calls_ok ?l s" "submissions_known s" using assms by (simp_all add: server_ok_def)
  show ?thesis
  proof (cases cancelled)
    case True
    have "call_answered ?l \<lparr>cl_kind = kind, cl_request = request, cl_cancelled = cancelled, cl_submission = None,
        cl_writes = [], cl_answers = []\<rparr>" using True by (simp add: call_answered_def)
    from new_call_ok [OF ok(2) this] assms show ?thesis
      using True by (auto simp: analyze_call_def server_ok_def submissions_known_iff submissions_new_call Let_def)
  next
    case False
    obtain a q' where e: "enqueue (sv_queue s) = (a, q')" by (cases "enqueue (sv_queue s)")
    show ?thesis
    proof (cases a)
      case (Accepted i)
      then have e: "enqueue (sv_queue s) = (Accepted i, q')" using e by simp
      note acc = enqueue_accepted [OF e, unfolded queue_ok_def]
      have line: "line_ok (sv_queue s)" using ok(1) by (simp add: queue_ok_def)
      note acc = enqueue_accepted [OF e line]
      have fresh: "\<forall>c. submissions s c \<noteq> Some (Some i)" using ok(3) acc by (auto simp: submissions_known_iff)
      have "i \<notin> set ?l" using ok(1) acc by (auto simp: queue_ok_def log_ok_def)
      then have "call_answered ?l \<lparr>cl_kind = kind, cl_request = request, cl_cancelled = cancelled, cl_submission = Some i,
          cl_writes = [], cl_answers = []\<rparr>" by (simp add: call_answered_def)
      then have calls: "calls_ok ?l (?new (Some i))" by (rule new_call_ok [OF ok(2)]) (use fresh in simp)
      obtain evs where evs: "q_log q' = q_log (sv_queue s) @ evs" using queue_logs(5) [OF ok(1)] e by auto
      have known: "j < q_next q'" if "submissions (?new (Some i)) d = Some (Some j)" for d j
        using that acc ok(3) by (auto simp: submissions_known_iff submissions_new_call less_Suc_eq split: if_splits)
      have "\<not> sv_shuttingDown s" using acc assms by (auto simp: server_ok_def)
      then have "server_ok (with_queue q' (?new (Some i)))"
        by (intro conjunct1 [OF with_queue_ok [OF enqueue_ok [OF e ok(1)], of "?new (Some i)" evs]])
          (use calls evs known in simp_all)
      then show ?thesis using False e by (simp add: analyze_call_def Let_def)
    qed (use False e refused_call_ok [OF assms, of _ kind request] in \<open>simp_all add: analyze_call_def Let_def\<close>)
  qed
qed

lemma transport_cancelled_ok:
  assumes "server_ok s"
  shows "server_ok (transport_cancelled c s)"
proof (cases "sv_calls s c")
  case None
  then show ?thesis using assms by (simp add: transport_cancelled_def)
next
  case (Some cl)
  let ?s = "s\<lparr>sv_calls := (sv_calls s)(c \<mapsto> cl\<lparr>cl_cancelled := True\<rparr>)\<rparr>"
  have "calls_ok l ?s" if l: "calls_ok l s" for l
  proof -
    have here: "call_answered l (cl\<lparr>cl_cancelled := True\<rparr>)" "c < sv_next_call s"
      using calls_okD [OF l Some] by (auto simp: call_answered_def split: option.splits)
    have unique: "d = e" if "sv_calls ?s d = Some dl" "sv_calls ?s e = Some el" "cl_submission dl = Some i" "cl_submission el = Some i"
      for d e dl el i
    proof -
      have "\<exists>dl'. sv_calls s d = Some dl' \<and> cl_submission dl' = Some i" "\<exists>el'. sv_calls s e = Some el' \<and> cl_submission el' = Some i"
        using that Some by (auto split: if_splits)
      then show ?thesis using l unfolding calls_ok_def by metis
    qed
    have bound: "d < sv_next_call s \<and> call_answered l dl" if "sv_calls ?s d = Some dl" for d dl
      using calls_okD [OF l, of d dl] that here by (cases "d = c") auto
    show ?thesis
      unfolding calls_ok_def
    proof (intro conjI allI impI)
      fix d dl
      assume "sv_calls ?s d = Some dl"
      from bound [OF this] show "d < sv_next_call ?s" "call_answered l dl" by simp_all
    next
      fix d e dl el i
      assume "sv_calls ?s d = Some dl" "sv_calls ?s e = Some el" "cl_submission dl = Some i" "cl_submission el = Some i"
      then show "d = e" by (rule unique)
    qed
  qed
  moreover have "submissions ?s = submissions s" using Some by (auto simp: submissions_def)
  ultimately have ok: "server_ok ?s" using assms by (simp add: server_ok_def submissions_known_iff)
  then show ?thesis
    using Some cancelEntry_same [OF ok] by (simp add: transport_cancelled_def Let_def server_same_def split: option.split)
qed

lemma wake_waiter_same: "server_ok s \<Longrightarrow> server_same s (wake_waiter w wt s)"
  unfolding wake_waiter_def
  by (cases "wt_purpose wt") (simp_all add: complete_same cancellation_settled_same)

lemma server_same_trans: "server_same s t \<Longrightarrow> server_same t u \<Longrightarrow> server_same s u"
  by (simp add: server_same_def)

lemma wake_waiters_same: "server_ok s \<Longrightarrow> server_same s (fold (wake_waiter w) ws s)"
proof (induction ws arbitrary: s)
  case (Cons x xs)
  have "server_same s (wake_waiter w x s)" by (rule wake_waiter_same [OF Cons.prems])
  moreover from this have "server_same (wake_waiter w x s) (fold (wake_waiter w) xs (wake_waiter w x s))"
    by (intro Cons.IH) (simp add: server_same_def)
  ultimately show ?case using server_same_trans by simp blast
qed (simp add: server_same_def)

lemma server_ok_waiters: "server_ok (s\<lparr>sv_waiters := ws\<rparr>) = server_ok s"
  by (simp add: server_ok_def calls_ok_def submissions_known_def)

lemma worker_completion_ok: "server_ok s \<Longrightarrow> server_ok (worker_completion ty rid r s)"
  using wake_waiters_same [of "s\<lparr>sv_waiters := filter (\<lambda>w. \<not> (wt_type w = ty \<and> wt_request w = rid)) (sv_waiters s)\<rparr>"]
  by (simp add: worker_completion_def server_ok_waiters server_same_def)

lemma writeResponse_ok: "server_ok s \<Longrightarrow> server_ok (writeResponse c r s)"
proof -
  assume ok: "server_ok s"
  show ?thesis
  proof (cases "sv_calls s c")
    case (Some cl)
    have calls: "calls_ok l (s\<lparr>sv_calls := (sv_calls s)(c \<mapsto> cl\<lparr>cl_writes := w\<rparr>)\<rparr>)" if l: "calls_ok l s" for l w
    proof -
      have here: "call_answered l (cl\<lparr>cl_writes := w\<rparr>)" "c < sv_next_call s"
        using calls_okD [OF l Some] by (auto simp: call_answered_def split: option.splits)
      have sub: "map_option cl_submission (((sv_calls s)(c \<mapsto> cl\<lparr>cl_writes := w\<rparr>)) d) = map_option cl_submission (sv_calls s d)" for d
        using Some by simp
      show ?thesis
        unfolding calls_ok_def
      proof (intro conjI allI impI)
        fix d dl
        assume "sv_calls (s\<lparr>sv_calls := (sv_calls s)(c \<mapsto> cl\<lparr>cl_writes := w\<rparr>)\<rparr>) d = Some dl"
        then show "d < sv_next_call (s\<lparr>sv_calls := (sv_calls s)(c \<mapsto> cl\<lparr>cl_writes := w\<rparr>)\<rparr>)" "call_answered l dl"
          using here calls_okD [OF l, of d dl] by (auto split: if_splits)
      next
        fix d e dl el i
        assume "sv_calls (s\<lparr>sv_calls := (sv_calls s)(c \<mapsto> cl\<lparr>cl_writes := w\<rparr>)\<rparr>) d = Some dl"
          "sv_calls (s\<lparr>sv_calls := (sv_calls s)(c \<mapsto> cl\<lparr>cl_writes := w\<rparr>)\<rparr>) e = Some el"
          "cl_submission dl = Some i" "cl_submission el = Some i"
        then have "map_option cl_submission (sv_calls s d) = Some (Some i)" "map_option cl_submission (sv_calls s e) = Some (Some i)"
          using sub [of d] sub [of e] by simp_all
        then obtain dl' el' where "sv_calls s d = Some dl'" "cl_submission dl' = Some i" "sv_calls s e = Some el'" "cl_submission el' = Some i"
          by auto
        then show "d = e" using l unfolding calls_ok_def by blast
      qed
    qed
    have "submissions (s\<lparr>sv_calls := (sv_calls s)(c \<mapsto> cl\<lparr>cl_writes := w\<rparr>)\<rparr>) = submissions s" for w
      using Some by (auto simp: submissions_def)
    then show ?thesis using ok Some calls by (simp add: writeResponse_def server_ok_def submissions_known_iff)
  qed (use ok in \<open>simp add: writeResponse_def\<close>)
qed

lemma worker_event_ok: "server_ok s \<Longrightarrow> server_ok (worker_event rid r s)"
  unfolding worker_event_def
proof (induction "filter (\<lambda>w. wt_type w = StreamComplete \<and> wt_request w = rid) (sv_waiters s)" arbitrary: s)
  case Nil
  then show ?case by (metis fold_simps(1))
next
  case (Cons w ws)
  have "server_ok (fold (\<lambda>w s. case wt_purpose w of
            RunOf i \<Rightarrow> (case call_of_entry s i of None \<Rightarrow> s | Some c \<Rightarrow> writeResponse c r s)
          | CancellationOf _ _ \<Rightarrow> s) vs t)" if "server_ok t" for vs t
    using that
    by (induction vs arbitrary: t) (auto simp: writeResponse_ok split: option.split purpose.split)
  then show ?case using Cons.prems by blast
qed

lemma waiter_timeout_ok: "server_ok s \<Longrightarrow> server_ok (waiter_timeout w s)"
  using wake_waiter_same [of "s\<lparr>sv_waiters := remove1 w (sv_waiters s)\<rparr>"]
  by (simp add: waiter_timeout_def server_ok_waiters server_same_def)

text \<open>The state after a shutdown.\<close>

lemma shutdown_steps:
  assumes "server_ok s"
  shows "server_ok (shutdown s) \<and> sv_shuttingDown (shutdown s) \<and> q_closed (sv_queue (shutdown s))
    \<and> submissions (shutdown s) = submissions s \<and> (\<not> sv_shuttingDown s \<longrightarrow> sv_closed (shutdown s) \<and> sv_lease (shutdown s) = None)"
proof (cases "sv_shuttingDown s")
  case True
  then show ?thesis using assms by (simp add: shutdown_def server_ok_def)
next
  case False
  let ?s2 = "s\<lparr>sv_shuttingDown := True, sv_startup_timer := False, sv_lease := None\<rparr>"
  let ?q = "close_queue (sv_queue s)"
  let ?t1 = "with_queue ?q ?s2"
  have ok: "queue_ok (sv_queue s)" using assms by (simp add: server_ok_def)
  obtain evs where evs: "q_log ?q = q_log (sv_queue s) @ evs" using queue_logs(4) [OF ok] by blast
  have sub: "submissions ?s2 = submissions s" by (simp add: submissions_def fun_eq_iff)
  have "server_ok (with_queue ?q ?s2) \<and> sv_queue (with_queue ?q ?s2) = ?q \<and> submissions (with_queue ?q ?s2) = submissions ?s2
      \<and> sv_shuttingDown (with_queue ?q ?s2) = sv_shuttingDown ?s2"
  proof (rule with_queue_ok)
    show "calls_ok (settled_in (q_log (sv_queue ?s2))) ?s2" using assms by (simp add: server_ok_def calls_ok_def)
    show "i < q_next ?q" if "submissions ?s2 c = Some (Some i)" for c i
      using that assms close_result [OF ok] unfolding sub by (auto simp: server_ok_def submissions_known_iff)
  qed (use evs close_result [OF ok] in simp_all)
  moreover have "sv_lease (with_queue q ?s2) = None" for q
  proof -
    have "sv_lease (queue_effect ev t) = sv_lease t" for ev and t :: "('a, 'b) server"
      by (cases ev)
        (auto simp: start_run_def requestCancel_def answer_submission_def answer_call_def getNextWorkerRequestId_def
          post_def wait_for_def split: option.split call_kind.split)
    then have "sv_lease (fold queue_effect l t) = sv_lease t" for l and t :: "('a, 'b) server"
      by (induction l arbitrary: t) auto
    then show ?thesis by (simp add: with_queue_def)
  qed
  ultimately have t1: "server_ok ?t1" "sv_queue ?t1 = ?q" "submissions ?t1 = submissions s" "sv_shuttingDown ?t1" "sv_lease ?t1 = None"
    using sub by simp_all
  let ?t2 = "closeWorker (cancelAnalysisOnShutdown (hasActive (sv_queue s)) ?t1)"
  have same: "same_calls ?t1 ?t2" "sv_lease ?t2 = sv_lease ?t1"
    by (auto simp: same_calls_def closeWorker_def cancelAnalysisOnShutdown_def getNextWorkerRequestId_def post_def)
  have eq: "shutdown s = ?t2\<lparr>sv_closed := True\<rparr>"
    using False by (simp add: shutdown_def clearStartupShutdownTimeout_def Let_def)
  have "server_ok ?t2" using same_calls_ok(1) [OF same(1)] t1(1) by simp
  then have "server_ok (?t2\<lparr>sv_closed := True\<rparr>)"
    by (simp add: server_ok_def calls_ok_def submissions_known_def)
  then show ?thesis
    unfolding eq using same t1 close_result [OF ok] by (simp add: same_calls_def submissions_def fun_eq_iff)
qed

lemma worker_error_ok: "server_ok s \<Longrightarrow> server_ok (worker_error m s)"
  using wake_waiters_same [of "(shutdown s)\<lparr>sv_waiters := []\<rparr>"] shutdown_steps [of s]
  by (simp add: worker_error_def server_ok_waiters server_same_def Let_def)

section \<open>Runs\<close>

text \<open>Everything that may happen to the server, in any order and at any time.\<close>

inductive server_step :: "('q, 'r) server \<Rightarrow> ('q, 'r) server \<Rightarrow> bool" where
  on_stream_call: "server_step s (createAnalyzeProjectStreamHandler request cancelled s)"
| on_unary_call: "server_step s (createAnalyzeProjectUnaryHandler request cancelled s)"
| on_transport_cancelled: "server_step s (transport_cancelled c s)"
| on_cancel_analysis: "server_step s (snd (cancel_analysis_call s))"
| on_completion: "server_step s (worker_completion ty rid result s)"
| on_event: "server_step s (worker_event rid response s)"
| on_worker_error: "server_step s (worker_error message s)"
| on_waiter_timeout: "server_step s (waiter_timeout w s)"
| on_thread_event: "server_step s (current_thread_event i response s)"
| on_thread_result: "server_step s (current_thread_result i result s)"
| on_thread_cancelled: "server_step s (current_thread_cancelled i c ok s)"
| on_lease: "server_step s (snd (lease_call l s))"
| on_lease_lost: "server_step s (lease_lost l s)"
| on_scheduled_shutdown: "server_step s (scheduled_shutdown s)"
| on_startup_timer: "server_step s (startup_timer_fires s)"

inductive server_run :: "('q, 'r) server \<Rightarrow> bool" where
  server_start: "server_run (scheduleStartupShutdownTimeout timeout (createServerState worker))"
| server_next: "server_run s \<Longrightarrow> server_step s t \<Longrightarrow> server_run t"

lemma initial_server_ok: "server_ok (scheduleStartupShutdownTimeout timeout (createServerState worker))"
proof -
  have q: "new_queue (Some (int MAX_PENDING_ANALYSIS_REQUESTS)) = Inr (projr (new_queue (Some (int MAX_PENDING_ANALYSIS_REQUESTS))))"
    by (simp add: new_queue_def)
  have "server_ok (createServerState worker)"
    using new_queue_ok [OF q]
    by (simp add: server_ok_def createServerState_def calls_ok_def submissions_known_def)
  then show ?thesis
    by (simp add: scheduleStartupShutdownTimeout_def clearStartupShutdownTimeout_def server_ok_def calls_ok_def submissions_known_def)
qed

lemma server_step_ok: "server_step s t \<Longrightarrow> server_ok s \<Longrightarrow> server_ok t"
proof (induction rule: server_step.induct)
  case (on_cancel_analysis s)
  show ?case
  proof (cases "q_active (sv_queue s)")
    case None
    have "with_queue (sv_queue s) s = s" by (simp add: with_queue_def)
    then show ?thesis using None on_cancel_analysis by (simp add: cancel_analysis_call_def cancelActiveAnalysis_def)
  next
    case (Some i)
    then show ?thesis
      using cancelEntry_same [OF on_cancel_analysis, of i]
      by (simp add: cancel_analysis_call_def cancelActiveAnalysis_def server_same_def split_beta)
  qed
next
  case (on_thread_event s i response)
  then show ?case by (simp add: current_thread_event_def writeResponse_ok split: option.split)
next
  case (on_thread_result s i result)
  then show ?case using complete_same [OF on_thread_result] by (simp add: current_thread_result_def server_same_def)
next
  case (on_thread_cancelled s i c ok)
  then show ?case using cancellation_settled_same [OF on_thread_cancelled] by (simp add: current_thread_cancelled_def server_same_def)
next
  case (on_lease s l)
  then show ?case by (simp add: lease_call_def clearStartupShutdownTimeout_def server_ok_def calls_ok_def submissions_known_def)
next
  case (on_lease_lost s l)
  then show ?case by (simp add: lease_lost_def server_ok_def calls_ok_def submissions_known_def)
next
  case (on_scheduled_shutdown s)
  have "server_ok (s\<lparr>sv_shutdown_scheduled := False\<rparr>)"
    using on_scheduled_shutdown by (simp add: server_ok_def calls_ok_def submissions_known_def)
  then show ?case using on_scheduled_shutdown by (simp add: scheduled_shutdown_def shutdown_steps)
next
  case (on_startup_timer s)
  then show ?case by (simp add: startup_timer_fires_def shutdown_steps)
qed (simp_all add: createAnalyzeProjectStreamHandler_def createAnalyzeProjectUnaryHandler_def analyze_call_ok transport_cancelled_ok worker_completion_ok worker_event_ok worker_error_ok waiter_timeout_ok)

lemma server_run_ok: "server_run s \<Longrightarrow> server_ok s"
  by (induction rule: server_run.induct) (auto intro: initial_server_ok server_step_ok)

section \<open>Properties\<close>

text \<open>
  C18. Every call is answered at most once, and at the right time. Whatever calls, cancellations,
  messages, timeouts and shutdowns happen, a call that was not cancelled has exactly one answer
  when the queue refused it or the promise of its submission has settled, and none before.
\<close>

theorem calls_answered_once:
  assumes "server_run s" "sv_calls s c = Some cl"
  shows "length (cl_answers cl) \<le> 1
    \<and> (\<not> cl_cancelled cl \<longrightarrow> length (cl_answers cl) =
        (case cl_submission cl of None \<Rightarrow> 1
         | Some i \<Rightarrow> if i \<in> set (settled_in (q_log (sv_queue s))) then 1 else 0))"
proof -
  have "call_answered (settled_in (q_log (sv_queue s))) cl"
    using server_run_ok [OF assms(1)] calls_okD(1) [OF _ assms(2)] by (simp add: server_ok_def)
  then show ?thesis by (auto simp: call_answered_def split: option.splits)
qed

text \<open>
  C19. A shutdown leaves no call waiting. After it, in every reachable state, each call whose
  transport was not cancelled has its one answer, the lease is released, the queue is closed,
  and a call that arrives later fails with \<open>UNAVAILABLE\<close>.
\<close>

theorem shutdown_answers_every_call:
  assumes "server_run s" "\<not> sv_shuttingDown s"
  shows "(let t = shutdown s in
    sv_closed t \<and> sv_lease t = None \<and> q_closed (sv_queue t) \<and> shutdown t = t
    \<and> (\<forall>c cl. sv_calls t c = Some cl \<longrightarrow> \<not> cl_cancelled cl \<longrightarrow> length (cl_answers cl) = 1)
    \<and> map_option cl_answers (sv_calls (createAnalyzeProjectStreamHandler request False t) (sv_next_call t)) =
        Some [Fails (toGrpcError ''Analyze-project request queue is closed'' UNAVAILABLE)])"
proof -
  let ?t = "shutdown s"
  note st = shutdown_steps [OF server_run_ok [OF assms(1)]]
  have line: "queue_line (sv_queue ?t) = []"
    using st by (auto simp: server_ok_def queue_ok_def line_ok_def queue_line_def)
  have answers: "length (cl_answers cl) = 1" if "sv_calls ?t c = Some cl" "\<not> cl_cancelled cl" for c cl
  proof -
    have ok: "call_answered (settled_in (q_log (sv_queue ?t))) cl"
      using st calls_okD(1) [OF _ that(1)] by (simp add: server_ok_def)
    show ?thesis
    proof (cases "cl_submission cl")
      case None
      then show ?thesis using ok that(2) by (simp add: call_answered_def)
    next
      case (Some i)
      then have "i < q_next (sv_queue ?t)" using st that(1) by (auto simp: server_ok_def submissions_known_def)
      then have "i \<in> set (settled_in (q_log (sv_queue ?t)))"
        using st line by (auto simp: server_ok_def queue_ok_def log_ok_def)
      then show ?thesis using ok that(2) Some by (simp add: call_answered_def)
    qed
  qed
  have "enqueue (sv_queue ?t) = (RefusedClosed, sv_queue ?t)" using st by (simp add: enqueue_def)
  then have "map_option cl_answers (sv_calls (createAnalyzeProjectStreamHandler request False ?t) (sv_next_call ?t)) =
      Some [Fails (toGrpcError ''Analyze-project request queue is closed'' UNAVAILABLE)]"
    by (simp add: createAnalyzeProjectStreamHandler_def analyze_call_def answer_call_def Let_def)
  moreover have "shutdown ?t = ?t" using st by (simp add: shutdown_def [of ?t])
  ultimately show ?thesis using st assms(2) answers by (simp add: Let_def)
qed

definition sample_server :: "(nat, nat) server" where
  "sample_server = createAnalyzeProjectUnaryHandler 7 False (createAnalyzeProjectStreamHandler 5 False
     (scheduleStartupShutdownTimeout 0 (createServerState True)))"

lemma sample_server_run: "server_run sample_server"
  unfolding sample_server_def by (rule server_next [OF _ on_unary_call], rule server_next [OF _ on_stream_call], rule server_start)

theorem calls_answered_once_witness:
  "\<exists>cl. sv_calls sample_server 1 = Some cl \<and> cl_answers cl = []"
proof -
  have "\<not> sv_calls sample_server 1 = None" "settled_in (q_log (sv_queue sample_server)) = []"
    "map_option cl_submission (sv_calls sample_server 1) = Some (Some 1)" "map_option cl_cancelled (sv_calls sample_server 1) = Some False"
    by code_simp+
  then show ?thesis using calls_answered_once [OF sample_server_run, of 1] by auto
qed

theorem shutdown_answers_every_call_witness:
  "sv_closed (shutdown sample_server) \<and> (\<exists>cl. sv_calls (shutdown sample_server) 1 = Some cl \<and> length (cl_answers cl) = 1)"
proof -
  have "\<not> sv_shuttingDown sample_server" by code_simp
  note t = shutdown_answers_every_call [OF sample_server_run this]
  have "map_option cl_cancelled (sv_calls (shutdown sample_server) 1) = Some False" by code_simp
  then show ?thesis using t by (auto simp: Let_def)
qed

end
