(* ===== verification/Regex_Match.thy ===== *)
theory Regex_Match
  imports Prelude
begin

text \<open>
  The regular expressions of the source are values of the type below, matched by derivatives.
  The operators are those the source uses: classes of characters, sequences, alternatives,
  \<open>*\<close>, \<open>+\<close> and \<open>?\<close>; \<open>test\<close> searches anywhere, an expression that begins with \<open>^\<close> or ends with
  \<open>$\<close> is anchored. Case and Unicode flags do not occur; \<open>.\<close> excludes line ends unless the
  flag \<open>s\<close> is set.
\<close>

section \<open>Expressions\<close>

datatype regex =
    RFail
  | REmpty
  | RClass "char \<Rightarrow> bool"
  | RSeq regex regex
  | RAlt regex regex
  | RStar regex

definition lit :: "string \<Rightarrow> regex" where
  "lit s = foldr (\<lambda>c r. RSeq (RClass (\<lambda>d. d = c)) r) s REmpty"

definition one_of :: "string \<Rightarrow> regex" where
  "one_of cs = RClass (\<lambda>d. d \<in> set cs)"

definition none_of :: "string \<Rightarrow> regex" where
  "none_of cs = RClass (\<lambda>d. d \<notin> set cs)"

definition any_char :: regex where
  "any_char = RClass (\<lambda>_. True)"

definition line_char :: regex where
  "line_char = RClass (\<lambda>d. d \<noteq> CHR 0x0A \<and> d \<noteq> CHR 0x0D)"

definition RPlus :: "regex \<Rightarrow> regex" where
  "RPlus r = RSeq r (RStar r)"

definition ROpt :: "regex \<Rightarrow> regex" where
  "ROpt r = RAlt r REmpty"

definition rseq :: "regex list \<Rightarrow> regex" where
  "rseq rs = foldr RSeq rs REmpty"

definition ralt :: "regex list \<Rightarrow> regex" where
  "ralt rs = foldr RAlt rs RFail"

text \<open>\<open>\s\<close> and \<open>\w\<close> for characters of the basic Latin block.\<close>

definition is_space :: "char \<Rightarrow> bool" where
  "is_space c \<longleftrightarrow> c \<in> {CHR 0x09, CHR 0x0A, CHR 0x0B, CHR 0x0C, CHR 0x0D, CHR 0x20, CHR 0xA0}"

definition is_letter :: "char \<Rightarrow> bool" where
  "is_letter c \<longleftrightarrow> (let n = of_char c :: nat in 65 \<le> n \<and> n \<le> 90 \<or> 97 \<le> n \<and> n \<le> 122)"

definition is_numeral :: "char \<Rightarrow> bool" where
  "is_numeral c \<longleftrightarrow> (let n = of_char c :: nat in 48 \<le> n \<and> n \<le> 57)"

definition is_word :: "char \<Rightarrow> bool" where
  "is_word c \<longleftrightarrow> is_letter c \<or> is_numeral c \<or> c = CHR ''_''"

section \<open>Matching\<close>

fun nullable :: "regex \<Rightarrow> bool" where
  "nullable RFail = False"
| "nullable REmpty = True"
| "nullable (RClass P) = False"
| "nullable (RSeq r s) = (nullable r \<and> nullable s)"
| "nullable (RAlt r s) = (nullable r \<or> nullable s)"
| "nullable (RStar r) = True"

text \<open>Constructors that drop failures, so that derivatives stay small.\<close>

fun mk_seq :: "regex \<Rightarrow> regex \<Rightarrow> regex" where
  "mk_seq RFail s = RFail"
| "mk_seq REmpty s = s"
| "mk_seq r s = RSeq r s"

fun mk_alt :: "regex \<Rightarrow> regex \<Rightarrow> regex" where
  "mk_alt RFail s = s"
| "mk_alt r RFail = r"
| "mk_alt r s = RAlt r s"

fun deriv :: "char \<Rightarrow> regex \<Rightarrow> regex" where
  "deriv c RFail = RFail"
| "deriv c REmpty = RFail"
| "deriv c (RClass P) = (if P c then REmpty else RFail)"
| "deriv c (RSeq r s) =
     (if nullable r then mk_alt (mk_seq (deriv c r) s) (deriv c s) else mk_seq (deriv c r) s)"
| "deriv c (RAlt r s) = mk_alt (deriv c r) (deriv c s)"
| "deriv c (RStar r) = mk_seq (deriv c r) (RStar r)"

fun full_match :: "regex \<Rightarrow> string \<Rightarrow> bool" where
  "full_match r [] = nullable r"
| "full_match r (c # cs) = full_match (deriv c r) cs"

text \<open>\<open>search\<close> is \<open>test\<close> of an expression without anchors, the others have \<open>^\<close> or \<open>$\<close>.\<close>

definition search :: "regex \<Rightarrow> string \<Rightarrow> bool" where
  "search r s = full_match (RSeq (RStar any_char) (RSeq r (RStar any_char))) s"

definition search_start :: "regex \<Rightarrow> string \<Rightarrow> bool" where
  "search_start r s = full_match (RSeq r (RStar any_char)) s"

definition search_end :: "regex \<Rightarrow> string \<Rightarrow> bool" where
  "search_end r s = full_match (RSeq (RStar any_char) r) s"

section \<open>Languages\<close>

inductive in_lang :: "regex \<Rightarrow> string \<Rightarrow> bool" where
  in_empty: "in_lang REmpty []"
| in_class: "P c \<Longrightarrow> in_lang (RClass P) [c]"
| in_seq: "in_lang r s \<Longrightarrow> in_lang r' s' \<Longrightarrow> in_lang (RSeq r r') (s @ s')"
| in_alt1: "in_lang r s \<Longrightarrow> in_lang (RAlt r r') s"
| in_alt2: "in_lang r' s \<Longrightarrow> in_lang (RAlt r r') s"
| in_star_nil: "in_lang (RStar r) []"
| in_star_step: "in_lang r s \<Longrightarrow> s \<noteq> [] \<Longrightarrow> in_lang (RStar r) s' \<Longrightarrow> in_lang (RStar r) (s @ s')"

inductive_simps in_lang_fail [simp]: "in_lang RFail s"
inductive_simps in_lang_empty [simp]: "in_lang REmpty s"
inductive_simps in_lang_class [simp]: "in_lang (RClass P) s"
inductive_simps in_lang_alt [simp]: "in_lang (RAlt r r') s"
inductive_cases in_seqE: "in_lang (RSeq r r') s"
inductive_cases in_starE: "in_lang (RStar r) s"

lemma in_lang_seq [simp]: "in_lang (RSeq r r') s \<longleftrightarrow> (\<exists>u v. s = u @ v \<and> in_lang r u \<and> in_lang r' v)"
proof
  assume "in_lang (RSeq r r') s"
  then show "\<exists>u v. s = u @ v \<and> in_lang r u \<and> in_lang r' v" by (rule in_seqE) blast
qed (auto intro: in_seq)

lemma nullable_iff: "nullable r \<longleftrightarrow> in_lang r []"
  by (induction r) (auto intro: in_star_nil)

lemma mk_seq_lang: "in_lang (mk_seq r s) w = in_lang (RSeq r s) w"
  by (cases r) auto

lemma mk_alt_lang: "in_lang (mk_alt r s) w = in_lang (RAlt r s) w"
  by (cases r; cases s) auto

lemma in_lang_star_Cons:
  "in_lang (RStar r) (c # w) \<longleftrightarrow> (\<exists>u v. w = u @ v \<and> in_lang r (c # u) \<and> in_lang (RStar r) v)"
proof
  assume "in_lang (RStar r) (c # w)"
  then show "\<exists>u v. w = u @ v \<and> in_lang r (c # u) \<and> in_lang (RStar r) v"
  proof (rule in_starE)
    fix s s'
    assume "c # w = s @ s'" "in_lang r s" "s \<noteq> []" "in_lang (RStar r) s'"
    then show ?thesis by (cases s) auto
  qed simp
next
  assume "\<exists>u v. w = u @ v \<and> in_lang r (c # u) \<and> in_lang (RStar r) v"
  then obtain u v where "w = u @ v" "in_lang r (c # u)" "in_lang (RStar r) v" by blast
  then show "in_lang (RStar r) (c # w)" using in_star_step [of r "c # u" v] by simp
qed

lemma deriv_lang: "in_lang (deriv c r) w \<longleftrightarrow> in_lang r (c # w)"
proof (induction r arbitrary: w)
  case (RSeq r s)
  have "in_lang (RSeq r s) (c # w) \<longleftrightarrow>
      (nullable r \<and> in_lang s (c # w)) \<or> (\<exists>u v. w = u @ v \<and> in_lang r (c # u) \<and> in_lang s v)"
    by (auto simp: nullable_iff Cons_eq_append_conv)
  then show ?case using RSeq.IH by (auto simp: mk_alt_lang mk_seq_lang)
next
  case (RStar r)
  then show ?case by (simp add: mk_seq_lang in_lang_star_Cons)
qed (auto simp: mk_alt_lang)

lemma full_match_lang: "full_match r s \<longleftrightarrow> in_lang r s"
  by (induction s arbitrary: r) (simp_all add: nullable_iff deriv_lang)

lemma star_any [simp]: "in_lang (RStar any_char) s"
proof (induction s)
  case (Cons c s)
  have "in_lang any_char [c]" by (simp add: any_char_def)
  then show ?case using in_star_step [of any_char "[c]" s] Cons by simp
qed (rule in_star_nil)

text \<open>Searching is finding a part of the string that belongs to the expression.\<close>

lemma search_iff: "search r s \<longleftrightarrow> (\<exists>a m b. s = a @ m @ b \<and> in_lang r m)"
  by (auto simp: search_def full_match_lang)

lemma search_start_iff: "search_start r s \<longleftrightarrow> (\<exists>m b. s = m @ b \<and> in_lang r m)"
  by (auto simp: search_start_def full_match_lang)

lemma search_end_iff: "search_end r s \<longleftrightarrow> (\<exists>a m. s = a @ m \<and> in_lang r m)"
  by (auto simp: search_end_def full_match_lang)

lemma in_lang_lit [simp]: "in_lang (lit s) w \<longleftrightarrow> w = s"
  by (induction s arbitrary: w) (auto simp: lit_def)

lemma in_lang_ralt: "in_lang (ralt rs) w \<longleftrightarrow> (\<exists>r\<in>set rs. in_lang r w)"
  by (induction rs) (auto simp: ralt_def)

lemma in_lang_rseq [simp]:
  "in_lang (rseq []) w \<longleftrightarrow> w = []"
  "in_lang (rseq (r # rs)) w \<longleftrightarrow> (\<exists>u v. w = u @ v \<and> in_lang r u \<and> in_lang (rseq rs) v)"
  by (simp_all add: rseq_def)

lemma in_lang_classes [simp]:
  "in_lang (one_of cs) w \<longleftrightarrow> (\<exists>c\<in>set cs. w = [c])" "in_lang (none_of cs) w \<longleftrightarrow> (\<exists>c. c \<notin> set cs \<and> w = [c])"
  by (auto simp: one_of_def none_of_def)

end
