(* ===== verification/Normalized_Path.thy ===== *)
theory Normalized_Path
  imports Posix_Path Regex_Match
begin

text \<open>
  \<open>packages/analysis/src/jsts/rules/helpers/path-normalization.ts\<close> and the path helpers of
  \<open>files.ts\<close>, on a platform other than Windows. There, too, an absolute path goes through
  \<open>path.win32.resolve\<close>, whose parsing of roots is written out below; \<open>cwd\<close> is the current
  directory, which has no drive.
\<close>

section \<open>\<open>path.win32\<close>\<close>

definition is_sep :: "char \<Rightarrow> bool" where
  "is_sep c \<longleftrightarrow> c = CHR ''/'' \<or> c = CHR 0x5C"

definition backslash :: string where
  "backslash = [CHR 0x5C]"

definition split_seps :: "string \<Rightarrow> string list" where
  "split_seps s = split_on (CHR ''/'') (map (\<lambda>c. if is_sep c then CHR ''/'' else c) s)"

text \<open>
  The root of a path: its device, whether it is absolute, and the rest. Two separators, a name,
  separators and another name are a UNC root, or a device root when the first name is \<open>.\<close> or \<open>?\<close>.
\<close>

definition win32_unc :: "string \<Rightarrow> (string \<times> string) option" where
  "win32_unc s =
     (let first = takeWhile (\<lambda>c. \<not> is_sep c) s;
          rest = dropWhile (\<lambda>c. \<not> is_sep c) s;
          seps = takeWhile is_sep rest;
          rest' = dropWhile is_sep rest;
          share = takeWhile (\<lambda>c. \<not> is_sep c) rest'
      in if first = [] \<or> seps = [] \<or> share = [] then None
         else if first = ''.'' \<or> first = ''?'' then Some (backslash @ backslash @ first, drop 2 s)
         else Some (backslash @ backslash @ first @ backslash @ share, dropWhile (\<lambda>c. \<not> is_sep c) rest'))"

fun win32_root :: "string \<Rightarrow> string \<times> bool \<times> string" where
  "win32_root [] = ([], False, [])"
| "win32_root [c] = (if is_sep c then ([], True, []) else ([], False, [c]))"
| "win32_root (c # d # s) =
     (if is_sep c then
        (if is_sep d then
           (case win32_unc s of Some (device, rest) \<Rightarrow> (device, True, rest) | None \<Rightarrow> ([], True, d # s))
         else ([], True, d # s))
      else if is_letter c \<and> d = CHR '':'' then
        (case s of
           e # s' \<Rightarrow> if is_sep e then ([c, d], True, s') else ([c, d], False, s)
         | [] \<Rightarrow> ([c, d], False, s))
      else ([], False, c # d # s))"

text \<open>A path with a drive but no root is resolved against the current directory.\<close>

definition win32_resolve :: "string \<Rightarrow> string \<Rightarrow> string" where
  "win32_resolve cwd p =
     (let (device, absolute, rest) = win32_root p;
          segs = (if absolute then norm_segments False (split_seps rest)
                  else norm_segments False (split_seps cwd @ split_seps rest))
      in device @ backslash @ join_with backslash segs)"

section \<open>Normalization\<close>

function toUnixPath :: "string \<Rightarrow> string" where
  "toUnixPath [] = []"
| "toUnixPath (c # s) =
     (if is_sep c then CHR ''/'' # toUnixPath (dropWhile is_sep s) else c # toUnixPath s)"
  by pat_completeness auto
termination by (relation "measure length") (auto simp: le_imp_less_Suc length_dropWhile_le)

definition isAbsolutePath :: "string \<Rightarrow> bool" where
  "isAbsolutePath p =
     (case p of
        [] \<Rightarrow> False
      | c # s \<Rightarrow> is_sep c \<or> (is_letter c \<and> (case s of d # _ \<Rightarrow> d = CHR '':'' | [] \<Rightarrow> False)))"

text \<open>Without Windows a path that is not resolved only has its separators replaced.\<close>

definition normalizePath :: "string \<Rightarrow> string" where
  "normalizePath p = toUnixPath p"

definition normalizeToAbsolutePath :: "string \<Rightarrow> string \<Rightarrow> string \<Rightarrow> string" where
  "normalizeToAbsolutePath cwd p baseDir =
     toUnixPath (if isAbsolutePath p then win32_resolve cwd p else path_resolve (path_resolve cwd baseDir) p)"

definition ROOT_PATH :: string where
  "ROOT_PATH = ''/''"

section \<open>Helpers of \<open>files.ts\<close>\<close>

text \<open>Strings are sequences of UTF-16 units here: the byte order mark is one that \<open>bom\<close> tells.\<close>

definition stripBOM :: "('c \<Rightarrow> bool) \<Rightarrow> 'c list \<Rightarrow> 'c list" where
  "stripBOM bom s = (case s of c # r \<Rightarrow> if bom c then r else s | [] \<Rightarrow> s)"

definition relativeToAncestorPath :: "string \<Rightarrow> string \<Rightarrow> string option" where
  "relativeToAncestorPath filePath topDir =
     (let prefix = (if ends_with topDir ''/'' then topDir else topDir @ ''/'')
      in if filePath = topDir then Some ''''
         else if starts_with filePath prefix then Some (drop (length prefix) filePath) else None)"

definition assertNestedPath :: "string \<Rightarrow> string \<Rightarrow> bool" where
  "assertNestedPath from topDir =
     (let f = (if ends_with from ''/'' then from else from @ ''/'');
          t = (if ends_with topDir ''/'' then topDir else topDir @ ''/'')
      in starts_with f t)"

text \<open>\<open>extname\<close> of \<open>node:path/posix\<close>.\<close>

definition base_name :: "string \<Rightarrow> string" where
  "base_name p = last (split_on (CHR ''/'') (rev (dropWhile (\<lambda>c. c = CHR ''/'') (rev p))))"

definition extname :: "string \<Rightarrow> string" where
  "extname p =
     (let b = base_name p;
          tail = takeWhile (\<lambda>c. c \<noteq> CHR ''.'') (rev b)
      in if b = ''..'' \<or> CHR ''.'' \<notin> set b \<or> Suc (length tail) = length b then ''''
         else CHR ''.'' # rev tail)"

text \<open>\<open>toLowerCase\<close> for letters of the basic Latin block; other characters are kept.\<close>

definition lower_char :: "char \<Rightarrow> char" where
  "lower_char c = (let n = of_char c :: nat in if 65 \<le> n \<and> n \<le> 90 then char_of (n + 32) else c)"

definition toLowerCase :: "string \<Rightarrow> string" where
  "toLowerCase = map lower_char"

section \<open>Lemmas\<close>

lemma toUnixPath_sep: "is_sep c \<Longrightarrow> toUnixPath (c # s) = CHR ''/'' # toUnixPath (dropWhile is_sep s)"
  by simp

lemma toUnixPath_plain: "\<forall>c\<in>set s. \<not> is_sep c \<Longrightarrow> toUnixPath (s @ t) = s @ toUnixPath t"
  by (induction s) auto

lemma join_no_char: "c \<notin> set sep \<Longrightarrow> \<forall>s\<in>set segs. c \<notin> set s \<Longrightarrow> c \<notin> set (join_with sep segs)"
  by (induction segs rule: induct_list012) auto

lemma join_head:
  assumes "clean segs" "\<forall>s\<in>set segs. CHR 0x5C \<notin> set s" "segs \<noteq> []"
  obtains c r where "join_with sep segs = c # r" "\<not> is_sep c"
proof -
  obtain s t where s: "segs = s # t" using assms(3) by (cases segs) auto
  then obtain c r where c: "s = c # r" using assms(1) by (cases s) (auto simp: clean_segment_def)
  have "\<not> is_sep c" using assms(1,2) by (auto simp: s c clean_segment_def is_sep_def)
  moreover have "\<exists>q. join_with sep segs = c # q" by (cases t) (auto simp: s c)
  ultimately show ?thesis by (metis that)
qed

lemma toUnixPath_join:
  assumes "clean segs" "\<forall>s\<in>set segs. CHR 0x5C \<notin> set s" "is_sep d"
  shows "toUnixPath (join_with [d] segs) = join_with ''/'' segs"
  using assms
proof (induction segs rule: induct_list012)
  case (2 s)
  then have "\<forall>c\<in>set s. \<not> is_sep c" by (auto simp: is_sep_def clean_segment_def)
  then show ?case using toUnixPath_plain [of s "[]"] by simp
next
  case (3 s t segs)
  have s: "\<forall>c\<in>set s. \<not> is_sep c" using 3 by (auto simp: is_sep_def clean_segment_def)
  have t: "clean (t # segs)" "\<forall>x\<in>set (t # segs). CHR 0x5C \<notin> set x" using 3 by simp_all
  obtain c r where c: "join_with [d] (t # segs) = c # r" "\<not> is_sep c" using join_head [OF t] by blast
  have "toUnixPath (join_with [d] (t # segs)) = join_with ''/'' (t # segs)" using 3 by simp
  then show ?case using toUnixPath_plain [OF s, of "d # join_with [d] (t # segs)"] c 3(5) by simp
qed simp

lemma split_seps_slash: "CHR 0x5C \<notin> set p \<Longrightarrow> split_seps p = split_on (CHR ''/'') p"
proof -
  assume "CHR 0x5C \<notin> set p"
  then have "map (\<lambda>c. if is_sep c then CHR ''/'' else c) p = p"
    by (intro map_idI) (auto simp: is_sep_def)
  then show ?thesis by (simp add: split_seps_def)
qed

text \<open>What normalization gives for a path without backslashes, drives or a double slash.\<close>

definition posix_path :: "string \<Rightarrow> bool" where
  "posix_path p \<longleftrightarrow> CHR 0x5C \<notin> set p \<and> (case p of
     [] \<Rightarrow> True
   | c # s \<Rightarrow> (c = CHR ''/'' \<longrightarrow> (case s of d # _ \<Rightarrow> d \<noteq> CHR ''/'' | [] \<Rightarrow> True))
       \<and> (is_letter c \<longrightarrow> (case s of d # _ \<Rightarrow> d \<noteq> CHR '':'' | [] \<Rightarrow> True)))"

lemma split_on_subset: "s \<in> set (split_on d p) \<Longrightarrow> set s \<subseteq> set p"
proof (induction p arbitrary: s)
  case (Cons c cs)
  show ?case
  proof (cases "split_on d cs")
    case Nil
    then show ?thesis using Cons.prems by (auto split: if_splits)
  next
    case split: (Cons q qs)
    have "set x \<subseteq> set cs" if "x \<in> set (q # qs)" for x using Cons.IH that by (simp only: split)
    then show ?thesis using Cons.prems by (fastforce simp: split split: if_splits)
  qed
qed simp

lemma foldl_norm_step_chars:
  "\<forall>x\<in>set acc. c \<notin> set x \<Longrightarrow> \<forall>x\<in>set segs. c \<notin> set x \<Longrightarrow> \<forall>x\<in>set (foldl (norm_step b) acc segs). c \<notin> set x"
proof (induction segs arbitrary: acc)
  case (Cons x xs)
  have "\<forall>y\<in>set (norm_step b acc x). c \<notin> set y" using Cons.prems by (auto split: list.splits)
  then have "\<forall>y\<in>set (foldl (norm_step b) (norm_step b acc x) xs). c \<notin> set y"
    by (rule Cons.IH) (use Cons.prems in simp)
  then show ?case by (simp only: foldl_Cons)
qed (simp only: foldl_Nil)

lemma no_backslash_segments:
  assumes "CHR 0x5C \<notin> set p"
  shows "\<forall>s\<in>set (abs_segments p). CHR 0x5C \<notin> set s"
proof -
  have "\<forall>s\<in>set (split_on (CHR ''/'') p). CHR 0x5C \<notin> set s"
    using split_on_subset assms by (metis subsetD)
  then have "\<forall>s\<in>set (foldl (norm_step False) [] (split_on (CHR ''/'') p)). CHR 0x5C \<notin> set s"
    by (intro foldl_norm_step_chars) simp_all
  then show ?thesis by (simp only: abs_segments_def norm_segments_def set_rev)
qed

lemma toUnixPath_abs_path:
  assumes "clean segs" "\<forall>s\<in>set segs. CHR 0x5C \<notin> set s" "is_sep d"
  shows "toUnixPath (d # join_with [d] segs) = abs_path segs"
proof -
  have "dropWhile is_sep (join_with [d] segs) = join_with [d] segs"
  proof (cases "segs = []")
    case False
    obtain c r where "join_with [d] segs = c # r" "\<not> is_sep c" using join_head [OF assms(1,2) False] by blast
    then show ?thesis by simp
  qed simp
  then show ?thesis using toUnixPath_join [OF assms] assms(3) by (simp add: abs_path_def)
qed

lemma normalize_absolute:
  assumes "posix_path p" "path_isAbsolute p"
  shows "normalizeToAbsolutePath cwd p baseDir = abs_path (abs_segments p)"
proof -
  obtain s where p: "p = CHR ''/'' # s" using assms(2) by (auto simp: path_isAbsolute_def starts_with_iff)
  have "win32_root p = ([], True, s)"
    using assms(1) by (cases s) (auto simp: p posix_path_def is_sep_def)
  moreover have "split_seps s = split_on (CHR ''/'') s" using assms(1) by (intro split_seps_slash) (simp add: p posix_path_def)
  moreover have "abs_segments p = norm_segments False (split_on (CHR ''/'') s)"
    by (simp add: abs_segments_def norm_segments_def p)
  ultimately have "win32_resolve cwd p = CHR 0x5C # join_with [CHR 0x5C] (abs_segments p)"
    by (simp add: win32_resolve_def backslash_def)
  moreover have "isAbsolutePath p" by (simp add: isAbsolutePath_def p is_sep_def)
  moreover have "CHR 0x5C \<notin> set p" using assms(1) by (simp add: posix_path_def)
  ultimately show ?thesis
    using toUnixPath_abs_path [OF clean_abs_segments no_backslash_segments]
    by (simp add: normalizeToAbsolutePath_def is_sep_def)
qed

lemma normalize_relative:
  assumes "posix_path p" "\<not> path_isAbsolute p" "CHR 0x5C \<notin> set cwd" "CHR 0x5C \<notin> set baseDir"
  shows "normalizeToAbsolutePath cwd p baseDir = path_resolve (path_resolve cwd baseDir) p"
proof -
  have res: "CHR 0x5C \<notin> set (path_resolve a q)" if "CHR 0x5C \<notin> set a" "CHR 0x5C \<notin> set q" for a q
    using join_no_char [OF _ no_backslash_segments, of "''/''" "if path_isAbsolute q then q else a @ ''/'' @ q"] that
    by (simp add: path_resolve_def)
  let ?r = "path_resolve (path_resolve cwd baseDir) p"
  obtain segs where segs: "clean segs" "?r = abs_path segs" using path_resolve_is_abs_path by blast
  have "CHR 0x5C \<notin> set ?r" using res assms(1,3,4) by (simp add: posix_path_def)
  then have "\<forall>s\<in>set segs. CHR 0x5C \<notin> set s"
    using no_backslash_segments [of ?r] segs by simp
  then have "toUnixPath ?r = ?r"
    using toUnixPath_abs_path [OF segs(1), of "CHR ''/''"] by (simp add: segs(2) abs_path_def is_sep_def)
  moreover have "\<not> isAbsolutePath p"
    using assms(1,2) by (cases p) (auto simp: isAbsolutePath_def posix_path_def path_isAbsolute_def starts_with_def is_sep_def split: list.splits)
  ultimately show ?thesis by (simp add: normalizeToAbsolutePath_def)
qed

lemma posix_path_abs_path:
  assumes "clean segs" "\<forall>s\<in>set segs. CHR 0x5C \<notin> set s"
  shows "posix_path (abs_path segs)"
proof -
  have no: "CHR 0x5C \<notin> set (join_with ''/'' segs)" by (rule join_no_char) (use assms(2) in simp_all)
  show ?thesis
  proof (cases "segs = []")
    case True
    then show ?thesis by (simp add: posix_path_def abs_path_def is_letter_def)
  next
    case False
    obtain c r where "join_with ''/'' segs = c # r" "\<not> is_sep c" using join_head [OF assms False] by blast
    then show ?thesis using no by (auto simp: posix_path_def abs_path_def is_letter_def is_sep_def)
  qed
qed

section \<open>Absolute paths in Unix form\<close>

text \<open>What the branded type \<open>NormalizedAbsolutePath\<close> stands for.\<close>

definition unix_absolute :: "string \<Rightarrow> bool" where
  "unix_absolute p \<longleftrightarrow> isAbsolutePath p \<and> CHR 0x5C \<notin> set p \<and> \<not> includes_str p ''//''"

lemma toUnixPath_no_backslash: "CHR 0x5C \<notin> set (toUnixPath s)"
  by (induction s rule: toUnixPath.induct) (auto simp: is_sep_def)

lemma toUnixPath_head: "\<not> starts_with (toUnixPath (dropWhile is_sep s)) ''/''"
proof (cases "dropWhile is_sep s")
  case (Cons c r)
  then have "\<not> is_sep c" by (metis hd_dropWhile list.distinct(1) list.sel(1))
  then show ?thesis by (auto simp: Cons starts_with_def is_sep_def)
qed (simp add: starts_with_def del: dropWhile_eq_Nil_conv)

lemma toUnixPath_no_double: "\<not> includes_str (toUnixPath s) ''//''"
proof (induction s rule: toUnixPath.induct)
  case (2 c s)
  show ?case
  proof (cases "is_sep c")
    case True
    then show ?thesis using 2 toUnixPath_head [of s] by (auto simp: starts_with_def)
  next
    case False
    then show ?thesis using 2 by (auto simp: starts_with_def is_sep_def)
  qed
qed (simp add: starts_with_def)

lemma isAbsolutePath_toUnixPath: "isAbsolutePath p \<Longrightarrow> isAbsolutePath (toUnixPath p)"
  by (cases p) (auto simp: isAbsolutePath_def is_sep_def is_letter_def split: list.splits if_splits)

lemma isAbsolutePath_win32_resolve:
  assumes "isAbsolutePath p"
  shows "isAbsolutePath (win32_resolve cwd p)"
proof -
  obtain device absolute rest where root: "win32_root p = (device, absolute, rest)" by (metis prod_cases3)
  have "device = [] \<or> isAbsolutePath (device @ s)" for s
    using root assms
    by (induction p rule: win32_root.induct)
      (auto simp: isAbsolutePath_def is_sep_def backslash_def win32_unc_def Let_def
        split: if_splits list.splits option.splits)
  moreover have "isAbsolutePath (backslash @ s)" for s by (simp add: isAbsolutePath_def backslash_def is_sep_def)
  ultimately show ?thesis by (cases "device = []") (auto simp: win32_resolve_def root Let_def)
qed

lemma unix_absolute_normalize: "unix_absolute (normalizeToAbsolutePath cwd p baseDir)"
proof -
  have "isAbsolutePath (if isAbsolutePath p then win32_resolve cwd p else path_resolve (path_resolve cwd baseDir) p)"
    by (simp add: isAbsolutePath_win32_resolve) (simp add: isAbsolutePath_def path_resolve_def is_sep_def)
  then show ?thesis
    by (simp add: normalizeToAbsolutePath_def unix_absolute_def isAbsolutePath_toUnixPath
        toUnixPath_no_backslash toUnixPath_no_double)
qed

lemma normalize_idem:
  assumes "posix_path p" "CHR 0x5C \<notin> set cwd" "CHR 0x5C \<notin> set baseDir"
  shows "normalizeToAbsolutePath cwd' (normalizeToAbsolutePath cwd p baseDir) baseDir'
       = normalizeToAbsolutePath cwd p baseDir"
proof -
  let ?n = "normalizeToAbsolutePath cwd p baseDir"
  obtain segs where segs: "clean segs" "?n = abs_path segs"
  proof (cases "path_isAbsolute p")
    case True
    then show ?thesis using that [OF clean_abs_segments] normalize_absolute [OF assms(1)] by metis
  next
    case False
    then show ?thesis
      using that normalize_relative [OF assms(1)] assms(2,3) path_resolve_is_abs_path by metis
  qed
  have "CHR 0x5C \<notin> set ?n" using unix_absolute_normalize by (simp add: unix_absolute_def)
  then have "\<forall>s\<in>set segs. CHR 0x5C \<notin> set s" using no_backslash_segments [of ?n] segs by simp
  then show ?thesis
    using normalize_absolute [OF posix_path_abs_path, of segs] segs by simp
qed

end
