(* ===== verification/Project_Configuration.thy ===== *)
theory Project_Configuration
  imports Normalized_Path
begin

text \<open>
  The configuration of an analysis: \<open>packages/analysis/src/common/configuration.ts\<close>,
  \<open>file-kinds.ts\<close> and the type guards of \<open>packages/shared/src/helpers/sanitize.ts\<close>. A raw
  configuration is a JSON value whose objects list their entries in the order of \<open>Object.keys\<close>,
  without duplicates; its numbers are integers. A \<open>Minimatch\<close> is represented by its pattern,
  since its options are the same everywhere. The characters of contents are those of Latin-1.
\<close>

section \<open>Type guards\<close>

datatype json =
    JNull
  | JBool bool
  | JNum int
  | JStr string
  | JArr "json list"
  | JObj "(string \<times> json) list"

fun isString :: "json \<Rightarrow> string option" where
  "isString (JStr s) = Some s"
| "isString _ = None"

fun isBoolean :: "json \<Rightarrow> bool option" where
  "isBoolean (JBool b) = Some b"
| "isBoolean _ = None"

fun isNumber :: "json \<Rightarrow> int option" where
  "isNumber (JNum n) = Some n"
| "isNumber _ = None"

fun all_strings :: "json list \<Rightarrow> string list option" where
  "all_strings [] = Some []"
| "all_strings (JStr s # vs) = map_option (Cons s) (all_strings vs)"
| "all_strings _ = None"

fun isStringArray :: "json \<Rightarrow> string list option" where
  "isStringArray (JArr vs) = all_strings vs"
| "isStringArray _ = None"

fun isObject :: "json \<Rightarrow> (string \<times> json) list option" where
  "isObject (JObj entries) = Some entries"
| "isObject _ = None"

definition sanitizePaths :: "string \<Rightarrow> json option \<Rightarrow> string \<Rightarrow> string list" where
  "sanitizePaths cwd paths baseDir =
     (case Option.bind paths isStringArray of
        None \<Rightarrow> []
      | Some ps \<Rightarrow> map (\<lambda>p. normalizeToAbsolutePath cwd p baseDir) ps)"

section \<open>Types\<close>

datatype language = LangJs | LangTs

datatype analysis_mode = ModeDefault | ModeSkipUnchanged

fun isAnalysisMode :: "json \<Rightarrow> analysis_mode option" where
  "isAnalysisMode (JStr s) =
     (if s = ''DEFAULT'' then Some ModeDefault
      else if s = ''SKIP_UNCHANGED'' then Some ModeSkipUnchanged else None)"
| "isAnalysisMode _ = None"

type_synonym minimatch = string

record configuration =
  cfg_baseDir :: string
  cfg_canAccessFileSystem :: bool
  cfg_sonarlint :: bool
  cfg_fsEvents :: "string list"
  cfg_allowTsParserJsFiles :: bool
  cfg_analysisMode :: analysis_mode
  cfg_skipAst :: bool
  cfg_ignoreHeaderComments :: bool
  cfg_maxFileSize :: int
  cfg_environments :: "string list"
  cfg_globals :: "string list"
  cfg_tsSuffixes :: "string list"
  cfg_jsSuffixes :: "string list"
  cfg_cssSuffixes :: "string list"
  cfg_htmlSuffixes :: "string list"
  cfg_yamlSuffixes :: "string list"
  cfg_cssAdditionalSuffixes :: "string list"
  cfg_tsConfigPaths :: "string list"
  cfg_jsTsExclusions :: "minimatch list"
  cfg_sources :: "string list"
  cfg_inclusions :: "minimatch list"
  cfg_exclusions :: "minimatch list"
  cfg_tests :: "string list"
  cfg_testInclusions :: "minimatch list"
  cfg_testExclusions :: "minimatch list"
  cfg_detectBundles :: bool
  cfg_detectGeneratedCode :: bool
  cfg_createTSProgramForOrphanFiles :: bool
  cfg_disableTypeChecking :: bool
  cfg_skipNodeModuleLookupOutsideBaseDir :: bool
  cfg_ecmaScriptVersion :: "string option"

record configuration_input =
  in_baseDir :: string
  in_canAccessFileSystem :: "bool option"
  in_sonarlint :: "bool option"
  in_fsEvents :: "string list option"
  in_allowTsParserJsFiles :: "bool option"
  in_analysisMode :: "analysis_mode option"
  in_skipAst :: "bool option"
  in_ignoreHeaderComments :: "bool option"
  in_maxFileSize :: "int option"
  in_environments :: "string list option"
  in_globals :: "string list option"
  in_tsSuffixes :: "string list option"
  in_jsSuffixes :: "string list option"
  in_cssSuffixes :: "string list option"
  in_htmlSuffixes :: "string list option"
  in_yamlSuffixes :: "string list option"
  in_cssAdditionalSuffixes :: "string list option"
  in_tsConfigPaths :: "string list option"
  in_jsTsExclusions :: "string list option"
  in_sources :: "string list option"
  in_inclusions :: "string list option"
  in_exclusions :: "string list option"
  in_tests :: "string list option"
  in_testInclusions :: "string list option"
  in_testExclusions :: "string list option"
  in_detectBundles :: "bool option"
  in_detectGeneratedCode :: "bool option"
  in_createTSProgramForOrphanFiles :: "bool option"
  in_disableTypeChecking :: "bool option"
  in_skipNodeModuleLookupOutsideBaseDir :: "bool option"
  in_ecmaScriptVersion :: "string option"

section \<open>Defaults\<close>

definition JAVASCRIPT_CODE_FILE_EXTENSIONS :: "string list" where
  "JAVASCRIPT_CODE_FILE_EXTENSIONS = [''.js'', ''.mjs'', ''.cjs'', ''.jsx'']"

definition TYPESCRIPT_CODE_FILE_EXTENSIONS :: "string list" where
  "TYPESCRIPT_CODE_FILE_EXTENSIONS = [''.ts'', ''.mts'', ''.cts'', ''.tsx'']"

definition isJsTsCodeFileByExtension :: "string \<Rightarrow> bool" where
  "isJsTsCodeFileByExtension filePath \<longleftrightarrow>
     toLowerCase (extname filePath) \<in> set (JAVASCRIPT_CODE_FILE_EXTENSIONS @ TYPESCRIPT_CODE_FILE_EXTENSIONS)"

definition IGNORED_PATTERNS :: "string list" where
  "IGNORED_PATTERNS = [''.scannerwork'']"

definition DEFAULT_JS_EXTENSIONS :: "string list" where
  "DEFAULT_JS_EXTENSIONS = JAVASCRIPT_CODE_FILE_EXTENSIONS @ [''.vue'']"

definition DEFAULT_TS_EXTENSIONS :: "string list" where
  "DEFAULT_TS_EXTENSIONS = TYPESCRIPT_CODE_FILE_EXTENSIONS"

definition DEFAULT_CSS_EXTENSIONS :: "string list" where
  "DEFAULT_CSS_EXTENSIONS = [''.css'', ''.less'', ''.scss'', ''.sass'']"

definition DEFAULT_HTML_EXTENSIONS :: "string list" where
  "DEFAULT_HTML_EXTENSIONS = [''.html'', ''.htm'', ''.xhtml'']"

definition DEFAULT_YAML_EXTENSIONS :: "string list" where
  "DEFAULT_YAML_EXTENSIONS = [''.yml'', ''.yaml'']"

definition DEFAULT_CSS_ADDITIONAL_EXTENSIONS :: "string list" where
  "DEFAULT_CSS_ADDITIONAL_EXTENSIONS = [''.vue'', ''.html'', ''.htm'', ''.xhtml'']"

definition DEFAULT_MAX_FILE_SIZE_KB :: int where
  "DEFAULT_MAX_FILE_SIZE_KB = 1000"

definition DEFAULT_ALLOW_TS_PARSER_JS_FILES :: bool where
  "DEFAULT_ALLOW_TS_PARSER_JS_FILES = True"

definition DEFAULT_ANALYSIS_MODE :: analysis_mode where
  "DEFAULT_ANALYSIS_MODE = ModeDefault"

definition DEFAULT_SKIP_AST :: bool where
  "DEFAULT_SKIP_AST = True"

definition DEFAULT_IGNORE_HEADER_COMMENTS :: bool where
  "DEFAULT_IGNORE_HEADER_COMMENTS = True"

definition DEFAULT_EXCLUSIONS :: "string list" where
  "DEFAULT_EXCLUSIONS = [''**/*.d.ts'', ''**/.git/**'', ''**/node_modules/**'', ''**/bower_components/**'',
     ''**/dist/**'', ''**/vendor/**'', ''**/external/**'', ''**/contrib/**'']"

definition DEFAULT_ENVIRONMENTS :: "string list" where
  "DEFAULT_ENVIRONMENTS = 
    [''amd'', ''applescript'', ''atomtest'', ''browser'', ''commonjs'', ''embertest'',
     ''greasemonkey'', ''jasmine'', ''jest'', ''jquery'', ''meteor'', ''mocha'',
     ''mongo'', ''nashorn'', ''node'', ''phantomjs'', ''prototypejs'', ''protractor'',
     ''qunit'', ''serviceworker'', ''shared-node-browser'', ''shelljs'', ''webextensions'', ''worker'']"

definition DEFAULT_GLOBALS :: "string list" where
  "DEFAULT_GLOBALS = 
    [''angular'', ''goog'', ''google'', ''OpenLayers'', ''d3'', ''dojo'', ''dojox'',
     ''dijit'', ''Backbone'', ''moment'', ''casper'', ''_'', ''sap'']"

section \<open>Creating a configuration\<close>

datatype config_error =
    NotAnObject
  | BaseDirMissing
  | BaseDirNotAbsolute string

definition getRequiredBaseDir :: "(string \<times> json) list \<Rightarrow> config_error + string" where
  "getRequiredBaseDir raw =
     (case Option.bind (map_of raw ''baseDir'') isString of None \<Rightarrow> Inl BaseDirMissing | Some s \<Rightarrow> Inr s)"

definition getOptionalValue :: "(string \<times> json) list \<Rightarrow> string \<Rightarrow> (json \<Rightarrow> 'a option) \<Rightarrow> 'a option" where
  "getOptionalValue raw k predicate = Option.bind (map_of raw k) predicate"

definition sanitizeFsEvents :: "json option \<Rightarrow> string list option" where
  "sanitizeFsEvents raw =
     (case Option.bind raw isStringArray of
        Some paths \<Rightarrow> Some paths
      | None \<Rightarrow> map_option (map fst) (Option.bind raw isObject))"

definition normalizeFsEvents :: "string \<Rightarrow> json option \<Rightarrow> string \<Rightarrow> string list" where
  "normalizeFsEvents cwd raw baseDir =
     (case Option.bind raw isStringArray of
        Some paths \<Rightarrow> map (\<lambda>p. normalizeToAbsolutePath cwd p baseDir) paths
      | None \<Rightarrow>
          (case Option.bind raw isObject of
             None \<Rightarrow> []
           | Some entries \<Rightarrow> map (\<lambda>(p, _). normalizeToAbsolutePath cwd p baseDir) entries))"

definition trim :: "string \<Rightarrow> string" where
  "trim s = rev (dropWhile is_space (rev (dropWhile is_space s)))"

definition normalizeGlobs :: "string \<Rightarrow> json option \<Rightarrow> string \<Rightarrow> minimatch list" where
  "normalizeGlobs cwd globs baseDir =
     map (\<lambda>pattern. normalizeToAbsolutePath cwd (trim pattern) baseDir)
       (nullish (Option.bind globs isStringArray) [])"

text \<open>The entries of an input hold arrays of strings, which the helpers check again.\<close>

definition of_strings :: "string list option \<Rightarrow> json option" where
  "of_strings = map_option (\<lambda>ss. JArr (map JStr ss))"

definition createConfigurationFromInput :: "string \<Rightarrow> configuration_input \<Rightarrow> config_error + configuration" where
  "createConfigurationFromInput cwd input =
     (if \<not> isAbsolutePath (in_baseDir input) then Inl (BaseDirNotAbsolute (in_baseDir input))
      else let baseDir = normalizeToAbsolutePath cwd (in_baseDir input) ROOT_PATH in Inr
        \<lparr>cfg_baseDir = baseDir,
         cfg_canAccessFileSystem = nullish (in_canAccessFileSystem input) True,
         cfg_sonarlint = nullish (in_sonarlint input) False,
         cfg_fsEvents = normalizeFsEvents cwd (of_strings (in_fsEvents input)) baseDir,
         cfg_allowTsParserJsFiles = nullish (in_allowTsParserJsFiles input) DEFAULT_ALLOW_TS_PARSER_JS_FILES,
         cfg_analysisMode = nullish (in_analysisMode input) DEFAULT_ANALYSIS_MODE,
         cfg_skipAst = nullish (in_skipAst input) DEFAULT_SKIP_AST,
         cfg_ignoreHeaderComments = nullish (in_ignoreHeaderComments input) DEFAULT_IGNORE_HEADER_COMMENTS,
         cfg_maxFileSize = nullish (in_maxFileSize input) DEFAULT_MAX_FILE_SIZE_KB,
         cfg_environments = nullish (in_environments input) DEFAULT_ENVIRONMENTS,
         cfg_globals = nullish (in_globals input) DEFAULT_GLOBALS,
         cfg_tsSuffixes = nullish (in_tsSuffixes input) DEFAULT_TS_EXTENSIONS,
         cfg_jsSuffixes = nullish (in_jsSuffixes input) DEFAULT_JS_EXTENSIONS,
         cfg_cssSuffixes = nullish (in_cssSuffixes input) DEFAULT_CSS_EXTENSIONS,
         cfg_htmlSuffixes = nullish (in_htmlSuffixes input) DEFAULT_HTML_EXTENSIONS,
         cfg_yamlSuffixes = nullish (in_yamlSuffixes input) DEFAULT_YAML_EXTENSIONS,
         cfg_cssAdditionalSuffixes = nullish (in_cssAdditionalSuffixes input) DEFAULT_CSS_ADDITIONAL_EXTENSIONS,
         cfg_tsConfigPaths = sanitizePaths cwd (of_strings (in_tsConfigPaths input)) baseDir,
         cfg_jsTsExclusions = normalizeGlobs cwd
           (of_strings (Some (nullish (in_jsTsExclusions input) DEFAULT_EXCLUSIONS @ IGNORED_PATTERNS))) baseDir,
         cfg_sources = sanitizePaths cwd (of_strings (in_sources input)) baseDir,
         cfg_inclusions = normalizeGlobs cwd (of_strings (in_inclusions input)) baseDir,
         cfg_exclusions = normalizeGlobs cwd (of_strings (in_exclusions input)) baseDir,
         cfg_tests = sanitizePaths cwd (of_strings (in_tests input)) baseDir,
         cfg_testInclusions = normalizeGlobs cwd (of_strings (in_testInclusions input)) baseDir,
         cfg_testExclusions = normalizeGlobs cwd (of_strings (in_testExclusions input)) baseDir,
         cfg_detectBundles = nullish (in_detectBundles input) True,
         cfg_detectGeneratedCode = nullish (in_detectGeneratedCode input) True,
         cfg_createTSProgramForOrphanFiles = nullish (in_createTSProgramForOrphanFiles input) True,
         cfg_disableTypeChecking = nullish (in_disableTypeChecking input) False,
         cfg_skipNodeModuleLookupOutsideBaseDir = nullish (in_skipNodeModuleLookupOutsideBaseDir input) False,
         cfg_ecmaScriptVersion = in_ecmaScriptVersion input\<rparr>)"

definition createConfiguration :: "string \<Rightarrow> json \<Rightarrow> config_error + configuration" where
  "createConfiguration cwd v =
     (case isObject v of
        None \<Rightarrow> Inl NotAnObject
      | Some raw \<Rightarrow>
          bind_result (getRequiredBaseDir raw) (\<lambda>baseDir. createConfigurationFromInput cwd
            \<lparr>in_baseDir = baseDir,
             in_canAccessFileSystem = getOptionalValue raw ''canAccessFileSystem'' isBoolean,
             in_sonarlint = getOptionalValue raw ''sonarlint'' isBoolean,
             in_fsEvents = sanitizeFsEvents (map_of raw ''fsEvents''),
             in_allowTsParserJsFiles = getOptionalValue raw ''allowTsParserJsFiles'' isBoolean,
             in_analysisMode = getOptionalValue raw ''analysisMode'' isAnalysisMode,
             in_skipAst = getOptionalValue raw ''skipAst'' isBoolean,
             in_ignoreHeaderComments = getOptionalValue raw ''ignoreHeaderComments'' isBoolean,
             in_maxFileSize = getOptionalValue raw ''maxFileSize'' isNumber,
             in_environments = getOptionalValue raw ''environments'' isStringArray,
             in_globals = getOptionalValue raw ''globals'' isStringArray,
             in_tsSuffixes = getOptionalValue raw ''tsSuffixes'' isStringArray,
             in_jsSuffixes = getOptionalValue raw ''jsSuffixes'' isStringArray,
             in_cssSuffixes = getOptionalValue raw ''cssSuffixes'' isStringArray,
             in_htmlSuffixes = getOptionalValue raw ''htmlSuffixes'' isStringArray,
             in_yamlSuffixes = getOptionalValue raw ''yamlSuffixes'' isStringArray,
             in_cssAdditionalSuffixes = getOptionalValue raw ''cssAdditionalSuffixes'' isStringArray,
             in_tsConfigPaths = getOptionalValue raw ''tsConfigPaths'' isStringArray,
             in_jsTsExclusions = getOptionalValue raw ''jsTsExclusions'' isStringArray,
             in_sources = getOptionalValue raw ''sources'' isStringArray,
             in_inclusions = getOptionalValue raw ''inclusions'' isStringArray,
             in_exclusions = getOptionalValue raw ''exclusions'' isStringArray,
             in_tests = getOptionalValue raw ''tests'' isStringArray,
             in_testInclusions = getOptionalValue raw ''testInclusions'' isStringArray,
             in_testExclusions = getOptionalValue raw ''testExclusions'' isStringArray,
             in_detectBundles = getOptionalValue raw ''detectBundles'' isBoolean,
             in_detectGeneratedCode = getOptionalValue raw ''detectGeneratedCode'' isBoolean,
             in_createTSProgramForOrphanFiles = getOptionalValue raw ''createTSProgramForOrphanFiles'' isBoolean,
             in_disableTypeChecking = getOptionalValue raw ''disableTypeChecking'' isBoolean,
             in_skipNodeModuleLookupOutsideBaseDir = getOptionalValue raw ''skipNodeModuleLookupOutsideBaseDir'' isBoolean,
             in_ecmaScriptVersion = getOptionalValue raw ''ecmaScriptVersion'' isString\<rparr>))"

section \<open>Parameters of the filters\<close>

record filter_file_params =
  ff_jsSuffixes :: "string list"
  ff_tsSuffixes :: "string list"
  ff_cssSuffixes :: "string list"
  ff_htmlSuffixes :: "string list"
  ff_yamlSuffixes :: "string list"
  ff_cssAdditionalSuffixes :: "string list"
  ff_detectBundles :: bool
  ff_maxFileSize :: int
  ff_jsTsExclusions :: "minimatch list"

definition getShouldIgnoreParams :: "configuration \<Rightarrow> filter_file_params" where
  "getShouldIgnoreParams c =
     \<lparr>ff_jsSuffixes = cfg_jsSuffixes c, ff_tsSuffixes = cfg_tsSuffixes c,
      ff_cssSuffixes = cfg_cssSuffixes c, ff_htmlSuffixes = cfg_htmlSuffixes c,
      ff_yamlSuffixes = cfg_yamlSuffixes c, ff_cssAdditionalSuffixes = cfg_cssAdditionalSuffixes c,
      ff_detectBundles = cfg_detectBundles c, ff_maxFileSize = cfg_maxFileSize c,
      ff_jsTsExclusions = cfg_jsTsExclusions c\<rparr>"

record filter_path_params =
  fp_baseDir :: string
  fp_jsTsExclusions :: "minimatch list"
  fp_sourcesPaths :: "string list"
  fp_testPaths :: "string list"
  fp_inclusions :: "minimatch list"
  fp_exclusions :: "minimatch list"
  fp_testInclusions :: "minimatch list"
  fp_testExclusions :: "minimatch list"
  fp_testFileExtensions :: "string list"

definition getFilterPathParams :: "configuration \<Rightarrow> filter_path_params" where
  "getFilterPathParams c =
     \<lparr>fp_baseDir = cfg_baseDir c, fp_jsTsExclusions = cfg_jsTsExclusions c,
      fp_sourcesPaths = (if length (cfg_sources c) > 0 then cfg_sources c else [cfg_baseDir c]),
      fp_testPaths = cfg_tests c, fp_inclusions = cfg_inclusions c, fp_exclusions = cfg_exclusions c,
      fp_testInclusions = cfg_testInclusions c, fp_testExclusions = cfg_testExclusions c,
      fp_testFileExtensions =
        (if length (cfg_jsSuffixes c) \<noteq> 0 then cfg_jsSuffixes c else DEFAULT_JS_EXTENSIONS)
        @ (if length (cfg_tsSuffixes c) \<noteq> 0 then cfg_tsSuffixes c else DEFAULT_TS_EXTENSIONS)\<rparr>"

record jsts_config_fields =
  jf_allowTsParserJsFiles :: bool
  jf_analysisMode :: analysis_mode
  jf_ignoreHeaderComments :: bool
  jf_skipAst :: bool
  jf_sonarlint :: bool
  jf_shouldIgnoreParams :: filter_file_params
  jf_createTSProgramForOrphanFiles :: bool
  jf_disableTypeChecking :: bool
  jf_skipNodeModuleLookupOutsideBaseDir :: bool
  jf_ecmaScriptVersion :: "string option"

definition getJsTsConfigFields :: "configuration \<Rightarrow> jsts_config_fields" where
  "getJsTsConfigFields c =
     \<lparr>jf_allowTsParserJsFiles = cfg_allowTsParserJsFiles c, jf_analysisMode = cfg_analysisMode c,
      jf_ignoreHeaderComments = cfg_ignoreHeaderComments c, jf_skipAst = cfg_skipAst c,
      jf_sonarlint = cfg_sonarlint c, jf_shouldIgnoreParams = getShouldIgnoreParams c,
      jf_createTSProgramForOrphanFiles = cfg_createTSProgramForOrphanFiles c,
      jf_disableTypeChecking = cfg_disableTypeChecking c,
      jf_skipNodeModuleLookupOutsideBaseDir = cfg_skipNodeModuleLookupOutsideBaseDir c,
      jf_ecmaScriptVersion = cfg_ecmaScriptVersion c\<rparr>"

section \<open>Cache keys\<close>

text \<open>\<open>JSON.stringify\<close>: quotes, backslashes and control characters are escaped.\<close>

definition hex_char :: "nat \<Rightarrow> char" where
  "hex_char n = char_of (if n < 10 then 48 + n else 87 + n)"

definition json_char :: "char \<Rightarrow> string" where
  "json_char c =
     (if c = CHR 0x22 then [CHR 0x5C, CHR 0x22]
      else if c = CHR 0x5C then [CHR 0x5C, CHR 0x5C]
      else if c = CHR 0x08 then [CHR 0x5C, CHR ''b'']
      else if c = CHR 0x0C then [CHR 0x5C, CHR ''f'']
      else if c = CHR 0x0A then [CHR 0x5C, CHR ''n'']
      else if c = CHR 0x0D then [CHR 0x5C, CHR ''r'']
      else if c = CHR 0x09 then [CHR 0x5C, CHR ''t'']
      else if (of_char c :: nat) < 32
        then [CHR 0x5C, CHR ''u'', CHR ''0'', CHR ''0'', hex_char (of_char c div 16), hex_char (of_char c mod 16)]
      else [c])"

definition json_quote :: "string \<Rightarrow> string" where
  "json_quote s = [CHR 0x22] @ concat (map json_char s) @ [CHR 0x22]"

fun json_stringify :: "json \<Rightarrow> string" where
  "json_stringify JNull = ''null''"
| "json_stringify (JBool b) = show_bool b"
| "json_stringify (JNum n) = show_int n"
| "json_stringify (JStr s) = json_quote s"
| "json_stringify (JArr vs) = ''['' @ join_with '','' (map json_stringify vs) @ '']''"
| "json_stringify (JObj entries) =
     ''{'' @ join_with '','' (map (\<lambda>(k, v). json_quote k @ '':'' @ json_stringify v) entries) @ ''}''"

definition strings :: "string list \<Rightarrow> json" where
  "strings ss = JArr (map JStr ss)"

definition serializeMinimatchPatterns :: "minimatch list \<Rightarrow> json" where
  "serializeMinimatchPatterns ps = strings ps"

definition getProjectFileDiscoveryConfigKey :: "configuration \<Rightarrow> string" where
  "getProjectFileDiscoveryConfigKey c =
     json_stringify (JObj [(''jsTsExclusions'', serializeMinimatchPatterns (cfg_jsTsExclusions c))])"

definition getAnalyzableFilesConfigKey :: "configuration \<Rightarrow> string" where
  "getAnalyzableFilesConfigKey c =
     (let f = getShouldIgnoreParams c; p = getFilterPathParams c in json_stringify (JObj
       [(''jsSuffixes'', strings (ff_jsSuffixes f)), (''tsSuffixes'', strings (ff_tsSuffixes f)),
        (''cssSuffixes'', strings (ff_cssSuffixes f)), (''htmlSuffixes'', strings (ff_htmlSuffixes f)),
        (''yamlSuffixes'', strings (ff_yamlSuffixes f)),
        (''cssAdditionalSuffixes'', strings (ff_cssAdditionalSuffixes f)),
        (''detectBundles'', JBool (ff_detectBundles f)), (''maxFileSize'', JNum (ff_maxFileSize f)),
        (''jsTsExclusions'', serializeMinimatchPatterns (ff_jsTsExclusions f)),
        (''sourcesPaths'', strings (fp_sourcesPaths p)), (''testPaths'', strings (fp_testPaths p)),
        (''inclusions'', serializeMinimatchPatterns (fp_inclusions p)),
        (''exclusions'', serializeMinimatchPatterns (fp_exclusions p)),
        (''testInclusions'', serializeMinimatchPatterns (fp_testInclusions p)),
        (''testExclusions'', serializeMinimatchPatterns (fp_testExclusions p))]))"

section \<open>Kinds of files\<close>

definition has_suffix :: "string list \<Rightarrow> string \<Rightarrow> bool" where
  "has_suffix suffixes filePath \<longleftrightarrow> toLowerCase (extname filePath) \<in> set suffixes"

definition quotes :: regex where
  "quotes = one_of [CHR 0x27, CHR 0x22]"

definition VUE_TS_REGEX :: regex where
  "VUE_TS_REGEX = rseq [lit ''<script'', RPlus (none_of ''>''), lit ''lang='', quotes, lit ''ts'', quotes,
     RStar (none_of ''>''), lit ''>'']"

definition SAM_TRANSFORM_FIELD :: string where
  "SAM_TRANSFORM_FIELD = ''AWS::Serverless-2016-10-31''"

definition NODEJS_RUNTIME_REGEX :: regex where
  "NODEJS_RUNTIME_REGEX = rseq [RStar (RClass is_space), lit ''Runtime:'', RStar (RClass is_space), ROpt quotes,
     lit ''nodejs'', RStar (RClass (\<lambda>c. \<not> is_space c)), ROpt quotes]"

definition HELM_DIRECTIVE_IN_COMMENT_OR_STRING :: regex where
  "HELM_DIRECTIVE_IN_COMMENT_OR_STRING = ralt
     [rseq [lit ''#'', RStar line_char, lit ''{{''],
      rseq [lit [CHR 0x27], RStar (none_of [CHR 0x27]), lit ''{{'', RStar (none_of [CHR 0x27]), lit [CHR 0x27]],
      rseq [lit [CHR 0x22], RStar (none_of [CHR 0x22]), lit ''{{'', RStar (none_of [CHR 0x22]), lit [CHR 0x22]],
      rseq [lit ''{{'', RPlus (RClass (\<lambda>c. is_word c \<or> is_space c)), lit ''}}'']]"

definition isJsFile :: "string \<Rightarrow> string list \<Rightarrow> bool" where
  "isJsFile filePath jsSuffixes = has_suffix jsSuffixes filePath"

definition isTsFile :: "string \<Rightarrow> string \<Rightarrow> string list \<Rightarrow> bool" where
  "isTsFile filePath contents tsSuffixes \<longleftrightarrow>
     has_suffix tsSuffixes filePath
     \<or> (ends_with (toLowerCase (extname filePath)) ''.vue'' \<and> search VUE_TS_REGEX contents)"

definition inferLanguage ::
  "language option \<Rightarrow> string \<Rightarrow> string \<Rightarrow> string list \<Rightarrow> string list \<Rightarrow> string + language" where
  "inferLanguage explicit filePath fileContent jsSuffixes tsSuffixes =
     (case explicit of
        Some l \<Rightarrow> Inr l
      | None \<Rightarrow>
          if isTsFile filePath fileContent tsSuffixes then Inr LangTs
          else if isJsFile filePath jsSuffixes then Inr LangJs
          else Inl (''Unable to infer language for file '' @ filePath))"

definition isHtmlFile :: "string \<Rightarrow> string list \<Rightarrow> bool" where
  "isHtmlFile filePath htmlSuffixes = has_suffix htmlSuffixes filePath"

fun split_lines :: "string \<Rightarrow> string list" where
  "split_lines [] = [[]]"
| "split_lines (c # s) =
     (if c = CHR 0x0D \<and> (case s of d # _ \<Rightarrow> d = CHR 0x0A | [] \<Rightarrow> False) then split_lines s
      else if c = CHR 0x0D \<or> c = CHR 0x0A then [] # split_lines s
      else (case split_lines s of l # ls \<Rightarrow> (c # l) # ls | [] \<Rightarrow> [[c]]))"

text \<open>The loop over the lines of a template; a line with an unsafe directive ends it.\<close>

fun yaml_lines :: "string list \<Rightarrow> bool \<Rightarrow> bool \<Rightarrow> bool" where
  "yaml_lines [] hasAwsTransform hasNodeJsRuntime = (hasAwsTransform \<and> hasNodeJsRuntime)"
| "yaml_lines (line # rest) hasAwsTransform hasNodeJsRuntime =
     (if includes_str line ''{{'' \<and> \<not> search HELM_DIRECTIVE_IN_COMMENT_OR_STRING line then False
      else yaml_lines rest
             (hasAwsTransform \<or> includes_str line SAM_TRANSFORM_FIELD)
             (hasNodeJsRuntime \<or> search_start NODEJS_RUNTIME_REGEX line))"

definition isYamlFile :: "string \<Rightarrow> string option \<Rightarrow> string list \<Rightarrow> bool" where
  "isYamlFile filePath contents yamlSuffixes \<longleftrightarrow>
     has_suffix yamlSuffixes filePath
     \<and> (case contents of None \<Rightarrow> True | Some c \<Rightarrow> yaml_lines (split_lines c) False False)"

definition isJsTsFile :: "string \<Rightarrow> string list \<Rightarrow> string list \<Rightarrow> bool" where
  "isJsTsFile filePath jsSuffixes tsSuffixes \<longleftrightarrow> has_suffix jsSuffixes filePath \<or> has_suffix tsSuffixes filePath"

definition isCssFile :: "string \<Rightarrow> string list \<Rightarrow> bool" where
  "isCssFile filePath cssSuffixes = has_suffix cssSuffixes filePath"

definition isAlsoCssFile :: "string \<Rightarrow> string list \<Rightarrow> bool" where
  "isAlsoCssFile filePath cssAdditionalSuffixes = has_suffix cssAdditionalSuffixes filePath"

definition isAnalyzableFile :: "string \<Rightarrow> filter_file_params \<Rightarrow> bool" where
  "isAnalyzableFile filePath f \<longleftrightarrow>
     isHtmlFile filePath (ff_htmlSuffixes f)
     \<or> isYamlFile filePath None (ff_yamlSuffixes f)
     \<or> isJsTsFile filePath (ff_jsSuffixes f) (ff_tsSuffixes f)
     \<or> isCssFile filePath (ff_cssSuffixes f)
     \<or> isAlsoCssFile filePath (ff_cssAdditionalSuffixes f)"

section \<open>Reading a key back\<close>

definition hex_val :: "char \<Rightarrow> nat" where
  "hex_val c = (let n = of_char c in if n < 58 then n - 48 else n - 87)"

text \<open>The first character of the inside of a JSON string, and what follows it.\<close>

fun json_unchar :: "string \<Rightarrow> (char \<times> string) option" where
  "json_unchar [] = None"
| "json_unchar (c # s) =
     (if c \<noteq> CHR 0x5C then Some (c, s)
      else case s of
        [] \<Rightarrow> None
      | d # r \<Rightarrow>
          if d = CHR ''b'' then Some (CHR 0x08, r) else if d = CHR ''f'' then Some (CHR 0x0C, r)
          else if d = CHR ''n'' then Some (CHR 0x0A, r) else if d = CHR ''r'' then Some (CHR 0x0D, r)
          else if d = CHR ''t'' then Some (CHR 0x09, r)
          else if d = CHR ''u''
            then Some (char_of (hex_val (r ! 2) * 16 + hex_val (r ! 3)), drop 4 r)
          else Some (d, r))"

lemma hex_val_hex_char: "n < 16 \<Longrightarrow> hex_val (hex_char n) = n"
  by (auto simp: hex_val_def hex_char_def Let_def)

lemma json_unchar_char [simp]: "json_unchar (json_char c @ s) = Some (c, s)"
proof (cases "(of_char c :: nat) < 32")
  case True
  let ?n = "of_char c :: nat"
  have "hex_val (hex_char (?n div 16)) = ?n div 16" "hex_val (hex_char (?n mod 16)) = ?n mod 16"
    using True by (intro hex_val_hex_char; simp)+
  then have "char_of (hex_val (hex_char (?n div 16)) * 16 + hex_val (hex_char (?n mod 16))) = c" by simp
  then show ?thesis by (simp add: json_char_def)
next
  case False
  then show ?thesis by (simp add: json_char_def)
qed

lemma json_char_head: "\<exists>x r. json_char c = x # r \<and> x \<noteq> CHR 0x22"
  by (simp add: json_char_def)

lemma json_inside_inject:
  assumes "concat (map json_char s) @ CHR 0x22 # r = concat (map json_char t) @ CHR 0x22 # r'"
  shows "s = t \<and> r = r'"
  using assms
proof (induction s arbitrary: t)
  case Nil
  show ?case
  proof (cases t)
    case (Cons d u)
    obtain x q where "json_char d = x # q" "x \<noteq> CHR 0x22" using json_char_head [of d] by (elim exE conjE)
    then show ?thesis using Nil Cons by simp
  qed (use Nil in simp)
next
  case (Cons c s)
  show ?case
  proof (cases t)
    case Nil
    obtain x q where "json_char c = x # q" "x \<noteq> CHR 0x22" using json_char_head [of c] by (elim exE conjE)
    then show ?thesis using Cons.prems Nil by simp
  next
    case t: (Cons d u)
    have "json_char c @ concat (map json_char s) @ CHR 0x22 # r
        = json_char d @ concat (map json_char u) @ CHR 0x22 # r'" using Cons.prems t by simp
    then have "Some (c, concat (map json_char s) @ CHR 0x22 # r) = Some (d, concat (map json_char u) @ CHR 0x22 # r')"
      by (metis json_unchar_char)
    then show ?thesis using Cons.IH [of u] t by simp
  qed
qed

lemma json_quote_inject: "json_quote s @ r = json_quote t @ r' \<longleftrightarrow> s = t \<and> r = r'"
proof
  assume "json_quote s @ r = json_quote t @ r'"
  then show "s = t \<and> r = r'" by (intro json_inside_inject) (simp add: json_quote_def)
qed simp

lemma strings_tail_inject:
  assumes "concat (map (\<lambda>s. '','' @ json_quote s) xs) @ '']'' @ r = concat (map (\<lambda>s. '','' @ json_quote s) ys) @ '']'' @ r'"
  shows "xs = ys \<and> r = r'"
  using assms
proof (induction xs arbitrary: ys)
  case Nil
  then show ?case by (cases ys) auto
next
  case (Cons x xs)
  then show ?case by (cases ys) (auto simp: json_quote_inject dest: Cons.IH)
qed

lemma join_comma: "join_with '','' (map f (x # xs)) = f x @ concat (map (\<lambda>s. '','' @ f s) xs)"
  by (induction xs arbitrary: x) auto

lemma strings_inject:
  "json_stringify (strings xs) @ r = json_stringify (strings ys) @ r' \<longleftrightarrow> xs = ys \<and> r = r'"
proof
  assume eq: "json_stringify (strings xs) @ r = json_stringify (strings ys) @ r'"
  have s: "json_stringify (strings zs) = ''['' @ join_with '','' (map json_quote zs) @ '']''" for zs
    by (simp add: strings_def comp_def)
  have q: "json_quote z = CHR 0x22 # concat (map json_char z) @ [CHR 0x22]" for z by (simp add: json_quote_def)
  show "xs = ys \<and> r = r'"
  proof (cases xs)
    case Nil
    then show ?thesis
    proof (cases ys)
      case (Cons y ys')
      have "'']'' @ r = json_quote y @ concat (map (\<lambda>s. '','' @ json_quote s) ys') @ '']'' @ r'"
        using eq unfolding s Cons join_comma by (simp add: Nil)
      then show ?thesis by (simp add: q)
    qed (use eq s in simp)
  next
    case xs: (Cons x xs')
    show ?thesis
    proof (cases ys)
      case Nil
      have "json_quote x @ concat (map (\<lambda>s. '','' @ json_quote s) xs') @ '']'' @ r = '']'' @ r'"
        using eq unfolding s xs join_comma by (simp add: Nil)
      then show ?thesis by (simp add: q)
    next
      case ys: (Cons y ys')
      have "json_quote x @ concat (map (\<lambda>s. '','' @ json_quote s) xs') @ '']'' @ r
          = json_quote y @ concat (map (\<lambda>s. '','' @ json_quote s) ys') @ '']'' @ r'"
        using eq unfolding s xs ys join_comma by simp
      then show ?thesis using strings_tail_inject [of xs' r ys' r'] by (simp add: json_quote_inject xs ys)
    qed
  qed
qed simp

text \<open>Numbers are followed by a comma in a key, so their digits end there.\<close>

definition is_numeric :: "char \<Rightarrow> bool" where
  "is_numeric c \<longleftrightarrow> (48::nat) \<le> of_char c \<and> of_char c \<le> (57::nat)"

lemma digits_value_append:
  "list_all is_numeric s \<Longrightarrow> digits_value a s = Some m \<Longrightarrow> digits_value a (s @ t) = digits_value m t"
  by (induction s arbitrary: a) (auto simp: is_numeric_def)

lemma show_nat_digits: "list_all is_numeric (show_nat n) \<and> digits_value 0 (show_nat n) = Some n"
proof (induction n rule: show_nat.induct)
  case (1 n)
  show ?case
  proof (cases "n < 10")
    case True
    then show ?thesis by (simp add: show_nat.simps [of n] is_numeric_def)
  next
    case False
    then have IH: "list_all is_numeric (show_nat (n div 10))" "digits_value 0 (show_nat (n div 10)) = Some (n div 10)"
      using 1 by simp_all
    have "is_numeric (char_of (48 + n mod 10))" by (simp add: is_numeric_def)
    then show ?thesis
      using IH digits_value_append [OF IH, of "[char_of (48 + n mod 10)]"] False
      by (simp add: show_nat.simps [of n])
  qed
qed

lemma show_nat_inject: "show_nat m = show_nat n \<Longrightarrow> m = n"
  by (metis option.inject show_nat_digits)

lemma show_int_chars: "c \<in> set (show_int i) \<Longrightarrow> c = CHR ''-'' \<or> is_numeric c"
  using show_nat_digits by (auto simp: show_int_def list_all_iff split: if_splits)

lemma show_int_inject: "show_int i = show_int j \<Longrightarrow> i = j"
proof -
  assume eq: "show_int i = show_int j"
  have no: "show_nat n \<noteq> CHR ''-'' # s" for n s
  proof
    assume "show_nat n = CHR ''-'' # s"
    then have "is_numeric (CHR ''-'')" using show_nat_digits [of n] by simp
    then show False by (simp add: is_numeric_def)
  qed
  consider "i < 0" "j < 0" | "i < 0" "j \<ge> 0" | "i \<ge> 0" "j < 0" | "i \<ge> 0" "j \<ge> 0" by linarith
  then show "i = j"
  proof cases
    case 1
    then have "nat (- i) = nat (- j)" using eq by (intro show_nat_inject) (simp add: show_int_def)
    then show ?thesis using 1 by linarith
  next
    case 4
    then have "nat i = nat j" using eq by (intro show_nat_inject) (simp add: show_int_def)
    then show ?thesis using 4 by linarith
  qed (use eq no in \<open>simp_all add: show_int_def\<close>, metis no)
qed

lemma show_int_sep_inject:
  assumes "sep \<noteq> CHR ''-''" "\<not> is_numeric sep"
  shows "show_int i @ sep # r = show_int j @ sep # r' \<longleftrightarrow> i = j \<and> r = r'"
proof
  assume eq: "show_int i @ sep # r = show_int j @ sep # r'"
  have no: "x \<noteq> sep" if "x \<in> set (show_int k)" for x k
    using show_int_chars [OF that] assms by auto
  have tw: "takeWhile (\<lambda>x. x \<noteq> sep) (show_int k @ sep # q) = show_int k" for k q
    by (subst takeWhile_append2) (use no in auto)
  have "show_int i = show_int j" using arg_cong [OF eq, of "takeWhile (\<lambda>x. x \<noteq> sep)"] by (simp only: tw)
  then show "i = j \<and> r = r'" using eq show_int_inject by simp
qed simp

lemma show_int_comma_inject: "show_int i @ '','' @ r = show_int j @ '','' @ r' \<longleftrightarrow> i = j \<and> r = r'"
  using show_int_sep_inject [of "CHR '',''" i r j r'] by (simp add: is_numeric_def)

lemma show_bool_inject: "show_bool b @ r = show_bool b' @ r' \<longleftrightarrow> b = b' \<and> r = r'"
  by (simp add: show_bool_def)

lemma analyzable_key_inject:
  assumes "getAnalyzableFilesConfigKey c = getAnalyzableFilesConfigKey c'"
  shows "getShouldIgnoreParams c = getShouldIgnoreParams c'"
    and "cfg_baseDir c = cfg_baseDir c' \<Longrightarrow> getFilterPathParams c = getFilterPathParams c'"
  using assms
  by (simp_all add: getAnalyzableFilesConfigKey_def Let_def json_quote_inject strings_inject
      strings_inject [of _ "[]" _ "[]", simplified] show_bool_inject
      show_int_comma_inject [simplified] serializeMinimatchPatterns_def getShouldIgnoreParams_def getFilterPathParams_def)

end
