(* ===== verification/File_Filters.thy ===== *)
theory File_Filters
  imports Project_Configuration "HOL-Library.Sublist" Complex_Main
begin

text \<open>
  Which files are analyzed, and as what: \<open>packages/analysis/src/common/filter/\<close> and
  \<open>jsts/rules/helpers/test-file-pattern.ts\<close>. \<open>glob\<close> is the \<open>match\<close> of a \<open>Minimatch\<close>;
  \<open>angular\<close> is \<open>isAngularProject\<close>, which looks the manifests above a file up. Messages of the
  log are left out.
\<close>

section \<open>Content: bundles, minified files, size\<close>

definition READ_CHARACTERS_LIMIT :: nat where
  "READ_CHARACTERS_LIMIT = 2048"

definition identifier_start :: "char \<Rightarrow> bool" where
  "identifier_start c \<longleftrightarrow> is_letter c \<or> c = CHR ''_'' \<or> c = CHR ''$''"

definition COMMENT_OPERATOR_FUNCTION :: regex where
  "COMMENT_OPERATOR_FUNCTION = rseq
     [lit ''/*'', RStar any_char, lit ''*/'', RStar (RClass is_space), one_of ''!;+('',
      lit ''function'', ROpt (lit '' ''),
      ROpt (rseq [lit '' '', RClass identifier_start, RStar (RClass (\<lambda>c. identifier_start c \<or> is_numeral c))]),
      lit ''('']"

definition filterBundleCode :: "string \<Rightarrow> bool" where
  "filterBundleCode input \<longleftrightarrow> \<not> search COMMENT_OPERATOR_FUNCTION (take READ_CHARACTERS_LIMIT input)"

definition filterBundle :: "string \<Rightarrow> string \<Rightarrow> bool" where
  "filterBundle filePath input = filterBundleCode input"

definition DEFAULT_AVERAGE_LINE_LENGTH_THRESHOLD :: rat where
  "DEFAULT_AVERAGE_LINE_LENGTH_THRESHOLD = 200"

text \<open>An empty file has no line, and \<open>NaN\<close>, here \<open>None\<close>, as its average.\<close>

definition getAverageLineLength :: "string \<Rightarrow> rat option" where
  "getAverageLineLength input =
     (let parts = split_on (CHR 0x0A) input;
          ls = (if last parts = [] then butlast parts else parts);
          totalLength = foldl (\<lambda>acc line. acc + length line) 0 ls
      in if ls = [] then None else Some (of_nat totalLength / of_nat (length ls)))"

definition hasExcessiveAverageLineLength :: "string \<Rightarrow> rat \<Rightarrow> bool" where
  "hasExcessiveAverageLineLength input threshold =
     (case getAverageLineLength input of None \<Rightarrow> False | Some a \<Rightarrow> threshold < a)"

definition isMinifiableFilename :: "string \<Rightarrow> bool" where
  "isMinifiableFilename filename \<longleftrightarrow> ends_with filename ''.js'' \<or> ends_with filename ''.css''"

definition hasMinifiedFilename :: "string \<Rightarrow> bool" where
  "hasMinifiedFilename filename \<longleftrightarrow>
     ends_with filename ''.min.js'' \<or> ends_with filename ''-min.js''
     \<or> ends_with filename ''.min.css'' \<or> ends_with filename ''-min.css''"

definition filterMinified :: "string \<Rightarrow> string \<Rightarrow> bool" where
  "filterMinified filePath input \<longleftrightarrow>
     \<not> (hasMinifiedFilename filePath
        \<or> (isMinifiableFilename filePath
           \<and> hasExcessiveAverageLineLength input DEFAULT_AVERAGE_LINE_LENGTH_THRESHOLD))"

text \<open>Characters above the ASCII range take two bytes.\<close>

definition getBytes :: "string \<Rightarrow> nat" where
  "getBytes input = sum_list (map (\<lambda>c. if (of_char c :: nat) < 128 then 1 else 2) input)"

definition filterSize :: "string \<Rightarrow> string \<Rightarrow> int \<Rightarrow> bool" where
  "filterSize filePath input maxSize \<longleftrightarrow> \<not> maxSize * 1000 < int (getBytes input)"

definition accept :: "string \<Rightarrow> string \<Rightarrow> filter_file_params \<Rightarrow> bool" where
  "accept filePath fileContent p =
     (if isJsTsFile filePath (ff_jsSuffixes p) (ff_tsSuffixes p) then
        (\<not> ff_detectBundles p \<or> filterBundle filePath fileContent)
        \<and> filterMinified filePath fileContent \<and> filterSize filePath fileContent (ff_maxFileSize p)
      else if isCssFile filePath (ff_cssSuffixes p) then filterMinified filePath fileContent
      else True)"

definition acceptSnippet :: "string \<Rightarrow> bool" where
  "acceptSnippet content \<longleftrightarrow> \<not> hasExcessiveAverageLineLength content DEFAULT_AVERAGE_LINE_LENGTH_THRESHOLD"

section \<open>Names of test files\<close>

definition DEFAULT_TEST_FILE_EXTENSIONS :: "string list" where
  "DEFAULT_TEST_FILE_EXTENSIONS =
     [''.js'', ''.mjs'', ''.cjs'', ''.jsx'', ''.vue'', ''.ts'', ''.mts'', ''.cts'', ''.tsx'']"

definition TEST_RELATED_MARKERS :: "string list" where
  "TEST_RELATED_MARKERS = [''test'', ''spec'', ''cy'', ''e2e'', ''mock'']"

definition TEST_RELATED_MARKER_ALTERNATION :: regex where
  "TEST_RELATED_MARKER_ALTERNATION = ralt (map lit TEST_RELATED_MARKERS)"

text \<open>
  Extensions go into the expression as they are, so that a dot inside one stands for any
  character; they have no other character with a special meaning.
\<close>

definition extension_regex :: "string \<Rightarrow> regex" where
  "extension_regex ext = rseq (map (\<lambda>c. if c = CHR ''.'' then line_char else lit [c]) ext)"

definition suffixAlternation :: "string list \<Rightarrow> regex" where
  "suffixAlternation extensions =
     ralt (map (\<lambda>ext. extension_regex (if starts_with ext ''.'' then drop 1 ext else ext))
       (if length extensions \<noteq> 0 then extensions else DEFAULT_TEST_FILE_EXTENSIONS))"

definition testFilePattern :: "string list \<Rightarrow> regex" where
  "testFilePattern extensions =
     rseq [lit ''.'', ralt [lit ''test'', lit ''spec'', lit ''cy''], lit ''.'', suffixAlternation extensions]"

definition isTestFile :: "string \<Rightarrow> string list \<Rightarrow> bool" where
  "isTestFile filePath extensions = search_end (testFilePattern extensions) filePath"

definition slashes :: regex where
  "slashes = one_of [CHR 0x5C, CHR ''/'']"

definition testRelatedFilePattern :: "string list \<Rightarrow> regex" where
  "testRelatedFilePattern extensions =
     rseq [lit ''.'', TEST_RELATED_MARKER_ALTERNATION, lit ''.'', suffixAlternation extensions]"

definition test_directories :: regex where
  "test_directories = rseq [ralt [lit ''__tests__'', lit ''__mocks__''], slashes]"

definition isTestRelatedFile :: "string \<Rightarrow> string list \<Rightarrow> bool" where
  "isTestRelatedFile filePath extensions \<longleftrightarrow>
     search_end (testRelatedFilePattern extensions) filePath
     \<or> search_start test_directories filePath
     \<or> search (rseq [slashes, test_directories]) filePath"

definition ANGULAR_ENVIRONMENT_CONFIG_PATTERN :: regex where
  "ANGULAR_ENVIRONMENT_CONFIG_PATTERN = rseq
     [lit ''environment'', ROpt (lit ''s''), lit ''/environment.'', TEST_RELATED_MARKER_ALTERNATION,
      lit ''.'', RPlus (none_of ''/'')]"

definition isAngularEnvironmentConfigFileCandidate :: "string \<Rightarrow> bool" where
  "isAngularEnvironmentConfigFileCandidate filePath \<longleftrightarrow>
     full_match ANGULAR_ENVIRONMENT_CONFIG_PATTERN filePath
     \<or> search_end (rseq [lit ''/'', ANGULAR_ENVIRONMENT_CONFIG_PATTERN]) filePath"

section \<open>Paths\<close>

type_synonym globbing = "minimatch \<Rightarrow> string \<Rightarrow> bool"

definition matches_some :: "globbing \<Rightarrow> minimatch list \<Rightarrow> string \<Rightarrow> bool" where
  "matches_some glob patterns filePath \<longleftrightarrow> list_ex (\<lambda>p. glob p filePath) patterns"

definition matchesJsTsExclusion :: "globbing \<Rightarrow> string \<Rightarrow> minimatch list \<Rightarrow> bool" where
  "matchesJsTsExclusion glob filePath jsTsExclusions = matches_some glob jsTsExclusions filePath"

definition isJsTsExcluded :: "globbing \<Rightarrow> string \<Rightarrow> minimatch list \<Rightarrow> bool" where
  "isJsTsExcluded glob filePath jsTsExclusions = matchesJsTsExclusion glob filePath jsTsExclusions"

definition shouldIgnoreFile :: "globbing \<Rightarrow> string \<Rightarrow> string \<Rightarrow> filter_file_params \<Rightarrow> bool" where
  "shouldIgnoreFile glob filePath fileContent p \<longleftrightarrow>
     isJsTsExcluded glob filePath (ff_jsTsExclusions p) \<or> \<not> accept filePath fileContent p"

datatype file_type = FileMain | FileTest

definition fileIsUnder :: "string \<Rightarrow> string list \<Rightarrow> bool" where
  "fileIsUnder filePath paths \<longleftrightarrow>
     list_ex (\<lambda>path. filePath = path \<or> starts_with filePath (path @ ''/'')) paths"

definition matchesTestPath :: "globbing \<Rightarrow> string \<Rightarrow> filter_path_params \<Rightarrow> bool" where
  "matchesTestPath glob filePath p =
     (if \<not> fileIsUnder filePath (fp_testPaths p) then False
      else if matches_some glob (fp_testExclusions p) filePath then False
      else if length (fp_testInclusions p) \<noteq> 0 then matches_some glob (fp_testInclusions p) filePath
      else True)"

definition matchesMainPath :: "globbing \<Rightarrow> string \<Rightarrow> filter_path_params \<Rightarrow> bool" where
  "matchesMainPath glob filePath p =
     (if \<not> fileIsUnder filePath (fp_sourcesPaths p) then False
      else if matches_some glob (fp_exclusions p) filePath then False
      else if length (fp_inclusions p) \<noteq> 0 then matches_some glob (fp_inclusions p) filePath
      else True)"

definition filterPathAndGetFileType :: "globbing \<Rightarrow> string \<Rightarrow> filter_path_params \<Rightarrow> file_type option" where
  "filterPathAndGetFileType glob filePath p =
     (if matchesTestPath glob filePath p then Some FileTest
      else if matchesMainPath glob filePath p then Some FileMain
      else None)"

definition matchesTestFileHeuristic ::
  "globbing \<Rightarrow> (string \<Rightarrow> string \<Rightarrow> bool) \<Rightarrow> string \<Rightarrow> filter_path_params \<Rightarrow> bool" where
  "matchesTestFileHeuristic glob angular filePath p =
     (if length (fp_testPaths p) \<noteq> 0 then False
      else if length (fp_inclusions p) > 0 \<and> fileIsUnder filePath (fp_sourcesPaths p)
           \<and> matches_some glob (fp_inclusions p) filePath then False
      else if \<not> isTestRelatedFile filePath (fp_testFileExtensions p) then False
      else if isAngularEnvironmentConfigFileCandidate filePath
           \<and> fileIsUnder filePath [fp_baseDir p] \<and> angular filePath (fp_baseDir p) then False
      else True)"

definition getFileTypeForRules ::
  "globbing \<Rightarrow> (string \<Rightarrow> string \<Rightarrow> bool) \<Rightarrow> string \<Rightarrow> file_type \<Rightarrow> filter_path_params \<Rightarrow> file_type" where
  "getFileTypeForRules glob angular filePath fileType p =
     (if fileType = FileTest \<or> \<not> matchesTestFileHeuristic glob angular filePath p then fileType else FileTest)"

section \<open>Being under a directory\<close>

lemma join_slash_prefix:
  assumes "clean d" "clean f" "d \<noteq> []" "join_with ''/'' f = join_with ''/'' d @ ''/'' @ r"
  shows "strict_prefix d f"
proof -
  have f: "f \<noteq> []"
  proof
    assume "f = []"
    then show False using assms(4) by simp
  qed
  have "split_on (CHR ''/'') (join_with ''/'' d @ CHR ''/'' # r) = d @ split_on (CHR ''/'') r"
    using assms(1,3)
  proof (induction d rule: induct_list012)
    case (2 x)
    then show ?case by (simp add: split_on_cons clean_segment_def)
  next
    case (3 x y zs)
    then show ?case by (simp add: split_on_cons clean_segment_def)
  qed simp
  moreover have "split_on (CHR ''/'') (join_with ''/'' f) = f"
    using assms(2) f by (intro split_join) (simp_all add: clean_no_slash)
  ultimately have "f = d @ split_on (CHR ''/'') r" using assms(4) by simp
  then show ?thesis by (auto simp: strict_prefix_def)
qed

lemma join_parts_append:
  "a \<noteq> [] \<Longrightarrow> b \<noteq> [] \<Longrightarrow> join_with sep (a @ b) = join_with sep a @ sep @ join_with sep b"
proof (induction a rule: induct_list012)
  case (2 x)
  then show ?case by (cases b) auto
qed auto

lemma fileIsUnder_iff:
  assumes "clean f" "clean d"
  shows "fileIsUnder (abs_path f) [abs_path d] \<longleftrightarrow> (if d = [] then f = [] else prefix d f)"
proof (cases "d = []")
  case True
  have "f = []" if "starts_with (abs_path f) ''//''"
  proof (rule ccontr)
    assume "f \<noteq> []"
    then obtain s t where f: "f = s # t" by (cases f) auto
    then obtain c r where s: "s = c # r" "c \<noteq> CHR ''/''" using assms(1) by (cases s) (auto simp: clean_segment_def)
    have "\<exists>q. join_with ''/'' f = c # q" by (cases t) (auto simp: f s)
    then show False using that s(2) by (auto simp: abs_path_def starts_with_def)
  qed
  moreover have "abs_path f = ''/'' \<longleftrightarrow> f = []"
    using abs_path_inject [OF assms(1), of "[]"] by (simp add: abs_path_def)
  ultimately show ?thesis using True by (auto simp: fileIsUnder_def) (simp_all add: abs_path_def)
next
  case False
  have "starts_with (abs_path f) (abs_path d @ ''/'') \<longleftrightarrow> strict_prefix d f"
  proof
    assume "starts_with (abs_path f) (abs_path d @ ''/'')"
    then obtain r where "join_with ''/'' f = join_with ''/'' d @ ''/'' @ r"
      by (auto simp: starts_with_iff abs_path_def)
    then show "strict_prefix d f" using join_slash_prefix assms False by metis
  next
    assume "strict_prefix d f"
    then obtain e where "f = d @ e" "e \<noteq> []" by (auto simp: strict_prefix_def prefix_def)
    then show "starts_with (abs_path f) (abs_path d @ ''/'')"
      using False by (simp add: abs_path_def starts_with_iff join_parts_append)
  qed
  then show ?thesis using False assms by (auto simp: fileIsUnder_def abs_path_inject)
qed

lemma fileIsUnder_list: "fileIsUnder f ds \<longleftrightarrow> (\<exists>d\<in>set ds. fileIsUnder f [d])"
  by (auto simp: fileIsUnder_def list_ex_iff)

end
