(* ===== verification/Analysis_Request.thy ===== *)
theory Analysis_Request
  imports File_Filters "HOL-Library.Word"
begin

text \<open>
  A request becomes the input of an analysis: \<open>packages/grpc/src/analyze-project-normalize.ts\<close>
  and \<open>packages/analysis/src/common/input-sanitize.ts\<close>. A request is what \<open>protobufjs\<close> decodes:
  enumerations are open integers, a map is an object with distinct keys, none of them
  \<open>__proto__\<close>, and an \<open>int64\<close> is an object of two 32-bit halves, which loses its methods on
  the way to a worker.
\<close>

section \<open>Errors\<close>

datatype 'e request_error = InvalidRequestError string | OtherError 'e

section \<open>64-bit numbers\<close>

datatype js_number = Finite rat | NotFinite

datatype proto_number =
    JsNumber js_number
  | LongLike "32 word" "32 word" bool
  | StructuredCloneLongLike "32 word" "32 word" bool
  | OtherValue js_number

definition MAX_SAFE_INTEGER :: int where
  "MAX_SAFE_INTEGER = 9007199254740991"

text \<open>
  A number is a double, whose significand has 53 bits: an integer is rounded to the nearest
  multiple of the unit in its last place, and to the even one of two equally near. (The halves below are
  far from the overflow to \<open>Infinity\<close>.)
\<close>

function ulp_exponent :: "int \<Rightarrow> nat" where
  "ulp_exponent n = (if n < 2 ^ 53 then 0 else Suc (ulp_exponent (n div 2)))"
  by pat_completeness auto
termination by (relation "measure nat") auto

declare ulp_exponent.simps [simp del]

definition round_magnitude :: "int \<Rightarrow> int" where
  "round_magnitude n =
     (let u = 2 ^ ulp_exponent n; q = n div u; r = n mod u
      in if 2 * r < u \<or> 2 * r = u \<and> even q then q * u else (q + 1) * u)"

definition round_double :: "int \<Rightarrow> int" where
  "round_double x = (if x < 0 then - round_magnitude (- x) else round_magnitude x)"

text \<open>
  \<open>low >>> 0\<close> is the unsigned value, \<open>Math.trunc(high)\<close> the signed one; the product and the sum
  are rounded.
\<close>

definition toNumberFromStructuredCloneLong :: "32 word \<Rightarrow> 32 word \<Rightarrow> bool \<Rightarrow> int" where
  "toNumberFromStructuredCloneLong low high uns =
     (let low' = uint low; high' = (if uns then uint high else sint high)
      in round_double (round_double (high' * 0x100000000) + low'))"

text \<open>The integer the two halves spell, and \<open>toNumber\<close> of the Long library: the nearest double.\<close>

definition int64_value :: "32 word \<Rightarrow> 32 word \<Rightarrow> bool \<Rightarrow> int" where
  "int64_value low high uns =
     (if uns then uint (word_cat high low :: 64 word) else sint (word_cat high low :: 64 word))"

definition long_toNumber :: "32 word \<Rightarrow> 32 word \<Rightarrow> bool \<Rightarrow> int" where
  "long_toNumber low high uns = round_double (int64_value low high uns)"

definition toOptionalNumber :: "proto_number option \<Rightarrow> string \<Rightarrow> 'e request_error + int option" where
  "toOptionalNumber v path =
     (case v of
        None \<Rightarrow> Inr None
      | Some p \<Rightarrow>
          let numberValue = (case p of
                JsNumber n \<Rightarrow> n
              | LongLike low high uns \<Rightarrow> Finite (of_int (long_toNumber low high uns))
              | StructuredCloneLongLike low high uns \<Rightarrow>
                  Finite (of_int (toNumberFromStructuredCloneLong low high uns))
              | OtherValue n \<Rightarrow> n)
          in case numberValue of
               NotFinite \<Rightarrow> Inl (InvalidRequestError (path @ '' must be a safe integer''))
             | Finite q \<Rightarrow>
                 if of_int \<lfloor>q\<rfloor> = q \<and> \<bar>\<lfloor>q\<rfloor>\<bar> \<le> MAX_SAFE_INTEGER then Inr (Some \<lfloor>q\<rfloor>)
                 else Inl (InvalidRequestError (path @ '' must be a safe integer'')))"

section \<open>Enumerations\<close>

definition normalizeAnalysisMode :: "int option \<Rightarrow> 'e request_error + analysis_mode option" where
  "normalizeAnalysisMode analysisMode =
     (case analysisMode of
        None \<Rightarrow> Inr None
      | Some n \<Rightarrow>
          if n = 0 then Inr None else if n = 1 then Inr (Some ModeDefault)
          else if n = 2 then Inr (Some ModeSkipUnchanged)
          else Inl (InvalidRequestError (''Invalid analysis mode: '' @ show_int n)))"

definition required :: "('e request_error + 'a option) \<Rightarrow> string \<Rightarrow> 'e request_error + 'a" where
  "required r path =
     bind_result r (\<lambda>normalized. case normalized of
         None \<Rightarrow> Inl (InvalidRequestError (path @ '' must not be unspecified''))
       | Some a \<Rightarrow> Inr a)"

definition normalizeRequiredAnalysisMode :: "int option \<Rightarrow> string \<Rightarrow> 'e request_error + analysis_mode" where
  "normalizeRequiredAnalysisMode analysisMode path = required (normalizeAnalysisMode analysisMode) path"

definition normalizeFileType :: "int option \<Rightarrow> 'e request_error + file_type option" where
  "normalizeFileType fileType =
     (case fileType of
        None \<Rightarrow> Inr None
      | Some n \<Rightarrow>
          if n = 0 then Inr None else if n = 1 then Inr (Some FileMain)
          else if n = 2 then Inr (Some FileTest)
          else Inl (InvalidRequestError (''Invalid file type: '' @ show_int n)))"

definition normalizeRequiredFileType :: "int option \<Rightarrow> string \<Rightarrow> 'e request_error + file_type" where
  "normalizeRequiredFileType fileType path = required (normalizeFileType fileType) path"

datatype file_status = Same | Changed | Added

definition normalizeFileStatus :: "int option \<Rightarrow> 'e request_error + file_status option" where
  "normalizeFileStatus fileStatus =
     (case fileStatus of
        None \<Rightarrow> Inr None
      | Some n \<Rightarrow>
          if n = 0 then Inr None else if n = 1 then Inr (Some Same)
          else if n = 2 then Inr (Some Changed) else if n = 3 then Inr (Some Added)
          else Inl (InvalidRequestError (''Invalid file status: '' @ show_int n)))"

definition normalizeJsTsLanguage :: "int option \<Rightarrow> 'e request_error + language option" where
  "normalizeJsTsLanguage lang =
     (case lang of
        None \<Rightarrow> Inr None
      | Some n \<Rightarrow>
          if n = 0 then Inr None else if n = 1 then Inr (Some LangJs)
          else if n = 2 then Inr (Some LangTs)
          else Inl (InvalidRequestError (''Invalid JS/TS language: '' @ show_int n)))"

section \<open>Small helpers\<close>

text \<open>\<open>StringList\<close> has an optional field \<open>values\<close>.\<close>

type_synonym string_list = "string list option"

definition repeatedStringValues :: "string list option \<Rightarrow> string list option" where
  "repeatedStringValues vals = vals"

definition stringListValues :: "string_list option \<Rightarrow> string list option" where
  "stringListValues list = map_option (\<lambda>vals. nullish vals []) list"

definition optionalBoolean :: "bool option \<Rightarrow> bool option" where
  "optionalBoolean v = v"

definition optionalString :: "string option \<Rightarrow> string option" where
  "optionalString v = v"

definition normalizePathList :: "string \<Rightarrow> string list option \<Rightarrow> string \<Rightarrow> string list" where
  "normalizePathList cwd paths baseDir = map (\<lambda>path. normalizeToAbsolutePath cwd path baseDir) (nullish paths [])"

definition normalizeOptionalPath :: "string \<Rightarrow> string option \<Rightarrow> string \<Rightarrow> string option" where
  "normalizeOptionalPath cwd path baseDir = map_option (\<lambda>p. normalizeToAbsolutePath cwd p baseDir) path"

text \<open>\<open>google.protobuf.Value\<close>: one of six kinds, each possibly absent.\<close>

datatype proto_value = ProtoValue
  (nullValue: "int option") (numberValue: "int option") (stringValue: "string option")
  (boolValue: "bool option") (structValue: "(string \<times> proto_value) list option option")
  (listValue: "proto_value list option option")

fun valueFromProto :: "proto_value \<Rightarrow> json" where
  "valueFromProto (ProtoValue nul num str bool fs vs) =
     (case nul of Some _ \<Rightarrow> JNull | None \<Rightarrow>
      case num of Some n \<Rightarrow> JNum n | None \<Rightarrow>
      case str of Some s \<Rightarrow> JStr s | None \<Rightarrow>
      case bool of Some b \<Rightarrow> JBool b | None \<Rightarrow>
      case fs of
        Some (Some es) \<Rightarrow>
          JObj (object_entries (from_entries (object_entries (map (\<lambda>(k, v). (k, valueFromProto v)) es))))
      | Some None \<Rightarrow> JObj []
      | None \<Rightarrow>
          (case vs of
             Some (Some xs) \<Rightarrow> JArr (map valueFromProto xs)
           | Some None \<Rightarrow> JArr []
           | None \<Rightarrow> JNull))"

section \<open>The messages of a request\<close>

record project_configuration =
  pc_baseDir :: "string option"
  pc_sonarlint :: "bool option"
  pc_fsEvents :: "string list option"
  pc_allowTsParserJsFiles :: "bool option"
  pc_analysisMode :: "int option"
  pc_skipAst :: "bool option"
  pc_ignoreHeaderComments :: "bool option"
  pc_maxFileSize :: "proto_number option"
  pc_environments :: "string_list option"
  pc_globals :: "string_list option"
  pc_tsSuffixes :: "string_list option"
  pc_jsSuffixes :: "string_list option"
  pc_cssSuffixes :: "string_list option"
  pc_htmlSuffixes :: "string_list option"
  pc_yamlSuffixes :: "string_list option"
  pc_cssAdditionalSuffixes :: "string_list option"
  pc_tsConfigPaths :: "string list option"
  pc_jsTsExclusions :: "string_list option"
  pc_sources :: "string list option"
  pc_inclusions :: "string list option"
  pc_exclusions :: "string list option"
  pc_tests :: "string list option"
  pc_testInclusions :: "string list option"
  pc_testExclusions :: "string list option"
  pc_detectBundles :: "bool option"
  pc_detectGeneratedCode :: "bool option"
  pc_canAccessFileSystem :: "bool option"
  pc_createTSProgramForOrphanFiles :: "bool option"
  pc_disableTypeChecking :: "bool option"
  pc_skipNodeModuleLookupOutsideBaseDir :: "bool option"
  pc_ecmaScriptVersion :: "string option"

record project_file_input =
  pf_fileContent :: "string option"
  pf_fileType :: "int option"
  pf_fileStatus :: "int option"

record jsts_rule =
  jr_key :: "string option"
  jr_configurations :: "proto_value list option"
  jr_fileTypeTargets :: "int list option"
  jr_language :: "int option"
  jr_analysisModes :: "int list option"
  jr_blacklistedExtensions :: "string list option"

record css_rule =
  cr_key :: "string option"
  cr_configurations :: "proto_value list option"

record filesystem_cache =
  fc_archivePath :: "string option"

record analyze_project_request =
  rq_configuration :: "project_configuration option"
  rq_files :: "(string, project_file_input) js_map option"
  rq_rules :: "jsts_rule list option"
  rq_cssRules :: "css_rule list option"
  rq_bundles :: "string list option"
  rq_rulesWorkdir :: "string option"
  rq_filesystemCache :: "filesystem_cache option"

section \<open>Configuration and files\<close>

text \<open>A string that is \<open>null\<close> or empty is falsy.\<close>

definition truthy_string :: "string option \<Rightarrow> string option" where
  "truthy_string s = (case s of None \<Rightarrow> None | Some t \<Rightarrow> if t = '''' then None else Some t)"

fun config_message :: "config_error \<Rightarrow> string" where
  "config_message NotAnObject = ''Invalid configuration: expected object''"
| "config_message BaseDirMissing = ''baseDir is required and must be a string''"
| "config_message (BaseDirNotAbsolute d) = ''baseDir is not an absolute path: '' @ d"

definition createConfigurationFromProto ::
  "string \<Rightarrow> project_configuration option \<Rightarrow> 'e request_error + configuration" where
  "createConfigurationFromProto cwd pc =
     (case pc of
        None \<Rightarrow> Inl (InvalidRequestError ''configuration.base_dir is required'')
      | Some c \<Rightarrow>
          (case truthy_string (pc_baseDir c) of
             None \<Rightarrow> Inl (InvalidRequestError ''configuration.base_dir is required'')
           | Some baseDir \<Rightarrow>
               bind_result (normalizeAnalysisMode (pc_analysisMode c)) (\<lambda>analysisMode.
               bind_result (toOptionalNumber (pc_maxFileSize c) ''configuration.max_file_size'') (\<lambda>maxFileSize.
               (case createConfigurationFromInput cwd
          \<lparr>in_baseDir = baseDir,
           in_canAccessFileSystem = optionalBoolean (pc_canAccessFileSystem c),
           in_sonarlint = optionalBoolean (pc_sonarlint c),
           in_fsEvents = repeatedStringValues (pc_fsEvents c),
           in_allowTsParserJsFiles = optionalBoolean (pc_allowTsParserJsFiles c),
           in_analysisMode = analysisMode,
           in_skipAst = optionalBoolean (pc_skipAst c),
           in_ignoreHeaderComments = optionalBoolean (pc_ignoreHeaderComments c),
           in_maxFileSize = maxFileSize,
           in_environments = stringListValues (pc_environments c),
           in_globals = stringListValues (pc_globals c),
           in_tsSuffixes = stringListValues (pc_tsSuffixes c),
           in_jsSuffixes = stringListValues (pc_jsSuffixes c),
           in_cssSuffixes = stringListValues (pc_cssSuffixes c),
           in_htmlSuffixes = stringListValues (pc_htmlSuffixes c),
           in_yamlSuffixes = stringListValues (pc_yamlSuffixes c),
           in_cssAdditionalSuffixes = stringListValues (pc_cssAdditionalSuffixes c),
           in_tsConfigPaths = repeatedStringValues (pc_tsConfigPaths c),
           in_jsTsExclusions = stringListValues (pc_jsTsExclusions c),
           in_sources = repeatedStringValues (pc_sources c),
           in_inclusions = repeatedStringValues (pc_inclusions c),
           in_exclusions = repeatedStringValues (pc_exclusions c),
           in_tests = repeatedStringValues (pc_tests c),
           in_testInclusions = repeatedStringValues (pc_testInclusions c),
           in_testExclusions = repeatedStringValues (pc_testExclusions c),
           in_detectBundles = optionalBoolean (pc_detectBundles c),
           in_detectGeneratedCode = optionalBoolean (pc_detectGeneratedCode c),
           in_createTSProgramForOrphanFiles = optionalBoolean (pc_createTSProgramForOrphanFiles c),
           in_disableTypeChecking = optionalBoolean (pc_disableTypeChecking c),
           in_skipNodeModuleLookupOutsideBaseDir = optionalBoolean (pc_skipNodeModuleLookupOutsideBaseDir c),
           in_ecmaScriptVersion = optionalString (pc_ecmaScriptVersion c)\<rparr> of
                  Inr configuration \<Rightarrow> Inr configuration
                | Inl e \<Rightarrow> Inl (InvalidRequestError (config_message e)))))))"

definition hasExplicitFiles :: "('k, 'v) js_map option \<Rightarrow> bool \<Rightarrow> bool" where
  "hasExplicitFiles files canAccessFileSystem =
     (case files of None \<Rightarrow> False | Some m \<Rightarrow> length (js_keys m) > 0 \<or> \<not> canAccessFileSystem)"

record file_input =
  fi_filePath :: string
  fi_fileContent :: "string option"
  fi_fileType :: "file_type option"
  fi_fileStatus :: "file_status option"

definition normalizeProtoInputFiles ::
  "(string, project_file_input) js_map option \<Rightarrow> 'e request_error + (string, file_input) js_map" where
  "normalizeProtoInputFiles files =
     bind_result
       (map_result (\<lambda>(filePathKey, fileInput).
            if filePathKey = '''' then Inl (InvalidRequestError ''files contains an empty file path'')
            else bind_result (normalizeFileType (pf_fileType fileInput)) (\<lambda>fileType.
                 bind_result (normalizeFileStatus (pf_fileStatus fileInput)) (\<lambda>fileStatus.
                   Inr (filePathKey,
                     \<lparr>fi_filePath = filePathKey, fi_fileContent = optionalString (pf_fileContent fileInput),
                      fi_fileType = fileType, fi_fileStatus = fileStatus\<rparr>))))
         (object_entries (nullish files [])))
       (\<lambda>es. Inr (from_entries es))"

text \<open>The canonical defaults of \<open>JSTS_ANALYSIS_DEFAULTS\<close> that are used here.\<close>

definition default_fileType :: file_type where
  "default_fileType = FileMain"

definition default_fileStatus :: file_status where
  "default_fileStatus = Same"

record analyzable_file =
  af_filePath :: string
  af_fileContent :: string
  af_fileType :: file_type
  af_ruleFileType :: file_type
  af_fileStatus :: file_status

text \<open>
  The environment: the current directory, globs, the manifest lookup, the byte order mark, and
  the content of a file or the error of reading it.
\<close>

record 'e request_env =
  env_cwd :: string
  env_glob :: globbing
  env_angular :: "string \<Rightarrow> string \<Rightarrow> bool"
  env_bom :: "char \<Rightarrow> bool"
  env_read :: "string \<Rightarrow> 'e + string"

definition readFile_content :: "'e request_env \<Rightarrow> string \<Rightarrow> 'e request_error + string" where
  "readFile_content env filePath =
     (case env_read env filePath of
        Inl e \<Rightarrow> Inl (OtherError e)
      | Inr fileContent \<Rightarrow> Inr (stripBOM (env_bom env) fileContent))"

type_synonym analyzable_files = "(string, analyzable_file) js_map"
type_synonym path_map = "(string, string) js_map"

definition sanitized_file :: "'e request_env \<Rightarrow> configuration \<Rightarrow> file_input \<Rightarrow> string \<Rightarrow> string \<Rightarrow> analyzable_file" where
  "sanitized_file env c fileInput filePath fileContent =
     (let p = getFilterPathParams c;
          rawFileType =
            (if fi_fileType fileInput \<noteq> Some FileTest
             then (case filterPathAndGetFileType (env_glob env) filePath p of
                     Some inferredFileType \<Rightarrow> Some inferredFileType
                   | None \<Rightarrow> fi_fileType fileInput)
             else fi_fileType fileInput);
          fileType = nullish rawFileType default_fileType
      in \<lparr>af_filePath = filePath, af_fileContent = fileContent, af_fileType = fileType,
          af_ruleFileType = getFileTypeForRules (env_glob env) (env_angular env) filePath fileType p,
          af_fileStatus = nullish (fi_fileStatus fileInput) default_fileStatus\<rparr>)"

fun sanitize_loop ::
  "'e request_env \<Rightarrow> configuration \<Rightarrow> (string \<times> file_input) list \<Rightarrow> analyzable_files \<Rightarrow> path_map
   \<Rightarrow> 'e request_error + (analyzable_files \<times> path_map)" where
  "sanitize_loop env c [] files pathMap = Inr (files, pathMap)"
| "sanitize_loop env c ((key, fileInput) # rest) files pathMap =
     (let filePath = normalizeToAbsolutePath (env_cwd env) (fi_filePath fileInput) (cfg_baseDir c) in
      bind_result
        (case fi_fileContent fileInput of
           None \<Rightarrow> readFile_content env filePath
         | Some content \<Rightarrow> Inr (stripBOM (env_bom env) content))
        (\<lambda>fileContent.
           if shouldIgnoreFile (env_glob env) filePath fileContent (getShouldIgnoreParams c)
           then sanitize_loop env c rest files pathMap
           else sanitize_loop env c rest
                  (js_set filePath (sanitized_file env c fileInput filePath fileContent) files)
                  (js_set filePath key pathMap)))"

definition sanitizeInputFiles ::
  "'e request_env \<Rightarrow> (string, file_input) js_map option \<Rightarrow> configuration
   \<Rightarrow> 'e request_error + (analyzable_files \<times> path_map)" where
  "sanitizeInputFiles env inputFiles c =
     (case inputFiles of
        None \<Rightarrow> Inr ([], [])
      | Some m \<Rightarrow> sanitize_loop env c (object_entries m) [] [])"

section \<open>Rules\<close>

record rule_config =
  rc_key :: string
  rc_configurations :: "json list"
  rc_fileTypeTargets :: "file_type list"
  rc_language :: language
  rc_analysisModes :: "analysis_mode list"
  rc_blacklistedExtensions :: "string list"

record css_rule_config =
  cc_key :: string
  cc_configurations :: "json list"

definition indexed :: "string \<Rightarrow> nat \<Rightarrow> string \<Rightarrow> string" where
  "indexed name i rest = name @ ''['' @ show_nat i @ '']'' @ rest"

definition normalizeJsTsRule :: "nat \<times> jsts_rule \<Rightarrow> 'e request_error + rule_config" where
  "normalizeJsTsRule = (\<lambda>(index, rule).
     case truthy_string (jr_key rule) of
       None \<Rightarrow> Inl (InvalidRequestError (indexed ''rules'' index ''.key is required''))
     | Some key \<Rightarrow>
         bind_result (normalizeJsTsLanguage (jr_language rule)) (\<lambda>lang.
           case lang of
             None \<Rightarrow> Inl (InvalidRequestError (indexed ''rules'' index ''.language is required''))
           | Some l \<Rightarrow>
               bind_result (map_result (\<lambda>(i, t). normalizeRequiredFileType (Some t)
                   (indexed ''rules'' index (indexed ''.file_type_targets'' i '''')))
                 (enumerate 0 (nullish (jr_fileTypeTargets rule) []))) (\<lambda>targets.
               bind_result (map_result (\<lambda>(i, m). normalizeRequiredAnalysisMode (Some m)
                   (indexed ''rules'' index (indexed ''.analysis_modes'' i '''')))
                 (enumerate 0 (nullish (jr_analysisModes rule) []))) (\<lambda>modes.
               Inr \<lparr>rc_key = key,
                    rc_configurations = map valueFromProto (nullish (jr_configurations rule) []),
                    rc_fileTypeTargets = targets, rc_language = l, rc_analysisModes = modes,
                    rc_blacklistedExtensions = nullish (jr_blacklistedExtensions rule) []\<rparr>))))"

definition normalizeJsTsRules :: "jsts_rule list option \<Rightarrow> 'e request_error + rule_config list" where
  "normalizeJsTsRules rules = map_result normalizeJsTsRule (enumerate 0 (nullish rules []))"

definition normalizeCssRules :: "css_rule list option \<Rightarrow> 'e request_error + css_rule_config list" where
  "normalizeCssRules rules =
     map_result (\<lambda>(index, rule).
         case truthy_string (cr_key rule) of
           None \<Rightarrow> Inl (InvalidRequestError (indexed ''css_rules'' index ''.key is required''))
         | Some key \<Rightarrow>
             Inr \<lparr>cc_key = key, cc_configurations = map valueFromProto (nullish (cr_configurations rule) [])\<rparr>)
       (enumerate 0 (nullish rules []))"

section \<open>The whole request\<close>

record sanitized_input =
  si_rules :: "rule_config list"
  si_cssRules :: "css_rule_config list"
  si_baseDir :: string
  si_bundles :: "string list"
  si_rulesWorkdir :: "string option"
  si_configuration :: configuration
  si_pathMap :: path_map

text \<open>\<open>init_stores\<close> stands for \<open>initFileStoresForAnalysis\<close>; it gives the new file stores.\<close>

definition normalizeAnalyzeProjectRequest ::
  "'e request_env \<Rightarrow> (configuration \<Rightarrow> analyzable_files option \<Rightarrow> 'e + 's) \<Rightarrow> analyze_project_request
   \<Rightarrow> 'e request_error + (sanitized_input \<times> 's)" where
  "normalizeAnalyzeProjectRequest env init_stores request =
     bind_result (createConfigurationFromProto (env_cwd env) (rq_configuration request)) (\<lambda>c.
     bind_result
       (if hasExplicitFiles (rq_files request) (cfg_canAccessFileSystem c)
        then bind_result (normalizeProtoInputFiles (rq_files request)) (\<lambda>m.
               bind_result (sanitizeInputFiles env (Some m) c) (\<lambda>r. Inr (Some r)))
        else Inr None) (\<lambda>sanitizedFiles.
     bind_result (normalizeJsTsRules (rq_rules request)) (\<lambda>rules.
     bind_result (normalizeCssRules (rq_cssRules request)) (\<lambda>cssRules.
       case init_stores c (map_option fst sanitizedFiles) of
         Inl e \<Rightarrow> Inl (OtherError e)
       | Inr stores \<Rightarrow> Inr
           (\<lparr>si_rules = rules, si_cssRules = cssRules, si_baseDir = cfg_baseDir c,
             si_bundles = normalizePathList (env_cwd env) (rq_bundles request) (cfg_baseDir c),
             si_rulesWorkdir = normalizeOptionalPath (env_cwd env) (rq_rulesWorkdir request) (cfg_baseDir c),
             si_configuration = c,
             si_pathMap = nullish (map_option snd sanitizedFiles) []\<rparr>, stores)))))"

end
