(* ===== verification/Request_Properties.thy ===== *)
theory Request_Properties
  imports Analysis_Request
begin

text \<open>
  Properties of configurations, file filters and requests, with the lemmas about the loops of
  \<open>Analysis_Request\<close> they rest on.
\<close>

section \<open>Configurations\<close>

definition configuration_paths :: "configuration \<Rightarrow> string list" where
  "configuration_paths c =
     cfg_baseDir c # cfg_fsEvents c @ cfg_tsConfigPaths c @ cfg_sources c @ cfg_tests c
     @ cfg_jsTsExclusions c @ cfg_inclusions c @ cfg_exclusions c @ cfg_testInclusions c
     @ cfg_testExclusions c"

lemma sanitizePaths_absolute: "list_all unix_absolute (sanitizePaths cwd ps d)"
  by (auto simp: sanitizePaths_def list_all_iff unix_absolute_normalize split: option.splits)

lemma normalizeGlobs_absolute: "list_all unix_absolute (normalizeGlobs cwd gs d)"
  by (auto simp: normalizeGlobs_def list_all_iff unix_absolute_normalize)

lemma normalizeFsEvents_absolute: "list_all unix_absolute (normalizeFsEvents cwd raw d)"
  by (auto simp: normalizeFsEvents_def list_all_iff unix_absolute_normalize split: option.splits)

text \<open>
  C23. Every path and pattern of a configuration that is created, from JSON or from an input, is
  absolute and in Unix form: it starts with a slash or a drive, has no backslash and no empty
  segment.
\<close>

theorem configuration_paths_are_absolute:
  assumes "createConfiguration cwd v = Inr c \<or> createConfigurationFromInput cwd i = Inr c"
  shows "list_all unix_absolute (configuration_paths c)"
proof -
  obtain j where "createConfigurationFromInput cwd j = Inr c"
    using assms by (auto simp: createConfiguration_def split: option.splits)
  then show ?thesis
    using sanitizePaths_absolute normalizeGlobs_absolute normalizeFsEvents_absolute unix_absolute_normalize
    by (auto simp: createConfigurationFromInput_def configuration_paths_def Let_def split: if_splits)
qed

definition sample_configuration :: json where
  "sample_configuration =
     JObj [(''baseDir'', JStr ''/p''), (''tests'', JArr [JStr ''t/../spec'']), (''maxFileSize'', JNum 5)]"

theorem configuration_paths_are_absolute_witness:
  "case createConfiguration ''/'' sample_configuration of
     Inl _ \<Rightarrow> False
   | Inr c \<Rightarrow> list_all unix_absolute (configuration_paths c) \<and> cfg_tests c = [''/p/spec''] \<and> cfg_maxFileSize c = 5"
proof -
  have ok: "\<not> isl (createConfiguration ''/'' sample_configuration)" by code_simp
  then obtain c where c: "createConfiguration ''/'' sample_configuration = Inr c"
    by (cases "createConfiguration ''/'' sample_configuration") simp_all
  have "(case createConfiguration ''/'' sample_configuration of
     Inl _ \<Rightarrow> False | Inr c \<Rightarrow> cfg_tests c = [''/p/spec''] \<and> cfg_maxFileSize c = 5)" by code_simp
  then show ?thesis using configuration_paths_are_absolute [of "''/''" sample_configuration c] c by simp
qed

text \<open>
  C24. The cache key of the analyzable files decides: two configurations of the same base directory
  with equal keys ignore the same files, give every path the same type and the same type for
  rules, and analyze the same kinds of files.
\<close>

theorem equal_keys_give_equal_decisions:
  assumes "getAnalyzableFilesConfigKey c = getAnalyzableFilesConfigKey c'" "cfg_baseDir c = cfg_baseDir c'"
  shows "shouldIgnoreFile glob f content (getShouldIgnoreParams c) = shouldIgnoreFile glob f content (getShouldIgnoreParams c')
    \<and> filterPathAndGetFileType glob f (getFilterPathParams c) = filterPathAndGetFileType glob f (getFilterPathParams c')
    \<and> getFileTypeForRules glob angular f t (getFilterPathParams c) = getFileTypeForRules glob angular f t (getFilterPathParams c')
    \<and> isAnalyzableFile f (getShouldIgnoreParams c) = isAnalyzableFile f (getShouldIgnoreParams c')"
  using analyzable_key_inject [OF assms(1)] assms(2) by simp

definition sample_input :: "string list option \<Rightarrow> bool option \<Rightarrow> configuration" where
  "sample_input excl lint =
     (case createConfiguration ''/'' (JObj ([(''baseDir'', JStr ''/p'')]
         @ (case excl of None \<Rightarrow> [] | Some e \<Rightarrow> [(''exclusions'', strings e)])
         @ (case lint of None \<Rightarrow> [] | Some b \<Rightarrow> [(''sonarlint'', JBool b)]))) of
        Inr c \<Rightarrow> c
      | Inl _ \<Rightarrow> undefined)"

theorem equal_keys_give_equal_decisions_witness:
  "getAnalyzableFilesConfigKey (sample_input None None) = getAnalyzableFilesConfigKey (sample_input (Some []) (Some True))
   \<and> getAnalyzableFilesConfigKey (sample_input None None) \<noteq> getAnalyzableFilesConfigKey (sample_input (Some [''x'']) None)
   \<and> shouldIgnoreFile (\<lambda>p f. f = p) ''/p/a.js'' ''x'' (getShouldIgnoreParams (sample_input None None))
     = shouldIgnoreFile (\<lambda>p f. f = p) ''/p/a.js'' ''x'' (getShouldIgnoreParams (sample_input (Some []) (Some True)))"
proof -
  have k: "getAnalyzableFilesConfigKey (sample_input None None) = getAnalyzableFilesConfigKey (sample_input (Some []) (Some True))"
    by code_simp
  have b: "cfg_baseDir (sample_input None None) = cfg_baseDir (sample_input (Some []) (Some True))" by code_simp
  have "getAnalyzableFilesConfigKey (sample_input None None) \<noteq> getAnalyzableFilesConfigKey (sample_input (Some [''x'']) None)"
    by code_simp
  then show ?thesis using k equal_keys_give_equal_decisions [OF k b] by blast
qed

text \<open>
  For normalized paths, being under a directory is having its segments as a prefix, for every
  directory but the root: nothing except the root itself is under the root.
\<close>

theorem under_directory_is_prefix:
  assumes "clean f" "clean d"
  shows "fileIsUnder (abs_path f) [abs_path d] \<longleftrightarrow> (if d = [] then f = [] else prefix d f)"
  by (rule fileIsUnder_iff) (use assms in auto)

theorem under_directory_is_prefix_witness:
  "fileIsUnder ''/p/src/a.js'' [''/p/src''] \<and> \<not> fileIsUnder ''/p/src2/a.js'' [''/p/src'']
   \<and> \<not> fileIsUnder ''/p/a.js'' [''/'']"
proof -
  have c: "clean [''p'', ''src'', ''a.js'']" "clean [''p'', ''src'']" "clean [''p'', ''src2'', ''a.js'']"
    "clean [''p'', ''a.js'']" "clean []" by code_simp+
  show ?thesis
    using under_directory_is_prefix [OF c(1,2)] under_directory_is_prefix [OF c(3,2)]
      under_directory_is_prefix [OF c(4,5)] by (simp add: abs_path_def)
qed

text \<open>With the root as the base directory and no other sources, no file is found.\<close>

lemma root_sources_match_nothing:
  assumes "clean f" "f \<noteq> []" "fp_sourcesPaths p = [ROOT_PATH]" "fp_testPaths p = []"
  shows "filterPathAndGetFileType glob (abs_path f) p = None"
proof -
  have "\<not> fileIsUnder (abs_path f) [ROOT_PATH]"
    using fileIsUnder_iff [OF assms(1), of "[]"] assms(2) by (simp add: abs_path_def ROOT_PATH_def)
  moreover have "\<not> fileIsUnder x []" for x by (simp add: fileIsUnder_def)
  ultimately show ?thesis
    by (simp add: filterPathAndGetFileType_def matchesTestPath_def matchesMainPath_def assms(3,4))
qed

section \<open>Numbers\<close>

lemma uint_word_cat_32: "uint (word_cat high low :: 64 word) = uint high * 2 ^ 32 + uint (low :: 32 word)"
  for high :: "32 word"
proof -
  have len: "LENGTH(64) = 64" "LENGTH(32) = 32" by simp_all
  have h: "uint high < 2 ^ 32" "uint low < 2 ^ 32" "0 \<le> uint high" "0 \<le> uint low"
    using uint_lt2p [of high] uint_lt2p [of low] by simp_all
  have "uint (word_cat high low :: 64 word) = take_bit 64 (concat_bit 32 (uint low) (uint high))"
    by (simp only: word_cat_eq' uint_word_of_int_eq len)
  also have "concat_bit 32 (uint low) (uint high) = uint low + uint high * 2 ^ 32"
    using h by (simp add: concat_bit_eq push_bit_eq_mult take_bit_eq_mod)
  finally show ?thesis using h by (simp add: take_bit_eq_mod)
qed

lemma sint_via_uint:
  "sint (w :: 32 word) = (if uint w < 2 ^ 31 then uint w else uint w - 2 ^ 32)"
  "sint (v :: 64 word) = (if uint v < 2 ^ 63 then uint v else uint v - 2 ^ 64)"
proof -
  have m: "(x + 2 ^ n) mod 2 ^ Suc n - 2 ^ n = (if x < 2 ^ n then x else x - 2 ^ Suc n)"
    if "0 \<le> x" "x < 2 ^ Suc n" for x :: int and n
  proof (cases "x < 2 ^ n")
    case False
    then have "(x + 2 ^ n) mod 2 ^ Suc n = (x - 2 ^ n + 2 ^ Suc n) mod 2 ^ Suc n" by (simp add: add.commute)
    also have "\<dots> = x - 2 ^ n" using that False by (subst mod_add_self2) (simp add: mod_pos_pos_trivial)
    finally show ?thesis using False by simp
  qed (use that in simp)
  show "sint w = (if uint w < 2 ^ 31 then uint w else uint w - 2 ^ 32)"
    using m [of "uint w" 31] uint_lt2p [of w]
    by (simp add: sint_uint signed_take_bit_eq_take_bit_shift take_bit_eq_mod)
  show "sint v = (if uint v < 2 ^ 63 then uint v else uint v - 2 ^ 64)"
    using m [of "uint v" 63] uint_lt2p [of v]
    by (simp add: sint_uint signed_take_bit_eq_take_bit_shift take_bit_eq_mod)
qed

lemma ulp_exponent_small [simp]: "n < 2 ^ 53 \<Longrightarrow> ulp_exponent n = 0"
  by (simp add: ulp_exponent.simps)

lemma ulp_exponent_step: "2 ^ 53 \<le> n \<Longrightarrow> ulp_exponent n = Suc (ulp_exponent (n div 2))"
  by (subst ulp_exponent.simps) simp

lemma ulp_exponent_le: "n < 2 ^ (53 + k) \<Longrightarrow> ulp_exponent n \<le> k"
proof (induction k arbitrary: n)
  case (Suc k)
  then have "n < 2 * 2 ^ (53 + k)" by (simp only: add_Suc_right power_Suc)
  then have "n div 2 < 2 ^ (53 + k)" by presburger
  from Suc.IH [OF this] show ?case by (cases "n < 2 ^ 53") (simp_all add: ulp_exponent_step)
qed simp

lemma ulp_exponent_bound: "2 ^ 53 \<le> n \<Longrightarrow> 2 ^ (52 + ulp_exponent n) \<le> n"
proof (induction n rule: ulp_exponent.induct)
  case (1 n)
  show ?case
  proof (cases "n div 2 < 2 ^ 53")
    case True
    then show ?thesis using "1.prems" by (simp add: ulp_exponent_step)
  next
    case False
    then have "2 ^ (52 + ulp_exponent (n div 2)) \<le> n div 2" using "1.IH" "1.prems" by simp
    then have "2 * 2 ^ (52 + ulp_exponent (n div 2)) \<le> n" by presburger
    then show ?thesis by (simp only: ulp_exponent_step [OF "1.prems"] add_Suc_right power_Suc)
  qed
qed

lemma round_magnitude_small [simp]: "n < 2 ^ 53 \<Longrightarrow> round_magnitude n = n"
  by (simp add: round_magnitude_def)

text \<open>A double is at most half a unit in the last place away from the integer it stands for.\<close>

lemma round_magnitude_nearest: "2 * \<bar>round_magnitude n - n\<bar> \<le> 2 ^ ulp_exponent n"
proof -
  define u :: int where "u = 2 ^ ulp_exponent n"
  have n: "n = n div u * u + n mod u" by simp
  have r: "0 \<le> n mod u" "n mod u < u" by (simp_all add: u_def)
  have "round_magnitude n = n div u * u
      + (if 2 * (n mod u) < u \<or> 2 * (n mod u) = u \<and> even (n div u) then 0 else u)"
    by (simp add: round_magnitude_def u_def Let_def algebra_simps)
  then have "round_magnitude n - n
      = (if 2 * (n mod u) < u \<or> 2 * (n mod u) = u \<and> even (n div u) then 0 else u) - n mod u"
    using n by linarith
  then have "2 * \<bar>round_magnitude n - n\<bar> \<le> u" using r by auto
  then show ?thesis by (simp add: u_def)
qed

lemma round_magnitude_exact:
  assumes "a < 2 ^ 53"
  shows "round_magnitude (a * 2 ^ k) = a * 2 ^ k"
proof -
  have "a * 2 ^ k < 2 ^ (53 + k)" using assms by (simp add: power_add)
  then have "2 ^ ulp_exponent (a * 2 ^ k) dvd a * 2 ^ k"
    by (intro dvd_mult le_imp_power_dvd ulp_exponent_le)
  then show ?thesis by (simp add: round_magnitude_def)
qed

lemma round_magnitude_large:
  assumes "2 ^ 53 \<le> n"
  shows "2 ^ 53 \<le> round_magnitude n"
proof -
  define u :: int where "u = 2 ^ ulp_exponent n"
  have u: "2 \<le> u" by (simp add: u_def ulp_exponent_step [OF assms])
  have "2 ^ 52 * u \<le> n" using ulp_exponent_bound [OF assms] by (simp add: u_def power_add)
  then have "2 ^ 52 * u div u \<le> n div u" using u by (intro zdiv_mono1) auto
  then have "2 ^ 52 \<le> n div u" using u by simp
  then have "2 ^ 52 * 2 \<le> n div u * u" using u by (intro mult_mono) auto
  moreover have "n div u * u \<le> round_magnitude n"
    using u by (simp add: round_magnitude_def u_def [symmetric] Let_def algebra_simps)
  ultimately show ?thesis by simp
qed

lemma round_double_small: "\<bar>x\<bar> \<le> MAX_SAFE_INTEGER \<Longrightarrow> round_double x = x"
  by (simp add: round_double_def MAX_SAFE_INTEGER_def)

lemma round_double_large: "\<bar>x\<bar> > MAX_SAFE_INTEGER \<Longrightarrow> \<bar>round_double x\<bar> > MAX_SAFE_INTEGER"
  using round_magnitude_large [of "\<bar>x\<bar>"] by (auto simp: round_double_def MAX_SAFE_INTEGER_def)

lemma round_double_exact: "\<bar>a\<bar> < 2 ^ 53 \<Longrightarrow> round_double (a * 2 ^ k) = a * 2 ^ k"
  using round_magnitude_exact [of a k] round_magnitude_exact [of "- a" k] by (auto simp: round_double_def)

lemma int64_value_halves:
  "int64_value low high uns = (if uns then uint high else sint high) * 2 ^ 32 + uint low"
proof -
  have "uint low < 2 ^ 32" "0 \<le> uint low" using uint_lt2p [of low] by simp_all
  then have "sint (word_cat high low :: 64 word) = sint high * 2 ^ 32 + uint low"
    unfolding sint_via_uint uint_word_cat_32 by (simp, use uint_ge_0 [of low] in linarith)
  then show ?thesis by (simp add: int64_value_def uint_word_cat_32)
qed

lemma structured_clone_rounds_once:
  "toNumberFromStructuredCloneLong low high uns = long_toNumber low high uns"
proof -
  define h where "h = (if uns then uint high else sint high)"
  have "\<bar>h\<bar> < 2 ^ 53"
    using uint_lt2p [of high] uint_ge_0 [of high] by (auto simp: h_def sint_via_uint)
  from round_double_exact [OF this, of 32] show ?thesis
    by (simp add: toNumberFromStructuredCloneLong_def long_toNumber_def int64_value_halves h_def Let_def)
qed

text \<open>A value that no double has is rounded: the halves 0x200000 and 1 spell 2 ^ 53 + 1.\<close>

lemma large_int64_is_rounded:
  "int64_value 1 0x200000 True = 2 ^ 53 + 1" "toNumberFromStructuredCloneLong 1 0x200000 True = 2 ^ 53"
  by code_simp+

text \<open>
  C22. A 64-bit number survives the copy to the worker: the object without methods is converted to
  the same double as the original one, with the same answer. The answer is the integer the two halves
  spell when that is a safe integer; every other integer is rejected, the rounding of the
  double notwithstanding.
\<close>

theorem structured_clone_keeps_int64:
  "toNumberFromStructuredCloneLong low high uns = long_toNumber low high uns
   \<and> toOptionalNumber (Some (StructuredCloneLongLike low high uns)) path
     = toOptionalNumber (Some (LongLike low high uns)) path
   \<and> toOptionalNumber (Some (StructuredCloneLongLike low high uns)) path
     = (if \<bar>int64_value low high uns\<bar> \<le> 2 ^ 53 - 1 then Inr (Some (int64_value low high uns))
        else Inl (InvalidRequestError (path @ '' must be a safe integer'')))"
proof (cases "\<bar>int64_value low high uns\<bar> \<le> MAX_SAFE_INTEGER")
  case True
  from round_double_small [OF this] True show ?thesis
    by (simp add: toOptionalNumber_def structured_clone_rounds_once long_toNumber_def MAX_SAFE_INTEGER_def)
next
  case False
  then show ?thesis using round_double_large [of "int64_value low high uns"]
    by (simp add: toOptionalNumber_def structured_clone_rounds_once long_toNumber_def MAX_SAFE_INTEGER_def)
qed

section \<open>Files of a request\<close>

definition entry_path :: "'e request_env \<Rightarrow> configuration \<Rightarrow> file_input \<Rightarrow> string" where
  "entry_path env c inp = normalizeToAbsolutePath (env_cwd env) (fi_filePath inp) (cfg_baseDir c)"

definition entry_content :: "'e request_env \<Rightarrow> configuration \<Rightarrow> file_input \<Rightarrow> 'e request_error + string" where
  "entry_content env c inp =
     (case fi_fileContent inp of
        None \<Rightarrow> readFile_content env (entry_path env c inp)
      | Some content \<Rightarrow> Inr (stripBOM (env_bom env) content))"

definition kept :: "'e request_env \<Rightarrow> configuration \<Rightarrow> file_input \<Rightarrow> string \<Rightarrow> bool" where
  "kept env c inp content \<longleftrightarrow> entry_content env c inp = Inr content
     \<and> \<not> shouldIgnoreFile (env_glob env) (entry_path env c inp) content (getShouldIgnoreParams c)"

text \<open>What the loop has built from the entries \<open>S\<close> it has seen.\<close>

definition sanitized ::
  "'e request_env \<Rightarrow> configuration \<Rightarrow> (string \<times> file_input) set \<Rightarrow> analyzable_files \<Rightarrow> path_map \<Rightarrow> bool" where
  "sanitized env c S files pathMap \<longleftrightarrow>
     dom (map_of pathMap) = dom (map_of files)
     \<and> dom (map_of files) = {entry_path env c inp |key inp content. (key, inp) \<in> S \<and> kept env c inp content}
     \<and> (\<forall>p key. map_of pathMap p = Some key \<longrightarrow>
          (\<exists>inp content. (key, inp) \<in> S \<and> kept env c inp content \<and> p = entry_path env c inp
             \<and> map_of files p = Some (sanitized_file env c inp p content)))"

lemma sanitized_skip:
  assumes "sanitized env c S files pathMap" "\<And>content. \<not> kept env c inp content"
  shows "sanitized env c (insert (key, inp) S) files pathMap"
proof -
  have "{entry_path env c i |k i t. (k, i) \<in> insert (key, inp) S \<and> kept env c i t}
      = {entry_path env c i |k i t. (k, i) \<in> S \<and> kept env c i t}"
    using assms(2) by auto
  moreover have "\<exists>i t. (k, i) \<in> insert (key, inp) S \<and> kept env c i t \<and> q = entry_path env c i
      \<and> map_of files q = Some (sanitized_file env c i q t)" if "map_of pathMap q = Some k" for q k
    using assms(1) that unfolding sanitized_def by (meson insertCI)
  ultimately show ?thesis using assms(1) unfolding sanitized_def by simp
qed

lemma sanitized_add:
  assumes inv: "sanitized env c S files pathMap" and kept: "kept env c inp content"
  defines "p \<equiv> entry_path env c inp"
  shows "sanitized env c (insert (key, inp) S)
     (js_set p (sanitized_file env c inp p content) files) (js_set p key pathMap)"
proof -
  have "dom (map_of (js_set p key pathMap)) = insert p (dom (map_of pathMap))"
    "dom (map_of (js_set p (sanitized_file env c inp p content) files)) = insert p (dom (map_of files))"
    by (simp_all add: update_conv')
  moreover have "{entry_path env c i |k i t. (k, i) \<in> insert (key, inp) S \<and> kept env c i t}
      = insert p {entry_path env c i |k i t. (k, i) \<in> S \<and> kept env c i t}"
    using kept by (auto simp: p_def)
  moreover have "\<exists>i t. (k, i) \<in> insert (key, inp) S \<and> kept env c i t \<and> q = entry_path env c i
      \<and> map_of (js_set p (sanitized_file env c inp p content) files) q = Some (sanitized_file env c i q t)"
    if "map_of (js_set p key pathMap) q = Some k" for q k
  proof (cases "q = p")
    case True
    then have "k = key" using that by (simp add: update_conv')
    then show ?thesis using kept True by (auto simp: p_def update_conv')
  next
    case False
    then have "map_of pathMap q = Some k" using that by (simp add: update_conv')
    then obtain i t where "(k, i) \<in> S" "kept env c i t" "q = entry_path env c i"
      "map_of files q = Some (sanitized_file env c i q t)"
      using inv unfolding sanitized_def by meson
    then show ?thesis using False by (intro exI [of _ i] exI [of _ t]) (simp add: update_conv')
  qed
  ultimately show ?thesis using inv unfolding sanitized_def by simp
qed

lemma sanitize_loop_step:
  "sanitize_loop env c ((key, inp) # rest) files pathMap =
     bind_result (entry_content env c inp) (\<lambda>content.
       if shouldIgnoreFile (env_glob env) (entry_path env c inp) content (getShouldIgnoreParams c)
       then sanitize_loop env c rest files pathMap
       else sanitize_loop env c rest
         (js_set (entry_path env c inp) (sanitized_file env c inp (entry_path env c inp) content) files)
         (js_set (entry_path env c inp) key pathMap))"
  by (simp only: sanitize_loop.simps Let_def entry_content_def entry_path_def)

lemma sanitize_loop_sanitized:
  "sanitize_loop env c es files pathMap = Inr (files', pathMap') \<Longrightarrow> sanitized env c S files pathMap
   \<Longrightarrow> sanitized env c (S \<union> set es) files' pathMap'"
proof (induction es arbitrary: files pathMap S)
  case (Cons e es)
  obtain key inp where e: "e = (key, inp)" by (cases e)
  have run: "sanitize_loop env c ((key, inp) # es) files pathMap = Inr (files', pathMap')"
    using Cons.prems(1) by (simp only: e)
  obtain content where content: "entry_content env c inp = Inr content"
    using run unfolding sanitize_loop_step by (cases "entry_content env c inp") simp_all
  have S: "insert (key, inp) S \<union> set es = S \<union> set (e # es)" by (simp add: e)
  show ?case
  proof (cases "shouldIgnoreFile (env_glob env) (entry_path env c inp) content (getShouldIgnoreParams c)")
    case True
    then have "sanitize_loop env c es files pathMap = Inr (files', pathMap')"
      using run unfolding sanitize_loop_step content by simp
    moreover have "sanitized env c (insert (key, inp) S) files pathMap"
      using True content by (intro sanitized_skip Cons.prems(2)) (auto simp: kept_def)
    ultimately show ?thesis using Cons.IH unfolding S [symmetric] by blast
  next
    case False
    then have k: "kept env c inp content" using content by (simp add: kept_def)
    from False show ?thesis
      using Cons.IH [OF _ sanitized_add [OF Cons.prems(2) k], of key] run
      unfolding sanitize_loop_step content S [symmetric] by simp
  qed
qed simp

lemma sanitize_loop_reads:
  "sanitize_loop env c es files pathMap = Inr r \<Longrightarrow> (key, inp) \<in> set es
   \<Longrightarrow> \<exists>content. entry_content env c inp = Inr content"
proof (induction es arbitrary: files pathMap)
  case (Cons e es)
  obtain k i where e: "e = (k, i)" by (cases e)
  show ?case
  proof (cases "entry_content env c i")
    case (Inl x)
    then show ?thesis using Cons.prems(1) unfolding e sanitize_loop_step by simp
  next
    case (Inr content)
    show ?thesis
    proof (cases "(key, inp) = e")
      case False
      have "\<exists>fs pm. sanitize_loop env c es fs pm = Inr r"
        using Cons.prems(1) unfolding e sanitize_loop_step Inr
        by (cases "shouldIgnoreFile (env_glob env) (entry_path env c i) content (getShouldIgnoreParams c)") auto
      then show ?thesis using Cons.IH Cons.prems(2) False by auto
    qed (use Inr e in simp)
  qed
qed simp

text \<open>
  C20. The files of an analysis are those of the request that were read and are not ignored: each
  is filed under its normalized path, carries the content and the types computed for it, and the
  path map leads back to a key of the request with that path.
\<close>

theorem analyzed_files_trace_to_request:
  assumes "sanitizeInputFiles env (Some m) c = Inr (files, pathMap)"
  shows "(\<forall>p af. map_of files p = Some af \<longrightarrow>
        (\<exists>key inp content. map_of pathMap p = Some key \<and> (key, inp) \<in> set m
           \<and> entry_content env c inp = Inr content
           \<and> p = normalizeToAbsolutePath (env_cwd env) (fi_filePath inp) (cfg_baseDir c)
           \<and> \<not> shouldIgnoreFile (env_glob env) p content (getShouldIgnoreParams c)
           \<and> af = sanitized_file env c inp p content))
    \<and> (\<forall>(key, inp)\<in>set m. \<exists>content. entry_content env c inp = Inr content
        \<and> (entry_path env c inp \<in> dom (map_of files)
           \<or> shouldIgnoreFile (env_glob env) (entry_path env c inp) content (getShouldIgnoreParams c)))"
proof (intro conjI allI impI ballI)
  have run: "sanitize_loop env c (object_entries m) [] [] = Inr (files, pathMap)"
    using assms by (simp add: sanitizeInputFiles_def)
  have "sanitized env c {} [] []" by (simp add: sanitized_def)
  from sanitize_loop_sanitized [OF run this]
  have inv: "sanitized env c (set m) files pathMap" by simp
  {
    fix p af
    assume af: "map_of files p = Some af"
    then have "p \<in> dom (map_of pathMap)" using inv unfolding sanitized_def by blast
    then obtain key where key: "map_of pathMap p = Some key" by blast
    then obtain inp content where "(key, inp) \<in> set m" "kept env c inp content" "p = entry_path env c inp"
      "map_of files p = Some (sanitized_file env c inp p content)"
      using inv unfolding sanitized_def by meson
    then show "\<exists>key inp content. map_of pathMap p = Some key \<and> (key, inp) \<in> set m
           \<and> entry_content env c inp = Inr content
           \<and> p = normalizeToAbsolutePath (env_cwd env) (fi_filePath inp) (cfg_baseDir c)
           \<and> \<not> shouldIgnoreFile (env_glob env) p content (getShouldIgnoreParams c)
           \<and> af = sanitized_file env c inp p content"
      using key af by (auto simp: kept_def entry_path_def)
  }
  {
    fix x assume x: "x \<in> set m"
    obtain key inp where e: "x = (key, inp)" by (cases x)
    obtain content where content: "entry_content env c inp = Inr content"
      using sanitize_loop_reads [OF run] x e by auto
    have "entry_path env c inp \<in> dom (map_of files)" if "kept env c inp content"
      using inv that x unfolding e sanitized_def by blast
    then show "case x of (key, inp) \<Rightarrow> \<exists>content. entry_content env c inp = Inr content
        \<and> (entry_path env c inp \<in> dom (map_of files)
           \<or> shouldIgnoreFile (env_glob env) (entry_path env c inp) content (getShouldIgnoreParams c))"
      using content by (auto simp: e kept_def)
  }
qed

definition sample_env :: "string request_env" where
  "sample_env = \<lparr>env_cwd = ''/'', env_glob = (\<lambda>p f. f = p), env_angular = (\<lambda>f d. False),
     env_bom = (\<lambda>c. False),
     env_read = (\<lambda>f. if f = ''/p/b.ts'' then Inr ''b'' else Inl ''ENOENT'')\<rparr>"

definition sample_files :: "(string, file_input) js_map" where
  "sample_files =
     [(''src/../a.js'', \<lparr>fi_filePath = ''src/../a.js'', fi_fileContent = Some ''a'', fi_fileType = None, fi_fileStatus = None\<rparr>),
      (''b.ts'', \<lparr>fi_filePath = ''b.ts'', fi_fileContent = None, fi_fileType = Some FileTest, fi_fileStatus = None\<rparr>),
      (''c.min.js'', \<lparr>fi_filePath = ''c.min.js'', fi_fileContent = Some ''c'', fi_fileType = None, fi_fileStatus = None\<rparr>)]"

theorem analyzed_files_trace_to_request_witness:
  "\<exists>files pathMap. sanitizeInputFiles sample_env (Some sample_files) (sample_input None None) = Inr (files, pathMap)
     \<and> map_of pathMap ''/p/a.js'' = Some ''src/../a.js'' \<and> map_of files ''/p/c.min.js'' = None
     \<and> (\<forall>(key, inp)\<in>set sample_files. \<exists>content. entry_content sample_env (sample_input None None) inp = Inr content
        \<and> (entry_path sample_env (sample_input None None) inp \<in> dom (map_of files)
           \<or> shouldIgnoreFile (env_glob sample_env) (entry_path sample_env (sample_input None None) inp) content
               (getShouldIgnoreParams (sample_input None None))))"
proof -
  let ?r = "sanitizeInputFiles sample_env (Some sample_files) (sample_input None None)"
  have "case ?r of Inl _ \<Rightarrow> False
    | Inr (files, pathMap) \<Rightarrow> map_of pathMap ''/p/a.js'' = Some ''src/../a.js'' \<and> map_of files ''/p/c.min.js'' = None"
    by code_simp
  then obtain files pathMap where "?r = Inr (files, pathMap)" "map_of pathMap ''/p/a.js'' = Some ''src/../a.js''"
    "map_of files ''/p/c.min.js'' = None"
    by (cases ?r) auto
  then show ?thesis using analyzed_files_trace_to_request [of sample_env sample_files "sample_input None None" files pathMap]
    by blast
qed

section \<open>Rejected requests\<close>

text \<open>A computation that succeeds only when \<open>ok\<close> holds, and is an invalid request only when it does not.\<close>

definition decides :: "('e request_error + 'a) \<Rightarrow> bool \<Rightarrow> bool" where
  "decides r ok \<longleftrightarrow> (\<forall>a. r = Inr a \<longrightarrow> ok) \<and> (\<forall>msg. r = Inl (InvalidRequestError msg) \<longrightarrow> \<not> ok)"

lemma decides_simps [simp]:
  "decides (Inr a) ok = ok" "decides (Inl (InvalidRequestError msg)) ok = (\<not> ok)" "decides (Inl (OtherError e)) ok"
  by (auto simp: decides_def)

lemma decides_bind:
  assumes "decides r ok1" "\<And>a. r = Inr a \<Longrightarrow> decides (f a) ok2"
  shows "decides (bind_result r f) (ok1 \<and> ok2)"
  using assms by (cases r) (auto simp: decides_def)

lemma decides_bind_pure:
  assumes "decides r ok" shows "decides (bind_result r (\<lambda>a. Inr (f a))) ok"
  using decides_bind [OF assms, of "\<lambda>a. Inr (f a)" True] by simp

lemma decides_map:
  assumes "\<And>x. x \<in> set xs \<Longrightarrow> decides (f x) (ok x)"
  shows "decides (map_result f xs) (\<forall>x\<in>set xs. ok x)"
  using assms
proof (induction xs)
  case (Cons x xs)
  then have "decides (f x) (ok x)" "decides (map_result f xs) (\<forall>y\<in>set xs. ok y)" by simp_all
  then show ?case by (cases "f x"; cases "map_result f xs") (auto simp: decides_def)
qed simp

definition in_range :: "int \<Rightarrow> int \<Rightarrow> int option \<Rightarrow> bool" where
  "in_range low high n = (case n of None \<Rightarrow> low \<le> 0 | Some k \<Rightarrow> low \<le> k \<and> k \<le> high)"

lemma decides_enums:
  "decides (normalizeAnalysisMode m) (in_range 0 2 m)" "decides (normalizeFileType m) (in_range 0 2 m)"
  "decides (normalizeFileStatus m) (in_range 0 3 m)"
  by (auto simp: decides_def in_range_def normalizeAnalysisMode_def normalizeFileType_def normalizeFileStatus_def
      split: option.splits if_splits)

lemma decides_required_enums:
  "decides (normalizeRequiredFileType (Some t) p) (in_range 1 2 (Some t))"
  "decides (normalizeRequiredAnalysisMode (Some t) p) (in_range 1 2 (Some t))"
  by (auto simp: decides_def in_range_def required_def normalizeRequiredFileType_def normalizeFileType_def
      normalizeRequiredAnalysisMode_def normalizeAnalysisMode_def bind_result_Inl_iff split: option.splits if_splits)

definition safe_number :: "proto_number option \<Rightarrow> bool" where
  "safe_number n \<longleftrightarrow> \<not> isl (toOptionalNumber n '''' :: unit request_error + int option)"

lemma decides_number: "decides (toOptionalNumber n path) (safe_number n)"
  by (auto simp: decides_def safe_number_def toOptionalNumber_def Let_def split: option.splits js_number.splits if_splits)

definition valid_configuration :: "project_configuration option \<Rightarrow> bool" where
  "valid_configuration pc =
     (case pc of
        None \<Rightarrow> False
      | Some c \<Rightarrow> (case pc_baseDir c of None \<Rightarrow> False | Some d \<Rightarrow> d \<noteq> '''' \<and> isAbsolutePath d)
          \<and> in_range 0 2 (pc_analysisMode c) \<and> safe_number (pc_maxFileSize c))"

definition valid_file :: "string \<times> project_file_input \<Rightarrow> bool" where
  "valid_file e \<longleftrightarrow> fst e \<noteq> '''' \<and> in_range 0 2 (pf_fileType (snd e)) \<and> in_range 0 3 (pf_fileStatus (snd e))"

definition valid_rule :: "jsts_rule \<Rightarrow> bool" where
  "valid_rule r \<longleftrightarrow> truthy_string (jr_key r) \<noteq> None
     \<and> (case jr_language r of None \<Rightarrow> False | Some l \<Rightarrow> 1 \<le> l \<and> l \<le> 2)
     \<and> (\<forall>t\<in>set (nullish (jr_fileTypeTargets r) []). in_range 1 2 (Some t))
     \<and> (\<forall>m\<in>set (nullish (jr_analysisModes r) []). in_range 1 2 (Some m))"

definition can_access :: "project_configuration option \<Rightarrow> bool" where
  "can_access pc = (case pc of None \<Rightarrow> True | Some c \<Rightarrow> nullish (pc_canAccessFileSystem c) True)"

definition well_formed_request :: "analyze_project_request \<Rightarrow> bool" where
  "well_formed_request r \<longleftrightarrow>
     valid_configuration (rq_configuration r)
     \<and> (hasExplicitFiles (rq_files r) (can_access (rq_configuration r))
        \<longrightarrow> (\<forall>e\<in>set (nullish (rq_files r) []). valid_file e))
     \<and> (\<forall>rule\<in>set (nullish (rq_rules r) []). valid_rule rule)
     \<and> (\<forall>rule\<in>set (nullish (rq_cssRules r) []). truthy_string (cr_key rule) \<noteq> None)"

lemma decides_configuration: "decides (createConfigurationFromProto cwd pc) (valid_configuration pc)"
proof (cases pc)
  case (Some c)
  show ?thesis
  proof (cases "truthy_string (pc_baseDir c)")
    case None
    then have "\<not> valid_configuration pc"
      by (auto simp: valid_configuration_def Some truthy_string_def split: option.splits if_splits)
    then show ?thesis by (simp add: createConfigurationFromProto_def Some None)
  next
    case base: (Some d)
    then have d: "pc_baseDir c = Some d" "d \<noteq> ''''" by (auto simp: truthy_string_def split: option.splits if_splits)
    let ?last = "\<lambda>i. case createConfigurationFromInput cwd i of
        Inr configuration \<Rightarrow> Inr configuration | Inl e \<Rightarrow> Inl (InvalidRequestError (config_message e))"
    have last: "decides (?last i) (isAbsolutePath d)" if "in_baseDir i = d" for i
      using that by (auto simp: createConfigurationFromInput_def Let_def)
    have "valid_configuration pc \<longleftrightarrow> in_range 0 2 (pc_analysisMode c) \<and> safe_number (pc_maxFileSize c) \<and> isAbsolutePath d"
      using d by (auto simp: valid_configuration_def Some)
    then show ?thesis
      unfolding createConfigurationFromProto_def Some base option.case
      by (simp only:) (intro decides_bind decides_enums decides_number last, simp)
  qed
qed (simp add: createConfigurationFromProto_def valid_configuration_def)

lemma configuration_access:
  "createConfigurationFromProto cwd pc = Inr c \<Longrightarrow> cfg_canAccessFileSystem c = can_access pc"
  by (auto simp: createConfigurationFromProto_def createConfigurationFromInput_def Let_def can_access_def optionalBoolean_def
      split: option.splits if_splits sum.splits)

lemma decides_if: "(b \<Longrightarrow> decides r ok) \<Longrightarrow> (\<not> b \<Longrightarrow> decides q True) \<Longrightarrow> decides (if b then r else q) (b \<longrightarrow> ok)"
  by auto

lemma decides_files: "decides (normalizeProtoInputFiles files) (\<forall>e\<in>set (nullish files []). valid_file e)"
proof -
  have "decides ((\<lambda>(filePathKey, fileInput).
            if filePathKey = '''' then Inl (InvalidRequestError ''files contains an empty file path'')
            else bind_result (normalizeFileType (pf_fileType fileInput)) (\<lambda>fileType.
                 bind_result (normalizeFileStatus (pf_fileStatus fileInput)) (\<lambda>fileStatus.
                   Inr (filePathKey,
                     \<lparr>fi_filePath = filePathKey, fi_fileContent = optionalString (pf_fileContent fileInput),
                      fi_fileType = fileType, fi_fileStatus = fileStatus\<rparr>)))) e) (valid_file e)" for e
  proof (cases "fst e = ''''")
    case False
    have "decides (bind_result (normalizeFileType t) (\<lambda>a. bind_result (normalizeFileStatus st) (\<lambda>b. Inr (f a b))))
        (in_range 0 2 t \<and> in_range 0 3 st)" for t st f
      by (intro decides_bind decides_bind_pure decides_enums)
    then show ?thesis using False by (auto simp: valid_file_def split: prod.splits)
  qed (auto simp: valid_file_def split: prod.splits)
  note step = this
  have m: "decides (map_result f (object_entries es)) (\<forall>x\<in>set es. ok x)" if "\<And>x. decides (f x) (ok x)"
    for f :: "string \<times> project_file_input \<Rightarrow> 'b request_error + 'c" and ok es
    using decides_map [of "object_entries es" f ok] that by simp
  show ?thesis
    unfolding normalizeProtoInputFiles_def by (rule decides_bind_pure, rule m, rule step)
qed

lemma sanitize_not_invalid: "decides (sanitizeInputFiles env m c) True"
proof -
  have "sanitize_loop env c es fs pm \<noteq> Inl (InvalidRequestError msg)" for es fs pm msg
  proof (induction es arbitrary: fs pm)
    case (Cons e es)
    obtain k i where e: "e = (k, i)" by (cases e)
    have "entry_content env c i \<noteq> Inl (InvalidRequestError msg)"
      by (auto simp: entry_content_def readFile_content_def split: option.splits sum.splits)
    then show ?case unfolding e sanitize_loop_step using Cons.IH
      by (cases "entry_content env c i") auto
  qed simp
  then show ?thesis by (auto simp: decides_def sanitizeInputFiles_def split: option.splits)
qed

lemma decides_enumerate:
  assumes "\<And>i x. x \<in> set xs \<Longrightarrow> decides (f (i, x)) (ok x)"
  shows "decides (map_result f (enumerate 0 xs)) (\<forall>x\<in>set xs. ok x)"
proof -
  have set: "set xs = snd ` set (enumerate 0 xs)" by (simp flip: set_map)
  then have "decides (map_result f (enumerate 0 xs)) (\<forall>e\<in>set (enumerate 0 xs). ok (snd e))"
    using assms by (intro decides_map) (metis image_eqI prod.collapse)
  then show ?thesis by (simp add: set)
qed

lemma decides_rule: "decides (normalizeJsTsRule (i, r)) (valid_rule r)"
proof (cases "truthy_string (jr_key r)")
  case (Some key)
  have targets: "decides (map_result (\<lambda>(i, t). normalizeRequiredFileType (Some t) (p i)) (enumerate 0 xs))
      (\<forall>t\<in>set xs. in_range 1 2 (Some t))"
    and modes: "decides (map_result (\<lambda>(i, t). normalizeRequiredAnalysisMode (Some t) (p i)) (enumerate 0 xs))
      (\<forall>t\<in>set xs. in_range 1 2 (Some t))" for p xs
    by (rule decides_enumerate, simp add: decides_required_enums)+
  show ?thesis
  proof (cases "jr_language r")
    case None
    then show ?thesis by (simp add: normalizeJsTsRule_def Some valid_rule_def normalizeJsTsLanguage_def)
  next
    case l: (Some n)
    consider "n = 1" | "n = 2" | "n < 1 \<or> n > 2" by linarith
    then show ?thesis
      by cases (auto simp: normalizeJsTsRule_def Some valid_rule_def normalizeJsTsLanguage_def l
          intro!: decides_bind decides_bind_pure targets modes)
  qed
qed (simp add: normalizeJsTsRule_def valid_rule_def)

lemma decides_rules:
  "decides (normalizeJsTsRules rules) (\<forall>r\<in>set (nullish rules []). valid_rule r)"
  "decides (normalizeCssRules css) (\<forall>r\<in>set (nullish css []). truthy_string (cr_key r) \<noteq> None)"
  unfolding normalizeJsTsRules_def normalizeCssRules_def
  by (rule decides_enumerate, rule decides_rule, rule decides_enumerate) (simp split: option.splits)

text \<open>
  C21. A request is accepted only when it is well formed: an absolute base directory, a safe file
  size, enumerations in their ranges, keys for files and rules. And a well-formed request is never
  reported as invalid: what can still fail is reading files and filling the file stores.
\<close>

theorem only_malformed_requests_are_invalid:
  "(\<forall>x. normalizeAnalyzeProjectRequest env init_stores r = Inr x \<longrightarrow> well_formed_request r)
   \<and> (\<forall>msg. normalizeAnalyzeProjectRequest env init_stores r = Inl (InvalidRequestError msg)
          \<longrightarrow> \<not> well_formed_request r)"
proof -
  have files: "decides (if hasExplicitFiles (rq_files r) (can_access (rq_configuration r))
        then bind_result (normalizeProtoInputFiles (rq_files r)) (\<lambda>m.
               bind_result (sanitizeInputFiles env (Some m) c) (\<lambda>r. Inr (Some r)))
        else Inr None)
      (hasExplicitFiles (rq_files r) (can_access (rq_configuration r))
        \<longrightarrow> (\<forall>e\<in>set (nullish (rq_files r) []). valid_file e) \<and> True)" for c
    by (rule decides_if, rule decides_bind, rule decides_files, rule decides_bind_pure, rule sanitize_not_invalid) simp
  have stores: "decides (case init_stores c fs of Inl e \<Rightarrow> Inl (OtherError e) | Inr stores \<Rightarrow> Inr (f stores)) True" for c fs f
    by (simp split: sum.splits)
  have "decides (normalizeAnalyzeProjectRequest env init_stores r)
     (valid_configuration (rq_configuration r)
      \<and> (hasExplicitFiles (rq_files r) (can_access (rq_configuration r))
          \<longrightarrow> (\<forall>e\<in>set (nullish (rq_files r) []). valid_file e) \<and> True)
      \<and> (\<forall>rule\<in>set (nullish (rq_rules r) []). valid_rule rule)
      \<and> (\<forall>rule\<in>set (nullish (rq_cssRules r) []). truthy_string (cr_key rule) \<noteq> None) \<and> True)"
    unfolding normalizeAnalyzeProjectRequest_def
    by (rule decides_bind, rule decides_configuration, simp only: configuration_access,
        rule decides_bind, rule files, rule decides_bind, rule decides_rules,
        rule decides_bind, rule decides_rules, rule stores)
  then show ?thesis by (auto simp: decides_def well_formed_request_def)
qed

definition sample_request :: "int option \<Rightarrow> analyze_project_request" where
  "sample_request lang =
     \<lparr>rq_configuration = Some \<lparr>pc_baseDir = Some ''/p'', pc_sonarlint = None, pc_fsEvents = Some [],
        pc_allowTsParserJsFiles = None, pc_analysisMode = Some 0, pc_skipAst = None,
        pc_ignoreHeaderComments = None, pc_maxFileSize = Some (LongLike 7 0 False),
        pc_environments = None, pc_globals = None, pc_tsSuffixes = None, pc_jsSuffixes = None,
        pc_cssSuffixes = None, pc_htmlSuffixes = None, pc_yamlSuffixes = None,
        pc_cssAdditionalSuffixes = None, pc_tsConfigPaths = Some [], pc_jsTsExclusions = None,
        pc_sources = Some [], pc_inclusions = Some [], pc_exclusions = Some [], pc_tests = Some [],
        pc_testInclusions = Some [], pc_testExclusions = Some [], pc_detectBundles = None,
        pc_detectGeneratedCode = None, pc_canAccessFileSystem = None,
        pc_createTSProgramForOrphanFiles = None, pc_disableTypeChecking = None,
        pc_skipNodeModuleLookupOutsideBaseDir = None, pc_ecmaScriptVersion = None\<rparr>,
      rq_files = Some [(''a.js'', \<lparr>pf_fileContent = Some ''a'', pf_fileType = Some 0, pf_fileStatus = Some 1\<rparr>)],
      rq_rules = Some [\<lparr>jr_key = Some ''S1'', jr_configurations = Some [], jr_fileTypeTargets = Some [1],
        jr_language = lang, jr_analysisModes = Some [1], jr_blacklistedExtensions = Some []\<rparr>],
      rq_cssRules = Some [], rq_bundles = Some [], rq_rulesWorkdir = None, rq_filesystemCache = None\<rparr>"

theorem only_malformed_requests_are_invalid_witness:
  "well_formed_request (sample_request (Some 1)) \<and> \<not> well_formed_request (sample_request (Some 0))"
proof -
  let ?r = "\<lambda>l. normalizeAnalyzeProjectRequest sample_env (\<lambda>c fs. (Inr () :: string + unit)) (sample_request l)"
  have "\<not> isl (?r (Some 1))" by code_simp
  then obtain x where "?r (Some 1) = Inr x" by (cases "?r (Some 1)") simp_all
  moreover have "(case ?r (Some 0) of Inl (InvalidRequestError m) \<Rightarrow> m = ''rules[0].language is required''
      | _ \<Rightarrow> False)" by code_simp
  then have "?r (Some 0) = Inl (InvalidRequestError ''rules[0].language is required'')"
    by (auto split: sum.splits request_error.splits)
  ultimately show ?thesis
    using only_malformed_requests_are_invalid [of sample_env "\<lambda>c fs. Inr ()" "sample_request (Some 1)"]
      only_malformed_requests_are_invalid [of sample_env "\<lambda>c fs. Inr ()" "sample_request (Some 0)"]
    by blast
qed

text \<open>
  Normalization is idempotent for a path in Unix form, whatever the directories it is
  normalized against the second time.
\<close>

theorem normalization_is_idempotent:
  assumes "posix_path p" "CHR 0x5C \<notin> set cwd" "CHR 0x5C \<notin> set baseDir"
  shows "normalizeToAbsolutePath cwd' (normalizeToAbsolutePath cwd p baseDir) baseDir'
       = normalizeToAbsolutePath cwd p baseDir"
  by (rule normalize_idem) (use assms in auto)

theorem normalization_is_idempotent_witness:
  "normalizeToAbsolutePath ''/x'' (normalizeToAbsolutePath ''/w'' ''src/../a.js'' ''p'') ''/y'' = ''/w/p/a.js''"
proof -
  have "posix_path ''src/../a.js''" by code_simp
  then have "normalizeToAbsolutePath ''/x'' (normalizeToAbsolutePath ''/w'' ''src/../a.js'' ''p'') ''/y''
      = normalizeToAbsolutePath ''/w'' ''src/../a.js'' ''p''"
    by (intro normalization_is_idempotent) simp_all
  also have "\<dots> = ''/w/p/a.js''" by code_simp
  finally show ?thesis .
qed

text \<open>Two leading slashes make a UNC root, also on a platform without them.\<close>

lemma unc_root_not_idempotent:
  "normalizeToAbsolutePath ''/'' ''//a/b'' ''/'' = ''/a/b/''"
  "normalizeToAbsolutePath ''/'' ''/a/b/'' ''/'' = ''/a/b''"
  by code_simp+

end
