(* ===== verification/Analysis_Results.thy ===== *)
theory Analysis_Results
  imports Project_Configuration Complex_Main
begin

text \<open>
  The results of an analysis: \<open>packages/analysis/src/contracts/\<close>, the issue types of the linters
  and \<open>FileResult\<close> of \<open>projectAnalysis.ts\<close>. A field that a result may lack is an option.
\<close>

section \<open>Issues\<close>

record issue_location =
  il_line :: int
  il_column :: int
  il_endLine :: int
  il_endColumn :: int
  il_message :: "string option"

record quick_fix_edit =
  qe_loc :: issue_location
  qe_text :: string

record quick_fix =
  qf_message :: string
  qf_edits :: "quick_fix_edit list"

datatype result_language = JsLanguage | TsLanguage | CssLanguage

text \<open>A \<open>JsTsIssue\<close>, or a \<open>CssIssue\<close>, which has only the common fields.\<close>

record issue =
  is_ruleId :: string
  is_line :: int
  is_column :: int
  is_message :: string
  is_endLine :: "int option"
  is_endColumn :: "int option"
  is_language :: result_language
  is_cost :: "rat option"
  is_secondaryLocations :: "issue_location list option"
  is_quickFixes :: "quick_fix list option"
  is_ruleESLintKeys :: "string list option"
  is_filePath :: "string option"

record suppressed_issue = issue +
  si_resolutionComment :: string

record sonar_resolve_comment =
  sr_line :: int
  sr_text :: string

section \<open>Errors\<close>

datatype error_code = Parsing | FailingTypeScript | Unexpected | LinterInitialization

record parsing_error =
  pe_message :: string
  pe_code :: error_code
  pe_line :: "int option"
  pe_column :: "int option"
  pe_language :: result_language

text \<open>
  What can be thrown: an \<open>APIError\<close>, another \<open>Error\<close>, or another value, given by its
  \<open>String(...)\<close>.
\<close>

datatype failure =
    ApiFailure error_code string "(int \<times> int option) option"
  | ErrorFailure string
  | ValueFailure string

section \<open>Artifacts\<close>

record artifact_location =
  al_startLine :: int
  al_startCol :: int
  al_endLine :: int
  al_endCol :: int

record syntax_highlight =
  hl_location :: artifact_location
  hl_textType :: string

record symbol_highlight =
  sh_declaration :: artifact_location
  sh_references :: "artifact_location list"

record cpd_token =
  ct_location :: artifact_location
  ct_image :: string

record metrics =
  mt_ncloc :: "int list option"
  mt_commentLines :: "int list option"
  mt_nosonarLines :: "int list option"
  mt_executableLines :: "int list option"
  mt_functions :: "int option"
  mt_statements :: "int option"
  mt_classes :: "int option"
  mt_complexity :: "int option"
  mt_cognitiveComplexity :: "int option"

section \<open>Results\<close>

record file_success =
  fr_parsingErrors :: "parsing_error list option"
  fr_issues :: "issue list"
  fr_suppressedIssues :: "suppressed_issue list option"
  fr_highlights :: "syntax_highlight list option"
  fr_highlightedSymbols :: "symbol_highlight list option"
  fr_metrics :: "metrics option"
  fr_cpdTokens :: "cpd_token list option"
  fr_ast :: "string option"
  fr_sonarResolveComments :: "sonar_resolve_comment list option"

datatype file_result = FileError string | FileSuccess file_success

text \<open>The result of an analyzer still carries the tree it has not serialized.\<close>

record 'tree unserialized_success = file_success +
  un_unserializedAst :: "'tree option"

datatype 'tree analyzer_result = AnalyzerError string | AnalyzerSuccess "'tree unserialized_success"

definition empty_success :: "issue list \<Rightarrow> parsing_error list option \<Rightarrow> 'tree unserialized_success" where
  "empty_success issues parsingErrors =
     \<lparr>fr_parsingErrors = parsingErrors, fr_issues = issues, fr_suppressedIssues = None,
      fr_highlights = None, fr_highlightedSymbols = None, fr_metrics = None, fr_cpdTokens = None,
      fr_ast = None, fr_sonarResolveComments = None, un_unserializedAst = None\<rparr>"

section \<open>Failures as results\<close>

text \<open>\<open>handleError\<close> logs the stack of an \<open>Error\<close> and keeps its message.\<close>

definition handleError :: "string \<Rightarrow> 'tree analyzer_result" where
  "handleError msg = AnalyzerError msg"

fun toProjectFailureResult :: "failure \<Rightarrow> result_language \<Rightarrow> 'tree analyzer_result" where
  "toProjectFailureResult (ApiFailure code msg data) lang =
     (if code = Unexpected then handleError msg
      else AnalyzerSuccess (empty_success []
        (Some [\<lparr>pe_message = msg, pe_code = code, pe_line = map_option fst data,
                pe_column = Option.bind data snd, pe_language = lang\<rparr>])))"
| "toProjectFailureResult (ErrorFailure msg) lang = handleError msg"
| "toProjectFailureResult (ValueFailure s) lang = AnalyzerError s"

end
