(* ===== verification/Scanner_Locations.thy ===== *)
theory Scanner_Locations
  imports Analysis_Results
begin

text \<open>
  \<open>packages/analysis/src/scanner-locations.ts\<close>: a file whose text has line or paragraph
  separators (U+2028, U+2029) is cut into other lines by the scanner than by JavaScript, so the
  locations of its results are moved. A text is a list of UTF-16 units; \<open>serialize\<close> stands for
  \<open>serializeInProtobufSafely\<close>.
\<close>

section \<open>Lines\<close>

definition LINE_FEED :: nat where
  "LINE_FEED = 0x0A"

definition CARRIAGE_RETURN :: nat where
  "CARRIAGE_RETURN = 0x0D"

definition ECMASCRIPT_ONLY_LINE_TERMINATORS :: "nat list" where
  "ECMASCRIPT_ONLY_LINE_TERMINATORS = [0x2028, 0x2029]"

definition SCANNER_LINE_ENDINGS :: "nat list" where
  "SCANNER_LINE_ENDINGS = [CARRIAGE_RETURN, LINE_FEED]"

definition ECMASCRIPT_LINE_ENDINGS :: "nat list" where
  "ECMASCRIPT_LINE_ENDINGS = SCANNER_LINE_ENDINGS @ ECMASCRIPT_ONLY_LINE_TERMINATORS"

text \<open>The ends of the matches of \<open>\r\n\<close> or one of the given units.\<close>

fun match_ends :: "nat list \<Rightarrow> nat \<Rightarrow> nat list \<Rightarrow> nat list" where
  "match_ends ends i [] = []"
| "match_ends ends i [c] = (if c \<in> set ends then [Suc i] else [])"
| "match_ends ends i (c # d # s) =
     (if c = CARRIAGE_RETURN \<and> d = LINE_FEED then (i + 2) # match_ends ends (i + 2) s
      else if c \<in> set ends then Suc i # match_ends ends (Suc i) (d # s)
      else match_ends ends (Suc i) (d # s))"

definition computeLineStarts :: "nat list \<Rightarrow> nat list \<Rightarrow> nat list" where
  "computeLineStarts source lineEndings = 0 # match_ends lineEndings 0 source"

text \<open>\<open>Math.ceil((low + high) / 2)\<close> is \<open>(low + high + 1) div 2\<close>.\<close>

function find_line_index :: "nat list \<Rightarrow> nat \<Rightarrow> nat \<Rightarrow> nat \<Rightarrow> nat" where
  "find_line_index lineStarts offset low high =
     (if low < high then
        (let middle = (low + high + 1) div 2 in
         if lineStarts ! middle \<le> offset then find_line_index lineStarts offset middle high
         else find_line_index lineStarts offset low (middle - 1))
      else low)"
  by pat_completeness auto
termination by (relation "measure (\<lambda>(_, _, low, high). high - low)") auto

declare find_line_index.simps [simp del]

definition findLineIndex :: "nat list \<Rightarrow> nat \<Rightarrow> nat" where
  "findLineIndex lineStarts offset = find_line_index lineStarts offset 0 (length lineStarts - 1)"

section \<open>The mapper\<close>

record mapper =
  mp_source :: "nat list"
  mp_ecmascriptLineStarts :: "nat list"
  mp_scannerLineStarts :: "nat list"

definition new_mapper :: "nat list \<Rightarrow> mapper" where
  "new_mapper source =
     \<lparr>mp_source = source, mp_ecmascriptLineStarts = computeLineStarts source ECMASCRIPT_LINE_ENDINGS,
      mp_scannerLineStarts = computeLineStarts source SCANNER_LINE_ENDINGS\<rparr>"

definition mapped_position :: "mapper \<Rightarrow> int \<Rightarrow> int \<Rightarrow> int \<times> int" where
  "mapped_position m line column =
     (if line < 1 \<or> line > int (length (mp_ecmascriptLineStarts m)) \<or> column < 0 then (line, column)
      else
        (let offset = mp_ecmascriptLineStarts m ! nat (line - 1) + nat column in
         if offset > length (mp_source m) then (line, column)
         else
           (let scannerLineIndex = findLineIndex (mp_scannerLineStarts m) offset
            in (int scannerLineIndex + 1, int offset - int (mp_scannerLineStarts m ! scannerLineIndex)))))"

definition mapped_line :: "mapper \<Rightarrow> int \<Rightarrow> int" where
  "mapped_line m line = fst (mapped_position m line 0)"

section \<open>Alignment\<close>

definition alignIssueLocation :: "mapper \<Rightarrow> issue_location \<Rightarrow> issue_location" where
  "alignIssueLocation m loc =
     (let (line, column) = mapped_position m (il_line loc) (il_column loc);
          (endLine, endColumn) = mapped_position m (il_endLine loc) (il_endColumn loc)
      in loc\<lparr>il_line := line, il_column := column, il_endLine := endLine, il_endColumn := endColumn\<rparr>)"

definition alignArtifactLocation :: "mapper \<Rightarrow> artifact_location \<Rightarrow> artifact_location" where
  "alignArtifactLocation m loc =
     (let (line, column) = mapped_position m (al_startLine loc) (al_startCol loc);
          (endLine, endColumn) = mapped_position m (al_endLine loc) (al_endCol loc)
      in loc\<lparr>al_startLine := line, al_startCol := column, al_endLine := endLine, al_endCol := endColumn\<rparr>)"

text \<open>\<open>[...new Set(lines)]\<close> keeps first occurrences.\<close>

definition js_unique :: "'a list \<Rightarrow> 'a list" where
  "js_unique xs = rev (remdups (rev xs))"

definition alignLines :: "mapper \<Rightarrow> int list option \<Rightarrow> int list option" where
  "alignLines m = map_option (\<lambda>ls. js_unique (map (mapped_line m) ls))"

definition alignIssue :: "mapper \<Rightarrow> 'a issue_scheme \<Rightarrow> 'a issue_scheme" where
  "alignIssue m iss =
     (let (line, column) = mapped_position m (is_line iss) (is_column iss);
          iss1 = iss\<lparr>is_line := line, is_column := column\<rparr>;
          iss2 = (case (is_endLine iss1, is_endColumn iss1) of
              (Some l, Some c) \<Rightarrow>
                (let (endLine, endColumn) = mapped_position m l c
                 in iss1\<lparr>is_endLine := Some endLine, is_endColumn := Some endColumn\<rparr>)
            | _ \<Rightarrow> iss1)
      in iss2\<lparr>is_secondaryLocations := map_option (map (alignIssueLocation m)) (is_secondaryLocations iss2),
              is_quickFixes := map_option (map (\<lambda>q. q\<lparr>qf_edits :=
                  map (\<lambda>e. e\<lparr>qe_loc := alignIssueLocation m (qe_loc e)\<rparr>) (qf_edits q)\<rparr>)) (is_quickFixes iss2)\<rparr>)"

definition alignIssues :: "mapper \<Rightarrow> 'a file_success_scheme \<Rightarrow> 'a file_success_scheme" where
  "alignIssues m r =
     r\<lparr>fr_issues := map (\<lambda>i. if is_language i \<noteq> CssLanguage then alignIssue m i else i) (fr_issues r),
       fr_suppressedIssues := map_option (map (alignIssue m)) (fr_suppressedIssues r)\<rparr>"

definition alignParsingError :: "mapper \<Rightarrow> parsing_error \<Rightarrow> parsing_error" where
  "alignParsingError m e =
     (if pe_language e = CssLanguage then e
      else case pe_line e of
        None \<Rightarrow> e
      | Some l \<Rightarrow>
          (case pe_column e of
             None \<Rightarrow> e\<lparr>pe_line := Some (mapped_line m l)\<rparr>
           | Some c \<Rightarrow>
               (let (line, column) = mapped_position m l c
                in e\<lparr>pe_line := Some line, pe_column := Some column\<rparr>)))"

definition alignParsingErrors :: "mapper \<Rightarrow> 'a file_success_scheme \<Rightarrow> 'a file_success_scheme" where
  "alignParsingErrors m r =
     r\<lparr>fr_parsingErrors := map_option (map (alignParsingError m)) (fr_parsingErrors r)\<rparr>"

definition alignArtifacts :: "mapper \<Rightarrow> 'a file_success_scheme \<Rightarrow> 'a file_success_scheme" where
  "alignArtifacts m r =
     r\<lparr>fr_highlights := map_option (map (\<lambda>h. h\<lparr>hl_location := alignArtifactLocation m (hl_location h)\<rparr>))
         (fr_highlights r),
       fr_highlightedSymbols := map_option (map (\<lambda>h.
           h\<lparr>sh_declaration := alignArtifactLocation m (sh_declaration h),
             sh_references := map (alignArtifactLocation m) (sh_references h)\<rparr>)) (fr_highlightedSymbols r),
       fr_cpdTokens := map_option (map (\<lambda>t. t\<lparr>ct_location := alignArtifactLocation m (ct_location t)\<rparr>))
         (fr_cpdTokens r)\<rparr>"

definition alignMetrics :: "mapper \<Rightarrow> 'a file_success_scheme \<Rightarrow> 'a file_success_scheme" where
  "alignMetrics m r =
     (case fr_metrics r of
        None \<Rightarrow> r
      | Some mt \<Rightarrow>
          r\<lparr>fr_metrics := Some (mt
              \<lparr>mt_ncloc := alignLines m (mt_ncloc mt), mt_commentLines := alignLines m (mt_commentLines mt),
               mt_nosonarLines := alignLines m (mt_nosonarLines mt),
               mt_executableLines := alignLines m (mt_executableLines mt)\<rparr>)\<rparr>)"

definition alignSonarResolveComments :: "mapper \<Rightarrow> 'a file_success_scheme \<Rightarrow> 'a file_success_scheme" where
  "alignSonarResolveComments m r =
     r\<lparr>fr_sonarResolveComments :=
         map_option (map (\<lambda>c. c\<lparr>sr_line := mapped_line m (sr_line c)\<rparr>)) (fr_sonarResolveComments r)\<rparr>"

definition alignFileResultWithMapper :: "mapper \<Rightarrow> 'a file_success_scheme \<Rightarrow> 'a file_success_scheme" where
  "alignFileResultWithMapper m r =
     alignSonarResolveComments m (alignMetrics m (alignArtifacts m (alignParsingErrors m (alignIssues m r))))"

text \<open>\<open>serialize\<close> gets the tree, the path and the mapping of positions, if there is one.\<close>

type_synonym 'tree serializer = "'tree \<Rightarrow> string \<Rightarrow> (int \<Rightarrow> int \<Rightarrow> int \<times> int) option \<Rightarrow> string option"

definition finalizeFileResultForScanner ::
  "'tree serializer \<Rightarrow> 'tree analyzer_result \<Rightarrow> nat list \<Rightarrow> string \<Rightarrow> file_result" where
  "finalizeFileResultForScanner serialize result source filePath =
     (case result of
        AnalyzerError e \<Rightarrow> FileError e
      | AnalyzerSuccess r \<Rightarrow>
          (let m = (if list_ex (\<lambda>c. c \<in> set ECMASCRIPT_ONLY_LINE_TERMINATORS) source
                    then Some (new_mapper source) else None);
               r' = (case m of None \<Rightarrow> r | Some m' \<Rightarrow> alignFileResultWithMapper m' r)
           in case un_unserializedAst r' of
                None \<Rightarrow> FileSuccess (file_success.truncate r')
              | Some tree \<Rightarrow>
                  (case serialize tree filePath (map_option mapped_position m) of
                     None \<Rightarrow> FileSuccess (file_success.truncate r')
                   | Some ast \<Rightarrow> FileSuccess ((file_success.truncate r')
                       \<lparr>fr_ast := Some (case fr_ast r' of None \<Rightarrow> ast | Some a \<Rightarrow> a)\<rparr>))))"

section \<open>Line starts and the search\<close>

lemma match_ends_bounds: "e \<in> set (match_ends ends i s) \<Longrightarrow> i < e \<and> e \<le> i + length s"
  by (induction ends i s rule: match_ends.induct) (auto split: if_splits)

lemma match_ends_sorted: "sorted_wrt (<) (match_ends ends i s)"
  by (induction ends i s rule: match_ends.induct) (auto dest: match_ends_bounds)

lemma line_starts_sorted: "sorted_wrt (<) (computeLineStarts s ends)"
  using match_ends_bounds [of _ ends 0 s] by (auto simp: computeLineStarts_def match_ends_sorted)

lemma line_starts_bound: "e \<in> set (computeLineStarts s ends) \<Longrightarrow> e \<le> length s"
  using match_ends_bounds [of e ends 0 s] by (auto simp: computeLineStarts_def)

lemma match_ends_same:
  "\<forall>c\<in>set s. c \<notin> set extra \<Longrightarrow> match_ends (ends @ extra) i s = match_ends ends i s"
  by (induction ends i s rule: match_ends.induct) auto

lemma find_line_index_correct:
  assumes "sorted_wrt (<) xs" "low \<le> high" "high < length xs" "xs ! low \<le> offset"
    "\<And>j. high < j \<Longrightarrow> j < length xs \<Longrightarrow> offset < xs ! j"
  shows "find_line_index xs offset low high < length xs
    \<and> xs ! find_line_index xs offset low high \<le> offset
    \<and> (\<forall>j. find_line_index xs offset low high < j \<longrightarrow> j < length xs \<longrightarrow> offset < xs ! j)"
  using assms
proof (induction xs offset low high rule: find_line_index.induct)
  case (1 xs offset low high)
  show ?case
  proof (cases "low < high")
    case False
    then have eq: "find_line_index xs offset low high = high" using "1.prems"(2)
      by (subst find_line_index.simps) simp
    have "xs ! high \<le> offset" using "1.prems"(2,4) False by (metis le_neq_implies_less)
    then show ?thesis unfolding eq using "1.prems"(3,5) by blast
  next
    case True
    let ?m = "(low + high + 1) div 2"
    have m: "low < ?m" "?m \<le> high" using True by auto
    show ?thesis
    proof (cases "xs ! ?m \<le> offset")
      case le: True
      have eq: "find_line_index xs offset low high = find_line_index xs offset ?m high"
        using True le by (subst find_line_index.simps) (simp add: Let_def)
      show ?thesis unfolding eq
        by (rule "1.IH"(1) [OF True refl le]) (use "1.prems" m le in \<open>simp_all only:\<close>)
    next
      case gt: False
      have eq: "find_line_index xs offset low high = find_line_index xs offset low (?m - 1)"
        using True gt by (subst find_line_index.simps) (simp add: Let_def)
      have above: "offset < xs ! j" if "?m - 1 < j" "j < length xs" for j
      proof (cases "j = ?m")
        case False
        then have "xs ! ?m < xs ! j" using sorted_wrt_nth_less [OF "1.prems"(1), of ?m j] that m by simp
        then show ?thesis using gt by simp
      qed (use gt in simp)
      show ?thesis unfolding eq
        by (rule "1.IH"(2) [OF True refl gt], rule "1.prems", insert m "1.prems"(3), simp, simp,
            rule "1.prems", rule above)
    qed
  qed
qed

lemma findLineIndex_correct:
  assumes "sorted_wrt (<) xs" "xs \<noteq> []" "xs ! 0 \<le> offset"
  shows "findLineIndex xs offset < length xs \<and> xs ! findLineIndex xs offset \<le> offset
    \<and> (\<forall>j. findLineIndex xs offset < j \<longrightarrow> j < length xs \<longrightarrow> offset < xs ! j)"
  unfolding findLineIndex_def using assms by (intro find_line_index_correct) auto

lemma findLineIndex_unique:
  assumes "sorted_wrt (<) xs" "i < length xs" "xs ! i \<le> offset" "Suc i < length xs \<Longrightarrow> offset < xs ! Suc i"
  shows "findLineIndex xs offset = i"
proof -
  have less: "xs ! a < xs ! b" if "a < b" "b < length xs" for a b
    using assms(1) that by (rule sorted_wrt_nth_less)
  have "xs \<noteq> []" "xs ! 0 \<le> offset" using assms(2,3) less [of 0 i] by (auto intro: order.trans less_imp_le simp: neq0_conv)
  then have f: "findLineIndex xs offset < length xs" "xs ! findLineIndex xs offset \<le> offset"
    "\<And>j. findLineIndex xs offset < j \<Longrightarrow> j < length xs \<Longrightarrow> offset < xs ! j"
    using findLineIndex_correct [OF assms(1)] by blast+
  show ?thesis
  proof (rule linorder_cases)
    assume "findLineIndex xs offset < i"
    then show ?thesis using f(3) [of i] assms(2,3) by simp
  next
    assume gt: "i < findLineIndex xs offset"
    then have "Suc i < length xs" using f(1) by simp
    moreover have "xs ! Suc i \<le> xs ! findLineIndex xs offset"
      using gt f(1) less [of "Suc i" "findLineIndex xs offset"] by (cases "Suc i = findLineIndex xs offset") auto
    ultimately show ?thesis using assms(4) f(2) by simp
  qed
qed

text \<open>A position inside the text.\<close>

definition valid_position :: "nat list \<Rightarrow> int \<Rightarrow> int \<Rightarrow> bool" where
  "valid_position s line column \<longleftrightarrow>
     1 \<le> line \<and> line \<le> int (length (computeLineStarts s ECMASCRIPT_LINE_ENDINGS)) \<and> 0 \<le> column
     \<and> computeLineStarts s ECMASCRIPT_LINE_ENDINGS ! nat (line - 1) + nat column \<le> length s"

text \<open>
  C26. Moving a location to the lines of the scanner keeps the offset in the text: a position of a
  JavaScript line becomes the position of the same unit in the scanner line that holds it, and any
  other position is left alone.
\<close>

theorem mapped_position_keeps_offset:
  assumes "mapped_position (new_mapper s) line column = (line', column')"
  defines "E \<equiv> computeLineStarts s ECMASCRIPT_LINE_ENDINGS" and "S \<equiv> computeLineStarts s SCANNER_LINE_ENDINGS"
  shows "if valid_position s line column
    then 1 \<le> line' \<and> line' \<le> int (length S) \<and> 0 \<le> column'
      \<and> int (S ! nat (line' - 1)) + column' = int (E ! nat (line - 1)) + column
      \<and> (\<forall>n. nat line' \<le> n \<and> n < length S \<longrightarrow> int (E ! nat (line - 1)) + column < int (S ! n))
    else line' = line \<and> column' = column"
proof (cases "valid_position s line column")
  case True
  define offset where "offset = E ! nat (line - 1) + nat column"
  have S: "sorted_wrt (<) S" "S \<noteq> []" "S ! 0 \<le> offset"
    by (simp_all add: S_def line_starts_sorted) (simp_all add: computeLineStarts_def)
  note i = findLineIndex_correct [OF S]
  have "line' = int (findLineIndex S offset) + 1" "column' = int offset - int (S ! findLineIndex S offset)"
    using assms(1) True
    by (auto simp: mapped_position_def new_mapper_def valid_position_def S_def E_def offset_def Let_def)
  moreover have "int offset = int (E ! nat (line - 1)) + column"
    using True by (simp add: offset_def valid_position_def)
  moreover have "int offset < int (S ! n)" if "nat (int (findLineIndex S offset) + 1) \<le> n" "n < length S" for n
    using i that by (simp add: nat_add_distrib)
  ultimately show ?thesis using True i by simp
next
  case False
  then show ?thesis using assms(1)
    by (auto simp: mapped_position_def new_mapper_def valid_position_def Let_def split: if_splits)
qed

text \<open>
  The mapper may be left out for a text without the two separators: it would move no position
  that lies inside its line.
\<close>

theorem no_separator_no_move:
  assumes "\<forall>c\<in>set s. c \<notin> set ECMASCRIPT_ONLY_LINE_TERMINATORS"
    and "line < int (length (computeLineStarts s ECMASCRIPT_LINE_ENDINGS)) \<Longrightarrow> 1 \<le> line
      \<Longrightarrow> computeLineStarts s ECMASCRIPT_LINE_ENDINGS ! nat (line - 1) + nat column
          < computeLineStarts s ECMASCRIPT_LINE_ENDINGS ! nat line"
  shows "mapped_position (new_mapper s) line column = (line, column)"
proof (cases "valid_position s line column")
  case True
  define E where "E = computeLineStarts s ECMASCRIPT_LINE_ENDINGS"
  have E: "computeLineStarts s SCANNER_LINE_ENDINGS = E"
    using match_ends_same [OF assms(1)] by (simp add: E_def computeLineStarts_def ECMASCRIPT_LINE_ENDINGS_def)
  have line: "1 \<le> line" "line \<le> int (length E)" "0 \<le> column" "E ! nat (line - 1) + nat column \<le> length s"
    using True by (simp_all add: valid_position_def E_def)
  then have suc: "Suc (nat (line - 1)) = nat line" by simp
  have "findLineIndex E (E ! nat (line - 1) + nat column) = nat (line - 1)"
  proof (rule findLineIndex_unique)
    show "sorted_wrt (<) E" by (simp add: E_def line_starts_sorted)
    show "E ! nat (line - 1) + nat column < E ! Suc (nat (line - 1))" if "Suc (nat (line - 1)) < length E"
      unfolding suc using assms(2) that line suc by (simp add: E_def)
  qed (use line in simp_all)
  then show ?thesis
    using line by (simp add: mapped_position_def new_mapper_def E E_def [symmetric] Let_def)
next
  case False
  then show ?thesis by (auto simp: mapped_position_def new_mapper_def valid_position_def Let_def)
qed

definition sample_text :: "nat list" where
  "sample_text = [97, 0x2028, 98, 0x0D, 0x0A, 99]"

lemma sample_line_starts:
  "computeLineStarts sample_text ECMASCRIPT_LINE_ENDINGS = [0, 2, 5]"
  "computeLineStarts sample_text SCANNER_LINE_ENDINGS = [0, 5]"
  "computeLineStarts [97, 0x0A, 98] ECMASCRIPT_LINE_ENDINGS = [0, 2]"
  by (simp_all add: computeLineStarts_def sample_text_def ECMASCRIPT_LINE_ENDINGS_def SCANNER_LINE_ENDINGS_def
      ECMASCRIPT_ONLY_LINE_TERMINATORS_def CARRIAGE_RETURN_def LINE_FEED_def)

theorem mapped_position_keeps_offset_witness:
  "mapped_position (new_mapper sample_text) 2 1 = (1, 3)
   \<and> int (computeLineStarts sample_text SCANNER_LINE_ENDINGS ! 0) + 3
     = int (computeLineStarts sample_text ECMASCRIPT_LINE_ENDINGS ! 1) + 1"
proof -
  have "mapped_position (new_mapper sample_text) 2 1 = (1, 3)"
    by (simp add: mapped_position_def new_mapper_def sample_line_starts findLineIndex_def find_line_index.simps)
      (simp add: sample_text_def)
  moreover have "valid_position sample_text 2 1" by (simp add: valid_position_def sample_line_starts) (simp add: sample_text_def)
  ultimately show ?thesis using mapped_position_keeps_offset [of sample_text 2 1 1 3] by simp
qed

theorem no_separator_no_move_witness:
  "mapped_position (new_mapper [97, 0x0A, 98]) 2 1 = (2, 1)"
  by (rule no_separator_no_move) (simp_all add: sample_line_starts ECMASCRIPT_ONLY_LINE_TERMINATORS_def)

end
