(* ===== verification/Sonar_Resolve.thy ===== *)
theory Sonar_Resolve
  imports Analysis_Results "HOL-Library.Product_Lexorder"
begin

text \<open>
  \<open>packages/analysis/src/common/sonar-resolve.ts\<close>: comments with the directive
  \<open>sonar-resolve\<close>. Comments on consecutive lines are one comment, unless one of them starts with
  the directive. The comments of a stylesheet are the list that \<open>walkComments\<close> visits.
\<close>

section \<open>Comments\<close>

definition SONAR_RESOLVE_KEYWORD :: string where
  "SONAR_RESOLVE_KEYWORD = ''sonar-resolve''"

datatype comment_kind = BlockComment | LineComment

record comment_source =
  cs_column :: int
  cs_endLine :: int
  cs_kind :: comment_kind
  cs_line :: int
  cs_text :: string

record comment_loc =
  cl_startLine :: int
  cl_startColumn :: int
  cl_endLine :: int

record jsts_comment =
  jc_loc :: "comment_loc option"
  jc_type :: string
  jc_value :: string

record css_comment =
  cc_startLine :: "int option"
  cc_startColumn :: "int option"
  cc_endLine :: "int option"
  cc_text :: string
  cc_rawsInline :: "bool option"
  cc_rawsBegin :: "string option"

section \<open>The directive\<close>

definition trimStart :: "string \<Rightarrow> string" where
  "trimStart s = dropWhile is_space s"

definition startsWithDirectiveKeyword :: "string \<Rightarrow> bool" where
  "startsWithDirectiveKeyword line \<longleftrightarrow>
     toLowerCase (take (length SONAR_RESOLVE_KEYWORD) (trimStart line)) = SONAR_RESOLVE_KEYWORD"

definition containsDirective :: "string \<Rightarrow> bool" where
  "containsDirective text \<longleftrightarrow> list_ex startsWithDirectiveKeyword (split_lines text)"

section \<open>Extraction\<close>

definition pushLineCommentRun :: "comment_source list \<Rightarrow> sonar_resolve_comment list \<Rightarrow> sonar_resolve_comment list" where
  "pushLineCommentRun run extracted =
     (let text = join_with [CHR 0x0A] (map cs_text run) in
      if \<not> containsDirective text then extracted
      else extracted @ [\<lparr>sr_line = cs_line (hd run), sr_text = text\<rparr>])"

text \<open>One turn of the loop, on the current run and what has been extracted.\<close>

definition extract_comment ::
  "comment_source list \<times> sonar_resolve_comment list \<Rightarrow> comment_source
   \<Rightarrow> comment_source list \<times> sonar_resolve_comment list" where
  "extract_comment st comment =
     (let (run, extracted) = st in
      if cs_kind comment = LineComment then
        (if run \<noteq> [] \<and> (cs_endLine (last run) + 1 \<noteq> cs_line comment \<or> startsWithDirectiveKeyword (cs_text comment))
         then ([comment], pushLineCommentRun run extracted)
         else (run @ [comment], extracted))
      else
        (let extracted1 = (if length run > 0 then pushLineCommentRun run extracted else extracted)
         in ([], if containsDirective (cs_text comment)
                 then extracted1 @ [\<lparr>sr_line = cs_line comment, sr_text = cs_text comment\<rparr>]
                 else extracted1)))"

definition extractSonarResolveComments :: "comment_source list \<Rightarrow> sonar_resolve_comment list" where
  "extractSonarResolveComments comments =
     (let orderedComments = sort_key (\<lambda>c. (cs_line c, cs_column c)) comments;
          (run, extracted) = foldl extract_comment ([], []) orderedComments
      in if length run > 0 then pushLineCommentRun run extracted else extracted)"

definition jsts_comment_source :: "jsts_comment \<Rightarrow> comment_source list" where
  "jsts_comment_source comment =
     (case jc_loc comment of
        None \<Rightarrow> []
      | Some loc \<Rightarrow>
          [\<lparr>cs_column = cl_startColumn loc, cs_endLine = cl_endLine loc,
            cs_kind = (if jc_type comment = ''Line'' then LineComment else BlockComment),
            cs_line = cl_startLine loc, cs_text = jc_value comment\<rparr>])"

definition extractSonarResolveCommentsFromJsTsComments :: "jsts_comment list \<Rightarrow> sonar_resolve_comment list" where
  "extractSonarResolveCommentsFromJsTsComments comments =
     extractSonarResolveComments (concat (map jsts_comment_source comments))"

definition isCssLineComment :: "css_comment \<Rightarrow> bool" where
  "isCssLineComment comment \<longleftrightarrow> cc_rawsInline comment = Some True \<or> cc_rawsBegin comment = Some ''//''"

definition css_comment_source :: "css_comment \<Rightarrow> comment_source list" where
  "css_comment_source comment =
     (case (cc_startLine comment, cc_startColumn comment) of
        (Some line, Some column) \<Rightarrow>
          [\<lparr>cs_column = column, cs_endLine = nullish (cc_endLine comment) line,
            cs_kind = (if isCssLineComment comment then LineComment else BlockComment),
            cs_line = line, cs_text = cc_text comment\<rparr>]
      | _ \<Rightarrow> [])"

definition extractSonarResolveCommentsFromCssRoot :: "css_comment list \<Rightarrow> sonar_resolve_comment list" where
  "extractSonarResolveCommentsFromCssRoot comments =
     extractSonarResolveComments (concat (map css_comment_source comments))"

section \<open>Runs of comments\<close>

text \<open>
  The specification: the ordered comments are cut into groups, a block comment alone, line comments
  as long as each follows the line before and does not start with the directive; the groups with a
  directive are reported.
\<close>

definition joins :: "comment_source \<Rightarrow> comment_source \<Rightarrow> bool" where
  "joins a b \<longleftrightarrow> cs_kind a = LineComment \<and> cs_kind b = LineComment
     \<and> cs_endLine a + 1 = cs_line b \<and> \<not> startsWithDirectiveKeyword (cs_text b)"

fun comment_groups :: "comment_source list \<Rightarrow> comment_source list list" where
  "comment_groups [] = []"
| "comment_groups (c # cs) =
     (case comment_groups cs of
        [] \<Rightarrow> [[c]]
      | g # gs \<Rightarrow> if joins c (hd g) then (c # g) # gs else [c] # g # gs)"

definition group_comment :: "comment_source list \<Rightarrow> sonar_resolve_comment" where
  "group_comment g = \<lparr>sr_line = cs_line (hd g), sr_text = join_with [CHR 0x0A] (map cs_text g)\<rparr>"

definition reported_comments :: "comment_source list \<Rightarrow> sonar_resolve_comment list" where
  "reported_comments cs =
     filter (\<lambda>r. containsDirective (sr_text r)) (map group_comment (comment_groups cs))"

lemma comment_groups_hd: "c # cs \<noteq> [] \<Longrightarrow> \<exists>g gs. comment_groups (c # cs) = (c # g) # gs"
  by (auto split: list.splits)

text \<open>The state of the loop: the run is a first part of the groups of what is still to come.\<close>

definition line_run :: "comment_source list \<Rightarrow> bool" where
  "line_run run \<longleftrightarrow> (\<forall>c\<in>set run. cs_kind c = LineComment)
     \<and> (\<forall>i. Suc i < length run \<longrightarrow> joins (run ! i) (run ! Suc i))"

lemma groups_of_run:
  assumes "run \<noteq> []" "\<And>i. Suc i < length run \<Longrightarrow> joins (run ! i) (run ! Suc i)"
    and "cs = [] \<or> \<not> joins (last run) (hd cs)"
  shows "comment_groups (run @ cs) = run # comment_groups cs"
  using assms
proof (induction run)
  case (Cons c run)
  show ?case
  proof (cases run)
    case Nil
    then show ?thesis using Cons.prems(3) by (cases cs) (auto split: list.splits)
  next
    case run: (Cons d r)
    have "comment_groups (run @ cs) = run # comment_groups cs"
      using Cons.prems(2) [of "Suc _"] Cons.prems(3) by (intro Cons.IH) (auto simp: run)
    moreover have "joins c d" using Cons.prems(2) [of 0] by (simp add: run)
    ultimately show ?thesis by (simp add: run)
  qed
qed simp

lemma push_run:
  "run \<noteq> [] \<Longrightarrow> pushLineCommentRun run ex = ex @ filter (\<lambda>r. containsDirective (sr_text r)) [group_comment run]"
  by (simp add: pushLineCommentRun_def group_comment_def Let_def)

lemma reported_run:
  assumes "run \<noteq> []" "line_run run" "cs = [] \<or> \<not> joins (last run) (hd cs)"
  shows "ex @ reported_comments (run @ cs) = pushLineCommentRun run ex @ reported_comments cs"
  using groups_of_run [of run cs] assms by (simp add: reported_comments_def push_run line_run_def)

lemma extract_loop:
  assumes "line_run run"
  shows "(let (run', ex') = foldl extract_comment (run, ex) cs
          in if length run' > 0 then pushLineCommentRun run' ex' else ex') = ex @ reported_comments (run @ cs)"
  using assms
proof (induction cs arbitrary: run ex)
  case Nil
  show ?case
  proof (cases "run = []")
    case False
    then show ?thesis using reported_run [OF False Nil, of "[]" ex] by (simp add: reported_comments_def)
  qed (simp add: reported_comments_def)
next
  case (Cons c cs)
  note run = Cons.prems
  show ?case
  proof (cases "cs_kind c = LineComment")
    case line: True
    have one: "line_run [c]" using line by (simp add: line_run_def)
    show ?thesis
    proof (cases "run \<noteq> [] \<and> \<not> joins (last run) c")
      case True
      then have "cs_endLine (last run) + 1 \<noteq> cs_line c \<or> startsWithDirectiveKeyword (cs_text c)"
        using run line by (auto simp: joins_def line_run_def)
      then have "extract_comment (run, ex) c = ([c], pushLineCommentRun run ex)"
        using True line by (simp add: extract_comment_def)
      then show ?thesis using Cons.IH [OF one, of "pushLineCommentRun run ex"] reported_run [OF _ run, of "c # cs" ex] True
        by simp
    next
      case False
      have last: "Suc i = length run \<Longrightarrow> run ! i = last run" for i
        by (metis diff_Suc_1 last_conv_nth length_0_conv nat.distinct(1))
      have "line_run (run @ [c])"
        using run line False last by (auto simp: line_run_def nth_append less_Suc_eq)
      moreover have "extract_comment (run, ex) c = (run @ [c], ex)"
        using False line by (auto simp: extract_comment_def joins_def)
      ultimately show ?thesis using Cons.IH [of "run @ [c]" ex] by simp
    qed
  next
    case block: False
    let ?ex = "if length run > 0 then pushLineCommentRun run ex else ex"
    have nj: "\<not> joins x c" "\<not> joins c x" for x using block by (simp_all add: joins_def)
    have step: "extract_comment (run, ex) c = ([], ?ex @ filter (\<lambda>r. containsDirective (sr_text r)) [group_comment [c]])"
      using block by (simp add: extract_comment_def group_comment_def)
    have "comment_groups (c # cs) = [c] # comment_groups cs"
      using groups_of_run [of "[c]" cs] nj by simp
    then have "reported_comments (c # cs) = filter (\<lambda>r. containsDirective (sr_text r)) [group_comment [c]] @ reported_comments cs"
      by (simp add: reported_comments_def)
    moreover have "ex @ reported_comments (run @ c # cs) = ?ex @ reported_comments (c # cs)"
      using reported_run [OF _ run, of "c # cs" ex] nj by simp
    moreover have "line_run []" by (simp add: line_run_def)
    ultimately show ?thesis using Cons.IH [of "[]"] by (simp add: step)
  qed
qed

text \<open>
  C27. The directives of a file are those of its groups of comments: the loop over the comments in
  the order of their positions reports each group that has a line starting with the directive, at
  the line of its first comment, and nothing else.
\<close>

theorem directives_are_those_of_comment_groups:
  "extractSonarResolveComments comments
     = reported_comments (sort_key (\<lambda>c. (cs_line c, cs_column c)) comments)"
  using extract_loop [of "[]" "[]"] by (simp add: extractSonarResolveComments_def line_run_def)

end
