(* ===== verification/Analysis_Response.thy ===== *)
theory Analysis_Response
  imports Analysis_Results Base64
begin

text \<open>
  Results become messages: \<open>packages/grpc/src/analyze-project-convert.ts\<close>. Enumerations of the
  protocol are their numbers; messages whose shape is that of the internal type use its record.
  The result files are an object keyed by path.
\<close>

section \<open>Telemetry and events\<close>

record program_creation =
  pg_attempted :: int
  pg_succeeded :: int
  pg_failed :: int

record generated_family =
  gf_family :: string
  gf_resolvedFileCount :: int
  gf_taggedFileCount :: int

record generated_sources =
  gs_familyCount :: int
  gs_resolvedFileCount :: int
  gs_taggedFileCount :: int
  gs_families :: "generated_family list"

record 'options telemetry =
  tl_typescriptVersions :: "string list"
  tl_typescriptNativePreview :: bool
  tl_compilerOptions :: "(string, 'options) js_map"
  tl_ecmaScriptVersions :: "string list"
  tl_programCreation :: program_creation
  tl_esmFileCount :: int
  tl_cjsFileCount :: int
  tl_denoImportCounts :: "(string, int) js_map"
  tl_generatedSources :: generated_sources
  tl_packageImportFileCounts :: "(string, int) js_map"

record analysis_meta =
  am_warnings :: "string list"
  am_telemetry :: "string list telemetry option"

record analysis_output =
  ao_files :: "(string, file_result) js_map"
  ao_meta :: analysis_meta

text \<open>\<open>WsIncrementalResult\<close>.\<close>

datatype incremental_result =
    FileResultEvent string file_result
  | MetaEvent analysis_meta
  | CancelledEvent
  | ErrorEvent

section \<open>Messages\<close>

record issue_message =
  im_line :: int
  im_column :: int
  im_endLine :: "int option"
  im_endColumn :: "int option"
  im_message :: string
  im_ruleId :: string
  im_language :: int
  im_secondaryLocations :: "issue_location list"
  im_cost :: "rat option"
  im_quickFixes :: "quick_fix list"
  im_ruleEslintKeys :: "string list"
  im_filePath :: "string option"
  im_resolutionComment :: "string option"

record parsing_error_message =
  pm_message :: string
  pm_line :: "int option"
  pm_column :: "int option"
  pm_code :: int
  pm_language :: int

record highlight_message =
  hm_location :: artifact_location
  hm_textType :: int

record metrics_message =
  mm_ncloc :: "int list"
  mm_commentLines :: "int list"
  mm_nosonarLines :: "int list"
  mm_executableLines :: "int list"
  mm_functions :: "int option"
  mm_statements :: "int option"
  mm_classes :: "int option"
  mm_complexity :: "int option"
  mm_cognitiveComplexity :: "int option"

record file_result_message =
  fm_parsingErrors :: "parsing_error_message list"
  fm_issues :: "issue_message list"
  fm_suppressedIssues :: "issue_message list"
  fm_highlights :: "highlight_message list"
  fm_highlightedSymbols :: "symbol_highlight list"
  fm_metrics :: "metrics_message option"
  fm_cpdTokens :: "cpd_token list"
  fm_ast :: "buffer option"
  fm_sonarResolveComments :: "sonar_resolve_comment list"

datatype result_message = ErrorMessage string | ResultMessage file_result_message

text \<open>Values of the map of compiler options are lists wrapped in a message.\<close>

record string_list_message =
  sl_values :: "string list"

record meta_message =
  me_warnings :: "string list"
  me_telemetry :: "string_list_message telemetry option"

record unary_response =
  ur_files :: "(string, result_message) js_map"
  ur_meta :: meta_message

datatype stream_response =
    FileResultResponse string result_message
  | MetaResponse meta_message
  | CancelledResponse

section \<open>Enumerations\<close>

fun toAnalysisLanguage :: "result_language \<Rightarrow> int" where
  "toAnalysisLanguage JsLanguage = 1"
| "toAnalysisLanguage TsLanguage = 2"
| "toAnalysisLanguage CssLanguage = 3"

fun toParsingErrorCode :: "error_code \<Rightarrow> int" where
  "toParsingErrorCode Parsing = 1"
| "toParsingErrorCode FailingTypeScript = 2"
| "toParsingErrorCode LinterInitialization = 3"
| "toParsingErrorCode _ = 0"

definition toTextType :: "string \<Rightarrow> int" where
  "toTextType textType =
     (if textType = ''CONSTANT'' then 1 else if textType = ''COMMENT'' then 2
      else if textType = ''STRUCTURED_COMMENT'' then 3 else if textType = ''KEYWORD'' then 4
      else if textType = ''STRING'' then 5 else 0)"

section \<open>Parts of a result\<close>

definition restorePath :: "string \<Rightarrow> (string, string) js_map \<Rightarrow> string" where
  "restorePath filePath pathMap = nullish (map_of pathMap filePath) filePath"

definition toLocation :: "artifact_location \<Rightarrow> artifact_location" where
  "toLocation loc =
     \<lparr>al_startLine = al_startLine loc, al_startCol = al_startCol loc, al_endLine = al_endLine loc,
      al_endCol = al_endCol loc\<rparr>"

definition toIssueLocation :: "issue_location \<Rightarrow> issue_location" where
  "toIssueLocation loc =
     \<lparr>il_line = il_line loc, il_column = il_column loc, il_endLine = il_endLine loc,
      il_endColumn = il_endColumn loc, il_message = il_message loc\<rparr>"

definition toQuickFixEdit :: "quick_fix_edit \<Rightarrow> quick_fix_edit" where
  "toQuickFixEdit edit = \<lparr>qe_loc = toIssueLocation (qe_loc edit), qe_text = qe_text edit\<rparr>"

definition toQuickFix :: "quick_fix \<Rightarrow> quick_fix" where
  "toQuickFix quickFix = \<lparr>qf_message = qf_message quickFix, qf_edits = map toQuickFixEdit (qf_edits quickFix)\<rparr>"

definition toIssue :: "'a issue_scheme \<Rightarrow> (string, string) js_map \<Rightarrow> issue_message" where
  "toIssue iss pathMap =
     \<lparr>im_line = is_line iss, im_column = is_column iss, im_endLine = is_endLine iss,
      im_endColumn = is_endColumn iss, im_message = is_message iss, im_ruleId = is_ruleId iss,
      im_language = toAnalysisLanguage (is_language iss),
      im_secondaryLocations = map toIssueLocation (nullish (is_secondaryLocations iss) []),
      im_cost = is_cost iss, im_quickFixes = map toQuickFix (nullish (is_quickFixes iss) []),
      im_ruleEslintKeys = nullish (is_ruleESLintKeys iss) [],
      im_filePath = map_option (\<lambda>p. restorePath p pathMap) (is_filePath iss),
      im_resolutionComment = None\<rparr>"

definition toSuppressedIssue :: "suppressed_issue \<Rightarrow> (string, string) js_map \<Rightarrow> issue_message" where
  "toSuppressedIssue iss pathMap = (toIssue iss pathMap)\<lparr>im_resolutionComment := Some (si_resolutionComment iss)\<rparr>"

definition toParsingError :: "parsing_error \<Rightarrow> parsing_error_message" where
  "toParsingError e =
     \<lparr>pm_message = pe_message e, pm_line = pe_line e, pm_column = pe_column e,
      pm_code = toParsingErrorCode (pe_code e), pm_language = toAnalysisLanguage (pe_language e)\<rparr>"

definition toHighlight :: "syntax_highlight \<Rightarrow> highlight_message" where
  "toHighlight h = \<lparr>hm_location = toLocation (hl_location h), hm_textType = toTextType (hl_textType h)\<rparr>"

definition toHighlightedSymbol :: "symbol_highlight \<Rightarrow> symbol_highlight" where
  "toHighlightedSymbol s =
     \<lparr>sh_declaration = toLocation (sh_declaration s), sh_references = map toLocation (sh_references s)\<rparr>"

definition toMetrics :: "metrics \<Rightarrow> metrics_message" where
  "toMetrics m =
     \<lparr>mm_ncloc = nullish (mt_ncloc m) [], mm_commentLines = nullish (mt_commentLines m) [],
      mm_nosonarLines = nullish (mt_nosonarLines m) [], mm_executableLines = nullish (mt_executableLines m) [],
      mm_functions = mt_functions m, mm_statements = mt_statements m, mm_classes = mt_classes m,
      mm_complexity = mt_complexity m, mm_cognitiveComplexity = mt_cognitiveComplexity m\<rparr>"

definition toCpdToken :: "cpd_token \<Rightarrow> cpd_token" where
  "toCpdToken t = \<lparr>ct_location = toLocation (ct_location t), ct_image = ct_image t\<rparr>"

definition toSonarResolveComment :: "sonar_resolve_comment \<Rightarrow> sonar_resolve_comment" where
  "toSonarResolveComment c = \<lparr>sr_line = sr_line c, sr_text = sr_text c\<rparr>"

definition toProjectAnalysisFileResult :: "file_result \<Rightarrow> (string, string) js_map \<Rightarrow> result_message" where
  "toProjectAnalysisFileResult result pathMap =
     (case result of
        FileError e \<Rightarrow> ErrorMessage e
      | FileSuccess r \<Rightarrow> ResultMessage
          \<lparr>fm_parsingErrors = map toParsingError (nullish (fr_parsingErrors r) []),
           fm_issues = map (\<lambda>i. toIssue i pathMap) (fr_issues r),
           fm_suppressedIssues = map (\<lambda>i. toSuppressedIssue i pathMap) (nullish (fr_suppressedIssues r) []),
           fm_highlights = map toHighlight (nullish (fr_highlights r) []),
           fm_highlightedSymbols = map toHighlightedSymbol (nullish (fr_highlightedSymbols r) []),
           fm_metrics = map_option toMetrics (fr_metrics r),
           fm_cpdTokens = map toCpdToken (nullish (fr_cpdTokens r) []),
           fm_ast = map_option b64_decode (fr_ast r),
           fm_sonarResolveComments = map toSonarResolveComment (nullish (fr_sonarResolveComments r) [])\<rparr>)"

definition toGeneratedSourcesTelemetry :: "generated_sources \<Rightarrow> generated_sources" where
  "toGeneratedSourcesTelemetry t =
     \<lparr>gs_familyCount = gs_familyCount t, gs_resolvedFileCount = gs_resolvedFileCount t,
      gs_taggedFileCount = gs_taggedFileCount t,
      gs_families = map (\<lambda>f. \<lparr>gf_family = gf_family f, gf_resolvedFileCount = gf_resolvedFileCount f,
        gf_taggedFileCount = gf_taggedFileCount f\<rparr>) (gs_families t)\<rparr>"

definition toTelemetry :: "string list telemetry \<Rightarrow> string_list_message telemetry" where
  "toTelemetry t =
     \<lparr>tl_typescriptVersions = tl_typescriptVersions t,
      tl_typescriptNativePreview = tl_typescriptNativePreview t,
      tl_compilerOptions = from_entries (map (\<lambda>(option, vals). (option, \<lparr>sl_values = vals\<rparr>))
        (object_entries (tl_compilerOptions t))),
      tl_ecmaScriptVersions = tl_ecmaScriptVersions t, tl_programCreation = tl_programCreation t,
      tl_esmFileCount = tl_esmFileCount t, tl_cjsFileCount = tl_cjsFileCount t,
      tl_denoImportCounts = tl_denoImportCounts t,
      tl_generatedSources = toGeneratedSourcesTelemetry (tl_generatedSources t),
      tl_packageImportFileCounts = tl_packageImportFileCounts t\<rparr>"

definition toProjectAnalysisMeta :: "analysis_meta \<Rightarrow> meta_message" where
  "toProjectAnalysisMeta m =
     \<lparr>me_warnings = am_warnings m, me_telemetry = map_option toTelemetry (am_telemetry m)\<rparr>"

section \<open>Responses\<close>

definition toAnalyzeProjectUnaryResponse :: "analysis_output \<Rightarrow> (string, string) js_map \<Rightarrow> unary_response" where
  "toAnalyzeProjectUnaryResponse output pathMap =
     \<lparr>ur_files = fold (\<lambda>(filePath, result) files.
          js_set (restorePath filePath pathMap) (toProjectAnalysisFileResult result pathMap) files)
        (object_entries (ao_files output)) [],
      ur_meta = toProjectAnalysisMeta (ao_meta output)\<rparr>"

text \<open>An error event is not expected; the conversion throws.\<close>

fun toAnalyzeProjectStreamResponse :: "incremental_result \<Rightarrow> (string, string) js_map \<Rightarrow> string + stream_response" where
  "toAnalyzeProjectStreamResponse (FileResultEvent filename result) pathMap =
     Inr (FileResultResponse (restorePath filename pathMap) (toProjectAnalysisFileResult result pathMap))"
| "toAnalyzeProjectStreamResponse (MetaEvent m) pathMap = Inr (MetaResponse (toProjectAnalysisMeta m))"
| "toAnalyzeProjectStreamResponse CancelledEvent pathMap = Inr CancelledResponse"
| "toAnalyzeProjectStreamResponse ErrorEvent pathMap =
     Inl ''Unexpected stream error event in typed gRPC response conversion''"

end
