(* ===== verification/Path_Normalize.thy ===== *)
theory Path_Normalize
  imports Archive_Keys
begin

text \<open>
  \<open>path.normalize\<close> of \<open>node:path/posix\<close> is idempotent, for every path: what the caches keyed by
  normalized names rely on.
\<close>

section \<open>Normalizing twice\<close>

text \<open>Segments of a normalized path: steps up, then a clean path.\<close>

definition up_then_clean :: "string list \<Rightarrow> bool" where
  "up_then_clean segs \<longleftrightarrow> (\<exists>k cs. segs = replicate k ''..'' @ cs \<and> clean cs)"

lemma norm_step_up:
  assumes "clean cs" "CHR ''/'' \<notin> set seg"
  shows "\<exists>k' cs'. norm_step True (cs @ replicate k ''..'') seg = cs' @ replicate k' ''..'' \<and> clean cs'"
proof (cases "seg = '''' \<or> seg = ''.''")
  case True
  then show ?thesis using assms by auto
next
  case False
  show ?thesis
  proof (cases "seg = ''..''")
    case up: True
    show ?thesis
    proof (cases cs)
      case Nil
      have "norm_step True (replicate k ''..'') seg = replicate (Suc k) ''..''" by (cases k) (simp_all add: up)
      then show ?thesis using Nil by (metis append_Nil assms(1))
    next
      case (Cons c r)
      then have "norm_step True (cs @ replicate k ''..'') seg = r @ replicate k ''..''" "clean r"
        using assms(1) by (auto simp: up clean_segment_def)
      then show ?thesis by blast
    qed
  next
    case plain: False
    then have "norm_step True (cs @ replicate k ''..'') seg = (seg # cs) @ replicate k ''..''" "clean (seg # cs)"
      using False assms by (simp_all add: clean_segment_def)
    then show ?thesis by blast
  qed
qed

lemma foldl_norm_step_up:
  "\<forall>s\<in>set segs. CHR ''/'' \<notin> set s \<Longrightarrow> clean cs
   \<Longrightarrow> \<exists>k' cs'. foldl (norm_step True) (cs @ replicate k ''..'') segs = cs' @ replicate k' ''..'' \<and> clean cs'"
proof (induction segs arbitrary: cs k)
  case (Cons x xs)
  obtain k' cs' where step: "norm_step True (cs @ replicate k ''..'') x = cs' @ replicate k' ''..''" "clean cs'"
    using norm_step_up [of cs x k] Cons.prems by auto
  then show ?case unfolding foldl_Cons step using Cons.IH [of cs' k'] step(2) Cons.prems(1) by (meson list.set_intros(2))
qed (unfold foldl_Nil, blast)

lemma norm_segments_up_then_clean: "up_then_clean (norm_segments b (split_on (CHR ''/'') p))"
proof (cases b)
  case True
  obtain k cs where "foldl (norm_step True) ([] @ replicate 0 ''..'') (split_on (CHR ''/'') p) = cs @ replicate k ''..''" "clean cs"
    using foldl_norm_step_up [of "split_on (CHR ''/'') p" "[]" 0] split_on_parts [of _ "CHR ''/''" p] by auto
  then have "norm_segments b (split_on (CHR ''/'') p) = replicate k ''..'' @ rev cs" "clean (rev cs)"
    using True by (simp_all add: norm_segments_def list_all_iff)
  then show ?thesis unfolding up_then_clean_def by blast
next
  case False
  then show ?thesis using clean_norm_segments [of p] unfolding up_then_clean_def by (metis append_Nil replicate_0)
qed

lemma foldl_up: "foldl (norm_step True) (replicate m ''..'') (replicate k ''..'') = replicate (m + k) ''..''"
proof (induction k arbitrary: m)
  case (Suc k)
  have "norm_step True (replicate m ''..'') ''..'' = replicate (Suc m) ''..''" by (cases m) simp_all
  then show ?case using Suc.IH [of "Suc m"] by (simp del: norm_step.simps replicate_Suc add: replicate_Suc [of k])
qed simp

lemma norm_segments_again:
  assumes "up_then_clean segs" "b \<or> clean segs"
  shows "norm_segments b ('''' # segs) = segs" "norm_segments b (segs @ ['''']) = segs" "norm_segments b segs = segs"
    "norm_segments b ('''' # segs @ ['''']) = segs"
proof -
  have main: "foldl (norm_step b) [] segs = rev segs"
  proof (cases "clean segs")
    case True
    then show ?thesis using foldl_norm_clean [of segs b "[]"] by simp
  next
    case False
    obtain k cs where segs: "segs = replicate k ''..'' @ cs" "clean cs" using assms(1) unfolding up_then_clean_def by blast
    have "b" using assms(2) False by blast
    then show ?thesis using foldl_up [of 0 k] foldl_norm_clean [OF segs(2), of True "replicate k ''..''"]
      by (simp add: segs(1) del: norm_step.simps)
  qed
  have empty: "norm_step b acc '''' = acc" for acc by simp
  show "norm_segments b ('''' # segs) = segs" "norm_segments b (segs @ ['''']) = segs" "norm_segments b segs = segs"
    "norm_segments b ('''' # segs @ ['''']) = segs"
    by (simp_all only: norm_segments_def foldl_Cons foldl_append foldl_Nil empty main rev_rev_ident)
qed

lemma up_then_clean_segments: "up_then_clean segs \<Longrightarrow> s \<in> set segs \<Longrightarrow> s \<noteq> '''' \<and> CHR ''/'' \<notin> set s"
proof -
  assume "up_then_clean segs" "s \<in> set segs"
  then obtain k cs where "segs = replicate k ''..'' @ cs" "clean cs" unfolding up_then_clean_def by (elim exE conjE)
  then have "s = ''..'' \<or> clean_segment s"
    using \<open>s \<in> set segs\<close> by (cases "k = 0") (simp_all add: list_all_iff, blast)
  then show "s \<noteq> '''' \<and> CHR ''/'' \<notin> set s" unfolding clean_segment_def by (elim disjE) simp_all
qed

lemma join_up_head:
  assumes "up_then_clean segs" "segs \<noteq> []"
  shows "\<exists>c r. join_with ''/'' segs = c # r \<and> c \<noteq> CHR ''/''" "\<not> ends_with (x @ join_with ''/'' segs) ''/''"
proof -
  obtain s t where segs: "segs = s # t" using assms(2) by (cases segs) auto
  have s: "s \<noteq> ''''" "CHR ''/'' \<notin> set s" using up_then_clean_segments [OF assms(1), of s] segs by auto
  then obtain c r where "s = c # r" "c \<noteq> CHR ''/''" by (cases s) auto
  then show "\<exists>c r. join_with ''/'' segs = c # r \<and> c \<noteq> CHR ''/''" by (cases t) (auto simp: segs)
  have "\<exists>q. join_with ''/'' segs = q @ last segs" using assms(2)
    by (induction segs rule: induct_list012) auto
  then obtain q where q: "join_with ''/'' segs = q @ last segs" by (elim exE)
  have l: "last segs \<noteq> ''''" "CHR ''/'' \<notin> set (last segs)" using up_then_clean_segments [OF assms(1), of "last segs"] assms(2) by simp_all
  then obtain y d where "last segs = y @ [d]" "d \<noteq> CHR ''/''" by (cases "last segs" rule: rev_cases) auto
  then show "\<not> ends_with (x @ join_with ''/'' segs) ''/''" by (simp add: q ends_with_def)
qed

text \<open>A path in normal form: an optional root, segments, an optional slash at the end.\<close>

definition normal_form :: "bool \<Rightarrow> bool \<Rightarrow> string list \<Rightarrow> string" where
  "normal_form absolute trailing segs =
     (if absolute then ''/'' else '''')
     @ (if segs = [] then (if absolute then '''' else ''.'') else join_with ''/'' segs)
     @ (if trailing \<and> (segs \<noteq> [] \<or> \<not> absolute) then ''/'' else '''')"

lemma join_empty_iff: "up_then_clean segs \<Longrightarrow> join_with ''/'' segs = '''' \<longleftrightarrow> segs = []"
  using join_up_head(1) [of segs] by (cases "segs = []") auto

lemma path_normalize_normal_form:
  assumes "p \<noteq> ''''"
  shows "path_normalize p = normal_form (path_isAbsolute p) (ends_with p ''/'')
     (norm_segments (\<not> path_isAbsolute p) (split_on (CHR ''/'') p))"
  using assms join_empty_iff [OF norm_segments_up_then_clean, of "\<not> path_isAbsolute p" p]
  by (cases "path_isAbsolute p") (simp_all add: path_normalize_def normal_form_def Let_def)

lemma split_join_up: "up_then_clean segs \<Longrightarrow> segs \<noteq> [] \<Longrightarrow> split_on (CHR ''/'') (join_with ''/'' segs) = segs"
  using up_then_clean_segments by (intro split_join) auto

lemma normal_form_segments:
  assumes "up_then_clean segs" "absolute \<longrightarrow> clean segs"
  shows "norm_segments (\<not> absolute) (split_on (CHR ''/'') (normal_form absolute trailing segs)) = segs"
proof (cases "segs = []")
  case True
  then show ?thesis by (simp add: normal_form_def norm_segments_def)
next
  case False
  have "split_on (CHR ''/'') (join_with ''/'' segs @ ''/'') = segs @ ['''']"
    using split_on_append [of "CHR ''/''" "join_with ''/'' segs" "[]"] split_join_up [OF assms(1) False] by simp
  then have "split_on (CHR ''/'') (normal_form absolute trailing segs)
      = (if absolute then [''''] else []) @ segs @ (if trailing then [''''] else [])"
    using False split_join_up [OF assms(1) False] by (simp add: normal_form_def)
  moreover have "\<not> absolute \<or> clean segs" using assms(2) by blast
  ultimately show ?thesis
    using norm_segments_again [OF assms(1), of "\<not> absolute"]
    by (cases absolute; cases trailing) simp_all
qed

lemma normal_form_flags:
  assumes "up_then_clean segs"
  shows "normal_form absolute trailing segs \<noteq> ''''"
    "path_isAbsolute (normal_form absolute trailing segs) = absolute"
    "segs \<noteq> [] \<or> \<not> absolute \<Longrightarrow> ends_with (normal_form absolute trailing segs) ''/'' = trailing"
proof -
  have head: "\<exists>c r. join_with ''/'' segs = c # r \<and> c \<noteq> CHR ''/''" if "segs \<noteq> []" using join_up_head(1) [OF assms that] .
  show "normal_form absolute trailing segs \<noteq> ''''"
    using head by (cases "segs = []") (auto simp: normal_form_def)
  show "path_isAbsolute (normal_form absolute trailing segs) = absolute"
    using head by (cases "segs = []") (auto simp: normal_form_def path_isAbsolute_def starts_with_def)
  show "ends_with (normal_form absolute trailing segs) ''/'' = trailing" if "segs \<noteq> [] \<or> \<not> absolute"
  proof (cases trailing)
    case True
    then show ?thesis using that by (simp add: normal_form_def flip: append_assoc)
  next
    case False
    then show ?thesis
      using that join_up_head(2) [OF assms, of "if absolute then ''/'' else ''''"]
      by (cases "segs = []") (auto simp: normal_form_def ends_with_def)
  qed
qed

lemma normal_form_root:
  "\<not> (segs \<noteq> [] \<or> \<not> absolute) \<Longrightarrow> normal_form absolute t segs = normal_form absolute t' segs"
  by (simp add: normal_form_def)

lemma path_normalize_idem [simp]: "path_normalize (path_normalize p) = path_normalize p"
proof (cases "p = ''''")
  case True
  show ?thesis unfolding True by code_simp
next
  case False
  let ?a = "path_isAbsolute p" and ?t = "ends_with p ''/''"
  let ?segs = "norm_segments (\<not> ?a) (split_on (CHR ''/'') p)"
  have up: "up_then_clean ?segs" by (rule norm_segments_up_then_clean)
  have cl: "?a \<longrightarrow> clean ?segs" using clean_norm_segments [of p] by simp
  have n: "path_normalize p = normal_form ?a ?t ?segs" using path_normalize_normal_form [OF False] .
  have "path_normalize (normal_form ?a ?t ?segs)
      = normal_form ?a (ends_with (normal_form ?a ?t ?segs) ''/'') ?segs"
    using path_normalize_normal_form [OF normal_form_flags(1) [OF up], of ?a ?t]
    by (simp only: normal_form_flags(2) [OF up] normal_form_segments [OF up cl])
  moreover have "normal_form ?a (ends_with (normal_form ?a ?t ?segs) ''/'') ?segs = normal_form ?a ?t ?segs"
  proof (cases "?segs \<noteq> [] \<or> \<not> ?a")
    case True
    then show ?thesis by (simp only: normal_form_flags(3) [OF up True])
  next
    case none: False
    show ?thesis by (rule normal_form_root [OF none])
  qed
  ultimately show ?thesis by (simp only: n)
qed

end
