(* ===== verification/Source_Files.thy ===== *)
theory Source_Files
  imports Project_Configuration Path_Normalize
begin

text \<open>
  Contents and syntax trees of TypeScript source files:
  \<open>packages/analysis/src/jsts/program/cache/sourceFileCache.ts\<close> and the host
  \<open>IncrementalCompilerHost\<close> of \<open>compilerHost.ts\<close>. TypeScript is a parameter: its own host
  (\<open>bh_readFile\<close> and so on) and \<open>parse\<close>, its \<open>createSourceFile\<close>. A tree is given with the
  version that is set on it; time stamps of tracked calls are left out.
\<close>

section \<open>Global caches\<close>

type_synonym parsed_key = string

text \<open>The context maps the files of a request to their contents, which may be missing.\<close>

record 'ast source_caches =
  sc_contents :: "string \<rightharpoonup> string"
  sc_parsed :: "string \<rightharpoonup> (parsed_key \<rightharpoonup> string \<times> 'ast)"
  sc_context :: "(string \<rightharpoonup> string option) option"

definition makeParsedSourceFileCacheKey :: "int \<Rightarrow> int option \<Rightarrow> bool \<Rightarrow> parsed_key" where
  "makeParsedSourceFileCacheKey scriptTarget jsx importHelpers =
     show_int scriptTarget @ '':'' @ show_int (nullish jsx (- 1)) @ '':'' @ (if importHelpers then ''1'' else ''0'')"

definition setSourceFilesContext :: "(string \<rightharpoonup> string option) \<Rightarrow> 'ast source_caches \<Rightarrow> 'ast source_caches" where
  "setSourceFilesContext files s = s\<lparr>sc_context := Some files\<rparr>"

definition getCachedSourceFile ::
  "'ast source_caches \<Rightarrow> string \<Rightarrow> int \<Rightarrow> string \<Rightarrow> int option \<Rightarrow> bool \<Rightarrow> 'ast option" where
  "getCachedSourceFile s fileName scriptTarget contentHash jsx importHelpers =
     (case sc_parsed s fileName of
        None \<Rightarrow> None
      | Some fileCache \<Rightarrow>
          (case fileCache (makeParsedSourceFileCacheKey scriptTarget jsx importHelpers) of
             None \<Rightarrow> None
           | Some (h, sourceFile) \<Rightarrow> if h = contentHash then Some sourceFile else None))"

definition setCachedSourceFile ::
  "string \<Rightarrow> int \<Rightarrow> string \<Rightarrow> 'ast \<Rightarrow> int option \<Rightarrow> bool \<Rightarrow> 'ast source_caches \<Rightarrow> 'ast source_caches" where
  "setCachedSourceFile fileName scriptTarget contentHash sourceFile jsx importHelpers s =
     (let fileCache = nullish (sc_parsed s fileName) Map.empty;
          key = makeParsedSourceFileCacheKey scriptTarget jsx importHelpers
      in s\<lparr>sc_parsed := (sc_parsed s)(fileName \<mapsto> fileCache(key \<mapsto> (contentHash, sourceFile)))\<rparr>)"

definition invalidateParsedSourceFile :: "string \<Rightarrow> 'ast source_caches \<Rightarrow> 'ast source_caches" where
  "invalidateParsedSourceFile fileName s = s\<lparr>sc_parsed := (sc_parsed s)(fileName := None)\<rparr>"

definition clearSourceFileContentCache :: "'ast source_caches \<Rightarrow> 'ast source_caches" where
  "clearSourceFileContentCache s = \<lparr>sc_contents = Map.empty, sc_parsed = Map.empty, sc_context = None\<rparr>"

text \<open>\<open>filesContext?.[fileName]?.fileContent\<close>.\<close>

definition context_content :: "'ast source_caches \<Rightarrow> string \<Rightarrow> string option" where
  "context_content s fileName = Option.bind (sc_context s) (\<lambda>files. Option.bind (files fileName) (\<lambda>c. c))"

definition in_context :: "'ast source_caches \<Rightarrow> string \<Rightarrow> bool" where
  "in_context s fileName = (case sc_context s of None \<Rightarrow> False | Some files \<Rightarrow> files fileName \<noteq> None)"

section \<open>The compiler host\<close>

record compiler_host =
  ch_fileVersions :: "string \<rightharpoonup> nat"
  ch_modifiedFiles :: "string list"
  ch_fsCalls :: "(string \<times> string) list"
  ch_jsx :: "int option"
  ch_importHelpers :: "bool option"
  ch_baseDir :: string
  ch_skipNodeModules :: bool

record 'ast base_host =
  bh_readFile :: "string \<Rightarrow> string option"
  bh_fileExists :: "string \<Rightarrow> bool"
  bh_getSourceFile :: "string \<Rightarrow> int \<Rightarrow> 'ast option"
  bh_libLocation :: string
  bh_readDirectory :: "string \<Rightarrow> string list"
  bh_parse :: "string \<Rightarrow> string \<Rightarrow> int \<Rightarrow> 'ast"

definition new_host :: "int option \<Rightarrow> bool option \<Rightarrow> string \<Rightarrow> bool \<Rightarrow> compiler_host" where
  "new_host jsx importHelpers baseDir skip =
     \<lparr>ch_fileVersions = Map.empty, ch_modifiedFiles = [], ch_fsCalls = [], ch_jsx = jsx,
      ch_importHelpers = importHelpers, ch_baseDir = baseDir, ch_skipNodeModules = skip\<rparr>"

definition trackFsCall :: "string \<Rightarrow> string \<Rightarrow> compiler_host \<Rightarrow> compiler_host" where
  "trackFsCall operation fileName h = h\<lparr>ch_fsCalls := ch_fsCalls h @ [(operation, fileName)]\<rparr>"

definition clearTracking :: "compiler_host \<Rightarrow> compiler_host" where
  "clearTracking h = h\<lparr>ch_fsCalls := []\<rparr>"

definition shouldSkipNodeModulesOutsideBaseDir :: "'ast base_host \<Rightarrow> compiler_host \<Rightarrow> string \<Rightarrow> bool" where
  "shouldSkipNodeModulesOutsideBaseDir B h fileName =
     (if \<not> ch_skipNodeModules h then False
      else if starts_with fileName (bh_libLocation B) then False
      else includes_str fileName ''/node_modules/'' \<and> \<not> starts_with fileName (ch_baseDir h @ ''/''))"

definition version_of :: "compiler_host \<Rightarrow> string \<Rightarrow> nat" where
  "version_of h normalized = nullish (ch_fileVersions h normalized) 0"

definition getFileVersion :: "compiler_host \<Rightarrow> string \<Rightarrow> string" where
  "getFileVersion h fileName = show_nat (version_of h (path_normalize fileName))"

definition createHash :: "compiler_host \<Rightarrow> string \<Rightarrow> string" where
  "createHash h v = getFileVersion h v"

definition updateFile ::
  "string \<Rightarrow> string option \<Rightarrow> 'ast source_caches \<times> compiler_host \<Rightarrow> bool \<times> 'ast source_caches \<times> compiler_host" where
  "updateFile filePath content = (\<lambda>(s, h).
     case content of
       None \<Rightarrow> (False, s, h)
     | Some c \<Rightarrow>
         (let normalized = path_normalize filePath in
          if sc_contents s normalized = Some c then (False, s, h)
          else (True, invalidateParsedSourceFile normalized (s\<lparr>sc_contents := (sc_contents s)(normalized \<mapsto> c)\<rparr>),
                h\<lparr>ch_fileVersions := (ch_fileVersions h)(normalized \<mapsto> version_of h normalized + 1),
                  ch_modifiedFiles := List.insert normalized (ch_modifiedFiles h)\<rparr>)))"

definition readFile ::
  "'ast base_host \<Rightarrow> string \<Rightarrow> 'ast source_caches \<times> compiler_host
   \<Rightarrow> string option \<times> 'ast source_caches \<times> compiler_host" where
  "readFile B fileName = (\<lambda>(s, h).
     (let normalized = path_normalize fileName in
      if shouldSkipNodeModulesOutsideBaseDir B h normalized then (None, s, h)
      else case context_content s fileName of
        Some content \<Rightarrow>
          (Some content,
           (if sc_contents s normalized \<noteq> Some content
            then s\<lparr>sc_contents := (sc_contents s)(normalized \<mapsto> content)\<rparr> else s),
           trackFsCall ''readFile-context'' fileName h)
      | None \<Rightarrow>
          (case sc_contents s normalized of
             Some content \<Rightarrow> (Some content, s, trackFsCall ''readFile-cache'' fileName h)
           | None \<Rightarrow>
               (let h1 = trackFsCall ''readFile-disk'' fileName h in
                case bh_readFile B fileName of
                  None \<Rightarrow> (None, s, h1)
                | Some content \<Rightarrow>
                    if content = '''' then (Some content, s, h1)
                    else
                      (let s1 = s\<lparr>sc_contents := (sc_contents s)(normalized \<mapsto> content)\<rparr> in
                       (Some content,
                        (case sc_context s1 of
                           Some files \<Rightarrow>
                             if files fileName \<noteq> None
                             then s1\<lparr>sc_context := Some (files(fileName \<mapsto> Some content))\<rparr> else s1
                         | None \<Rightarrow> s1),
                        h1))))))"

definition fileExists ::
  "'ast base_host \<Rightarrow> string \<Rightarrow> 'ast source_caches \<times> compiler_host \<Rightarrow> bool \<times> compiler_host" where
  "fileExists B fileName = (\<lambda>(s, h).
     (let normalized = path_normalize fileName in
      if shouldSkipNodeModulesOutsideBaseDir B h normalized then (False, h)
      else if sc_contents s normalized \<noteq> None then (True, trackFsCall ''fileExists-cache'' fileName h)
      else if in_context s fileName then (True, trackFsCall ''fileExists-context'' fileName h)
      else (bh_fileExists B fileName, trackFsCall ''fileExists-disk'' fileName h)))"

text \<open>The tree of a file and the version that is set on it.\<close>

definition getSourceFile ::
  "'ast base_host \<Rightarrow> string \<Rightarrow> int \<Rightarrow> bool \<Rightarrow> 'ast source_caches \<times> compiler_host
   \<Rightarrow> ('ast \<times> string) option \<times> 'ast source_caches \<times> compiler_host" where
  "getSourceFile B fileName scriptTarget shouldCreateNewSourceFile = (\<lambda>(s, h).
     (let normalized = path_normalize fileName in
      if shouldSkipNodeModulesOutsideBaseDir B h normalized then (None, s, h)
      else
        (let (_, s1, h1) =
               (case context_content s fileName of
                  None \<Rightarrow> (False, s, h)
                | Some content \<Rightarrow> updateFile normalized (Some content) (s, h));
             contentHash = show_nat (version_of h1 normalized);
             importHelpers = nullish (ch_importHelpers h1) False;
             cached = (if shouldCreateNewSourceFile then None
                       else getCachedSourceFile s1 normalized scriptTarget contentHash (ch_jsx h1) importHelpers)
         in case cached of
              Some tree \<Rightarrow> (Some (tree, contentHash), s1, h1)
            | None \<Rightarrow>
                (let (content, s2, h2) = readFile B fileName (s1, h1) in
                 case content of
                   Some c \<Rightarrow>
                     (let tree = bh_parse B fileName c scriptTarget in
                      (Some (tree, contentHash),
                       setCachedSourceFile normalized scriptTarget contentHash tree (ch_jsx h2) importHelpers s2, h2))
                 | None \<Rightarrow>
                     (map_option (\<lambda>tree. (tree, contentHash)) (bh_getSourceFile B fileName scriptTarget),
                      s2, trackFsCall ''getSourceFile-disk-fallback'' fileName h2)))))"

definition getSourceFileByPath ::
  "'ast base_host \<Rightarrow> string \<Rightarrow> string \<Rightarrow> int \<Rightarrow> bool \<Rightarrow> 'ast source_caches \<times> compiler_host
   \<Rightarrow> ('ast \<times> string) option \<times> 'ast source_caches \<times> compiler_host" where
  "getSourceFileByPath B fileName path scriptTarget shouldCreateNewSourceFile =
     getSourceFile B fileName scriptTarget shouldCreateNewSourceFile"

text \<open>\<open>absolute\<close> is \<open>normalizeToAbsolutePath\<close> against the base directory.\<close>

definition readDirectory ::
  "'ast base_host \<Rightarrow> (string \<Rightarrow> string) \<Rightarrow> string \<Rightarrow> compiler_host \<Rightarrow> string list \<times> compiler_host" where
  "readDirectory B absolute rootDir h =
     (if shouldSkipNodeModulesOutsideBaseDir B h (absolute rootDir)
      then ([], trackFsCall ''readDirectory-node_modules-skip'' rootDir h)
      else (bh_readDirectory B rootDir, trackFsCall ''readDirectory-disk'' rootDir h))"

section \<open>Trees and contents\<close>

text \<open>
  Cached trees are those of the cached content of their file, an empty one if there is none (an empty
  file on disk is parsed and not cached), except for a set \<open>D\<close> of files.
\<close>

definition trees_fresh :: "(string \<Rightarrow> string \<Rightarrow> int \<Rightarrow> 'ast) \<Rightarrow> string set \<Rightarrow> 'ast source_caches \<Rightarrow> bool" where
  "trees_fresh parse D s \<longleftrightarrow>
     (\<forall>n fileCache key hash tree. n \<notin> D \<longrightarrow> sc_parsed s n = Some fileCache \<longrightarrow> fileCache key = Some (hash, tree) \<longrightarrow>
        (\<exists>fileName target jsx ih. path_normalize fileName = n
           \<and> tree = parse fileName (nullish (sc_contents s n) '''') target
           \<and> key = makeParsedSourceFileCacheKey target jsx ih))"

text \<open>Files with cached trees whose cached content was replaced.\<close>

definition replaced :: "'ast source_caches \<Rightarrow> 'ast source_caches \<Rightarrow> string set" where
  "replaced s s' = {n. sc_parsed s n \<noteq> None \<and> nullish (sc_contents s' n) '''' \<noteq> nullish (sc_contents s n) ''''}"

lemma trees_fresh_mono: "trees_fresh parse D s \<Longrightarrow> D \<subseteq> D' \<Longrightarrow> trees_fresh parse D' s"
  unfolding trees_fresh_def by blast

lemma trees_fresh_replaced:
  "trees_fresh parse D s \<Longrightarrow> sc_parsed s' = sc_parsed s \<Longrightarrow> trees_fresh parse (D \<union> replaced s s') s'"
  unfolding trees_fresh_def replaced_def by fastforce

lemma replaced_same [simp]: "replaced s s = {}"
  by (simp add: replaced_def)

lemma updateFile_result:
  assumes "updateFile f (Some c) (s, h) = (b, s', h')"
  shows "sc_contents s' = (sc_contents s)(path_normalize f \<mapsto> c)" "sc_context s' = sc_context s"
    "trees_fresh parse D s \<Longrightarrow> trees_fresh parse (D - (if b then {path_normalize f} else {})) s'"
    "\<not> b \<Longrightarrow> s' = s" "b \<longleftrightarrow> sc_contents s (path_normalize f) \<noteq> Some c"
  using assms by (auto simp: updateFile_def Let_def invalidateParsedSourceFile_def trees_fresh_def split: if_splits)

lemma parsed_key_target:
  "makeParsedSourceFileCacheKey t jsx ih = makeParsedSourceFileCacheKey t' jsx' ih' \<Longrightarrow> t = t'"
  using show_int_sep_inject [of "CHR '':''" t _ t'] by (auto simp: makeParsedSourceFileCacheKey_def is_numeric_def)

lemma setCached_contents [simp]:
  "sc_contents (setCachedSourceFile n t hash tree jsx ih s) = sc_contents s"
  "sc_context (setCachedSourceFile n t hash tree jsx ih s) = sc_context s"
  by (simp_all add: setCachedSourceFile_def Let_def)

lemma trees_fresh_add:
  assumes "trees_fresh parse D s" "tree = parse f (nullish (sc_contents s (path_normalize f)) '''') t"
  shows "trees_fresh parse D (setCachedSourceFile (path_normalize f) t hash tree jsx ih s)"
  unfolding trees_fresh_def setCached_contents
proof (intro allI impI)
  fix n fileCache key h tr
  assume n: "sc_parsed (setCachedSourceFile (path_normalize f) t hash tree jsx ih s) n = Some fileCache"
    and key: "fileCache key = Some (h, tr)" and D: "n \<notin> D"
  show "\<exists>fileName target jsx ih. path_normalize fileName = n \<and> tr = parse fileName (nullish (sc_contents s n) '''') target
           \<and> key = makeParsedSourceFileCacheKey target jsx ih"
  proof (cases "n = path_normalize f \<and> key = makeParsedSourceFileCacheKey t jsx ih")
    case True
    then have "tr = tree" using n key by (auto simp: setCachedSourceFile_def Let_def)
    then show ?thesis using True assms(2) by auto
  next
    case False
    have "\<exists>cache. sc_parsed s n = Some cache \<and> cache key = Some (h, tr)"
    proof (cases "n = path_normalize f")
      case True
      then have "(nullish (sc_parsed s n) Map.empty) key = Some (h, tr)"
        using n key False by (auto simp: setCachedSourceFile_def Let_def split: if_splits)
      then show ?thesis by (cases "sc_parsed s n") auto
    next
      case other: False
      then show ?thesis using n key by (auto simp: setCachedSourceFile_def Let_def)
    qed
    then show ?thesis using assms(1) D unfolding trees_fresh_def by blast
  qed
qed

lemma trees_fresh_lookup:
  assumes "trees_fresh parse D s" "n \<notin> D" "getCachedSourceFile s n t hash jsx ih = Some tree"
  shows "\<exists>f. path_normalize f = n \<and> tree = parse f (nullish (sc_contents s n) '''') t"
proof -
  obtain cache where "sc_parsed s n = Some cache" "cache (makeParsedSourceFileCacheKey t jsx ih) = Some (hash, tree)"
    using assms(3) by (auto simp: getCachedSourceFile_def split: option.splits if_splits)
  then show ?thesis using assms(1,2) parsed_key_target unfolding trees_fresh_def by metis
qed

lemma trees_fresh_context: "trees_fresh parse D (s\<lparr>sc_context := x\<rparr>) = trees_fresh parse D s"
  by (simp add: trees_fresh_def)

text \<open>\<open>readFile\<close> keeps the trees, and what it returns is then the cached content.\<close>

lemma readFile_result:
  assumes "readFile B f (s, h) = (r, s', h')"
  shows "sc_parsed s' = sc_parsed s"
    "r = Some c \<Longrightarrow> nullish (sc_contents s' (path_normalize f)) '''' = c"
    "context_content s f = Some c \<Longrightarrow> \<not> shouldSkipNodeModulesOutsideBaseDir B h (path_normalize f) \<Longrightarrow>
       r = Some c \<and> sc_contents s' = (sc_contents s)(path_normalize f \<mapsto> c)"
  using assms by (auto simp: readFile_def Let_def split: if_splits option.splits)

section \<open>Trees of a request\<close>

text \<open>What the lookup of a tree starts from: the content of the request is in the cache.\<close>

definition request_content_cached ::
  "string \<Rightarrow> 'ast source_caches \<times> compiler_host \<Rightarrow> bool \<times> 'ast source_caches \<times> compiler_host" where
  "request_content_cached fileName = (\<lambda>(s, h).
     case context_content s fileName of
       None \<Rightarrow> (False, s, h)
     | Some content \<Rightarrow> updateFile (path_normalize fileName) (Some content) (s, h))"

lemma context_content_cong: "sc_context s' = sc_context s \<Longrightarrow> context_content s' f = context_content s f"
  by (simp add: context_content_def)

lemma request_content_cached:
  assumes "request_content_cached f (s, h) = (b, s1, h1)"
  shows "trees_fresh parse D s \<Longrightarrow> trees_fresh parse (D - (if b then {path_normalize f} else {})) s1"
    "context_content s1 f = context_content s f"
    "context_content s f = Some c \<Longrightarrow> sc_contents s1 (path_normalize f) = Some c"
    "shouldSkipNodeModulesOutsideBaseDir B h1 n = shouldSkipNodeModulesOutsideBaseDir B h n"
    "\<not> b \<Longrightarrow> s1 = s" "b \<Longrightarrow> context_content s f \<noteq> None"
    "context_content s f = Some c \<Longrightarrow> b \<longleftrightarrow> sc_contents s (path_normalize f) \<noteq> Some c"
    "n \<noteq> path_normalize f \<Longrightarrow> sc_contents s1 n = sc_contents s n"
proof -
  consider (none) "context_content s f = None" "\<not> b" "s1 = s" "h1 = h"
    | (upd) c where "context_content s f = Some c" "updateFile (path_normalize f) (Some c) (s, h) = (b, s1, h1)"
    using assms by (auto simp: request_content_cached_def split: option.splits)
  note cases = this
  show "trees_fresh parse D s \<Longrightarrow> trees_fresh parse (D - (if b then {path_normalize f} else {})) s1"
    using cases
  proof cases
    case (upd c)
    then show "trees_fresh parse D s \<Longrightarrow> ?thesis"
      using updateFile_result(3) [OF upd(2), of parse D] by (simp add: path_normalize_idem split: if_splits)
  qed simp
  show "context_content s1 f = context_content s f"
    using cases
  proof cases
    case (upd c)
    then show ?thesis by (intro context_content_cong updateFile_result(2))
  qed simp
  show "context_content s f = Some c \<Longrightarrow> sc_contents s1 (path_normalize f) = Some c"
    "n \<noteq> path_normalize f \<Longrightarrow> sc_contents s1 n = sc_contents s n"
    using cases by (cases; auto dest: updateFile_result(1) simp: path_normalize_idem)+
  show "shouldSkipNodeModulesOutsideBaseDir B h1 n = shouldSkipNodeModulesOutsideBaseDir B h n"
    using cases
  proof cases
    case (upd c)
    then show ?thesis
      by (auto simp: updateFile_def Let_def shouldSkipNodeModulesOutsideBaseDir_def split: if_splits)
  qed simp
  show "\<not> b \<Longrightarrow> s1 = s" "b \<Longrightarrow> context_content s f \<noteq> None"
    "context_content s f = Some c \<Longrightarrow> b \<longleftrightarrow> sc_contents s (path_normalize f) \<noteq> Some c"
    using cases by (cases; auto dest: updateFile_result(4,5) simp: path_normalize_idem)+
qed

lemma getSourceFile_alt:
  "getSourceFile B f t new (s, h) =
     (if shouldSkipNodeModulesOutsideBaseDir B h (path_normalize f) then (None, s, h)
      else
        (let (b, s1, h1) = request_content_cached f (s, h);
             v = show_nat (version_of h1 (path_normalize f));
             ih = nullish (ch_importHelpers h1) False
         in case (if new then None else getCachedSourceFile s1 (path_normalize f) t v (ch_jsx h1) ih) of
              Some tree \<Rightarrow> (Some (tree, v), s1, h1)
            | None \<Rightarrow>
                (let (content, s2, h2) = readFile B f (s1, h1) in
                 case content of
                   Some c \<Rightarrow>
                     (Some (bh_parse B f c t, v),
                      setCachedSourceFile (path_normalize f) t v (bh_parse B f c t) (ch_jsx h2) ih s2, h2)
                 | None \<Rightarrow>
                     (map_option (\<lambda>tree. (tree, v)) (bh_getSourceFile B f t),
                      s2, trackFsCall ''getSourceFile-disk-fallback'' f h2))))"
  by (simp add: getSourceFile_def request_content_cached_def Let_def split: option.splits prod.splits)

text \<open>The file whose trees a lookup drops: one of the request with a content that is not the cached one.\<close>

definition dropped :: "'ast base_host \<Rightarrow> string \<Rightarrow> 'ast source_caches \<Rightarrow> compiler_host \<Rightarrow> string set" where
  "dropped B f s h =
     (if \<not> shouldSkipNodeModulesOutsideBaseDir B h (path_normalize f) \<and> fst (request_content_cached f (s, h))
      then {path_normalize f} else {})"

text \<open>
  Looking up a tree keeps the trees fresh, and the tree is one of the content of the request, if the
  trees of the file are fresh, are dropped or are not looked at.
\<close>

lemma getSourceFile_fresh:
  assumes "trees_fresh (bh_parse B) D s" "getSourceFile B f t new (s, h) = (r, s', h')"
  shows "trees_fresh (bh_parse B) ((D \<union> replaced s s') - dropped B f s h) s'"
    "context_content s f = Some c \<Longrightarrow> \<not> shouldSkipNodeModulesOutsideBaseDir B h (path_normalize f) \<Longrightarrow>
       new \<or> path_normalize f \<notin> D \<or> sc_contents s (path_normalize f) \<noteq> Some c \<Longrightarrow>
       \<exists>g v. path_normalize g = path_normalize f \<and> r = Some (bh_parse B g c t, v)"
proof -
  let ?n = "path_normalize f"
  let ?skip = "shouldSkipNodeModulesOutsideBaseDir B h ?n"
  obtain b s1 h1 where req: "request_content_cached f (s, h) = (b, s1, h1)" by (cases "request_content_cached f (s, h)")
  obtain content s2 h2 where read: "readFile B f (s1, h1) = (content, s2, h2)" by (cases "readFile B f (s1, h1)")
  note s1 = request_content_cached [OF req] and s2 = readFile_result [OF read]
  define v where "v = show_nat (version_of h1 ?n)"
  define ih where "ih = nullish (ch_importHelpers h1) False"
  define hit where "hit = (if new then None else getCachedSourceFile s1 ?n t v (ch_jsx h1) ih)"
  let ?D = "D - (if b then {?n} else {})"
  have fresh1: "trees_fresh (bh_parse B) ?D s1" by (rule s1(1) [OF assms(1)])
  note alt = assms(2) [unfolded getSourceFile_alt req read Let_def prod.case, folded v_def ih_def, folded hit_def]
  consider (skip) ?skip "r = None" "s' = s"
    | (hit) tree where "\<not> ?skip" "hit = Some tree" "r = Some (tree, v)" "s' = s1"
    | (parse) c' where "\<not> ?skip" "content = Some c'" "r = Some (bh_parse B f c' t, v)"
        "s' = setCachedSourceFile ?n t v (bh_parse B f c' t) (ch_jsx h2) ih s2"
    | (disk) "\<not> ?skip" "content = None" "s' = s2"
    using alt by (auto split: if_splits option.splits)
  note cases = this
  have ctx2: "sc_contents s2 = sc_contents s1" if b: "b" and noskip: "\<not> ?skip"
  proof -
    obtain c where c: "context_content s f = Some c" using s1(6) [OF b] by auto
    then have "sc_contents s1 ?n = Some c" "context_content s1 f = Some c" using s1(2,3) by simp_all
    then show ?thesis using s2(3) [of c] s1(4) noskip by (auto simp: fun_upd_idem)
  qed
  have sub: "?D \<union> replaced s1 s2 \<subseteq> (D \<union> replaced s s') - dropped B f s h"
    if noskip: "\<not> ?skip" and s': "sc_contents s' = sc_contents s2"
  proof (cases b)
    case True
    then show ?thesis using ctx2 noskip req by (auto simp: replaced_def dropped_def)
  next
    case False
    then show ?thesis using s1(5) s' req by (auto simp: replaced_def dropped_def)
  qed
  have fresh2: "trees_fresh (bh_parse B) (?D \<union> replaced s1 s2) s2"
    by (rule trees_fresh_replaced [OF fresh1 s2(1)])
  show "trees_fresh (bh_parse B) ((D \<union> replaced s s') - dropped B f s h) s'"
    using cases
  proof cases
    case skip
    then show ?thesis using assms(1) by (simp add: dropped_def)
  next
    case (hit tree)
    have "?D \<subseteq> (D \<union> replaced s s') - dropped B f s h" using req hit(1) by (auto simp: dropped_def)
    then show ?thesis using fresh1 hit(4) by (auto intro: trees_fresh_mono)
  next
    case (parse c')
    have "trees_fresh (bh_parse B) (?D \<union> replaced s1 s2) s'"
      unfolding parse(4) using s2(2) [OF parse(2)] by (intro trees_fresh_add [OF fresh2]) simp
    then show ?thesis using sub [OF parse(1)] parse(4) by (auto intro: trees_fresh_mono)
  next
    case disk
    then show ?thesis using fresh2 sub by (auto intro: trees_fresh_mono)
  qed
  show "\<exists>g v. path_normalize g = ?n \<and> r = Some (bh_parse B g c t, v)"
    if c: "context_content s f = Some c" "\<not> ?skip" "new \<or> ?n \<notin> D \<or> sc_contents s ?n \<noteq> Some c"
    using cases
  proof cases
    case (hit tree)
    then have "\<not> new" and lookup: "getCachedSourceFile s1 ?n t v (ch_jsx h1) ih = Some tree"
      by (auto simp: hit_def split: if_splits)
    then have "?n \<notin> ?D" using c(3) s1(7) [OF c(1)] by auto
    from trees_fresh_lookup [OF fresh1 this lookup] show ?thesis using hit(3) s1(3) [OF c(1)] by auto
  next
    case (parse c')
    have "content = Some c" using s2(3) [of c] s1(2) s1(4) [of B ?n] c by simp
    then show ?thesis using parse by auto
  next
    case disk
    have "content = Some c" using s2(3) [of c] s1(2) s1(4) [of B ?n] c by simp
    then show ?thesis using disk by simp
  qed (use c in simp)
qed

section \<open>Requests one after the other\<close>

text \<open>
  What happens to the caches in the life of a process, with any number of hosts and any changes
  on disk: the context of a request, trees that TypeScript asks for, updates of files, contents
  that are read, and the end of a session. The set holds the files whose cached content
  \<open>readFile\<close> replaced, which keeps the cached trees, and whose trees were not dropped since.
\<close>

inductive caches_reached ::
  "(string \<Rightarrow> string \<Rightarrow> int \<Rightarrow> 'ast) \<Rightarrow> 'ast source_caches \<Rightarrow> string set \<Rightarrow> bool" for parse where
  start: "caches_reached parse \<lparr>sc_contents = Map.empty, sc_parsed = Map.empty, sc_context = None\<rparr> {}"
| request: "caches_reached parse s D \<Longrightarrow> caches_reached parse (setSourceFilesContext files s) D"
| tree: "caches_reached parse s D \<Longrightarrow> bh_parse B = parse \<Longrightarrow> getSourceFile B f t new (s, h) = (r, s', h') \<Longrightarrow>
    caches_reached parse s' ((D \<union> replaced s s') - dropped B f s h)"
| update: "caches_reached parse s D \<Longrightarrow> updateFile f (Some c) (s, h) = (b, s', h') \<Longrightarrow>
    caches_reached parse s' (D - (if b then {path_normalize f} else {}))"
| read: "caches_reached parse s D \<Longrightarrow> readFile B f (s, h) = (content, s', h') \<Longrightarrow>
    caches_reached parse s' (D \<union> replaced s s')"
| clear: "caches_reached parse s D \<Longrightarrow> caches_reached parse (clearSourceFileContentCache s) {}"

lemma trees_stay_fresh: "caches_reached parse s D \<Longrightarrow> trees_fresh parse D s"
proof (induction rule: caches_reached.induct)
  case (request s D files)
  then show ?case using trees_fresh_context [of parse D "Some files" s] by (simp add: setSourceFilesContext_def)
next
  case (tree s D B f t new h r s' h')
  then show ?case using getSourceFile_fresh(1) [of B D s] by blast
next
  case (update s D f c h b s' h')
  then show ?case using updateFile_result(3) by blast
next
  case (read s D B f h content s' h')
  then show ?case using trees_fresh_replaced readFile_result(1) by blast
qed (simp_all add: trees_fresh_def clearSourceFileContentCache_def)

text \<open>
  C25. The tree TypeScript gets for a file of the request is parsed from the content in the request,
  whatever earlier requests, other hosts, updates, reads and changes on disk left in the caches; only a file in
  \<open>node_modules\<close> outside of the base directory may have none. The one exception is a file with cached
  trees whose cached content \<open>readFile\<close> replaced by this very content, if no new tree is asked for.
\<close>

theorem trees_match_request:
  assumes "caches_reached (bh_parse B) s D" "context_content s f = Some c"
    "\<not> shouldSkipNodeModulesOutsideBaseDir B h (path_normalize f)"
    "path_normalize f \<in> D \<Longrightarrow> new \<or> sc_contents s (path_normalize f) \<noteq> Some c"
    "getSourceFile B f t new (s, h) = (r, s', h')"
  shows "\<exists>g v. path_normalize g = path_normalize f \<and> r = Some (bh_parse B g c t, v)"
  using getSourceFile_fresh(2) [OF trees_stay_fresh [OF assms(1)] assms(5,2,3)] assms(4) by blast

text \<open>Two requests with different contents of a file, and a content read in between.\<close>

definition sample_host :: "(string \<times> string \<times> int) base_host" where
  "sample_host =
     \<lparr>bh_readFile = \<lambda>_. None, bh_fileExists = \<lambda>_. False, bh_getSourceFile = \<lambda>_ _. None,
      bh_libLocation = ''/lib'', bh_readDirectory = \<lambda>_. [], bh_parse = \<lambda>f c t. (f, c, t)\<rparr>"

definition first_request :: "(string \<times> string \<times> int) source_caches \<times> compiler_host" where
  "first_request =
     snd (getSourceFile sample_host ''/p/a.ts'' 9 False
       (setSourceFilesContext [''/p/a.ts'' \<mapsto> Some ''x'']
          \<lparr>sc_contents = Map.empty, sc_parsed = Map.empty, sc_context = None\<rparr>, new_host None None ''/p'' False))"

definition second_request :: "(string \<times> string \<times> int) source_caches" where
  "second_request = setSourceFilesContext [''/p/a.ts'' \<mapsto> Some ''y''] (fst first_request)"

lemmas sample_simps = sample_host_def first_request_def second_request_def getSourceFile_def updateFile_def
  readFile_def setSourceFilesContext_def context_content_def new_host_def Let_def
  shouldSkipNodeModulesOutsideBaseDir_def getCachedSourceFile_def setCachedSourceFile_def
  invalidateParsedSourceFile_def version_of_def trackFsCall_def

lemma second_request_reached: "caches_reached (bh_parse sample_host) second_request {}"
proof -
  obtain r s h where f: "getSourceFile sample_host ''/p/a.ts'' 9 False
       (setSourceFilesContext [''/p/a.ts'' \<mapsto> Some ''x'']
          \<lparr>sc_contents = Map.empty, sc_parsed = Map.empty, sc_context = None\<rparr>, new_host None None ''/p'' False) = (r, s, h)"
    by (metis prod_cases3)
  have "caches_reached (bh_parse sample_host) s
      (({} \<union> replaced (setSourceFilesContext [''/p/a.ts'' \<mapsto> Some ''x'']
          \<lparr>sc_contents = Map.empty, sc_parsed = Map.empty, sc_context = None\<rparr>) s)
        - dropped sample_host ''/p/a.ts'' (setSourceFilesContext [''/p/a.ts'' \<mapsto> Some ''x'']
          \<lparr>sc_contents = Map.empty, sc_parsed = Map.empty, sc_context = None\<rparr>) (new_host None None ''/p'' False))"
    by (rule caches_reached.tree [OF caches_reached.request [OF caches_reached.start] refl f])
  then have "caches_reached (bh_parse sample_host) s {}" by (simp add: replaced_def setSourceFilesContext_def)
  then show ?thesis unfolding second_request_def first_request_def f by (auto intro: caches_reached.request)
qed

theorem trees_match_request_witness:
  "\<exists>g v. path_normalize g = path_normalize ''/p/a.ts''
     \<and> fst (getSourceFile sample_host ''/p/a.ts'' 9 False (second_request, snd first_request))
         = Some (bh_parse sample_host g ''y'' 9, v)"
proof -
  obtain r s h where g: "getSourceFile sample_host ''/p/a.ts'' 9 False (second_request, snd first_request) = (r, s, h)"
    by (metis prod_cases3)
  have "context_content second_request ''/p/a.ts'' = Some ''y''"
    by (simp add: context_content_def second_request_def setSourceFilesContext_def)
  moreover have "\<not> shouldSkipNodeModulesOutsideBaseDir sample_host (snd first_request) (path_normalize ''/p/a.ts'')"
    by (simp add: sample_simps)
  ultimately show ?thesis using trees_match_request [OF second_request_reached _ _ _ g] unfolding g by simp
qed

text \<open>
  Reading the content in between updates the cache without dropping the trees: the lookup then sees
  no change and returns the tree of the earlier request.
\<close>

lemma read_before_tree_gives_stale_tree:
  "fst (getSourceFile sample_host ''/p/a.ts'' 9 False
     (snd (readFile sample_host ''/p/a.ts'' (second_request, snd first_request))))
   = Some ((''/p/a.ts'', ''x'', 9), ''1'')"
  by (simp add: sample_simps) code_simp

end
