(* ===== verification/Tsconfig_Options.thy ===== *)
theory Tsconfig_Options
  imports Project_Configuration Source_Files
begin

text \<open>
  Options of TypeScript programs: \<open>packages/analysis/src/jsts/program/tsconfig/options.ts\<close> and
  \<open>utils.ts\<close>, with the caches of \<open>program/cache/programOptionsCache.ts\<close> and \<open>tsconfigCache.ts\<close>.
  TypeScript's parser of configuration files is a parameter, a tree of the reads it does on the
  host; \<open>convert_lib\<close> is \<open>convertCompilerOptionsFromJson\<close> for the option \<open>lib\<close>, \<open>target_name\<close> is
  the enumeration \<open>ScriptTarget\<close>. Signals of package manifests are parameters too. Compiler
  options that nothing here looks at are one value.
\<close>

section \<open>Node versions\<close>

text \<open>The matches of \<open>/(\d+)(?:\.\d+)*/g\<close>, each as the digits of its first group.\<close>

function skip_dotted :: "string \<Rightarrow> string" where
  "skip_dotted s =
     (case s of
        c # d # r \<Rightarrow> if c = CHR ''.'' \<and> is_numeral d then skip_dotted (dropWhile is_numeral r) else s
      | _ \<Rightarrow> s)"
  by pat_completeness auto
termination by (relation "measure length") (auto simp: le_imp_less_Suc length_dropWhile_le less_SucI)

declare skip_dotted.simps [simp del]

lemma length_skip_dotted: "length (skip_dotted s) \<le> length s"
proof (induction s rule: skip_dotted.induct)
  case (1 s)
  show ?case
  proof (cases "\<exists>c d r. s = c # d # r \<and> c = CHR ''.'' \<and> is_numeral d")
    case True
    then obtain c d r where s: "s = c # d # r" "c = CHR ''.''" "is_numeral d" by blast
    have "length (dropWhile is_numeral r) \<le> length r" by (rule length_dropWhile_le)
    then show ?thesis using 1 [OF s(1) refl] s by (subst skip_dotted.simps) simp
  next
    case False
    then show ?thesis by (subst skip_dotted.simps) (auto split: list.split)
  qed
qed

function version_numbers :: "string \<Rightarrow> nat list" where
  "version_numbers [] = []"
| "version_numbers (c # s) =
     (if is_numeral c
      then the (digits_value 0 (c # takeWhile is_numeral s)) # version_numbers (skip_dotted (dropWhile is_numeral s))
      else version_numbers s)"
  by pat_completeness auto
termination
proof (relation "measure length", goal_cases)
  case (2 c s)
  have "length (skip_dotted (dropWhile is_numeral s)) \<le> length s"
    using length_skip_dotted length_dropWhile_le le_trans by blast
  then show ?case by simp
qed auto

definition parseMaxNodeMajor :: "string \<Rightarrow> nat option" where
  "parseMaxNodeMajor versionStr =
     (if versionStr = '''' \<or> versionStr = ''*'' \<or> versionStr = ''latest'' then None
      else (let nums = filter (\<lambda>n. 8 \<le> n \<and> n < 100) (version_numbers versionStr)
            in if nums = [] then None else Some (fold max nums 0)))"

definition NODE_TO_ES :: "(nat \<times> nat) list" where
  "NODE_TO_ES = [(22, 2024), (20, 2023), (18, 2022), (16, 2021), (14, 2020), (12, 2019), (10, 2018), (8, 2017)]"

fun node_to_es :: "(nat \<times> nat) list \<Rightarrow> nat \<Rightarrow> nat" where
  "node_to_es [] major = 2017"
| "node_to_es ((nodeMajor, esYear) # rest) major = (if major \<ge> nodeMajor then esYear else node_to_es rest major)"

definition nodeVersionToEs :: "nat \<Rightarrow> nat" where
  "nodeVersionToEs = node_to_es NODE_TO_ES"

section \<open>Years of ECMAScript\<close>

definition MIN_FIXED_ES_YEAR :: nat where
  "MIN_FIXED_ES_YEAR = 2015"

definition MAX_FIXED_ES_YEAR :: nat where
  "MAX_FIXED_ES_YEAR = 2030"

definition LAST_PRE_ES2015_YEAR :: nat where
  "LAST_PRE_ES2015_YEAR = MIN_FIXED_ES_YEAR - 1"

definition isFixedEsYear :: "nat \<Rightarrow> bool" where
  "isFixedEsYear year \<longleftrightarrow> year \<ge> MIN_FIXED_ES_YEAR \<and> year \<le> MAX_FIXED_ES_YEAR"

definition upper_char :: "char \<Rightarrow> char" where
  "upper_char c = (let n = of_char c :: nat in if 97 \<le> n \<and> n \<le> 122 then char_of (n - 32) else c)"

definition toUpperCase :: "string \<Rightarrow> string" where
  "toUpperCase = map upper_char"

text \<open>\<open>/^ES(\d{4})$/\<close>, and the year if it is a fixed one.\<close>

definition es_year :: "string \<Rightarrow> nat option" where
  "es_year s =
     (if length s = 6 \<and> take 2 s = ''ES'' \<and> list_all is_numeral (drop 2 s)
      then digits_value 0 (drop 2 s) else None)"

definition fixed_es_year :: "string \<Rightarrow> nat option" where
  "fixed_es_year s =
     (case es_year s of None \<Rightarrow> None | Some year \<Rightarrow> if isFixedEsYear year then Some year else None)"

definition esYearFromEsPrefix :: "string \<Rightarrow> nat option" where
  "esYearFromEsPrefix ecmaScriptVersion = fixed_es_year (toUpperCase ecmaScriptVersion)"

definition targetStringToEsYear :: "string \<Rightarrow> nat option" where
  "targetStringToEsYear target =
     (let upper = toUpperCase target in
      if upper = ''ESNEXT'' \<or> upper = ''JSON'' then None
      else if upper = ''ES3'' \<or> upper = ''ES5'' then Some 2020
      else fixed_es_year upper)"

definition targetOptionToString :: "(int \<Rightarrow> string option) \<Rightarrow> int option \<Rightarrow> string option" where
  "targetOptionToString target_name target = Option.bind target target_name"

definition tsTargetToEsYear :: "(int \<Rightarrow> string option) \<Rightarrow> int option \<Rightarrow> nat option" where
  "tsTargetToEsYear target_name target =
     (case map_option toUpperCase (targetOptionToString target_name target) of
        None \<Rightarrow> None
      | Some targetName \<Rightarrow>
          if targetName = '''' \<or> targetName = ''ESNEXT'' \<or> targetName = ''JSON'' then None
          else if targetName = ''ES3'' \<or> targetName = ''ES5'' then Some LAST_PRE_ES2015_YEAR
          else fixed_es_year targetName)"

text \<open>\<open>(\..*)?\.d\.ts$\<close> after the name of a library; the search takes the first place that matches.\<close>

definition lib_suffix :: regex where
  "lib_suffix = RSeq (ROpt (RSeq (lit ''.'') (RStar line_char))) (lit ''.d.ts'')"

definition es_lib_at :: "string \<Rightarrow> nat option" where
  "es_lib_at s =
     (if starts_with s ''lib.es'' \<and> length (takeWhile is_numeral (take 4 (drop 6 s))) = 4
         \<and> full_match lib_suffix (drop 10 s)
      then digits_value 0 (take 4 (drop 6 s)) else None)"

fun es_lib_year :: "string \<Rightarrow> nat option" where
  "es_lib_year [] = None"
| "es_lib_year (c # s) = (case es_lib_at (c # s) of Some y \<Rightarrow> Some y | None \<Rightarrow> es_lib_year s)"

definition max_year :: "nat option \<Rightarrow> string \<Rightarrow> nat option" where
  "max_year maxYear entry =
     (case es_lib_year entry of
        None \<Rightarrow> maxYear
      | Some year \<Rightarrow>
          (case maxYear of None \<Rightarrow> Some year | Some m \<Rightarrow> if year > m then Some year else maxYear))"

definition esLibToYear :: "string list option \<Rightarrow> nat option" where
  "esLibToYear libs =
     (case libs of
        None \<Rightarrow> None
      | Some entries \<Rightarrow>
          if list_ex (search_end (RSeq (lit ''lib.esnext'') lib_suffix)) entries then None
          else foldl max_year None entries)"

section \<open>The library of a package\<close>

text \<open>\<open>nodeSignal\<close> is \<open>getNodeVersionSignal\<close>.\<close>

definition computeLibJson ::
  "(string \<Rightarrow> string \<Rightarrow> string option) \<Rightarrow> string option \<Rightarrow> string option \<Rightarrow> string \<Rightarrow> string \<Rightarrow> string list" where
  "computeLibJson nodeSignal ecmaScriptVersion targetJson packageDir baseDir =
     (case (if or_default ecmaScriptVersion '''' = '''' then None
            else esYearFromEsPrefix (or_default ecmaScriptVersion '''')) of
        Some year \<Rightarrow> [''es'' @ show_nat year, ''dom'']
      | None \<Rightarrow>
          (let fromTarget = (if or_default targetJson '''' = '''' then None
                             else targetStringToEsYear (or_default targetJson ''''));
               signal = or_default (nodeSignal packageDir baseDir) '''';
               major = (if signal = '''' then None else parseMaxNodeMajor signal);
               years = (case fromTarget of None \<Rightarrow> [] | Some y \<Rightarrow> [y])
                 @ (case major of None \<Rightarrow> [] | Some n \<Rightarrow> [nodeVersionToEs n])
           in if years = [] then [''esnext'', ''dom'']
              else [''es'' @ show_nat (fold max years 0), ''dom'']))"

text \<open>\<open>dirname\<close> of \<open>node:path/posix\<close>: slashes at the end do not count.\<close>

definition dirnamePath :: "string \<Rightarrow> string" where
  "dirnamePath p =
     (case p of
        [] \<Rightarrow> ''.''
      | c # s \<Rightarrow>
          (case dropWhile (\<lambda>d. d \<noteq> CHR ''/'') (dropWhile (\<lambda>d. d = CHR ''/'') (rev s)) of
             [] \<Rightarrow> if c = CHR ''/'' then ''/'' else ''.''
           | _ # r \<Rightarrow> if c = CHR ''/'' \<and> r = [] then ''//'' else c # rev r))"

record lib_group =
  lg_lib :: "string list"
  lg_libKey :: string
  lg_files :: "string list"

type_synonym lib_caches = "(string, string list \<times> string) js_map \<times> (string, lib_group) js_map"

text \<open>\<open>manifestDir\<close> is \<open>getClosestDependencyManifestDir\<close>.\<close>

definition group_file ::
  "(string \<Rightarrow> string \<Rightarrow> string option) \<Rightarrow> (string \<Rightarrow> string \<Rightarrow> string option) \<Rightarrow> string \<Rightarrow> string option
   \<Rightarrow> lib_caches \<Rightarrow> string \<Rightarrow> lib_caches" where
  "group_file manifestDir nodeSignal baseDir ecmaScriptVersion = (\<lambda>(libByPkgDir, groups) f.
     (let pkgDir = nullish (manifestDir (dirnamePath f) baseDir) baseDir;
          (cached, libByPkgDir') =
            (case map_of libByPkgDir pkgDir of
               Some c \<Rightarrow> (c, libByPkgDir)
             | None \<Rightarrow>
                 (let libs = computeLibJson nodeSignal ecmaScriptVersion None pkgDir baseDir;
                      c = (libs, join_with ''|'' libs)
                  in (c, js_set pkgDir c libByPkgDir)));
          bucket = (case map_of groups (snd cached) of
               Some b \<Rightarrow> b
             | None \<Rightarrow> \<lparr>lg_lib = fst cached, lg_libKey = snd cached, lg_files = []\<rparr>)
      in (libByPkgDir', js_set (snd cached) (bucket\<lparr>lg_files := lg_files bucket @ [f]\<rparr>) groups)))"

definition groupFilesByResolvedLib ::
  "(string \<Rightarrow> string \<Rightarrow> string option) \<Rightarrow> (string \<Rightarrow> string \<Rightarrow> string option) \<Rightarrow> string list \<Rightarrow> string
   \<Rightarrow> string option \<Rightarrow> lib_group list" where
  "groupFilesByResolvedLib manifestDir nodeSignal files baseDir ecmaScriptVersion =
     map snd (snd (foldl (group_file manifestDir nodeSignal baseDir ecmaScriptVersion) ([], []) files))"

section \<open>Groups of files\<close>

text \<open>The library a file resolves to, and the state of the loop after some files.\<close>

definition lib_of ::
  "(string \<Rightarrow> string \<Rightarrow> string option) \<Rightarrow> (string \<Rightarrow> string \<Rightarrow> string option) \<Rightarrow> string \<Rightarrow> string option
   \<Rightarrow> string \<Rightarrow> string list" where
  "lib_of manifestDir nodeSignal baseDir v f =
     computeLibJson nodeSignal v None (nullish (manifestDir (dirnamePath f) baseDir) baseDir) baseDir"

lemma computeLibJson_shape: "\<exists>e. computeLibJson N v t d b = [e, ''dom''] \<and> (e = ''esnext'' \<or> (\<exists>y. e = ''es'' @ show_nat y))"
  by (auto simp: computeLibJson_def Let_def split: option.splits)

lemma bar_not_in_lib: "e \<in> set (computeLibJson N v t d b) \<Longrightarrow> CHR ''|'' \<notin> set e"
proof -
  have "CHR ''|'' \<notin> set (show_nat y)" for y
    using show_nat_digits [of y] by (auto simp: list_all_iff is_numeric_def)
  then show "e \<in> set (computeLibJson N v t d b) \<Longrightarrow> CHR ''|'' \<notin> set e"
    using computeLibJson_shape [of N v t d b] by auto
qed

lemma lib_key_inject:
  "join_with ''|'' (computeLibJson N v t d b) = join_with ''|'' (computeLibJson N v' t' d' b') \<longleftrightarrow>
   computeLibJson N v t d b = computeLibJson N v' t' d' b'" (is "?l = ?r \<longleftrightarrow> ?x = ?y")
proof
  assume eq: "?l = ?r"
  have "?x = split_on (CHR ''|'') ?l"
    using computeLibJson_shape [of N v t d b] bar_not_in_lib [of _ N v t d b] by (intro split_join [symmetric]) auto
  also have "\<dots> = ?y"
    unfolding eq using computeLibJson_shape [of N v' t' d' b'] bar_not_in_lib [of _ N v' t' d' b']
    by (intro split_join) auto
  finally show "?x = ?y" .
qed simp

definition bucket_of :: "(string \<Rightarrow> string list) \<Rightarrow> string list \<Rightarrow> string \<Rightarrow> lib_group option" where
  "bucket_of lib fs k =
     (case filter (\<lambda>f. join_with ''|'' (lib f) = k) fs of
        [] \<Rightarrow> None
      | f # r \<Rightarrow> Some \<lparr>lg_lib = lib f, lg_libKey = k, lg_files = f # r\<rparr>)"

lemma bucket_of_snoc:
  "bucket_of lib (fs @ [f]) k =
     (if k = join_with ''|'' (lib f)
      then Some (let b = nullish (bucket_of lib fs k) \<lparr>lg_lib = lib f, lg_libKey = k, lg_files = []\<rparr>
                 in b\<lparr>lg_files := lg_files b @ [f]\<rparr>)
      else bucket_of lib fs k)"
  by (auto simp: bucket_of_def split: list.split)

lemma group_files:
  assumes "foldl (group_file M N b v) ([], []) fs = (cache, groups)"
  shows "distinct (js_keys groups) \<and> map_of groups = bucket_of (lib_of M N b v) fs
    \<and> (\<forall>d c. map_of cache d = Some c \<longrightarrow>
         c = (computeLibJson N v None d b, join_with ''|'' (computeLibJson N v None d b)))"
  using assms
proof (induction fs arbitrary: cache groups rule: rev_induct)
  case Nil
  then show ?case by (auto simp: bucket_of_def)
next
  case (snoc f fs)
  obtain cache0 groups0 where pre: "foldl (group_file M N b v) ([], []) fs = (cache0, groups0)"
    by (cases "foldl (group_file M N b v) ([], []) fs")
  note IH = snoc.IH [OF pre]
  define d where "d = nullish (M (dirnamePath f) b) b"
  define libs where "libs = computeLibJson N v None d b"
  have lib: "lib_of M N b v f = libs" by (simp add: lib_of_def libs_def d_def)
  have step: "group_file M N b v (cache0, groups0) f = (cache, groups)" using snoc.prems pre by simp
  have cached0: "map_of cache0 d' = Some c \<Longrightarrow>
      c = (computeLibJson N v None d' b, join_with ''|'' (computeLibJson N v None d' b))" for d' c
    using IH by blast
  have cached: "map_of cache0 d = Some c \<Longrightarrow> c = (libs, join_with ''|'' libs)" for c
    unfolding libs_def by (rule cached0)
  then have groups: "groups = js_set (join_with ''|'' libs)
      (let bk = nullish (map_of groups0 (join_with ''|'' libs)) \<lparr>lg_lib = libs, lg_libKey = join_with ''|'' libs, lg_files = []\<rparr>
       in bk\<lparr>lg_files := lg_files bk @ [f]\<rparr>) groups0"
    and cache: "cache = cache0 \<or> cache = js_set d (libs, join_with ''|'' libs) cache0"
    using step unfolding group_file_def prod.case d_def [symmetric] libs_def [symmetric] Let_def
    by (cases "map_of cache0 d"; cases "map_of groups0 (join_with ''|'' libs)"; simp)+
  have "map_of groups k = bucket_of (lib_of M N b v) (fs @ [f]) k" for k
    using IH unfolding groups bucket_of_snoc lib by (simp add: AList.update_conv')
  moreover have "distinct (js_keys groups)" unfolding groups using IH by (simp add: AList.distinct_update)
  moreover have "map_of cache d' = Some c \<Longrightarrow>
      c = (computeLibJson N v None d' b, join_with ''|'' (computeLibJson N v None d' b))" for d' c
    using cache
  proof
    assume "cache = js_set d (libs, join_with ''|'' libs) cache0" and c: "map_of cache d' = Some c"
    then show ?thesis using cached0 [of d' c] by (cases "d' = d") (simp_all add: AList.update_conv' libs_def)
  qed (use cached0 in simp)
  ultimately show ?case by blast
qed

lemma bucket_of_Some:
  assumes "bucket_of lib fs k = Some g" "\<And>f g. join_with ''|'' (lib f) = join_with ''|'' (lib g) \<longleftrightarrow> lib f = lib g"
  shows "k = join_with ''|'' (lg_lib g)" "lg_files g = filter (\<lambda>f. lib f = lg_lib g) fs" "lg_lib g \<in> lib ` set fs"
proof -
  obtain f r where fr: "filter (\<lambda>f. join_with ''|'' (lib f) = k) fs = f # r"
    "g = \<lparr>lg_lib = lib f, lg_libKey = k, lg_files = f # r\<rparr>"
    using assms(1) by (auto simp: bucket_of_def split: list.splits)
  then have "f \<in> set (filter (\<lambda>f. join_with ''|'' (lib f) = k) fs)" by simp
  then have f: "f \<in> set fs" "join_with ''|'' (lib f) = k" by simp_all
  then have "filter (\<lambda>f'. lib f' = lib f) fs = f # r"
    using fr(1) assms(2) [of _ f] by (simp cong: filter_cong)
  then show "k = join_with ''|'' (lg_lib g)" "lg_files g = filter (\<lambda>f. lib f = lg_lib g) fs" "lg_lib g \<in> lib ` set fs"
    using fr(2) f by auto
qed

lemma bucket_of_member: "f \<in> set fs \<Longrightarrow> bucket_of lib fs (join_with ''|'' (lib f)) \<noteq> None"
proof -
  assume "f \<in> set fs"
  then have "filter (\<lambda>f'. join_with ''|'' (lib f') = join_with ''|'' (lib f)) fs \<noteq> []"
    by (auto simp: filter_empty_conv)
  then show ?thesis by (auto simp: bucket_of_def split: list.split)
qed

lemma mset_by_key:
  assumes "distinct ls" "set ls = f ` set xs"
  shows "mset (concat (map (\<lambda>l. filter (\<lambda>x. f x = l) xs) ls)) = mset xs"
proof (rule multiset_eqI)
  fix x
  have "count (mset (concat (map (\<lambda>l. filter (\<lambda>x. f x = l) xs) ls'))) x
      = (if f x \<in> set ls' then count (mset xs) x else 0)" if "distinct ls'" for ls'
    using that by (induction ls') auto
  then show "count (mset (concat (map (\<lambda>l. filter (\<lambda>x. f x = l) xs) ls))) x = count (mset xs) x"
    using assms by (auto simp: not_in_iff)
qed

lemma groups_by_library:
  "\<exists>libs. distinct libs \<and> set libs = lib_of M N baseDir version ` set files
     \<and> map lg_lib (groupFilesByResolvedLib M N files baseDir version) = libs
     \<and> map lg_files (groupFilesByResolvedLib M N files baseDir version)
         = map (\<lambda>l. filter (\<lambda>f. lib_of M N baseDir version f = l) files) libs
     \<and> mset (concat (map lg_files (groupFilesByResolvedLib M N files baseDir version))) = mset files"
proof -
  let ?lib = "lib_of M N baseDir version"
  obtain cache gm where f: "foldl (group_file M N baseDir version) ([], []) files = (cache, gm)"
    by (cases "foldl (group_file M N baseDir version) ([], []) files")
  have gs: "groupFilesByResolvedLib M N files baseDir version = map snd gm" by (simp add: groupFilesByResolvedLib_def f)
  note gm = group_files [OF f]
  have key: "join_with ''|'' (?lib f) = join_with ''|'' (?lib g) \<longleftrightarrow> ?lib f = ?lib g" for f g
    unfolding lib_of_def by (rule lib_key_inject)
  have entry: "bucket_of ?lib files k = Some g" if "(k, g) \<in> set gm" for k g
    using that gm by (metis map_of_eq_Some_iff)
  note bucket = bucket_of_Some [OF entry key]
  define libs where "libs = map (lg_lib \<circ> snd) gm"
  have "js_keys gm = map (join_with ''|'') libs"
    using bucket(1) by (auto simp: libs_def map_eq_conv)
  then have dist: "distinct libs" using gm by (simp add: distinct_map)
  have libs: "set libs = ?lib ` set files"
  proof (intro set_eqI iffI)
    fix l assume "l \<in> ?lib ` set files"
    then obtain f where f: "f \<in> set files" "l = ?lib f" by blast
    then obtain g where "map_of gm (join_with ''|'' (?lib f)) = Some g" using bucket_of_member gm by force
    then have g: "(join_with ''|'' (?lib f), g) \<in> set gm" by (rule map_of_SomeD)
    then have "lg_lib g = ?lib f" using bucket(1,3) [OF g] key by auto
    then show "l \<in> set libs" using g f by (force simp: libs_def)
  qed (use bucket(3) in \<open>auto simp: libs_def\<close>)
  have files: "map (lg_files \<circ> snd) gm = map (\<lambda>l. filter (\<lambda>f. ?lib f = l) files) libs"
    using bucket(2) by (auto simp: libs_def map_eq_conv)
  have "mset (concat (map lg_files (map snd gm))) = mset files"
    using mset_by_key [OF dist libs] unfolding map_map files .
  moreover have "map lg_lib (map snd gm) = libs" by (simp add: libs_def)
  ultimately show ?thesis unfolding gs using dist libs files by (intro exI [of _ libs] conjI) simp_all
qed

text \<open>
  Files are grouped by the library they resolve to: there is one group for each library of a
  file, it holds the files with that library in their order, and so every file is in exactly one
  group.
\<close>

theorem groups_are_those_of_the_libraries:
  "\<exists>libs. distinct libs \<and> set libs = lib_of M N baseDir version ` set files
     \<and> map lg_lib (groupFilesByResolvedLib M N files baseDir version) = libs
     \<and> map lg_files (groupFilesByResolvedLib M N files baseDir version)
         = map (\<lambda>l. filter (\<lambda>f. lib_of M N baseDir version f = l) files) libs
     \<and> mset (concat (map lg_files (groupFilesByResolvedLib M N files baseDir version))) = mset files"
  by (rule groups_by_library)

section \<open>Configuration files\<close>

definition isRootNodeModules :: "string \<Rightarrow> bool" where
  "isRootNodeModules f = starts_with (normalizePath f) (normalizePath (path_join [''/'', ''node_modules'']))"

definition isLastTsConfigCheck :: "string \<Rightarrow> bool" where
  "isLastTsConfigCheck f \<longleftrightarrow> base_name f = ''tsconfig.json'' \<and> isRootNodeModules f"

text \<open>What the parser asks its host, and what it does with the answer.\<close>

datatype 'a config_reader =
    Done 'a
  | ReadFile string "string option \<Rightarrow> 'a config_reader"
  | FileExists string "bool \<Rightarrow> 'a config_reader"
  | ReadDirectory string "string list" "string list \<Rightarrow> 'a config_reader"

record base_parse_host =
  bp_readDirectory :: "string \<Rightarrow> string list \<Rightarrow> string list"
  bp_fileExists :: "string \<Rightarrow> bool"
  bp_readFile :: "string \<Rightarrow> string option"

text \<open>
  \<open>sys\<close> is the file system of TypeScript; the source file store gives the files of the request and
  the names in a directory.
\<close>

definition createBaseParseConfigHost ::
  "string \<Rightarrow> bool \<Rightarrow> base_parse_host \<Rightarrow> (string \<rightharpoonup> string) \<Rightarrow> (string \<rightharpoonup> string list) \<Rightarrow> base_parse_host" where
  "createBaseParseConfigHost cwd canAccessFileSystem sys files filesInDirectory =
     (let absolute = (\<lambda>p. normalizeToAbsolutePath cwd p ROOT_PATH) in
      \<lparr>bp_readDirectory = (\<lambda>rootDir extensions.
          if canAccessFileSystem then bp_readDirectory sys rootDir extensions
          else filter (\<lambda>f. list_ex (\<lambda>ext. ends_with f ext) extensions) (nullish (filesInDirectory (absolute rootDir)) [])),
       bp_fileExists = (\<lambda>p. if canAccessFileSystem then bp_fileExists sys p else files (absolute p) \<noteq> None),
       bp_readFile = (\<lambda>p. if canAccessFileSystem then bp_readFile sys p else files (absolute p))\<rparr>)"

text \<open>The content cache with the flag \<open>missing\<close>, and the variable \<open>missingTsConfig\<close>.\<close>

type_synonym content_cache = "string \<rightharpoonup> string \<times> bool"

definition config_fileExists :: "base_parse_host \<Rightarrow> content_cache \<Rightarrow> string \<Rightarrow> bool" where
  "config_fileExists base cache f = (if cache f \<noteq> None \<or> isLastTsConfigCheck f then True else bp_fileExists base f)"

definition config_readFile ::
  "base_parse_host \<Rightarrow> string \<Rightarrow> string option \<Rightarrow> string \<Rightarrow> content_cache \<times> bool
   \<Rightarrow> string option \<times> content_cache \<times> bool" where
  "config_readFile base tsConfig tsconfigContents f = (\<lambda>(cache, missing).
     if tsConfig \<noteq> '''' \<and> f = tsConfig \<and> tsconfigContents \<noteq> None then (tsconfigContents, cache, missing)
     else case cache f of
       Some (contents, m) \<Rightarrow> (Some contents, cache, m)
     | None \<Rightarrow>
         (let fileContents = bp_readFile base f in
          if or_default fileContents '''' = '''' \<and> isLastTsConfigCheck f
          then (Some ''{}'', cache(f \<mapsto> (''{}'', True)), True)
          else if or_default fileContents '''' \<noteq> ''''
          then (fileContents, cache(f \<mapsto> (or_default fileContents '''', False)), missing)
          else (fileContents, cache, missing)))"

primrec run_reader ::
  "base_parse_host \<Rightarrow> string \<Rightarrow> string option \<Rightarrow> 'a config_reader \<Rightarrow> content_cache \<times> bool
   \<Rightarrow> 'a \<times> content_cache \<times> bool" where
  "run_reader base tsConfig contents (Done x) st = (x, st)"
| "run_reader base tsConfig contents (ReadFile f k) st =
     (let (c, st') = config_readFile base tsConfig contents f st in run_reader base tsConfig contents (k c) st')"
| "run_reader base tsConfig contents (FileExists f k) st =
     run_reader base tsConfig contents (k (config_fileExists base (fst st) f)) st"
| "run_reader base tsConfig contents (ReadDirectory d exts k) st =
     run_reader base tsConfig contents (k (bp_readDirectory base d exts)) st"

section \<open>Program options\<close>

record 'o compiler_options =
  co_lib :: "string list option"
  co_target :: "int option"
  co_jsx :: "int option"
  co_importHelpers :: "bool option"
  co_flags :: "(string, bool) js_map"
  co_other :: 'o

record 'o program_options =
  po_rootNames :: "string list"
  po_options :: "'o compiler_options"
  po_projectReferences :: "string list option"
  po_missingTsConfig :: bool

text \<open>
  A parsed configuration. \<open>pr_explicit\<close> has the names in the \<open>compilerOptions\<close> of the file itself
  and of those it extends, where they have any; a diagnostic is an error or not, with its text.
\<close>

record 'o parsed_config =
  pr_fileNames :: "string list"
  pr_options :: "'o compiler_options"
  pr_projectReferences :: "string list option"
  pr_errors :: "(bool \<times> string) list"
  pr_explicit :: "string list option list"

record 'o typescript_config =
  tc_readConfigFile :: "string \<Rightarrow> (string + string) config_reader"
  tc_parse :: "string \<Rightarrow> string \<Rightarrow> string \<Rightarrow> 'o parsed_config config_reader"
  tc_convert_lib :: "string list \<Rightarrow> string \<Rightarrow> string list option"
  tc_convert :: "string list option \<Rightarrow> string \<Rightarrow> 'o compiler_options"
  tc_target_name :: "int \<Rightarrow> string option"

text \<open>The signals of package manifests, and the current directory.\<close>

record manifests =
  mf_cwd :: string
  mf_closestDir :: "string \<Rightarrow> string \<Rightarrow> string option"
  mf_nodeSignal :: "string \<Rightarrow> string \<Rightarrow> string option"
  mf_typeScriptBelow6 :: "string \<Rightarrow> bool"

definition STRICTNESS_COMPILER_OPTIONS :: "string list" where
  "STRICTNESS_COMPILER_OPTIONS =
     [''strict'', ''alwaysStrict'', ''noImplicitAny'', ''noImplicitThis'', ''strictBindCallApply'',
      ''strictBuiltinIteratorReturn'', ''strictFunctionTypes'', ''strictNullChecks'',
      ''strictPropertyInitialization'', ''useUnknownInCatchVariables'']"

definition addExplicitStrictnessCompilerOptions :: "string list option \<Rightarrow> string list \<Rightarrow> string list" where
  "addExplicitStrictnessCompilerOptions options explicitOptions =
     (case options of
        None \<Rightarrow> explicitOptions
      | Some names \<Rightarrow>
          fold (\<lambda>n acc. if n \<in> set names then List.insert n acc else acc) STRICTNESS_COMPILER_OPTIONS explicitOptions)"

definition getExplicitStrictnessCompilerOptions :: "string list option list \<Rightarrow> string list" where
  "getExplicitStrictnessCompilerOptions configs = fold addExplicitStrictnessCompilerOptions configs []"

definition applyLegacyStrictnessDefaults :: "'o parsed_config \<Rightarrow> 'o parsed_config" where
  "applyLegacyStrictnessDefaults parsed =
     (let explicitOptions = getExplicitStrictnessCompilerOptions (pr_explicit parsed) in
      if ''strict'' \<in> set explicitOptions then parsed
      else parsed\<lparr>pr_options := (pr_options parsed)\<lparr>co_flags :=
        fold (\<lambda>n flags. if n \<notin> set explicitOptions then js_set n False flags else flags)
          STRICTNESS_COMPILER_OPTIONS (co_flags (pr_options parsed))\<rparr>\<rparr>)"

definition shouldApplyLegacyStrictnessDefaults :: "manifests \<Rightarrow> string option \<Rightarrow> bool" where
  "shouldApplyLegacyStrictnessDefaults M baseDir =
     (if or_default baseDir '''' = '''' then False else mf_typeScriptBelow6 M (or_default baseDir ''''))"

text \<open>The directory whose Node signal counts for a configuration file.\<close>

definition config_packageDir :: "manifests \<Rightarrow> string \<Rightarrow> string \<Rightarrow> string" where
  "config_packageDir M tsConfig baseDir =
     (let tsconfigDir = normalizeToAbsolutePath (mf_cwd M) (dirnamePath tsConfig) ROOT_PATH;
          under = tsconfigDir = baseDir \<or> starts_with (tsconfigDir @ ''/'') (baseDir @ ''/'')
      in if under then nullish (mf_closestDir M tsconfigDir baseDir) baseDir else baseDir)"

definition enrich_lib ::
  "'o typescript_config \<Rightarrow> manifests \<Rightarrow> string \<Rightarrow> string option \<Rightarrow> string option \<Rightarrow> 'o parsed_config \<Rightarrow> 'o parsed_config" where
  "enrich_lib T M tsConfig ecmaScriptVersion baseDir parsed =
     (let base = or_default baseDir '''' in
      if base \<noteq> '''' \<and> co_lib (pr_options parsed) = None
      then (let jsonLib = computeLibJson (mf_nodeSignal M) ecmaScriptVersion
              (targetOptionToString (tc_target_name T) (co_target (pr_options parsed))) (config_packageDir M tsConfig base) base
            in parsed\<lparr>pr_options := (pr_options parsed)\<lparr>co_lib := tc_convert_lib T jsonLib base\<rparr>\<rparr>)
      else parsed)"

definition createProgramOptionsFromJson ::
  "'o typescript_config \<Rightarrow> string list option \<Rightarrow> string list \<Rightarrow> string \<Rightarrow> 'o program_options" where
  "createProgramOptionsFromJson T libs rootNames baseDir =
     \<lparr>po_rootNames = rootNames, po_options = tc_convert T libs baseDir, po_projectReferences = None,
      po_missingTsConfig = False\<rparr>"

record 'o options_caches =
  oc_contents :: content_cache
  oc_options :: "(string, 'o program_options) js_map"

definition buildCacheKey :: "string \<Rightarrow> string option \<Rightarrow> string" where
  "buildCacheKey tsConfig tsconfigContents = tsConfig @ '':'' @ nullish tsconfigContents ''undefined''"

definition getCachedProgramOptions :: "'o options_caches \<Rightarrow> string \<Rightarrow> string option \<Rightarrow> 'o program_options option" where
  "getCachedProgramOptions c tsConfig tsconfigContents = map_of (oc_options c) (buildCacheKey tsConfig tsconfigContents)"

definition setCachedProgramOptions ::
  "string \<Rightarrow> 'o program_options \<Rightarrow> string option \<Rightarrow> 'o options_caches \<Rightarrow> 'o options_caches" where
  "setCachedProgramOptions tsConfig options tsconfigContents c =
     c\<lparr>oc_options := js_set (buildCacheKey tsConfig tsconfigContents) options (oc_options c)\<rparr>"

definition clearProgramOptionsCache :: "'o options_caches \<Rightarrow> 'o options_caches" where
  "clearProgramOptionsCache c = c\<lparr>oc_options := []\<rparr>"

definition clearTsConfigContentCache :: "'o options_caches \<Rightarrow> 'o options_caches" where
  "clearTsConfigContentCache c = c\<lparr>oc_contents := Map.empty\<rparr>"

text \<open>The error is the message of the exception.\<close>

definition createProgramOptions ::
  "'o typescript_config \<Rightarrow> manifests \<Rightarrow> base_parse_host \<Rightarrow> string \<Rightarrow> string option \<Rightarrow> string option \<Rightarrow> string option
   \<Rightarrow> 'o options_caches \<Rightarrow> (string + 'o program_options) \<times> 'o options_caches" where
  "createProgramOptions T M base tsConfig tsconfigContents ecmaScriptVersion baseDir c =
     (case getCachedProgramOptions c tsConfig tsconfigContents of
        Some cached \<Rightarrow> (Inr cached, c)
      | None \<Rightarrow>
          (let (config, st1) = run_reader base tsConfig tsconfigContents (tc_readConfigFile T tsConfig) (oc_contents c, False)
           in case config of
                Inl e \<Rightarrow> (Inl e, c\<lparr>oc_contents := fst st1\<rparr>)
              | Inr json \<Rightarrow>
                  (let (parsed0, contents, missing) =
                         run_reader base tsConfig tsconfigContents (tc_parse T json (dirnamePath tsConfig) tsConfig) st1;
                       parsed1 = (if shouldApplyLegacyStrictnessDefaults M baseDir
                                  then applyLegacyStrictnessDefaults parsed0 else parsed0);
                       parsed = enrich_lib T M tsConfig ecmaScriptVersion baseDir parsed1;
                       errors = filter fst (pr_errors parsed);
                       c1 = c\<lparr>oc_contents := contents\<rparr>;
                       result = \<lparr>po_rootNames = pr_fileNames parsed, po_options = pr_options parsed,
                                 po_projectReferences = pr_projectReferences parsed, po_missingTsConfig = missing\<rparr>
                   in if errors \<noteq> [] then (Inl (join_with ''; '' (map snd errors)), c1)
                      else (Inr result, setCachedProgramOptions tsConfig result tsconfigContents c1))))"

section \<open>Parsing through the caches\<close>

text \<open>
  The parser without a cache: a file that cannot be read is the empty configuration if it is the
  last one looked for.
\<close>

definition direct_read :: "base_parse_host \<Rightarrow> string \<Rightarrow> string option" where
  "direct_read base f =
     (if or_default (bp_readFile base f) '''' = '''' \<and> isLastTsConfigCheck f then Some ''{}'' else bp_readFile base f)"

primrec run_direct :: "base_parse_host \<Rightarrow> string \<Rightarrow> string option \<Rightarrow> 'a config_reader \<Rightarrow> 'a" where
  "run_direct base tsConfig contents (Done x) = x"
| "run_direct base tsConfig contents (ReadFile f k) =
     run_direct base tsConfig contents
       (k (if tsConfig \<noteq> '''' \<and> f = tsConfig \<and> contents \<noteq> None then contents else direct_read base f))"
| "run_direct base tsConfig contents (FileExists f k) =
     run_direct base tsConfig contents (k (isLastTsConfigCheck f \<or> bp_fileExists base f))"
| "run_direct base tsConfig contents (ReadDirectory d exts k) =
     run_direct base tsConfig contents (k (bp_readDirectory base d exts))"

text \<open>What is cached is what would be read, and a file that can be read exists.\<close>

definition contents_agree :: "base_parse_host \<Rightarrow> content_cache \<Rightarrow> bool" where
  "contents_agree base cache \<longleftrightarrow> (\<forall>f c m. cache f = Some (c, m) \<longrightarrow> direct_read base f = Some c \<and> c \<noteq> '''')"

definition readable_exist :: "base_parse_host \<Rightarrow> bool" where
  "readable_exist base \<longleftrightarrow> (\<forall>f. bp_readFile base f \<noteq> None \<longrightarrow> bp_fileExists base f)"

lemma contents_agreeD: "contents_agree base cache \<Longrightarrow> cache f = Some (c, m) \<Longrightarrow> direct_read base f = Some c"
  unfolding contents_agree_def by blast

lemma contents_agree_add:
  "contents_agree base cache \<Longrightarrow> direct_read base f = Some c \<Longrightarrow> c \<noteq> '''' \<Longrightarrow> contents_agree base (cache(f \<mapsto> (c, m)))"
  unfolding contents_agree_def by simp

lemma config_readFile_direct:
  assumes "contents_agree base cache" "config_readFile base t contents f (cache, m) = (r, cache', m')"
  shows "contents_agree base cache' \<and> r = (if t \<noteq> '''' \<and> f = t \<and> contents \<noteq> None then contents else direct_read base f)"
proof (cases "t \<noteq> '''' \<and> f = t \<and> contents \<noteq> None")
  case True
  then show ?thesis using assms by (simp add: config_readFile_def)
next
  case own: False
  note read = assms(2) [unfolded config_readFile_def prod.case if_not_P [OF own]]
  show ?thesis
  proof (cases "cache f")
    case (Some cm)
    then obtain c m1 where "cache f = Some (c, m1)" by (cases cm) auto
    then show ?thesis unfolding if_not_P [OF own] using read assms(1) contents_agreeD [OF assms(1)] by auto
  next
    case None
    show ?thesis
    proof (cases "or_default (bp_readFile base f) '''' = ''''")
      case True
      show ?thesis
      proof (cases "isLastTsConfigCheck f")
        case last: True
        then have "direct_read base f = Some ''{}''" using True by (simp add: direct_read_def)
        then show ?thesis unfolding if_not_P [OF own]
          using read None True last contents_agree_add [OF assms(1), of f "''{}''" True] by (simp add: Let_def)
      next
        case False
        then show ?thesis unfolding if_not_P [OF own] using read None True assms(1) by (simp add: Let_def direct_read_def)
      qed
    next
      case False
      then obtain c where c: "bp_readFile base f = Some c" "c \<noteq> ''''"
        by (auto simp: or_default_def split: option.splits if_splits)
      then have "direct_read base f = Some c" using False by (simp add: direct_read_def)
      then show ?thesis unfolding if_not_P [OF own]
        using read None c contents_agree_add [OF assms(1), of f c False]
        by (auto simp: Let_def or_default_def)
    qed
  qed
qed

lemma config_fileExists_direct:
  assumes "contents_agree base cache" "readable_exist base"
  shows "config_fileExists base cache f \<longleftrightarrow> isLastTsConfigCheck f \<or> bp_fileExists base f"
proof (cases "cache f")
  case (Some cm)
  then have "direct_read base f = Some (fst cm)" using contents_agreeD [OF assms(1), of f "fst cm" "snd cm"] by simp
  then have "isLastTsConfigCheck f \<or> bp_readFile base f \<noteq> None" by (auto simp: direct_read_def split: if_splits)
  then show ?thesis using Some assms(2) by (auto simp: config_fileExists_def readable_exist_def)
qed (simp add: config_fileExists_def)

text \<open>
  C30. Configuration files are parsed as if there were no cache of their contents: with any cache of
  what the file system says, the parser gets the answers it would get directly, and the cache still
  says what the file system says.
\<close>

theorem parsing_ignores_content_cache:
  assumes "contents_agree base cache" "readable_exist base"
  shows "fst (run_reader base t contents reader (cache, m)) = run_direct base t contents reader
    \<and> contents_agree base (fst (snd (run_reader base t contents reader (cache, m))))"
  using assms
proof (induction reader arbitrary: cache m)
  case (ReadFile f k)
  obtain r cache' m' where r: "config_readFile base t contents f (cache, m) = (r, cache', m')"
    by (metis prod_cases3)
  note d = config_readFile_direct [OF ReadFile.prems(1) r]
  have "run_reader base t contents (ReadFile f k) (cache, m) = run_reader base t contents (k r) (cache', m')"
    by (simp add: r)
  then show ?case using ReadFile.IH [of "k r" cache' m'] d ReadFile.prems(2) by simp
next
  case (FileExists f k)
  then show ?case using config_fileExists_direct [OF FileExists.prems] by simp
qed simp_all

text \<open>A configuration that extends one package that is missing.\<close>

definition sample_parse_host :: base_parse_host where
  "sample_parse_host =
     \<lparr>bp_readDirectory = \<lambda>_ _. [], bp_fileExists = \<lambda>f. f = ''/p/base.json'',
      bp_readFile = \<lambda>f. if f = ''/p/base.json'' then Some ''{a}'' else None\<rparr>"

definition sample_reader :: "(string option \<times> string option) config_reader" where
  "sample_reader =
     ReadFile ''/node_modules/tsconfig.json'' (\<lambda>a. ReadFile ''/p/base.json'' (\<lambda>b. Done (a, b)))"

lemma last_check_sample: "isLastTsConfigCheck ''/node_modules/tsconfig.json''" "\<not> isLastTsConfigCheck ''/p/base.json''"
  by code_simp+

theorem parsing_ignores_content_cache_witness:
  "fst (run_reader sample_parse_host ''/p/tsconfig.json'' None sample_reader ([''/p/base.json'' \<mapsto> (''{a}'', False)], False))
   = (Some ''{}'', Some ''{a}'')"
proof -
  have "contents_agree sample_parse_host [''/p/base.json'' \<mapsto> (''{a}'', False)]"
    by (auto simp: contents_agree_def direct_read_def sample_parse_host_def split: if_splits)
  moreover have "readable_exist sample_parse_host" by (auto simp: readable_exist_def sample_parse_host_def)
  moreover have "run_direct sample_parse_host ''/p/tsconfig.json'' None sample_reader = (Some ''{}'', Some ''{a}'')"
    by (simp add: sample_reader_def direct_read_def last_check_sample sample_parse_host_def)
  ultimately show ?thesis using parsing_ignores_content_cache by metis
qed

text \<open>
  The flag of a missing configuration is that of the last cached file: the parser has found that
  the extended configuration is missing, and then reads one that is cached.
\<close>

lemma missing_flag_is_reset:
  "snd (run_reader sample_parse_host ''/p/tsconfig.json'' None sample_reader (Map.empty, False))
     = ([''/node_modules/tsconfig.json'' \<mapsto> (''{}'', True), ''/p/base.json'' \<mapsto> (''{a}'', False)], True)"
  "snd (snd (run_reader sample_parse_host ''/p/tsconfig.json'' None sample_reader
     ([''/p/base.json'' \<mapsto> (''{a}'', False)], False))) = False"
  by (simp_all add: sample_reader_def config_readFile_def last_check_sample sample_parse_host_def)

text \<open>
  The cached options are returned whatever the version of ECMAScript and the manifests are by then.
\<close>

lemma cached_options_ignore_version:
  assumes "createProgramOptions T M base tsConfig contents version baseDir c = (Inr options, c')"
  shows "createProgramOptions T M' base' tsConfig contents version' baseDir' c' = (Inr options, c')"
proof -
  have "getCachedProgramOptions c' tsConfig contents = Some options"
    using assms
    by (auto simp: createProgramOptions_def getCachedProgramOptions_def setCachedProgramOptions_def
        AList.update_conv' Let_def split: option.splits sum.splits prod.splits if_splits)
  then show ?thesis by (simp add: createProgramOptions_def)
qed

text \<open>Strictness before TypeScript 6: what no configuration sets is off, the rest is as it was.\<close>

lemma legacy_defaults:
  "map_of (co_flags (pr_options (applyLegacyStrictnessDefaults parsed))) n =
     (if ''strict'' \<notin> set (getExplicitStrictnessCompilerOptions (pr_explicit parsed))
         \<and> n \<in> set STRICTNESS_COMPILER_OPTIONS \<and> n \<notin> set (getExplicitStrictnessCompilerOptions (pr_explicit parsed))
      then Some False else map_of (co_flags (pr_options parsed)) n)"
proof -
  have "map_of (fold (\<lambda>n flags. if n \<notin> set e then js_set n False flags else flags) ns flags) n =
      (if n \<in> set ns \<and> n \<notin> set e then Some False else map_of flags n)" for e ns and flags :: "(string, bool) js_map"
    by (induction ns arbitrary: flags) (auto simp: AList.update_conv')
  then show ?thesis by (simp add: applyLegacyStrictnessDefaults_def Let_def)
qed

section \<open>Libraries and years\<close>

lemma fixed_es_year_bounds: "fixed_es_year s = Some y \<Longrightarrow> 2015 \<le> y \<and> y \<le> 2030"
  by (auto simp: fixed_es_year_def isFixedEsYear_def MIN_FIXED_ES_YEAR_def MAX_FIXED_ES_YEAR_def split: option.splits if_splits)

lemma target_year_bounds: "targetStringToEsYear t = Some y \<Longrightarrow> 2015 \<le> y \<and> y \<le> 2030"
  by (auto simp: targetStringToEsYear_def Let_def split: if_splits dest: fixed_es_year_bounds)

lemma node_year_bounds: "2015 \<le> nodeVersionToEs n \<and> nodeVersionToEs n \<le> 2030"
  by (simp add: nodeVersionToEs_def NODE_TO_ES_def)

lemma fold_max_in: "fold max ys m \<in> insert (m :: nat) (set ys)"
proof (induction ys arbitrary: m)
  case (Cons y ys)
  show ?case using Cons.IH [of "max y m"] by (auto simp: max_def split: if_splits)
qed simp

lemma computeLibJson_cases:
  "computeLibJson N v t d b = [''esnext'', ''dom'']
   \<or> (\<exists>y. 2015 \<le> y \<and> y \<le> 2030 \<and> computeLibJson N v t d b = [''es'' @ show_nat y, ''dom''])"
proof (cases "if or_default v '''' = '''' then None else esYearFromEsPrefix (or_default v '''')")
  case (Some y)
  then have "esYearFromEsPrefix (or_default v '''') = Some y" by (simp split: if_splits)
  then have "2015 \<le> y \<and> y \<le> 2030" unfolding esYearFromEsPrefix_def by (rule fixed_es_year_bounds)
  then show ?thesis using Some by (intro disjI2 exI [of _ y]) (simp add: computeLibJson_def)
next
  case None
  define ys where "ys = (case (if or_default t '''' = '''' then None else targetStringToEsYear (or_default t ''''))
       of None \<Rightarrow> [] | Some y \<Rightarrow> [y])
    @ (case (if or_default (N d b) '''' = '''' then None else parseMaxNodeMajor (or_default (N d b) ''''))
       of None \<Rightarrow> [] | Some n \<Rightarrow> [nodeVersionToEs n])"
  have eq: "computeLibJson N v t d b = (if ys = [] then [''esnext'', ''dom''] else [''es'' @ show_nat (fold max ys 0), ''dom''])"
    using None by (simp add: computeLibJson_def ys_def Let_def)
  have "\<forall>y\<in>set ys. 2015 \<le> y \<and> y \<le> 2030"
    using node_year_bounds target_year_bounds by (auto simp: ys_def split: option.splits if_splits)
  moreover have "ys \<noteq> [] \<Longrightarrow> fold max ys 0 \<in> set ys"
    using fold_max_in [of "tl ys" "hd ys"] by (cases ys) auto
  ultimately show ?thesis unfolding eq by auto
qed

lemma show_year:
  assumes "1000 \<le> y" "y < 10000"
  shows "length (show_nat y) = 4"
proof -
  have "y div 10 div 10 div 10 < 10" "\<not> y div 10 div 10 < 10" "\<not> y div 10 < 10" using assms by arith+
  then show ?thesis using assms
    by (simp add: show_nat.simps [of y] show_nat.simps [of "y div 10"] show_nat.simps [of "y div 10 div 10"]
        show_nat.simps [of "y div 10 div 10 div 10"])
qed

lemma lib_suffix_plain: "full_match lib_suffix ''.d.ts''"
  by code_simp

lemma es_lib_year_plain:
  assumes "length ds = 4" "list_all is_numeral ds" "digits_value 0 ds = Some y"
  shows "es_lib_year (''lib.es'' @ ds @ ''.d.ts'') = Some y"
proof -
  have "length (takeWhile is_numeral ds) = 4"
    using assms(1,2) by (simp add: list_all_iff iffD2 [OF takeWhile_eq_all_conv])
  then show ?thesis using assms lib_suffix_plain by (simp add: es_lib_at_def starts_with_def)
qed

text \<open>
  The library computed for a package has the year that is detected on it later: it is the
  newest one, for which no year is detected, or that of a year from 2015 to 2030, and then that
  year is detected from the names of its files.
\<close>

theorem detected_year_is_that_of_the_library:
  "\<exists>y. let libs = computeLibJson N v t d b; files = map (\<lambda>l. ''lib.'' @ l @ ''.d.ts'') libs in
     libs = [''esnext'', ''dom''] \<and> esLibToYear (Some files) = None
     \<or> libs = [''es'' @ show_nat y, ''dom''] \<and> 2015 \<le> y \<and> y \<le> 2030 \<and> esLibToYear (Some files) = Some y"
proof (cases "computeLibJson N v t d b = [''esnext'', ''dom'']")
  case True
  have "search_end (RSeq (lit ''lib.esnext'') lib_suffix) ''lib.esnext.d.ts''"
    by code_simp
  then show ?thesis using True by (simp add: esLibToYear_def)
next
  case False
  then obtain y where y: "2015 \<le> y" "y \<le> 2030" "computeLibJson N v t d b = [''es'' @ show_nat y, ''dom'']"
    using computeLibJson_cases by blast
  have ds: "list_all is_numeral (show_nat y)" "digits_value 0 (show_nat y) = Some y"
    using show_nat_digits [of y] by (simp_all add: is_numeric_def is_numeral_def Let_def fun_eq_iff list_all_iff)
  have no_x: "\<not> search_end (RSeq (lit ''lib.esnext'') r) s" if "CHR ''x'' \<notin> set s" for r s
    using that by (auto simp: search_end_iff)
  have "CHR ''x'' \<notin> set (show_nat y)" using ds(1) by (auto simp: list_all_iff is_numeral_def)
  then have "esLibToYear (Some [''lib.es'' @ show_nat y @ ''.d.ts'', ''lib.dom.d.ts'']) = Some y"
    using es_lib_year_plain [OF show_year ds] y no_x
    by (simp add: esLibToYear_def max_year_def es_lib_at_def starts_with_def)
  then show ?thesis using y by (intro exI [of _ y]) simp
qed

end
