(* ===== verification/Program_Cache.thy ===== *)
theory Program_Cache
  imports Tsconfig_Options
begin

text \<open>
  Programs of TypeScript are kept over requests:
  \<open>packages/analysis/src/jsts/program/cache/programCache.ts\<close> and
  \<open>createOrGetCachedProgramForFile\<close> of \<open>factory.ts\<close>. The entries are in the order of their last
  use; a program and its host are reached by the key object of the entry and may be collected at
  any time. Time stamps are left out. TypeScript is a parameter that builds a program on a host.
\<close>

section \<open>The cache\<close>

record cache_entry =
  ce_keyObj :: nat
  ce_filesInProgram :: "string list"
  ce_rootNames :: "string list"
  ce_hitCount :: nat

record 'p program_cache =
  pc_lruCache :: "(string, cache_entry) js_map"
  pc_cache :: "nat \<rightharpoonup> 'p \<times> compiler_host"
  pc_maxSize :: nat
  pc_cacheKeyCounter :: nat
  pc_nextObject :: nat

definition new_program_cache :: "nat \<Rightarrow> 'p program_cache" where
  "new_program_cache maxSize =
     \<lparr>pc_lruCache = [], pc_cache = Map.empty, pc_maxSize = maxSize, pc_cacheKeyCounter = 0, pc_nextObject = 0\<rparr>"

definition touchEntry :: "string \<Rightarrow> cache_entry \<Rightarrow> 'p program_cache \<Rightarrow> 'p program_cache" where
  "touchEntry cacheKey entry c =
     c\<lparr>pc_lruCache := js_delete cacheKey (pc_lruCache c) @ [(cacheKey, entry\<lparr>ce_hitCount := ce_hitCount entry + 1\<rparr>)]\<rparr>"

fun find_program ::
  "string \<Rightarrow> (string, cache_entry) js_map \<Rightarrow> 'p program_cache
   \<Rightarrow> ('p \<times> compiler_host \<times> string) option \<times> 'p program_cache" where
  "find_program sourceFile [] c = (None, c)"
| "find_program sourceFile ((cacheKey, entry) # entries) c =
     (if sourceFile \<notin> set (ce_filesInProgram entry) then find_program sourceFile entries c
      else case pc_cache c (ce_keyObj entry) of
        None \<Rightarrow> find_program sourceFile entries (c\<lparr>pc_lruCache := js_delete cacheKey (pc_lruCache c)\<rparr>)
      | Some (program, host) \<Rightarrow> (Some (program, host, cacheKey), touchEntry cacheKey entry c))"

definition findProgramForFile ::
  "string \<Rightarrow> 'p program_cache \<Rightarrow> ('p \<times> compiler_host \<times> string) option \<times> 'p program_cache" where
  "findProgramForFile sourceFile c = find_program sourceFile (pc_lruCache c) c"

definition program_key :: "nat \<Rightarrow> string" where
  "program_key n = ''program-'' @ show_nat n"

definition storeProgram ::
  "('p \<Rightarrow> string list) \<Rightarrow> string list \<Rightarrow> 'p \<Rightarrow> compiler_host \<Rightarrow> 'p program_cache \<Rightarrow> 'p program_cache" where
  "storeProgram sourceFiles rootNames program host c =
     (let filesInProgram = remdups (map path_normalize (sourceFiles program));
          cacheKey = program_key (pc_cacheKeyCounter c);
          lru = (if length (pc_lruCache c) \<ge> pc_maxSize c then drop 1 (pc_lruCache c) else pc_lruCache c);
          keyObj = pc_nextObject c;
          entry = \<lparr>ce_keyObj = keyObj, ce_filesInProgram = filesInProgram,
                   ce_rootNames = map path_normalize rootNames, ce_hitCount = 0\<rparr>
      in c\<lparr>pc_lruCache := js_set cacheKey entry lru, pc_cache := (pc_cache c)(keyObj \<mapsto> (program, host)),
           pc_cacheKeyCounter := pc_cacheKeyCounter c + 1, pc_nextObject := keyObj + 1\<rparr>)"

definition updateProgramInCache :: "string \<Rightarrow> 'p \<Rightarrow> 'p program_cache \<Rightarrow> 'p program_cache" where
  "updateProgramInCache cacheKey newProgram c =
     (case map_of (pc_lruCache c) cacheKey of
        None \<Rightarrow> c
      | Some entry \<Rightarrow>
          (case pc_cache c (ce_keyObj entry) of
             None \<Rightarrow> c
           | Some (_, host) \<Rightarrow> c\<lparr>pc_cache := (pc_cache c)(ce_keyObj entry \<mapsto> (newProgram, host))\<rparr>))"

definition clear_programs :: "'p program_cache \<Rightarrow> 'p program_cache" where
  "clear_programs c = c\<lparr>pc_lruCache := []\<rparr>"

text \<open>The number of entries and of their files.\<close>

definition getCacheStats :: "'p program_cache \<Rightarrow> nat \<times> nat" where
  "getCacheStats c =
     (length (pc_lruCache c), sum_list (map (\<lambda>(_, e). length (ce_filesInProgram e)) (pc_lruCache c)))"

text \<open>A host is an object: what happens to it is seen through the cache.\<close>

definition host_changed :: "string \<Rightarrow> compiler_host \<Rightarrow> 'p program_cache \<Rightarrow> 'p program_cache" where
  "host_changed cacheKey host c =
     (case map_of (pc_lruCache c) cacheKey of
        None \<Rightarrow> c
      | Some entry \<Rightarrow>
          (case pc_cache c (ce_keyObj entry) of
             None \<Rightarrow> c
           | Some (program, _) \<Rightarrow> c\<lparr>pc_cache := (pc_cache c)(ce_keyObj entry \<mapsto> (program, host))\<rparr>))"

text \<open>The collector takes a program.\<close>

definition collect :: "nat \<Rightarrow> 'p program_cache \<Rightarrow> 'p program_cache" where
  "collect keyObj c = c\<lparr>pc_cache := (pc_cache c)(keyObj := None)\<rparr>"

section \<open>Programs for files\<close>

text \<open>The host that TypeScript creates reads files in the same way for all options.\<close>

record ('p, 'o, 'ast) typescript_build =
  tb_host :: "'ast base_host"
  tb_build :: "'ast base_host \<Rightarrow> 'o program_options \<Rightarrow> 'p option \<Rightarrow> 'ast source_caches \<times> compiler_host
     \<Rightarrow> 'p \<times> 'ast source_caches \<times> compiler_host"
  tb_sourceFiles :: "'p \<Rightarrow> string list"

record ('p, 'ast) program_state =
  ps_programs :: "'p program_cache"
  ps_sources :: "'ast source_caches"

definition createBuilderProgramAndHost ::
  "('p, 'o, 'ast) typescript_build \<Rightarrow> 'o program_options \<Rightarrow> string \<Rightarrow> bool \<Rightarrow> 'ast source_caches
   \<Rightarrow> 'p \<times> 'ast source_caches \<times> compiler_host" where
  "createBuilderProgramAndHost T options baseDir skip s =
     (let host = new_host (co_jsx (po_options options)) (co_importHelpers (po_options options)) baseDir skip
      in tb_build T (tb_host T) options None (s, host))"

text \<open>\<open>getProgramOptions\<close> acts on the state \<open>'x\<close> of its caller.\<close>

definition createOrGetCachedProgramForFile ::
  "('p, 'o, 'ast) typescript_build \<Rightarrow> string \<Rightarrow> string \<Rightarrow> ('x \<Rightarrow> 'o program_options option \<times> 'x) \<Rightarrow> bool
   \<Rightarrow> ('p, 'ast) program_state \<Rightarrow> 'x \<Rightarrow> 'p option \<times> ('p, 'ast) program_state \<times> 'x" where
  "createOrGetCachedProgramForFile T baseDir sourceFile getProgramOptions skip ps x =
     (let fileContent = context_content (ps_sources ps) sourceFile;
          (found, programs) = findProgramForFile sourceFile (ps_programs ps)
      in case found of
           Some (program, host, cacheKey) \<Rightarrow>
             (let (wasUpdated, s1, host1) = updateFile sourceFile fileContent (ps_sources ps, host);
                  programs1 = host_changed cacheKey host1 programs;
                  ps1 = \<lparr>ps_programs = programs1, ps_sources = s1\<rparr>
              in if \<not> wasUpdated then (Some program, ps1, x)
                 else (let (options, x1) = getProgramOptions x in
                   case options of
                     None \<Rightarrow> (None, ps1, x1)
                   | Some programOptions \<Rightarrow>
                       (let (updated, s2, host2) =
                              tb_build T (tb_host T) programOptions (Some program) (s1, host1)
                        in (Some updated,
                            \<lparr>ps_programs = updateProgramInCache cacheKey updated (host_changed cacheKey host2 programs1),
                             ps_sources = s2\<rparr>, x1))))
         | None \<Rightarrow>
             (let (options, x1) = getProgramOptions x in
              case options of
                None \<Rightarrow> (None, \<lparr>ps_programs = programs, ps_sources = ps_sources ps\<rparr>, x1)
              | Some programOptions \<Rightarrow>
                  (let (program, s1, host) = createBuilderProgramAndHost T programOptions baseDir skip (ps_sources ps)
                   in (Some program,
                       \<lparr>ps_programs = storeProgram (tb_sourceFiles T) (po_rootNames programOptions) program host programs,
                        ps_sources = s1\<rparr>, x1))))"

section \<open>Operations on the cache\<close>

datatype 'p cache_op =
    Find string
  | Store "string list" "string list" 'p compiler_host
  | Update string 'p
  | HostChanged string compiler_host
  | Collect nat
  | Clear

text \<open>The files of a program that is stored are an argument of the operation.\<close>

fun cache_step :: "'p cache_op \<Rightarrow> 'p program_cache \<Rightarrow> 'p program_cache" where
  "cache_step (Find f) c = snd (findProgramForFile f c)"
| "cache_step (Store files rootNames p h) c = storeProgram (\<lambda>_. files) rootNames p h c"
| "cache_step (Update k p) c = updateProgramInCache k p c"
| "cache_step (HostChanged k h) c = host_changed k h c"
| "cache_step (Collect obj) c = collect obj c"
| "cache_step Clear c = clear_programs c"

definition cache_run :: "'p cache_op list \<Rightarrow> 'p program_cache \<Rightarrow> 'p program_cache" where
  "cache_run ops c = fold cache_step ops c"

definition cache_ok :: "'p program_cache \<Rightarrow> bool" where
  "cache_ok c \<longleftrightarrow>
     distinct (js_keys (pc_lruCache c)) \<and> length (pc_lruCache c) \<le> max 1 (pc_maxSize c)
     \<and> (\<forall>(k, e) \<in> set (pc_lruCache c). (\<exists>n < pc_cacheKeyCounter c. k = program_key n)
          \<and> ce_keyObj e < pc_nextObject c)
     \<and> distinct (map (\<lambda>(_, e). ce_keyObj e) (pc_lruCache c))
     \<and> (\<forall>obj. pc_cache c obj \<noteq> None \<longrightarrow> obj < pc_nextObject c)"

lemma js_set_fresh: "k \<notin> set (js_keys m) \<Longrightarrow> js_set k v m = m @ [(k, v)]"
  by (induction m) auto

lemma js_delete_filter: "js_delete k m = filter (\<lambda>x. fst x \<noteq> k) m"
  by (induction m) auto

text \<open>
  A search drops entries \<open>D\<close> whose program was collected and moves the entry it returns to the end.
\<close>

fun found_entry ::
  "string \<Rightarrow> (string, cache_entry) js_map \<Rightarrow> 'p program_cache \<Rightarrow> string set
   \<Rightarrow> ('p \<times> compiler_host \<times> string) option \<Rightarrow> 'p program_cache \<Rightarrow> bool" where
  "found_entry f entries c D None c' \<longleftrightarrow>
     c' = c\<lparr>pc_lruCache := filter (\<lambda>x. fst x \<notin> D) (pc_lruCache c)\<rparr>"
| "found_entry f entries c D (Some (p, h, k)) c' \<longleftrightarrow>
     (\<exists>e. (k, e) \<in> set entries \<and> f \<in> set (ce_filesInProgram e) \<and> pc_cache c (ce_keyObj e) = Some (p, h)
        \<and> c' = c\<lparr>pc_lruCache := filter (\<lambda>x. fst x \<notin> D \<and> fst x \<noteq> k) (pc_lruCache c)
                   @ [(k, e\<lparr>ce_hitCount := ce_hitCount e + 1\<rparr>)]\<rparr>)"

definition dead_keys :: "(string, cache_entry) js_map \<Rightarrow> 'p program_cache \<Rightarrow> string set \<Rightarrow> bool" where
  "dead_keys entries c D \<longleftrightarrow> (\<forall>k\<in>D. \<exists>e. (k, e) \<in> set entries \<and> pc_cache c (ce_keyObj e) = None)"

lemma found_entry_mono:
  "found_entry f entries c D r c' \<Longrightarrow> set entries \<subseteq> set entries' \<Longrightarrow> found_entry f entries' c D r c'"
  by (cases "(f, entries, c, D, r, c')" rule: found_entry.cases) (simp, simp, blast)

lemma found_entry_delete:
  assumes "found_entry f entries (c\<lparr>pc_lruCache := js_delete k (pc_lruCache c)\<rparr>) D r c'"
  shows "found_entry f entries c (insert k D) r c'"
proof -
  have "filter (\<lambda>x. fst x \<notin> D) (js_delete k m) = filter (\<lambda>x. fst x \<notin> insert k D) m"
    "filter (\<lambda>x. fst x \<notin> D \<and> fst x \<noteq> k') (js_delete k m) = filter (\<lambda>x. fst x \<notin> insert k D \<and> fst x \<noteq> k') m"
    for k' and m :: "(string, cache_entry) js_map"
    by (auto simp: js_delete_filter intro: filter_cong)
  then show ?thesis using assms by (cases r) auto
qed

lemma find_program_effect:
  "find_program f entries c = (r, c') \<Longrightarrow> \<exists>D. dead_keys entries c D \<and> found_entry f entries c D r c'"
proof (induction f entries c rule: find_program.induct)
  case (1 f c)
  then show ?case by (intro exI [of _ "{}"]) (auto simp: dead_keys_def)
next
  case (2 f k e entries c)
  consider (other) "f \<notin> set (ce_filesInProgram e)" | (dead) "f \<in> set (ce_filesInProgram e)" "pc_cache c (ce_keyObj e) = None"
    | (hit) p h where "f \<in> set (ce_filesInProgram e)" "pc_cache c (ce_keyObj e) = Some (p, h)"
    by fastforce
  then show ?case
  proof cases
    case other
    then have "find_program f entries c = (r, c')" using 2(3) by simp
    then obtain D where "dead_keys entries c D" "found_entry f entries c D r c'" using "2.IH"(1) [OF other] by blast
    then show ?thesis by (intro exI [of _ D]) (auto simp: dead_keys_def intro: found_entry_mono)
  next
    case dead
    then have "find_program f entries (c\<lparr>pc_lruCache := js_delete k (pc_lruCache c)\<rparr>) = (r, c')" using 2(3) by simp
    then obtain D where D: "dead_keys entries (c\<lparr>pc_lruCache := js_delete k (pc_lruCache c)\<rparr>) D"
      "found_entry f entries (c\<lparr>pc_lruCache := js_delete k (pc_lruCache c)\<rparr>) D r c'"
      using "2.IH"(2) [OF _ dead(2)] dead(1) by blast
    show ?thesis
      using D(1) dead(2) found_entry_mono [OF found_entry_delete [OF D(2)], of "(k, e) # entries"]
      by (intro exI [of _ "insert k D"]) (auto simp: dead_keys_def)
  next
    case (hit p h)
    then have "r = Some (p, h, k)" "c' = touchEntry k e c" using 2(3) by simp_all
    then show ?thesis using hit by (intro exI [of _ "{}"]) (auto simp: dead_keys_def touchEntry_def js_delete_filter)
  qed
qed

text \<open>Storing drops at most the first entry and adds a new one at the end.\<close>

lemma store_effect:
  assumes "cache_ok c"
  shows "\<exists>k e. pc_lruCache (storeProgram F rs p h c)
      = (if length (pc_lruCache c) \<ge> pc_maxSize c then drop 1 (pc_lruCache c) else pc_lruCache c) @ [(k, e)]
    \<and> k = program_key (pc_cacheKeyCounter c) \<and> k \<notin> set (js_keys (pc_lruCache c))
    \<and> ce_keyObj e = pc_nextObject c"
proof -
  let ?k = "program_key (pc_cacheKeyCounter c)"
  have "?k \<notin> set (js_keys (pc_lruCache c))"
  proof
    assume "?k \<in> set (js_keys (pc_lruCache c))"
    then obtain e where "(?k, e) \<in> set (pc_lruCache c)" by auto
    then obtain n where "n < pc_cacheKeyCounter c" "program_key (pc_cacheKeyCounter c) = program_key n"
      using assms unfolding cache_ok_def by blast
    then show False using show_nat_inject by (auto simp: program_key_def)
  qed
  moreover from this have "?k \<notin> set (js_keys (drop 1 (pc_lruCache c)))"
    by (auto simp: drop_map dest: in_set_dropD)
  ultimately show ?thesis by (simp add: storeProgram_def Let_def js_set_fresh)
qed

lemma update_program_lru [simp]:
  "pc_lruCache (updateProgramInCache k p c) = pc_lruCache c"
  "pc_maxSize (updateProgramInCache k p c) = pc_maxSize c"
  "pc_cacheKeyCounter (updateProgramInCache k p c) = pc_cacheKeyCounter c"
  "pc_nextObject (updateProgramInCache k p c) = pc_nextObject c"
  "pc_cache (updateProgramInCache k p c) obj = None \<longleftrightarrow> pc_cache c obj = None"
  by (auto simp: updateProgramInCache_def split: option.splits)

lemma host_changed_lru [simp]:
  "pc_lruCache (host_changed k h c) = pc_lruCache c"
  "pc_maxSize (host_changed k h c) = pc_maxSize c"
  "pc_cacheKeyCounter (host_changed k h c) = pc_cacheKeyCounter c"
  "pc_nextObject (host_changed k h c) = pc_nextObject c"
  "pc_cache (host_changed k h c) obj = None \<longleftrightarrow> pc_cache c obj = None"
  by (auto simp: host_changed_def split: option.splits)

lemma cache_ok_filter:
  assumes "cache_ok c" "\<And>obj. pc_cache c obj = None \<Longrightarrow> pc_cache c' obj = None"
    "pc_lruCache c' = filter P (pc_lruCache c)"
    "pc_maxSize c' = pc_maxSize c" "pc_cacheKeyCounter c' = pc_cacheKeyCounter c" "pc_nextObject c' = pc_nextObject c"
  shows "cache_ok c'"
proof -
  have "length (filter P (pc_lruCache c)) \<le> max 1 (pc_maxSize c)"
    using assms(1) le_trans [OF length_filter_le] unfolding cache_ok_def by blast
  moreover have "\<forall>obj. pc_cache c' obj \<noteq> None \<longrightarrow> obj < pc_nextObject c"
    using assms(1,2) unfolding cache_ok_def by metis
  ultimately show ?thesis
    using assms(1) unfolding cache_ok_def assms(3-6) by (simp add: distinct_map_filter)
qed

lemma cache_ok_find:
  assumes "cache_ok c"
  shows "cache_ok (snd (findProgramForFile f c))"
proof -
  obtain r c' where eq: "find_program f (pc_lruCache c) c = (r, c')" by (cases "find_program f (pc_lruCache c) c")
  obtain D where D: "found_entry f (pc_lruCache c) c D r c'" using find_program_effect [OF eq] by blast
  have "cache_ok c'"
  proof (cases r)
    case None
    then show ?thesis using D by (auto intro!: cache_ok_filter [OF assms, where P = "\<lambda>x. fst x \<notin> D"])
  next
    case (Some res)
    then obtain p h k e where e: "(k, e) \<in> set (pc_lruCache c)"
      "c' = c\<lparr>pc_lruCache := filter (\<lambda>x. fst x \<notin> D \<and> fst x \<noteq> k) (pc_lruCache c)
         @ [(k, e\<lparr>ce_hitCount := ce_hitCount e + 1\<rparr>)]\<rparr>"
      using D by (cases res) auto
    let ?l = "filter (\<lambda>x. fst x \<notin> D \<and> fst x \<noteq> k) (pc_lruCache c)"
    have ok: "cache_ok (c\<lparr>pc_lruCache := ?l\<rparr>)" by (rule cache_ok_filter [OF assms]) simp_all
    have less: "length ?l < length (pc_lruCache c)" using e(1) by (intro length_filter_less) auto
    have "ce_keyObj e \<notin> set (map (\<lambda>(_, e). ce_keyObj e) ?l)"
    proof
      assume "ce_keyObj e \<in> set (map (\<lambda>(_, e). ce_keyObj e) ?l)"
      then obtain k' e' where "(k', e') \<in> set (pc_lruCache c)" "k' \<noteq> k" "ce_keyObj e' = ce_keyObj e" by auto
      then show False using assms e(1) by (auto simp: cache_ok_def distinct_map inj_on_def)
    qed
    moreover have "length (pc_lruCache c) \<le> max 1 (pc_maxSize c)" using assms by (simp add: cache_ok_def)
    ultimately show ?thesis using ok less e(1) assms unfolding e(2) cache_ok_def by auto
  qed
  then show ?thesis by (simp add: findProgramForFile_def eq)
qed

lemma cache_ok_store:
  assumes "cache_ok c"
  shows "cache_ok (storeProgram F rs p h c)"
proof -
  define l where "l = (if length (pc_lruCache c) \<ge> pc_maxSize c then drop 1 (pc_lruCache c) else pc_lruCache c)"
  obtain k e where ke: "pc_lruCache (storeProgram F rs p h c) = l @ [(k, e)]"
    "k = program_key (pc_cacheKeyCounter c)" "k \<notin> set (js_keys (pc_lruCache c))" "ce_keyObj e = pc_nextObject c"
    using store_effect [OF assms] unfolding l_def by blast
  have sub: "set l \<subseteq> set (pc_lruCache c)" by (auto simp: l_def dest: in_set_dropD)
  have dist: "distinct (js_keys l)" "distinct (map (\<lambda>(_, e). ce_keyObj e) l)"
    using assms by (auto simp: l_def cache_ok_def drop_map [symmetric])
  have short: "length (l @ [(k, e)]) \<le> max 1 (pc_maxSize c)" using assms by (auto simp: cache_ok_def l_def)
  have old: "(\<exists>n < pc_cacheKeyCounter c. k' = program_key n) \<and> ce_keyObj e' < pc_nextObject c"
    if "(k', e') \<in> set l" for k' e'
    using assms sub that unfolding cache_ok_def by blast
  have new: "\<forall>(k', e') \<in> set (l @ [(k, e)]). (\<exists>n < Suc (pc_cacheKeyCounter c). k' = program_key n)
      \<and> ce_keyObj e' < Suc (pc_nextObject c)"
  proof clarify
    fix k' e' assume in_l: "(k', e') \<in> set (l @ [(k, e)])"
    show "(\<exists>n < Suc (pc_cacheKeyCounter c). k' = program_key n) \<and> ce_keyObj e' < Suc (pc_nextObject c)"
    proof (cases "(k', e') \<in> set l")
      case False
      then show ?thesis using in_l ke(2,4) by (simp, blast)
    qed (use old less_SucI in blast)
  qed
  have "k \<notin> set (js_keys l)" using ke(3) sub by auto
  moreover have "ce_keyObj e \<notin> set (map (\<lambda>(_, e). ce_keyObj e) l)"
    using old ke(4) by fastforce
  ultimately have fresh: "distinct (js_keys (l @ [(k, e)]))" "distinct (map (\<lambda>(_, e). ce_keyObj e) (l @ [(k, e)]))"
    using dist by simp_all
  have objs: "\<forall>obj. ((pc_cache c)(pc_nextObject c \<mapsto> (p, h))) obj \<noteq> None \<longrightarrow> obj < Suc (pc_nextObject c)"
    using assms unfolding cache_ok_def by (metis fun_upd_apply less_Suc_eq)
  have st: "pc_cacheKeyCounter (storeProgram F rs p h c) = Suc (pc_cacheKeyCounter c)"
    "pc_nextObject (storeProgram F rs p h c) = Suc (pc_nextObject c)" "pc_maxSize (storeProgram F rs p h c) = pc_maxSize c"
    "pc_cache (storeProgram F rs p h c) = (pc_cache c)(pc_nextObject c \<mapsto> (p, h))"
    by (simp_all add: storeProgram_def Let_def)
  show ?thesis unfolding cache_ok_def ke(1) st by (intro conjI fresh short new objs)
qed

lemma cache_ok_step:
  assumes "cache_ok c"
  shows "cache_ok (cache_step op c)"
proof (cases op)
  case (Collect obj)
  then show ?thesis by (simp add: collect_def cache_ok_filter [OF assms, where P = "\<lambda>_. True"])
next
  case Clear
  then show ?thesis by (simp add: clear_programs_def cache_ok_filter [OF assms, where P = "\<lambda>_. False"])
qed (simp_all add: assms cache_ok_find cache_ok_store cache_ok_filter [OF assms, where P = "\<lambda>_. True"])

lemma cache_ok_run: "cache_ok c \<Longrightarrow> cache_ok (cache_run ops c)"
  by (induction ops arbitrary: c) (simp_all add: cache_run_def cache_ok_step)

lemma cache_ok_new: "cache_ok (new_program_cache m)"
  by (simp add: cache_ok_def new_program_cache_def)

lemma cache_step_maxSize: "pc_maxSize (cache_step op c) = pc_maxSize c"
proof (cases op)
  case (Find f)
  obtain r c' where eq: "find_program f (pc_lruCache c) c = (r, c')" by (cases "find_program f (pc_lruCache c) c")
  then obtain D where "found_entry f (pc_lruCache c) c D r c'" using find_program_effect by blast
  then have "pc_maxSize c' = pc_maxSize c" by (cases r) auto
  then show ?thesis using Find eq by (simp add: findProgramForFile_def)
qed (simp_all add: storeProgram_def Let_def collect_def clear_programs_def)

text \<open>
  The cache stays within its size, whatever is stored, searched, updated and collected: at most
  the maximum of entries (one if that is 0), with different keys and different key objects, so that
  no two entries share a program.
\<close>

theorem program_cache_is_bounded:
  "length (pc_lruCache (cache_run ops (new_program_cache m))) \<le> max 1 m
   \<and> distinct (js_keys (pc_lruCache (cache_run ops (new_program_cache m))))
   \<and> distinct (map (\<lambda>(_, e). ce_keyObj e) (pc_lruCache (cache_run ops (new_program_cache m))))"
proof -
  have "pc_maxSize (cache_run ops c) = pc_maxSize c" for c :: "'a program_cache"
    by (induction ops arbitrary: c) (simp_all add: cache_run_def cache_step_maxSize)
  then show ?thesis using cache_ok_run [OF cache_ok_new [of m], of ops]
    unfolding cache_ok_def by (simp add: new_program_cache_def)
qed

section \<open>Recent use\<close>

text \<open>The key of the program that an operation uses: the one a search returns or the one that is stored.\<close>

fun used_key :: "'p cache_op \<Rightarrow> 'p program_cache \<Rightarrow> string option" where
  "used_key (Find f) c = map_option (\<lambda>(_, _, k). k) (fst (findProgramForFile f c))"
| "used_key (Store files rootNames p h) c = Some (program_key (pc_cacheKeyCounter c))"
| "used_key op c = None"

fun used_keys :: "'p cache_op list \<Rightarrow> 'p program_cache \<Rightarrow> string set" where
  "used_keys [] c = {}"
| "used_keys (op # ops) c = set_option (used_key op c) \<union> used_keys ops (cache_step op c)"

lemma finite_used_keys [simp]: "finite (used_keys ops c)"
  by (induction ops arbitrary: c) simp_all

text \<open>An entry whose program is still there, with only programs of \<open>U\<close> behind it.\<close>

definition recent :: "string set \<Rightarrow> string \<Rightarrow> nat \<Rightarrow> 'p program_cache \<Rightarrow> bool" where
  "recent U k obj c \<longleftrightarrow>
     (\<exists>pre e post. pc_lruCache c = pre @ (k, e) # post \<and> fst ` set post \<subseteq> U \<and> ce_keyObj e = obj)
     \<and> pc_cache c obj \<noteq> None"

lemma recentI:
  "pc_lruCache c = pre @ (k, e) # post \<Longrightarrow> fst ` set post \<subseteq> U \<Longrightarrow> pc_cache c (ce_keyObj e) \<noteq> None \<Longrightarrow>
   recent U k (ce_keyObj e) c"
  unfolding recent_def by blast

lemma recent_filter:
  assumes "l = pre @ (k, e) # post" "P (k, e)"
  shows "\<exists>pre' post'. filter P l = pre' @ (k, e) # post' \<and> set post' \<subseteq> set post"
  using assms by (intro exI [of _ "filter P pre"] exI [of _ "filter P post"]) simp

lemma found_last:
  assumes "findProgramForFile f c = (Some (p, h, k), c')"
  obtains pre e where "pc_lruCache c' = pre @ [(k, e)]" "pc_cache c' (ce_keyObj e) = Some (p, h)"
proof -
  obtain D where D: "found_entry f (pc_lruCache c) c D (Some (p, h, k)) c'"
    using find_program_effect assms unfolding findProgramForFile_def by blast
  then obtain e where "pc_cache c (ce_keyObj e) = Some (p, h)"
    "c' = c\<lparr>pc_lruCache := filter (\<lambda>x. fst x \<notin> D \<and> fst x \<noteq> k) (pc_lruCache c)
       @ [(k, e\<lparr>ce_hitCount := ce_hitCount e + 1\<rparr>)]\<rparr>" by auto
  then show thesis using that [of _ "e\<lparr>ce_hitCount := ce_hitCount e + 1\<rparr>"] by simp
qed

lemma recent_find:
  assumes "cache_ok c" "recent U k obj c"
  shows "recent (U \<union> set_option (used_key (Find f) c)) k obj (snd (findProgramForFile f c))"
proof -
  obtain pre e post where e: "pc_lruCache c = pre @ (k, e) # post" "fst ` set post \<subseteq> U" "ce_keyObj e = obj"
    and alive: "pc_cache c obj \<noteq> None" using assms(2) by (auto simp: recent_def)
  have unique: "e' = e" if "(k, e') \<in> set (pc_lruCache c)" for e'
  proof -
    have "distinct (js_keys (pc_lruCache c))" "(k, e) \<in> set (pc_lruCache c)" using assms(1) e(1) by (auto simp: cache_ok_def)
    then show ?thesis using that by (metis eq_key_imp_eq_value)
  qed
  obtain r c' where eq: "find_program f (pc_lruCache c) c = (r, c')" by (cases "find_program f (pc_lruCache c) c")
  obtain D where dead: "dead_keys (pc_lruCache c) c D" and D: "found_entry f (pc_lruCache c) c D r c'"
    using find_program_effect [OF eq] by blast
  have k: "k \<notin> D"
  proof
    assume "k \<in> D"
    then obtain e' where "(k, e') \<in> set (pc_lruCache c)" "pc_cache c (ce_keyObj e') = None"
      using dead by (auto simp: dead_keys_def)
    then show False using unique e(3) alive by auto
  qed
  have "recent (U \<union> set_option (map_option (\<lambda>(_, _, k). k) r)) k obj c'"
  proof (cases r)
    case None
    then have c': "c' = c\<lparr>pc_lruCache := filter (\<lambda>x. fst x \<notin> D) (pc_lruCache c)\<rparr>" using D by simp
    obtain pre' post' where "filter (\<lambda>x. fst x \<notin> D) (pc_lruCache c) = pre' @ (k, e) # post'" "set post' \<subseteq> set post"
      using recent_filter [OF e(1), of "\<lambda>x. fst x \<notin> D"] k by auto
    then show ?thesis
      using c' e(2) alive unfolding e(3) [symmetric] by (intro recentI [of _ pre' _ _ post']) auto
  next
    case (Some res)
    then obtain p h k0 where r: "r = Some (p, h, k0)" by (cases res) auto
    then obtain e0 where k0: "(k0, e0) \<in> set (pc_lruCache c)"
      "c' = c\<lparr>pc_lruCache := filter (\<lambda>x. fst x \<notin> D \<and> fst x \<noteq> k0) (pc_lruCache c)
         @ [(k0, e0\<lparr>ce_hitCount := ce_hitCount e0 + 1\<rparr>)]\<rparr>"
      using D by auto
    show ?thesis
    proof (cases "k0 = k")
      case True
      then have "e0 = e" using unique k0(1) by simp
      then show ?thesis using k0(2) True e(3) alive
          recentI [of c' "filter (\<lambda>x. fst x \<notin> D \<and> fst x \<noteq> k0) (pc_lruCache c)" k "e\<lparr>ce_hitCount := ce_hitCount e + 1\<rparr>" "[]"]
        by simp
    next
      case False
      obtain pre' post' where f: "filter (\<lambda>x. fst x \<notin> D \<and> fst x \<noteq> k0) (pc_lruCache c) = pre' @ (k, e) # post'"
        and "set post' \<subseteq> set post"
        using recent_filter [OF e(1), of "\<lambda>x. fst x \<notin> D \<and> fst x \<noteq> k0"] k False by auto
      then have "fst ` set (post' @ [(k0, e0\<lparr>ce_hitCount := ce_hitCount e0 + 1\<rparr>)])
          \<subseteq> U \<union> set_option (map_option (\<lambda>(_, _, k). k) r)" using e(2) r by auto
      then show ?thesis
        using recentI [of c' pre' k e "post' @ [(k0, e0\<lparr>ce_hitCount := ce_hitCount e0 + 1\<rparr>)]"] k0(2) f alive e(3)
        by simp
    qed
  qed
  then show ?thesis by (simp add: findProgramForFile_def eq)
qed

lemma recent_store:
  assumes "cache_ok c" "recent U k obj c"
    "finite U" "card (insert (program_key (pc_cacheKeyCounter c)) U - {k}) < pc_maxSize c"
  shows "recent (insert (program_key (pc_cacheKeyCounter c)) U) k obj (storeProgram F rs p h c)"
proof -
  let ?new = "program_key (pc_cacheKeyCounter c)"
  obtain pre e post where e: "pc_lruCache c = pre @ (k, e) # post" "fst ` set post \<subseteq> U" "ce_keyObj e = obj"
    and alive: "pc_cache c obj \<noteq> None" using assms(2) by (auto simp: recent_def)
  obtain e' where st: "pc_lruCache (storeProgram F rs p h c)
      = (if length (pc_lruCache c) \<ge> pc_maxSize c then drop 1 (pc_lruCache c) else pc_lruCache c) @ [(?new, e')]"
    and new: "?new \<notin> set (js_keys (pc_lruCache c))"
    using store_effect [OF assms(1)] by blast
  have d: "distinct (js_keys (pc_lruCache c))" using assms(1) by (simp add: cache_ok_def)
  have "insert ?new (fst ` set post) \<subseteq> insert ?new U - {k}" using e(1,2) d new by auto
  then have "card (insert ?new (fst ` set post)) < pc_maxSize c"
    using assms(3,4) by (meson card_mono finite_Diff finite_insert le_less_trans)
  moreover have "card (insert ?new (fst ` set post)) = Suc (length post)"
    using d new unfolding e(1) by (simp add: distinct_card flip: set_map)
  ultimately have short: "Suc (length post) < pc_maxSize c" by simp
  have "\<exists>pre'. (if length (pc_lruCache c) \<ge> pc_maxSize c then drop 1 (pc_lruCache c) else pc_lruCache c)
      = pre' @ (k, e) # post"
  proof (cases "length (pc_lruCache c) \<ge> pc_maxSize c")
    case True
    then obtain x xs where "pre = x # xs" using e(1) short by (cases pre) auto
    then show ?thesis using True e(1) by simp
  qed (use e(1) in simp)
  then obtain pre' where "(if length (pc_lruCache c) \<ge> pc_maxSize c then drop 1 (pc_lruCache c) else pc_lruCache c)
      = pre' @ (k, e) # post" by blast
  then have "pc_lruCache (storeProgram F rs p h c) = pre' @ (k, e) # post @ [(?new, e')]" unfolding st by simp
  moreover have "pc_cache (storeProgram F rs p h c) obj \<noteq> None" using alive by (simp add: storeProgram_def Let_def)
  ultimately show ?thesis
    using recentI [of "storeProgram F rs p h c" pre' k e "post @ [(?new, e')]"] e(2,3) by auto
qed

lemma recent_step:
  assumes "cache_ok c" "recent U k obj c" "op \<noteq> Collect obj" "op \<noteq> Clear"
    "finite U" "card (U \<union> set_option (used_key op c) - {k}) < pc_maxSize c"
  shows "recent (U \<union> set_option (used_key op c)) k obj (cache_step op c)"
proof (cases op)
  case (Find f)
  then show ?thesis using recent_find [OF assms(1,2), of f] by simp
next
  case (Store files rootNames p h)
  then show ?thesis using recent_store [OF assms(1,2,5)] assms(6) by simp
qed (use assms in \<open>auto simp: recent_def collect_def\<close>)

lemma recent_run:
  "\<lbrakk>cache_ok c; recent U k obj c; finite U; card (U \<union> used_keys ops c - {k}) < pc_maxSize c;
    Collect obj \<notin> set ops; Clear \<notin> set ops\<rbrakk>
   \<Longrightarrow> recent (U \<union> used_keys ops c) k obj (cache_run ops c)"
proof (induction ops arbitrary: U c)
  case (Cons op ops)
  let ?U = "U \<union> set_option (used_key op c)"
  have U: "?U \<union> used_keys ops (cache_step op c) = U \<union> used_keys (op # ops) c" by auto
  have "card (?U - {k}) \<le> card (U \<union> used_keys (op # ops) c - {k})"
    using Cons.prems(3) by (intro card_mono) auto
  then have "recent ?U k obj (cache_step op c)"
    using Cons.prems by (intro recent_step) auto
  then have "recent (?U \<union> used_keys ops (cache_step op c)) k obj (cache_run ops (cache_step op c))"
    using Cons.prems U by (intro Cons.IH cache_ok_step) (auto simp: cache_step_maxSize)
  then show ?case unfolding U by (simp add: cache_run_def)
qed (simp add: cache_run_def)

lemma stored_last:
  assumes "cache_ok c"
  obtains pre e where "pc_lruCache (storeProgram F rs p h c) = pre @ [(program_key (pc_cacheKeyCounter c), e)]"
    "pc_cache (storeProgram F rs p h c) (ce_keyObj e) \<noteq> None"
proof -
  obtain e where "pc_lruCache (storeProgram F rs p h c)
      = (if length (pc_lruCache c) \<ge> pc_maxSize c then drop 1 (pc_lruCache c) else pc_lruCache c)
        @ [(program_key (pc_cacheKeyCounter c), e)]" "ce_keyObj e = pc_nextObject c"
    using store_effect [OF assms] by blast
  then show thesis using that by (simp add: storeProgram_def Let_def)
qed

lemma used_is_last:
  assumes "cache_ok c" "used_key op c = Some k"
  shows "\<exists>pre e. pc_lruCache (cache_step op c) = pre @ [(k, e)] \<and> pc_cache (cache_step op c) (ce_keyObj e) \<noteq> None"
proof (cases op)
  case (Find f)
  then obtain p h where "findProgramForFile f c = (Some (p, h, k), snd (findProgramForFile f c))"
    using assms(2) by (cases "findProgramForFile f c") auto
  from found_last [OF this] show ?thesis using Find by (metis cache_step.simps(1) option.distinct(1))
next
  case (Store files rootNames p h)
  then show ?thesis using stored_last [OF assms(1)] assms(2) by (metis cache_step.simps(2) option.inject used_key.simps(2))
qed (use assms(2) in simp_all)

text \<open>
  C31. A program that a search has just returned, or that has just been stored, stays in the cache
  over any further operations as long as these use fewer other programs than the size of the cache,
  however often they use them, unless the cache is cleared or the program is collected.
\<close>

theorem recent_program_is_kept:
  assumes "cache_ok c" "used_key op c = Some k" "map_of (pc_lruCache (cache_step op c)) k = Some e"
    "card (used_keys ops (cache_step op c) - {k}) < pc_maxSize c"
    "Collect (ce_keyObj e) \<notin> set ops" "Clear \<notin> set ops"
  shows "\<exists>e' ph. map_of (pc_lruCache (cache_run ops (cache_step op c))) k = Some e' \<and> ce_keyObj e' = ce_keyObj e
    \<and> pc_cache (cache_run ops (cache_step op c)) (ce_keyObj e) = Some ph"
proof -
  let ?c = "cache_step op c"
  have ok: "cache_ok ?c" by (intro cache_ok_step assms(1))
  then have d: "distinct (js_keys (pc_lruCache ?c))" by (simp add: cache_ok_def)
  obtain pre e1 where last: "pc_lruCache ?c = pre @ [(k, e1)]" "pc_cache ?c (ce_keyObj e1) \<noteq> None"
    using used_is_last [OF assms(1,2)] by blast
  moreover have "e1 = e" using d assms(3) last(1) by (metis eq_key_imp_eq_value in_set_conv_decomp map_of_SomeD)
  ultimately have "recent {} k (ce_keyObj e) ?c" by (intro recentI [of _ pre _ _ "[]"]) auto
  then have "recent (used_keys ops ?c) k (ce_keyObj e) (cache_run ops ?c)"
    using recent_run [OF ok, of "{}" k "ce_keyObj e" ops] assms(4-6) by (simp add: cache_step_maxSize)
  then obtain pre e' post where "pc_lruCache (cache_run ops ?c) = pre @ (k, e') # post" "ce_keyObj e' = ce_keyObj e"
    and alive: "pc_cache (cache_run ops ?c) (ce_keyObj e) \<noteq> None" unfolding recent_def by blast
  moreover have "distinct (js_keys (pc_lruCache (cache_run ops ?c)))"
    using cache_ok_run [OF ok] by (simp add: cache_ok_def)
  ultimately have "map_of (pc_lruCache (cache_run ops ?c)) k = Some e'" by (intro map_of_is_SomeI) simp_all
  then show ?thesis using \<open>ce_keyObj e' = ce_keyObj e\<close> alive by auto
qed

text \<open>
  Two programs in a cache of size two: the first one is found and a third one is stored. The search
  has moved the first one to the end, so the second one is evicted.
\<close>

definition sample_store :: "string \<Rightarrow> string cache_op" where
  "sample_store f = Store [f] [f] f (new_host None None ''/p'' False)"

definition sample_cache :: "string program_cache" where
  "sample_cache = cache_run [sample_store ''/p/a.ts'', sample_store ''/p/b.ts''] (new_program_cache 2)"

theorem recent_program_is_kept_witness:
  "\<exists>e' ph. map_of (pc_lruCache (cache_run [sample_store ''/p/c.ts''] (cache_step (Find ''/p/a.ts'') sample_cache)))
       ''program-0'' = Some e'
     \<and> pc_cache (cache_run [sample_store ''/p/c.ts''] (cache_step (Find ''/p/a.ts'') sample_cache)) (ce_keyObj e') = Some ph"
proof -
  let ?c = "cache_step (Find ''/p/a.ts'') sample_cache"
  have ok: "cache_ok sample_cache" unfolding sample_cache_def by (intro cache_ok_run cache_ok_new)
  have used: "used_key (Find ''/p/a.ts'') sample_cache = Some ''program-0''"
    "used_keys [sample_store ''/p/c.ts''] ?c = {''program-2''}" "pc_maxSize sample_cache = 2"
    "map_option ce_keyObj (map_of (pc_lruCache ?c) ''program-0'') = Some 0"
    by code_simp+
  from used(4) obtain e where e: "map_of (pc_lruCache ?c) ''program-0'' = Some e" "ce_keyObj e = 0" by blast
  from used(2,3) have few: "card (used_keys [sample_store ''/p/c.ts''] ?c - {''program-0''}) < pc_maxSize sample_cache"
    by (simp only: used(2)) simp
  have "Collect (ce_keyObj e) \<notin> set [sample_store ''/p/c.ts'']" "Clear \<notin> set [sample_store ''/p/c.ts'']"
    by (simp_all add: sample_store_def)
  from recent_program_is_kept [OF ok used(1) e(1) few this] show ?thesis by metis
qed

section \<open>A file in two programs\<close>

text \<open>
  Programs are the lists of the trees of their root files. A file that two programs share has
  changed: the first request for it rebuilds the program that was used longest ago and moves it to
  the end, so the next request finds the other program, sees that the content is cached already, and
  gets the program with the tree from before the change.
\<close>

type_synonym sample_tree = "string \<times> string \<times> int"

fun build_roots ::
  "sample_tree base_host \<Rightarrow> string list \<Rightarrow> sample_tree source_caches \<times> compiler_host
   \<Rightarrow> sample_tree list \<times> sample_tree source_caches \<times> compiler_host" where
  "build_roots B [] st = ([], st)"
| "build_roots B (f # fs) st =
     (let (r, st1) = getSourceFile B f 9 False st; (trees, st2) = build_roots B fs st1
      in ((case r of None \<Rightarrow> trees | Some (t, _) \<Rightarrow> t # trees), st2))"

definition sample_typescript :: "(sample_tree list, unit, sample_tree) typescript_build" where
  "sample_typescript =
     \<lparr>tb_host = sample_host, tb_build = \<lambda>B options _ st. build_roots B (po_rootNames options) st,
      tb_sourceFiles = map fst\<rparr>"

definition root_options :: "string list \<Rightarrow> unit \<Rightarrow> unit program_options option \<times> unit" where
  "root_options roots x =
     (Some \<lparr>po_rootNames = roots,
            po_options = \<lparr>co_lib = None, co_target = None, co_jsx = None, co_importHelpers = None, co_flags = [], co_other = ()\<rparr>,
            po_projectReferences = None, po_missingTsConfig = False\<rparr>, ())"

definition sample_request ::
  "(string \<rightharpoonup> string option) \<Rightarrow> string \<Rightarrow> string list \<Rightarrow> (sample_tree list, sample_tree) program_state
   \<Rightarrow> sample_tree list option \<times> (sample_tree list, sample_tree) program_state" where
  "sample_request files f roots ps =
     (let (p, ps', _) = createOrGetCachedProgramForFile sample_typescript ''/p'' f (root_options roots) False
            (ps\<lparr>ps_sources := setSourceFilesContext files (ps_sources ps)\<rparr>) ()
      in (p, ps'))"

definition two_programs :: "(sample_tree list, sample_tree) program_state" where
  "two_programs =
     (let ctx = [''/p/a.ts'' \<mapsto> Some ''a'', ''/p/b.ts'' \<mapsto> Some ''b'', ''/p/s.ts'' \<mapsto> Some ''old''];
          start = \<lparr>ps_programs = new_program_cache 10,
                   ps_sources = \<lparr>sc_contents = Map.empty, sc_parsed = Map.empty, sc_context = None\<rparr>\<rparr>
      in snd (sample_request ctx ''/p/b.ts'' [''/p/b.ts'', ''/p/s.ts'']
           (snd (sample_request ctx ''/p/a.ts'' [''/p/a.ts'', ''/p/s.ts''] start))))"

definition changed_request :: "(sample_tree list, sample_tree) program_state
   \<Rightarrow> sample_tree list option \<times> (sample_tree list, sample_tree) program_state" where
  "changed_request = sample_request [''/p/s.ts'' \<mapsto> Some ''new''] ''/p/s.ts'' [''/p/a.ts'', ''/p/s.ts'']"

lemma shared_file_gets_stale_program:
  "fst (changed_request two_programs) = Some [(''/p/a.ts'', ''a'', 9), (''/p/s.ts'', ''new'', 9)]"
  "fst (changed_request (snd (changed_request two_programs))) = Some [(''/p/b.ts'', ''b'', 9), (''/p/s.ts'', ''old'', 9)]"
  by code_simp+

end
