(* ===== verification/Tsconfig_Store.thy ===== *)
theory Tsconfig_Store
  imports Program_Cache "HOL-Library.Char_ord" "HOL-Library.List_Lexorder"
begin

text \<open>
  The store of the project's \<open>tsconfig.json\<close> files,
  \<open>packages/analysis/src/file-stores/tsconfigs.ts\<close>. \<open>glob\<close> is the \<open>match\<close> of a \<open>Minimatch\<close> with
  the options \<open>nocase\<close>, \<open>matchBase\<close> and \<open>dot\<close>. The caches that the store clears are part of the
  state; log messages are left out.
\<close>

section \<open>The store\<close>

record ('p, 'o) tsconfig_store =
  ts_foundLookupTsConfigs :: "string list"
  ts_foundPropertyTsConfigs :: "string list"
  ts_providedPropertyTsConfigs :: "(string \<times> minimatch) list option"
  ts_propertyTsConfigsHash :: "string option"
  ts_baseDir :: "string option"
  ts_canAccessFileSystem :: "bool option"
  ts_projectFileDiscoveryConfigKey :: "string option"
  ts_options :: "'o options_caches"
  ts_programs :: "'p program_cache"

definition TSCONFIG_JSON :: string where
  "TSCONFIG_JSON = ''tsconfig.json''"

definition getTsConfigs :: "('p, 'o) tsconfig_store \<Rightarrow> string list" where
  "getTsConfigs s =
     (if ts_foundPropertyTsConfigs s \<noteq> [] then ts_foundPropertyTsConfigs s
      else if ts_foundLookupTsConfigs s \<noteq> [] then ts_foundLookupTsConfigs s else [])"

text \<open>
  The two tests compare arrays by identity: \<open>getTsConfigs\<close> is one of the fields only if that field
  is not empty.
\<close>

definition usingPropertyTsConfigs :: "('p, 'o) tsconfig_store \<Rightarrow> bool" where
  "usingPropertyTsConfigs s \<longleftrightarrow> ts_foundPropertyTsConfigs s \<noteq> []"

definition usingLookupTsConfigs :: "('p, 'o) tsconfig_store \<Rightarrow> bool" where
  "usingLookupTsConfigs s \<longleftrightarrow> ts_foundPropertyTsConfigs s = [] \<and> ts_foundLookupTsConfigs s \<noteq> []"

definition addDiscoveredTsConfig :: "string \<Rightarrow> ('p, 'o) tsconfig_store \<Rightarrow> ('p, 'o) tsconfig_store" where
  "addDiscoveredTsConfig tsconfig s =
     (if usingPropertyTsConfigs s \<and> tsconfig \<notin> set (ts_foundPropertyTsConfigs s)
      then s\<lparr>ts_foundPropertyTsConfigs := ts_foundPropertyTsConfigs s @ [tsconfig]\<rparr>
      else if usingLookupTsConfigs s \<and> tsconfig \<notin> set (ts_foundLookupTsConfigs s)
      then s\<lparr>ts_foundLookupTsConfigs := ts_foundLookupTsConfigs s @ [tsconfig]\<rparr>
      else s)"

definition computeTsConfigsHash :: "string list \<Rightarrow> string" where
  "computeTsConfigsHash tsConfigPaths = join_with '','' tsConfigPaths"

definition filenameMatchesTsConfig :: "string \<Rightarrow> bool" where
  "filenameMatchesTsConfig filename \<longleftrightarrow> base_name filename = TSCONFIG_JSON"

definition filenameMatchesProvidedTsConfig :: "(minimatch \<Rightarrow> string \<Rightarrow> bool) \<Rightarrow> string \<Rightarrow> ('p, 'o) tsconfig_store \<Rightarrow> bool" where
  "filenameMatchesProvidedTsConfig glob filename s =
     (case ts_providedPropertyTsConfigs s of
        None \<Rightarrow> False
      | Some provided \<Rightarrow> list_ex (\<lambda>(path, pattern). path = filename \<or> glob pattern filename) provided)"

definition clear_tsconfigs :: "('p, 'o) tsconfig_store \<Rightarrow> ('p, 'o) tsconfig_store" where
  "clear_tsconfigs s =
     s\<lparr>ts_foundLookupTsConfigs := [], ts_foundPropertyTsConfigs := [], ts_providedPropertyTsConfigs := None,
       ts_propertyTsConfigsHash := None, ts_baseDir := None, ts_canAccessFileSystem := None,
       ts_projectFileDiscoveryConfigKey := None,
       ts_options := clearProgramOptionsCache (clearTsConfigContentCache (ts_options s)),
       ts_programs := clear_programs (ts_programs s)\<rparr>"

text \<open>An event clears the store if it is about a configuration file.\<close>

definition concerns_tsconfigs :: "(minimatch \<Rightarrow> string \<Rightarrow> bool) \<Rightarrow> ('p, 'o) tsconfig_store \<Rightarrow> string \<Rightarrow> bool" where
  "concerns_tsconfigs glob s filename \<longleftrightarrow>
     filename \<in> set (getTsConfigs s)
     \<or> usingLookupTsConfigs s \<and> filenameMatchesTsConfig filename
     \<or> usingPropertyTsConfigs s \<and> filenameMatchesProvidedTsConfig glob filename s"

definition dirty_tsconfigs ::
  "(minimatch \<Rightarrow> string \<Rightarrow> bool) \<Rightarrow> configuration \<Rightarrow> ('p, 'o) tsconfig_store \<Rightarrow> ('p, 'o) tsconfig_store" where
  "dirty_tsconfigs glob c s =
     (if ts_baseDir s \<noteq> Some (cfg_baseDir c) \<or> ts_canAccessFileSystem s \<noteq> Some (cfg_canAccessFileSystem c)
         \<or> ts_propertyTsConfigsHash s \<noteq> Some (computeTsConfigsHash (cfg_tsConfigPaths c))
         \<or> ts_projectFileDiscoveryConfigKey s \<noteq> Some (getProjectFileDiscoveryConfigKey c)
      then clear_tsconfigs s
      else if list_ex (concerns_tsconfigs glob s) (cfg_fsEvents c) then clear_tsconfigs s else s)"

definition tsconfigs_isInitialized ::
  "(minimatch \<Rightarrow> string \<Rightarrow> bool) \<Rightarrow> configuration \<Rightarrow> ('p, 'o) tsconfig_store \<Rightarrow> bool \<times> ('p, 'o) tsconfig_store" where
  "tsconfigs_isInitialized glob c s = (let s' = dirty_tsconfigs glob c s in (ts_baseDir s' \<noteq> None, s'))"

definition setup_tsconfigs :: "configuration \<Rightarrow> ('p, 'o) tsconfig_store \<Rightarrow> ('p, 'o) tsconfig_store" where
  "setup_tsconfigs c s =
     (let s1 = s\<lparr>ts_baseDir := Some (cfg_baseDir c), ts_canAccessFileSystem := Some (cfg_canAccessFileSystem c),
                 ts_projectFileDiscoveryConfigKey := Some (getProjectFileDiscoveryConfigKey c)\<rparr>;
          newHash = computeTsConfigsHash (cfg_tsConfigPaths c)
      in if Some newHash \<noteq> ts_propertyTsConfigsHash s1
         then s1\<lparr>ts_providedPropertyTsConfigs := Some (map (\<lambda>p. (p, p)) (cfg_tsConfigPaths c)),
                 ts_propertyTsConfigsHash := Some newHash\<rparr>
         else s1)"

definition tsconfigs_wantsFile :: "(minimatch \<Rightarrow> string \<Rightarrow> bool) \<Rightarrow> string \<Rightarrow> ('p, 'o) tsconfig_store \<Rightarrow> bool" where
  "tsconfigs_wantsFile glob filename s \<longleftrightarrow>
     filenameMatchesProvidedTsConfig glob filename s \<or> filenameMatchesTsConfig filename"

definition tsconfigs_processFile ::
  "(minimatch \<Rightarrow> string \<Rightarrow> bool) \<Rightarrow> string \<Rightarrow> ('p, 'o) tsconfig_store \<Rightarrow> ('p, 'o) tsconfig_store" where
  "tsconfigs_processFile glob filename s =
     (let s1 = (if filenameMatchesProvidedTsConfig glob filename s
                then s\<lparr>ts_foundPropertyTsConfigs := ts_foundPropertyTsConfigs s @ [filename]\<rparr> else s)
      in if filenameMatchesTsConfig filename
         then s1\<lparr>ts_foundLookupTsConfigs := ts_foundLookupTsConfigs s1 @ [filename]\<rparr> else s1)"

text \<open>\<open>indexOf\<close>, which is \<open>-1\<close> for what is not there.\<close>

definition js_index_of :: "'a list \<Rightarrow> 'a \<Rightarrow> int" where
  "js_index_of xs x = (if x \<in> set xs then int (length (takeWhile (\<lambda>y. y \<noteq> x) xs)) else - 1)"

text \<open>
  \<open>sort()\<close> compares UTF-16 code units. In the order of the bytes of UTF-8 this puts the characters
  behind the surrogates (first byte 0xEE or 0xEF) last.
\<close>

definition utf16_rank :: "char \<Rightarrow> nat" where
  "utf16_rank b = (let n = of_char b in if n = 0xEE \<or> n = 0xEF then n + 16 else n)"

definition js_sort :: "string list \<Rightarrow> string list" where
  "js_sort = sort_key (map utf16_rank)"

definition tsconfigs_postProcess :: "('p, 'o) tsconfig_store \<Rightarrow> ('p, 'o) tsconfig_store" where
  "tsconfigs_postProcess s =
     (let providedOrder = map fst (nullish (ts_providedPropertyTsConfigs s) [])
      in s\<lparr>ts_foundLookupTsConfigs := js_sort (ts_foundLookupTsConfigs s),
           ts_foundPropertyTsConfigs := sort_key (js_index_of providedOrder) (ts_foundPropertyTsConfigs s)\<rparr>)"

section \<open>What is found\<close>

text \<open>What the settings name, and the walk over the files of the project.\<close>

definition named_by :: "(minimatch \<Rightarrow> string \<Rightarrow> bool) \<Rightarrow> configuration \<Rightarrow> string \<Rightarrow> bool" where
  "named_by glob c f \<longleftrightarrow> list_ex (\<lambda>p. p = f \<or> glob p f) (cfg_tsConfigPaths c)"

definition walk_tsconfigs ::
  "(minimatch \<Rightarrow> string \<Rightarrow> bool) \<Rightarrow> string list \<Rightarrow> ('p, 'o) tsconfig_store \<Rightarrow> ('p, 'o) tsconfig_store" where
  "walk_tsconfigs glob files s =
     fold (\<lambda>f s. if tsconfigs_wantsFile glob f s then tsconfigs_processFile glob f s else s) files s"

lemma sort_key_Nil_iff [simp]: "sort_key k xs = [] \<longleftrightarrow> xs = []"
  by (simp flip: length_0_conv)

lemma walk_tsconfigs:
  "walk_tsconfigs glob files s =
     s\<lparr>ts_foundPropertyTsConfigs := ts_foundPropertyTsConfigs s
         @ filter (\<lambda>f. filenameMatchesProvidedTsConfig glob f s) files,
       ts_foundLookupTsConfigs := ts_foundLookupTsConfigs s @ filter filenameMatchesTsConfig files\<rparr>"
proof (induction files arbitrary: s)
  case (Cons f files)
  let ?s = "if tsconfigs_wantsFile glob f s then tsconfigs_processFile glob f s else s"
  have same: "filenameMatchesProvidedTsConfig glob f' ?s = filenameMatchesProvidedTsConfig glob f' s" for f'
    by (simp add: filenameMatchesProvidedTsConfig_def tsconfigs_processFile_def Let_def)
  have "walk_tsconfigs glob (f # files) s = walk_tsconfigs glob files ?s" by (simp add: walk_tsconfigs_def)
  then show ?case
    unfolding Cons.IH same by (simp add: tsconfigs_processFile_def tsconfigs_wantsFile_def Let_def)
qed (simp add: walk_tsconfigs_def)

lemma js_index_of_append:
  "js_index_of (ps @ [x]) y =
     (if y \<in> set ps then js_index_of ps y else if y = x then int (length ps) else - 1)"
proof -
  have "takeWhile (\<lambda>z. z \<noteq> y) ps = ps" if "y \<notin> set ps" using that by (auto simp: takeWhile_eq_all_conv)
  then show ?thesis by (auto simp: js_index_of_def takeWhile_append1 takeWhile_append2)
qed

lemma js_index_of_less: "y \<in> set ps \<Longrightarrow> js_index_of ps y < int (length ps)"
  by (induction ps rule: rev_induct) (auto simp: js_index_of_append)

lemma js_index_of_nonneg: "0 \<le> js_index_of ps y \<longleftrightarrow> y \<in> set ps"
  by (simp add: js_index_of_def)

lemma js_index_of_inj: "x \<in> set ps \<Longrightarrow> js_index_of ps x = js_index_of ps y \<Longrightarrow> x = y"
proof (induction ps rule: rev_induct)
  case (snoc p ps)
  then show ?case using js_index_of_less [of x ps] js_index_of_less [of y ps] js_index_of_nonneg [of ps x]
    by (auto simp: js_index_of_append split: if_splits)
qed simp

text \<open>The settings without repetitions.\<close>

definition first_named :: "string list \<Rightarrow> string list" where
  "first_named ps = rev (remdups (rev ps))"

lemma first_named_simps [simp]: "set (first_named ps) = set ps" "distinct (first_named ps)"
  by (simp_all add: first_named_def)

lemma sorted_first_named: "sorted_wrt (\<le>) (map (js_index_of ps) (first_named ps))"
proof (induction ps rule: rev_induct)
  case (snoc x ps)
  have same: "map (js_index_of (ps @ [x])) (first_named ps) = map (js_index_of ps) (first_named ps)"
    by (intro map_cong) (simp_all add: js_index_of_append)
  have "map (js_index_of (ps @ [x])) (first_named (ps @ [x]))
      = map (js_index_of ps) (first_named ps) @ (if x \<in> set ps then [] else [int (length ps)])"
    using same by (auto simp: first_named_def js_index_of_append)
  then show ?case using snoc.IH js_index_of_less [of _ ps] by (auto simp: List.sorted_append less_imp_le)
qed (simp add: first_named_def)

lemma filter_singleton: "distinct zs \<Longrightarrow> k \<in> set zs \<Longrightarrow> (\<And>x. x \<in> set zs \<Longrightarrow> Q x \<longleftrightarrow> x = k) \<Longrightarrow> filter Q zs = [k]"
proof (induction zs)
  case (Cons z zs)
  then show ?case by (cases "z = k") (auto simp: filter_empty_conv)
qed simp

lemma sort_by_settings:
  assumes "distinct files" "\<And>p. p \<in> set ps \<Longrightarrow> N p"
  shows "sort_key (js_index_of ps) (filter N files)
     = filter (\<lambda>f. N f \<and> f \<notin> set ps) files @ filter (\<lambda>p. p \<in> set files) (first_named ps)"
    (is "_ = ?front @ ?back")
proof (rule properties_for_sort_key)
  have d: "distinct (?front @ ?back)" using assms(1) by auto
  have "set (filter N files) = set (?front @ ?back)" using assms(2) by auto
  then show "mset (?front @ ?back) = mset (filter N files)"
    using set_eq_iff_mset_eq_distinct [OF distinct_filter [OF assms(1)] d] by simp
  show "filter (\<lambda>x. js_index_of ps k = js_index_of ps x) (?front @ ?back)
      = filter (\<lambda>x. js_index_of ps k = js_index_of ps x) (filter N files)" if k: "k \<in> set (?front @ ?back)" for k
  proof (cases "k \<in> set ps")
    case True
    then have eq: "js_index_of ps k = js_index_of ps x \<longleftrightarrow> x = k" for x using js_index_of_inj by metis
    have "k \<in> set (filter N files)" using k True assms(2) by auto
    with k show ?thesis using d assms(1) eq
        filter_singleton [of "filter N files" k "\<lambda>x. js_index_of ps k = js_index_of ps x"]
        filter_singleton [of "?front @ ?back" k "\<lambda>x. js_index_of ps k = js_index_of ps x"]
      by (simp only: distinct_filter)
  next
    case False
    then have "js_index_of ps k = js_index_of ps x \<longleftrightarrow> x \<notin> set ps" for x
      using js_index_of_nonneg [of ps x] by (auto simp: js_index_of_def)
    then show ?thesis by (auto simp: filter_empty_conv intro!: filter_cong)
  qed
  have "map (js_index_of ps) ?front = replicate (length ?front) (- 1)"
    by (rule replicate_eqI) (auto simp: js_index_of_def)
  then have "sorted_wrt (\<le>) (map (js_index_of ps) ?front)" by simp
  moreover have "sorted_wrt (\<le>) (map (js_index_of ps) ?back)" by (intro List.sorted_filter sorted_first_named)
  ultimately show "sorted_wrt (\<le>) (map (js_index_of ps) (?front @ ?back))"
    using js_index_of_nonneg [of ps] by (fastforce simp: List.sorted_append js_index_of_def)
qed

lemma found_tsconfigs:
  "getTsConfigs (tsconfigs_postProcess (walk_tsconfigs glob files (setup_tsconfigs c (clear_tsconfigs s))))
     = (if \<exists>f\<in>set files. named_by glob c f
        then sort_key (js_index_of (cfg_tsConfigPaths c)) (filter (named_by glob c) files)
        else js_sort (filter filenameMatchesTsConfig files))"
proof -
  let ?s = "setup_tsconfigs c (clear_tsconfigs s)"
  have st: "ts_foundPropertyTsConfigs ?s = []" "ts_foundLookupTsConfigs ?s = []"
    "ts_providedPropertyTsConfigs ?s = Some (map (\<lambda>p. (p, p)) (cfg_tsConfigPaths c))"
    by (simp_all add: setup_tsconfigs_def clear_tsconfigs_def Let_def)
  have "filenameMatchesProvidedTsConfig glob f ?s = named_by glob c f" for f
    unfolding filenameMatchesProvidedTsConfig_def st(3) named_by_def by (simp add: list_ex_iff)
  then show ?thesis
    unfolding walk_tsconfigs tsconfigs_postProcess_def getTsConfigs_def Let_def
    by (simp add: st o_def filter_empty_conv js_sort_def)
qed

text \<open>
  C32. The configuration files of a project are those that the settings name: first the files that
  are only matched by a pattern of the settings (or up to case), in the order of the walk, then the
  files that stand in the settings themselves, each once and in the order of the settings. If the walk meets
  none of either, they are the files called \<open>tsconfig.json\<close>, sorted by path.
\<close>

theorem tsconfigs_found:
  assumes "distinct files"
  shows "getTsConfigs (tsconfigs_postProcess (walk_tsconfigs glob files (setup_tsconfigs c (clear_tsconfigs s))))
     = (if \<exists>f\<in>set files. named_by glob c f
        then filter (\<lambda>f. named_by glob c f \<and> f \<notin> set (cfg_tsConfigPaths c)) files
             @ filter (\<lambda>p. p \<in> set files) (first_named (cfg_tsConfigPaths c))
        else js_sort (filter filenameMatchesTsConfig files))"
proof -
  have "named_by glob c p" if "p \<in> set (cfg_tsConfigPaths c)" for p
    using that by (auto simp: named_by_def list_ex_iff)
  then show ?thesis by (simp only: found_tsconfigs sort_by_settings [OF assms])
qed

text \<open>
  The settings name one file and then a pattern. The file that only the pattern matches comes
  first, although the settings have it second.
\<close>

definition sample_settings :: configuration where
  "sample_settings =
     (case createConfiguration ''/'' (JObj [(''baseDir'', JStr ''/p''),
          (''tsConfigPaths'', JArr [JStr ''/p/main.json'', JStr ''/p/tsconfig.*.json''])]) of
        Inr c \<Rightarrow> c
      | Inl _ \<Rightarrow> undefined)"

definition sample_match :: "string \<Rightarrow> string \<Rightarrow> bool" where
  "sample_match p f \<longleftrightarrow> p = f \<or> p = ''/p/tsconfig.*.json'' \<and> f = ''/p/tsconfig.a.json''"

lemma sample_paths: "cfg_tsConfigPaths sample_settings = [''/p/main.json'', ''/p/tsconfig.*.json'']"
  by code_simp

lemma pattern_matches_come_first:
  "getTsConfigs (tsconfigs_postProcess (walk_tsconfigs sample_match [''/p/main.json'', ''/p/tsconfig.a.json'']
     (setup_tsconfigs sample_settings (clear_tsconfigs s)))) = [''/p/tsconfig.a.json'', ''/p/main.json'']"
  by (simp add: found_tsconfigs named_by_def sample_paths sample_match_def js_index_of_def)

theorem tsconfigs_found_witness:
  "\<forall>s :: (unit, unit) tsconfig_store.
     getTsConfigs (tsconfigs_postProcess (walk_tsconfigs sample_match
       [''/p/main.json'', ''/p/tsconfig.json'', ''/p/tsconfig.a.json''] (setup_tsconfigs sample_settings (clear_tsconfigs s))))
     = [''/p/tsconfig.a.json'', ''/p/main.json'']"
proof
  fix s :: "(unit, unit) tsconfig_store"
  show "getTsConfigs (tsconfigs_postProcess (walk_tsconfigs sample_match
       [''/p/main.json'', ''/p/tsconfig.json'', ''/p/tsconfig.a.json''] (setup_tsconfigs sample_settings (clear_tsconfigs s))))
     = [''/p/tsconfig.a.json'', ''/p/main.json'']"
    using tsconfigs_found [of "[''/p/main.json'', ''/p/tsconfig.json'', ''/p/tsconfig.a.json'']" sample_match sample_settings s]
    by (simp add: sample_paths named_by_def sample_match_def first_named_def)
qed

text \<open>References that are discovered extend the list that is in use.\<close>

lemma getTsConfigs_add:
  "getTsConfigs (addDiscoveredTsConfig t s)
     = (if getTsConfigs s \<noteq> [] \<and> t \<notin> set (getTsConfigs s) then getTsConfigs s @ [t] else getTsConfigs s)"
  by (auto simp: addDiscoveredTsConfig_def getTsConfigs_def usingPropertyTsConfigs_def usingLookupTsConfigs_def)

text \<open>
  A project without any configuration file stays without: the event that \<open>tsconfig.json\<close> was created
  clears nothing, since neither list is in use, and the store counts as initialized.
\<close>

lemma created_tsconfig_is_missed:
  assumes "ts_baseDir s = Some (cfg_baseDir c)" "ts_canAccessFileSystem s = Some (cfg_canAccessFileSystem c)"
    "ts_propertyTsConfigsHash s = Some (computeTsConfigsHash (cfg_tsConfigPaths c))"
    "ts_projectFileDiscoveryConfigKey s = Some (getProjectFileDiscoveryConfigKey c)"
    "ts_foundLookupTsConfigs s = []" "ts_foundPropertyTsConfigs s = []"
  shows "tsconfigs_isInitialized glob c s = (True, s)"
  using assms
  by (simp add: tsconfigs_isInitialized_def dirty_tsconfigs_def concerns_tsconfigs_def getTsConfigs_def
      usingPropertyTsConfigs_def usingLookupTsConfigs_def list_ex_iff Let_def)

end
