(* ===== verification/Project_Analysis.thy ===== *)
theory Project_Analysis
  imports Tsconfig_Store Scanner_Locations Analysis_Response Analysis_Request
begin

text \<open>
  A project is analyzed: \<open>analyzeProject.ts\<close>, \<open>analyzeFile.ts\<close>, \<open>handleFileResult.ts\<close>,
  \<open>analyzeWithProgram.ts\<close>, \<open>analyzeWithoutProgram.ts\<close> and \<open>analyzeWithIncrementalProgram.ts\<close> of
  \<open>packages/analysis/src\<close>. The analyzers of a file, TypeScript, lodash's \<open>merge\<close> and the telemetry
  are parameters. A cancellation may come between any two checks: the environment says for each
  check whether it has come by then. Log messages are left out.
\<close>

section \<open>Environment and state\<close>

record css_input =
  ci_filePath :: string
  ci_fileContent :: string
  ci_fileType :: file_type
  ci_ruleFileType :: file_type
  ci_sonarlint :: bool

record embedded_input =
  ei_filePath :: string
  ei_fileContent :: string
  ei_sonarlint :: bool

record 'p jsts_input =
  ji_fields :: jsts_config_fields
  ji_filePath :: string
  ji_fileContent :: string
  ji_fileType :: file_type
  ji_ruleFileType :: file_type
  ji_fileStatus :: file_status
  ji_language :: language
  ji_program :: "'p option"
  ji_detectedEsYear :: "nat option"
  ji_targetEsYear :: "nat option"

text \<open>
  \<open>ae_css\<close>, \<open>ae_html\<close>, \<open>ae_yaml\<close> and \<open>ae_jsts\<close> are \<open>analyzeCSSProject\<close> and the like;
  \<open>ae_standard\<close> is \<open>createStandardProgram\<close> on a new host and may throw; \<open>ae_isDirectory\<close> is
  \<open>lstatSync(...).isDirectory()\<close>, if it does not throw.
\<close>

record ('p, 'o, 'ast, 'tree) analysis_env =
  ae_files :: "(string, analyzable_file) js_map"
  ae_config :: configuration
  ae_hasRules :: bool
  ae_linterError :: "string option"
  ae_channel :: bool
  ae_cancelled :: "nat \<Rightarrow> bool"
  ae_css :: "css_input \<Rightarrow> bool \<Rightarrow> file_result"
  ae_html :: "embedded_input \<Rightarrow> language \<Rightarrow> 'tree analyzer_result"
  ae_yaml :: "embedded_input \<Rightarrow> language \<Rightarrow> 'tree analyzer_result"
  ae_jsts :: "'p jsts_input \<Rightarrow> 'tree analyzer_result"
  ae_cssActive :: bool
  ae_serialize :: "'tree serializer"
  ae_units :: "string \<Rightarrow> nat list"
  ae_typescript :: "('p, 'o, 'ast) typescript_build"
  ae_configs :: "'o typescript_config"
  ae_manifests :: manifests
  ae_parseHost :: base_parse_host
  ae_standard :: "'o program_options \<Rightarrow> 'ast source_caches \<Rightarrow> (string + 'p) \<times> 'ast source_caches"
  ae_references :: "'p \<Rightarrow> string list"
  ae_compilerOptions :: "'p \<Rightarrow> 'o compiler_options"
  ae_isDirectory :: "string \<Rightarrow> bool option"
  ae_merge :: "'o program_options list \<Rightarrow> 'o program_options"
  ae_tsVersion :: string
  ae_telemetry :: "string list telemetry"

record ('p, 'o, 'ast) run_state =
  rs_files :: "(string, file_result) js_map"
  rs_warnings :: "string list"
  rs_events :: "incremental_result list"
  rs_pending :: "string list"
  rs_counter :: nat
  rs_checks :: nat
  rs_store :: "('p, 'o) tsconfig_store"
  rs_sources :: "'ast source_caches"
  rs_found :: "'o program_options list"
  rs_processed :: "string list"

text \<open>A step returns, is left early because of a cancellation, throws, or lacks fuel.\<close>

datatype outcome = Returned | Stopped | Thrown string | OutOfFuel

definition and_then :: "outcome \<times> 's \<Rightarrow> ('s \<Rightarrow> outcome \<times> 's) \<Rightarrow> outcome \<times> 's" where
  "and_then r f = (case r of (Returned, s) \<Rightarrow> f s | _ \<Rightarrow> r)"

text \<open>The end of a function that was left early.\<close>

definition function_end :: "outcome \<times> 's \<Rightarrow> outcome \<times> 's" where
  "function_end r = (case r of (Stopped, s) \<Rightarrow> (Returned, s) | _ \<Rightarrow> r)"

definition isAnalysisCancelled ::
  "('p, 'o, 'ast, 'tree) analysis_env \<Rightarrow> ('p, 'o, 'ast) run_state \<Rightarrow> bool \<times> ('p, 'o, 'ast) run_state" where
  "isAnalysisCancelled E s = (ae_cancelled E (rs_checks s), s\<lparr>rs_checks := rs_checks s + 1\<rparr>)"

abbreviation fields_of :: "('p, 'o, 'ast, 'tree) analysis_env \<Rightarrow> jsts_config_fields" where
  "fields_of E \<equiv> getJsTsConfigFields (ae_config E)"

abbreviation suffixes_of :: "('p, 'o, 'ast, 'tree) analysis_env \<Rightarrow> filter_file_params" where
  "suffixes_of E \<equiv> jf_shouldIgnoreParams (fields_of E)"

definition is_jsts :: "('p, 'o, 'ast, 'tree) analysis_env \<Rightarrow> string \<Rightarrow> bool" where
  "is_jsts E f = isJsTsFile f (ff_jsSuffixes (suffixes_of E)) (ff_tsSuffixes (suffixes_of E))"

section \<open>One file\<close>

definition inferLanguageForProjectAnalysis :: "string \<Rightarrow> string \<Rightarrow> language" where
  "inferLanguageForProjectAnalysis filePath fileContent =
     (case inferLanguage None filePath fileContent DEFAULT_JS_EXTENSIONS DEFAULT_TS_EXTENSIONS of
        Inr l \<Rightarrow> l
      | Inl _ \<Rightarrow> LangJs)"

definition css_input_of :: "('p, 'o, 'ast, 'tree) analysis_env \<Rightarrow> analyzable_file \<Rightarrow> css_input" where
  "css_input_of E f =
     \<lparr>ci_filePath = af_filePath f, ci_fileContent = af_fileContent f, ci_fileType = af_fileType f,
      ci_ruleFileType = af_ruleFileType f, ci_sonarlint = jf_sonarlint (fields_of E)\<rparr>"

definition mergeAdditionalCssAnalysis ::
  "('p, 'o, 'ast, 'tree) analysis_env \<Rightarrow> analyzable_file \<Rightarrow> file_result \<Rightarrow> file_result" where
  "mergeAdditionalCssAnalysis E f result =
     (case result of
        FileError e \<Rightarrow> result
      | FileSuccess r \<Rightarrow>
          (case ae_css E (css_input_of E f) False of
             FileError e \<Rightarrow> result
           | FileSuccess c \<Rightarrow>
               (let r1 = r\<lparr>fr_issues := fr_issues r @ fr_issues c\<rparr>;
                    comments = nullish (fr_sonarResolveComments r1) [] @ nullish (fr_sonarResolveComments c) [];
                    r2 = (if nullish (fr_parsingErrors c) [] \<noteq> []
                          then r1\<lparr>fr_parsingErrors := Some (nullish (fr_parsingErrors r1) [] @ nullish (fr_parsingErrors c) [])\<rparr>
                          else r1)
                in FileSuccess (if comments \<noteq> [] then r2\<lparr>fr_sonarResolveComments := Some comments\<rparr> else r2))))"

text \<open>The result of a file; nothing else depends on how the file got its program.\<close>

definition file_analysis ::
  "('p, 'o, 'ast, 'tree) analysis_env \<Rightarrow> string \<Rightarrow> analyzable_file \<Rightarrow> 'p option \<Rightarrow> nat option \<Rightarrow> nat option
   \<Rightarrow> file_result" where
  "file_analysis E fileName f program detectedEsYear targetEsYear =
     (let sfx = suffixes_of E;
          lang = inferLanguageForProjectAnalysis (af_filePath f) (af_fileContent f);
          input = \<lparr>ji_fields = fields_of E, ji_filePath = af_filePath f, ji_fileContent = af_fileContent f,
                   ji_fileType = af_fileType f, ji_ruleFileType = af_ruleFileType f,
                   ji_fileStatus = af_fileStatus f, ji_language = lang, ji_program = program,
                   ji_detectedEsYear = detectedEsYear, ji_targetEsYear = targetEsYear\<rparr>;
          embedded = \<lparr>ei_filePath = af_filePath f, ei_fileContent = af_fileContent f,
                      ei_sonarlint = jf_sonarlint (fields_of E)\<rparr>;
          finalize = (\<lambda>r. finalizeFileResultForScanner (ae_serialize E) r (ae_units E (af_fileContent f)) (af_filePath f));
          result =
            (if isCssFile fileName (ff_cssSuffixes sfx) then ae_css E (css_input_of E f) True
             else if isHtmlFile fileName (ff_htmlSuffixes sfx) then finalize (ae_html E embedded lang)
             else if isYamlFile fileName (Some (af_fileContent f)) (ff_yamlSuffixes sfx)
             then finalize (ae_yaml E embedded lang)
             else if is_jsts E fileName then finalize (ae_jsts E input)
             else finalize (AnalyzerSuccess (empty_success [] None)))
      in if ae_cssActive E \<and> isAlsoCssFile fileName (ff_cssAdditionalSuffixes sfx)
         then mergeAdditionalCssAnalysis E f result else result)"

definition handleFileResult ::
  "('p, 'o, 'ast, 'tree) analysis_env \<Rightarrow> file_result \<Rightarrow> string \<Rightarrow> ('p, 'o, 'ast) run_state \<Rightarrow> ('p, 'o, 'ast) run_state" where
  "handleFileResult E result filename s =
     (if ae_channel E then s\<lparr>rs_events := rs_events s @ [FileResultEvent filename result]\<rparr>
      else s\<lparr>rs_files := js_set filename result (rs_files s)\<rparr>)"

definition analyzeFile ::
  "('p, 'o, 'ast, 'tree) analysis_env \<Rightarrow> 'p option \<Rightarrow> nat option \<Rightarrow> nat option \<Rightarrow> bool \<Rightarrow> string
   \<Rightarrow> ('p, 'o, 'ast) run_state \<Rightarrow> outcome \<times> ('p, 'o, 'ast) run_state" where
  "analyzeFile E program detectedEsYear targetEsYear hasPending fileName s =
     (let s1 = s\<lparr>rs_counter := rs_counter s + 1\<rparr> in
      case map_of (ae_files E) fileName of
        None \<Rightarrow> (Thrown ''TypeError'', s1)
      | Some f \<Rightarrow>
          (let result = file_analysis E fileName f program detectedEsYear targetEsYear;
               s2 = (if hasPending then s1\<lparr>rs_pending := removeAll fileName (rs_pending s1)\<rparr> else s1)
           in (Returned, handleFileResult E result fileName s2)))"

text \<open>The loop over the files of a program, or over those without.\<close>

fun analyze_files ::
  "('p, 'o, 'ast, 'tree) analysis_env \<Rightarrow> 'p option \<Rightarrow> nat option \<Rightarrow> nat option \<Rightarrow> bool \<Rightarrow> string list
   \<Rightarrow> ('p, 'o, 'ast) run_state \<Rightarrow> outcome \<times> ('p, 'o, 'ast) run_state" where
  "analyze_files E program detectedEsYear targetEsYear hasPending [] s = (Returned, s)"
| "analyze_files E program detectedEsYear targetEsYear hasPending (f # fs) s =
     (let (cancelled, s1) = isAnalysisCancelled E s in
      if cancelled then (Stopped, s1)
      else and_then (analyzeFile E program detectedEsYear targetEsYear hasPending f s1)
             (analyze_files E program detectedEsYear targetEsYear hasPending fs))"

definition analyzeWithoutProgram ::
  "('p, 'o, 'ast, 'tree) analysis_env \<Rightarrow> ('p, 'o, 'ast) run_state \<Rightarrow> outcome \<times> ('p, 'o, 'ast) run_state" where
  "analyzeWithoutProgram E s = function_end (analyze_files E None None None False (rs_pending s) s)"

section \<open>Programs of configuration files\<close>

definition sanitizeReferences :: "(string \<Rightarrow> bool option) \<Rightarrow> string list \<Rightarrow> string list" where
  "sanitizeReferences isDirectory references =
     concat (map (\<lambda>r. case isDirectory r of
         None \<Rightarrow> []
       | Some d \<Rightarrow> [if d then path_join [r, ''tsconfig.json''] else r]) references)"

definition parse_warning :: "('p, 'o, 'ast, 'tree) analysis_env \<Rightarrow> string \<Rightarrow> string" where
  "parse_warning E tsconfig =
     ''Failed to parse TSConfig file '' @ tsconfig @ ''. Highest TypeScript supported version is '' @ ae_tsVersion E"

text \<open>\<open>createProgramOptions\<close> on the caches in the state.\<close>

definition program_options_of ::
  "('p, 'o, 'ast, 'tree) analysis_env \<Rightarrow> string \<Rightarrow> ('p, 'o, 'ast) run_state
   \<Rightarrow> (string + 'o program_options) \<times> ('p, 'o, 'ast) run_state" where
  "program_options_of E tsconfig s =
     (let (r, c) = createProgramOptions (ae_configs E) (ae_manifests E) (ae_parseHost E) tsconfig None
            (jf_ecmaScriptVersion (fields_of E)) (Some (cfg_baseDir (ae_config E))) (ts_options (rs_store s))
      in (r, s\<lparr>rs_store := (rs_store s)\<lparr>ts_options := c\<rparr>\<rparr>))"

definition create_standard ::
  "('p, 'o, 'ast, 'tree) analysis_env \<Rightarrow> 'o program_options \<Rightarrow> ('p, 'o, 'ast) run_state
   \<Rightarrow> (string + 'p) \<times> ('p, 'o, 'ast) run_state" where
  "create_standard E options s =
     (let (r, sources) = ae_standard E options (rs_sources s) in (r, s\<lparr>rs_sources := sources\<rparr>))"

definition add_references ::
  "string list \<Rightarrow> ('p, 'o, 'ast) run_state \<Rightarrow> ('p, 'o, 'ast) run_state" where
  "add_references refs s = s\<lparr>rs_store := fold addDiscoveredTsConfig refs (rs_store s)\<rparr>"

definition analyzeFilesFromTsConfig ::
  "('p, 'o, 'ast, 'tree) analysis_env \<Rightarrow> string \<Rightarrow> ('p, 'o, 'ast) run_state \<Rightarrow> outcome \<times> ('p, 'o, 'ast) run_state" where
  "analyzeFilesFromTsConfig E tsconfig s =
     (let s1 = s\<lparr>rs_processed := List.insert tsconfig (rs_processed s)\<rparr>;
          (r, s2) = program_options_of E tsconfig s1
      in case r of
           Inl e \<Rightarrow> (Returned, s2\<lparr>rs_warnings := rs_warnings s2 @ [parse_warning E tsconfig]\<rparr>)
         | Inr options \<Rightarrow>
             (let s3 = s2\<lparr>rs_found := rs_found s2 @ [options]\<rparr>;
                  (p, s4) = create_standard E options s3
              in case p of
                   Inl e \<Rightarrow> (Thrown e, s4)
                 | Inr program \<Rightarrow>
                     (let filesToAnalyze = filter (\<lambda>f. map_of (ae_files E) f \<noteq> None \<and> f \<in> set (rs_pending s4))
                            (tb_sourceFiles (ae_typescript E) program);
                          refs = filter (\<lambda>r. r \<notin> set (rs_processed s4))
                            (sanitizeReferences (ae_isDirectory E) (ae_references E program))
                      in function_end (analyze_files E (Some program) (esLibToYear (co_lib (po_options options)))
                           (tsTargetToEsYear (tc_target_name (ae_configs E)) (co_target (po_options options)))
                           True filesToAnalyze (add_references refs s4)))))"

text \<open>
  The loop over the list of the store, which grows while it runs. Without pending files it ends
  and the function goes on; a cancellation ends the function.
\<close>

fun tsconfig_loop ::
  "('p, 'o, 'ast, 'tree) analysis_env \<Rightarrow> nat \<Rightarrow> nat \<Rightarrow> ('p, 'o, 'ast) run_state \<Rightarrow> outcome \<times> ('p, 'o, 'ast) run_state" where
  "tsconfig_loop E 0 i s = (OutOfFuel, s)"
| "tsconfig_loop E (Suc fuel) i s =
     (if i \<ge> length (getTsConfigs (rs_store s)) then (Returned, s)
      else
        (let tsConfig = getTsConfigs (rs_store s) ! i;
             (cancelled, s1) = isAnalysisCancelled E s
         in if cancelled then (Stopped, s1)
            else if rs_pending s1 = [] then (Returned, s1)
            else if tsConfig \<in> set (rs_processed s1) then tsconfig_loop E fuel (i + 1) s1
            else and_then (analyzeFilesFromTsConfig E tsConfig s1) (tsconfig_loop E fuel (i + 1))))"

definition withOverriddenLib ::
  "('p, 'o, 'ast, 'tree) analysis_env \<Rightarrow> 'o program_options \<Rightarrow> string list \<Rightarrow> 'o program_options" where
  "withOverriddenLib E baseline libs =
     baseline\<lparr>po_options := (po_options baseline)\<lparr>co_lib := tc_convert_lib (ae_configs E) libs (cfg_baseDir (ae_config E))\<rparr>,
              po_rootNames := []\<rparr>"

definition runProgram ::
  "('p, 'o, 'ast, 'tree) analysis_env \<Rightarrow> 'o program_options \<Rightarrow> string list \<Rightarrow> ('p, 'o, 'ast) run_state
   \<Rightarrow> outcome \<times> ('p, 'o, 'ast) run_state" where
  "runProgram E options groupRootNames s =
     (let (p, s1) = create_standard E (options\<lparr>po_rootNames := groupRootNames\<rparr>) s
      in case p of
           Inl e \<Rightarrow> (Thrown e, s1)
         | Inr program \<Rightarrow>
             function_end (analyze_files E (Some program) (esLibToYear (co_lib (po_options options)))
               (tsTargetToEsYear (tc_target_name (ae_configs E)) (co_target (po_options options))) True groupRootNames s1))"

fun group_loop ::
  "('p, 'o, 'ast, 'tree) analysis_env \<Rightarrow> 'o program_options option \<Rightarrow> lib_group list \<Rightarrow> ('p, 'o, 'ast) run_state
   \<Rightarrow> outcome \<times> ('p, 'o, 'ast) run_state" where
  "group_loop E mergedBaseline [] s = (Returned, s)"
| "group_loop E mergedBaseline (g # gs) s =
     (let (cancelled, s1) = isAnalysisCancelled E s in
      if cancelled then (Stopped, s1)
      else
        (let options = (case mergedBaseline of
               Some baseline \<Rightarrow> withOverriddenLib E baseline (lg_lib g)
             | None \<Rightarrow> createProgramOptionsFromJson (ae_configs E) (Some (lg_lib g)) (lg_files g) (cfg_baseDir (ae_config E)))
         in and_then (runProgram E options (lg_files g) s1) (group_loop E mergedBaseline gs)))"

definition groups_of :: "('p, 'o, 'ast, 'tree) analysis_env \<Rightarrow> string list \<Rightarrow> lib_group list" where
  "groups_of E files =
     groupFilesByResolvedLib (mf_closestDir (ae_manifests E)) (mf_nodeSignal (ae_manifests E)) files
       (cfg_baseDir (ae_config E)) (jf_ecmaScriptVersion (fields_of E))"

definition analyzeFilesFromEntryPoint ::
  "('p, 'o, 'ast, 'tree) analysis_env \<Rightarrow> ('p, 'o, 'ast) run_state \<Rightarrow> outcome \<times> ('p, 'o, 'ast) run_state" where
  "analyzeFilesFromEntryPoint E s =
     (let rootNames = filter (is_jsts E) (rs_pending s) in
      if rootNames = [] then (Returned, s)
      else function_end (group_loop E (if rs_found s \<noteq> [] then Some (ae_merge E (rs_found s)) else None)
             (groups_of E rootNames) s))"

definition MISSING_EXTENDED_TSCONFIG :: string where
  "MISSING_EXTENDED_TSCONFIG =
     ''At least one referenced/extended tsconfig.json was not found in the project. Please run 'npm install' for a more complete analysis. Check analysis logs for more details.''"

definition warn_missing :: "('p, 'o, 'ast) run_state \<Rightarrow> ('p, 'o, 'ast) run_state" where
  "warn_missing s =
     (if list_ex po_missingTsConfig (rs_found s)
      then s\<lparr>rs_warnings := rs_warnings s @ [MISSING_EXTENDED_TSCONFIG]\<rparr> else s)"

definition clear_caches :: "('p, 'o, 'ast) run_state \<Rightarrow> ('p, 'o, 'ast) run_state" where
  "clear_caches s =
     (if fst (getCacheStats (ts_programs (rs_store s))) > 0
      then s\<lparr>rs_store := (rs_store s)\<lparr>ts_programs := clear_programs (ts_programs (rs_store s))\<rparr>,
             rs_sources := clearSourceFileContentCache (rs_sources s)\<rparr>
      else s)"

definition analyzeWithProgram ::
  "('p, 'o, 'ast, 'tree) analysis_env \<Rightarrow> nat \<Rightarrow> ('p, 'o, 'ast) run_state \<Rightarrow> outcome \<times> ('p, 'o, 'ast) run_state" where
  "analyzeWithProgram E fuel s =
     function_end
       (and_then (tsconfig_loop E fuel 0 (s\<lparr>rs_found := [], rs_processed := []\<rparr>)) (\<lambda>s1.
        and_then (if jf_createTSProgramForOrphanFiles (fields_of E) then analyzeFilesFromEntryPoint E s1 else (Returned, s1))
          (\<lambda>s2. (Returned, clear_caches (warn_missing s2)))))"

section \<open>Programs that are kept\<close>

definition pickBestMatchTsConfig :: "string list \<Rightarrow> string \<Rightarrow> string option" where
  "pickBestMatchTsConfig tsconfigs f =
     (let best = foldl (\<lambda>best t.
            if starts_with f t \<and> (case best of None \<Rightarrow> True | Some b \<Rightarrow> length (dirnamePath b) < length (dirnamePath t))
            then Some t else best) None tsconfigs
      in case best of Some b \<Rightarrow> Some b | None \<Rightarrow> (case tsconfigs of [] \<Rightarrow> None | t # _ \<Rightarrow> Some t))"

definition orphan_options ::
  "('p, 'o, 'ast, 'tree) analysis_env \<Rightarrow> string \<Rightarrow> ('p, 'o, 'ast) run_state \<Rightarrow> 'o program_options option" where
  "orphan_options E f s =
     (if \<not> jf_createTSProgramForOrphanFiles (fields_of E) then None
      else
        (let coveredRootNames = concat (map po_rootNames (rs_found s));
             orphanCandidates = filter (\<lambda>p. is_jsts E p \<and> p \<notin> set coveredRootNames) (rs_pending s)
         in case List.find (\<lambda>g. f \<in> set (lg_files g)) (groups_of E orphanCandidates) of
              None \<Rightarrow> None
            | Some g \<Rightarrow> Some (createProgramOptionsFromJson (ae_configs E) (Some (lg_lib g)) (lg_files g)
                (cfg_baseDir (ae_config E)))))"

fun closest_loop ::
  "('p, 'o, 'ast, 'tree) analysis_env \<Rightarrow> nat \<Rightarrow> string \<Rightarrow> string list \<Rightarrow> ('p, 'o, 'ast) run_state
   \<Rightarrow> 'o program_options option \<times> outcome \<times> ('p, 'o, 'ast) run_state" where
  "closest_loop E 0 f processed s = (None, OutOfFuel, s)"
| "closest_loop E (Suc fuel) f processed s =
     (case pickBestMatchTsConfig (filter (\<lambda>t. t \<notin> set processed) (getTsConfigs (rs_store s))) f of
        None \<Rightarrow> (orphan_options E f s, Returned, s)
      | Some tsconfig \<Rightarrow>
          (let (r, s1) = program_options_of E tsconfig s
           in case r of
                Inl e \<Rightarrow> closest_loop E fuel f (tsconfig # processed)
                  (s1\<lparr>rs_warnings := rs_warnings s1 @ [parse_warning E tsconfig]\<rparr>)
              | Inr options \<Rightarrow>
                  (let s2 = add_references (sanitizeReferences (ae_isDirectory E) (nullish (po_projectReferences options) [])) s1;
                       s3 = s2\<lparr>rs_found := rs_found s2 @ [options]\<rparr>
                   in if f \<in> set (po_rootNames options) then (Some options, Returned, s3)
                      else closest_loop E fuel f (tsconfig # processed) s3)))"

definition programOptionsFromClosestTsconfig ::
  "('p, 'o, 'ast, 'tree) analysis_env \<Rightarrow> nat \<Rightarrow> string \<Rightarrow> outcome \<times> ('p, 'o, 'ast) run_state
   \<Rightarrow> 'o program_options option \<times> outcome \<times> ('p, 'o, 'ast) run_state" where
  "programOptionsFromClosestTsconfig E fuel f = (\<lambda>(_, s). closest_loop E fuel f [] s)"

text \<open>The program of a file, found or created; the options may change the rest of the state.\<close>

definition program_for_file ::
  "('p, 'o, 'ast, 'tree) analysis_env \<Rightarrow> nat \<Rightarrow> string \<Rightarrow> ('p, 'o, 'ast) run_state
   \<Rightarrow> 'p option \<times> outcome \<times> ('p, 'o, 'ast) run_state" where
  "program_for_file E fuel f s =
     (let (p, ps, outcome, s1) = createOrGetCachedProgramForFile (ae_typescript E) (cfg_baseDir (ae_config E)) f
            (programOptionsFromClosestTsconfig E fuel f) (jf_skipNodeModuleLookupOutsideBaseDir (fields_of E))
            \<lparr>ps_programs = ts_programs (rs_store s), ps_sources = rs_sources s\<rparr> (Returned, s)
      in (p, outcome, s1\<lparr>rs_store := (rs_store s1)\<lparr>ts_programs := ps_programs ps\<rparr>, rs_sources := ps_sources ps\<rparr>))"

fun incremental_loop ::
  "('p, 'o, 'ast, 'tree) analysis_env \<Rightarrow> nat \<Rightarrow> string list \<Rightarrow> ('p, 'o, 'ast) run_state
   \<Rightarrow> outcome \<times> ('p, 'o, 'ast) run_state" where
  "incremental_loop E fuel [] s = (Returned, s)"
| "incremental_loop E fuel (f # fs) s =
     (let (cancelled, s1) = isAnalysisCancelled E s in
      if cancelled then (Stopped, s1)
      else
        (let (program, outcome, s2) = program_for_file E fuel f s1;
             options = map_option (ae_compilerOptions E) program
         in and_then (outcome, s2) (\<lambda>s2.
            and_then (analyzeFile E program (Option.bind options (\<lambda>c. esLibToYear (co_lib c)))
                        (Option.bind options (\<lambda>c. tsTargetToEsYear (tc_target_name (ae_configs E)) (co_target c)))
                        True f s2)
              (\<lambda>s3. if rs_pending s3 = [] then (Returned, s3) else incremental_loop E fuel fs s3))))"

definition analyzeWithIncrementalProgram ::
  "('p, 'o, 'ast, 'tree) analysis_env \<Rightarrow> nat \<Rightarrow> ('p, 'o, 'ast) run_state \<Rightarrow> outcome \<times> ('p, 'o, 'ast) run_state" where
  "analyzeWithIncrementalProgram E fuel s =
     (let rootNames = filter (is_jsts E) (rs_pending s) in
      if rootNames = [] then (Returned, s)
      else function_end (and_then (incremental_loop E fuel rootNames (s\<lparr>rs_found := []\<rparr>))
             (\<lambda>s1. (Returned, warn_missing s1))))"

section \<open>The project\<close>

definition start_state ::
  "('p, 'o, 'ast, 'tree) analysis_env \<Rightarrow> ('p, 'o) tsconfig_store \<Rightarrow> 'ast source_caches \<Rightarrow> ('p, 'o, 'ast) run_state" where
  "start_state E store sources =
     \<lparr>rs_files = [], rs_warnings = [], rs_events = [], rs_pending = js_keys (object_entries (ae_files E)),
      rs_counter = 0, rs_checks = 0, rs_store = store,
      rs_sources = setSourceFilesContext (\<lambda>f. map_option (\<lambda>a. Some (af_fileContent a)) (map_of (ae_files E) f)) sources,
      rs_found = [], rs_processed = []\<rparr>"

definition analyze_with_types ::
  "('p, 'o, 'ast, 'tree) analysis_env \<Rightarrow> nat \<Rightarrow> ('p, 'o, 'ast) run_state \<Rightarrow> outcome \<times> ('p, 'o, 'ast) run_state" where
  "analyze_with_types E fuel s =
     (if jf_disableTypeChecking (fields_of E) then (Returned, s)
      else if cfg_sonarlint (ae_config E) \<and> ae_hasRules E then analyzeWithIncrementalProgram E fuel s
      else if ae_hasRules E then analyzeWithProgram E fuel s
      else (Returned, s))"

definition finish_analysis ::
  "('p, 'o, 'ast, 'tree) analysis_env \<Rightarrow> ('p, 'o, 'ast) run_state \<Rightarrow> analysis_output \<times> incremental_result list" where
  "finish_analysis E s =
     (let (cancelled, s1) = isAnalysisCancelled E s;
          meta = \<lparr>am_warnings = rs_warnings s1, am_telemetry = (if cancelled then None else Some (ae_telemetry E))\<rparr>
      in (\<lparr>ao_files = rs_files s1, ao_meta = meta\<rparr>,
          if ae_channel E then rs_events s1 @ [if cancelled then CancelledEvent else MetaEvent meta] else rs_events s1))"

definition analyze_pending ::
  "('p, 'o, 'ast, 'tree) analysis_env \<Rightarrow> nat \<Rightarrow> ('p, 'o, 'ast) run_state \<Rightarrow> outcome \<times> ('p, 'o, 'ast) run_state" where
  "analyze_pending E fuel s =
     (if rs_pending s = [] then (Returned, s)
      else and_then (analyze_with_types E fuel s)
             (\<lambda>s1. if rs_pending s1 = [] then (Returned, s1) else analyzeWithoutProgram E s1))"

text \<open>The output, if the call returns, and the events that were sent.\<close>

definition analyzeProjectWithCancellation ::
  "('p, 'o, 'ast, 'tree) analysis_env \<Rightarrow> nat \<Rightarrow> ('p, 'o) tsconfig_store \<Rightarrow> 'ast source_caches
   \<Rightarrow> (outcome + analysis_output) \<times> incremental_result list \<times> ('p, 'o, 'ast) run_state" where
  "analyzeProjectWithCancellation E fuel store sources =
     (let s = start_state E store sources in
      case ae_linterError E of
        Some e \<Rightarrow> (Inl (Thrown e), [], s)
      | None \<Rightarrow>
          (let (outcome, s1) = analyze_pending E fuel s
           in if outcome = Returned
              then (let (out, events) = finish_analysis E s1 in (Inr out, events, s1))
              else (Inl outcome, rs_events s1, s1)))"

end
