(* ===== verification/Project_Runs.thy ===== *)
theory Project_Runs
  imports Project_Analysis
begin

text \<open>
  What a run of \<open>analyzeProject.ts\<close> has sent when it ends: an invariant of all its loops, and the
  theorems that follow from it.
\<close>

section \<open>Each file once\<close>

text \<open>
  The invariant of a run with a channel: the results that were sent and the pending files are the
  files of the project, each once; every result is that of the analysis of its file; and for every
  result there was a check that found no cancellation (and \<open>k\<close> more).
\<close>

definition result_of :: "('p, 'o, 'ast, 'tree) analysis_env \<Rightarrow> string \<Rightarrow> file_result \<Rightarrow> bool" where
  "result_of E f r \<longleftrightarrow>
     (\<exists>a p y t. map_of (ae_files E) f = Some a \<and> r = file_analysis E f a p y t)"

definition file_events :: "(string \<times> file_result) list \<Rightarrow> incremental_result list" where
  "file_events rs = map (\<lambda>(f, r). FileResultEvent f r) rs"

definition free_checks :: "('p, 'o, 'ast, 'tree) analysis_env \<Rightarrow> nat \<Rightarrow> nat" where
  "free_checks E n = length (filter (\<lambda>i. \<not> ae_cancelled E i) [0..<n])"

definition run_inv :: "('p, 'o, 'ast, 'tree) analysis_env \<Rightarrow> nat \<Rightarrow> ('p, 'o, 'ast) run_state \<Rightarrow> bool" where
  "run_inv E k s \<longleftrightarrow>
     (\<exists>rs. rs_events s = file_events rs \<and> distinct (map fst rs @ rs_pending s)
        \<and> set (map fst rs) \<union> set (rs_pending s) = set (js_keys (ae_files E))
        \<and> (\<forall>(f, r)\<in>set rs. result_of E f r)
        \<and> length rs + k \<le> free_checks E (rs_checks s))"

definition same_run :: "('p, 'o, 'ast) run_state \<Rightarrow> ('p, 'o, 'ast) run_state \<Rightarrow> bool" where
  "same_run s s' \<longleftrightarrow> rs_events s' = rs_events s \<and> rs_pending s' = rs_pending s \<and> rs_checks s' = rs_checks s"

lemma run_inv_same: "same_run s s' \<Longrightarrow> run_inv E k s' = run_inv E k s"
  by (simp add: same_run_def run_inv_def)

lemma run_inv_less: "run_inv E k s \<Longrightarrow> j \<le> k \<Longrightarrow> run_inv E j s"
  unfolding run_inv_def by (meson add_left_mono le_trans)

lemma run_inv_pending: "run_inv E k s \<Longrightarrow> distinct (rs_pending s) \<and> set (rs_pending s) \<subseteq> set (js_keys (ae_files E))"
  unfolding run_inv_def by auto

lemma and_then_simps [simp]:
  "and_then (Returned, s) f = f s"
  "and_then (Stopped, s) f = (Stopped, s)"
  "and_then (Thrown e, s) f = (Thrown e, s)"
  "and_then (OutOfFuel, s) f = (OutOfFuel, s)"
  by (simp_all add: and_then_def)

lemma function_end_simps [simp]:
  "function_end (Returned, s) = (Returned, s)"
  "function_end (Stopped, s) = (Returned, s)"
  "function_end (Thrown e, s) = (Thrown e, s)"
  "function_end (OutOfFuel, s) = (OutOfFuel, s)"
  by (simp_all add: function_end_def)

lemma snd_function_end [simp]: "snd (function_end r) = snd r"
  by (cases r; cases "fst r") auto

lemma fst_function_end: "fst (function_end r) = (if fst r = Stopped then Returned else fst r)"
  by (cases r; cases "fst r") auto

lemma check_simps:
  assumes "isAnalysisCancelled E s = (c, s1)"
  shows "c = ae_cancelled E (rs_checks s)" "s1 = s\<lparr>rs_checks := rs_checks s + 1\<rparr>"
  using assms by (auto simp: isAnalysisCancelled_def)

lemma run_inv_check:
  assumes "run_inv E k s" "isAnalysisCancelled E s = (c, s1)"
  shows "run_inv E (if c then k else Suc k) s1"
  using assms(1) unfolding run_inv_def check_simps [OF assms(2)] by (auto simp: free_checks_def)

text \<open>A pending file is analyzed: it gets its result and is not pending any more.\<close>

lemma analyzeFile_inv:
  assumes "ae_channel E" "run_inv E (Suc k) s" "f \<in> set (rs_pending s)"
  shows "\<exists>s'. analyzeFile E p y t True f s = (Returned, s') \<and> run_inv E k s'
    \<and> rs_pending s' = removeAll f (rs_pending s) \<and> rs_store s' = rs_store s \<and> rs_processed s' = rs_processed s"
proof -
  obtain rs where rs: "rs_events s = file_events rs" "distinct (map fst rs @ rs_pending s)"
    "set (map fst rs) \<union> set (rs_pending s) = set (js_keys (ae_files E))"
    "\<forall>(f, r)\<in>set rs. result_of E f r" "length rs + Suc k \<le> free_checks E (rs_checks s)"
    using assms(2) unfolding run_inv_def by blast
  have "f \<in> set (js_keys (ae_files E))" using rs(3) assms(3) by blast
  then obtain a where a: "map_of (ae_files E) f = Some a"
    by (metis image_set map_of_eq_None_iff not_Some_eq)
  let ?r = "file_analysis E f a p y t"
  let ?s = "s\<lparr>rs_counter := rs_counter s + 1, rs_pending := removeAll f (rs_pending s),
    rs_events := rs_events s @ [FileResultEvent f ?r]\<rparr>"
  have "analyzeFile E p y t True f s = (Returned, ?s)"
    using a assms(1) by (simp add: analyzeFile_def handleFileResult_def Let_def)
  moreover have "run_inv E k ?s"
    unfolding run_inv_def
  proof (intro exI [of _ "rs @ [(f, ?r)]"] conjI)
    show "distinct (map fst (rs @ [(f, ?r)]) @ rs_pending ?s)"
      using rs(2) assms(3) by (auto simp: distinct_removeAll)
    show "set (map fst (rs @ [(f, ?r)])) \<union> set (rs_pending ?s) = set (js_keys (ae_files E))"
      using rs(3) assms(3) by auto
    show "\<forall>(f, r)\<in>set (rs @ [(f, ?r)]). result_of E f r"
      using rs(4) a by (auto simp: result_of_def)
  qed (use rs in \<open>simp_all add: file_events_def\<close>)
  ultimately show ?thesis by simp
qed

text \<open>The loop over pending files keeps the invariant and takes only these files.\<close>

definition keeps_others :: "string set \<Rightarrow> ('p, 'o, 'ast) run_state \<Rightarrow> ('p, 'o, 'ast) run_state \<Rightarrow> bool" where
  "keeps_others F s s' \<longleftrightarrow>
     set (rs_pending s) - F \<subseteq> set (rs_pending s') \<and> rs_store s' = rs_store s \<and> rs_processed s' = rs_processed s"

lemma analyze_files_inv:
  assumes "ae_channel E" "run_inv E k s" "distinct fs" "set fs \<subseteq> set (rs_pending s)"
  shows "case analyze_files E p y t True fs s of (oc, s') \<Rightarrow>
    (oc = Returned \<or> oc = Stopped) \<and> run_inv E k s' \<and> keeps_others (set fs) s s'"
  using assms(2-)
proof (induction fs arbitrary: s)
  case Nil
  then show ?case by (simp add: keeps_others_def)
next
  case (Cons f fs)
  obtain c s1 where c: "isAnalysisCancelled E s = (c, s1)" by (cases "isAnalysisCancelled E s")
  note s1 = check_simps [OF c]
  show ?case
  proof (cases c)
    case True
    then show ?thesis using run_inv_check [OF Cons.prems(1) c] c s1(2) by (simp add: keeps_others_def)
  next
    case False
    then have "run_inv E (Suc k) s1" using run_inv_check [OF Cons.prems(1) c] by simp
    moreover have "f \<in> set (rs_pending s1)" using Cons.prems(3) s1(2) by simp
    ultimately obtain s2 where s2: "analyzeFile E p y t True f s1 = (Returned, s2)" "run_inv E k s2"
      "rs_pending s2 = removeAll f (rs_pending s1)" "rs_store s2 = rs_store s1" "rs_processed s2 = rs_processed s1"
      using analyzeFile_inv [OF assms(1), of k s1 f p y t] by blast
    have "set fs \<subseteq> set (rs_pending s2)" using Cons.prems(2,3) s1(2) s2(3) by auto
    then have IH: "case analyze_files E p y t True fs s2 of (oc, s') \<Rightarrow>
        (oc = Returned \<or> oc = Stopped) \<and> run_inv E k s' \<and> keeps_others (set fs) s2 s'"
      using Cons.IH [OF s2(2)] Cons.prems(2) by simp
    have "analyze_files E p y t True (f # fs) s = analyze_files E p y t True fs s2"
      using c False s2(1) by simp
    then show ?thesis using IH s1(2) s2(3-5) by (auto simp: keeps_others_def split: prod.splits)
  qed
qed

lemma same_run_simps [simp]:
  "same_run s s" "same_run s (s\<lparr>rs_processed := v1\<rparr>)" "same_run s (s\<lparr>rs_found := v2\<rparr>)"
  "same_run s (s\<lparr>rs_warnings := v3\<rparr>)" "same_run s (s\<lparr>rs_store := v4\<rparr>)" "same_run s (s\<lparr>rs_sources := v5\<rparr>)"
  by (simp_all add: same_run_def)

lemma same_run_trans: "same_run s s' \<Longrightarrow> same_run s' s'' \<Longrightarrow> same_run s s''"
  by (simp add: same_run_def)

lemma program_options_same:
  assumes "program_options_of E t s = (r, s')"
  shows "same_run s s'" "getTsConfigs (rs_store s') = getTsConfigs (rs_store s)" "rs_processed s' = rs_processed s"
  using assms by (auto simp: program_options_of_def same_run_def getTsConfigs_def split: prod.splits)

lemma create_standard_same:
  assumes "create_standard E opts s = (r, s')"
  shows "same_run s s'" "rs_store s' = rs_store s" "rs_processed s' = rs_processed s"
  using assms by (auto simp: create_standard_def same_run_def split: prod.splits)

lemma add_references_same [simp]:
  "same_run s (add_references refs s)" "rs_pending (add_references refs s) = rs_pending s"
  "rs_processed (add_references refs s) = rs_processed s"
  by (simp_all add: add_references_def same_run_def)

text \<open>The programs that TypeScript makes list each source file once.\<close>

definition distinct_sources :: "('p, 'o, 'ast, 'tree) analysis_env \<Rightarrow> bool" where
  "distinct_sources E \<longleftrightarrow> (\<forall>p. distinct (tb_sourceFiles (ae_typescript E) p))"

text \<open>
  What happens to one configuration file: its options fail, its program fails, or its files are
  analyzed in a state that differs from the first in nothing the invariant speaks about.
\<close>

lemma analyzeFilesFromTsConfig_cases:
  assumes "analyzeFilesFromTsConfig E t s = (oc, s')"
  obtains (options) s2 where "same_run s s2" "getTsConfigs (rs_store s2) = getTsConfigs (rs_store s)"
      "oc = Returned" "s' = s2"
  | (program) e s2 where "same_run s s2" "getTsConfigs (rs_store s2) = getTsConfigs (rs_store s)"
      "oc = Thrown e" "s' = s2" "\<exists>options sources sources'. ae_standard E options sources = (Inl e, sources')"
  | (files) p y ty s2 refs st where "same_run s s2"
      "rs_store s2 = fold addDiscoveredTsConfig refs st" "getTsConfigs st = getTsConfigs (rs_store s)"
      "set refs \<subseteq> set (sanitizeReferences (ae_isDirectory E) (ae_references E p))"
      "(oc, s') = function_end (analyze_files E (Some p) y ty True
         (filter (\<lambda>f. map_of (ae_files E) f \<noteq> None \<and> f \<in> set (rs_pending s2))
            (tb_sourceFiles (ae_typescript E) p)) s2)"
proof -
  let ?s1 = "s\<lparr>rs_processed := List.insert t (rs_processed s)\<rparr>"
  obtain r s2 where o: "program_options_of E t ?s1 = (r, s2)" by (cases "program_options_of E t ?s1")
  note o_same = program_options_same [OF o]
  have s2: "same_run s s2" by (rule same_run_trans [OF _ o_same(1)]) simp
  show thesis
  proof (cases r)
    case (Inl e)
    then have "oc = Returned" "s' = s2\<lparr>rs_warnings := rs_warnings s2 @ [parse_warning E t]\<rparr>"
      using assms o by (simp_all add: analyzeFilesFromTsConfig_def)
    then show thesis using s2 o_same(2) by (intro options [of s']) (auto intro: same_run_trans)
  next
    case (Inr opts)
    let ?s3 = "s2\<lparr>rs_found := rs_found s2 @ [opts]\<rparr>"
    obtain q s4 where c: "create_standard E opts ?s3 = (q, s4)" by (cases "create_standard E opts ?s3")
    note c_same = create_standard_same [OF c]
    have s4: "same_run s s4" by (rule same_run_trans [OF s2 same_run_trans [OF _ c_same(1)]]) simp
    have store: "getTsConfigs (rs_store s4) = getTsConfigs (rs_store s)" using c_same(2) o_same(2) by simp
    show thesis
    proof (cases q)
      case (Inl e)
      then have "oc = Thrown e" "s' = s4"
        using assms o Inr c by (simp_all add: analyzeFilesFromTsConfig_def)
      moreover have "\<exists>options sources sources'. ae_standard E options sources = (Inl e, sources')"
        using c Inl by (auto simp: create_standard_def split: prod.splits)
      ultimately show thesis using s4 store by (intro program [of s4]) simp_all
    next
      case q: (Inr p)
      let ?refs = "filter (\<lambda>r. r \<notin> set (rs_processed s4)) (sanitizeReferences (ae_isDirectory E) (ae_references E p))"
      have run: "(oc, s') = function_end (analyze_files E (Some p) (esLibToYear (co_lib (po_options opts)))
          (tsTargetToEsYear (tc_target_name (ae_configs E)) (co_target (po_options opts))) True
          (filter (\<lambda>f. map_of (ae_files E) f \<noteq> None \<and> f \<in> set (rs_pending (add_references ?refs s4)))
            (tb_sourceFiles (ae_typescript E) p)) (add_references ?refs s4))"
        using assms o Inr c q by (simp add: analyzeFilesFromTsConfig_def)
      have "same_run s (add_references ?refs s4)" by (rule same_run_trans [OF s4]) simp
      moreover have "rs_store (add_references ?refs s4) = fold addDiscoveredTsConfig ?refs (rs_store s4)"
        by (simp add: add_references_def)
      moreover have "set ?refs \<subseteq> set (sanitizeReferences (ae_isDirectory E) (ae_references E p))" by auto
      ultimately show thesis using files [OF _ _ store _ run] by blast
    qed
  qed
qed

lemma analyzeFilesFromTsConfig_inv:
  assumes "ae_channel E" "distinct_sources E" "run_inv E 0 s" "analyzeFilesFromTsConfig E t s = (oc, s')"
  shows "run_inv E 0 s' \<and> (oc = Returned \<or> (\<exists>e. oc = Thrown e))"
  using assms(4)
proof (cases rule: analyzeFilesFromTsConfig_cases)
  case (options s2)
  then show ?thesis using assms(3) by (simp add: run_inv_same)
next
  case (program e s2)
  then show ?thesis using assms(3) by (simp add: run_inv_same)
next
  case (files p y ty s2 refs st)
  let ?fs = "filter (\<lambda>f. map_of (ae_files E) f \<noteq> None \<and> f \<in> set (rs_pending s2)) (tb_sourceFiles (ae_typescript E) p)"
  have fs: "distinct ?fs" "set ?fs \<subseteq> set (rs_pending s2)" using assms(2) by (auto simp: distinct_sources_def)
  have "run_inv E 0 s2" using files(1) assms(3) by (simp add: run_inv_same)
  then have "case analyze_files E (Some p) y ty True ?fs s2 of (oc, s') \<Rightarrow>
      (oc = Returned \<or> oc = Stopped) \<and> run_inv E 0 s' \<and> keeps_others (set ?fs) s2 s'"
    by (rule analyze_files_inv [OF assms(1) _ fs])
  then show ?thesis using files(5) by (auto split: prod.splits)
qed

lemma tsconfig_loop_inv:
  assumes "ae_channel E" "distinct_sources E"
  shows "run_inv E 0 s \<Longrightarrow> run_inv E 0 (snd (tsconfig_loop E fuel i s))"
proof (induction fuel arbitrary: i s)
  case (Suc fuel)
  obtain c s1 where c: "isAnalysisCancelled E s = (c, s1)" by (cases "isAnalysisCancelled E s")
  have s1: "run_inv E 0 s1" using run_inv_check [OF Suc.prems c] run_inv_less by (cases c) auto
  let ?t = "getTsConfigs (rs_store s) ! i"
  obtain oc s2 where t: "analyzeFilesFromTsConfig E ?t s1 = (oc, s2)" by (cases "analyzeFilesFromTsConfig E ?t s1")
  note t_inv = analyzeFilesFromTsConfig_inv [OF assms s1 t]
  show ?case using Suc.prems s1 Suc.IH t_inv by (auto simp: c t Let_def)
qed simp

lemma group_loop_inv:
  assumes "ae_channel E" "run_inv E 0 s" "distinct (concat (map lg_files gs))"
    "set (concat (map lg_files gs)) \<subseteq> set (rs_pending s)"
  shows "run_inv E 0 (snd (group_loop E m gs s))"
  using assms(2-)
proof (induction gs arbitrary: s)
  case (Cons g gs)
  obtain c s1 where c: "isAnalysisCancelled E s = (c, s1)" by (cases "isAnalysisCancelled E s")
  have s1: "run_inv E 0 s1" "rs_pending s1 = rs_pending s"
    using run_inv_check [OF Cons.prems(1) c] run_inv_less check_simps(2) [OF c] by (cases c; auto)+
  define opts where "opts = (case m of Some baseline \<Rightarrow> withOverriddenLib E baseline (lg_lib g)
    | None \<Rightarrow> createProgramOptionsFromJson (ae_configs E) (Some (lg_lib g)) (lg_files g) (cfg_baseDir (ae_config E)))"
  obtain q s2 where q: "create_standard E (opts\<lparr>po_rootNames := lg_files g\<rparr>) s1 = (q, s2)"
    by (cases "create_standard E (opts\<lparr>po_rootNames := lg_files g\<rparr>) s1")
  note same = create_standard_same [OF q]
  have s2: "run_inv E 0 s2" "rs_pending s2 = rs_pending s"
    using same(1) s1 by (simp_all add: run_inv_same) (simp add: same_run_def)
  show ?case
  proof (cases "c \<or> (\<exists>e. q = Inl e)")
    case True
    then show ?thesis using s1(1) s2(1) c q by (auto simp: runProgram_def Let_def opts_def)
  next
    case False
    then obtain p where p: "q = Inr p" "\<not> c" by (cases q) auto
    obtain oc s3 where run: "analyze_files E (Some p) (esLibToYear (co_lib (po_options opts)))
        (tsTargetToEsYear (tc_target_name (ae_configs E)) (co_target (po_options opts))) True (lg_files g) s2 = (oc, s3)"
      by (metis prod.exhaust)
    have g: "distinct (lg_files g)" "set (lg_files g) \<subseteq> set (rs_pending s2)" using Cons.prems(2,3) s2(2) by auto
    have s3: "run_inv E 0 s3" "keeps_others (set (lg_files g)) s2 s3" "oc = Returned \<or> oc = Stopped"
      using analyze_files_inv [OF assms(1) s2(1) g, of "Some p" "esLibToYear (co_lib (po_options opts))"
          "tsTargetToEsYear (tc_target_name (ae_configs E)) (co_target (po_options opts))"] unfolding run by simp_all
    have "set (concat (map lg_files gs)) \<inter> set (lg_files g) = {}" "set (concat (map lg_files gs)) \<subseteq> set (rs_pending s2)"
      using Cons.prems(2,3) s2(2) by auto
    then have "set (concat (map lg_files gs)) \<subseteq> set (rs_pending s3)"
      using s3(2) unfolding keeps_others_def by blast
    then have "run_inv E 0 (snd (group_loop E m gs s3))" using Cons.IH [OF s3(1)] Cons.prems(2) by simp
    moreover have "group_loop E m (g # gs) s = group_loop E m gs s3"
      using c p q run s3(3) by (auto simp: runProgram_def Let_def opts_def)
    ultimately show ?thesis by simp
  qed
qed simp

lemma groups_of_files:
  "distinct (concat (map lg_files (groups_of E fs))) = distinct fs"
  "set (concat (map lg_files (groups_of E fs))) = set fs"
proof -
  have m: "mset (concat (map lg_files (groups_of E fs))) = mset fs"
    unfolding groups_of_def using groups_by_library by blast
  show "distinct (concat (map lg_files (groups_of E fs))) = distinct fs" using m by (rule mset_eq_imp_distinct_iff)
  show "set (concat (map lg_files (groups_of E fs))) = set fs" using m by (rule mset_eq_setD)
qed

lemma warn_and_clear_same: "same_run s (clear_caches s)" "same_run s (warn_missing s)"
  by (auto simp: clear_caches_def warn_missing_def same_run_def)

lemma analyzeWithProgram_inv:
  assumes "ae_channel E" "distinct_sources E" "run_inv E 0 s"
  shows "run_inv E 0 (snd (analyzeWithProgram E fuel s))"
proof -
  obtain oc s1 where l: "tsconfig_loop E fuel 0 (s\<lparr>rs_found := [], rs_processed := []\<rparr>) = (oc, s1)"
    by (cases "tsconfig_loop E fuel 0 (s\<lparr>rs_found := [], rs_processed := []\<rparr>)")
  have "run_inv E 0 (s\<lparr>rs_found := [], rs_processed := []\<rparr>)" using assms(3) by (simp add: run_inv_def)
  then have s1: "run_inv E 0 s1" using tsconfig_loop_inv [OF assms(1,2), of _ fuel 0] l by (metis snd_conv)
  obtain oc' s2 where e: "(if jf_createTSProgramForOrphanFiles (fields_of E) then analyzeFilesFromEntryPoint E s1
      else (Returned, s1)) = (oc', s2)" by (metis prod.exhaust)
  have "run_inv E 0 (snd (analyzeFilesFromEntryPoint E s1))"
  proof (cases "filter (is_jsts E) (rs_pending s1) = []")
    case False
    have "run_inv E 0 (snd (group_loop E m (groups_of E (filter (is_jsts E) (rs_pending s1))) s1))" for m
      using run_inv_pending [OF s1] by (intro group_loop_inv [OF assms(1) s1]) (auto simp only: groups_of_files distinct_filter set_filter)
    then show ?thesis using False by (simp add: analyzeFilesFromEntryPoint_def Let_def)
  qed (simp add: analyzeFilesFromEntryPoint_def s1)
  then have s2: "run_inv E 0 s2" using e s1 by (metis snd_conv)
  then have "run_inv E 0 (clear_caches (warn_missing s2))"
    using run_inv_same [OF same_run_trans [OF warn_and_clear_same(2,1)]] by blast
  then show ?thesis using l s1 s2 e by (cases oc; cases oc') (simp_all add: analyzeWithProgram_def)
qed

lemma closest_loop_same: "same_run s (snd (snd (closest_loop E fuel f processed s)))"
proof (induction fuel arbitrary: processed s)
  case (Suc fuel)
  let ?pick = "pickBestMatchTsConfig (filter (\<lambda>t. t \<notin> set processed) (getTsConfigs (rs_store s))) f"
  show ?case
  proof (cases ?pick)
    case (Some t)
    obtain r s1 where o: "program_options_of E t s = (r, s1)" by (cases "program_options_of E t s")
    note s1 = program_options_same(1) [OF o]
    show ?thesis
    proof (cases r)
      case (Inl e)
      let ?s2 = "s1\<lparr>rs_warnings := rs_warnings s1 @ [parse_warning E t]\<rparr>"
      have "same_run s ?s2" by (rule same_run_trans [OF s1]) simp
      then show ?thesis using Some o Inl same_run_trans [OF _ Suc.IH [of ?s2 "t # processed"]] by simp
    next
      case (Inr opts)
      let ?s2 = "add_references (sanitizeReferences (ae_isDirectory E) (nullish (po_projectReferences opts) [])) s1"
      let ?s3 = "?s2\<lparr>rs_found := rs_found ?s2 @ [opts]\<rparr>"
      have "same_run s ?s3" by (rule same_run_trans [OF s1]) (simp add: same_run_def add_references_def)
      then show ?thesis
        using Some o Inr same_run_trans [OF _ Suc.IH [of ?s3 "t # processed"]] by (simp add: Let_def)
    qed
  qed simp
qed simp

lemma createOrGet_caller:
  assumes "createOrGetCachedProgramForFile T b f g skip ps x = (p, ps', x')"
  shows "x' = x \<or> x' = snd (g x)"
  using assms by (auto simp: createOrGetCachedProgramForFile_def Let_def split: prod.splits option.splits if_splits)

lemma program_for_file_same:
  assumes "program_for_file E fuel f s = (p, oc, s')"
  shows "same_run s s'" "oc = Returned \<or> oc = fst (snd (closest_loop E fuel f [] s))"
proof -
  obtain p' ps oc' s1 where c: "createOrGetCachedProgramForFile (ae_typescript E) (cfg_baseDir (ae_config E)) f
      (programOptionsFromClosestTsconfig E fuel f) (jf_skipNodeModuleLookupOutsideBaseDir (fields_of E))
      \<lparr>ps_programs = ts_programs (rs_store s), ps_sources = rs_sources s\<rparr> (Returned, s) = (p', ps, oc', s1)"
    by (metis prod_cases4)
  have "(oc', s1) = (Returned, s) \<or> (oc', s1) = snd (closest_loop E fuel f [] s)"
    using createOrGet_caller [OF c] by (simp add: programOptionsFromClosestTsconfig_def)
  then have "same_run s s1" "oc' = Returned \<or> oc' = fst (snd (closest_loop E fuel f [] s))"
    using closest_loop_same [of s E fuel f "[]"] by (cases "closest_loop E fuel f [] s"; auto)+
  moreover have "s' = s1\<lparr>rs_store := (rs_store s1)\<lparr>ts_programs := ps_programs ps\<rparr>, rs_sources := ps_sources ps\<rparr>" "oc = oc'"
    using assms c by (simp_all add: program_for_file_def)
  ultimately show "same_run s s'" "oc = Returned \<or> oc = fst (snd (closest_loop E fuel f [] s))"
    by (simp_all add: same_run_def)
qed

lemma closest_loop_outcome: "fst (snd (closest_loop E fuel f processed s)) \<in> {Returned, OutOfFuel}"
  by (induction fuel arbitrary: processed s) (auto split: option.split sum.split prod.split simp: Let_def)

lemma incremental_loop_inv:
  assumes "ae_channel E"
  shows "run_inv E 0 s \<Longrightarrow> distinct fs \<Longrightarrow> set fs \<subseteq> set (rs_pending s) \<Longrightarrow>
    run_inv E 0 (snd (incremental_loop E fuel fs s))"
proof (induction fs arbitrary: s)
  case (Cons f fs)
  obtain c s1 where c: "isAnalysisCancelled E s = (c, s1)" by (cases "isAnalysisCancelled E s")
  obtain p oc s2 where p: "program_for_file E fuel f s1 = (p, oc, s2)" by (metis prod_cases3)
  note same = program_for_file_same [OF p]
  show ?case
  proof (cases "c \<or> oc \<noteq> Returned")
    case True
    have "run_inv E 0 s1" using run_inv_check [OF Cons.prems(1) c] run_inv_less by (cases c) auto
    moreover from this have "run_inv E 0 s2" using same(1) by (simp add: run_inv_same)
    ultimately show ?thesis using True c p by (cases oc) auto
  next
    case False
    then have "run_inv E (Suc 0) s1" using run_inv_check [OF Cons.prems(1) c] by simp
    then have s2: "run_inv E (Suc 0) s2" "rs_pending s2 = rs_pending s"
      using same(1) check_simps(2) [OF c] by (simp_all add: run_inv_same) (simp add: same_run_def)
    let ?y = "Option.bind (map_option (ae_compilerOptions E) p) (\<lambda>c. esLibToYear (co_lib c))"
    let ?t = "Option.bind (map_option (ae_compilerOptions E) p) (\<lambda>c. tsTargetToEsYear (tc_target_name (ae_configs E)) (co_target c))"
    have "f \<in> set (rs_pending s2)" using Cons.prems(3) s2(2) by simp
    then obtain s3 where s3: "analyzeFile E p ?y ?t True f s2 = (Returned, s3)" "run_inv E 0 s3"
      "rs_pending s3 = removeAll f (rs_pending s2)"
      using analyzeFile_inv [OF assms s2(1), of f p ?y ?t] by blast
    have "set fs \<subseteq> set (rs_pending s3)" using Cons.prems(2,3) s3(3) s2(2) by auto
    then have "run_inv E 0 (snd (incremental_loop E fuel fs s3))" using Cons.IH [OF s3(2)] Cons.prems(2) by simp
    then show ?thesis using False c p s3(1,2) by simp
  qed
qed simp

lemma analyze_with_types_inv:
  assumes "ae_channel E" "distinct_sources E" "run_inv E 0 s"
  shows "run_inv E 0 (snd (analyze_with_types E fuel s))"
proof -
  have "run_inv E 0 (snd (analyzeWithIncrementalProgram E fuel s))"
  proof (cases "filter (is_jsts E) (rs_pending s) = []")
    case False
    obtain oc s1 where l: "incremental_loop E fuel (filter (is_jsts E) (rs_pending s)) (s\<lparr>rs_found := []\<rparr>) = (oc, s1)"
      by (metis prod.exhaust)
    have "run_inv E 0 (s\<lparr>rs_found := []\<rparr>)" using assms(3) by (simp add: run_inv_def)
    then have s1: "run_inv E 0 s1"
      using incremental_loop_inv [OF assms(1), of "s\<lparr>rs_found := []\<rparr>" "filter (is_jsts E) (rs_pending s)" fuel] l
        run_inv_pending [OF assms(3)] by auto
    then have "run_inv E 0 (warn_missing s1)" using run_inv_same [OF warn_and_clear_same(2)] by blast
    then show ?thesis using False l s1 by (cases oc) (simp_all add: analyzeWithIncrementalProgram_def)
  qed (simp add: analyzeWithIncrementalProgram_def assms(3))
  then show ?thesis
    using assms analyzeWithProgram_inv [OF assms] by (simp add: analyze_with_types_def)
qed

text \<open>The files that are left, without a program: they stay in the list of pending files.\<close>

lemma analyze_rest:
  assumes "ae_channel E"
  shows "set fs \<subseteq> set (js_keys (ae_files E)) \<Longrightarrow> analyze_files E None None None False fs s = (oc, s') \<Longrightarrow>
    \<exists>rs. rs_events s' = rs_events s @ file_events rs \<and> (\<forall>(f, r)\<in>set rs. result_of E f r)
      \<and> map fst rs = take (length rs) fs
      \<and> length rs + free_checks E (rs_checks s) \<le> free_checks E (rs_checks s')
      \<and> (oc = Returned \<and> length rs = length fs \<or> oc = Stopped \<and> (\<exists>i < rs_checks s'. ae_cancelled E i))"
proof (induction fs arbitrary: s)
  case (Cons f fs)
  obtain c s1 where c: "isAnalysisCancelled E s = (c, s1)" by (cases "isAnalysisCancelled E s")
  note s1 = check_simps [OF c]
  show ?case
  proof (cases c)
    case True
    then have "oc = Stopped" "s' = s1" using Cons.prems(2) c by simp_all
    then show ?thesis using True s1 by (intro exI [of _ "[]"]) (auto simp: file_events_def free_checks_def)
  next
    case False
    have "f \<in> set (js_keys (ae_files E))" using Cons.prems(1) by simp
    then obtain a where a: "map_of (ae_files E) f = Some a" by (metis image_set map_of_eq_None_iff not_Some_eq)
    let ?r = "file_analysis E f a None None None"
    let ?s2 = "s1\<lparr>rs_counter := rs_counter s1 + 1, rs_events := rs_events s1 @ [FileResultEvent f ?r]\<rparr>"
    have "analyzeFile E None None None False f s1 = (Returned, ?s2)"
      using a assms by (simp add: analyzeFile_def handleFileResult_def Let_def)
    then have run: "analyze_files E None None None False fs ?s2 = (oc, s')" using Cons.prems(2) c False by simp
    have fs: "set fs \<subseteq> set (js_keys (ae_files E))" using Cons.prems(1) by simp
    obtain rs where rs: "rs_events s' = rs_events ?s2 @ file_events rs" "\<forall>(f, r)\<in>set rs. result_of E f r"
      "map fst rs = take (length rs) fs" "length rs + free_checks E (rs_checks ?s2) \<le> free_checks E (rs_checks s')"
      "oc = Returned \<and> length rs = length fs \<or> oc = Stopped \<and> (\<exists>i < rs_checks s'. ae_cancelled E i)"
      using Cons.IH [OF fs run] by blast
    have "free_checks E (rs_checks ?s2) = Suc (free_checks E (rs_checks s))"
      using False s1 by (simp add: free_checks_def)
    then have "length ((f, ?r) # rs) + free_checks E (rs_checks s) \<le> free_checks E (rs_checks s')"
      using rs(4) by simp
    moreover have "rs_events s' = rs_events s @ file_events ((f, ?r) # rs)"
      using rs(1) s1(2) by (simp add: file_events_def)
    moreover have "result_of E f ?r" using a unfolding result_of_def by blast
    then have "\<forall>(f, r)\<in>set ((f, ?r) # rs). result_of E f r" using rs(2) by simp
    moreover have "map fst ((f, ?r) # rs) = take (length ((f, ?r) # rs)) (f # fs)" using rs(3) by simp
    moreover have "oc = Returned \<and> length ((f, ?r) # rs) = length (f # fs)
        \<or> oc = Stopped \<and> (\<exists>i < rs_checks s'. ae_cancelled E i)" using rs(5) by simp
    ultimately show ?thesis by (intro exI [of _ "(f, ?r) # rs"] conjI)
  qed
qed (simp add: file_events_def)

lemma start_state_inv:
  assumes "distinct (js_keys (ae_files E))"
  shows "run_inv E 0 (start_state E store sources)"
  unfolding run_inv_def
proof (intro exI [of _ "[]"] conjI)
  show "distinct (map fst [] @ rs_pending (start_state E store sources))"
    using distinct_object_entries [OF assms] by (simp add: start_state_def)
qed (simp_all add: start_state_def file_events_def)

lemma run_inv_results:
  assumes "run_inv E 0 s"
  obtains rs where "rs_events s = file_events rs" "distinct (map fst rs @ rs_pending s)"
    "set (map fst rs) \<union> set (rs_pending s) = set (js_keys (ae_files E))"
    "\<forall>(f, r)\<in>set rs. result_of E f r" "length rs \<le> free_checks E (rs_checks s)"
  using assms unfolding run_inv_def add_0_right by blast

definition sent_results ::
  "('p, 'o, 'ast, 'tree) analysis_env \<Rightarrow> bool \<Rightarrow> ('p, 'o, 'ast) run_state \<Rightarrow> (string \<times> file_result) list \<Rightarrow> bool" where
  "sent_results E all_sent s rs \<longleftrightarrow>
     rs_events s = file_events rs \<and> distinct (map fst rs) \<and> set (map fst rs) \<subseteq> set (js_keys (ae_files E))
     \<and> (\<forall>(f, r)\<in>set rs. result_of E f r) \<and> length rs \<le> free_checks E (rs_checks s)
     \<and> (all_sent \<longrightarrow> set (map fst rs) = set (js_keys (ae_files E)) \<or> (\<exists>i < rs_checks s. ae_cancelled E i))"

lemma sent_results_inv:
  assumes "run_inv E 0 s" "all_sent \<Longrightarrow> rs_pending s = []"
  shows "\<exists>rs. sent_results E all_sent s rs"
proof -
  obtain rs where rs: "rs_events s = file_events rs" "distinct (map fst rs @ rs_pending s)"
    "set (map fst rs) \<union> set (rs_pending s) = set (js_keys (ae_files E))"
    "\<forall>(f, r)\<in>set rs. result_of E f r" "length rs \<le> free_checks E (rs_checks s)"
    using run_inv_results [OF assms(1)] by blast
  moreover have "distinct (map fst rs)" "set (map fst rs) \<subseteq> set (js_keys (ae_files E))" using rs(2,3) by auto
  moreover have "all_sent \<Longrightarrow> set (map fst rs) = set (js_keys (ae_files E))" using rs(3) assms(2) by simp
  ultimately show ?thesis unfolding sent_results_def by blast
qed

text \<open>What a run has sent when it ends, in whatever way.\<close>

lemma run_of_project:
  assumes "ae_channel E" "distinct_sources E" "distinct (js_keys (ae_files E))"
    "s = start_state E store sources" "analyze_pending E fuel s = (oc, s')"
  shows "\<exists>rs. sent_results E (oc = Returned) s' rs"
proof -
  have s: "run_inv E 0 s" unfolding assms(4) by (rule start_state_inv [OF assms(3)])
  obtain oc1 s1 where types: "analyze_with_types E fuel s = (oc1, s1)" by (cases "analyze_with_types E fuel s")
  have s1: "run_inv E 0 s1" using analyze_with_types_inv [OF assms(1,2) s, of fuel] types by simp
  consider (empty) "rs_pending s = []" "oc = Returned" "s' = s" | (early) "oc1 \<noteq> Returned" "oc = oc1" "s' = s1"
    | (all) "rs_pending s1 = []" "oc = Returned" "s' = s1"
    | (rest) "rs_pending s1 \<noteq> []" "(oc, s') = analyzeWithoutProgram E s1"
  proof (cases "rs_pending s = []")
    case True
    have "oc = Returned" "s' = s" using assms(5) [unfolded analyze_pending_def if_P [OF True]] by simp_all
    then show thesis by (rule empty [OF True])
  next
    case False
    note r = assms(5) [unfolded analyze_pending_def if_not_P [OF False] types]
    show thesis
    proof (cases "oc1 = Returned")
      case True
      note r1 = r [unfolded True and_then_simps]
      show thesis
      proof (cases "rs_pending s1 = []")
        case no_rest: True
        have "oc = Returned" "s' = s1" using r1 [unfolded if_P [OF no_rest]] by simp_all
        then show thesis by (rule all [OF no_rest])
      next
        case left: False
        show thesis by (rule rest [OF left]) (rule r1 [unfolded if_not_P [OF left], symmetric])
      qed
    next
      case other: False
      then have "(oc1, s1) = (oc, s')" using r by (cases oc1) simp_all
      then show thesis using early [OF other] by simp
    qed
  qed
  then show ?thesis
  proof cases
    case empty
    then show ?thesis using sent_results_inv [OF s] by simp
  next
    case early
    then show ?thesis using sent_results_inv [OF s1, of "oc = Returned"] by simp
  next
    case all
    then show ?thesis using sent_results_inv [OF s1] by simp
  next
    case rest
    obtain rs where rs: "rs_events s1 = file_events rs" "distinct (map fst rs @ rs_pending s1)"
      "set (map fst rs) \<union> set (rs_pending s1) = set (js_keys (ae_files E))"
      "\<forall>(f, r)\<in>set rs. result_of E f r" "length rs \<le> free_checks E (rs_checks s1)"
      using run_inv_results [OF s1] by blast
    obtain oc2 s2 where run: "analyze_files E None None None False (rs_pending s1) s1 = (oc2, s2)"
      by (cases "analyze_files E None None None False (rs_pending s1) s1")
    have s2: "s2 = s'" using rest(2) run by (cases oc2) (simp_all add: analyzeWithoutProgram_def)
    have "set (rs_pending s1) \<subseteq> set (js_keys (ae_files E))" using rs(3) by blast
    then obtain rs' where rs': "rs_events s' = rs_events s1 @ file_events rs'" "\<forall>(f, r)\<in>set rs'. result_of E f r"
      "map fst rs' = take (length rs') (rs_pending s1)"
      "length rs' + free_checks E (rs_checks s1) \<le> free_checks E (rs_checks s')"
      "oc2 = Returned \<and> length rs' = length (rs_pending s1) \<or> oc2 = Stopped \<and> (\<exists>i < rs_checks s'. ae_cancelled E i)"
      using analyze_rest [OF assms(1) _ run [unfolded s2]] by blast
    have sub: "set (map fst rs') \<subseteq> set (rs_pending s1)" unfolding rs'(3) by (rule set_take_subset)
    have "rs_events s' = file_events (rs @ rs')" using rs(1) rs'(1) by (simp add: file_events_def)
    moreover have "distinct (map fst rs')" unfolding rs'(3) using rs(2) by simp
    then have "distinct (map fst (rs @ rs'))" using rs(2) sub by auto
    moreover have "set (map fst (rs @ rs')) \<subseteq> set (js_keys (ae_files E))"
      using rs(3) sub unfolding map_append set_append by blast
    moreover have "\<forall>(f, r)\<in>set (rs @ rs'). result_of E f r" using rs(4) rs'(2) by auto
    moreover have "length (rs @ rs') \<le> free_checks E (rs_checks s')" using rs(5) rs'(4) by simp
    moreover have "set (map fst (rs @ rs')) = set (js_keys (ae_files E)) \<or> (\<exists>i < rs_checks s'. ae_cancelled E i)"
      using rs'(5)
    proof
      assume "oc2 = Returned \<and> length rs' = length (rs_pending s1)"
      then have "map fst rs' = rs_pending s1" using rs'(3) by simp
      then have "set (map fst (rs @ rs')) = set (js_keys (ae_files E))" using rs(3) by simp
      then show ?thesis ..
    qed blast
    ultimately show ?thesis unfolding sent_results_def by blast
  qed
qed

lemma analyzeProject_run:
  assumes "analyzeProjectWithCancellation E fuel store sources = (r, events, s')" "ae_linterError E = None"
  obtains oc where "analyze_pending E fuel (start_state E store sources) = (oc, s')"
    "oc \<noteq> Returned \<Longrightarrow> r = Inl oc"
    "oc = Returned \<Longrightarrow> \<exists>out. r = Inr out \<and> (out, events) = finish_analysis E s'"
proof -
  obtain oc s1 where run: "analyze_pending E fuel (start_state E store sources) = (oc, s1)"
    by (cases "analyze_pending E fuel (start_state E store sources)")
  note eq = assms(1) [unfolded analyzeProjectWithCancellation_def Let_def run prod.case assms(2) option.case]
  show thesis
  proof (cases "oc = Returned")
    case True
    obtain out evs where fin: "finish_analysis E s1 = (out, evs)" by (cases "finish_analysis E s1")
    have "(Inr out, evs, s1) = (r, events, s')" using eq unfolding if_P [OF True] fin prod.case .
    then show thesis using run fin True by (intro that [of oc]) auto
  next
    case False
    have "(Inl oc, rs_events s1, s1) = (r, events, s')" using eq unfolding if_not_P [OF False] .
    then show thesis using run False by (intro that [of oc]) auto
  qed
qed

lemma analyzeProject_linter_error:
  assumes "analyzeProjectWithCancellation E fuel store sources = (r, events, s')" "ae_linterError E = Some e"
  shows "r = Inl (Thrown e)" "s' = start_state E store sources" "events = []"
  using assms by (auto simp: analyzeProjectWithCancellation_def)

text \<open>
  C28. A project analysis that returns has sent one result for each file, and no other, unless it was
  cancelled; the last event, and only that, is the summary or the notice of the cancellation. Each
  result is what the analyzers give for the file and its content, whichever program was found for it.
\<close>

theorem every_file_is_reported_once:
  assumes "ae_channel E" "distinct_sources E" "distinct (js_keys (ae_files E))"
    "\<forall>i. ae_cancelled E i \<longrightarrow> ae_cancelled E (Suc i)"
    "analyzeProjectWithCancellation E fuel store sources = (Inr out, events, s')"
  shows "\<exists>results last. events = file_events results @ [last] \<and> distinct (map fst results)
    \<and> (\<forall>(f, r)\<in>set results. result_of E f r)
    \<and> (last = CancelledEvent \<and> set (map fst results) \<subseteq> set (js_keys (ae_files E))
       \<or> last = MetaEvent (ao_meta out) \<and> set (map fst results) = set (js_keys (ae_files E)))"
proof -
  have no_error: "ae_linterError E = None"
    using analyzeProject_linter_error(1) [OF assms(5)] by (cases "ae_linterError E") auto
  obtain oc where oc: "analyze_pending E fuel (start_state E store sources) = (oc, s')"
    "oc \<noteq> Returned \<Longrightarrow> Inr out = (Inl oc :: outcome + analysis_output)"
    "oc = Returned \<Longrightarrow> \<exists>out'. Inr out = (Inr out' :: outcome + analysis_output) \<and> (out', events) = finish_analysis E s'"
    using analyzeProject_run [OF assms(5) no_error] by blast
  have fin: "oc = Returned" "(out, events) = finish_analysis E s'" using oc(2,3) by auto
  obtain rs where rs: "sent_results E (oc = Returned) s' rs"
    using run_of_project [OF assms(1-3) refl oc(1)] by blast
  have mono: "ae_cancelled E j" if "ae_cancelled E i" "i \<le> j" for i j
    using that(2,1) assms(4) by (induction rule: dec_induct) auto
  have complete: "set (map fst rs) = set (js_keys (ae_files E))" if "\<not> ae_cancelled E (rs_checks s')"
    using rs mono that fin(1) unfolding sent_results_def by (metis less_imp_le)
  have events: "rs_events s' = file_events rs" "distinct (map fst rs)" "\<forall>(f, r)\<in>set rs. result_of E f r"
    "set (map fst rs) \<subseteq> set (js_keys (ae_files E))"
    using rs unfolding sent_results_def by blast+
  show ?thesis
  proof (cases "ae_cancelled E (rs_checks s')")
    case True
    then have "events = file_events rs @ [CancelledEvent]"
      using fin(2) events(1) assms(1) by (simp add: finish_analysis_def isAnalysisCancelled_def Let_def)
    then show ?thesis using events by blast
  next
    case False
    then have "events = file_events rs @ [MetaEvent (ao_meta out)]"
      using fin(2) events(1) assms(1) by (simp add: finish_analysis_def isAnalysisCancelled_def Let_def)
    then show ?thesis using events complete [OF False] by blast
  qed
qed

text \<open>
  C29. A cancellation stops the analysis: if it has come by the \<open>n\<close>-th check, at most \<open>n\<close> files are
  analyzed, also in a run that fails; with a cancellation from the start, none.
\<close>

theorem cancellation_stops_analysis:
  assumes "ae_channel E" "distinct_sources E" "distinct (js_keys (ae_files E))"
    "\<forall>i\<ge>n. ae_cancelled E i"
    "analyzeProjectWithCancellation E fuel store sources = (r, events, s')"
  shows "length (rs_events s') \<le> n"
proof (cases "ae_linterError E")
  case (Some e)
  then show ?thesis using analyzeProject_linter_error(2) [OF assms(5)] by (simp add: start_state_def)
next
  case None
  obtain oc where "analyze_pending E fuel (start_state E store sources) = (oc, s')"
    using analyzeProject_run [OF assms(5) None] by blast
  then obtain rs where rs: "rs_events s' = file_events rs" "length rs \<le> free_checks E (rs_checks s')"
    using run_of_project [OF assms(1-3) refl] unfolding sent_results_def by blast
  have "free_checks E m \<le> n" for m
  proof -
    have "set (filter (\<lambda>i. \<not> ae_cancelled E i) [0..<m]) \<subseteq> {..<n}" using assms(4) by (auto simp: not_le [symmetric])
    then have "card (set (filter (\<lambda>i. \<not> ae_cancelled E i) [0..<m])) \<le> n" using card_mono [of "{..<n}"] by fastforce
    then show ?thesis by (simp add: free_checks_def distinct_card del: set_filter)
  qed
  then show ?thesis using rs le_trans by (metis file_events_def length_map)
qed

section \<open>A project\<close>

text \<open>
  Two files under a configuration file, a program that is the list of its files, and a type checker
  that lists \<open>a.ts\<close> only. The run may be cancelled before its \<open>n\<close>-th check.
\<close>

definition no_options :: "unit compiler_options" where
  "no_options = \<lparr>co_lib = None, co_target = None, co_jsx = None, co_importHelpers = None, co_flags = [], co_other = ()\<rparr>"

definition sample_config :: configuration where
  "sample_config =
     (case createConfiguration ''/'' (JObj [(''baseDir'', JStr ''/p'')]) of Inr c \<Rightarrow> c | Inl _ \<Rightarrow> undefined)"

definition sample_result :: "string \<Rightarrow> string analyzer_result" where
  "sample_result content = AnalyzerSuccess (empty_success [] None)"

definition sample_project :: "nat \<Rightarrow> (string list, unit, unit, string) analysis_env" where
  "sample_project n =
     \<lparr>ae_files = map (\<lambda>(f, c). (f, \<lparr>af_filePath = f, af_fileContent = c, af_fileType = FileMain, af_ruleFileType = FileMain,
                                    af_fileStatus = Same\<rparr>)) [(''/p/a.ts'', ''x''), (''/p/b.js'', ''y'')],
      ae_config = sample_config, ae_hasRules = True, ae_linterError = None, ae_channel = True,
      ae_cancelled = (\<lambda>i. n \<le> i),
      ae_css = (\<lambda>_ _. FileError ''css''), ae_html = (\<lambda>i _. sample_result (ei_fileContent i)),
      ae_yaml = (\<lambda>i _. sample_result (ei_fileContent i)), ae_jsts = (\<lambda>i. sample_result (ji_fileContent i)),
      ae_cssActive = False, ae_serialize = (\<lambda>_ _ _. None), ae_units = map of_char,
      ae_typescript =
        \<lparr>tb_host = \<lparr>bh_readFile = \<lambda>_. None, bh_fileExists = \<lambda>_. False, bh_getSourceFile = \<lambda>_ _. None,
                   bh_libLocation = ''/lib'', bh_readDirectory = \<lambda>_. [], bh_parse = \<lambda>_ _ _. ()\<rparr>,
         tb_build = (\<lambda>_ options _ (sources, host). (po_rootNames options, sources, host)), tb_sourceFiles = remdups\<rparr>,
      ae_configs =
        \<lparr>tc_readConfigFile = (\<lambda>f. ReadFile f (\<lambda>c. Done (case c of None \<Rightarrow> Inl ''missing'' | Some x \<Rightarrow> Inr x))),
         tc_parse = (\<lambda>_ _ _. Done \<lparr>pr_fileNames = [''/p/a.ts''], pr_options = no_options, pr_projectReferences = None,
                                   pr_errors = [], pr_explicit = []\<rparr>),
         tc_convert_lib = (\<lambda>libs _. Some libs), tc_convert = (\<lambda>_ _. no_options), tc_target_name = (\<lambda>_. None)\<rparr>,
      ae_manifests = \<lparr>mf_cwd = ''/'', mf_closestDir = (\<lambda>_ _. None), mf_nodeSignal = (\<lambda>_ _. None), mf_typeScriptBelow6 = (\<lambda>_. False)\<rparr>,
      ae_parseHost = \<lparr>bp_readDirectory = (\<lambda>_ _. []), bp_fileExists = (\<lambda>_. True), bp_readFile = (\<lambda>_. Some ''{}'')\<rparr>,
      ae_standard = (\<lambda>options sources. (Inr (po_rootNames options), sources)),
      ae_references = (\<lambda>_. []), ae_compilerOptions = (\<lambda>_. no_options), ae_isDirectory = (\<lambda>_. None),
      ae_merge = hd, ae_tsVersion = ''6'',
      ae_telemetry = \<lparr>tl_typescriptVersions = [], tl_typescriptNativePreview = False, tl_compilerOptions = [],
        tl_ecmaScriptVersions = [], tl_programCreation = \<lparr>pg_attempted = 0, pg_succeeded = 0, pg_failed = 0\<rparr>,
        tl_esmFileCount = 0, tl_cjsFileCount = 0, tl_denoImportCounts = [],
        tl_generatedSources = \<lparr>gs_familyCount = 0, gs_resolvedFileCount = 0, gs_taggedFileCount = 0, gs_families = []\<rparr>,
        tl_packageImportFileCounts = []\<rparr>\<rparr>"

definition sample_store :: "(string list, unit) tsconfig_store" where
  "sample_store =
     \<lparr>ts_foundLookupTsConfigs = [''/p/tsconfig.json''], ts_foundPropertyTsConfigs = [], ts_providedPropertyTsConfigs = None,
      ts_propertyTsConfigsHash = None, ts_baseDir = None, ts_canAccessFileSystem = None,
      ts_projectFileDiscoveryConfigKey = None, ts_options = \<lparr>oc_contents = Map.empty, oc_options = []\<rparr>,
      ts_programs = new_program_cache 3\<rparr>"

definition sample_run :: "nat \<Rightarrow> (outcome + analysis_output) \<times> incremental_result list \<times> (string list, unit, unit) run_state" where
  "sample_run n =
     analyzeProjectWithCancellation (sample_project n) 5 sample_store
       \<lparr>sc_contents = Map.empty, sc_parsed = Map.empty, sc_context = None\<rparr>"

lemma sample_project_ok:
  "ae_channel (sample_project n)" "distinct_sources (sample_project n)" "distinct (js_keys (ae_files (sample_project n)))"
  "ae_cancelled (sample_project n) i \<longleftrightarrow> n \<le> i"
  by (simp_all add: sample_project_def distinct_sources_def)

definition event_files :: "incremental_result list \<Rightarrow> string list" where
  "event_files = map (\<lambda>e. case e of FileResultEvent f _ \<Rightarrow> f | _ \<Rightarrow> ''end'')"

lemma sample_events:
  "\<not> isl (fst (sample_run 9))" "case last (fst (snd (sample_run 9))) of CancelledEvent \<Rightarrow> False | _ \<Rightarrow> True"
  by code_simp+

lemma sample_cancelled_events:
  "event_files (fst (snd (sample_run 2))) = [''/p/a.ts'', ''end'']"
  by code_simp+

theorem every_file_is_reported_once_witness:
  "\<exists>out s' results last. sample_run 9 = (Inr out, file_events results @ [last], s') \<and> distinct (map fst results)
    \<and> last = MetaEvent (ao_meta out) \<and> set (map fst results) = {''/p/a.ts'', ''/p/b.js''}"
proof -
  obtain out events s' where run: "sample_run 9 = (Inr out, events, s')"
  proof -
    obtain r events s' where run: "sample_run 9 = (r, events, s')" by (cases "sample_run 9")
    moreover from this have "\<not> isl r" using sample_events(1) by simp
    ultimately show thesis using that by (cases r) simp_all
  qed
  have "\<exists>results last. events = file_events results @ [last] \<and> distinct (map fst results)
      \<and> (\<forall>(f, r)\<in>set results. result_of (sample_project 9) f r)
      \<and> (last = CancelledEvent \<and> set (map fst results) \<subseteq> set (js_keys (ae_files (sample_project 9)))
         \<or> last = MetaEvent (ao_meta out) \<and> set (map fst results) = set (js_keys (ae_files (sample_project 9))))"
    by (rule every_file_is_reported_once [OF sample_project_ok(1-3) _ run [unfolded sample_run_def]])
      (simp add: sample_project_ok(4))
  then obtain results last where r: "events = file_events results @ [last]" "distinct (map fst results)"
    "last = CancelledEvent \<or> last = MetaEvent (ao_meta out)
       \<and> set (map fst results) = set (js_keys (ae_files (sample_project 9)))" by blast
  moreover have "last \<noteq> CancelledEvent" using sample_events(2) run r(1) by auto
  moreover have "set (js_keys (ae_files (sample_project 9))) = {''/p/a.ts'', ''/p/b.js''}" by (simp add: sample_project_def)
  ultimately show ?thesis using run by blast
qed

theorem cancellation_stops_analysis_witness:
  "length (rs_events (snd (snd (sample_run 2)))) \<le> 2 \<and> event_files (fst (snd (sample_run 2))) = [''/p/a.ts'', ''end'']"
proof -
  obtain r events s' where run: "sample_run 2 = (r, events, s')" by (cases "sample_run 2")
  have "length (rs_events s') \<le> 2"
    by (rule cancellation_stops_analysis [OF sample_project_ok(1-3) _ run [unfolded sample_run_def]])
      (simp add: sample_project_ok(4))
  then show ?thesis using run sample_cancelled_events by simp
qed

end
