(* ===== verification/Project_Returns.thy ===== *)
theory Project_Returns
  imports Project_Runs
begin

text \<open>
  An analysis of \<open>analyzeProject.ts\<close> returns: the list of configuration files grows while the loops
  of \<open>analyzeWithProgram.ts\<close> and \<open>analyzeWithIncrementalProgram.ts\<close> run over it, but only by
  references that exist, and each configuration file is taken once.
\<close>

section \<open>The configuration files stay within a finite set\<close>

definition in_bounds ::
  "('p, 'o, 'ast, 'tree) analysis_env \<Rightarrow> string set \<Rightarrow> ('p, 'o, 'ast) run_state \<Rightarrow> bool" where
  "in_bounds E U s \<longleftrightarrow>
     set (rs_pending s) \<subseteq> set (js_keys (ae_files E)) \<and> distinct (getTsConfigs (rs_store s))
     \<and> set (getTsConfigs (rs_store s)) \<subseteq> U"

definition existing_references :: "('p, 'o, 'ast, 'tree) analysis_env \<Rightarrow> string set" where
  "existing_references E = {r. ae_isDirectory E r \<noteq> None}"

definition known_configs :: "('p, 'o, 'ast, 'tree) analysis_env \<Rightarrow> string list \<Rightarrow> string set" where
  "known_configs E configs =
     set configs \<union> (\<lambda>r. if ae_isDirectory E r = Some True then path_join [r, ''tsconfig.json''] else r) ` existing_references E"

lemma sanitize_known: "set (sanitizeReferences (ae_isDirectory E) refs) \<subseteq> known_configs E configs"
proof
  fix t
  assume "t \<in> set (sanitizeReferences (ae_isDirectory E) refs)"
  then obtain r d where r: "ae_isDirectory E r = Some d" "t = (if d then path_join [r, ''tsconfig.json''] else r)"
    unfolding sanitizeReferences_def set_concat set_map by (elim UN_E imageE) (auto split: option.splits)
  then have "t = (if ae_isDirectory E r = Some True then path_join [r, ''tsconfig.json''] else r)"
    "r \<in> existing_references E" by (simp_all add: existing_references_def)
  then show "t \<in> known_configs E configs" unfolding known_configs_def by (intro UnI2 image_eqI [of _ _ r])
qed

lemma card_known:
  assumes "finite (existing_references E)"
  shows "finite (known_configs E configs)" "card (known_configs E configs) \<le> length configs + card (existing_references E)"
proof -
  show "finite (known_configs E configs)" using assms by (simp add: known_configs_def)
  have "card (known_configs E configs) \<le> card (set configs) + card (existing_references E)"
    unfolding known_configs_def using card_Un_le card_image_le [OF assms] by (meson add_left_mono le_trans)
  then show "card (known_configs E configs) \<le> length configs + card (existing_references E)"
    using card_length [of configs] by linarith
qed

lemma add_references_known:
  "distinct (getTsConfigs st) \<Longrightarrow> set (getTsConfigs st) \<subseteq> U \<Longrightarrow> set refs \<subseteq> U \<Longrightarrow>
    distinct (getTsConfigs (fold addDiscoveredTsConfig refs st)) \<and> set (getTsConfigs (fold addDiscoveredTsConfig refs st)) \<subseteq> U"
proof (induction refs arbitrary: st)
  case (Cons r refs)
  have "distinct (getTsConfigs (addDiscoveredTsConfig r st))" "set (getTsConfigs (addDiscoveredTsConfig r st)) \<subseteq> U"
    using Cons.prems by (auto simp: getTsConfigs_add)
  then show ?case using Cons.IH Cons.prems(3) by simp
qed simp

lemma in_bounds_same:
  "same_run s s' \<Longrightarrow> getTsConfigs (rs_store s') = getTsConfigs (rs_store s) \<Longrightarrow> in_bounds E U s' = in_bounds E U s"
  by (simp add: in_bounds_def same_run_def)

lemma in_bounds_length:
  assumes "in_bounds E U s" "finite U"
  shows "length (getTsConfigs (rs_store s)) \<le> card U"
  using assms card_mono [OF assms(2)] unfolding in_bounds_def by (metis distinct_card)

section \<open>Each step returns\<close>

text \<open>A program can always be made.\<close>

definition programs_succeed :: "('p, 'o, 'ast, 'tree) analysis_env \<Rightarrow> bool" where
  "programs_succeed E \<longleftrightarrow> (\<forall>options sources. \<exists>p sources'. ae_standard E options sources = (Inr p, sources'))"

lemma analyzeFile_returns:
  assumes "f \<in> set (js_keys (ae_files E))"
  shows "\<exists>s'. analyzeFile E p y t pending f s = (Returned, s') \<and> rs_store s' = rs_store s
    \<and> set (rs_pending s') \<subseteq> set (rs_pending s)"
proof -
  obtain a where "map_of (ae_files E) f = Some a" using assms by (metis image_set map_of_eq_None_iff not_Some_eq)
  then show ?thesis by (auto simp: analyzeFile_def handleFileResult_def Let_def)
qed

lemma analyze_files_returns:
  assumes "set fs \<subseteq> set (js_keys (ae_files E))" "analyze_files E p y t pending fs s = (oc, s')"
  shows "oc \<in> {Returned, Stopped} \<and> rs_store s' = rs_store s \<and> set (rs_pending s') \<subseteq> set (rs_pending s)"
  using assms
proof (induction fs arbitrary: s)
  case (Cons f fs)
  obtain c s1 where c: "isAnalysisCancelled E s = (c, s1)" by (cases "isAnalysisCancelled E s")
  note s1 = check_simps [OF c]
  show ?case
  proof (cases c)
    case True
    then show ?thesis using Cons.prems(2) c s1(2) by auto
  next
    case False
    have "f \<in> set (js_keys (ae_files E))" using Cons.prems(1) by simp
    then obtain s2 where s2: "analyzeFile E p y t pending f s1 = (Returned, s2)" "rs_store s2 = rs_store s1"
      "set (rs_pending s2) \<subseteq> set (rs_pending s1)" using analyzeFile_returns [of f E p y t pending s1] by blast
    have fs: "set fs \<subseteq> set (js_keys (ae_files E))" using Cons.prems(1) by simp
    have "analyze_files E p y t pending fs s2 = (oc, s')" using Cons.prems(2) c False s2(1) by simp
    then show ?thesis using Cons.IH [OF fs] s2(2,3) s1(2) by auto
  qed
qed simp

lemma analyzeFilesFromTsConfig_returns:
  assumes "programs_succeed E" "in_bounds E (known_configs E cs) s" "analyzeFilesFromTsConfig E t s = (oc, s')"
  shows "oc = Returned \<and> in_bounds E (known_configs E cs) s'"
  using assms(3)
proof (cases rule: analyzeFilesFromTsConfig_cases)
  case (options s2)
  then show ?thesis using in_bounds_same [OF options(1,2), of E] assms(2) by simp
next
  case (program e s2)
  then obtain options sources sources' where "ae_standard E options sources = (Inl e, sources')" by blast
  moreover obtain p s3 where "ae_standard E options sources = (Inr p, s3)" using assms(1) unfolding programs_succeed_def by blast
  ultimately show ?thesis by simp
next
  case (files p y ty s2 refs st)
  let ?fs = "filter (\<lambda>f. map_of (ae_files E) f \<noteq> None \<and> f \<in> set (rs_pending s2)) (tb_sourceFiles (ae_typescript E) p)"
  obtain oc2 s3 where run: "analyze_files E (Some p) y ty True ?fs s2 = (oc2, s3)" by fastforce
  have pending: "set (rs_pending s2) \<subseteq> set (js_keys (ae_files E))"
    using assms(2) files(1) by (simp add: in_bounds_def same_run_def)
  then have "set ?fs \<subseteq> set (js_keys (ae_files E))" by auto
  then have r: "oc2 \<in> {Returned, Stopped}" "rs_store s3 = rs_store s2" "set (rs_pending s3) \<subseteq> set (rs_pending s2)"
    using analyze_files_returns [OF _ run] by blast+
  have "(oc, s') = function_end (oc2, s3)" using files(5) unfolding run .
  then have "oc = Returned" "s' = s3" using r(1) by (cases oc2; simp)+
  moreover have "distinct (getTsConfigs (rs_store s2)) \<and> set (getTsConfigs (rs_store s2)) \<subseteq> known_configs E cs"
    unfolding files(2) using assms(2) files(3,4) sanitize_known [of E "ae_references E p" cs]
    by (intro add_references_known) (auto simp: in_bounds_def)
  ultimately show ?thesis using r(2,3) pending by (auto simp: in_bounds_def)
qed

lemma in_bounds_check:
  assumes "in_bounds E U s" "isAnalysisCancelled E s = (c, s1)"
  shows "in_bounds E U s1"
  using assms(1) by (simp add: check_simps(2) [OF assms(2)] in_bounds_def)

lemma tsconfig_loop_returns:
  assumes "programs_succeed E" "finite (known_configs E cs)"
  shows "in_bounds E (known_configs E cs) s \<Longrightarrow> card (known_configs E cs) - i < fuel \<Longrightarrow>
    fst (tsconfig_loop E fuel i s) \<in> {Returned, Stopped} \<and> in_bounds E (known_configs E cs) (snd (tsconfig_loop E fuel i s))"
proof (induction fuel arbitrary: i s)
  case (Suc fuel)
  show ?case
  proof (cases "i \<ge> length (getTsConfigs (rs_store s))")
    case False
    then have fuel: "card (known_configs E cs) - (i + 1) < fuel"
      using in_bounds_length [OF Suc.prems(1) assms(2)] Suc.prems(2) by linarith
    obtain c s1 where c: "isAnalysisCancelled E s = (c, s1)" by (cases "isAnalysisCancelled E s")
    note s1 = in_bounds_check [OF Suc.prems(1) c]
    let ?t = "getTsConfigs (rs_store s) ! i"
    obtain oc s2 where t: "analyzeFilesFromTsConfig E ?t s1 = (oc, s2)" by (cases "analyzeFilesFromTsConfig E ?t s1")
    have r: "oc = Returned" "in_bounds E (known_configs E cs) s2"
      using analyzeFilesFromTsConfig_returns [OF assms(1) s1 t] by blast+
    show ?thesis using False c s1 t r Suc.IH [OF s1 fuel] Suc.IH [OF r(2) fuel] by (simp add: Let_def)
  qed (use Suc.prems in simp)
qed simp

lemma group_loop_returns:
  assumes "programs_succeed E"
  shows "set (concat (map lg_files gs)) \<subseteq> set (js_keys (ae_files E)) \<Longrightarrow>
    fst (group_loop E m gs s) \<in> {Returned, Stopped} \<and> rs_store (snd (group_loop E m gs s)) = rs_store s
    \<and> set (rs_pending (snd (group_loop E m gs s))) \<subseteq> set (rs_pending s)"
proof (induction gs arbitrary: s)
  case (Cons g gs)
  obtain c s1 where c: "isAnalysisCancelled E s = (c, s1)" by (cases "isAnalysisCancelled E s")
  define opts where "opts = (case m of Some baseline \<Rightarrow> withOverriddenLib E baseline (lg_lib g)
    | None \<Rightarrow> createProgramOptionsFromJson (ae_configs E) (Some (lg_lib g)) (lg_files g) (cfg_baseDir (ae_config E)))"
  obtain p s2 where q: "create_standard E (opts\<lparr>po_rootNames := lg_files g\<rparr>) s1 = (Inr p, s2)"
    using assms unfolding programs_succeed_def create_standard_def by (metis case_prod_conv)
  note same = create_standard_same [OF q]
  obtain oc s3 where run: "analyze_files E (Some p) (esLibToYear (co_lib (po_options opts)))
      (tsTargetToEsYear (tc_target_name (ae_configs E)) (co_target (po_options opts))) True (lg_files g) s2 = (oc, s3)"
    by (metis prod.exhaust)
  have g: "set (lg_files g) \<subseteq> set (js_keys (ae_files E))" "set (concat (map lg_files gs)) \<subseteq> set (js_keys (ae_files E))"
    using Cons.prems by simp_all
  have s3: "oc \<in> {Returned, Stopped}" "rs_store s3 = rs_store s2" "set (rs_pending s3) \<subseteq> set (rs_pending s2)"
    using analyze_files_returns [OF g(1) run] by blast+
  have s2: "rs_store s2 = rs_store s" "rs_pending s2 = rs_pending s" "rs_store s1 = rs_store s" "rs_pending s1 = rs_pending s"
    using same check_simps(2) [OF c] by (simp_all add: same_run_def)
  have "group_loop E m (g # gs) s = (if c then (Stopped, s1) else group_loop E m gs s3)"
    using c q run s3(1) by (auto simp: runProgram_def Let_def opts_def)
  then show ?case using Cons.IH [OF g(2), of s3] s2 s3(2,3) by auto
qed simp

lemma analyzeWithProgram_returns:
  assumes "programs_succeed E" "finite (known_configs E cs)" "in_bounds E (known_configs E cs) s"
    "card (known_configs E cs) < fuel"
  shows "fst (analyzeWithProgram E fuel s) = Returned \<and> in_bounds E (known_configs E cs) (snd (analyzeWithProgram E fuel s))"
proof -
  let ?s = "s\<lparr>rs_found := [], rs_processed := []\<rparr>"
  obtain oc s1 where l: "tsconfig_loop E fuel 0 ?s = (oc, s1)" by (cases "tsconfig_loop E fuel 0 ?s")
  have "in_bounds E (known_configs E cs) ?s" using assms(3) by (simp add: in_bounds_def)
  then have s1: "oc \<in> {Returned, Stopped}" "in_bounds E (known_configs E cs) s1"
    using tsconfig_loop_returns [OF assms(1,2), of ?s 0 fuel] assms(4) l by simp_all
  obtain oc' s2 where e: "(if jf_createTSProgramForOrphanFiles (fields_of E) then analyzeFilesFromEntryPoint E s1
      else (Returned, s1)) = (oc', s2)" by (metis prod.exhaust)
  have "set (concat (map lg_files (groups_of E (filter (is_jsts E) (rs_pending s1))))) \<subseteq> set (js_keys (ae_files E))"
    using s1(2) unfolding groups_of_files in_bounds_def by auto
  note gl = group_loop_returns [OF assms(1) this]
  have s2: "oc' = Returned" "in_bounds E (known_configs E cs) s2"
  proof -
    have "fst (analyzeFilesFromEntryPoint E s1) = Returned \<and> in_bounds E (known_configs E cs) (snd (analyzeFilesFromEntryPoint E s1))"
      using gl [of "if rs_found s1 \<noteq> [] then Some (ae_merge E (rs_found s1)) else None" s1] s1(2)
      by (auto simp: analyzeFilesFromEntryPoint_def Let_def in_bounds_def fst_function_end)
    then show "oc' = Returned" "in_bounds E (known_configs E cs) s2" using e s1(2) by (auto split: if_splits)
  qed
  have "in_bounds E (known_configs E cs) (clear_caches (warn_missing s2))"
    using s2(2) by (auto simp: clear_caches_def warn_missing_def in_bounds_def getTsConfigs_def)
  then show ?thesis using l s1 s2 e by (auto simp: analyzeWithProgram_def)
qed

section \<open>Programs that are kept\<close>

lemma pickBest_cases:
  "pickBestMatchTsConfig ts f = None \<longleftrightarrow> ts = []"
  "pickBestMatchTsConfig ts f = Some t \<Longrightarrow> t \<in> set ts"
proof -
  define pick where "pick = (\<lambda>best t. if starts_with f t
      \<and> (case best of None \<Rightarrow> True | Some b \<Rightarrow> length (dirnamePath b) < length (dirnamePath t)) then Some t else best)"
  have member: "foldl pick best ts = best \<or> (\<exists>t\<in>set ts. foldl pick best ts = Some t)" for best
  proof (induction ts arbitrary: best)
    case (Cons t ts)
    have "pick best t = best \<or> pick best t = Some t" by (simp add: pick_def)
    then show ?case using Cons.IH [of "pick best t"] by auto
  qed simp
  have pickBest: "pickBestMatchTsConfig ts f
      = (case foldl pick None ts of Some b \<Rightarrow> Some b | None \<Rightarrow> (case ts of [] \<Rightarrow> None | t # _ \<Rightarrow> Some t))"
    by (simp add: pickBestMatchTsConfig_def pick_def Let_def)
  show "pickBestMatchTsConfig ts f = None \<longleftrightarrow> ts = []"
    unfolding pickBest using member [of None] by (auto split: option.splits list.splits)
  show "t \<in> set ts" if "pickBestMatchTsConfig ts f = Some t"
    using that unfolding pickBest using member [of None] by (auto split: option.splits list.splits)
qed

lemma closest_loop_returns:
  assumes "finite (known_configs E cs)"
  shows "in_bounds E (known_configs E cs) s \<Longrightarrow> card (known_configs E cs - set processed) < fuel \<Longrightarrow>
    fst (snd (closest_loop E fuel f processed s)) = Returned
    \<and> in_bounds E (known_configs E cs) (snd (snd (closest_loop E fuel f processed s)))"
proof (induction fuel arbitrary: processed s)
  case (Suc fuel)
  let ?ts = "filter (\<lambda>t. t \<notin> set processed) (getTsConfigs (rs_store s))"
  show ?case
  proof (cases "pickBestMatchTsConfig ?ts f")
    case (Some t)
    then have "t \<in> known_configs E cs - set processed"
      using pickBest_cases(2) [OF Some] Suc.prems(1) by (auto simp: in_bounds_def)
    then have "card (known_configs E cs - set (t # processed)) < card (known_configs E cs - set processed)"
      using assms by (intro psubset_card_mono) auto
    then have fuel: "card (known_configs E cs - set (t # processed)) < fuel" using Suc.prems(2) by linarith
    obtain r s1 where o: "program_options_of E t s = (r, s1)" by (cases "program_options_of E t s")
    have s1: "in_bounds E (known_configs E cs) s1"
      using in_bounds_same [OF program_options_same(1,2) [OF o], of E] Suc.prems(1) by simp
    show ?thesis
    proof (cases r)
      case (Inl e)
      have "in_bounds E (known_configs E cs) (s1\<lparr>rs_warnings := rs_warnings s1 @ [parse_warning E t]\<rparr>)"
        using s1 by (simp add: in_bounds_def)
      then show ?thesis using Suc.IH [OF _ fuel] Some o Inl by simp
    next
      case (Inr options)
      let ?s2 = "add_references (sanitizeReferences (ae_isDirectory E) (nullish (po_projectReferences options) [])) s1"
      have "in_bounds E (known_configs E cs) ?s2"
        using s1 add_references_known [OF _ _ sanitize_known, of "rs_store s1" E cs]
        by (simp add: in_bounds_def) (simp add: add_references_def)
      then have "in_bounds E (known_configs E cs) (?s2\<lparr>rs_found := rs_found ?s2 @ [options]\<rparr>)"
        by (simp add: in_bounds_def)
      then show ?thesis using Suc.IH [OF _ fuel] Some o Inr by (simp add: Let_def)
    qed
  qed (use Suc.prems in simp)
qed simp

lemma program_for_file_returns:
  assumes "finite (known_configs E cs)" "in_bounds E (known_configs E cs) s" "card (known_configs E cs) < fuel"
    "program_for_file E fuel f s = (p, oc, s')"
  shows "oc = Returned \<and> in_bounds E (known_configs E cs) s'"
proof -
  obtain p' ps oc' s1 where c: "createOrGetCachedProgramForFile (ae_typescript E) (cfg_baseDir (ae_config E)) f
      (programOptionsFromClosestTsconfig E fuel f) (jf_skipNodeModuleLookupOutsideBaseDir (fields_of E))
      \<lparr>ps_programs = ts_programs (rs_store s), ps_sources = rs_sources s\<rparr> (Returned, s) = (p', ps, oc', s1)"
    by (metis prod_cases4)
  have "card (known_configs E cs - set []) < fuel" using assms(3) by simp
  note closest = closest_loop_returns [OF assms(1,2) this, of f]
  have "(oc', s1) = (Returned, s) \<or> (oc', s1) = snd (closest_loop E fuel f [] s)"
    using createOrGet_caller [OF c] by (simp add: programOptionsFromClosestTsconfig_def)
  then have "oc' = Returned \<and> in_bounds E (known_configs E cs) s1" using assms(2) closest by (metis fst_conv snd_conv)
  moreover have "s' = s1\<lparr>rs_store := (rs_store s1)\<lparr>ts_programs := ps_programs ps\<rparr>, rs_sources := ps_sources ps\<rparr>" "oc = oc'"
    using assms(4) c by (simp_all add: program_for_file_def)
  ultimately show ?thesis by (simp add: in_bounds_def getTsConfigs_def split: if_splits)
qed

lemma incremental_loop_returns:
  assumes "finite (known_configs E cs)" "card (known_configs E cs) < fuel"
  shows "in_bounds E (known_configs E cs) s \<Longrightarrow> set fs \<subseteq> set (js_keys (ae_files E)) \<Longrightarrow>
    fst (incremental_loop E fuel fs s) \<in> {Returned, Stopped}
    \<and> in_bounds E (known_configs E cs) (snd (incremental_loop E fuel fs s))"
proof (induction fs arbitrary: s)
  case (Cons f fs)
  obtain c s1 where c: "isAnalysisCancelled E s = (c, s1)" by (cases "isAnalysisCancelled E s")
  note s1 = in_bounds_check [OF Cons.prems(1) c]
  obtain p oc s2 where p: "program_for_file E fuel f s1 = (p, oc, s2)" by (metis prod_cases3)
  have s2: "oc = Returned" "in_bounds E (known_configs E cs) s2"
    using program_for_file_returns [OF assms(1) s1 assms(2) p] by blast+
  let ?y = "Option.bind (map_option (ae_compilerOptions E) p) (\<lambda>c. esLibToYear (co_lib c))"
  let ?t = "Option.bind (map_option (ae_compilerOptions E) p) (\<lambda>c. tsTargetToEsYear (tc_target_name (ae_configs E)) (co_target c))"
  have "f \<in> set (js_keys (ae_files E))" using Cons.prems(2) by simp
  then obtain s3 where s3: "analyzeFile E p ?y ?t True f s2 = (Returned, s3)" "rs_store s3 = rs_store s2"
    "set (rs_pending s3) \<subseteq> set (rs_pending s2)" using analyzeFile_returns [of f E p ?y ?t True s2] by blast
  have b3: "in_bounds E (known_configs E cs) s3" using s2(2) s3(2,3) by (auto simp: in_bounds_def)
  have "incremental_loop E fuel (f # fs) s
      = (if c then (Stopped, s1) else if rs_pending s3 = [] then (Returned, s3) else incremental_loop E fuel fs s3)"
    using c p s2(1) s3(1) by simp
  then show ?case using Cons.IH [OF b3] Cons.prems(2) s1 b3 by simp
qed simp

lemma analyze_with_types_returns:
  assumes "programs_succeed E" "finite (known_configs E cs)" "in_bounds E (known_configs E cs) s"
    "card (known_configs E cs) < fuel"
  shows "fst (analyze_with_types E fuel s) = Returned \<and> in_bounds E (known_configs E cs) (snd (analyze_with_types E fuel s))"
proof -
  let ?s = "s\<lparr>rs_found := []\<rparr>"
  have "in_bounds E (known_configs E cs) ?s" using assms(3) by (simp add: in_bounds_def)
  moreover have "set (filter (is_jsts E) (rs_pending s)) \<subseteq> set (js_keys (ae_files E))" using assms(3) by (auto simp: in_bounds_def)
  ultimately have l: "fst (incremental_loop E fuel (filter (is_jsts E) (rs_pending s)) ?s) \<in> {Returned, Stopped}
      \<and> in_bounds E (known_configs E cs) (snd (incremental_loop E fuel (filter (is_jsts E) (rs_pending s)) ?s))"
    by (rule incremental_loop_returns [OF assms(2,4)])
  obtain oc s1 where run: "incremental_loop E fuel (filter (is_jsts E) (rs_pending s)) ?s = (oc, s1)" by fastforce
  have "in_bounds E (known_configs E cs) (warn_missing s1)" using l run by (simp add: warn_missing_def in_bounds_def)
  then have "fst (analyzeWithIncrementalProgram E fuel s) = Returned
      \<and> in_bounds E (known_configs E cs) (snd (analyzeWithIncrementalProgram E fuel s))"
    using l run assms(3) by (auto simp: analyzeWithIncrementalProgram_def Let_def)
  then show ?thesis using assms(3) analyzeWithProgram_returns [OF assms] by (simp add: analyze_with_types_def)
qed

section \<open>The analysis returns\<close>

text \<open>
  C33. A project analysis returns, whatever the project and whenever it is cancelled, if the linter
  starts and TypeScript gives a program for any options: the configuration files that the loops take
  are those of the project and the references that exist, each at most once per loop, so as many
  steps and one more are enough.
\<close>

theorem analysis_returns:
  assumes "ae_linterError E = None" "programs_succeed E" "finite (existing_references E)"
    "distinct (getTsConfigs store)"
    "length (getTsConfigs store) + card (existing_references E) < fuel"
  shows "\<exists>out events s'. analyzeProjectWithCancellation E fuel store sources = (Inr out, events, s')"
proof -
  let ?cs = "getTsConfigs store" and ?s = "start_state E store sources"
  have "set (object_entries (ae_files E)) = set (ae_files E)" by (rule set_object_entries)
  then have s: "in_bounds E (known_configs E ?cs) ?s"
    using assms(4) by (auto simp: in_bounds_def start_state_def known_configs_def)
  have "card (known_configs E ?cs) < fuel" using card_known(2) [OF assms(3), of ?cs] assms(5) by linarith
  note types = analyze_with_types_returns [OF assms(2) card_known(1) [OF assms(3)] s this]
  obtain s1 where s1: "analyze_with_types E fuel ?s = (Returned, s1)" "in_bounds E (known_configs E ?cs) s1"
    using types by (cases "analyze_with_types E fuel ?s") simp
  obtain oc s2 where rest: "analyze_files E None None None False (rs_pending s1) s1 = (oc, s2)" by fastforce
  have "oc \<in> {Returned, Stopped}" using analyze_files_returns [OF _ rest] s1(2) by (auto simp: in_bounds_def)
  then have "fst (analyze_pending E fuel ?s) = Returned"
    using s1(1) rest by (auto simp: analyze_pending_def analyzeWithoutProgram_def)
  then obtain s3 where run: "analyze_pending E fuel ?s = (Returned, s3)" by (cases "analyze_pending E fuel ?s") simp
  obtain out events where "finish_analysis E s3 = (out, events)" by (cases "finish_analysis E s3")
  then show ?thesis using run assms(1) by (auto simp: analyzeProjectWithCancellation_def Let_def)
qed

theorem analysis_returns_witness:
  "\<exists>out events s'. analyzeProjectWithCancellation (sample_project 1) 2 sample_store
     \<lparr>sc_contents = Map.empty, sc_parsed = Map.empty, sc_context = None\<rparr> = (Inr out, events, s')"
proof (rule analysis_returns)
  show "programs_succeed (sample_project 1)" by (simp add: programs_succeed_def sample_project_def)
  show "finite (existing_references (sample_project 1))" by (simp add: existing_references_def sample_project_def)
  show "length (getTsConfigs sample_store) + card (existing_references (sample_project 1)) < 2"
    by (simp add: existing_references_def sample_project_def getTsConfigs_def sample_store_def)
qed (simp_all add: sample_project_def getTsConfigs_def sample_store_def)

end
