(* ===== verification/Project_Channel.thy ===== *)
theory Project_Channel
  imports Project_Returns
begin

text \<open>
  The two ways \<open>handleFileResult.ts\<close> delivers results: with a channel they are sent one by one, without
  they are collected in the output. A run without a channel is the run with one, its events collected.
\<close>

section \<open>Collecting events\<close>

definition collect_event :: "incremental_result \<Rightarrow> (string, file_result) js_map \<Rightarrow> (string, file_result) js_map" where
  "collect_event e m = (case e of FileResultEvent f r \<Rightarrow> js_set f r m | _ \<Rightarrow> m)"

definition collect_events :: "incremental_result list \<Rightarrow> (string, file_result) js_map" where
  "collect_events es = fold collect_event es []"

definition collected :: "('p, 'o, 'ast) run_state \<Rightarrow> ('p, 'o, 'ast) run_state" where
  "collected s = s\<lparr>rs_files := collect_events (rs_events s), rs_events := []\<rparr>"

abbreviation streaming :: "('p, 'o, 'ast, 'tree) analysis_env \<Rightarrow> ('p, 'o, 'ast, 'tree) analysis_env" where
  "streaming E \<equiv> E\<lparr>ae_channel := True\<rparr>"

abbreviation unary :: "('p, 'o, 'ast, 'tree) analysis_env \<Rightarrow> ('p, 'o, 'ast, 'tree) analysis_env" where
  "unary E \<equiv> E\<lparr>ae_channel := False\<rparr>"

lemma collected_fields [simp]:
  "rs_pending (collected s) = rs_pending s" "rs_checks (collected s) = rs_checks s"
  "rs_counter (collected s) = rs_counter s" "rs_store (collected s) = rs_store s"
  "rs_sources (collected s) = rs_sources s" "rs_found (collected s) = rs_found s"
  "rs_processed (collected s) = rs_processed s" "rs_warnings (collected s) = rs_warnings s"
  "rs_files (collected s) = collect_events (rs_events s)" "rs_events (collected s) = []"
  by (simp_all add: collected_def)

lemma collected_updates:
  "(collected s)\<lparr>rs_pending := v1\<rparr> = collected (s\<lparr>rs_pending := v1\<rparr>)"
  "(collected s)\<lparr>rs_checks := v2\<rparr> = collected (s\<lparr>rs_checks := v2\<rparr>)"
  "(collected s)\<lparr>rs_counter := v3\<rparr> = collected (s\<lparr>rs_counter := v3\<rparr>)"
  "(collected s)\<lparr>rs_store := v4\<rparr> = collected (s\<lparr>rs_store := v4\<rparr>)"
  "(collected s)\<lparr>rs_sources := v5\<rparr> = collected (s\<lparr>rs_sources := v5\<rparr>)"
  "(collected s)\<lparr>rs_found := v6\<rparr> = collected (s\<lparr>rs_found := v6\<rparr>)"
  "(collected s)\<lparr>rs_processed := v7\<rparr> = collected (s\<lparr>rs_processed := v7\<rparr>)"
  "(collected s)\<lparr>rs_warnings := v8\<rparr> = collected (s\<lparr>rs_warnings := v8\<rparr>)"
  by (simp_all add: collected_def)

text \<open>Functions of the state that do not touch results commute with collecting; so do compositions.\<close>

lemma and_then_collected:
  assumes "\<And>s. f' (collected s) = apsnd collected (f s)"
  shows "and_then (apsnd collected r) f' = apsnd collected (and_then r f)"
  by (cases r; cases "fst r") (auto simp: assms)

lemma function_end_collected: "function_end (apsnd collected r) = apsnd collected (function_end r)"
  by (cases r; cases "fst r") auto

lemma handleFileResult_collected:
  "handleFileResult (unary E) r f (collected s) = collected (handleFileResult (streaming E) r f s)"
  by (simp add: handleFileResult_def collected_def collect_events_def collect_event_def)

lemma is_jsts_channel [simp]: "is_jsts (E\<lparr>ae_channel := b\<rparr>) = is_jsts E"
  by (rule ext) (simp add: is_jsts_def)

lemma channel_selectors:
  "ae_config (E\<lparr>ae_channel := b\<rparr>) = ae_config E" "ae_css (E\<lparr>ae_channel := b\<rparr>) = ae_css E"
  "ae_html (E\<lparr>ae_channel := b\<rparr>) = ae_html E" "ae_yaml (E\<lparr>ae_channel := b\<rparr>) = ae_yaml E"
  "ae_jsts (E\<lparr>ae_channel := b\<rparr>) = ae_jsts E" "ae_cssActive (E\<lparr>ae_channel := b\<rparr>) = ae_cssActive E"
  "ae_serialize (E\<lparr>ae_channel := b\<rparr>) = ae_serialize E" "ae_units (E\<lparr>ae_channel := b\<rparr>) = ae_units E"
  by simp_all

lemma css_input_channel [simp]: "css_input_of (E\<lparr>ae_channel := b\<rparr>) = css_input_of E"
  by (rule ext) (simp add: css_input_of_def)

lemma mergeAdditionalCss_channel [simp]: "mergeAdditionalCssAnalysis (E\<lparr>ae_channel := b\<rparr>) = mergeAdditionalCssAnalysis E"
  by (intro ext) (simp add: mergeAdditionalCssAnalysis_def split: file_result.split)

lemma file_analysis_channel [simp]: "file_analysis (E\<lparr>ae_channel := b\<rparr>) n f p y t = file_analysis E n f p y t"
  unfolding file_analysis_def channel_selectors is_jsts_channel css_input_channel mergeAdditionalCss_channel ..

lemma analyzeFile_collected:
  "analyzeFile (unary E) p y t pend f (collected s) = apsnd collected (analyzeFile (streaming E) p y t pend f s)"
  by (simp add: analyzeFile_def Let_def collected_updates handleFileResult_collected split: option.split)

lemma check_collected:
  "isAnalysisCancelled (unary E) (collected s) = apsnd collected (isAnalysisCancelled (streaming E) s)"
  by (simp add: isAnalysisCancelled_def collected_updates)

lemma analyze_files_collected:
  "analyze_files (unary E) p y t pend fs (collected s) = apsnd collected (analyze_files (streaming E) p y t pend fs s)"
proof (induction fs arbitrary: s)
  case (Cons f fs)
  obtain c s1 where c: "isAnalysisCancelled (streaming E) s = (c, s1)" by fastforce
  then have "isAnalysisCancelled (unary E) (collected s) = (c, collected s1)" by (simp add: check_collected)
  moreover have "and_then (analyzeFile (unary E) p y t pend f (collected s1)) (analyze_files (unary E) p y t pend fs)
      = apsnd collected (and_then (analyzeFile (streaming E) p y t pend f s1) (analyze_files (streaming E) p y t pend fs))"
    unfolding analyzeFile_collected by (rule and_then_collected) (rule Cons.IH)
  ultimately show ?case using c by simp
qed simp

lemma program_options_collected:
  "program_options_of (unary E) t (collected s) = apsnd collected (program_options_of (streaming E) t s)"
  by (simp add: program_options_of_def collected_updates split: prod.split)

lemma create_standard_collected:
  "create_standard (unary E) opts (collected s) = apsnd collected (create_standard (streaming E) opts s)"
  by (simp add: create_standard_def collected_updates split: prod.split)

lemma add_references_collected: "add_references refs (collected s) = collected (add_references refs s)"
  by (simp add: add_references_def collected_updates)

lemma groups_of_channel [simp]: "groups_of (E\<lparr>ae_channel := b\<rparr>) = groups_of E"
  by (rule ext) (simp add: groups_of_def)

lemma parse_warning_channel [simp]: "parse_warning (E\<lparr>ae_channel := b\<rparr>) = parse_warning E"
  by (rule ext) (simp add: parse_warning_def)

lemma withOverriddenLib_channel [simp]: "withOverriddenLib (E\<lparr>ae_channel := b\<rparr>) = withOverriddenLib E"
  by (intro ext) (simp add: withOverriddenLib_def)

section \<open>The loops\<close>

lemma analyzeFilesFromTsConfig_collected:
  "analyzeFilesFromTsConfig (unary E) t (collected s) = apsnd collected (analyzeFilesFromTsConfig (streaming E) t s)"
proof -
  let ?s = "s\<lparr>rs_processed := List.insert t (rs_processed s)\<rparr>"
  obtain r s1 where o: "program_options_of (streaming E) t ?s = (r, s1)" by fastforce
  then have o': "program_options_of (unary E) t (collected ?s) = (r, collected s1)" by (simp add: program_options_collected)
  show ?thesis
  proof (cases r)
    case (Inl e)
    then show ?thesis using o o' by (simp add: analyzeFilesFromTsConfig_def collected_updates)
  next
    case (Inr opts)
    obtain q s2 where c: "create_standard (streaming E) opts (s1\<lparr>rs_found := rs_found s1 @ [opts]\<rparr>) = (q, s2)" by fastforce
    then have "create_standard (unary E) opts (collected (s1\<lparr>rs_found := rs_found s1 @ [opts]\<rparr>)) = (q, collected s2)"
      by (simp add: create_standard_collected)
    then show ?thesis using o o' Inr c
      by (cases q) (simp_all add: analyzeFilesFromTsConfig_def collected_updates add_references_collected
          analyze_files_collected function_end_collected Let_def)
  qed
qed

lemma tsconfig_loop_collected:
  "tsconfig_loop (unary E) fuel i (collected s) = apsnd collected (tsconfig_loop (streaming E) fuel i s)"
proof (induction fuel arbitrary: i s)
  case (Suc fuel)
  obtain c s1 where c: "isAnalysisCancelled (streaming E) s = (c, s1)" by fastforce
  then have c': "isAnalysisCancelled (unary E) (collected s) = (c, collected s1)" by (simp add: check_collected)
  let ?t = "getTsConfigs (rs_store s) ! i"
  have "and_then (analyzeFilesFromTsConfig (unary E) ?t (collected s1)) (tsconfig_loop (unary E) fuel (i + 1))
      = apsnd collected (and_then (analyzeFilesFromTsConfig (streaming E) ?t s1) (tsconfig_loop (streaming E) fuel (i + 1)))"
    unfolding analyzeFilesFromTsConfig_collected by (rule and_then_collected) (rule Suc.IH)
  then show ?case using c c' Suc.IH by (simp add: Let_def)
qed simp

lemma runProgram_collected:
  "runProgram (unary E) opts fs (collected s) = apsnd collected (runProgram (streaming E) opts fs s)"
proof -
  obtain q s1 where "create_standard (streaming E) (opts\<lparr>po_rootNames := fs\<rparr>) s = (q, s1)" by fastforce
  moreover from this have "create_standard (unary E) (opts\<lparr>po_rootNames := fs\<rparr>) (collected s) = (q, collected s1)"
    by (simp add: create_standard_collected)
  ultimately show ?thesis
    by (cases q) (simp_all add: runProgram_def analyze_files_collected function_end_collected)
qed

lemma group_loop_collected:
  "group_loop (unary E) m gs (collected s) = apsnd collected (group_loop (streaming E) m gs s)"
proof (induction gs arbitrary: s)
  case (Cons g gs)
  obtain c s1 where c: "isAnalysisCancelled (streaming E) s = (c, s1)" by fastforce
  then have c': "isAnalysisCancelled (unary E) (collected s) = (c, collected s1)" by (simp add: check_collected)
  define opts where "opts = (case m of Some baseline \<Rightarrow> withOverriddenLib E baseline (lg_lib g)
    | None \<Rightarrow> createProgramOptionsFromJson (ae_configs E) (Some (lg_lib g)) (lg_files g) (cfg_baseDir (ae_config E)))"
  have "and_then (runProgram (unary E) opts (lg_files g) (collected s1)) (group_loop (unary E) m gs)
      = apsnd collected (and_then (runProgram (streaming E) opts (lg_files g) s1) (group_loop (streaming E) m gs))"
    unfolding runProgram_collected by (rule and_then_collected) (rule Cons.IH)
  then show ?case using c c' by (cases m) (simp_all add: Let_def opts_def)
qed simp

lemma warn_missing_collected: "warn_missing (collected s) = collected (warn_missing s)"
  by (simp add: warn_missing_def collected_updates)

lemma clear_caches_collected: "clear_caches (collected s) = collected (clear_caches s)"
  by (simp add: clear_caches_def collected_def)

lemma analyzeFilesFromEntryPoint_collected:
  "analyzeFilesFromEntryPoint (unary E) (collected s) = apsnd collected (analyzeFilesFromEntryPoint (streaming E) s)"
  by (simp add: analyzeFilesFromEntryPoint_def Let_def group_loop_collected function_end_collected)

lemma after_program_collected:
  "(if b then analyzeFilesFromEntryPoint (unary E) (collected s) else (Returned, collected s))
     = apsnd collected (if b then analyzeFilesFromEntryPoint (streaming E) s else (Returned, s))"
  by (simp add: analyzeFilesFromEntryPoint_collected)

lemma analyzeWithProgram_collected:
  "analyzeWithProgram (unary E) fuel (collected s) = apsnd collected (analyzeWithProgram (streaming E) fuel s)"
proof -
  let ?after = "\<lambda>s :: ('p, 'o, 'ast) run_state. (Returned, clear_caches (warn_missing s))"
  let ?orphans = "\<lambda>E s. and_then
    (if jf_createTSProgramForOrphanFiles (fields_of E) then analyzeFilesFromEntryPoint E s else (Returned, s)) ?after"
  have orphans: "?orphans (unary E) (collected s) = apsnd collected (?orphans (streaming E) s)" for s
    unfolding channel_selectors after_program_collected
    by (rule and_then_collected) (simp add: warn_missing_collected clear_caches_collected)
  have "and_then (tsconfig_loop (unary E) fuel 0 (collected s)) (?orphans (unary E))
      = apsnd collected (and_then (tsconfig_loop (streaming E) fuel 0 s) (?orphans (streaming E)))" for s
    unfolding tsconfig_loop_collected by (rule and_then_collected) (rule orphans)
  then show ?thesis by (simp only: analyzeWithProgram_def collected_updates function_end_collected)
qed

section \<open>Programs that are kept\<close>

lemma orphan_options_collected: "orphan_options (unary E) f (collected s) = orphan_options (streaming E) f s"
  by (simp add: orphan_options_def split: option.split)

lemma closest_loop_collected:
  "closest_loop (unary E) fuel f processed (collected s) = apsnd (apsnd collected) (closest_loop (streaming E) fuel f processed s)"
proof (induction fuel arbitrary: processed s)
  case (Suc fuel)
  let ?pick = "pickBestMatchTsConfig (filter (\<lambda>t. t \<notin> set processed) (getTsConfigs (rs_store s))) f"
  show ?case
  proof (cases ?pick)
    case (Some t)
    obtain r s1 where o: "program_options_of (streaming E) t s = (r, s1)" by fastforce
    then have o': "program_options_of (unary E) t (collected s) = (r, collected s1)" by (simp add: program_options_collected)
    show ?thesis
      using Some o o' Suc.IH by (cases r) (simp_all add: Let_def collected_updates add_references_collected)
  qed (simp add: orphan_options_collected)
qed simp

text \<open>The options of a program act on the state of the run only.\<close>

lemma createOrGet_map:
  assumes "\<And>x. getOptions' (h x) = apsnd h (getOptions x)"
  shows "createOrGetCachedProgramForFile T b f getOptions' skip ps (h x)
     = apsnd (apsnd h) (createOrGetCachedProgramForFile T b f getOptions skip ps x)"
  by (simp add: createOrGetCachedProgramForFile_def assms Let_def split: prod.split option.split)

lemma program_for_file_collected:
  fixes E :: "('p, 'o, 'ast, 'tree) analysis_env" and s :: "('p, 'o, 'ast) run_state"
  shows "program_for_file (unary E) fuel f (collected s) = apsnd (apsnd collected) (program_for_file (streaming E) fuel f s)"
proof -
  have "programOptionsFromClosestTsconfig (unary E) fuel f (apsnd collected x)
      = apsnd (apsnd collected) (programOptionsFromClosestTsconfig (streaming E) fuel f x)" for x
    by (cases x) (simp add: programOptionsFromClosestTsconfig_def closest_loop_collected)
  then have "createOrGetCachedProgramForFile T b f (programOptionsFromClosestTsconfig (unary E) fuel f) skip ps (apsnd collected x)
      = apsnd (apsnd (apsnd collected))
          (createOrGetCachedProgramForFile T b f (programOptionsFromClosestTsconfig (streaming E) fuel f) skip ps x)"
    for T :: "('p, 'o, 'ast) typescript_build" and b skip ps x
    by (rule createOrGet_map)
  note c = this [of _ _ _ _ "(Returned, s)", unfolded apsnd_conv]
  show ?thesis by (simp add: program_for_file_def c collected_updates split: prod.split)
qed

lemma incremental_loop_collected:
  "incremental_loop (unary E) fuel fs (collected s) = apsnd collected (incremental_loop (streaming E) fuel fs s)"
proof (induction fs arbitrary: s)
  case (Cons f fs)
  obtain c s1 where c: "isAnalysisCancelled (streaming E) s = (c, s1)" by fastforce
  then have c': "isAnalysisCancelled (unary E) (collected s) = (c, collected s1)" by (simp add: check_collected)
  obtain p oc s2 where p: "program_for_file (streaming E) fuel f s1 = (p, oc, s2)" by (metis prod_cases3)
  then have p': "program_for_file (unary E) fuel f (collected s1) = (p, oc, collected s2)"
    by (simp add: program_for_file_collected)
  let ?y = "Option.bind (map_option (ae_compilerOptions E) p) (\<lambda>c. esLibToYear (co_lib c))"
  let ?t = "Option.bind (map_option (ae_compilerOptions E) p) (\<lambda>c. tsTargetToEsYear (tc_target_name (ae_configs E)) (co_target c))"
  let ?rest = "\<lambda>E s. if rs_pending s = [] then (Returned, s) else incremental_loop E fuel fs s"
  let ?step = "\<lambda>E s. and_then (analyzeFile E p ?y ?t True f s) (?rest E)"
  have "?rest (unary E) (collected s) = apsnd collected (?rest (streaming E) s)" for s
    using Cons.IH by simp
  then have "?step (unary E) (collected s) = apsnd collected (?step (streaming E) s)" for s
    unfolding analyzeFile_collected by (rule and_then_collected)
  then have "and_then (apsnd collected (oc, s2)) (?step (unary E)) = apsnd collected (and_then (oc, s2) (?step (streaming E)))"
    by (rule and_then_collected)
  then show ?case using c c' p p' by (simp add: Let_def)
qed simp

lemma analyzeWithIncrementalProgram_collected:
  "analyzeWithIncrementalProgram (unary E) fuel (collected s) = apsnd collected (analyzeWithIncrementalProgram (streaming E) fuel s)"
proof -
  have "and_then (incremental_loop (unary E) fuel fs (collected s)) (\<lambda>s. (Returned, warn_missing s))
      = apsnd collected (and_then (incremental_loop (streaming E) fuel fs s) (\<lambda>s. (Returned, warn_missing s)))" for fs s
    unfolding incremental_loop_collected by (rule and_then_collected) (simp add: warn_missing_collected)
  then show ?thesis
    by (simp add: analyzeWithIncrementalProgram_def Let_def collected_updates function_end_collected)
qed

section \<open>The project\<close>

lemma analyze_with_types_collected:
  "analyze_with_types (unary E) fuel (collected s) = apsnd collected (analyze_with_types (streaming E) fuel s)"
  by (simp add: analyze_with_types_def analyzeWithIncrementalProgram_collected analyzeWithProgram_collected)

lemma analyzeWithoutProgram_collected:
  "analyzeWithoutProgram (unary E) (collected s) = apsnd collected (analyzeWithoutProgram (streaming E) s)"
  by (simp add: analyzeWithoutProgram_def analyze_files_collected function_end_collected)

lemma analyze_pending_collected:
  "analyze_pending (unary E) fuel (collected s) = apsnd collected (analyze_pending (streaming E) fuel s)"
proof -
  let ?rest = "\<lambda>E s. if rs_pending s = [] then (Returned, s) else analyzeWithoutProgram E s"
  have "?rest (unary E) (collected s) = apsnd collected (?rest (streaming E) s)" for s
    by (simp add: analyzeWithoutProgram_collected)
  then have "and_then (analyze_with_types (unary E) fuel (collected s)) (?rest (unary E))
      = apsnd collected (and_then (analyze_with_types (streaming E) fuel s) (?rest (streaming E)))"
    unfolding analyze_with_types_collected by (rule and_then_collected)
  then show ?thesis by (simp add: analyze_pending_def)
qed

lemma start_state_collected: "start_state (unary E) store sources = collected (start_state (streaming E) store sources)"
  by (simp add: start_state_def collected_def collect_events_def)

lemma finish_analysis_collected:
  assumes "finish_analysis (streaming E) s = (out, events)"
  shows "finish_analysis (unary E) (collected s) = (out\<lparr>ao_files := collect_events events\<rparr>, [])"
  using assms
  by (auto simp: finish_analysis_def isAnalysisCancelled_def Let_def collected_def collect_events_def collect_event_def)

lemma collected_run:
  assumes "analyzeProjectWithCancellation (streaming E) fuel store sources = (r, events, s')"
  shows "\<exists>s''. analyzeProjectWithCancellation (unary E) fuel store sources
      = (map_sum id (\<lambda>out. out\<lparr>ao_files := collect_events events\<rparr>) r, [], s'')
    \<and> rs_store s'' = rs_store s' \<and> rs_sources s'' = rs_sources s' \<and> rs_pending s'' = rs_pending s'"
proof (cases "ae_linterError E")
  case (Some e)
  then show ?thesis using assms by (auto simp: analyzeProjectWithCancellation_def start_state_def collect_events_def)
next
  case None
  obtain oc s1 where run: "analyze_pending (streaming E) fuel (start_state (streaming E) store sources) = (oc, s1)" by fastforce
  have run': "analyze_pending (unary E) fuel (start_state (unary E) store sources) = (oc, collected s1)"
    unfolding start_state_collected analyze_pending_collected run by simp
  obtain out evs where fin: "finish_analysis (streaming E) s1 = (out, evs)" by fastforce
  note fin' = finish_analysis_collected [OF fin]
  have r: "(r, events, s') = (if oc = Returned then (Inr out, evs, s1) else (Inl oc, rs_events s1, s1))"
    using assms None run fin by (auto simp: analyzeProjectWithCancellation_def split: if_splits)
  have "analyzeProjectWithCancellation (unary E) fuel store sources
      = (if oc = Returned then (Inr (out\<lparr>ao_files := collect_events evs\<rparr>), [], collected s1)
         else (Inl oc, [], collected s1))"
    using None run' fin' by (simp add: analyzeProjectWithCancellation_def)
  then show ?thesis using r by (auto split: if_splits)
qed

text \<open>
  With and without a channel the analysis does the same: without a channel it returns, with the
  same summary, exactly the results that the stream would have delivered, in the same order, or fails
  in the same way; and it leaves the same caches and configuration files behind.
\<close>

theorem unary_result_is_collected_stream:
  assumes "analyzeProjectWithCancellation (streaming E) fuel store sources = (r, events, s')"
  shows "\<exists>s''. analyzeProjectWithCancellation (unary E) fuel store sources
      = (map_sum id (\<lambda>out. out\<lparr>ao_files := collect_events events\<rparr>) r, [], s'')
    \<and> rs_store s'' = rs_store s' \<and> rs_sources s'' = rs_sources s' \<and> rs_pending s'' = rs_pending s'"
  using assms by (rule collected_run)

theorem unary_result_is_collected_stream_witness:
  "\<exists>out s''. analyzeProjectWithCancellation (unary (sample_project 9)) 5 sample_store
      \<lparr>sc_contents = Map.empty, sc_parsed = Map.empty, sc_context = None\<rparr> = (Inr out, [], s'')
    \<and> js_keys (ao_files out) = [''/p/a.ts'', ''/p/b.js'']"
proof -
  have channel: "streaming (sample_project 9) = sample_project 9" by (simp add: sample_project_def)
  obtain r events s' where run: "sample_run 9 = (r, events, s')" by (cases "sample_run 9")
  then obtain out where r: "r = Inr out" using sample_events(1) by (cases r) simp_all
  have "js_keys (collect_events (fst (snd (sample_run 9)))) = [''/p/a.ts'', ''/p/b.js'']" by code_simp
  then have "js_keys (collect_events events) = [''/p/a.ts'', ''/p/b.js'']" using run by simp
  then show ?thesis
    using unary_result_is_collected_stream [of "sample_project 9", unfolded channel, OF run [unfolded sample_run_def]] r
    by auto
qed

end
