(* ===== verification/Analysis_Worker.thy ===== *)
theory Analysis_Worker
  imports Analysis_Server Project_Channel FS_Session Request_Properties
begin

text \<open>
  What the worker does with a request: \<open>analyze-project-handle-request.ts\<close> and
  \<open>analyze-project-request.ts\<close> of \<open>packages/grpc/src\<close>. An analysis is one function of what it meets.
  Logging of the heap is left out, and so are the stacks of errors.
\<close>

section \<open>Errors\<close>

text \<open>
  What a handler can catch. \<open>ThrownOther\<close> has the JSON text of the value, if \<open>JSON.stringify\<close> gives
  one, and its string conversion.
\<close>

datatype thrown =
    ThrownInvalid string
  | ThrownApi error_code string "(int \<times> int option) option"
  | ThrownError string
  | ThrownString string
  | ThrownOther "string option" string

record serialized_error =
  ze_code :: error_code
  ze_message :: string
  ze_data :: "(int \<times> int option) option"

fun serializeUnknownErrorMessage :: "thrown \<Rightarrow> string" where
  "serializeUnknownErrorMessage (ThrownString s) = s"
| "serializeUnknownErrorMessage (ThrownOther json text) = (case json of Some j \<Rightarrow> j | None \<Rightarrow> text)"
| "serializeUnknownErrorMessage _ = ''''"

definition serializeError :: "thrown \<Rightarrow> serialized_error" where
  "serializeError err =
     (case err of
        ThrownApi code message data \<Rightarrow> \<lparr>ze_code = code, ze_message = message, ze_data = data\<rparr>
      | ThrownError message \<Rightarrow> \<lparr>ze_code = Unexpected, ze_message = message, ze_data = None\<rparr>
      | ThrownInvalid message \<Rightarrow> \<lparr>ze_code = Unexpected, ze_message = message, ze_data = None\<rparr>
      | _ \<Rightarrow> \<lparr>ze_code = Unexpected, ze_message = serializeUnknownErrorMessage err, ze_data = None\<rparr>)"

datatype 'a runtime_result = HandlerSuccess 'a | HandlerFailure serialized_error failure_reason

definition caught :: "thrown \<Rightarrow> 'a runtime_result" where
  "caught err =
     HandlerFailure (serializeError err) (case err of ThrownInvalid _ \<Rightarrow> InvalidRequest | _ \<Rightarrow> Runtime)"

text \<open>The errors of the filesystem cache, with the messages of \<open>hook.ts\<close>.\<close>

fun session_thrown :: "(archive_error \<Rightarrow> string) \<Rightarrow> session_error \<Rightarrow> thrown" where
  "session_thrown archive_message AlreadyActive = ThrownError ''A filesystem cache analysis is already active''"
| "session_thrown archive_message ChangedUnexpectedly =
     ThrownError ''The active filesystem cache analysis changed unexpectedly''"
| "session_thrown archive_message NotActive = ThrownError ''No filesystem cache analysis is active''"
| "session_thrown archive_message (BeginFailed e) = ThrownError (archive_message e)"

section \<open>The filesystem cache of a request\<close>

text \<open>
  What the handler has: whether the hook is installed, the process, and the message of an error of
  the archive. A session is given by its number.
\<close>

record handler_env =
  he_installed :: bool
  he_process :: process_env
  he_archive_message :: "archive_error \<Rightarrow> string"

definition beginFilesystemCacheAnalysis ::
  "handler_env \<Rightarrow> analyze_project_request \<Rightarrow> session_state \<Rightarrow> (thrown + nat option) \<times> session_state" where
  "beginFilesystemCacheAnalysis env request s =
     (case rq_filesystemCache request of
        None \<Rightarrow> (Inr None, s)
      | Some cache \<Rightarrow>
          if Option.bind (rq_configuration request) pc_sonarlint = Some True
          then (Inl (ThrownInvalid ''filesystem_cache must not be configured for SonarQube for IDE analysis''), s)
          else
            (case truthy_string (fc_archivePath cache) of
               None \<Rightarrow> (Inl (ThrownInvalid ''filesystem_cache.archive_path is required''), s)
             | Some archivePath \<Rightarrow>
                 (case truthy_string (Option.bind (rq_configuration request) pc_baseDir) of
                    None \<Rightarrow> (Inl (ThrownInvalid ''configuration.base_dir is required''), s)
                  | Some baseDir \<Rightarrow>
                      if \<not> he_installed env
                      then (Inl (ThrownInvalid ''filesystem_cache requires an initialized analysis worker''), s)
                      else
                        (case beginAnalysis (he_process env) s archivePath baseDir of
                           (Inl e, s') \<Rightarrow> (Inl (session_thrown (he_archive_message env) e), s')
                         | (Inr i, s') \<Rightarrow> (Inr (Some i), s')))))"

section \<open>An analysis\<close>

text \<open>
  The file stores that \<open>initFileStoresForAnalysis\<close> fills: the files to analyze and the configuration
  files.
\<close>

record ('p, 'o) file_stores =
  fs_files :: "(string, analyzable_file) js_map"
  fs_tsconfigs :: "('p, 'o) tsconfig_store"

definition request_thrown :: "thrown request_error \<Rightarrow> thrown" where
  "request_thrown e = (case e of InvalidRequestError m \<Rightarrow> ThrownInvalid m | OtherError t \<Rightarrow> t)"

text \<open>The environment of the analysis of a normalized request; the rest of it is in \<open>E\<close>.\<close>

definition analysis_env_of ::
  "('p, 'o, 'ast, 'tree) analysis_env \<Rightarrow> sanitized_input \<Rightarrow> ('p, 'o) file_stores \<Rightarrow> ('p, 'o, 'ast, 'tree) analysis_env" where
  "analysis_env_of E input stores =
     E\<lparr>ae_files := fs_files stores, ae_config := si_configuration input, ae_hasRules := si_rules input \<noteq> []\<rparr>"

definition outcome_thrown :: "outcome \<Rightarrow> thrown" where
  "outcome_thrown oc = (case oc of Thrown m \<Rightarrow> ThrownError m | _ \<Rightarrow> ThrownError '''')"

text \<open>
  The operation inside \<open>withAnalysisCancellation\<close>: it is normalized, then analyzed; every event goes
  to the channel together with the path map.
\<close>

definition analyze_request ::
  "thrown request_env \<Rightarrow> (configuration \<Rightarrow> analyzable_files option \<Rightarrow> thrown + ('p, 'o) file_stores)
   \<Rightarrow> ('p, 'o, 'ast, 'tree) analysis_env \<Rightarrow> nat \<Rightarrow> 'ast source_caches \<Rightarrow> analyze_project_request
   \<Rightarrow> (thrown + analysis_output \<times> path_map) \<times> (incremental_result \<times> path_map) list" where
  "analyze_request R init_stores E fuel sources request =
     (case normalizeAnalyzeProjectRequest R init_stores request of
        Inl e \<Rightarrow> (Inl (request_thrown e), [])
      | Inr (input, stores) \<Rightarrow>
          (let (r, events, _) = analyzeProjectWithCancellation (analysis_env_of E input stores) fuel (fs_tsconfigs stores) sources
           in (map_sum outcome_thrown (\<lambda>out. (out, si_pathMap input)) r, map (\<lambda>e. (e, si_pathMap input)) events)))"

definition toUnaryResponseResult :: "(analysis_output \<times> path_map) runtime_result \<Rightarrow> unary_response runtime_result" where
  "toUnaryResponseResult result =
     (case result of
        HandlerFailure e reason \<Rightarrow> HandlerFailure e reason
      | HandlerSuccess (output, pathMap) \<Rightarrow> HandlerSuccess (toAnalyzeProjectUnaryResponse output pathMap))"

definition toVoidResult :: "'a runtime_result \<Rightarrow> unit runtime_result" where
  "toVoidResult result = (case result of HandlerFailure e reason \<Rightarrow> HandlerFailure e reason | HandlerSuccess _ \<Rightarrow> HandlerSuccess ())"

section \<open>The two forms of a response\<close>

lemma normalized_stores:
  assumes "normalizeAnalyzeProjectRequest R init_stores request = Inr (input, stores)"
  shows "\<exists>c files. init_stores c files = Inr stores"
  using assms
  apply (clarsimp simp: normalizeAnalyzeProjectRequest_def)
  subgoal for c files by (cases "init_stores c (map_option fst files)") auto
  done

text \<open>What a client of the stream collects.\<close>

definition collect_response ::
  "string + stream_response \<Rightarrow> (string, result_message) js_map \<Rightarrow> (string, result_message) js_map" where
  "collect_response r m = (case r of Inr (FileResultResponse path result) \<Rightarrow> js_set path result m | _ \<Rightarrow> m)"

definition absolute_files :: "(configuration \<Rightarrow> analyzable_files option \<Rightarrow> thrown + ('p, 'o) file_stores) \<Rightarrow> bool" where
  "absolute_files init_stores \<longleftrightarrow>
     (\<forall>c files stores. init_stores c files = Inr stores \<longrightarrow>
        distinct (js_keys (fs_files stores)) \<and> (\<forall>f\<in>set (js_keys (fs_files stores)). starts_with f ''/''))"

lemma absolute_no_index: "starts_with f ''/'' \<Longrightarrow> array_index f = None"
  by (cases f; cases "tl f") (auto simp: array_index_def starts_with_def)

lemma object_entries_plain: "(\<And>k. k \<in> set (js_keys m) \<Longrightarrow> array_index k = None) \<Longrightarrow> object_entries m = m"
proof -
  assume "\<And>k. k \<in> set (js_keys m) \<Longrightarrow> array_index k = None"
  then have none: "array_index (fst x) = None" if "x \<in> set m" for x using that by simp
  have "filter (\<lambda>(k, v). array_index k \<noteq> None) m = []" using none by (auto simp: filter_empty_conv)
  moreover have "filter (\<lambda>(k, v). array_index k = None) m = m" using none by (auto simp: filter_id_conv)
  ultimately show ?thesis by (simp add: object_entries_def)
qed

lemma collect_file_events:
  assumes "distinct (map fst rs)" "final \<noteq> ErrorEvent" "\<And>f r. final \<noteq> FileResultEvent f r"
  shows "collect_events (file_events rs @ [final]) = rs"
proof -
  have "fold collect_event (file_events rs) m = m @ rs" if "distinct (map fst m @ map fst rs)" for m
    using that
  proof (induction rs arbitrary: m)
    case (Cons x rs)
    have "js_set (fst x) (snd x) m = m @ [x]" using Cons.prems js_set_fresh [of "fst x" m "snd x"] by auto
    then show ?case
      using Cons.IH [of "m @ [x]"] Cons.prems by (auto simp: file_events_def collect_event_def split: prod.split)
  qed (simp add: file_events_def)
  then show ?thesis using assms by (cases final) (auto simp: collect_events_def collect_event_def)
qed

lemma collect_file_responses:
  "fold collect_response (map (\<lambda>e. toAnalyzeProjectStreamResponse e pm) (file_events rs)) m
     = fold (\<lambda>(f, r) files. js_set (restorePath f pm) (toProjectAnalysisFileResult r pm) files) rs m"
  by (induction rs arbitrary: m) (auto simp: file_events_def collect_response_def)

text \<open>A run that returns sends results of different files, and one more event.\<close>

lemma streamed_events:
  assumes "distinct_sources E" "distinct (js_keys (ae_files E))"
    "analyzeProjectWithCancellation (streaming E) fuel store sources = (Inr out, events, s')"
  shows "\<exists>rs final. events = file_events rs @ [final] \<and> distinct (map fst rs) \<and> set (map fst rs) \<subseteq> set (js_keys (ae_files E))
    \<and> (final = CancelledEvent \<or> final = MetaEvent (ao_meta out))"
proof -
  have none: "ae_linterError (streaming E) = None"
    using analyzeProject_linter_error(1) [OF assms(3)] by (cases "ae_linterError (streaming E)") auto
  obtain oc where oc: "analyze_pending (streaming E) fuel (start_state (streaming E) store sources) = (oc, s')"
    "oc \<noteq> Returned \<Longrightarrow> Inr out = (Inl oc :: outcome + analysis_output)"
    "oc = Returned \<Longrightarrow> \<exists>out'. Inr out = (Inr out' :: outcome + analysis_output) \<and> (out', events) = finish_analysis (streaming E) s'"
    using analyzeProject_run [OF assms(3) none] by blast
  have fin: "oc = Returned" "(out, events) = finish_analysis (streaming E) s'" using oc(2,3) by auto
  have "distinct_sources (streaming E)" using assms(1) by (simp add: distinct_sources_def)
  then obtain rs where rs: "sent_results (streaming E) (oc = Returned) s' rs"
    using run_of_project [of "streaming E" "start_state (streaming E) store sources" store sources fuel oc s'] assms(2) oc(1)
    by auto
  then have "rs_events s' = file_events rs" "distinct (map fst rs)" "set (map fst rs) \<subseteq> set (js_keys (ae_files E))"
    unfolding sent_results_def by simp_all
  then show ?thesis
    using fin(2) by (auto simp: finish_analysis_def isAnalysisCancelled_def Let_def split: if_splits)
qed

lemma analysis_env_of_channel:
  "analysis_env_of (E\<lparr>ae_channel := b\<rparr>) input stores = (analysis_env_of E input stores)\<lparr>ae_channel := b\<rparr>"
  by (simp add: analysis_env_of_def)

text \<open>
  C34. The two forms of a response agree: the unary response has exactly the results that a client of
  the stream collects from the responses, in the same order, under the paths of the request, and the
  same warnings; and a request that fails in one form fails in the same way in the other.
\<close>

theorem unary_response_collects_stream:
  assumes "absolute_files init_stores" "distinct_sources E"
    "analyze_request R init_stores (streaming E) fuel sources request = (r, events)"
  shows "case r of
      Inl err \<Rightarrow> analyze_request R init_stores (unary E) fuel sources request = (Inl err, [])
    | Inr (out, pathMap) \<Rightarrow>
        (\<exists>out'. analyze_request R init_stores (unary E) fuel sources request = (Inr (out', pathMap), [])
          \<and> toAnalyzeProjectUnaryResponse out' pathMap =
              \<lparr>ur_files = fold collect_response (map (\<lambda>(e, pm). toAnalyzeProjectStreamResponse e pm) events) [],
               ur_meta = toProjectAnalysisMeta (ao_meta out)\<rparr>)"
proof (cases "normalizeAnalyzeProjectRequest R init_stores request")
  case (Inl e)
  then show ?thesis using assms(3) by (auto simp: analyze_request_def)
next
  case (Inr n)
  obtain input stores where n: "n = (input, stores)" by (cases n)
  have stores: "distinct (js_keys (fs_files stores))" "\<And>f. f \<in> set (js_keys (fs_files stores)) \<Longrightarrow> starts_with f ''/''"
    using normalized_stores [OF Inr [unfolded n]] assms(1) unfolding absolute_files_def by blast+
  let ?E = "analysis_env_of E input stores"
  have E: "distinct_sources ?E" "ae_files ?E = fs_files stores"
    using assms(2) by (simp_all add: analysis_env_of_def distinct_sources_def)
  obtain q evs s' where run: "analyzeProjectWithCancellation (streaming ?E) fuel (fs_tsconfigs stores) sources = (q, evs, s')"
    by (metis prod_cases3)
  then obtain s'' where run': "analyzeProjectWithCancellation (unary ?E) fuel (fs_tsconfigs stores) sources
      = (map_sum id (\<lambda>out. out\<lparr>ao_files := collect_events evs\<rparr>) q, [], s'')"
    using collected_run by blast
  have eq: "(r, events) = (map_sum outcome_thrown (\<lambda>out. (out, si_pathMap input)) q, map (\<lambda>e. (e, si_pathMap input)) evs)"
    using assms(3) Inr n run by (simp add: analyze_request_def analysis_env_of_channel)
  show ?thesis
  proof (cases q)
    case (Inl oc)
    then show ?thesis using eq Inr n run' \<open>normalizeAnalyzeProjectRequest R init_stores request = _\<close>
      by (simp add: analyze_request_def analysis_env_of_channel)
  next
    case q: (Inr out)
    obtain rs final where rs: "evs = file_events rs @ [final]" "distinct (map fst rs)"
      "set (map fst rs) \<subseteq> set (js_keys (fs_files stores))" "final = CancelledEvent \<or> final = MetaEvent (ao_meta out)"
      using streamed_events [OF E(1) _ run [unfolded q]] stores(1) E(2) by auto
    have collected: "collect_events evs = rs" unfolding rs(1) using rs(2,4) by (intro collect_file_events) auto
    have plain: "object_entries rs = rs" using rs(3) stores(2) by (intro object_entries_plain absolute_no_index) blast
    have "fold collect_response (map (\<lambda>e. toAnalyzeProjectStreamResponse e pm) evs) []
        = fold (\<lambda>(f, r) files. js_set (restorePath f pm) (toProjectAnalysisFileResult r pm) files) rs []" for pm
      using rs(4) by (auto simp: rs(1) collect_file_responses collect_response_def)
    then show ?thesis
      using eq q Inr n run' collected plain
      by (auto simp: analyze_request_def analysis_env_of_channel toAnalyzeProjectUnaryResponse_def o_def)
  qed
qed

definition sample_handler :: "thrown request_env" where
  "sample_handler = \<lparr>env_cwd = ''/'', env_glob = (\<lambda>p f. f = p), env_angular = (\<lambda>f d. False), env_bom = (\<lambda>c. False),
     env_read = (\<lambda>f. Inl (ThrownError ''ENOENT''))\<rparr>"

definition sample_stores :: "configuration \<Rightarrow> analyzable_files option \<Rightarrow> thrown + (string list, unit) file_stores" where
  "sample_stores c files = Inr \<lparr>fs_files = ae_files (sample_project 9), fs_tsconfigs = sample_store\<rparr>"

definition sample_analysis ::
  "bool \<Rightarrow> (thrown + analysis_output \<times> path_map) \<times> (incremental_result \<times> path_map) list" where
  "sample_analysis b =
     analyze_request sample_handler sample_stores ((sample_project 9)\<lparr>ae_channel := b\<rparr>) 5
       \<lparr>sc_contents = Map.empty, sc_parsed = Map.empty, sc_context = None\<rparr> (Request_Properties.sample_request (Some 1))"

lemma sample_analysis_events:
  "\<not> isl (fst (sample_analysis True))" "event_files (map fst (snd (sample_analysis True))) = [''/p/a.ts'', ''/p/b.js'', ''end'']"
  by code_simp+

lemma sample_responses:
  "js_keys (fold collect_response (map (\<lambda>(e, pm). toAnalyzeProjectStreamResponse e pm) (snd (sample_analysis True))) [])
     = [''/p/a.ts'', ''/p/b.js'']"
  by code_simp

theorem unary_response_collects_stream_witness:
  "\<exists>out pathMap. sample_analysis False = (Inr (out, pathMap), [])
    \<and> js_keys (ur_files (toAnalyzeProjectUnaryResponse out pathMap)) = [''/p/a.ts'', ''/p/b.js'']"
proof -
  have stores: "absolute_files sample_stores" by (auto simp: absolute_files_def sample_stores_def sample_project_def starts_with_def)
  obtain out pathMap events where run: "sample_analysis True = (Inr (out, pathMap), events)"
    using sample_analysis_events(1) by (cases "sample_analysis True"; cases "fst (sample_analysis True)") auto
  note responses = unary_response_collects_stream
    [OF stores sample_project_ok(2) run [unfolded sample_analysis_def], folded sample_analysis_def, unfolded sum.case prod.case]
  then show ?thesis using run sample_responses by auto
qed

end
