(* ===== verification/Worker_Thread.thy ===== *)
theory Worker_Thread
  imports Analysis_Worker FS_Properties
begin

text \<open>
  The worker thread of the server, \<open>packages/grpc/src/analyze-project-worker.ts\<close> with the control flow of
  \<open>analyze-project-handle-request.ts\<close>, and the scope of a cancellation of
  \<open>packages/analysis/src/analyzeProject.ts\<close>: a state machine, since the handlers of messages overlap at
  every \<open>await\<close>.
\<close>

section \<open>The thread\<close>

text \<open>
  An analysis that is under way: its message, whether it streams, the status object of its
  cancellation scope and its session of the filesystem cache. A status object has a number;
  \<open>wk_status\<close> is \<open>analysisStatus\<close>, with its flag.
\<close>

record thread_run =
  tr_streams :: bool
  tr_status :: nat
  tr_session :: "nat option"

datatype thread_output =
    EventOut nat stream_response
  | StreamDone nat "unit runtime_result"
  | UnaryDone nat "unary_response runtime_result"
  | CancelDone nat "unit runtime_result"

record thread =
  th_runs :: "nat \<rightharpoonup> thread_run"
  th_status :: "(nat \<times> bool) option"
  th_next :: nat
  th_sessions :: session_state
  th_posted :: "thread_output list"

definition new_thread :: "disk \<Rightarrow> thread" where
  "new_thread d = \<lparr>th_runs = Map.empty, th_status = None, th_next = 0, th_sessions = no_session d, th_posted = []\<rparr>"

definition post_out :: "thread_output \<Rightarrow> thread \<Rightarrow> thread" where
  "post_out m t = t\<lparr>th_posted := th_posted t @ [m]\<rparr>"

definition post_result :: "nat \<Rightarrow> bool \<Rightarrow> (analysis_output \<times> path_map) runtime_result \<Rightarrow> thread \<Rightarrow> thread" where
  "post_result rid streams result =
     post_out (if streams then StreamDone rid (toVoidResult result) else UnaryDone rid (toUnaryResponseResult result))"

definition cancelAnalysis :: "thread \<Rightarrow> bool \<times> thread" where
  "cancelAnalysis t =
     (case th_status t of None \<Rightarrow> (False, t) | Some (i, _) \<Rightarrow> (True, t\<lparr>th_status := Some (i, True)\<rparr>))"

definition thread_cancelled :: "thread \<Rightarrow> bool" where
  "thread_cancelled t = (case th_status t of None \<Rightarrow> False | Some (_, cancelled) \<Rightarrow> cancelled)"

text \<open>A request arrives: up to the first \<open>await\<close>, in a new cancellation scope.\<close>

definition receive_analyze :: "handler_env \<Rightarrow> nat \<Rightarrow> bool \<Rightarrow> analyze_project_request \<Rightarrow> thread \<Rightarrow> thread" where
  "receive_analyze env rid streams request t =
     (case beginFilesystemCacheAnalysis env request (th_sessions t) of
        (Inl e, s) \<Rightarrow> post_result rid streams (caught e) (t\<lparr>th_sessions := s\<rparr>)
      | (Inr session, s) \<Rightarrow>
          t\<lparr>th_sessions := s, th_status := Some (th_next t, False), th_next := th_next t + 1,
            th_runs := (th_runs t)(rid \<mapsto> \<lparr>tr_streams = streams, tr_status = th_next t, tr_session = session\<rparr>)\<rparr>)"

text \<open>
  An event that the analysis of a request sends. Without a channel there are none; an event that cannot
  be converted is not posted, and the analysis gets the message of the exception.
\<close>

definition run_event :: "nat \<Rightarrow> bool \<Rightarrow> incremental_result \<times> path_map \<Rightarrow> thread \<Rightarrow> (string + unit) \<times> thread" where
  "run_event rid streams e t =
     (if \<not> streams then (Inr (), t)
      else case toAnalyzeProjectStreamResponse (fst e) (snd e) of
             Inl message \<Rightarrow> (Inl message, t)
           | Inr response \<Rightarrow> (Inr (), post_out (EventOut rid response) t))"

text \<open>
  An analysis ends: its scope is left, its session ended, whose error replaces the result, and the
  result is posted. \<open>None\<close> if the flush of the archive does not return.
\<close>

definition leave_scope :: "thread_run \<Rightarrow> thread \<Rightarrow> thread" where
  "leave_scope r t =
     (case th_status t of
        None \<Rightarrow> t
      | Some (i, _) \<Rightarrow> if i = tr_status r then t\<lparr>th_status := None\<rparr> else t)"

definition run_finished ::
  "handler_env \<Rightarrow> nat \<Rightarrow> thrown + analysis_output \<times> path_map \<Rightarrow> thread \<Rightarrow> thread option" where
  "run_finished env rid outcome t =
     (case th_runs t rid of
        None \<Rightarrow> Some t
      | Some r \<Rightarrow>
          (let t1 = (leave_scope r t)\<lparr>th_runs := (th_runs t)(rid := None)\<rparr>;
               finish = (\<lambda>res. post_result rid (tr_streams r)
                 (case res of Inl e \<Rightarrow> caught e | Inr x \<Rightarrow> HandlerSuccess x))
           in case tr_session r of
                None \<Rightarrow> Some (finish outcome t1)
              | Some i \<Rightarrow>
                  (case end_session (he_process env) (th_sessions t1) i of
                     None \<Rightarrow> None
                   | Some (Inl e, s) \<Rightarrow> Some (finish (Inl (session_thrown (he_archive_message env) e)) (t1\<lparr>th_sessions := s\<rparr>))
                   | Some (Inr _, s) \<Rightarrow> Some (finish outcome (t1\<lparr>th_sessions := s\<rparr>)))))"

definition receive_cancel :: "nat \<Rightarrow> thread \<Rightarrow> thread" where
  "receive_cancel rid t =
     (let (cancelled, t1) = cancelAnalysis t in
      post_out (CancelDone rid (if cancelled then HandlerSuccess ()
        else HandlerFailure (serializeError (ThrownError ''No analysis to cancel'')) Runtime)) t1)"

text \<open>
  The life of a thread: messages with new numbers, events that an analysis sends while it is under way
  and ends of analyses, with whatever outcome, and what an analysis does to the files of its session. \<open>l\<close> is the list of the numbers of requests so far.
\<close>

inductive thread_reached :: "handler_env \<Rightarrow> disk \<Rightarrow> nat list \<Rightarrow> thread \<Rightarrow> bool" for env d where
  reached_new: "thread_reached env d [] (new_thread d)"
| reached_analyze: "thread_reached env d l t \<Longrightarrow> rid \<notin> set l \<Longrightarrow>
    thread_reached env d (l @ [rid]) (receive_analyze env rid streams request t)"
| reached_event: "thread_reached env d l t \<Longrightarrow> th_runs t rid = Some r \<Longrightarrow>
    thread_reached env d l (snd (run_event rid (tr_streams r) e t))"
| reached_finish: "thread_reached env d l t \<Longrightarrow> run_finished env rid outcome t = Some t' \<Longrightarrow> thread_reached env d l t'"
| reached_cancel: "thread_reached env d l t \<Longrightarrow> rid \<notin> set l \<Longrightarrow> thread_reached env d (l @ [rid]) (receive_cancel rid t)"
| reached_use: "thread_reached env d l t \<Longrightarrow> ss_active (th_sessions t) = Some (i, ar) \<Longrightarrow>
    thread_reached env d l (t\<lparr>th_sessions := (th_sessions t)\<lparr>ss_active := Some (i, ar'), ss_descriptors := fds\<rparr>\<rparr>)"

section \<open>What is posted\<close>

fun out_id :: "thread_output \<Rightarrow> nat" where
  "out_id (EventOut rid _) = rid"
| "out_id (StreamDone rid _) = rid"
| "out_id (UnaryDone rid _) = rid"
| "out_id (CancelDone rid _) = rid"

fun is_event :: "thread_output \<Rightarrow> bool" where
  "is_event (EventOut _ _) = True"
| "is_event _ = False"

definition outputs :: "nat \<Rightarrow> thread \<Rightarrow> thread_output list" where
  "outputs rid t = filter (\<lambda>m. out_id m = rid) (th_posted t)"

text \<open>The outputs of a request: events while its analysis is under way, then one completion.\<close>

definition answered :: "nat \<Rightarrow> thread \<Rightarrow> bool" where
  "answered rid t \<longleftrightarrow>
     (if th_runs t rid \<noteq> None then list_all is_event (outputs rid t)
      else (\<exists>es m. outputs rid t = es @ [m] \<and> list_all is_event es \<and> \<not> is_event m))"

definition outputs_ok :: "nat list \<Rightarrow> thread \<Rightarrow> bool" where
  "outputs_ok l t \<longleftrightarrow>
     (\<forall>rid\<in>set l. answered rid t) \<and> (\<forall>rid. th_runs t rid \<noteq> None \<longrightarrow> rid \<in> set l) \<and> (\<forall>m\<in>set (th_posted t). out_id m \<in> set l)"

lemma post_out_fields [simp]:
  "th_runs (post_out m t) = th_runs t" "th_status (post_out m t) = th_status t" "th_next (post_out m t) = th_next t"
  "th_sessions (post_out m t) = th_sessions t" "th_posted (post_out m t) = th_posted t @ [m]"
  by (simp_all add: post_out_def)

lemma post_result_fields [simp]:
  "th_runs (post_result rid b r t) = th_runs t" "th_status (post_result rid b r t) = th_status t"
  "th_next (post_result rid b r t) = th_next t" "th_sessions (post_result rid b r t) = th_sessions t"
  by (simp_all add: post_result_def)

text \<open>Two kinds of change: an output is posted for a request, or a new request starts to run.\<close>

definition posts_for :: "nat \<Rightarrow> thread \<Rightarrow> thread \<Rightarrow> bool" where
  "posts_for rid t t' \<longleftrightarrow>
     (\<exists>m. out_id m = rid \<and> th_posted t' = th_posted t @ [m] \<and> (is_event m \<longrightarrow> th_runs t' rid \<noteq> None)
        \<and> (\<not> is_event m \<longrightarrow> th_runs t' rid = None))
     \<and> (\<forall>j. j \<noteq> rid \<longrightarrow> th_runs t' j = th_runs t j)"

lemma post_result_posts:
  "th_posted t1 = th_posted t \<Longrightarrow> th_runs t1 rid = None \<Longrightarrow> (\<And>j. j \<noteq> rid \<Longrightarrow> th_runs t1 j = th_runs t j) \<Longrightarrow>
    posts_for rid t (post_result rid b r t1)"
  by (auto simp: posts_for_def post_result_def)

lemma post_result_posts_end:
  "posts_for rid t (post_result rid b res ((leave_scope r t)\<lparr>th_runs := (th_runs t)(rid := None), th_sessions := s\<rparr>))"
  by (rule post_result_posts) (simp_all add: leave_scope_def split: option.split)

lemma outputs_posts:
  assumes "posts_for rid t t'" "outputs_ok l t" "rid \<in> set l \<longleftrightarrow> th_runs t rid \<noteq> None"
  shows "outputs_ok (if rid \<in> set l then l else l @ [rid]) t'"
proof -
  let ?l = "if rid \<in> set l then l else l @ [rid]"
  obtain m where m: "out_id m = rid" "th_posted t' = th_posted t @ [m]" "is_event m \<longrightarrow> th_runs t' rid \<noteq> None"
    "\<not> is_event m \<longrightarrow> th_runs t' rid = None" and other: "\<And>j. j \<noteq> rid \<Longrightarrow> th_runs t' j = th_runs t j"
    using assms(1) unfolding posts_for_def by blast
  have l: "set ?l = insert rid (set l)" by auto
  have before: "list_all is_event (outputs rid t)"
  proof (cases "rid \<in> set l")
    case True
    then show ?thesis using assms(2,3) by (auto simp: outputs_ok_def answered_def)
  next
    case False
    then have "outputs rid t = []" using assms(2) by (auto simp: outputs_ok_def outputs_def filter_empty_conv)
    then show ?thesis by simp
  qed
  have outs: "outputs j t' = (if j = rid then outputs rid t @ [m] else outputs j t)" for j
    using m(1,2) by (simp add: outputs_def)
  have "answered j t'" if "j \<in> set ?l" for j
  proof (cases "j = rid")
    case True
    then show ?thesis using m(3,4) before by (cases "is_event m") (simp_all add: answered_def outs)
  next
    case False
    then show ?thesis using that assms(2) other by (simp add: answered_def outs outputs_ok_def l)
  qed
  moreover have "j \<in> set ?l" if "th_runs t' j \<noteq> None" for j
    using that assms(2) other [of j] by (cases "j = rid") (auto simp: outputs_ok_def)
  moreover have "\<forall>x\<in>set (th_posted t'). out_id x \<in> set ?l"
    using m(1,2) assms(2) by (auto simp: outputs_ok_def)
  ultimately show ?thesis unfolding outputs_ok_def by blast
qed

lemma outputs_same: "th_posted t' = th_posted t \<Longrightarrow> th_runs t' = th_runs t \<Longrightarrow> outputs_ok l t' = outputs_ok l t"
  by (simp add: outputs_ok_def answered_def outputs_def)

lemma outputs_new_run:
  assumes "outputs_ok l t" "rid \<notin> set l" "th_posted t' = th_posted t" "th_runs t' = (th_runs t)(rid \<mapsto> r)"
  shows "outputs_ok (l @ [rid]) t'"
proof -
  have "outputs rid t' = []" using assms(1-3) by (auto simp: outputs_ok_def outputs_def filter_empty_conv)
  then have "answered rid t'" by (simp add: answered_def assms(4))
  moreover have "answered j t'" if "j \<in> set l" for j
    using that assms by (auto simp: answered_def outputs_def outputs_ok_def)
  ultimately show ?thesis using assms by (auto simp: outputs_ok_def)
qed

lemma leave_scope_fields [simp]:
  "th_runs (leave_scope r t) = th_runs t" "th_next (leave_scope r t) = th_next t"
  "th_sessions (leave_scope r t) = th_sessions t" "th_posted (leave_scope r t) = th_posted t"
  by (simp_all add: leave_scope_def split: option.split)

lemma cancelAnalysis_fields:
  "th_runs (snd (cancelAnalysis t)) = th_runs t" "th_next (snd (cancelAnalysis t)) = th_next t"
  "th_sessions (snd (cancelAnalysis t)) = th_sessions t" "th_posted (snd (cancelAnalysis t)) = th_posted t"
  "th_status (snd (cancelAnalysis t)) = map_option (\<lambda>(i, _). (i, True)) (th_status t)"
  by (simp_all add: cancelAnalysis_def split: option.split)

text \<open>The end of an analysis, in one line: the session's own state and result \<open>res\<close>.\<close>

lemma run_finished_cases:
  assumes "run_finished env rid outcome t = Some t'" "th_runs t rid = Some r"
  obtains s res where "t' = post_result rid (tr_streams r) res
      ((leave_scope r t)\<lparr>th_runs := (th_runs t)(rid := None), th_sessions := s\<rparr>)"
    "case tr_session r of None \<Rightarrow> s = th_sessions t
      | Some i \<Rightarrow> \<exists>q. end_session (he_process env) (th_sessions t) i = Some (q, s)"
proof (cases "tr_session r")
  case None
  define f where "f = (th_runs t)(rid := None)"
  define res where "res = (case outcome of Inl x \<Rightarrow> caught x | Inr x \<Rightarrow> HandlerSuccess x)"
  have "t' = post_result rid (tr_streams r) res ((leave_scope r t)\<lparr>th_runs := f\<rparr>)"
    using assms None by (simp add: run_finished_def Let_def f_def res_def)
  also have "(leave_scope r t)\<lparr>th_runs := f\<rparr> = (leave_scope r t)\<lparr>th_runs := f, th_sessions := th_sessions t\<rparr>"
    by (rule thread.equality) simp_all
  finally show ?thesis unfolding f_def by (rule that) (simp add: None)
next
  case (Some i)
  then obtain q s where "end_session (he_process env) (th_sessions t) i = Some (q, s)"
    using assms by (cases "end_session (he_process env) (th_sessions t) i") (auto simp: run_finished_def Let_def)
  then show ?thesis using assms that [of _ s] Some by (cases q) (auto simp: run_finished_def Let_def)
qed

lemma receive_analyze_cases:
  obtains (refused) s e where "beginFilesystemCacheAnalysis env request (th_sessions t) = (Inl e, s)"
      "receive_analyze env rid streams request t = post_result rid streams (caught e) (t\<lparr>th_sessions := s\<rparr>)"
  | (begun) s q where "beginFilesystemCacheAnalysis env request (th_sessions t) = (Inr q, s)"
      "receive_analyze env rid streams request t =
        t\<lparr>th_sessions := s, th_status := Some (th_next t, False), th_next := th_next t + 1,
          th_runs := (th_runs t)(rid \<mapsto> \<lparr>tr_streams = streams, tr_status = th_next t, tr_session = q\<rparr>)\<rparr>"
proof -
  obtain q s where b: "beginFilesystemCacheAnalysis env request (th_sessions t) = (q, s)"
    by (cases "beginFilesystemCacheAnalysis env request (th_sessions t)")
  show thesis
  proof (cases q)
    case (Inl e)
    show thesis by (rule refused [OF b [unfolded Inl]]) (simp add: receive_analyze_def b Inl)
  next
    case (Inr x)
    show thesis by (rule begun [OF b [unfolded Inr]]) (simp add: receive_analyze_def b Inr)
  qed
qed

lemma reached_outputs: "thread_reached env d l t \<Longrightarrow> outputs_ok l t"
proof (induction rule: thread_reached.induct)
  case reached_new
  then show ?case by (simp add: outputs_ok_def new_thread_def)
next
  case (reached_analyze l t rid streams request)
  show ?case
  proof (cases rule: receive_analyze_cases [of env request t rid streams])
    case (refused s e)
    have "th_runs t rid = None" using reached_analyze.IH reached_analyze.hyps(2) by (auto simp: outputs_ok_def)
    then have "posts_for rid t (receive_analyze env rid streams request t)"
      unfolding refused(2) by (intro post_result_posts) simp_all
    then show ?thesis using outputs_posts [OF _ reached_analyze.IH, of rid] reached_analyze.hyps(2) \<open>th_runs t rid = None\<close> by simp
  next
    case (begun s q)
    then show ?thesis by (intro outputs_new_run [OF reached_analyze.IH reached_analyze.hyps(2)]) simp_all
  qed
next
  case (reached_event l t rid r e)
  show ?case
  proof (cases "snd (run_event rid (tr_streams r) e t) = t")
    case True
    then show ?thesis using reached_event.IH by simp
  next
    case False
    then have "posts_for rid t (snd (run_event rid (tr_streams r) e t))"
      using reached_event.hyps(2) by (auto simp: posts_for_def run_event_def split: if_splits sum.splits)
    moreover have "rid \<in> set l" using reached_event by (auto simp: outputs_ok_def)
    ultimately show ?thesis using outputs_posts [OF _ reached_event.IH, of rid] reached_event.hyps(2) by auto
  qed
next
  case (reached_finish l t rid outcome t')
  show ?case
  proof (cases "th_runs t rid")
    case None
    then show ?thesis using reached_finish by (simp add: run_finished_def)
  next
    case (Some r)
    obtain s res where "t' = post_result rid (tr_streams r) res
        ((leave_scope r t)\<lparr>th_runs := (th_runs t)(rid := None), th_sessions := s\<rparr>)"
      by (rule run_finished_cases [OF reached_finish.hyps(2) Some])
    then have "posts_for rid t t'" by (metis post_result_posts_end)
    moreover have "rid \<in> set l" using Some reached_finish.IH by (auto simp: outputs_ok_def)
    ultimately show ?thesis using outputs_posts [OF _ reached_finish.IH, of rid] Some by auto
  qed
next
  case (reached_cancel l t rid)
  have none: "th_runs t rid = None" using reached_cancel.IH reached_cancel.hyps(2) by (auto simp: outputs_ok_def)
  then have "posts_for rid t (receive_cancel rid t)"
    by (simp add: posts_for_def receive_cancel_def case_prod_beta Let_def cancelAnalysis_fields)
  then show ?case using outputs_posts [OF _ reached_cancel.IH, of rid] reached_cancel.hyps(2) none by simp
next
  case (reached_use l t i ar ar' fds)
  have "outputs_ok l (t\<lparr>th_sessions := v\<rparr>) = outputs_ok l t" for v by (rule outputs_same) simp_all
  then show ?case using reached_use.IH by blast
qed

text \<open>
  C35. Every request to the worker is completed exactly once: as long as its analysis is under way
  there are only events for it, afterwards there is one completion, and no event follows it, whatever
  other requests, cancellations and failures come in between.
\<close>

theorem requests_completed_once:
  assumes "thread_reached env d l t" "rid \<in> set l"
  shows "if th_runs t rid \<noteq> None then list_all is_event (outputs rid t)
    else (\<exists>es m. outputs rid t = es @ [m] \<and> list_all is_event es \<and> \<not> is_event m)"
  using reached_outputs [OF assms(1)] assms(2) unfolding outputs_ok_def answered_def by blast

section \<open>Scopes and sessions\<close>

text \<open>
  The status object in use belongs to an analysis that is under way, and no two analyses share one; the
  active session of the filesystem cache belongs to the only analysis that has a session.
\<close>

definition scopes_ok :: "thread \<Rightarrow> bool" where
  "scopes_ok t \<longleftrightarrow>
     (\<forall>rid r. th_runs t rid = Some r \<longrightarrow> tr_status r < th_next t)
     \<and> (\<forall>a b r q. th_runs t a = Some r \<and> th_runs t b = Some q \<and> tr_status r = tr_status q \<longrightarrow> a = b)
     \<and> (\<forall>i c. th_status t = Some (i, c) \<longrightarrow> (\<exists>rid r. th_runs t rid = Some r \<and> tr_status r = i))"

definition sessions_ok :: "thread \<Rightarrow> bool" where
  "sessions_ok t \<longleftrightarrow>
     sessions_accounted (th_sessions t)
     \<and> (\<forall>rid r i. th_runs t rid = Some r \<and> tr_session r = Some i \<longrightarrow> (\<exists>ar. ss_active (th_sessions t) = Some (i, ar)))
     \<and> (\<forall>a b r q. th_runs t a = Some r \<and> th_runs t b = Some q \<and> tr_session r \<noteq> None \<and> tr_session q \<noteq> None \<longrightarrow> a = b)
     \<and> (\<forall>i ar. ss_active (th_sessions t) = Some (i, ar) \<longrightarrow> (\<exists>rid r. th_runs t rid = Some r \<and> tr_session r = Some i))"

lemma scopes_okI:
  assumes "\<And>rid r. th_runs t rid = Some r \<Longrightarrow> tr_status r < th_next t"
    "\<And>a b r q. th_runs t a = Some r \<Longrightarrow> th_runs t b = Some q \<Longrightarrow> tr_status r = tr_status q \<Longrightarrow> a = b"
    "\<And>i c. th_status t = Some (i, c) \<Longrightarrow> \<exists>rid r. th_runs t rid = Some r \<and> tr_status r = i"
  shows "scopes_ok t"
  using assms unfolding scopes_ok_def by blast

lemma scopes_okD:
  assumes "scopes_ok t"
  shows "th_runs t rid = Some r \<Longrightarrow> tr_status r < th_next t"
    "th_runs t a = Some r \<Longrightarrow> th_runs t b = Some q \<Longrightarrow> tr_status r = tr_status q \<Longrightarrow> a = b"
    "th_status t = Some (i, c) \<Longrightarrow> \<exists>rid r. th_runs t rid = Some r \<and> tr_status r = i"
  using assms unfolding scopes_ok_def by blast+

lemma sessions_okI:
  assumes "sessions_accounted (th_sessions t)"
    "\<And>rid r i. th_runs t rid = Some r \<Longrightarrow> tr_session r = Some i \<Longrightarrow> \<exists>ar. ss_active (th_sessions t) = Some (i, ar)"
    "\<And>a b r q i j. th_runs t a = Some r \<Longrightarrow> th_runs t b = Some q \<Longrightarrow> tr_session r = Some i \<Longrightarrow> tr_session q = Some j \<Longrightarrow> a = b"
    "\<And>i ar. ss_active (th_sessions t) = Some (i, ar) \<Longrightarrow> \<exists>rid r. th_runs t rid = Some r \<and> tr_session r = Some i"
  shows "sessions_ok t"
  using assms unfolding sessions_ok_def by blast

lemma sessions_okD:
  assumes "sessions_ok t"
  shows "sessions_accounted (th_sessions t)"
    "th_runs t rid = Some r \<Longrightarrow> tr_session r = Some i \<Longrightarrow> \<exists>ar. ss_active (th_sessions t) = Some (i, ar)"
    "th_runs t a = Some r \<Longrightarrow> th_runs t b = Some q \<Longrightarrow> tr_session r = Some i \<Longrightarrow> tr_session q = Some j \<Longrightarrow> a = b"
    "ss_active (th_sessions t) = Some (i, ar) \<Longrightarrow> \<exists>rid r. th_runs t rid = Some r \<and> tr_session r = Some i"
  using assms unfolding sessions_ok_def by blast+

lemma begin_cache_effect:
  assumes "beginFilesystemCacheAnalysis env request s = (q, s')" "sessions_accounted s"
  shows "sessions_accounted s'"
    "case q of Inr (Some i) \<Rightarrow> ss_active s = None \<and> (\<exists>ar. ss_active s' = Some (i, ar)) | _ \<Rightarrow> s' = s"
proof -
  have "s' = s \<and> (\<nexists>i. q = Inr (Some i))
    \<or> (\<exists>a b i. beginAnalysis (he_process env) s a b = (Inr i, s') \<and> q = Inr (Some i))
    \<or> (\<exists>a b e. beginAnalysis (he_process env) s a b = (Inl e, s') \<and> (\<exists>x. q = Inl x))"
    using assms(1) by (auto simp: beginFilesystemCacheAnalysis_def split: option.splits if_splits prod.splits sum.splits)
  moreover have "s' = s" if "beginAnalysis (he_process env) s a b = (Inl e, s')" for a b e
    using that by (auto simp: beginAnalysis_def split: if_splits sum.splits)
  moreover have "ss_active s = None \<and> (\<exists>ar. ss_active s' = Some (i, ar))"
    if "beginAnalysis (he_process env) s a b = (Inr i, s')" for a b i
  proof -
    have "ss_active s = None" using that by (cases "ss_active s") (simp_all add: beginAnalysis_def)
    then show ?thesis using that by (auto simp: beginAnalysis_def split: if_splits sum.splits)
  qed
  ultimately show "sessions_accounted s'"
    "case q of Inr (Some i) \<Rightarrow> ss_active s = None \<and> (\<exists>ar. ss_active s' = Some (i, ar)) | _ \<Rightarrow> s' = s"
    using accounted_begin [OF assms(2)] assms(2) by (auto split: sum.split option.split)
qed

lemma end_active_session:
  assumes "end_session env s i = Some (q, s')" "ss_active s = Some (i, ar)" "sessions_accounted s"
  shows "q = Inr () \<and> ss_active s' = None \<and> sessions_accounted s'"
proof -
  have "i \<notin> set (ss_ended s)" using assms(2,3) by (auto simp: sessions_accounted_def)
  then have "q = Inr () \<and> ss_active s' = None"
    using assms(1,2) by (auto simp: end_session_def)
  then show ?thesis using accounted_end [OF assms(3,1)] by simp
qed

lemma cancel_status_ok: "scopes_ok t \<Longrightarrow> scopes_ok (snd (cancelAnalysis t))"
  by (auto simp: scopes_ok_def cancelAnalysis_fields)

lemma scopes_same:
  "th_runs t' = th_runs t \<Longrightarrow> th_status t' = th_status t \<Longrightarrow> th_next t' = th_next t \<Longrightarrow> scopes_ok t' = scopes_ok t"
  by (simp add: scopes_ok_def)

lemma sessions_same: "th_runs t' = th_runs t \<Longrightarrow> th_sessions t' = th_sessions t \<Longrightarrow> sessions_ok t' = sessions_ok t"
  by (simp add: sessions_ok_def)

lemma leave_scope_status: "th_status (leave_scope r t) = (case th_status t of Some (i, c) \<Rightarrow> if i = tr_status r then None else Some (i, c) | None \<Rightarrow> None)"
  by (simp add: leave_scope_def split: option.split)

lemma scopes_finished:
  assumes "scopes_ok t" "th_runs t rid = Some r"
    "th_runs t' = (th_runs t)(rid := None)" "th_status t' = th_status (leave_scope r t)" "th_next t' = th_next t"
  shows "scopes_ok t'"
proof -
  have old: "th_runs t a = Some x \<and> a \<noteq> rid" if "th_runs t' a = Some x" for a x
    using that assms(3) by (auto split: if_splits)
  show ?thesis
  proof (rule scopes_okI)
    fix i c
    assume "th_status t' = Some (i, c)"
    then have i: "th_status t = Some (i, c)" "i \<noteq> tr_status r"
      using assms(4) by (auto simp: leave_scope_status split: option.splits if_splits prod.splits)
    obtain a q where a: "th_runs t a = Some q" "tr_status q = i" using scopes_okD(3) [OF assms(1) i(1)] by blast
    then have "a \<noteq> rid" using assms(2) i(2) by auto
    then show "\<exists>rid r. th_runs t' rid = Some r \<and> tr_status r = i" using a assms(3) by auto
  next
    fix a x
    assume h: "th_runs t' a = Some x"
    show "tr_status x < th_next t'" unfolding assms(5) by (rule scopes_okD(1) [OF assms(1) old [OF h, THEN conjunct1]])
  next
    fix a b x y
    assume h: "th_runs t' a = Some x" "th_runs t' b = Some y" "tr_status x = tr_status y"
    show "a = b" by (rule scopes_okD(2) [OF assms(1) old [OF h(1), THEN conjunct1] old [OF h(2), THEN conjunct1] h(3)])
  qed
qed

lemma sessions_finished:
  assumes "sessions_ok t" "th_runs t rid = Some r" "th_runs t' = (th_runs t)(rid := None)"
    "case tr_session r of None \<Rightarrow> th_sessions t' = th_sessions t
      | Some i \<Rightarrow> \<exists>q. end_session env (th_sessions t) i = Some (q, th_sessions t')"
  shows "sessions_ok t'"
proof -
  have old: "th_runs t a = Some x \<and> a \<noteq> rid" if "th_runs t' a = Some x" for a x
    using that assms(3) by (auto split: if_splits)
  show ?thesis
proof (cases "tr_session r")
  case None
  then have s: "th_sessions t' = th_sessions t" using assms(4) by simp
  show ?thesis
  proof (rule sessions_okI)
    fix i ar
    assume "ss_active (th_sessions t') = Some (i, ar)"
    then obtain a q where "th_runs t a = Some q" "tr_session q = Some i" using sessions_okD(4) [OF assms(1)] s by auto
    moreover from this have "a \<noteq> rid" using assms(2) None by auto
    ultimately show "\<exists>a q. th_runs t' a = Some q \<and> tr_session q = Some i" using assms(3) by auto
  next
    show "sessions_accounted (th_sessions t')" using sessions_okD(1) [OF assms(1)] s by simp
  next
    fix a x i
    assume "th_runs t' a = Some x" "tr_session x = Some i"
    then show "\<exists>ar. ss_active (th_sessions t') = Some (i, ar)"
      unfolding s using old by (intro sessions_okD(2) [OF assms(1)]) blast+
  next
    fix a b x y i j
    assume h: "th_runs t' a = Some x" "th_runs t' b = Some y" "tr_session x = Some i" "tr_session y = Some j"
    show "a = b" by (rule sessions_okD(3) [OF assms(1) old [OF h(1), THEN conjunct1] old [OF h(2), THEN conjunct1] h(3,4)])
  qed
next
  case (Some i)
  then obtain q where q: "end_session env (th_sessions t) i = Some (q, th_sessions t')" using assms(4) by auto
  obtain ar where "ss_active (th_sessions t) = Some (i, ar)" using sessions_okD(2) [OF assms(1,2) Some] by blast
  then have e: "ss_active (th_sessions t') = None" "sessions_accounted (th_sessions t')"
    using end_active_session [OF q] sessions_okD(1) [OF assms(1)] by blast+
  have none: "tr_session x \<noteq> Some j" if "th_runs t' a = Some x" for a x j
    using old [OF that] sessions_okD(3) [OF assms(1) _ assms(2) _ Some] by blast
  show ?thesis by (rule sessions_okI) (use e none in auto)
qed
qed

lemma receive_analyze_ok:
  assumes "scopes_ok t" "sessions_ok t" "th_runs t rid = None"
  shows "scopes_ok (receive_analyze env rid streams request t) \<and> sessions_ok (receive_analyze env rid streams request t)"
proof (cases rule: receive_analyze_cases [of env request t rid streams])
  case (refused s e)
  have "sessions_accounted (th_sessions t)" using assms(2) by (simp add: sessions_ok_def)
  then have "s = th_sessions t" using begin_cache_effect(2) [OF refused(1)] by simp
  then show ?thesis unfolding refused(2) using assms(1,2) by (simp add: scopes_ok_def sessions_ok_def)
next
  case (begun s q)
  have acc: "sessions_accounted (th_sessions t)" using assms(2) by (simp add: sessions_ok_def)
  note eff = begin_cache_effect [OF begun(1) acc]
  let ?t = "receive_analyze env rid streams request t"
  have old: "th_runs t a = Some x" if "th_runs ?t a = Some x" "a \<noteq> rid" for a x using that by (simp add: begun(2))
  have new: "tr_status x = th_next t" if "th_runs ?t rid = Some x" for x using that by (auto simp: begun(2))
  have less: "tr_status x < th_next t" if "th_runs ?t a = Some x" "a \<noteq> rid" for a x
    by (rule scopes_okD(1) [OF assms(1) old [OF that]])
  have "scopes_ok ?t"
  proof (rule scopes_okI)
    fix a x
    assume h: "th_runs ?t a = Some x"
    have "tr_status x \<le> th_next t"
    proof (cases "a = rid")
      case True
      then show ?thesis using new h by simp
    next
      case False
      then show ?thesis using less [OF h] by simp
    qed
    then show "tr_status x < th_next ?t" by (simp add: begun(2))
  next
    fix a b x y
    assume h: "th_runs ?t a = Some x" "th_runs ?t b = Some y" "tr_status x = tr_status y"
    consider "a = rid" "b = rid" | "a = rid" "b \<noteq> rid" | "a \<noteq> rid" "b = rid" | "a \<noteq> rid" "b \<noteq> rid" by blast
    then show "a = b"
    proof cases
      case 2
      then show ?thesis using new [of x] less [OF h(2)] h by simp
    next
      case 3
      then show ?thesis using new [of y] less [OF h(1)] h by simp
    next
      case 4
      show ?thesis by (rule scopes_okD(2) [OF assms(1) old [OF h(1) 4(1)] old [OF h(2) 4(2)] h(3)])
    qed simp
  next
    fix i c
    assume "th_status ?t = Some (i, c)"
    then show "\<exists>rid r. th_runs ?t rid = Some r \<and> tr_status r = i" by (auto simp: begun(2))
  qed
  moreover have "sessions_ok ?t"
  proof (cases q)
    case None
    then have "s = th_sessions t" using eff(2) by simp
    have "tr_session x = None" if "th_runs ?t rid = Some x" for x using that None by (auto simp: begun(2))
    then have was: "th_runs t a = Some x" if "th_runs ?t a = Some x" "tr_session x = Some i" for a x i
    proof (cases "a = rid")
      case True
      then show ?thesis using that \<open>\<And>x. th_runs ?t rid = Some x \<Longrightarrow> tr_session x = None\<close> [of x] by simp
    next
      case False
      then show ?thesis using old [OF that(1)] by simp
    qed
    show ?thesis
    proof (rule sessions_okI)
      fix i ar
      assume "ss_active (th_sessions ?t) = Some (i, ar)"
      then obtain a x where "th_runs t a = Some x" "tr_session x = Some i"
        using sessions_okD(4) [OF assms(2)] \<open>s = _\<close> by (auto simp: begun(2))
      moreover from this have "a \<noteq> rid" using assms(3) by auto
      ultimately show "\<exists>a x. th_runs ?t a = Some x \<and> tr_session x = Some i" by (auto simp: begun(2))
    next
      show "sessions_accounted (th_sessions ?t)" using eff(1) by (simp add: begun(2))
    next
      fix a x i
      assume h: "th_runs ?t a = Some x" "tr_session x = Some i"
      have "th_sessions ?t = th_sessions t" using \<open>s = _\<close> by (simp add: begun(2))
      then show "\<exists>ar. ss_active (th_sessions ?t) = Some (i, ar)"
        using sessions_okD(2) [OF assms(2) was [OF h] h(2)] by simp
    next
      fix a b x y i j
      assume h: "th_runs ?t a = Some x" "th_runs ?t b = Some y" "tr_session x = Some i" "tr_session y = Some j"
      show "a = b" by (rule sessions_okD(3) [OF assms(2) was [OF h(1,3)] was [OF h(2,4)] h(3,4)])
    qed
  next
    case (Some i)
    then have e: "ss_active (th_sessions t) = None" "\<exists>ar. ss_active s = Some (i, ar)" using eff(2) by simp_all
    have none: "tr_session x = None" if "th_runs t a = Some x" for a x
      using sessions_okD(2) [OF assms(2) that] e(1) by (cases "tr_session x") auto
    have only: "a = rid \<and> j = i" if "th_runs ?t a = Some x" "tr_session x = Some j" for a x j
      using that none [of a x] Some by (cases "a = rid") (auto simp: begun(2))
    show ?thesis
    proof (rule sessions_okI)
      show "sessions_accounted (th_sessions ?t)" using eff(1) by (simp add: begun(2))
      show "\<exists>ar. ss_active (th_sessions ?t) = Some (j, ar)" if "th_runs ?t a = Some x" "tr_session x = Some j" for a x j
        using only [OF that] e(2) by (simp add: begun(2))
      show "a = b" if "th_runs ?t a = Some x" "th_runs ?t b = Some y" "tr_session x = Some j" "tr_session y = Some k" for a b x y j k
        using only [OF that(1,3)] only [OF that(2,4)] by simp
      show "\<exists>rid r. th_runs ?t rid = Some r \<and> tr_session r = Some j" if "ss_active (th_sessions ?t) = Some (j, ar)" for j ar
        using that e(2) Some by (auto simp: begun(2))
    qed
  qed
  ultimately show ?thesis by blast
qed

lemma reached_ok: "thread_reached env d l t \<Longrightarrow> scopes_ok t \<and> sessions_ok t"
proof (induction rule: thread_reached.induct)
  case reached_new
  then show ?case by (simp add: scopes_ok_def sessions_ok_def new_thread_def no_session_def sessions_accounted_def)
next
  case (reached_analyze l t rid streams request)
  have "th_runs t rid = None" using reached_outputs [OF reached_analyze.hyps(1)] reached_analyze.hyps(2) by (auto simp: outputs_ok_def)
  then show ?case using receive_analyze_ok reached_analyze.IH by blast
next
  case (reached_event l t rid r e)
  let ?t = "snd (run_event rid (tr_streams r) e t)"
  have "th_runs ?t = th_runs t \<and> th_status ?t = th_status t \<and> th_next ?t = th_next t \<and> th_sessions ?t = th_sessions t"
    by (simp add: run_event_def split: sum.split)
  then show ?case using reached_event.IH scopes_same [of ?t t] sessions_same [of ?t t] by simp
next
  case (reached_finish l t rid outcome t')
  show ?case
  proof (cases "th_runs t rid")
    case None
    then show ?thesis using reached_finish by (simp add: run_finished_def)
  next
    case (Some r)
    obtain s res where t': "t' = post_result rid (tr_streams r) res
        ((leave_scope r t)\<lparr>th_runs := (th_runs t)(rid := None), th_sessions := s\<rparr>)"
      "case tr_session r of None \<Rightarrow> s = th_sessions t
        | Some i \<Rightarrow> \<exists>q. end_session (he_process env) (th_sessions t) i = Some (q, s)"
      by (rule run_finished_cases [OF reached_finish.hyps(2) Some])
    have "scopes_ok t'" by (rule scopes_finished [OF _ Some]) (use reached_finish.IH t'(1) in simp_all)
    moreover have "sessions_ok t'"
      by (rule sessions_finished [OF _ Some, of _ "he_process env"]) (use reached_finish.IH t' in \<open>simp_all split: option.splits\<close>)
    ultimately show ?thesis by blast
  qed
next
  case (reached_cancel l t rid)
  have "scopes_ok (receive_cancel rid t) = scopes_ok (snd (cancelAnalysis t))"
    by (rule scopes_same) (simp_all add: receive_cancel_def case_prod_beta Let_def)
  moreover have "sessions_ok (receive_cancel rid t) = sessions_ok t"
    by (rule sessions_same) (simp_all add: receive_cancel_def case_prod_beta Let_def cancelAnalysis_fields)
  ultimately show ?case using reached_cancel.IH cancel_status_ok by blast
next
  case (reached_use l t i ar ar' fds)
  then show ?case by (auto simp: scopes_ok_def sessions_ok_def sessions_accounted_def)
qed

lemma analysis_can_end:
  assumes "thread_reached env d l t" "writes_progress (pe_flush (he_process env))"
  shows "th_runs t rid = Some r \<Longrightarrow>
      \<exists>t'. run_finished env rid outcome t = Some t' \<and> th_runs t' = (th_runs t)(rid := None)
        \<and> th_posted t' = th_posted (post_result rid (tr_streams r)
            (case outcome of Inl e \<Rightarrow> caught e | Inr x \<Rightarrow> HandlerSuccess x) t)"
    and "th_runs t = Map.empty \<Longrightarrow>
      ss_active (th_sessions t) = None \<and> th_status t = None \<and> \<not> fst (cancelAnalysis t)
      \<and> fst (beginAnalysis (he_process env) (th_sessions t) a b) \<noteq> Inl AlreadyActive"
proof -
  have ok: "scopes_ok t" "sessions_ok t" using reached_ok [OF assms(1)] by blast+
  show "\<exists>t'. run_finished env rid outcome t = Some t' \<and> th_runs t' = (th_runs t)(rid := None)
        \<and> th_posted t' = th_posted (post_result rid (tr_streams r)
            (case outcome of Inl e \<Rightarrow> caught e | Inr x \<Rightarrow> HandlerSuccess x) t)"
    if r: "th_runs t rid = Some r"
  proof (cases "tr_session r")
    case None
    then show ?thesis using r by (simp add: run_finished_def Let_def post_result_def)
  next
    case (Some i)
    obtain ar where ar: "ss_active (th_sessions t) = Some (i, ar)" using sessions_okD(2) [OF ok(2) r Some] by blast
    obtain ar' s' where "flush_reporting (he_process env) (th_sessions t) ar = Some (ar', s')"
      using flush_reporting_returns [OF assms(2)] by blast
    moreover have "i \<notin> set (ss_ended (th_sessions t))"
      using sessions_okD(1) [OF ok(2)] ar by (auto simp: sessions_accounted_def)
    ultimately obtain s where "end_session (he_process env) (th_sessions t) i = Some (Inr (), s)"
      using ar by (simp add: end_session_def)
    then show ?thesis using r Some by (simp add: run_finished_def Let_def post_result_def)
  qed
  assume idle: "th_runs t = Map.empty"
  have active: "ss_active (th_sessions t) = None"
    using sessions_okD(4) [OF ok(2)] idle by (cases "ss_active (th_sessions t)") auto
  have "th_status t = None" using scopes_okD(3) [OF ok(1)] idle by (cases "th_status t") auto
  then show "ss_active (th_sessions t) = None \<and> th_status t = None \<and> \<not> fst (cancelAnalysis t)
      \<and> fst (beginAnalysis (he_process env) (th_sessions t) a b) \<noteq> Inl AlreadyActive"
    using active by (simp add: cancelAnalysis_def beginAnalysis_def split: sum.split)
qed

text \<open>
  C36. An analysis that is under way can always end, and its own result is posted: ending its session
  of the filesystem cache neither fails nor replaces the result. When no analysis is under way, the
  filesystem cache is free, so the next request is not refused by it, and there is nothing to cancel.
\<close>

theorem analyses_end_cleanly:
  assumes "thread_reached env d l t" "writes_progress (pe_flush (he_process env))"
  shows "(\<forall>rid r outcome. th_runs t rid = Some r \<longrightarrow>
      (\<exists>t'. run_finished env rid outcome t = Some t' \<and> th_runs t' = (th_runs t)(rid := None)
        \<and> th_posted t' = th_posted (post_result rid (tr_streams r)
            (case outcome of Inl e \<Rightarrow> caught e | Inr x \<Rightarrow> HandlerSuccess x) t)))
    \<and> (th_runs t = Map.empty \<longrightarrow> ss_active (th_sessions t) = None \<and> th_status t = None \<and> \<not> fst (cancelAnalysis t)
      \<and> (\<forall>archivePath rootDir. fst (beginAnalysis (he_process env) (th_sessions t) archivePath rootDir) \<noteq> Inl AlreadyActive))"
  using analysis_can_end [OF assms] by blast

section \<open>Cancellation\<close>

text \<open>
  What can happen during an analysis as long as no other one starts: events, ends of other analyses,
  cancellations, of which \<open>n\<close> counts the number, and work on the files of the session.
\<close>

inductive during :: "handler_env \<Rightarrow> nat \<Rightarrow> thread \<Rightarrow> nat \<Rightarrow> thread \<Rightarrow> bool" for env rid t where
  during_start: "during env rid t 0 t"
| during_event: "during env rid t n t1 \<Longrightarrow> th_runs t1 i = Some r \<Longrightarrow>
    during env rid t n (snd (run_event i (tr_streams r) e t1))"
| during_finish: "during env rid t n t1 \<Longrightarrow> i \<noteq> rid \<Longrightarrow> run_finished env i outcome t1 = Some t2 \<Longrightarrow> during env rid t n t2"
| during_cancel: "during env rid t n t1 \<Longrightarrow> during env rid t (Suc n) (receive_cancel i t1)"
| during_use: "during env rid t n t1 \<Longrightarrow> ss_active (th_sessions t1) = Some (i, ar) \<Longrightarrow>
    during env rid t n (t1\<lparr>th_sessions := (th_sessions t1)\<lparr>ss_active := Some (i, ar'), ss_descriptors := fds\<rparr>\<rparr>)"

text \<open>An analysis has the scope to itself, and the scope says whether it was cancelled.\<close>

definition holds_scope :: "nat \<Rightarrow> bool \<Rightarrow> thread \<Rightarrow> bool" where
  "holds_scope rid c t \<longleftrightarrow>
     (\<exists>r. th_runs t rid = Some r \<and> th_status t = Some (tr_status r, c)
       \<and> (\<forall>i q. th_runs t i = Some q \<and> i \<noteq> rid \<longrightarrow> tr_status q \<noteq> tr_status r))"

lemma holds_scope_finish:
  assumes "holds_scope rid c t" "i \<noteq> rid" "run_finished env i outcome t = Some t'"
  shows "holds_scope rid c t'"
proof (cases "th_runs t i")
  case None
  then show ?thesis using assms by (simp add: run_finished_def)
next
  case (Some q)
  obtain r where r: "th_runs t rid = Some r" "th_status t = Some (tr_status r, c)"
    "\<And>j x. th_runs t j = Some x \<Longrightarrow> j \<noteq> rid \<Longrightarrow> tr_status x \<noteq> tr_status r"
    using assms(1) unfolding holds_scope_def by blast
  have "tr_status q \<noteq> tr_status r" by (rule r(3) [OF Some assms(2)])
  then have leave: "leave_scope q t = t" using r(2) by (simp add: leave_scope_def)
  obtain s res where t': "t' = post_result i (tr_streams q) res
      ((leave_scope q t)\<lparr>th_runs := (th_runs t)(i := None), th_sessions := s\<rparr>)"
    by (rule run_finished_cases [OF assms(3) Some])
  have "th_runs t' = (th_runs t)(i := None)" "th_status t' = th_status t" unfolding t' leave by simp_all
  then show ?thesis using r assms(2) unfolding holds_scope_def by auto
qed

lemma during_scope: "during env rid t n t' \<Longrightarrow> holds_scope rid False t \<Longrightarrow> holds_scope rid (n > 0) t'"
proof (induction rule: during.induct)
  case (during_event n t1 i r e)
  then show ?case by (auto simp: holds_scope_def run_event_def split: sum.split)
next
  case (during_finish n t1 i outcome t2)
  then show ?case using holds_scope_finish by blast
next
  case (during_cancel n t1 i)
  then show ?case
    by (auto simp: holds_scope_def receive_cancel_def case_prod_beta Let_def cancelAnalysis_fields)
qed (auto simp: holds_scope_def)

lemma begun_holds_scope:
  assumes "scopes_ok t" "th_runs t rid = None" "th_runs (receive_analyze env rid streams request t) rid \<noteq> None"
  shows "holds_scope rid False (receive_analyze env rid streams request t)"
proof (cases rule: receive_analyze_cases [of env request t rid streams])
  case (refused s e)
  then show ?thesis using assms(2,3) by simp
next
  case (begun s q)
  have "tr_status x < th_next t" if "th_runs t i = Some x" for i x by (rule scopes_okD(1) [OF assms(1) that])
  then show ?thesis unfolding begun(2) holds_scope_def by (auto split: if_splits) (metis less_irrefl)
qed

lemma scope_of_cancellation:
  assumes "thread_reached env d l t" "rid \<notin> set l"
    "th_runs (receive_analyze env rid streams request t) rid \<noteq> None"
    "during env rid (receive_analyze env rid streams request t) n t1"
  shows "thread_cancelled t1 \<longleftrightarrow> n > 0"
    and "th_posted (receive_cancel i t1) = th_posted t1 @ [CancelDone i (HandlerSuccess ())]"
    and "run_finished env rid outcome t1 = Some t2 \<Longrightarrow> \<not> thread_cancelled t2
      \<and> th_posted (receive_cancel i t2) = th_posted t2 @ [CancelDone i (HandlerFailure
          \<lparr>ze_code = Unexpected, ze_message = ''No analysis to cancel'', ze_data = None\<rparr> Runtime)]"
proof -
  have none: "th_runs t rid = None" using reached_outputs [OF assms(1)] assms(2) by (auto simp: outputs_ok_def)
  have scopes: "scopes_ok t" using reached_ok [OF assms(1)] by blast
  obtain r where r: "th_runs t1 rid = Some r" "th_status t1 = Some (tr_status r, n > 0)"
    using during_scope [OF assms(4) begun_holds_scope [OF scopes none assms(3)]] unfolding holds_scope_def by blast
  show "thread_cancelled t1 \<longleftrightarrow> n > 0" using r(2) by (simp add: thread_cancelled_def)
  show "th_posted (receive_cancel i t1) = th_posted t1 @ [CancelDone i (HandlerSuccess ())]"
    using r(2) by (simp add: receive_cancel_def cancelAnalysis_def)
  assume fin: "run_finished env rid outcome t1 = Some t2"
  obtain s res where "t2 = post_result rid (tr_streams r) res
      ((leave_scope r t1)\<lparr>th_runs := (th_runs t1)(rid := None), th_sessions := s\<rparr>)"
    by (rule run_finished_cases [OF fin r(1)])
  then have "th_status t2 = None" using r(2) by (simp add: leave_scope_status)
  then show "\<not> thread_cancelled t2 \<and> th_posted (receive_cancel i t2) = th_posted t2 @ [CancelDone i (HandlerFailure
          \<lparr>ze_code = Unexpected, ze_message = ''No analysis to cancel'', ze_data = None\<rparr> Runtime)]"
    by (simp add: thread_cancelled_def receive_cancel_def cancelAnalysis_def serializeError_def)
qed


text \<open>
  C37. A cancellation reaches the analysis that is under way and no other: from its start until the
  next one starts, the analysis sees itself cancelled exactly if a cancellation came during it, so
  once it does it always does; every such cancellation is answered with success. When it ends, the
  scope ends with it, and a later cancellation fails with \<open>No analysis to cancel\<close>.
\<close>

theorem cancellation_is_scoped:
  assumes "thread_reached env d l t" "rid \<notin> set l"
    "th_runs (receive_analyze env rid streams request t) rid \<noteq> None"
    "during env rid (receive_analyze env rid streams request t) n t1"
  shows "(thread_cancelled t1 \<longleftrightarrow> n > 0)
    \<and> th_posted (receive_cancel i t1) = th_posted t1 @ [CancelDone i (HandlerSuccess ())]
    \<and> (\<forall>outcome t2. run_finished env rid outcome t1 = Some t2 \<longrightarrow> \<not> thread_cancelled t2
        \<and> th_posted (receive_cancel i t2) = th_posted t2 @ [CancelDone i (HandlerFailure
            \<lparr>ze_code = Unexpected, ze_message = ''No analysis to cancel'', ze_data = None\<rparr> Runtime)])"
  using scope_of_cancellation [OF assms] by blast

section \<open>A thread\<close>

text \<open>One request that streams, without the filesystem cache; it is cancelled, and ends.\<close>

definition sample_thread_env :: handler_env where
  "sample_thread_env = \<lparr>he_installed = True, he_process = sample_process, he_archive_message = (\<lambda>_. ''archive'')\<rparr>"

definition plain_request :: analyze_project_request where
  "plain_request = \<lparr>rq_configuration = None, rq_files = None, rq_rules = None, rq_cssRules = None, rq_bundles = None,
     rq_rulesWorkdir = None, rq_filesystemCache = None\<rparr>"

definition running_thread :: thread where
  "running_thread = receive_analyze sample_thread_env 1 True plain_request (new_thread [])"

lemma running_thread_eq:
  "running_thread = \<lparr>th_runs = [1 \<mapsto> \<lparr>tr_streams = True, tr_status = 0, tr_session = None\<rparr>], th_status = Some (0, False),
     th_next = 1, th_sessions = no_session [], th_posted = []\<rparr>"
  by (simp add: running_thread_def receive_analyze_def beginFilesystemCacheAnalysis_def plain_request_def new_thread_def)

lemma running_reached: "thread_reached sample_thread_env [] [1] running_thread"
  unfolding running_thread_def using reached_analyze [OF reached_new, of 1] by simp

theorem requests_completed_once_witness:
  "\<exists>es m. outputs 1 (the (run_finished sample_thread_env 1 (Inl (ThrownInvalid ''x'')) (snd (run_event 1 True (CancelledEvent, []) running_thread))))
       = es @ [m] \<and> list_all is_event es \<and> \<not> is_event m \<and> length es = 1"
proof -
  let ?t = "snd (run_event 1 True (CancelledEvent, []) running_thread)"
  obtain t where t: "run_finished sample_thread_env 1 (Inl (ThrownInvalid ''x'')) ?t = Some t"
    by (simp add: run_finished_def running_thread_eq run_event_def Let_def)
  have "thread_reached sample_thread_env [] [1] ?t"
    using reached_event [OF running_reached, of 1 "\<lparr>tr_streams = True, tr_status = 0, tr_session = None\<rparr>" "(CancelledEvent, [])"]
    by (simp add: running_thread_eq)
  then have "thread_reached sample_thread_env [] [1] t" by (rule reached_finish [OF _ t])
  moreover have none: "th_runs t 1 = None" "length (outputs 1 t) = 2"
    using t by (auto simp: run_finished_def running_thread_eq run_event_def Let_def outputs_def post_result_def post_out_def
        leave_scope_def)
  ultimately obtain es m where "outputs 1 t = es @ [m]" "list_all is_event es" "\<not> is_event m"
    using requests_completed_once [of sample_thread_env "[]" "[1]" t 1] by auto
  then show ?thesis using t none(2) by auto
qed

theorem analyses_end_cleanly_witness:
  "\<exists>t'. run_finished sample_thread_env 1 (Inl (ThrownString ''x'')) running_thread = Some t' \<and> th_runs t' = Map.empty"
proof -
  have "writes_progress (pe_flush (he_process sample_thread_env))"
    by (simp add: sample_thread_env_def sample_process_def sample_env_ok)
  note clean = analyses_end_cleanly [OF running_reached this]
  have "th_runs running_thread 1 = Some \<lparr>tr_streams = True, tr_status = 0, tr_session = None\<rparr>" by (simp add: running_thread_eq)
  then obtain t' where "run_finished sample_thread_env 1 (Inl (ThrownString ''x'')) running_thread = Some t'"
    "th_runs t' = (th_runs running_thread)(1 := None)" using clean by blast
  moreover have "(th_runs running_thread)(1 := None) = Map.empty" by (auto simp: running_thread_eq)
  ultimately show ?thesis by simp
qed

theorem cancellation_is_scoped_witness:
  "thread_cancelled (receive_cancel 2 running_thread) \<and> \<not> thread_cancelled running_thread"
proof -
  have run: "th_runs running_thread 1 \<noteq> None" by (simp add: running_thread_eq)
  note scoped = cancellation_is_scoped [of sample_thread_env "[]" "[]" "new_thread []" 1 True plain_request,
      OF reached_new, folded running_thread_def, OF _ run]
  have "during sample_thread_env 1 running_thread 0 running_thread" by (rule during_start)
  then show ?thesis using scoped [OF _ during_cancel [of _ _ _ 0]] scoped by auto
qed

end
