(* ===== verification/Path_Parents.thy ===== *)
theory Path_Parents
  imports Tsconfig_Options File_Filters
begin

text \<open>
  The helpers of \<open>jsts/rules/helpers/files.ts\<close> that go up and down a directory tree. A root is what
  either flavour of \<open>path.parse\<close> takes for one; for POSIX these are the strings of slashes, which
  are roots for Windows too.
\<close>

text \<open>The type \<open>File\<close>.\<close>

record shared_file =
  sf_filePath :: string
  sf_fileContent :: string

section \<open>Roots\<close>

text \<open>The length of the root that \<open>path.win32.parse\<close> finds: a separator, a UNC root or a drive.\<close>

definition win32_unc_end :: "string \<Rightarrow> nat" where
  "win32_unc_end s =
     (let first = takeWhile (\<lambda>c. \<not> is_sep c) s;
          rest = dropWhile (\<lambda>c. \<not> is_sep c) s;
          seps = takeWhile is_sep rest;
          share = takeWhile (\<lambda>c. \<not> is_sep c) (dropWhile is_sep rest);
          len = length first + length seps + length share
      in if first = [] \<or> seps = [] \<or> share = [] then 1
         else if len = length s then 2 + len else 3 + len)"

fun win32_root_end :: "string \<Rightarrow> nat" where
  "win32_root_end [] = 0"
| "win32_root_end [c] = (if is_sep c then 1 else 0)"
| "win32_root_end (c # d # s) =
     (if is_sep c then (if is_sep d then win32_unc_end s else 1)
      else if is_letter c \<and> d = CHR '':'' then (case s of e # _ \<Rightarrow> if is_sep e then 3 else 2 | [] \<Rightarrow> 2)
      else 0)"

definition isRoot :: "string \<Rightarrow> bool" where
  "isRoot p \<longleftrightarrow> 0 < win32_root_end p \<and> list_all is_sep (drop (win32_root_end p) p)"

definition getPathRoot :: "string \<Rightarrow> string" where
  "getPathRoot p =
     (let winRoot = take (win32_root_end p) p in if winRoot \<noteq> [] then toUnixPath winRoot else ROOT_PATH)"

definition joinPaths :: "string \<Rightarrow> string \<Rightarrow> string" where
  "joinPaths base name = path_join [base, name]"

section \<open>Absolute paths without backslashes\<close>

definition plain :: "string list \<Rightarrow> bool" where
  "plain segs \<longleftrightarrow> clean segs \<and> (\<forall>s\<in>set segs. CHR 0x5C \<notin> set s)"

lemma plain_Nil [simp]: "plain []"
  by (simp add: plain_def)

lemma plain_append [simp]: "plain (a @ b) \<longleftrightarrow> plain a \<and> plain b"
  by (auto simp: plain_def)

lemma plain_Cons: "plain (s # segs) \<longleftrightarrow> plain [s] \<and> plain segs"
  by (auto simp: plain_def)

lemma plain_clean [simp]: "plain segs \<Longrightarrow> clean segs"
  by (simp add: plain_def)

lemma plain_take [simp]: "plain segs \<Longrightarrow> plain (take n segs)"
  by (metis append_take_drop_id plain_append)

lemma plain_butlast [simp]: "plain segs \<Longrightarrow> plain (butlast segs)"
  by (simp add: butlast_conv_take)

lemma plain_inject: "plain a \<Longrightarrow> plain b \<Longrightarrow> abs_path a = abs_path b \<longleftrightarrow> a = b"
  by (simp add: abs_path_inject)

lemma plain_inject_below [simp]:
  "plain base \<Longrightarrow> plain r \<Longrightarrow> plain r' \<Longrightarrow> abs_path (base @ r) = abs_path (base @ r') \<longleftrightarrow> r = r'"
  "plain base \<Longrightarrow> plain r \<Longrightarrow> abs_path base = abs_path (base @ r) \<longleftrightarrow> r = []"
  "plain base \<Longrightarrow> plain r \<Longrightarrow> abs_path (base @ r) = abs_path base \<longleftrightarrow> r = []"
  by (simp_all add: plain_inject)

lemma normalize_plain [simp]: "plain segs \<Longrightarrow> normalizeToAbsolutePath cwd (abs_path segs) baseDir = abs_path segs"
  using normalize_absolute [OF posix_path_abs_path abs_path_absolute] by (simp add: plain_def)

lemma abs_path_snoc: "abs_path (segs @ [s]) = (if segs = [] then ''/'' @ s else abs_path segs @ ''/'' @ s)"
  by (cases "segs = []") (simp_all add: abs_path_def join_parts_append)

text \<open>The last segment, and what is before it.\<close>

lemma plain_segment: "plain [s] \<Longrightarrow> s \<noteq> [] \<and> CHR ''/'' \<notin> set s \<and> CHR 0x5C \<notin> set s"
  by (simp add: plain_def clean_segment_def)

lemma split_on_append_sep: "split_on c (x @ c # y) = split_on c x @ split_on c y"
proof (induction x)
  case (Cons d x)
  obtain q qs where "split_on c x = q # qs" by (cases "split_on c x") auto
  with Cons show ?case by simp
qed simp

lemma rev_segment:
  assumes "plain [s]"
  shows "dropWhile (\<lambda>d. d = CHR ''/'') (rev s @ r) = rev s @ r"
    and "dropWhile (\<lambda>d. d \<noteq> CHR ''/'') (rev s @ r) = dropWhile (\<lambda>d. d \<noteq> CHR ''/'') r"
proof -
  have s: "s \<noteq> []" "CHR ''/'' \<notin> set s" using plain_segment [OF assms] by simp_all
  show "dropWhile (\<lambda>d. d = CHR ''/'') (rev s @ r) = rev s @ r"
    using s by (cases s rule: rev_cases) auto
  show "dropWhile (\<lambda>d. d \<noteq> CHR ''/'') (rev s @ r) = dropWhile (\<lambda>d. d \<noteq> CHR ''/'') r"
    using s by (subst dropWhile_append2) auto
qed

lemma joinPaths_abs_path [simp]:
  assumes "plain segs" "plain [s]"
  shows "joinPaths (abs_path segs) s = abs_path (segs @ [s])"
proof -
  let ?p = "abs_path segs @ ''/'' @ s"
  have s: "s \<noteq> []" "CHR ''/'' \<notin> set s" using plain_segment [OF assms(2)] by simp_all
  have c: "clean (segs @ [s])" using assms by (simp add: plain_def)
  have "split_on (CHR ''/'') ?p = split_on (CHR ''/'') (abs_path segs) @ [s]"
    using split_on_append_sep [of "CHR ''/''" "abs_path segs" s] split_on_single [OF s(2)] by simp
  then have split: "split_on (CHR ''/'') ?p = [''''] @ (if segs = [] then [''''] else segs) @ [s]"
    using assms by (simp add: split_abs_path)
  have "foldl (norm_step False) [] (split_on (CHR ''/'') ?p) = foldl (norm_step False) [] (segs @ [s])"
    unfolding split by simp
  then have norm: "norm_segments False (split_on (CHR ''/'') ?p) = segs @ [s]"
    unfolding norm_segments_def using foldl_norm_clean [OF c, of False "[]"] by simp
  obtain s' c where "s = s' @ [c]" "c \<noteq> CHR ''/''" using s by (cases s rule: rev_cases) auto
  then have "\<not> ends_with ?p ''/''" by (simp add: ends_with_def)
  moreover have "path_isAbsolute ?p" "?p \<noteq> ''''" by (simp_all add: abs_path_def path_isAbsolute_def starts_with_def)
  ultimately have "path_normalize ?p = abs_path (segs @ [s])"
    unfolding path_normalize_def Let_def norm by (simp add: norm [simplified] abs_path_def [of "segs @ [s]"])
  then show ?thesis using s by (simp add: joinPaths_def path_join_def abs_path_def)
qed

lemma dirnamePath_snoc [simp]:
  assumes "plain segs" "plain [s]"
  shows "dirnamePath (abs_path (segs @ [s])) = abs_path segs"
proof (cases "segs = []")
  case True
  have "dropWhile (\<lambda>d. d = CHR ''/'') (rev s) = rev s" "dropWhile (\<lambda>d. d \<noteq> CHR ''/'') (rev s) = []"
    using rev_segment [OF assms(2), of "[]"] by simp_all
  with True show ?thesis by (simp add: dirnamePath_def abs_path_def del: dropWhile_eq_Nil_conv)
next
  case False
  then obtain c r where "join_with ''/'' segs = c # r"
    using join_head [of segs] assms(1) by (metis plain_def)
  then show ?thesis using False rev_segment [OF assms(2)]
    by (simp add: dirnamePath_def abs_path_def join_parts_append)
qed

lemma dirnamePath_root [simp]: "dirnamePath (abs_path []) = abs_path []"
  by (simp add: dirnamePath_def abs_path_def)

lemma base_name_snoc [simp]:
  assumes "plain segs" "plain [s]"
  shows "base_name (abs_path (segs @ [s])) = s"
proof -
  obtain r where r: "abs_path (segs @ [s]) = r @ ''/'' @ s" by (metis abs_path_snoc append_Nil)
  have "base_name (r @ CHR ''/'' # s) = s"
    using rev_segment(1) [OF assms(2), of "CHR ''/'' # rev r"] split_on_append_sep [of "CHR ''/''" r s]
      split_on_single [of "CHR ''/''" s] plain_segment [OF assms(2)]
    by (simp add: base_name_def)
  then show ?thesis by (simp add: r)
qed

lemma isRoot_abs_path [simp]: "plain segs \<Longrightarrow> isRoot (abs_path segs) \<longleftrightarrow> segs = []"
proof (cases "segs = []")
  case True
  then show ?thesis by (simp add: isRoot_def abs_path_def is_sep_def)
next
  case False
  assume "plain segs"
  then obtain c r where j: "join_with ''/'' segs = c # r" "\<not> is_sep c"
    using join_head [of segs] False by (metis plain_def)
  then show ?thesis using False by (simp add: isRoot_def abs_path_def is_sep_def)
qed

end
