(* ===== verification/Find_Up.thy ===== *)
theory Find_Up
  imports Path_Parents
begin

text \<open>
  Looking for files up the directory tree, \<open>jsts/rules/helpers/find-up/\<close> and \<open>cache.ts\<close>: the closest
  file that matches a pattern, and all of them from a directory up to the top directory. The lookups
  of one pattern and one top directory share a cache; those of one pattern share what was read from
  directories. \<open>MinimatchCache\<close> holds these listings under the matcher of a pattern, but the computing
  functions keep the listings themselves: to clear that cache does not empty them.
\<close>

section \<open>Reading a directory\<close>

text \<open>The synchronous functions of the file system, \<open>None\<close> for one that throws, and \<open>Minimatch\<close>.\<close>

record up_env =
  ue_readdir :: "string \<Rightarrow> string list option"
  ue_isFile :: "string \<Rightarrow> bool option"
  ue_readFile :: "string \<Rightarrow> string option"
  ue_match :: "string \<Rightarrow> string \<Rightarrow> bool"

text \<open>An error while a file is read ends the loop; the files before it are kept.\<close>

fun matching_files :: "up_env \<Rightarrow> string \<Rightarrow> string \<Rightarrow> string list \<Rightarrow> shared_file list" where
  "matching_files u pattern from [] = []"
| "matching_files u pattern from (entry # es) =
     (let fullEntryPath = joinPaths from entry in
      if ue_match u pattern (base_name fullEntryPath) \<and> nullish (ue_isFile u fullEntryPath) False then
        (case ue_readFile u fullEntryPath of
           None \<Rightarrow> []
         | Some content \<Rightarrow>
             \<lparr>sf_filePath = fullEntryPath, sf_fileContent = content\<rparr> # matching_files u pattern from es)
      else matching_files u pattern from es)"

definition files_of_directory :: "up_env \<Rightarrow> string \<Rightarrow> string \<Rightarrow> shared_file list" where
  "files_of_directory u pattern from =
     (case ue_readdir u from of None \<Rightarrow> [] | Some entries \<Rightarrow> matching_files u pattern from entries)"

section \<open>Caches\<close>

text \<open>\<open>ComputedCache\<close>: \<open>get\<close> with a function that computes the value and may change the state.\<close>

definition computed_get :: "('k \<Rightarrow> 'v) \<Rightarrow> 'k \<Rightarrow> ('k, 'v) js_map \<Rightarrow> 'v \<times> ('k, 'v) js_map" where
  "computed_get compute k cache =
     (case map_of cache k of
        Some v \<Rightarrow> (v, cache)
      | None \<Rightarrow> (let v = compute k in (v, js_set k v cache)))"

type_synonym listings = "(string, shared_file list) js_map"
type_synonym 'v lookup_cache = "(string, 'v) js_map"

text \<open>What \<open>assertNestedPath\<close> throws.\<close>

definition not_nested :: "string \<Rightarrow> string \<Rightarrow> string" where
  "not_nested from topDir =
     [CHR 0x22] @ from @ [CHR 0x22] @ '' is not nested under topDir '' @ [CHR 0x22] @ topDir @ [CHR 0x22]"

lemma dirnamePath_shorter:
  assumes "\<not> isRoot p" "p \<noteq> ''.''"
  shows "dirnamePath p = ''.'' \<or> length (dirnamePath p) < length p"
proof (cases p)
  case (Cons c s)
  let ?q = "dropWhile (\<lambda>d. d = CHR ''/'') (rev s)"
  let ?t = "dropWhile (\<lambda>d. d \<noteq> CHR ''/'') ?q"
  have q: "length ?q \<le> length s" by (metis length_dropWhile_le length_rev)
  show ?thesis
  proof (cases ?t)
    case Nil
    then have "dirnamePath p = (if c = CHR ''/'' then ''/'' else ''.'')"
      by (simp add: dirnamePath_def Cons del: dropWhile_eq_Nil_conv)
    moreover have "s \<noteq> []" if "c = CHR ''/''" using assms(1) that by (auto simp: Cons isRoot_def is_sep_def)
    ultimately show ?thesis by (auto simp: Cons)
  next
    case t: (Cons x r)
    have "length ?t < length ?q"
    proof (cases ?q)
      case (Cons d q')
      then have "d \<noteq> CHR ''/''" unfolding dropWhile_eq_Cons_conv by blast
      then have "?t = dropWhile (\<lambda>d. d \<noteq> CHR ''/'') q'" by (simp only: Cons dropWhile.simps if_True not_False_eq_True)
      then show ?thesis by (simp only: Cons length_Cons less_Suc_eq_le length_dropWhile_le)
    next
      case Nil
      then have False using t by (simp only: dropWhile.simps list.distinct)
      then show ?thesis ..
    qed
    then have "length r + 1 < length s" using t q by simp
    moreover have "length (dirnamePath p) \<le> length r + 2" using t by (simp add: dirnamePath_def Cons)
    ultimately show ?thesis by (simp add: Cons)
  qed
qed (simp add: dirnamePath_def)

text \<open>The state of a lookup: the listings of its pattern, and the cache of its top directory.\<close>

function closest_get ::
  "up_env \<Rightarrow> string \<Rightarrow> string \<Rightarrow> string \<Rightarrow> listings \<times> shared_file option lookup_cache
   \<Rightarrow> (string + shared_file option) \<times> listings \<times> shared_file option lookup_cache" where
  "closest_get u pattern topDir from C =
     (case map_of (snd C) from of
        Some v \<Rightarrow> (Inr v, C)
      | None \<Rightarrow>
          (if from = ''.'' then (Inr None, fst C, js_set from None (snd C))
           else if \<not> assertNestedPath from topDir then (Inl (not_nested from topDir), C)
           else let (files, listings) = computed_get (files_of_directory u pattern) from (fst C) in
             if files \<noteq> [] then (Inr (Some (hd files)), listings, js_set from (Some (hd files)) (snd C))
             else if \<not> isRoot from \<and> from \<noteq> topDir then
               (case closest_get u pattern topDir (dirnamePath from) (listings, snd C) of
                  (Inl e, C') \<Rightarrow> (Inl e, C')
                | (Inr v, C') \<Rightarrow> (Inr v, fst C', js_set from v (snd C')))
             else (Inr None, listings, js_set from None (snd C))))"
  by pat_completeness auto
termination
  by (relation "measure (\<lambda>(u, pattern, topDir, from, C). if from = ''.'' then 0 else Suc (length from))")
    (use dirnamePath_shorter in auto)

function all_in_parents_get ::
  "up_env \<Rightarrow> string \<Rightarrow> string \<Rightarrow> string \<Rightarrow> listings \<times> shared_file list lookup_cache
   \<Rightarrow> (string + shared_file list) \<times> listings \<times> shared_file list lookup_cache" where
  "all_in_parents_get u pattern topDir from C =
     (case map_of (snd C) from of
        Some v \<Rightarrow> (Inr v, C)
      | None \<Rightarrow>
          (if from = ''.'' then (Inr [], fst C, js_set from [] (snd C))
           else if \<not> assertNestedPath from topDir then (Inl (not_nested from topDir), C)
           else let (files, listings) = computed_get (files_of_directory u pattern) from (fst C) in
             if \<not> isRoot from \<and> from \<noteq> topDir then
               (case all_in_parents_get u pattern topDir (dirnamePath from) (listings, snd C) of
                  (Inl e, C') \<Rightarrow> (Inl e, C')
                | (Inr v, C') \<Rightarrow> (Inr (files @ v), fst C', js_set from (files @ v) (snd C')))
             else (Inr files, listings, js_set from files (snd C))))"
  by pat_completeness auto
termination
  by (relation "measure (\<lambda>(u, pattern, topDir, from, C). if from = ''.'' then 0 else Suc (length from))")
    (use dirnamePath_shorter in auto)

declare closest_get.simps [simp del] all_in_parents_get.simps [simp del]

section \<open>What a lookup finds\<close>

text \<open>The search without caches. The path from the top directory down is given in reverse.\<close>

fun nearest :: "(string list \<Rightarrow> 'f list) \<Rightarrow> string list \<Rightarrow> string list \<Rightarrow> 'f option" where
  "nearest files base [] = (if files base \<noteq> [] then Some (hd (files base)) else None)"
| "nearest files base (n # up) =
     (if files (base @ rev (n # up)) \<noteq> [] then Some (hd (files (base @ rev (n # up)))) else nearest files base up)"

fun all_above :: "(string list \<Rightarrow> 'f list) \<Rightarrow> string list \<Rightarrow> string list \<Rightarrow> 'f list" where
  "all_above files base [] = files base"
| "all_above files base (n # up) = files (base @ rev (n # up)) @ all_above files base up"

lemma abs_path_ends_with_slash:
  assumes "plain segs"
  shows "ends_with (abs_path segs) ''/'' \<longleftrightarrow> segs = []"
proof (cases segs rule: rev_cases)
  case (snoc r s)
  then have "plain [s]" using assms by simp
  then obtain t c where "s = t @ [c]" "c \<noteq> CHR ''/''"
    using plain_segment [of s] by (cases s rule: rev_cases) auto
  then show ?thesis by (simp add: snoc abs_path_snoc ends_with_def)
qed (simp add: abs_path_def ends_with_def)

lemma nested_below [simp]:
  assumes "plain base" "plain rel"
  shows "assertNestedPath (abs_path (base @ rel)) (abs_path base)"
proof -
  have "starts_with (abs_path (base @ rel) @ ''/'') (abs_path base @ ''/'')" if "base \<noteq> []"
    using that by (cases "rel = []") (simp_all add: abs_path_def join_parts_append starts_with_iff)
  moreover have "starts_with (abs_path rel) ''/''" by (simp add: abs_path_def starts_with_def)
  ultimately show ?thesis using assms
    by (auto simp: assertNestedPath_def abs_path_ends_with_slash) (simp_all add: abs_path_def starts_with_def)
qed

lemma abs_path_no_dot [simp]: "abs_path segs \<noteq> ''.''"
  by (simp add: abs_path_def)

definition listings_ok :: "up_env \<Rightarrow> string \<Rightarrow> listings \<Rightarrow> bool" where
  "listings_ok u pattern L \<longleftrightarrow> (\<forall>d files. map_of L d = Some files \<longrightarrow> files = files_of_directory u pattern d)"

definition lookups_ok :: "string list \<Rightarrow> (string list \<Rightarrow> 'v) \<Rightarrow> 'v lookup_cache \<Rightarrow> bool" where
  "lookups_ok base spec cache \<longleftrightarrow>
     (\<forall>up v. plain (rev up) \<longrightarrow> map_of cache (abs_path (base @ rev up)) = Some v \<longrightarrow> v = spec up)"

abbreviation listed :: "up_env \<Rightarrow> string \<Rightarrow> string list \<Rightarrow> shared_file list" where
  "listed u pattern segs \<equiv> files_of_directory u pattern (abs_path segs)"

lemma listings_ok_get:
  "listings_ok u pattern L \<Longrightarrow>
     \<exists>L'. computed_get (files_of_directory u pattern) d L = (files_of_directory u pattern d, L') \<and> listings_ok u pattern L'"
  by (auto simp: computed_get_def listings_ok_def Let_def update_conv' split: option.splits)

lemma lookups_ok_set:
  "plain base \<Longrightarrow> plain (rev up) \<Longrightarrow> lookups_ok base spec cache \<Longrightarrow>
     lookups_ok base spec (js_set (abs_path (base @ rev up)) (spec up) cache)"
  by (auto simp: lookups_ok_def update_conv' plain_inject)

lemma lookups_ok_hit:
  "lookups_ok base spec cache \<Longrightarrow> plain (rev up) \<Longrightarrow> map_of cache (abs_path (base @ rev up)) = Some v \<Longrightarrow> v = spec up"
  unfolding lookups_ok_def by blast

text \<open>Cached or not, a lookup gives what the search gives, and keeps the caches right.\<close>

lemma closest_get_nearest:
  assumes "plain base" "plain (rev up)" "listings_ok u pattern (fst C)"
    "lookups_ok base (nearest (listed u pattern) base) (snd C)"
  shows "\<exists>C'. closest_get u pattern (abs_path base) (abs_path (base @ rev up)) C
       = (Inr (nearest (listed u pattern) base up), C')
     \<and> listings_ok u pattern (fst C') \<and> lookups_ok base (nearest (listed u pattern) base) (snd C')"
  using assms(2-)
proof (induction up arbitrary: C)
  case Nil
  obtain L' where L': "computed_get (files_of_directory u pattern) (abs_path base) (fst C) = (listed u pattern base, L')"
    "listings_ok u pattern L'" using listings_ok_get [OF Nil(2)] by blast
  show ?case
  proof (cases "map_of (snd C) (abs_path base)")
    case None
    then show ?thesis
      using assms(1) L' lookups_ok_set [OF assms(1) Nil(1,3)] nested_below [OF assms(1), of "[]"]
      by (subst closest_get.simps, cases "listed u pattern base = []") (simp_all add: Let_def)
  next
    case (Some v)
    then show ?thesis
      using lookups_ok_hit [OF Nil(3,1)] Nil by (subst closest_get.simps) simp
  qed
next
  case (Cons n up)
  let ?rel = "rev (n # up)"
  have plain: "plain ?rel" "plain (rev up)" "plain [n]" using Cons.prems(1) by simp_all
  have dir: "dirnamePath (abs_path (base @ ?rel)) = abs_path (base @ rev up)"
    using dirnamePath_snoc [of "base @ rev up" n] assms(1) plain by simp
  have root: "\<not> isRoot (abs_path (base @ ?rel))" "abs_path (base @ ?rel) \<noteq> abs_path base"
    using assms(1) plain plain_inject [of "base @ ?rel" base] by simp_all
  obtain L' where L': "computed_get (files_of_directory u pattern) (abs_path (base @ ?rel)) (fst C)
      = (listed u pattern (base @ ?rel), L')" "listings_ok u pattern L'"
    using listings_ok_get [OF Cons.prems(2)] by blast
  obtain C' where C': "closest_get u pattern (abs_path base) (abs_path (base @ rev up)) (L', snd C)
      = (Inr (nearest (listed u pattern) base up), C')"
    "listings_ok u pattern (fst C')" "lookups_ok base (nearest (listed u pattern) base) (snd C')"
    using Cons.IH [of "(L', snd C)"] plain L' Cons.prems by auto
  show ?case
  proof (cases "map_of (snd C) (abs_path (base @ ?rel))")
    case None
    then show ?thesis
      using L' C' nested_below [OF assms(1) plain(1)] root
        lookups_ok_set [OF assms(1) Cons.prems(1,3)] lookups_ok_set [OF assms(1) Cons.prems(1) C'(3)]
      by (subst closest_get.simps, cases "listed u pattern (base @ ?rel) = []") (simp_all add: Let_def dir [simplified])
  next
    case (Some v)
    then show ?thesis
      using lookups_ok_hit [OF Cons.prems(3,1)] Cons.prems by (subst closest_get.simps) simp
  qed
qed

lemma all_in_parents_get_all_above:
  assumes "plain base" "plain (rev up)" "listings_ok u pattern (fst C)"
    "lookups_ok base (all_above (listed u pattern) base) (snd C)"
  shows "\<exists>C'. all_in_parents_get u pattern (abs_path base) (abs_path (base @ rev up)) C
       = (Inr (all_above (listed u pattern) base up), C')
     \<and> listings_ok u pattern (fst C') \<and> lookups_ok base (all_above (listed u pattern) base) (snd C')"
  using assms(2-)
proof (induction up arbitrary: C)
  case Nil
  obtain L' where L': "computed_get (files_of_directory u pattern) (abs_path base) (fst C) = (listed u pattern base, L')"
    "listings_ok u pattern L'" using listings_ok_get [OF Nil(2)] by blast
  show ?case
  proof (cases "map_of (snd C) (abs_path base)")
    case None
    then show ?thesis
      using assms(1) L' lookups_ok_set [OF assms(1) Nil(1,3)] nested_below [OF assms(1), of "[]"]
      by (subst all_in_parents_get.simps) (simp add: Let_def)
  next
    case (Some v)
    then show ?thesis
      using lookups_ok_hit [OF Nil(3,1)] Nil by (subst all_in_parents_get.simps) simp
  qed
next
  case (Cons n up)
  let ?rel = "rev (n # up)"
  have plain: "plain ?rel" "plain (rev up)" "plain [n]" using Cons.prems(1) by simp_all
  have dir: "dirnamePath (abs_path (base @ ?rel)) = abs_path (base @ rev up)"
    using dirnamePath_snoc [of "base @ rev up" n] assms(1) plain by simp
  have root: "\<not> isRoot (abs_path (base @ ?rel))" "abs_path (base @ ?rel) \<noteq> abs_path base"
    using assms(1) plain plain_inject [of "base @ ?rel" base] by simp_all
  obtain L' where L': "computed_get (files_of_directory u pattern) (abs_path (base @ ?rel)) (fst C)
      = (listed u pattern (base @ ?rel), L')" "listings_ok u pattern L'"
    using listings_ok_get [OF Cons.prems(2)] by blast
  obtain C' where C': "all_in_parents_get u pattern (abs_path base) (abs_path (base @ rev up)) (L', snd C)
      = (Inr (all_above (listed u pattern) base up), C')"
    "listings_ok u pattern (fst C')" "lookups_ok base (all_above (listed u pattern) base) (snd C')"
    using Cons.IH [of "(L', snd C)"] plain L' Cons.prems by auto
  show ?case
  proof (cases "map_of (snd C) (abs_path (base @ ?rel))")
    case None
    then show ?thesis
      using L' C' nested_below [OF assms(1) plain(1)] root lookups_ok_set [OF assms(1) Cons.prems(1) C'(3)]
      by (subst all_in_parents_get.simps) (simp add: Let_def dir [simplified])
  next
    case (Some v)
    then show ?thesis
      using lookups_ok_hit [OF Cons.prems(3,1)] Cons.prems by (subst all_in_parents_get.simps) simp
  qed
qed

end
