(* ===== verification/Manifest_Caches.thy ===== *)
theory Manifest_Caches
  imports Find_Up Analysis_Request
begin

text \<open>
  The caches of dependency manifests, \<open>jsts/rules/helpers/dependency-manifests/index.ts\<close> and
  \<open>closest.ts\<close>. They are preloaded with what the walk over the project has met. The caches of parsed
  manifests, which \<open>clearDependenciesCache\<close> empties as well, are left out.
\<close>

section \<open>Names\<close>

definition PACKAGE_JSON :: string where
  "PACKAGE_JSON = ''package.json''"

definition DENO_JSON :: string where
  "DENO_JSON = ''deno.json''"

definition DENO_JSONC :: string where
  "DENO_JSONC = ''deno.jsonc''"

definition PNPM_WORKSPACE_YAML :: string where
  "PNPM_WORKSPACE_YAML = ''pnpm-workspace.yaml''"

definition DEPENDENCY_MANIFESTS :: "string list" where
  "DEPENDENCY_MANIFESTS = [DENO_JSON, DENO_JSONC, PACKAGE_JSON]"

definition PRELOADABLE_DEPENDENCY_MANIFESTS :: "string list" where
  "PRELOADABLE_DEPENDENCY_MANIFESTS = DEPENDENCY_MANIFESTS @ [PNPM_WORKSPACE_YAML]"

definition isPreloadableDependencyManifestName :: "string \<Rightarrow> bool" where
  "isPreloadableDependencyManifestName fileName \<longleftrightarrow> fileName \<in> set PRELOADABLE_DEPENDENCY_MANIFESTS"

definition isPreloadableDependencyManifestPath :: "string \<Rightarrow> bool" where
  "isPreloadableDependencyManifestPath path = isPreloadableDependencyManifestName (toLowerCase (base_name path))"

definition getPreloadableDependencyManifestName :: "string \<Rightarrow> string option" where
  "getPreloadableDependencyManifestName path =
     (let normalizedBasename = toLowerCase (base_name path)
      in if isPreloadableDependencyManifestName normalizedBasename then Some normalizedBasename else None)"

section \<open>The caches\<close>

text \<open>
  For each name the listings that the lookups have read, and for each top directory what was looked
  up below it; \<open>fu_access\<close> is \<open>manifestCacheFileSystemAccess\<close>.
\<close>

type_synonym 'v per_name = "(string, 'v) js_map"

record find_up_caches =
  fu_closestListings :: "listings per_name"
  fu_parentsListings :: "listings per_name"
  fu_closest :: "(string, shared_file option lookup_cache) js_map per_name"
  fu_parents :: "(string, shared_file list lookup_cache) js_map per_name"
  fu_access :: "(string, bool) js_map per_name"

definition entry :: "('k, ('a \<times> 'b) list) js_map \<Rightarrow> 'k \<Rightarrow> ('a \<times> 'b) list" where
  "entry m k = nullish (map_of m k) []"

definition set_entry :: "'k \<Rightarrow> 'j \<Rightarrow> 'v \<Rightarrow> ('k, ('j, 'v) js_map) js_map \<Rightarrow> ('k, ('j, 'v) js_map) js_map" where
  "set_entry k j v m = js_set k (js_set j v (entry m k)) m"

text \<open>\<open>closestPatternCache.get(name).get(topDir).get(from)\<close> and \<open>set\<close>; the same for the other cache.\<close>

definition closest_lookup ::
  "up_env \<Rightarrow> string \<Rightarrow> string \<Rightarrow> string \<Rightarrow> find_up_caches \<Rightarrow> (string + shared_file option) \<times> find_up_caches" where
  "closest_lookup u name topDir from F =
     (case closest_get u name topDir from (entry (fu_closestListings F) name, entry (entry (fu_closest F) name) topDir) of
        (r, L, cache) \<Rightarrow>
          (r, F\<lparr>fu_closestListings := js_set name L (fu_closestListings F),
                fu_closest := set_entry name topDir cache (fu_closest F)\<rparr>))"

definition set_closest :: "string \<Rightarrow> string \<Rightarrow> string \<Rightarrow> shared_file option \<Rightarrow> find_up_caches \<Rightarrow> find_up_caches" where
  "set_closest name topDir dir v F =
     F\<lparr>fu_closest := set_entry name topDir (js_set dir v (entry (entry (fu_closest F) name) topDir)) (fu_closest F)\<rparr>"

definition parents_lookup ::
  "up_env \<Rightarrow> string \<Rightarrow> string \<Rightarrow> string \<Rightarrow> find_up_caches \<Rightarrow> (string + shared_file list) \<times> find_up_caches" where
  "parents_lookup u name topDir from F =
     (case all_in_parents_get u name topDir from
             (entry (fu_parentsListings F) name, entry (entry (fu_parents F) name) topDir) of
        (r, L, cache) \<Rightarrow>
          (r, F\<lparr>fu_parentsListings := js_set name L (fu_parentsListings F),
                fu_parents := set_entry name topDir cache (fu_parents F)\<rparr>))"

definition set_parents :: "string \<Rightarrow> string \<Rightarrow> string \<Rightarrow> shared_file list \<Rightarrow> find_up_caches \<Rightarrow> find_up_caches" where
  "set_parents name topDir dir v F =
     F\<lparr>fu_parents := set_entry name topDir (js_set dir v (entry (entry (fu_parents F) name) topDir)) (fu_parents F)\<rparr>"

section \<open>Filling and clearing\<close>

text \<open>One directory after the other, each from its parent; a lookup of a parent may throw.\<close>

fun fill_dirs ::
  "up_env \<Rightarrow> string \<Rightarrow> (string, shared_file) js_map \<Rightarrow> string \<Rightarrow> (string \<times> string option) list \<Rightarrow> find_up_caches
   \<Rightarrow> string option \<times> find_up_caches" where
  "fill_dirs u name manifests topDir [] F = (None, F)"
| "fill_dirs u name manifests topDir ((dir, parent) # ds) F =
     (let currentManifest = map_of manifests dir in
      case (case parent of None \<Rightarrow> (Inr None, F) | Some p \<Rightarrow> closest_lookup u name topDir p F) of
        (Inl e, F1) \<Rightarrow> (Some e, F1)
      | (Inr inheritedClosestManifest, F1) \<Rightarrow>
          (let F2 = set_closest name topDir dir
                      (if currentManifest \<noteq> None then currentManifest else inheritedClosestManifest) F1
           in if name = PNPM_WORKSPACE_YAML then fill_dirs u name manifests topDir ds F2
              else case (case parent of None \<Rightarrow> (Inr [], F2) | Some p \<Rightarrow> parents_lookup u name topDir p F2) of
                     (Inl e, F3) \<Rightarrow> (Some e, F3)
                   | (Inr inherited, F3) \<Rightarrow>
                       fill_dirs u name manifests topDir ds
                         (set_parents name topDir dir
                            (case currentManifest of None \<Rightarrow> inherited | Some f \<Rightarrow> f # inherited) F3)))"

text \<open>\<open>localeCompare\<close> is a comparator, as for the nodes of the archive.\<close>

definition by_depth :: "string comparator \<Rightarrow> (string \<times> string option) comparator" where
  "by_depth localeCompare =
     key (\<lambda>(dir, parent). (length (split_on (CHR ''/'') dir), dir)) (prod_lex comparator_nat localeCompare)"

definition fillManifestCaches ::
  "up_env \<Rightarrow> string comparator \<Rightarrow> string \<Rightarrow> (string, shared_file) js_map \<Rightarrow> (string, string option) js_map \<Rightarrow> string
   \<Rightarrow> bool \<Rightarrow> find_up_caches \<Rightarrow> string option \<times> find_up_caches" where
  "fillManifestCaches u localeCompare name manifests dirnameToParent topDir canAccessFileSystem F =
     fill_dirs u name manifests topDir (Sorting_Algorithms.sort (by_depth localeCompare) dirnameToParent)
       (F\<lparr>fu_access := set_entry name topDir canAccessFileSystem (fu_access F)\<rparr>)"

definition canSearchFileSystemAboveManifestCache :: "string \<Rightarrow> string \<Rightarrow> find_up_caches \<Rightarrow> bool" where
  "canSearchFileSystemAboveManifestCache name topDir F = nullish (map_of (entry (fu_access F) name) topDir) True"

text \<open>The lookups of the names are forgotten, the listings are not.\<close>

definition clearDependenciesCache :: "find_up_caches \<Rightarrow> find_up_caches" where
  "clearDependenciesCache F =
     fold (\<lambda>name F.
         let F' = F\<lparr>fu_closest := js_set name [] (fu_closest F)\<rparr>
         in if name \<noteq> PNPM_WORKSPACE_YAML then F'\<lparr>fu_parents := js_set name [] (fu_parents F')\<rparr> else F')
       PRELOADABLE_DEPENDENCY_MANIFESTS (F\<lparr>fu_access := []\<rparr>)"

definition no_lookups :: find_up_caches where
  "no_lookups = \<lparr>fu_closestListings = [], fu_parentsListings = [], fu_closest = [], fu_parents = [], fu_access = []\<rparr>"

text \<open>The names are asked one after the other; a longer path is closer.\<close>

fun closest_manifest ::
  "up_env \<Rightarrow> string \<Rightarrow> string \<Rightarrow> string list \<Rightarrow> string option \<Rightarrow> find_up_caches \<Rightarrow> (string + string option) \<times> find_up_caches" where
  "closest_manifest u topDir dir [] best F = (Inr best, F)"
| "closest_manifest u topDir dir (name # names) best F =
     (case closest_lookup u name topDir dir F of
        (Inl e, F') \<Rightarrow> (Inl e, F')
      | (Inr v, F') \<Rightarrow>
          let best' = (case truthy_string (map_option sf_filePath v) of
                None \<Rightarrow> best
              | Some manifestPath \<Rightarrow>
                  (case truthy_string best of
                     None \<Rightarrow> Some manifestPath
                   | Some closest \<Rightarrow> if length manifestPath > length closest then Some manifestPath else best))
          in closest_manifest u topDir dir names best' F')"

definition getClosestDependencyManifestDir ::
  "up_env \<Rightarrow> string \<Rightarrow> string option \<Rightarrow> find_up_caches \<Rightarrow> (string + string option) \<times> find_up_caches" where
  "getClosestDependencyManifestDir u dir topDir F =
     (case closest_manifest u (nullish topDir (getPathRoot dir)) dir DEPENDENCY_MANIFESTS None F of
        (Inl e, F') \<Rightarrow> (Inl e, F')
      | (Inr best, F') \<Rightarrow> (Inr (map_option dirnamePath (truthy_string best)), F'))"

section \<open>Preloaded caches\<close>

text \<open>What a lookup of one name below one top directory depends on.\<close>

definition closest_state :: "string \<Rightarrow> string \<Rightarrow> find_up_caches \<Rightarrow> listings \<times> shared_file option lookup_cache" where
  "closest_state name topDir F = (entry (fu_closestListings F) name, entry (entry (fu_closest F) name) topDir)"

definition parents_state :: "string \<Rightarrow> string \<Rightarrow> find_up_caches \<Rightarrow> listings \<times> shared_file list lookup_cache" where
  "parents_state name topDir F = (entry (fu_parentsListings F) name, entry (entry (fu_parents F) name) topDir)"

lemma entry_set_entry [simp]: "entry (set_entry k j v m) k = js_set j v (entry m k)"
  by (simp add: entry_def set_entry_def update_conv')

lemma entry_js_set [simp]: "entry (js_set k v m) k = v"
  by (simp add: entry_def update_conv')

lemma fst_closest_lookup: "fst (closest_lookup u name topDir d F) = fst (closest_get u name topDir d (closest_state name topDir F))"
  by (simp add: closest_lookup_def closest_state_def split: prod.split)

lemma fst_parents_lookup: "fst (parents_lookup u name topDir d F) = fst (all_in_parents_get u name topDir d (parents_state name topDir F))"
  by (simp add: parents_lookup_def parents_state_def split: prod.split)

lemma closest_state_simps [simp]:
  "closest_state name topDir (snd (closest_lookup u name topDir d F))
     = snd (closest_get u name topDir d (closest_state name topDir F))"
  "closest_state name topDir (set_closest name topDir d v F)
     = (fst (closest_state name topDir F), js_set d v (snd (closest_state name topDir F)))"
  "closest_state name topDir (snd (parents_lookup u name topDir d F)) = closest_state name topDir F"
  "closest_state name topDir (set_parents name topDir d vs F) = closest_state name topDir F"
  "closest_state name topDir (F\<lparr>fu_access := a\<rparr>) = closest_state name topDir F"
  by (simp_all add: closest_state_def closest_lookup_def set_closest_def parents_lookup_def set_parents_def
      split: prod.split)

lemma parents_state_simps [simp]:
  "parents_state name topDir (snd (parents_lookup u name topDir d F))
     = snd (all_in_parents_get u name topDir d (parents_state name topDir F))"
  "parents_state name topDir (set_parents name topDir d vs F)
     = (fst (parents_state name topDir F), js_set d vs (snd (parents_state name topDir F)))"
  "parents_state name topDir (snd (closest_lookup u name topDir d F)) = parents_state name topDir F"
  "parents_state name topDir (set_closest name topDir d v F) = parents_state name topDir F"
  "parents_state name topDir (F\<lparr>fu_access := a\<rparr>) = parents_state name topDir F"
  by (simp_all add: parents_state_def closest_lookup_def set_closest_def parents_lookup_def set_parents_def
      split: prod.split)

text \<open>A directory that was looked up is answered from the cache, whatever the file system.\<close>

lemma closest_hit:
  "map_of (snd (closest_state name topDir F)) d = Some v \<Longrightarrow> fst (closest_lookup u name topDir d F) = Inr v"
  "map_of (snd (closest_state name topDir F)) d = Some v \<Longrightarrow>
     closest_state name topDir (snd (closest_lookup u name topDir d F)) = closest_state name topDir F"
  by (simp_all add: fst_closest_lookup closest_get.simps)

lemma parents_hit:
  "map_of (snd (parents_state name topDir F)) d = Some v \<Longrightarrow> fst (parents_lookup u name topDir d F) = Inr v"
  "map_of (snd (parents_state name topDir F)) d = Some v \<Longrightarrow>
     parents_state name topDir (snd (parents_lookup u name topDir d F)) = parents_state name topDir F"
  by (simp_all add: fst_parents_lookup all_in_parents_get.simps)

text \<open>The directories of a walk: the top directory, and others with their parents.\<close>

definition directory_tree :: "string list \<Rightarrow> (string, string option) js_map \<Rightarrow> bool" where
  "directory_tree base D \<longleftrightarrow> plain base \<and> distinct (js_keys D) \<and> abs_path base \<in> set (js_keys D)
     \<and> (\<forall>(d, p)\<in>set D. (d = abs_path base \<and> p = None)
          \<or> (\<exists>up n. plain (rev up) \<and> plain [n] \<and> d = abs_path (base @ rev (n # up))
                \<and> p = Some (abs_path (base @ rev up)) \<and> abs_path (base @ rev up) \<in> set (js_keys D)))"

definition manifest_at :: "(string, shared_file) js_map \<Rightarrow> string list \<Rightarrow> shared_file list" where
  "manifest_at manifests segs = (case map_of manifests (abs_path segs) of None \<Rightarrow> [] | Some f \<Rightarrow> [f])"

lemma nearest_manifest:
  "nearest (manifest_at manifests) base (n # up) =
     (case map_of manifests (abs_path (base @ rev (n # up))) of
        Some f \<Rightarrow> Some f
      | None \<Rightarrow> nearest (manifest_at manifests) base up)"
  "nearest (manifest_at manifests) base [] = map_of manifests (abs_path base)"
  by (simp_all add: manifest_at_def split: option.split)

lemma all_above_manifest:
  "all_above (manifest_at manifests) base (n # up) =
     (case map_of manifests (abs_path (base @ rev (n # up))) of
        Some f \<Rightarrow> f # all_above (manifest_at manifests) base up
      | None \<Rightarrow> all_above (manifest_at manifests) base up)"
  "all_above (manifest_at manifests) base [] =
     (case map_of manifests (abs_path base) of None \<Rightarrow> [] | Some f \<Rightarrow> [f])"
  by (simp_all add: manifest_at_def split: option.split)

declare nearest.simps [simp del] all_above.simps [simp del]

text \<open>The caches hold the right answer for a directory.\<close>

definition filled ::
  "string \<Rightarrow> (string, shared_file) js_map \<Rightarrow> string list \<Rightarrow> find_up_caches \<Rightarrow> string \<Rightarrow> bool" where
  "filled name manifests base F d \<longleftrightarrow>
     (\<forall>up. plain (rev up) \<longrightarrow> d = abs_path (base @ rev up) \<longrightarrow>
        map_of (snd (closest_state name (abs_path base) F)) d = Some (nearest (manifest_at manifests) base up)
        \<and> (name \<noteq> PNPM_WORKSPACE_YAML \<longrightarrow>
             map_of (snd (parents_state name (abs_path base) F)) d = Some (all_above (manifest_at manifests) base up)))"

lemma filled_mono:
  assumes "plain base" "filled name manifests base F e"
    "\<And>d'. d' \<noteq> d \<Longrightarrow> map_of (snd (closest_state name (abs_path base) F')) d' = map_of (snd (closest_state name (abs_path base) F)) d'"
    "\<And>d'. d' \<noteq> d \<Longrightarrow> map_of (snd (parents_state name (abs_path base) F')) d' = map_of (snd (parents_state name (abs_path base) F)) d'"
    "filled name manifests base F' d"
  shows "filled name manifests base F' e"
  using assms by (cases "e = d") (simp_all add: filled_def)

definition unread :: "string \<Rightarrow> string \<Rightarrow> find_up_caches \<Rightarrow> find_up_caches \<Rightarrow> bool" where
  "unread name topDir F F' \<longleftrightarrow> fst (closest_state name topDir F') = fst (closest_state name topDir F)
     \<and> fst (parents_state name topDir F') = fst (parents_state name topDir F)"

text \<open>One directory: its parent is answered from the caches.\<close>

definition placed :: "string list \<Rightarrow> string set \<Rightarrow> string \<Rightarrow> string option \<Rightarrow> bool" where
  "placed base seen d p \<longleftrightarrow> (d = abs_path base \<and> p = None)
     \<or> (\<exists>up n. plain (rev up) \<and> plain [n] \<and> d = abs_path (base @ rev (n # up))
           \<and> p = Some (abs_path (base @ rev up)) \<and> abs_path (base @ rev up) \<in> seen)"

lemma filled_after:
  assumes base: "plain base" and up: "plain (rev up)" and d: "d = abs_path (base @ rev up)"
    and seen: "\<forall>e\<in>seen. filled name manifests base F e"
    and states: "closest_state name (abs_path base) F'
        = (fst (closest_state name (abs_path base) F),
           js_set d (nearest (manifest_at manifests) base up) (snd (closest_state name (abs_path base) F)))"
      "parents_state name (abs_path base) F'
        = (if name = PNPM_WORKSPACE_YAML then parents_state name (abs_path base) F
           else (fst (parents_state name (abs_path base) F),
                 js_set d (all_above (manifest_at manifests) base up) (snd (parents_state name (abs_path base) F))))"
  shows "(\<forall>e\<in>insert d seen. filled name manifests base F' e) \<and> unread name (abs_path base) F F'"
proof -
  have "up' = up" if "plain (rev up')" "d = abs_path (base @ rev up')" for up'
    using that d base up plain_inject [of "base @ rev up'" "base @ rev up"] by simp
  then have d': "filled name manifests base F' d"
    by (auto simp: filled_def states update_conv')
  have "filled name manifests base F' e" if "filled name manifests base F e" for e
    using base that _ _ d' by (rule filled_mono) (simp_all add: states update_conv')
  then show ?thesis using d' seen by (auto simp: unread_def states)
qed

lemma fill_step:
  assumes base: "plain base" and placed: "placed base seen d p"
    and seen: "\<forall>e\<in>seen. filled name manifests base F e"
  shows "\<exists>F'. fill_dirs u name manifests (abs_path base) ((d, p) # ds) F = fill_dirs u name manifests (abs_path base) ds F'
     \<and> (\<forall>e\<in>insert d seen. filled name manifests base F' e) \<and> unread name (abs_path base) F F'"
  using placed unfolding placed_def
proof (elim disjE exE conjE)
  assume d: "d = abs_path base" and p: "p = None"
  let ?F2 = "set_closest name (abs_path base) d (map_of manifests d) F"
  let ?F' = "if name = PNPM_WORKSPACE_YAML then ?F2
    else set_parents name (abs_path base) d (case map_of manifests d of None \<Rightarrow> [] | Some f \<Rightarrow> [f]) ?F2"
  have "fill_dirs u name manifests (abs_path base) ((d, p) # ds) F = fill_dirs u name manifests (abs_path base) ds ?F'"
    by (simp add: p Let_def split: option.split)
  moreover have "(\<forall>e\<in>insert d seen. filled name manifests base ?F' e) \<and> unread name (abs_path base) F ?F'"
    using seen by (intro filled_after [OF base, of "[]"]) (simp_all add: d nearest_manifest all_above_manifest)
  ultimately show ?thesis by blast
next
  fix up n
  assume up: "plain (rev up)" and n: "plain [n]" and d: "d = abs_path (base @ rev (n # up))"
    and p: "p = Some (abs_path (base @ rev up))" and parent: "abs_path (base @ rev up) \<in> seen"
  let ?q = "abs_path (base @ rev up)"
  have q: "filled name manifests base F ?q" using seen parent by blast
  then have hit: "map_of (snd (closest_state name (abs_path base) F)) ?q = Some (nearest (manifest_at manifests) base up)"
    using up unfolding filled_def by blast
  obtain F1 where F1: "closest_lookup u name (abs_path base) ?q F = (Inr (nearest (manifest_at manifests) base up), F1)"
    "closest_state name (abs_path base) F1 = closest_state name (abs_path base) F"
    "parents_state name (abs_path base) F1 = parents_state name (abs_path base) F"
    using closest_hit [OF hit, of u] parents_state_simps(3) [of name "abs_path base" u ?q F] by (metis prod.collapse)
  let ?near = "nearest (manifest_at manifests) base (n # up)"
  let ?above = "all_above (manifest_at manifests) base (n # up)"
  let ?F2 = "set_closest name (abs_path base) d ?near F1"
  have near: "(if map_of manifests d \<noteq> None then map_of manifests d else nearest (manifest_at manifests) base up) = ?near"
    by (simp add: nearest_manifest d split: option.split)
  have above: "(case map_of manifests d of None \<Rightarrow> all_above (manifest_at manifests) base up
      | Some f \<Rightarrow> f # all_above (manifest_at manifests) base up) = ?above"
    by (simp add: all_above_manifest d split: option.split)
  have fill: "fill_dirs u name manifests (abs_path base) ((d, p) # ds) F =
      (if name = PNPM_WORKSPACE_YAML then fill_dirs u name manifests (abs_path base) ds ?F2
       else case parents_lookup u name (abs_path base) ?q ?F2 of
              (Inl e, F3) \<Rightarrow> (Some e, F3)
            | (Inr inherited, F3) \<Rightarrow> fill_dirs u name manifests (abs_path base) ds (set_parents name (abs_path base) d
                (case map_of manifests d of None \<Rightarrow> inherited | Some f \<Rightarrow> f # inherited) F3))"
    unfolding p fill_dirs.simps Let_def option.case F1 prod.case sum.case near by (rule refl)
  show ?thesis
  proof (cases "name = PNPM_WORKSPACE_YAML")
    case True
    have "(\<forall>e\<in>insert d seen. filled name manifests base ?F2 e) \<and> unread name (abs_path base) F ?F2"
      by (rule filled_after [OF base _ d seen]) (use up n in \<open>simp_all add: F1 [unfolded True] True\<close>)
    moreover have "fill_dirs u name manifests (abs_path base) ((d, p) # ds) F = fill_dirs u name manifests (abs_path base) ds ?F2"
      unfolding fill if_P [OF True] by (rule refl)
    ultimately show ?thesis by blast
  next
    case False
    then have hit': "map_of (snd (parents_state name (abs_path base) ?F2)) ?q = Some (all_above (manifest_at manifests) base up)"
      using q up F1 unfolding filled_def by simp
    obtain F3 where F3: "parents_lookup u name (abs_path base) ?q ?F2 = (Inr (all_above (manifest_at manifests) base up), F3)"
      "parents_state name (abs_path base) F3 = parents_state name (abs_path base) F"
      "closest_state name (abs_path base) F3 = closest_state name (abs_path base) ?F2"
      using parents_hit [OF hit', of u] closest_state_simps(3) [of name "abs_path base" u ?q ?F2] F1(3)
      by (metis prod.collapse parents_state_simps(4))
    let ?F' = "set_parents name (abs_path base) d ?above F3"
    have "fill_dirs u name manifests (abs_path base) ((d, p) # ds) F = fill_dirs u name manifests (abs_path base) ds ?F'"
      unfolding fill if_not_P [OF False] F3 prod.case sum.case above by (rule refl)
    moreover have "(\<forall>e\<in>insert d seen. filled name manifests base ?F' e) \<and> unread name (abs_path base) F ?F'"
      by (rule filled_after [OF base _ d seen]) (use up n False in \<open>simp_all add: F1 F3\<close>)
    ultimately show ?thesis by blast
  qed
qed

text \<open>All directories, parents first.\<close>

fun parents_before :: "string list \<Rightarrow> string set \<Rightarrow> (string \<times> string option) list \<Rightarrow> bool" where
  "parents_before base seen [] \<longleftrightarrow> True"
| "parents_before base seen ((d, p) # ds) \<longleftrightarrow> placed base seen d p \<and> parents_before base (insert d seen) ds"

lemma fill_dirs_filled:
  assumes "plain base" "parents_before base seen ds" "\<forall>e\<in>seen. filled name manifests base F e"
  shows "\<exists>F'. fill_dirs u name manifests (abs_path base) ds F = (None, F')
     \<and> (\<forall>e\<in>seen \<union> set (js_keys ds). filled name manifests base F' e) \<and> unread name (abs_path base) F F'"
  using assms(2,3)
proof (induction ds arbitrary: seen F)
  case (Cons x ds)
  obtain d p where x: "x = (d, p)" by fastforce
  obtain F1 where F1: "fill_dirs u name manifests (abs_path base) (x # ds) F = fill_dirs u name manifests (abs_path base) ds F1"
    "\<forall>e\<in>insert d seen. filled name manifests base F1 e" "unread name (abs_path base) F F1"
    using fill_step [OF assms(1), of seen d p name manifests F u ds] Cons.prems by (auto simp: x)
  obtain F' where F': "fill_dirs u name manifests (abs_path base) ds F1 = (None, F')"
    "\<forall>e\<in>insert d seen \<union> set (js_keys ds). filled name manifests base F' e" "unread name (abs_path base) F1 F'"
    using Cons.IH [of "insert d seen" F1] Cons.prems F1(2) by (auto simp: x)
  show ?case using F1 F' by (intro exI [of _ F']) (auto simp: x unread_def)
qed (simp add: unread_def)

lemma depth_abs_path: "plain segs \<Longrightarrow> segs \<noteq> [] \<Longrightarrow> length (split_on (CHR ''/'') (abs_path segs)) = Suc (length segs)"
  by (simp add: split_abs_path)

lemma deeper_after:
  assumes "length (split_on (CHR ''/'') d) < length (split_on (CHR ''/'') e)"
  shows "compare (by_depth localeCompare) (e, p) (d, q) = Greater"
proof -
  have "compare comparator_nat (length (split_on (CHR ''/'') e)) (length (split_on (CHR ''/'') d)) = Greater"
    using assms by (simp add: compare_default_eq_Greater_iff)
  then show ?thesis by (simp only: by_depth_def compare_prod_lex_apply compare_key_apply prod.case fst_conv comp.case)
qed

text \<open>
  The root and the directories in it have equally many slashes, so there the order is left to
  \<open>localeCompare\<close>, which puts a string behind its prefixes.
\<close>

definition prefix_first :: "string comparator \<Rightarrow> bool" where
  "prefix_first localeCompare \<longleftrightarrow>
     (\<forall>n. n \<noteq> [] \<longrightarrow> compare localeCompare (abs_path [] @ n) (abs_path []) = Greater)"

lemma child_after:
  assumes "plain base" "plain (rev (n # up))" "base \<noteq> [] \<or> prefix_first localeCompare"
  shows "compare (by_depth localeCompare) (abs_path (base @ rev (n # up)), p) (abs_path (base @ rev up), q) = Greater"
proof (cases "base @ rev up = []")
  case True
  have "split_on (CHR ''/'') (abs_path []) = [[], []]" by code_simp
  then have "length (split_on (CHR ''/'') (abs_path [n])) = length (split_on (CHR ''/'') (abs_path []))"
    using assms(2) True by (simp add: depth_abs_path)
  moreover have "compare localeCompare (abs_path [n]) (abs_path []) = Greater"
    using assms(2,3) True by (auto simp: prefix_first_def abs_path_def plain_def clean_segment_def)
  ultimately show ?thesis using True
    by (simp add: by_depth_def compare_prod_lex_apply compare_key_apply)
next
  case False
  then show ?thesis using assms by (intro deeper_after) (simp add: depth_abs_path)
qed

lemma sorted_parents_before:
  assumes "plain base" "base \<noteq> [] \<or> prefix_first localeCompare" "Sorting_Algorithms.sorted (by_depth localeCompare) ds"
    "\<forall>(d, p)\<in>set ds. placed base (seen \<union> set (js_keys ds)) d p"
  shows "parents_before base seen ds"
  using assms(3,4)
proof (induction ds arbitrary: seen rule: list.induct)
  case (Cons x ds)
  obtain d p where x: "x = (d, p)" by fastforce
  have "placed base seen d p"
  proof -
    have "placed base (seen \<union> set (js_keys (x # ds))) d p" using Cons.prems(2) by (auto simp: x)
    moreover have "abs_path (base @ rev up) \<in> seen"
      if up: "plain (rev up)" "plain [n]" "d = abs_path (base @ rev (n # up))"
        "abs_path (base @ rev up) \<in> seen \<union> set (js_keys (x # ds))" for up n
    proof (rule ccontr)
      let ?q = "abs_path (base @ rev up)"
      assume "?q \<notin> seen"
      moreover have "?q \<noteq> d"
        using up(1-3) assms(1) plain_inject [of "base @ rev up" "base @ rev (n # up)"] by auto
      ultimately obtain r where "(?q, r) \<in> set ds" using up(4) by (auto simp: x)
      then have "compare (by_depth localeCompare) (d, p) (?q, r) \<noteq> Greater"
        using Cons.prems(1) Sorting_Algorithms.sorted_Cons_imp_not_less by (fastforce simp: x)
      moreover have "plain (rev (n # up))" using up(1,2) by simp
      ultimately show False using child_after [OF assms(1) _ assms(2), of n up p r] up(3) by simp
    qed
    ultimately show ?thesis unfolding placed_def by blast
  qed
  moreover have "parents_before base (insert d seen) ds"
    using Cons.prems by (intro Cons.IH) (auto simp: x dest: Sorting_Algorithms.sorted_Cons_imp_sorted)
  ultimately show ?case by (simp add: x)
qed simp

section \<open>Preloaded lookups\<close>

lemma directory_tree_placed: "directory_tree base D \<Longrightarrow> (d, p) \<in> set D \<Longrightarrow> placed base (set (js_keys D)) d p"
  unfolding directory_tree_def placed_def by fast

lemma directory_tree_path:
  assumes "directory_tree base D" "d \<in> set (js_keys D)"
  shows "\<exists>up. plain (rev up) \<and> d = abs_path (base @ rev up)"
proof -
  obtain p where "(d, p) \<in> set D" using assms(2) by auto
  from directory_tree_placed [OF assms(1) this] show ?thesis
    unfolding placed_def
  proof (elim disjE exE conjE)
    assume "d = abs_path base"
    then show ?thesis by (intro exI [of _ "[]"]) simp
  next
    fix up n
    assume "plain (rev up)" "plain [n]" "d = abs_path (base @ rev (n # up))"
    then show ?thesis by (intro exI [of _ "n # up"]) simp
  qed
qed

lemma directory_tree_parent:
  assumes "directory_tree base D" "plain (rev (n # up))" "abs_path (base @ rev (n # up)) \<in> set (js_keys D)"
  shows "abs_path (base @ rev up) \<in> set (js_keys D)"
proof -
  have base: "plain base" using assms(1) by (simp add: directory_tree_def)
  obtain p where "(abs_path (base @ rev (n # up)), p) \<in> set D" using assms(3) by auto
  then have "placed base (set (js_keys D)) (abs_path (base @ rev (n # up))) p"
    using directory_tree_placed assms(1) by blast
  then show ?thesis
    unfolding placed_def
  proof (elim disjE exE conjE)
    assume "abs_path (base @ rev (n # up)) = abs_path base"
    then show ?thesis using assms(2) base plain_inject [of "base @ rev (n # up)" base] by simp
  next
    fix up' n'
    assume eq: "abs_path (base @ rev (n # up)) = abs_path (base @ rev (n' # up'))"
      and up': "plain (rev up')" "plain [n']" "abs_path (base @ rev up') \<in> set (js_keys D)"
    then have "up = up'" using assms(2) base plain_inject [of "base @ rev (n # up)" "base @ rev (n' # up')"] by simp
    with up'(3) show ?thesis by simp
  qed
qed

lemma searches_agree:
  assumes "directory_tree base D" "\<forall>d\<in>set (js_keys D). files_of_directory u name d = (case map_of manifests d of None \<Rightarrow> [] | Some f \<Rightarrow> [f])"
    "plain (rev up)" "abs_path (base @ rev up) \<in> set (js_keys D)"
  shows "nearest (listed u name) base up = nearest (manifest_at manifests) base up"
    and "all_above (listed u name) base up = all_above (manifest_at manifests) base up"
proof -
  have "nearest (listed u name) base up = nearest (manifest_at manifests) base up
      \<and> all_above (listed u name) base up = all_above (manifest_at manifests) base up"
    using assms(3,4)
  proof (induction up)
    case Nil
    then have "listed u name base = manifest_at manifests base"
      using bspec [OF assms(2) Nil(2)] by (simp add: manifest_at_def)
    then show ?case by (simp add: nearest.simps all_above.simps)
  next
    case (Cons n up)
    have "listed u name (base @ rev (n # up)) = manifest_at manifests (base @ rev (n # up))"
      using bspec [OF assms(2) Cons.prems(2)] by (simp add: manifest_at_def)
    then show ?case
      using Cons directory_tree_parent [OF assms(1) Cons.prems] by (simp add: nearest.simps all_above.simps)
  qed
  then show "nearest (listed u name) base up = nearest (manifest_at manifests) base up"
    "all_above (listed u name) base up = all_above (manifest_at manifests) base up" by blast+
qed

lemma fill_all:
  assumes "directory_tree base D" "base \<noteq> [] \<or> prefix_first localeCompare"
  shows "\<exists>F'. fillManifestCaches u localeCompare name manifests D (abs_path base) access F = (None, F')
     \<and> (\<forall>d\<in>set (js_keys D). filled name manifests base F' d) \<and> unread name (abs_path base) F F'"
proof -
  let ?ds = "Sorting_Algorithms.sort (by_depth localeCompare) D"
  let ?F = "F\<lparr>fu_access := set_entry name (abs_path base) access (fu_access F)\<rparr>"
  have base: "plain base" using assms(1) by (simp add: directory_tree_def)
  have "parents_before base {} ?ds"
    using base assms(2) Sorting_Algorithms.sorted_sort
    by (rule sorted_parents_before) (use directory_tree_placed [OF assms(1)] in auto)
  then obtain F' where "fill_dirs u name manifests (abs_path base) ?ds ?F = (None, F')"
    "\<forall>e\<in>set (js_keys ?ds). filled name manifests base F' e" "unread name (abs_path base) ?F F'"
    using fill_dirs_filled [OF base, of "{}" ?ds name manifests ?F u] by auto
  then show ?thesis by (auto simp: fillManifestCaches_def unread_def)
qed

text \<open>
  C40. Once the caches of a manifest name are preloaded, the closest lookup from any directory of the walk
  answers the manifest that the walk has met in that directory or else in the nearest one above it,
  up to the top directory, and the lookup in all parents those of all these directories, the nearest
  first (none for the workspace file of pnpm, which is only looked up by the first). Filling reads nothing
  and cannot fail, and the answers do not depend on the file system, which the analysis may not be allowed
  to access.
\<close>

theorem preloaded_lookups_agree:
  assumes "directory_tree base D" "base \<noteq> [] \<or> prefix_first localeCompare"
    and "fillManifestCaches u localeCompare name manifests D (abs_path base) access F = (err, F')"
    and "plain (rev up)" "abs_path (base @ rev up) \<in> set (js_keys D)"
  shows "err = None \<and> unread name (abs_path base) F F'
     \<and> fst (closest_lookup u' name (abs_path base) (abs_path (base @ rev up)) F')
         = Inr (nearest (manifest_at manifests) base up)
     \<and> (name \<noteq> PNPM_WORKSPACE_YAML \<longrightarrow>
          fst (parents_lookup u' name (abs_path base) (abs_path (base @ rev up)) F')
            = Inr (all_above (manifest_at manifests) base up))"
proof -
  have "err = None" "filled name manifests base F' (abs_path (base @ rev up))" "unread name (abs_path base) F F'"
    using fill_all [OF assms(1,2), of u name manifests access F] assms(3,5) by auto
  then show ?thesis using assms(4) closest_hit(1) parents_hit(1) unfolding filled_def by blast
qed

text \<open>
  Where the file system has in each directory just the manifest that the walk has met there, if any,
  these are the answers of the file system. (The walk takes names in any case, strips byte order marks
  and leaves out excluded directories, so this need not be so.)
\<close>

lemma preloaded_lookups_like_file_system:
  assumes "directory_tree base D" "plain (rev up)" "abs_path (base @ rev up) \<in> set (js_keys D)"
    and "\<forall>d\<in>set (js_keys D). files_of_directory u name d = (case map_of manifests d of None \<Rightarrow> [] | Some f \<Rightarrow> [f])"
  shows "fst (closest_lookup u name (abs_path base) (abs_path (base @ rev up)) no_lookups)
       = Inr (nearest (manifest_at manifests) base up)"
    and "fst (parents_lookup u name (abs_path base) (abs_path (base @ rev up)) no_lookups)
       = Inr (all_above (manifest_at manifests) base up)"
proof -
  have base: "plain base" using assms(1) by (simp add: directory_tree_def)
  have "fst (closest_lookup u name (abs_path base) (abs_path (base @ rev up)) no_lookups) = Inr (nearest (listed u name) base up)"
    "fst (parents_lookup u name (abs_path base) (abs_path (base @ rev up)) no_lookups) = Inr (all_above (listed u name) base up)"
    using closest_get_nearest [OF base assms(2), of u name "([], [])"]
      all_in_parents_get_all_above [OF base assms(2), of u name "([], [])"]
    by (auto simp: fst_closest_lookup fst_parents_lookup closest_state_def parents_state_def no_lookups_def
        entry_def listings_ok_def lookups_ok_def)
  then show "fst (closest_lookup u name (abs_path base) (abs_path (base @ rev up)) no_lookups)
       = Inr (nearest (manifest_at manifests) base up)"
    "fst (parents_lookup u name (abs_path base) (abs_path (base @ rev up)) no_lookups)
       = Inr (all_above (manifest_at manifests) base up)"
    using searches_agree [OF assms(1,4,2,3)] by simp_all
qed

text \<open>A file system with one manifest, and one that is gone.\<close>

definition sample_manifest :: shared_file where
  "sample_manifest = \<lparr>sf_filePath = ''/p/package.json'', sf_fileContent = ''{}''\<rparr>"

definition sample_fs :: up_env where
  "sample_fs = \<lparr>ue_readdir = (\<lambda>d. if d = ''/p'' then Some [''package.json'', ''src''] else if d = ''/p/src'' then Some [] else None),
     ue_isFile = (\<lambda>p. Some (p = ''/p/package.json'')),
     ue_readFile = (\<lambda>p. if p = ''/p/package.json'' then Some ''{}'' else None),
     ue_match = (=)\<rparr>"

definition gone_fs :: up_env where
  "gone_fs = \<lparr>ue_readdir = (\<lambda>d. None), ue_isFile = (\<lambda>p. None), ue_readFile = (\<lambda>p. None), ue_match = (=)\<rparr>"

definition sample_directories :: "(string, string option) js_map" where
  "sample_directories = [(''/p'', None), (''/p/src'', Some ''/p'')]"

lemma sample_directories_tree: "directory_tree [''p''] sample_directories"
proof -
  have "abs_path [''p''] = ''/p''" "abs_path ([''p''] @ rev [''src'']) = ''/p/src''" by (simp_all add: abs_path_def)
  moreover have "plain [''p'']" "plain [''src'']" by (simp_all add: plain_def clean_segment_def)
  ultimately show ?thesis unfolding directory_tree_def sample_directories_def
    by (auto intro!: exI [of _ "[]"] exI [of _ "''src''"])
qed

theorem preloaded_lookups_agree_witness:
  "\<exists>F'. fillManifestCaches sample_fs Comparator.flat PACKAGE_JSON [(''/p'', sample_manifest)] sample_directories
       (abs_path [''p'']) False no_lookups = (None, F')
     \<and> fst (closest_lookup gone_fs PACKAGE_JSON (abs_path [''p'']) ''/p/src'' F') = Inr (Some sample_manifest)"
proof -
  obtain err F' where fill: "fillManifestCaches sample_fs Comparator.flat PACKAGE_JSON [(''/p'', sample_manifest)]
      sample_directories (abs_path [''p'']) False no_lookups = (err, F')" by fastforce
  have up: "plain (rev [''src''])" by (simp add: plain_def clean_segment_def)
  have src: "abs_path ([''p''] @ rev [''src'']) = ''/p/src''" by (simp add: abs_path_def)
  then have "abs_path ([''p''] @ rev [''src'']) \<in> set (js_keys sample_directories)"
    by (simp add: sample_directories_def)
  note agree = preloaded_lookups_agree [OF sample_directories_tree _ fill up this, of gone_fs]
  have "nearest (manifest_at [(''/p'', sample_manifest)]) [''p''] [''src''] = Some sample_manifest"
    by (simp add: nearest_manifest abs_path_def)
  with agree fill show ?thesis unfolding src by simp
qed

section \<open>After clearing\<close>

lemma entry_not_set: "k' \<noteq> k \<Longrightarrow> entry (js_set k v m) k' = entry m k'"
  by (simp add: entry_def update_conv')

lemma clearDependenciesCache_closest:
  assumes "name \<in> set PRELOADABLE_DEPENDENCY_MANIFESTS"
  shows "closest_state name topDir (clearDependenciesCache F) = (fst (closest_state name topDir F), [])"
  using assms
  by (auto simp: clearDependenciesCache_def PRELOADABLE_DEPENDENCY_MANIFESTS_def DEPENDENCY_MANIFESTS_def
      PACKAGE_JSON_def DENO_JSON_def DENO_JSONC_def PNPM_WORKSPACE_YAML_def closest_state_def entry_not_set Let_def)
    (simp_all add: entry_def)

text \<open>
  The listings survive: a lookup after clearing gives the content that was read before it, though the
  file has changed.
\<close>

lemma cleared_cache_is_stale:
  "let lookup = (\<lambda>u F. closest_lookup u PACKAGE_JSON ''/'' ''/p'' F);
       changed = sample_fs\<lparr>ue_readFile := (\<lambda>p. Some ''{\"type\": 1}'')\<rparr>
   in fst (lookup changed (clearDependenciesCache (snd (lookup sample_fs no_lookups)))) = Inr (Some sample_manifest)
     \<and> fst (lookup changed no_lookups) = Inr (Some (sample_manifest\<lparr>sf_fileContent := ''{\"type\": 1}''\<rparr>))"
  by code_simp

end
