(* ===== verification/File_Walk.thy ===== *)
theory File_Walk
  imports Path_Parents
begin

text \<open>
  The walk over the files of a project, \<open>packages/analysis/src/common/find-files.ts\<close>. \<open>opendir\<close> gives
  the entries of a directory and the error that ends their iteration, if any; entries that are
  neither files nor directories, as symbolic links are, have a kind of their own. The callback acts
  on a state and may throw. \<open>fuel\<close> bounds the directories that are opened.
\<close>

section \<open>The walk\<close>

datatype dirent_kind = FileKind | DirectoryKind | OtherKind

type_synonym 'e listing = "(string \<times> dirent_kind) list \<times> 'e option"
type_synonym 'e opendir = "string \<Rightarrow> 'e + 'e listing"
type_synonym visit = "string \<times> dirent_kind"

datatype 'e walk_end = WalkDone | WalkFailed 'e | WalkOutOfFuel

text \<open>What is set up once for a walk: the current directory, the file system and the exclusions.\<close>

record 'e walk_env =
  we_cwd :: string
  we_opendir :: "'e opendir"
  we_glob :: globbing
  we_exclusions :: "minimatch list"

definition dirent_path :: "'e walk_env \<Rightarrow> string \<Rightarrow> string \<Rightarrow> string" where
  "dirent_path w parentPath name = joinPaths (normalizeToAbsolutePath (we_cwd w) parentPath ROOT_PATH) name"

definition not_excluded :: "'e walk_env \<Rightarrow> string \<Rightarrow> bool" where
  "not_excluded w filePath \<longleftrightarrow> \<not> isJsTsExcluded (we_glob w) filePath (we_exclusions w)"

text \<open>The entries of one directory; subdirectories are pushed at the end of the stack.\<close>

fun walk_entries ::
  "'e walk_env \<Rightarrow> (dirent_kind \<Rightarrow> string \<Rightarrow> 's \<Rightarrow> 'e option \<times> 's) \<Rightarrow> string \<Rightarrow> (string \<times> dirent_kind) list
   \<Rightarrow> 'e option \<Rightarrow> string list \<Rightarrow> 's \<Rightarrow> 'e walk_end \<times> string list \<times> 's" where
  "walk_entries w onEntry directory [] err directories s =
     (case err of None \<Rightarrow> WalkDone | Some e \<Rightarrow> WalkFailed e, directories, s)"
| "walk_entries w onEntry directory ((name, k) # es) err directories s =
     (let filePath = dirent_path w directory name in
      if not_excluded w filePath then
        let directories' = (if k = DirectoryKind then directories @ [filePath] else directories) in
        case onEntry k filePath s of
          (Some e, s') \<Rightarrow> (WalkFailed e, directories', s')
        | (None, s') \<Rightarrow> walk_entries w onEntry directory es err directories' s'
      else walk_entries w onEntry directory es err directories s)"

fun walk_directories ::
  "'e walk_env \<Rightarrow> (dirent_kind \<Rightarrow> string \<Rightarrow> 's \<Rightarrow> 'e option \<times> 's) \<Rightarrow> nat \<Rightarrow> string list \<Rightarrow> 's
   \<Rightarrow> 'e walk_end \<times> 's" where
  "walk_directories w onEntry fuel [] s = (WalkDone, s)"
| "walk_directories w onEntry 0 (d # ds) s = (WalkOutOfFuel, s)"
| "walk_directories w onEntry (Suc fuel) (d # ds) s =
     (let directory = last (d # ds); directories = butlast (d # ds) in
      case we_opendir w directory of
        Inl e \<Rightarrow> (WalkFailed e, s)
      | Inr (es, err) \<Rightarrow>
          (case walk_entries w onEntry directory es err directories s of
             (WalkDone, directories', s') \<Rightarrow> walk_directories w onEntry fuel directories' s'
           | (stop, _, s') \<Rightarrow> (stop, s')))"

definition findFiles ::
  "'e walk_env \<Rightarrow> (dirent_kind \<Rightarrow> string \<Rightarrow> 's \<Rightarrow> 'e option \<times> 's) \<Rightarrow> nat \<Rightarrow> string \<Rightarrow> 's \<Rightarrow> 'e walk_end \<times> 's" where
  "findFiles w onEntry fuel dir s =
     walk_directories w onEntry fuel [normalizeToAbsolutePath (we_cwd w) dir ROOT_PATH] s"

section \<open>The visits and the callback\<close>

text \<open>The walk is the sequence of its visits, acted on until the callback throws.\<close>

fun run_visits ::
  "(dirent_kind \<Rightarrow> string \<Rightarrow> 's \<Rightarrow> 'e option \<times> 's) \<Rightarrow> visit list \<Rightarrow> 'e walk_end \<Rightarrow> 's \<Rightarrow> 'e walk_end \<times> 's" where
  "run_visits onEntry [] stop s = (stop, s)"
| "run_visits onEntry ((p, k) # vs) stop s =
     (case onEntry k p s of (Some e, s') \<Rightarrow> (WalkFailed e, s') | (None, s') \<Rightarrow> run_visits onEntry vs stop s')"

definition visited_entries :: "'e walk_env \<Rightarrow> string \<Rightarrow> (string \<times> dirent_kind) list \<Rightarrow> visit list" where
  "visited_entries w directory es =
     filter (\<lambda>(p, k). not_excluded w p) (map (\<lambda>(name, k). (dirent_path w directory name, k)) es)"

definition directories_in :: "visit list \<Rightarrow> string list" where
  "directories_in vs = map fst (filter (\<lambda>(p, k). k = DirectoryKind) vs)"

fun walk_trace :: "'e walk_env \<Rightarrow> nat \<Rightarrow> string list \<Rightarrow> visit list \<times> 'e walk_end" where
  "walk_trace w fuel [] = ([], WalkDone)"
| "walk_trace w 0 (d # ds) = ([], WalkOutOfFuel)"
| "walk_trace w (Suc fuel) (d # ds) =
     (let directory = last (d # ds) in
      case we_opendir w directory of
        Inl e \<Rightarrow> ([], WalkFailed e)
      | Inr (es, Some e) \<Rightarrow> (visited_entries w directory es, WalkFailed e)
      | Inr (es, None) \<Rightarrow>
          (let vs = visited_entries w directory es;
               (vs', stop) = walk_trace w fuel (butlast (d # ds) @ directories_in vs)
           in (vs @ vs', stop)))"

lemma run_visits_append:
  "run_visits onEntry (vs @ vs') stop s =
     (case run_visits onEntry vs WalkDone s of
        (WalkDone, s') \<Rightarrow> run_visits onEntry vs' stop s'
      | r \<Rightarrow> r)"
  by (induction vs arbitrary: s) (auto split: option.split prod.split)

lemma visited_entries_simps [simp]:
  "visited_entries w directory [] = []"
  "visited_entries w directory ((name, k) # es) =
     (if not_excluded w (dirent_path w directory name)
      then (dirent_path w directory name, k) # visited_entries w directory es
      else visited_entries w directory es)"
  by (simp_all add: visited_entries_def)

lemma directories_in_simps [simp]:
  "directories_in [] = []"
  "directories_in ((p, k) # vs) = (if k = DirectoryKind then p # directories_in vs else directories_in vs)"
  by (simp_all add: directories_in_def)

lemma run_visits_end: "run_visits onEntry vs WalkDone s \<noteq> (WalkOutOfFuel, s')"
  by (induction vs arbitrary: s) (auto split: option.splits prod.splits)

lemma run_visits_stop:
  "run_visits onEntry vs stop s =
     (case run_visits onEntry vs WalkDone s of (WalkDone, s') \<Rightarrow> (stop, s') | r \<Rightarrow> r)"
  by (induction vs arbitrary: s) (auto split: option.split prod.split)

lemma walk_entries_done:
  "run_visits onEntry (visited_entries w directory es) WalkDone s = (WalkDone, s') \<Longrightarrow>
   walk_entries w onEntry directory es err directories s =
     (case err of None \<Rightarrow> WalkDone | Some e \<Rightarrow> WalkFailed e,
      directories @ directories_in (visited_entries w directory es), s')"
proof (induction es arbitrary: directories s)
  case (Cons e es)
  obtain name k where "e = (name, k)" by fastforce
  with Cons show ?case by (auto simp: Let_def split: option.splits prod.splits if_splits)
qed simp

lemma walk_entries_failed:
  "run_visits onEntry (visited_entries w directory es) WalkDone s = (WalkFailed e, s') \<Longrightarrow>
   \<exists>ds. walk_entries w onEntry directory es err directories s = (WalkFailed e, ds, s')"
proof (induction es arbitrary: directories s)
  case (Cons e es)
  obtain name k where "e = (name, k)" by fastforce
  with Cons show ?case by (auto simp: Let_def split: option.splits prod.splits if_splits)
qed simp

lemma walk_directories_trace:
  "walk_directories w onEntry fuel ds s =
     (case walk_trace w fuel ds of (vs, stop) \<Rightarrow> run_visits onEntry vs stop s)"
proof (induction fuel arbitrary: ds s)
  case 0
  then show ?case by (cases ds) simp_all
next
  case (Suc fuel)
  show ?case
  proof (cases ds)
    case (Cons d ds')
    let ?d = "last (d # ds')"
    let ?ds = "butlast (d # ds')"
    show ?thesis
    proof (cases "we_opendir w ?d")
      case (Inr r)
      obtain es err where r: "r = (es, err)" by fastforce
      let ?vs = "visited_entries w ?d es"
      obtain stop s' where run: "run_visits onEntry ?vs WalkDone s = (stop, s')" by fastforce
      note eqs = Inr r run Cons Let_def
      show ?thesis
      proof (cases stop)
        case WalkDone
        with run have "walk_entries w onEntry ?d es err ?ds s =
            (case err of None \<Rightarrow> WalkDone | Some e \<Rightarrow> WalkFailed e, ?ds @ directories_in ?vs, s')"
          by (simp add: walk_entries_done)
        then show ?thesis
          using WalkDone Suc.IH [of "?ds @ directories_in ?vs" s'] run_visits_stop [of onEntry ?vs _ s]
          by (auto simp: eqs run_visits_append split: option.splits prod.splits simp del: last.simps butlast.simps)
      next
        case (WalkFailed e)
        then obtain dirs where "walk_entries w onEntry ?d es err ?ds s = (WalkFailed e, dirs, s')"
          using walk_entries_failed [of onEntry w ?d es s e s'] run by blast
        then show ?thesis
          using WalkFailed run_visits_stop [of onEntry ?vs _ s]
          by (auto simp: eqs run_visits_append split: option.splits prod.splits simp del: last.simps butlast.simps)
      next
        case WalkOutOfFuel
        then show ?thesis using run_visits_end [of onEntry ?vs s s'] run by simp
      qed
    qed (simp add: Cons Let_def)
  qed simp
qed

lemma findFiles_trace:
  "findFiles w onEntry fuel dir s =
     (case walk_trace w fuel [normalizeToAbsolutePath (we_cwd w) dir ROOT_PATH] of
        (vs, stop) \<Rightarrow> run_visits onEntry vs stop s)"
  by (simp add: findFiles_def walk_directories_trace)

section \<open>A tree of files\<close>

text \<open>
  What the walk meets if directories form a tree. Names have no slash and no backslash: one with a
  backslash is legal on POSIX, but \<open>normalizeToAbsolutePath\<close> makes a slash of it.
\<close>

datatype file_node = FileNode | OtherNode | DirNode "(string \<times> file_node) list"

fun node_kind :: "file_node \<Rightarrow> dirent_kind" where
  "node_kind FileNode = FileKind"
| "node_kind OtherNode = OtherKind"
| "node_kind (DirNode es) = DirectoryKind"

fun presents :: "'e walk_env \<Rightarrow> string list \<Rightarrow> file_node \<Rightarrow> bool" where
  "presents w segs (DirNode es) \<longleftrightarrow>
     we_opendir w (abs_path segs) = Inr (map (\<lambda>(n, x). (n, node_kind x)) es, None)
     \<and> distinct (map fst es) \<and> (\<forall>(n, x)\<in>set es. plain [n] \<and> presents w (segs @ [n]) x)"
| "presents w segs x \<longleftrightarrow> True"

fun node_visits :: "'e walk_env \<Rightarrow> string list \<Rightarrow> file_node \<Rightarrow> visit list"
  and below_visits :: "'e walk_env \<Rightarrow> string list \<Rightarrow> (string \<times> file_node) list \<Rightarrow> visit list" where
  "node_visits w segs (DirNode es) =
     filter (\<lambda>(p, k). not_excluded w p) (map (\<lambda>(n, x). (abs_path (segs @ [n]), node_kind x)) es)
     @ below_visits w segs es"
| "node_visits w segs x = []"
| "below_visits w segs [] = []"
| "below_visits w segs ((n, x) # es) =
     below_visits w segs es
     @ (if not_excluded w (abs_path (segs @ [n])) then node_visits w (segs @ [n]) x else [])"

fun directory_count :: "file_node \<Rightarrow> nat" where
  "directory_count (DirNode es) = Suc (sum_list (map (\<lambda>(n, x). directory_count x) es))"
| "directory_count x = 0"

fun node_at :: "file_node \<Rightarrow> string list \<Rightarrow> file_node option" where
  "node_at x [] = Some x"
| "node_at (DirNode es) (n # r) = (case map_of es n of None \<Rightarrow> None | Some x \<Rightarrow> node_at x r)"
| "node_at x (n # r) = None"

text \<open>The directories that one directory puts on the stack.\<close>

definition sub_items :: "'e walk_env \<Rightarrow> string list \<Rightarrow> (string \<times> file_node) list \<Rightarrow> (string list \<times> file_node) list" where
  "sub_items w segs es =
     map (\<lambda>(n, x). (segs @ [n], x))
       (filter (\<lambda>(n, x). node_kind x = DirectoryKind \<and> not_excluded w (abs_path (segs @ [n]))) es)"

lemma node_visits_leaf: "node_kind x \<noteq> DirectoryKind \<Longrightarrow> node_visits w segs x = []"
  by (cases x) simp_all

lemma below_visits_items:
  "below_visits w segs es = concat (rev (map (\<lambda>(s, x). node_visits w s x) (sub_items w segs es)))"
proof (induction es)
  case (Cons e es)
  obtain n x where "e = (n, x)" by fastforce
  with Cons show ?case by (cases "node_kind x = DirectoryKind") (simp_all add: sub_items_def node_visits_leaf)
qed (simp add: sub_items_def)

lemma directories_in_entries:
  "directories_in (filter (\<lambda>(p, k). not_excluded w p) (map (\<lambda>(n, x). (abs_path (segs @ [n]), node_kind x)) es))
     = map (\<lambda>(s, x). abs_path s) (sub_items w segs es)"
  by (induction es) (auto simp: sub_items_def directories_in_def)

lemma sub_items_count: "(\<Sum>(s, x)\<leftarrow>sub_items w segs es. directory_count x) \<le> (\<Sum>(n, x)\<leftarrow>es. directory_count x)"
  by (induction es) (auto simp: sub_items_def)

definition walkable :: "'e walk_env \<Rightarrow> string list \<times> file_node \<Rightarrow> bool" where
  "walkable w = (\<lambda>(segs, x). plain segs \<and> presents w segs x \<and> node_kind x = DirectoryKind)"

lemma walkable_sub_items:
  assumes "walkable w (segs, DirNode es)" "item \<in> set (sub_items w segs es)"
  shows "walkable w item"
  using assms by (auto simp: walkable_def sub_items_def)

lemma visited_entries_presented:
  assumes "plain segs" "\<forall>(n, x)\<in>set es. plain [n]"
  shows "visited_entries w (abs_path segs) (map (\<lambda>(n, x). (n, node_kind x)) es)
     = filter (\<lambda>(p, k). not_excluded w p) (map (\<lambda>(n, x). (abs_path (segs @ [n]), node_kind x)) es)"
  using assms by (induction es) (auto simp: dirent_path_def)

lemma walk_trace_items:
  assumes "\<forall>item\<in>set items. walkable w item" "(\<Sum>(s, x)\<leftarrow>items. directory_count x) \<le> fuel"
  shows "walk_trace w fuel (map (\<lambda>(s, x). abs_path s) items)
     = (concat (rev (map (\<lambda>(s, x). node_visits w s x) items)), WalkDone)"
  using assms
proof (induction fuel arbitrary: items)
  case 0
  show ?case
  proof (cases items)
    case (Cons item rest)
    then show ?thesis using 0 by (cases item; cases "snd item") (auto simp: walkable_def)
  qed simp
next
  case (Suc fuel)
  show ?case
  proof (cases items rule: rev_cases)
    case (snoc rest item)
    obtain segs x where item: "item = (segs, x)" by fastforce
    have "walkable w (segs, x)" using Suc.prems by (simp add: snoc item)
    then obtain es where x: "x = DirNode es" and segs: "plain segs" and pr: "presents w segs (DirNode es)"
      by (cases x) (auto simp: walkable_def)
    let ?sub = "sub_items w segs es"
    let ?own = "filter (\<lambda>(p, k). not_excluded w p) (map (\<lambda>(n, x). (abs_path (segs @ [n]), node_kind x)) es)"
    have own: "visited_entries w (abs_path segs) (map (\<lambda>(n, x). (n, node_kind x)) es) = ?own"
      using pr segs by (intro visited_entries_presented) auto
    have "\<forall>item\<in>set (rest @ ?sub). walkable w item"
      using Suc.prems(1) walkable_sub_items [of w segs es] by (auto simp: snoc item x)
    moreover have "(\<Sum>(s, x)\<leftarrow>rest @ ?sub. directory_count x) \<le> fuel"
      using Suc.prems(2) sub_items_count [of w segs es] by (simp add: snoc item x)
    ultimately have rec: "walk_trace w fuel (map (\<lambda>(s, x). abs_path s) (rest @ ?sub))
        = (concat (rev (map (\<lambda>(s, x). node_visits w s x) (rest @ ?sub))), WalkDone)"
      by (rule Suc.IH)
    obtain d ds where stack: "map (\<lambda>(s, x). abs_path s) items = d # ds"
      by (cases "map (\<lambda>(s, x). abs_path s) items") (auto simp: snoc)
    have top: "last (d # ds) = abs_path segs" "butlast (d # ds) = map (\<lambda>(s, x). abs_path s) rest"
      unfolding stack [symmetric] by (simp_all add: snoc item)
    show ?thesis
      unfolding stack walk_trace.simps Let_def top
      using rec pr by (simp add: own directories_in_entries snoc item x below_visits_items)
  qed simp
qed

text \<open>With as much fuel as there are directories the walk ends, and its visits are those of the tree.\<close>

lemma walk_trace_tree:
  assumes "plain base" "presents w base (DirNode es)" "directory_count (DirNode es) \<le> fuel"
  shows "walk_trace w fuel [abs_path base] = (node_visits w base (DirNode es), WalkDone)"
  using walk_trace_items [of "[(base, DirNode es)]" w fuel] assms by (simp add: walkable_def)

section \<open>What is visited\<close>

text \<open>No directory on the way, and not the entry itself, is excluded.\<close>

fun kept_below :: "'e walk_env \<Rightarrow> string list \<Rightarrow> string list \<Rightarrow> bool" where
  "kept_below w base [] \<longleftrightarrow> True"
| "kept_below w base (n # r) \<longleftrightarrow> not_excluded w (abs_path (base @ [n])) \<and> kept_below w (base @ [n]) r"

lemma kept_below_iff:
  "kept_below w base rel \<longleftrightarrow> (\<forall>i<length rel. not_excluded w (abs_path (base @ take (Suc i) rel)))"
  by (induction rel arbitrary: base) (simp_all add: All_less_Suc2)

lemma below_visits_iff:
  "v \<in> set (below_visits w segs es) \<longleftrightarrow>
     (\<exists>(n, x)\<in>set es. not_excluded w (abs_path (segs @ [n])) \<and> v \<in> set (node_visits w (segs @ [n]) x))"
  by (induction es) (auto split: if_splits)

text \<open>\<open>reaches x base rel y\<close>: from the node \<open>x\<close> at \<open>base\<close> the path \<open>rel\<close> leads to \<open>y\<close>, nothing excluded.\<close>

definition reaches :: "'e walk_env \<Rightarrow> file_node \<Rightarrow> string list \<Rightarrow> string list \<Rightarrow> file_node \<Rightarrow> bool" where
  "reaches w x base rel y \<longleftrightarrow> node_at x rel = Some y \<and> kept_below w base rel"

lemma reaches_Nil [simp]: "reaches w x base [] y \<longleftrightarrow> y = x"
  by (auto simp: reaches_def)

lemma reaches_leaf: "node_kind x \<noteq> DirectoryKind \<Longrightarrow> reaches w x base rel y \<longleftrightarrow> rel = [] \<and> y = x"
  by (cases x; cases rel) (auto simp: reaches_def)

lemma reaches_Cons:
  "distinct (map fst es) \<Longrightarrow> reaches w (DirNode es) base (n # rel) y \<longleftrightarrow>
     (\<exists>x. (n, x) \<in> set es \<and> not_excluded w (abs_path (base @ [n])) \<and> reaches w x (base @ [n]) rel y)"
proof -
  assume "distinct (map fst es)"
  then have m: "(n, x) \<in> set es \<longleftrightarrow> map_of es n = Some x" for x by simp
  show ?thesis unfolding m reaches_def by (cases "map_of es n") auto
qed

lemma ex_list_iff: "(\<exists>xs. P xs) \<longleftrightarrow> P [] \<or> (\<exists>xs. xs \<noteq> [] \<and> P xs)"
  by metis

lemma ex_Cons_iff: "(\<exists>xs. xs \<noteq> [] \<and> P xs) \<longleftrightarrow> (\<exists>x xs. P (x # xs))"
  by (metis neq_Nil_conv)

lemma node_visits_iff:
  assumes "presents w base x"
  shows "(p, k) \<in> set (node_visits w base x) \<longleftrightarrow>
     (\<exists>rel. rel \<noteq> [] \<and> (\<exists>y. p = abs_path (base @ rel) \<and> node_kind y = k \<and> reaches w x base rel y))"
  using assms
proof (induction x arbitrary: base)
  case (DirNode es)
  have es: "distinct (map fst es)" using DirNode.prems by simp
  define here where "here rel y \<longleftrightarrow> p = abs_path (base @ rel) \<and> node_kind y = k" for rel y
  have IH: "(p, k) \<in> set (node_visits w (base @ [n]) x) \<longleftrightarrow>
      (\<exists>rel. rel \<noteq> [] \<and> (\<exists>y. here (n # rel) y \<and> reaches w x (base @ [n]) rel y))" if "(n, x) \<in> set es" for n x
    using that DirNode.prems by (subst DirNode.IH [of "(n, x)"]) (auto simp: here_def intro: snds.intros)
  have "(p, k) \<in> set (node_visits w base (DirNode es)) \<longleftrightarrow>
      (\<exists>n x. (n, x) \<in> set es \<and> not_excluded w (abs_path (base @ [n]))
         \<and> (here [n] x \<or> (p, k) \<in> set (node_visits w (base @ [n]) x)))"
    by (auto simp: below_visits_iff here_def)
  also have "\<dots> \<longleftrightarrow>
      (\<exists>n x. (n, x) \<in> set es \<and> not_excluded w (abs_path (base @ [n]))
         \<and> (\<exists>rel y. here (n # rel) y \<and> reaches w x (base @ [n]) rel y))"
  proof (intro ex_cong1 conj_cong refl)
    fix n x assume "(n, x) \<in> set es"
    then show "here [n] x \<or> (p, k) \<in> set (node_visits w (base @ [n]) x) \<longleftrightarrow>
        (\<exists>rel y. here (n # rel) y \<and> reaches w x (base @ [n]) rel y)"
      unfolding ex_list_iff [of "\<lambda>rel. \<exists>y. here (n # rel) y \<and> reaches w x (base @ [n]) rel y"]
      by (simp add: IH)
  qed
  also have "\<dots> \<longleftrightarrow> (\<exists>n rel y. here (n # rel) y \<and> reaches w (DirNode es) base (n # rel) y)"
    unfolding reaches_Cons [OF es] by blast
  also have "\<dots> \<longleftrightarrow> (\<exists>rel. rel \<noteq> [] \<and> (\<exists>y. here rel y \<and> reaches w (DirNode es) base rel y))"
    unfolding ex_Cons_iff by blast
  finally show ?case by (simp add: here_def)
qed (auto simp: reaches_leaf)

lemma node_at_plain: "presents w base x \<Longrightarrow> node_at x rel = Some y \<Longrightarrow> plain rel"
proof (induction rel arbitrary: x base)
  case (Cons n rel)
  then obtain es z where x: "x = DirNode es" "map_of es n = Some z" "node_at z rel = Some y"
    by (cases x) (auto split: option.splits)
  then have "(n, z) \<in> set es" by (simp add: map_of_SomeD)
  then have "plain [n]" "presents w (base @ [n]) z" using Cons.prems(1) by (auto simp: x)
  then show ?case using Cons.IH x(3) by (simp add: plain_Cons [of n rel])
qed simp

lemma node_visits_path:
  assumes "presents w base x" "(p, k) \<in> set (node_visits w base x)"
  shows "\<exists>rel. rel \<noteq> [] \<and> plain rel \<and> p = abs_path (base @ rel)"
proof -
  obtain rel y where "rel \<noteq> []" "p = abs_path (base @ rel)" "node_at x rel = Some y"
    using assms by (auto simp: node_visits_iff reaches_def)
  with node_at_plain [OF assms(1)] show ?thesis by blast
qed

text \<open>Every path is visited once.\<close>

lemma distinct_node_visits:
  "plain base \<Longrightarrow> presents w base x \<Longrightarrow> distinct (map fst (node_visits w base x))"
  "plain base \<Longrightarrow> distinct (map fst es) \<Longrightarrow> (\<forall>(n, x)\<in>set es. plain [n] \<and> presents w (base @ [n]) x)
     \<Longrightarrow> distinct (map fst (below_visits w base es))"
proof (induction w base x and w base es rule: node_visits_below_visits.induct)
  case (1 w segs es)
  let ?own = "map (\<lambda>(n, x). (abs_path (segs @ [n]), node_kind x)) es"
  have names: "\<forall>n\<in>set (map fst es). plain [n]" using "1.prems" by auto
  have "distinct (map (\<lambda>n. abs_path (segs @ [n])) (map fst es))"
    using "1.prems" names by (intro distinct_map [THEN iffD2]) (auto simp: inj_on_def plain_inject)
  moreover have "map (\<lambda>n. abs_path (segs @ [n])) (map fst es) = map fst ?own" by auto
  ultimately have own: "distinct (map fst (filter (\<lambda>(p, k). not_excluded w p) ?own))"
    by (simp only: distinct_map_filter)
  have below: "\<exists>n rel. rel \<noteq> [] \<and> plain (n # rel) \<and> p = abs_path (segs @ n # rel)"
    if below: "(p, k) \<in> set (below_visits w segs es)" for p k
  proof -
    obtain n x where n: "(n, x) \<in> set es" "(p, k) \<in> set (node_visits w (segs @ [n]) x)"
      using below by (auto simp: below_visits_iff)
    then have "plain [n]" "presents w (segs @ [n]) x" using "1.prems" by auto
    with n(2) obtain rel where "rel \<noteq> []" "plain rel" "p = abs_path ((segs @ [n]) @ rel)"
      using node_visits_path by blast
    with \<open>plain [n]\<close> show ?thesis
      using plain_Cons [of n rel] by (intro exI [of _ n] exI [of _ rel]) simp
  qed
  have "p \<noteq> abs_path (segs @ [m])" if below': "(p, k) \<in> set (below_visits w segs es)" and m: "m \<in> set (map fst es)" for p k m
  proof -
    obtain n rel where "rel \<noteq> []" "plain (n # rel)" "p = abs_path (segs @ n # rel)" using below [OF below'] by blast
    moreover have "plain [m]" using names m by blast
    ultimately show ?thesis using "1.prems"(1) plain_inject [of "segs @ n # rel" "segs @ [m]"] by simp
  qed
  then show ?case using "1.IH" "1.prems" own by (fastforce simp: distinct_append)
next
  case (4 w segs n x es)
  show ?case
  proof (cases "not_excluded w (abs_path (segs @ [n]))")
    case True
    have "p \<noteq> q" if p: "(p, k) \<in> set (below_visits w segs es)" and q: "(q, k') \<in> set (node_visits w (segs @ [n]) x)" for p k q k'
    proof -
      obtain m z where m: "(m, z) \<in> set es" "(p, k) \<in> set (node_visits w (segs @ [m]) z)"
        using p by (auto simp: below_visits_iff)
      then have "plain [m]" "presents w (segs @ [m]) z" "m \<noteq> n" "plain [n]" "presents w (segs @ [n]) x"
        using "4.prems" by (auto simp: rev_image_eqI)
      moreover obtain r where "plain r" "p = abs_path ((segs @ [m]) @ r)"
        using node_visits_path calculation(2) m(2) by blast
      moreover obtain r' where "plain r'" "q = abs_path ((segs @ [n]) @ r')"
        using node_visits_path calculation(5) q by blast
      ultimately show ?thesis
        using "4.prems"(1) plain_inject [of "(segs @ [m]) @ r" "(segs @ [n]) @ r'"]
          plain_Cons [of m r] plain_Cons [of n r'] by simp
    qed
    then show ?thesis using True 4 by (fastforce simp: distinct_append)
  next
    case False
    then show ?thesis using 4 by simp
  qed
qed simp_all

text \<open>A directory is visited before what is in it.\<close>

definition parent_seen :: "string list \<Rightarrow> string set \<Rightarrow> string \<Rightarrow> bool" where
  "parent_seen base seen p \<longleftrightarrow>
     (\<exists>rel n. plain rel \<and> plain [n] \<and> p = abs_path (base @ rel @ [n]) \<and> (rel = [] \<or> abs_path (base @ rel) \<in> seen))"

lemma parent_seen_mono: "parent_seen base seen p \<Longrightarrow> seen \<subseteq> seen' \<Longrightarrow> parent_seen base seen' p"
  unfolding parent_seen_def by blast

lemma parent_seenI:
  "plain rel \<Longrightarrow> plain [n] \<Longrightarrow> rel = [] \<or> abs_path (base @ rel) \<in> seen \<Longrightarrow> parent_seen base seen (abs_path (base @ rel @ [n]))"
  unfolding parent_seen_def by blast

fun parents_first :: "string list \<Rightarrow> string set \<Rightarrow> visit list \<Rightarrow> bool" where
  "parents_first base seen [] \<longleftrightarrow> True"
| "parents_first base seen ((p, k) # vs) \<longleftrightarrow>
     parent_seen base seen p \<and> parents_first base (if k = DirectoryKind then insert p seen else seen) vs"

definition seen_after :: "visit list \<Rightarrow> string set \<Rightarrow> string set" where
  "seen_after vs seen = seen \<union> set (directories_in vs)"

lemma seen_after_Cons [simp]:
  "seen_after ((p, k) # vs) seen = seen_after vs (if k = DirectoryKind then insert p seen else seen)"
  by (auto simp: seen_after_def)

lemma parents_first_mono: "parents_first base seen vs \<Longrightarrow> seen \<subseteq> seen' \<Longrightarrow> parents_first base seen' vs"
proof (induction vs arbitrary: seen seen')
  case (Cons v vs)
  obtain p k where v: "v = (p, k)" by fastforce
  have "parents_first base (if k = DirectoryKind then insert p seen' else seen') vs"
    by (rule Cons.IH [of "if k = DirectoryKind then insert p seen else seen"]) (use Cons.prems in \<open>auto simp: v\<close>)
  then show ?case using Cons.prems parent_seen_mono [of base seen p seen'] by (simp add: v)
qed simp

lemma parents_first_append:
  "parents_first base seen (vs @ vs') \<longleftrightarrow>
     parents_first base seen vs \<and> parents_first base (seen_after vs seen) vs'"
proof (induction vs arbitrary: seen)
  case (Cons v vs)
  obtain p k where "v = (p, k)" by fastforce
  with Cons.IH show ?case by simp
qed (simp add: seen_after_def)

lemma parents_first_own:
  "plain base \<Longrightarrow> plain rel \<Longrightarrow> rel = [] \<or> abs_path (base @ rel) \<in> seen \<Longrightarrow>
   \<forall>(n, x)\<in>set es. plain [n] \<Longrightarrow>
   parents_first base seen
     (filter (\<lambda>(p, k). not_excluded w p) (map (\<lambda>(n, x). (abs_path ((base @ rel) @ [n]), node_kind x)) es))"
proof (induction es arbitrary: seen)
  case (Cons e es)
  obtain n x where e: "e = (n, x)" by fastforce
  have "parents_first base seen'
      (filter (\<lambda>(p, k). not_excluded w p) (map (\<lambda>(n, x). (abs_path ((base @ rel) @ [n]), node_kind x)) es))"
    if "seen \<subseteq> seen'" for seen'
    using Cons.prems that by (intro Cons.IH) auto
  from this [of "insert (abs_path (base @ rel @ [n])) seen"] this [of seen]
  show ?case using Cons.prems parent_seenI [of rel n base seen] by (auto simp: e)
qed simp

lemma parents_first_visits:
  "plain base \<Longrightarrow> plain rel \<Longrightarrow> presents w (base @ rel) x \<Longrightarrow> rel = [] \<or> abs_path (base @ rel) \<in> seen \<Longrightarrow>
     parents_first base seen (node_visits w (base @ rel) x)"
  "plain base \<Longrightarrow> plain rel \<Longrightarrow> (\<forall>(n, x)\<in>set es. plain [n] \<and> presents w ((base @ rel) @ [n]) x) \<Longrightarrow>
     (\<forall>(n, x)\<in>set es. node_kind x = DirectoryKind \<and> not_excluded w (abs_path (base @ rel @ [n]))
        \<longrightarrow> abs_path (base @ rel @ [n]) \<in> seen) \<Longrightarrow>
     parents_first base seen (below_visits w (base @ rel) es)"
proof (induction w "base @ rel" x and w "base @ rel" es arbitrary: rel seen and rel seen
    rule: node_visits_below_visits.induct)
  case (1 w es)
  let ?own = "filter (\<lambda>(p, k). not_excluded w p) (map (\<lambda>(n, x). (abs_path ((base @ rel) @ [n]), node_kind x)) es)"
  have own: "parents_first base seen ?own"
    using "1.prems" by (intro parents_first_own) auto
  have "parents_first base (seen_after ?own seen) (below_visits w (base @ rel) es)"
  proof (rule "1.hyps")
    have "abs_path ((base @ rel) @ [n]) \<in> set (directories_in ?own)"
      if "(n, x) \<in> set es" "node_kind x = DirectoryKind" "not_excluded w (abs_path (base @ rel @ [n]))" for n x
      using that unfolding directories_in_entries by (force simp: sub_items_def)
    then show "\<forall>(n, x)\<in>set es. node_kind x = DirectoryKind \<and> not_excluded w (abs_path (base @ rel @ [n]))
        \<longrightarrow> abs_path (base @ rel @ [n]) \<in> seen_after ?own seen"
      by (auto simp: seen_after_def)
  qed (use "1.prems" in auto)
  with own show ?case by (simp add: parents_first_append)
next
  case (4 w n x es)
  have below: "parents_first base seen (below_visits w (base @ rel) es)"
    using "4.prems" by (intro "4.hyps"(1)) auto
  have "parents_first base seen (node_visits w ((base @ rel) @ [n]) x)" if "not_excluded w (abs_path ((base @ rel) @ [n]))"
  proof (cases "node_kind x = DirectoryKind")
    case True
    have "parents_first base seen (node_visits w (base @ rel @ [n]) x)"
      using "4.prems" that True by (intro "4.hyps"(2)) auto
    then show ?thesis by simp
  qed (simp add: node_visits_leaf)
  with below show ?case
    by (auto simp: parents_first_append seen_after_def intro: parents_first_mono)
qed simp_all

section \<open>The walk over a tree\<close>

lemma findFiles_tree:
  assumes "plain base" "presents w base (DirNode es)" "directory_count (DirNode es) \<le> fuel"
  shows "findFiles w onEntry fuel (abs_path base) s = run_visits onEntry (node_visits w base (DirNode es)) WalkDone s"
  using walk_trace_tree [OF assms] assms(1) by (simp add: findFiles_trace)

text \<open>
  The walk over a tree of directories ends: fuel for one step per directory is enough. It
  visits, each of them once, exactly the entries for which neither the entry itself nor a directory
  on the way to it is excluded, whatever the callback does with them.
\<close>

theorem walk_visits_unexcluded:
  assumes "plain base" "presents w base (DirNode es)" "directory_count (DirNode es) \<le> fuel"
  shows "\<exists>vs. distinct (map fst vs)
     \<and> (\<forall>onEntry s. findFiles w onEntry fuel (abs_path base) s = run_visits onEntry vs WalkDone s)
     \<and> (\<forall>p k. (p, k) \<in> set vs \<longleftrightarrow>
          (\<exists>rel y. rel \<noteq> [] \<and> p = abs_path (base @ rel) \<and> node_at (DirNode es) rel = Some y \<and> node_kind y = k
             \<and> (\<forall>i<length rel. not_excluded w (abs_path (base @ take (Suc i) rel)))))"
  using findFiles_tree [OF assms] distinct_node_visits(1) [OF assms(1,2)] node_visits_iff [OF assms(2)]
  by (intro exI [of _ "node_visits w base (DirNode es)"]) (auto simp: reaches_def kept_below_iff)

definition sample_tree :: "(string \<times> file_node) list" where
  "sample_tree =
     [(''a.js'', FileNode), (''lib'', DirNode [(''b.js'', FileNode)]), (''node_modules'', DirNode [(''c.js'', FileNode)])]"

definition sample_walk :: "string walk_env" where
  "sample_walk = \<lparr>we_cwd = ''/'', we_opendir = (\<lambda>p.
     if p = ''/'' then Inr ([(''a.js'', FileKind), (''lib'', DirectoryKind), (''node_modules'', DirectoryKind)], None)
     else if p = ''/lib'' then Inr ([(''b.js'', FileKind)], None)
     else if p = ''/node_modules'' then Inr ([(''c.js'', FileKind)], None)
     else Inl ''ENOENT''),
   we_glob = (\<lambda>p f. p = f), we_exclusions = [''/node_modules'']\<rparr>"

lemma sample_walk_presented: "presents sample_walk [] (DirNode sample_tree)"
  by (simp add: sample_walk_def sample_tree_def abs_path_def plain_def clean_segment_def)

theorem walk_visits_unexcluded_witness:
  "\<exists>vs. distinct (map fst vs)
     \<and> (\<forall>onEntry s. findFiles sample_walk onEntry 3 (abs_path []) (s :: nat) = run_visits onEntry vs WalkDone s)
     \<and> (\<forall>p k. (p, k) \<in> set vs \<longleftrightarrow>
          (\<exists>rel y. rel \<noteq> [] \<and> p = abs_path ([] @ rel) \<and> node_at (DirNode sample_tree) rel = Some y
             \<and> node_kind y = k \<and> (\<forall>i<length rel. not_excluded sample_walk (abs_path ([] @ take (Suc i) rel)))))"
  by (rule walk_visits_unexcluded [OF _ sample_walk_presented]) (simp_all add: sample_tree_def)

end
