(* ===== verification/Source_File_Store.thy ===== *)
theory Source_File_Store
  imports Analysis_Request File_Walk
begin

text \<open>
  The store of the files to analyze, \<open>packages/analysis/src/file-stores/source-files.ts\<close>, with the
  \<open>DirectoryIndex\<close> of \<open>packages/shared/src/helpers/files.ts\<close>. Log messages are left out.
\<close>

section \<open>The interface of a store\<close>

text \<open>\<open>FileProcessingMode\<close> of \<open>store-type.ts\<close>; \<open>None\<close> stands for \<open>false\<close>.\<close>

datatype file_processing_mode = PathMode | ContentMode | DeferredContentMode

text \<open>An error of the file system, or one that a store throws itself.\<close>

datatype 'e store_error = NativeError 'e | StoreError string

section \<open>The index of directories\<close>

type_synonym directory_index = "(string, string list) js_map"

definition add_member :: "'a \<Rightarrow> 'a list \<Rightarrow> 'a list" where
  "add_member x xs = (if x \<in> set xs then xs else xs @ [x])"

definition index_addFile :: "string \<Rightarrow> directory_index \<Rightarrow> directory_index" where
  "index_addFile filePath index =
     (let dir = dirnamePath filePath
      in js_set dir (add_member (base_name filePath) (nullish (map_of index dir) [])) index)"

definition buildFromFiles :: "string list \<Rightarrow> directory_index \<Rightarrow> directory_index" where
  "buildFromFiles filePaths index = fold index_addFile filePaths index"

definition index_getFilesInDirectory :: "string \<Rightarrow> directory_index \<Rightarrow> string list option" where
  "index_getFilesInDirectory dir index = map_of index dir"

section \<open>The store\<close>

definition source_UNINITIALIZED_ERROR :: string where
  "source_UNINITIALIZED_ERROR = ''Files cache has not been initialized. Call loadFiles() first.''"

record resolved_file_types =
  rt_filePath :: string
  rt_fileType :: file_type
  rt_ruleFileType :: file_type

definition resolveFileTypes :: "'e request_env \<Rightarrow> string \<Rightarrow> configuration \<Rightarrow> resolved_file_types option" where
  "resolveFileTypes env filename c =
     (let p = getFilterPathParams c in
      case filterPathAndGetFileType (env_glob env) filename p of
        None \<Rightarrow> None
      | Some fileType \<Rightarrow> Some
          \<lparr>rt_filePath = filename, rt_fileType = fileType,
           rt_ruleFileType = getFileTypeForRules (env_glob env) (env_angular env) filename fileType p\<rparr>)"

record source_store =
  ss_baseDir :: "string option"
  ss_canAccessFileSystem :: "bool option"
  ss_analyzableFilesConfigKey :: "string option"
  ss_ignoredPaths :: "string list"
  ss_pendingFileTypes :: "resolved_file_types option"
  ss_files :: "analyzable_files option"
  ss_directoryIndex :: directory_index

definition clear_source :: "source_store \<Rightarrow> source_store" where
  "clear_source s = s\<lparr>ss_baseDir := None, ss_canAccessFileSystem := None, ss_analyzableFilesConfigKey := None,
     ss_files := None, ss_ignoredPaths := [], ss_pendingFileTypes := None, ss_directoryIndex := []\<rparr>"

definition dirty_source :: "configuration \<Rightarrow> source_store \<Rightarrow> source_store" where
  "dirty_source c s =
     (if Some (cfg_baseDir c) \<noteq> ss_baseDir s \<or> Some (cfg_canAccessFileSystem c) \<noteq> ss_canAccessFileSystem s
      then clear_source s
      else if Some (getAnalyzableFilesConfigKey c) \<noteq> ss_analyzableFilesConfigKey s then clear_source s
      else s)"

definition setup_source :: "configuration \<Rightarrow> source_store \<Rightarrow> source_store" where
  "setup_source c s = s\<lparr>ss_baseDir := Some (cfg_baseDir c),
     ss_canAccessFileSystem := Some (cfg_canAccessFileSystem c),
     ss_analyzableFilesConfigKey := Some (getAnalyzableFilesConfigKey c), ss_files := Some []\<rparr>"

definition source_isInitialized ::
  "configuration \<Rightarrow> analyzable_files option \<Rightarrow> source_store \<Rightarrow> bool \<times> source_store" where
  "source_isInitialized c inputFiles s =
     (let s1 = dirty_source c s in
      case inputFiles of
        Some files \<Rightarrow>
          (let s2 = (setup_source c (clear_source s1))\<lparr>ss_files := Some files\<rparr>
           in (True, s2\<lparr>ss_directoryIndex := buildFromFiles (js_keys files) (ss_directoryIndex s2)\<rparr>))
      | None \<Rightarrow> (ss_files s1 \<noteq> None, s1))"

definition source_getFiles :: "source_store \<Rightarrow> 'e store_error + analyzable_files" where
  "source_getFiles s =
     (case ss_files s of None \<Rightarrow> Inl (StoreError source_UNINITIALIZED_ERROR) | Some files \<Rightarrow> Inr files)"

definition getFilesInDirectory :: "string \<Rightarrow> source_store \<Rightarrow> string list option" where
  "getFilesInDirectory dir s = index_getFilesInDirectory dir (ss_directoryIndex s)"

definition anyParentIsIgnored :: "string \<Rightarrow> source_store \<Rightarrow> bool" where
  "anyParentIsIgnored filePath s \<longleftrightarrow> dirnamePath filePath \<in> set (ss_ignoredPaths s)"

definition source_wantsFile ::
  "'e request_env \<Rightarrow> string \<Rightarrow> configuration \<Rightarrow> source_store \<Rightarrow> file_processing_mode option \<times> source_store" where
  "source_wantsFile env filename c s =
     (if \<not> isAnalyzableFile filename (getShouldIgnoreParams c) \<or> anyParentIsIgnored filename s then (None, s)
      else case resolveFileTypes env filename c of
             None \<Rightarrow> (None, s)
           | Some fileTypes \<Rightarrow> (Some ContentMode, s\<lparr>ss_pendingFileTypes := Some fileTypes\<rparr>))"

text \<open>\<open>files![filename] = ...\<close> throws when the store was not set up.\<close>

definition source_processFile ::
  "'e request_env \<Rightarrow> string \<Rightarrow> configuration \<Rightarrow> shared_file option \<Rightarrow> source_store
   \<Rightarrow> 'e store_error option \<times> source_store" where
  "source_processFile env filename c file_opt s =
     (let pendingFileTypes = ss_pendingFileTypes s;
          s1 = s\<lparr>ss_pendingFileTypes := None\<rparr>;
          fileTypes =
            (if map_option rt_filePath pendingFileTypes = Some filename then pendingFileTypes
             else resolveFileTypes env filename c)
      in case (file_opt, fileTypes) of
           (Some f, Some t) \<Rightarrow>
             if accept filename (sf_fileContent f) (getShouldIgnoreParams c) then
               (case ss_files s1 of
                  None \<Rightarrow> (Some (StoreError ''Cannot set properties of undefined''), s1)
                | Some files \<Rightarrow> (None,
                    s1\<lparr>ss_files := Some (js_set filename
                         \<lparr>af_filePath = sf_filePath f, af_fileContent = sf_fileContent f, af_fileType = rt_fileType t,
                          af_ruleFileType = rt_ruleFileType t, af_fileStatus = default_fileStatus\<rparr> files),
                       ss_directoryIndex := index_addFile filename (ss_directoryIndex s1)\<rparr>))
             else (None, s1)
         | _ \<Rightarrow> (None, s1))"

definition source_processDirectory :: "'e request_env \<Rightarrow> string \<Rightarrow> configuration \<Rightarrow> source_store \<Rightarrow> source_store" where
  "source_processDirectory env dir c s =
     (let isExcludedPath = filterPathAndGetFileType (env_glob env) dir (getFilterPathParams c) = None
      in if anyParentIsIgnored dir s \<or> isExcludedPath then s\<lparr>ss_ignoredPaths := add_member dir (ss_ignoredPaths s)\<rparr>
         else s)"

definition source_postProcess :: "source_store \<Rightarrow> source_store" where
  "source_postProcess s = s\<lparr>ss_pendingFileTypes := None\<rparr>"

section \<open>The index mirrors the files\<close>

definition index_mirrors :: "source_store \<Rightarrow> bool" where
  "index_mirrors s \<longleftrightarrow>
     (\<forall>dir n. n \<in> set (nullish (map_of (ss_directoryIndex s) dir) [])
        \<longleftrightarrow> (\<exists>f. map_of (nullish (ss_files s) []) f \<noteq> None \<and> dirnamePath f = dir \<and> base_name f = n))"

lemma set_add_member [simp]: "set (add_member x xs) = insert x (set xs)"
  by (auto simp: add_member_def)

lemma index_addFile_set:
  "set (nullish (map_of (index_addFile f index) dir) [])
     = set (nullish (map_of index dir) []) \<union> (if dir = dirnamePath f then {base_name f} else {})"
  by (simp add: index_addFile_def Let_def update_conv')

lemma buildFromFiles_set:
  "set (nullish (map_of (buildFromFiles fs index) dir) [])
     = set (nullish (map_of index dir) []) \<union> {base_name f |f. f \<in> set fs \<and> dirnamePath f = dir}"
  by (induction fs arbitrary: index) (auto simp: buildFromFiles_def index_addFile_set)

lemma index_mirrors_clear [simp]: "index_mirrors (clear_source s)"
  by (simp add: index_mirrors_def clear_source_def)

lemma index_mirrors_dirty: "index_mirrors s \<Longrightarrow> index_mirrors (dirty_source c s)"
  by (simp add: dirty_source_def)

lemma index_mirrors_same:
  "ss_files s' = ss_files s \<Longrightarrow> ss_directoryIndex s' = ss_directoryIndex s \<Longrightarrow> index_mirrors s' = index_mirrors s"
  by (simp add: index_mirrors_def)

lemma source_processFile_cases:
  "ss_files (snd (source_processFile env f c file_opt s)) = ss_files s
     \<and> ss_directoryIndex (snd (source_processFile env f c file_opt s)) = ss_directoryIndex s
   \<or> (\<exists>files a. ss_files s = Some files
     \<and> ss_files (snd (source_processFile env f c file_opt s)) = Some (js_set f a files)
     \<and> ss_directoryIndex (snd (source_processFile env f c file_opt s)) = index_addFile f (ss_directoryIndex s))"
  by (auto simp: source_processFile_def Let_def split: option.split)

lemma index_mirrors_processFile:
  assumes "index_mirrors s"
  shows "index_mirrors (snd (source_processFile env f c file_opt s))"
  using source_processFile_cases [of env f c file_opt s] assms
  by (elim disjE exE conjE) (auto simp: index_mirrors_def index_addFile_set update_conv')

text \<open>
  The states of the store, as its operations make them: \<open>setup\<close> is called for a store that is not
  initialized.
\<close>

inductive source_reachable :: "'e request_env \<Rightarrow> source_store \<Rightarrow> bool" for env :: "'e request_env" where
  fresh: "source_reachable env (clear_source s)"
| initialized: "source_reachable env s \<Longrightarrow> source_reachable env (snd (source_isInitialized c inputFiles s))"
| set_up: "source_reachable env s \<Longrightarrow> ss_files s = None \<Longrightarrow> source_reachable env (setup_source c s)"
| wants: "source_reachable env s \<Longrightarrow> source_reachable env (snd (source_wantsFile env f c s))"
| processed: "source_reachable env s \<Longrightarrow> source_reachable env (snd (source_processFile env f c file_opt s))"
| directory: "source_reachable env s \<Longrightarrow> source_reachable env (source_processDirectory env d c s)"
| post: "source_reachable env s \<Longrightarrow> source_reachable env (source_postProcess s)"

text \<open>
  However the store is used, its directory index lists under each directory just the names of
  the files it holds there: \<open>getFilesInDirectory\<close> never misses a file and never names a stale one.
\<close>

theorem index_mirrors_files:
  assumes "source_reachable env s"
  shows "\<forall>dir n. n \<in> set (nullish (getFilesInDirectory dir s) [])
     \<longleftrightarrow> (\<exists>f. map_of (nullish (ss_files s) []) f \<noteq> None \<and> dirnamePath f = dir \<and> base_name f = n)"
proof -
  have "index_mirrors s" using assms
  proof induction
    case (initialized s c inputFiles)
    show ?case
    proof (cases inputFiles)
      case None
      then show ?thesis using initialized by (simp add: source_isInitialized_def Let_def index_mirrors_dirty)
    next
      case (Some files)
      then show ?thesis
        by (auto simp: source_isInitialized_def Let_def index_mirrors_def buildFromFiles_set setup_source_def
            clear_source_def map_of_eq_None_iff)
    qed
  next
    case (set_up s c)
    then show ?case by (simp add: index_mirrors_def setup_source_def)
  next
    case (wants s f c)
    then show ?case
      by (subst index_mirrors_same [of _ s]) (auto simp: source_wantsFile_def split: option.split)
  next
    case (processed s f c file_opt)
    then show ?case by (simp add: index_mirrors_processFile)
  next
    case (directory s d c)
    then show ?case by (subst index_mirrors_same [of _ s]) (auto simp: source_processDirectory_def Let_def)
  next
    case (post s)
    then show ?case by (subst index_mirrors_same [of _ s]) (auto simp: source_postProcess_def)
  qed simp
  then show ?thesis by (simp add: index_mirrors_def getFilesInDirectory_def index_getFilesInDirectory_def)
qed

definition sample_env :: "string request_env" where
  "sample_env = \<lparr>env_cwd = ''/'', env_glob = (\<lambda>p f. p = f), env_angular = (\<lambda>f d. False), env_bom = (\<lambda>c. False),
     env_read = (\<lambda>f. Inr ''x'')\<rparr>"

definition fresh_source :: source_store where
  "fresh_source = \<lparr>ss_baseDir = None, ss_canAccessFileSystem = None, ss_analyzableFilesConfigKey = None,
     ss_ignoredPaths = [], ss_pendingFileTypes = None, ss_files = None, ss_directoryIndex = []\<rparr>"

definition sample_file :: analyzable_file where
  "sample_file = \<lparr>af_filePath = ''/a/b.js'', af_fileContent = ''x'', af_fileType = FileMain, af_ruleFileType = FileMain,
     af_fileStatus = Same\<rparr>"

lemma clear_fresh_source [simp]: "clear_source s = fresh_source"
  by (cases s) (simp add: clear_source_def fresh_source_def)

theorem index_mirrors_files_witness:
  "\<forall>c. \<forall>dir n. n \<in> set (nullish (getFilesInDirectory dir
          (snd (source_isInitialized c (Some [(''/a/b.js'', sample_file)]) fresh_source))) [])
     \<longleftrightarrow> (\<exists>f. map_of (nullish (ss_files (snd (source_isInitialized c (Some [(''/a/b.js'', sample_file)]) fresh_source))) []) f
            \<noteq> None \<and> dirnamePath f = dir \<and> base_name f = n)"
proof
  fix c
  have "source_reachable sample_env fresh_source" using source_reachable.fresh [of sample_env fresh_source] by simp
  then show "\<forall>dir n. n \<in> set (nullish (getFilesInDirectory dir
          (snd (source_isInitialized c (Some [(''/a/b.js'', sample_file)]) fresh_source))) [])
     \<longleftrightarrow> (\<exists>f. map_of (nullish (ss_files (snd (source_isInitialized c (Some [(''/a/b.js'', sample_file)]) fresh_source))) []) f
            \<noteq> None \<and> dirnamePath f = dir \<and> base_name f = n)"
    by (intro index_mirrors_files [of sample_env]) (rule source_reachable.initialized)
qed

section \<open>What a walk leaves in the store\<close>

text \<open>One visit, as this store takes part in it; \<open>content\<close> is what reading the file gives.\<close>

definition source_visit ::
  "'e request_env \<Rightarrow> configuration \<Rightarrow> (string \<Rightarrow> string) \<Rightarrow> visit \<Rightarrow> source_store \<Rightarrow> source_store" where
  "source_visit env c content = (\<lambda>(p, k) s.
     (case k of
        DirectoryKind \<Rightarrow> source_processDirectory env p c s
      | FileKind \<Rightarrow>
          (case source_wantsFile env p c s of
             (Some _, s') \<Rightarrow> snd (source_processFile env p c (Some \<lparr>sf_filePath = p, sf_fileContent = content p\<rparr>) s')
           | (None, s') \<Rightarrow> s')
      | OtherKind \<Rightarrow> s))"

text \<open>What the store keeps of a file that it wants.\<close>

definition source_entry ::
  "'e request_env \<Rightarrow> configuration \<Rightarrow> (string \<Rightarrow> string) \<Rightarrow> string \<Rightarrow> analyzable_file option" where
  "source_entry env c content p =
     (if isAnalyzableFile p (getShouldIgnoreParams c) \<and> accept p (content p) (getShouldIgnoreParams c)
      then map_option (\<lambda>t. \<lparr>af_filePath = p, af_fileContent = content p, af_fileType = rt_fileType t,
              af_ruleFileType = rt_ruleFileType t, af_fileStatus = default_fileStatus\<rparr>) (resolveFileTypes env p c)
      else None)"

text \<open>A directory without a type of files, or below one, up to the base directory of the walk.\<close>

definition untyped :: "'e request_env \<Rightarrow> configuration \<Rightarrow> string \<Rightarrow> bool" where
  "untyped env c p \<longleftrightarrow> filterPathAndGetFileType (env_glob env) p (getFilterPathParams c) = None"

definition blocked :: "'e request_env \<Rightarrow> configuration \<Rightarrow> string list \<Rightarrow> string \<Rightarrow> bool" where
  "blocked env c base d \<longleftrightarrow>
     (\<exists>rel. plain rel \<and> d = abs_path (base @ rel) \<and> (\<exists>i<length rel. untyped env c (abs_path (base @ take (Suc i) rel))))"

lemma blocked_base [simp]: "plain base \<Longrightarrow> \<not> blocked env c base (abs_path base)"
  by (auto simp: blocked_def)

lemma blocked_iff:
  assumes "plain base" "plain r"
  shows "blocked env c base (abs_path (base @ r)) \<longleftrightarrow> (\<exists>i<length r. untyped env c (abs_path (base @ take (Suc i) r)))"
proof -
  have "rel = r" if "plain rel" "abs_path (base @ r) = abs_path (base @ rel)" for rel
    using plain_inject_below(1) [OF assms(1,2) that(1)] that(2) by simp
  then show ?thesis using assms(2) unfolding blocked_def by blast
qed

lemma blocked_snoc:
  assumes "plain base" "plain rel" "plain [n]"
  shows "blocked env c base (abs_path (base @ rel @ [n])) \<longleftrightarrow>
     untyped env c (abs_path (base @ rel @ [n])) \<or> blocked env c base (abs_path (base @ rel))"
proof -
  have "plain (rel @ [n])" using assms by simp
  show ?thesis
    unfolding blocked_iff [OF assms(1) \<open>plain (rel @ [n])\<close>] blocked_iff [OF assms(1,2)]
    by (auto simp: less_Suc_eq)
qed

lemma rt_filePath_resolve: "resolveFileTypes env p c = Some t \<Longrightarrow> rt_filePath t = p"
  by (auto simp: resolveFileTypes_def Let_def split: option.splits)

lemma source_visit_simps [simp]:
  "source_visit env c content (p, DirectoryKind) s = source_processDirectory env p c s"
  "source_visit env c content (p, OtherKind) s = s"
  by (simp_all add: source_visit_def)

lemma source_visit_file:
  assumes "ss_files s = Some files"
  shows "ss_ignoredPaths (source_visit env c content (p, FileKind) s) = ss_ignoredPaths s"
    and "ss_files (source_visit env c content (p, FileKind) s) = Some
      (case (if anyParentIsIgnored p s then None else source_entry env c content p) of
         None \<Rightarrow> files | Some a \<Rightarrow> js_set p a files)"
  using assms rt_filePath_resolve [of env p c]
  by (auto simp: source_visit_def source_wantsFile_def source_processFile_def source_entry_def Let_def split: option.split)

text \<open>What is ignored and kept after the visits of a walk.\<close>

lemma source_walk:
  fixes env :: "'e request_env" and c content
  assumes base: "plain base"
    and s0: "ss_files s0 = Some []" "ss_ignoredPaths s0 = []"
    and order: "parents_first base {} vs"
  defines "s \<equiv> fold (source_visit env c content) vs s0"
  shows "set (ss_ignoredPaths s) = {d. (d, DirectoryKind) \<in> set vs \<and> blocked env c base d}
     \<and> (\<exists>files. ss_files s = Some files \<and> (\<forall>p. map_of files p =
           (if (p, FileKind) \<in> set vs \<and> \<not> blocked env c base (dirnamePath p) then source_entry env c content p else None)))"
  using order unfolding s_def
proof (induction vs rule: rev_induct)
  case Nil
  then show ?case by (simp add: s0)
next
  case (snoc v vs)
  obtain p k where v: "v = (p, k)" by fastforce
  let ?s = "fold (source_visit env c content) vs s0"
  have "parents_first base {} vs" "parent_seen base (seen_after vs {}) p"
    using snoc.prems by (simp_all add: v parents_first_append)
  then obtain rel n where rel: "plain rel" "plain [n]" "p = abs_path (base @ rel @ [n])"
    "rel = [] \<or> (abs_path (base @ rel), DirectoryKind) \<in> set vs"
    by (auto simp: parent_seen_def seen_after_def directories_in_def)
  have dir: "dirnamePath p = abs_path (base @ rel)"
    using dirnamePath_snoc [of "base @ rel" n] base rel by simp
  have IH: "set (ss_ignoredPaths ?s) = {d. (d, DirectoryKind) \<in> set vs \<and> blocked env c base d}"
    using snoc.IH \<open>parents_first base {} vs\<close> by blast
  obtain files where files: "ss_files ?s = Some files" "\<And>p. map_of files p =
      (if (p, FileKind) \<in> set vs \<and> \<not> blocked env c base (dirnamePath p) then source_entry env c content p else None)"
    using snoc.IH \<open>parents_first base {} vs\<close> by blast
  have ignored: "anyParentIsIgnored p ?s \<longleftrightarrow> blocked env c base (dirnamePath p)"
    using rel(4) base by (auto simp: anyParentIsIgnored_def IH dir)
  show ?case
  proof (cases k)
    case DirectoryKind
    have b: "blocked env c base p \<longleftrightarrow> untyped env c p \<or> anyParentIsIgnored p ?s"
      unfolding ignored dir using blocked_snoc [OF base rel(1,2)] rel(3) by simp
    have "set (ss_ignoredPaths (source_visit env c content v ?s))
        = (if blocked env c base p then insert p (set (ss_ignoredPaths ?s)) else set (ss_ignoredPaths ?s))"
      "ss_files (source_visit env c content v ?s) = Some files"
      using files(1) by (auto simp: v DirectoryKind source_processDirectory_def Let_def b untyped_def)
    then show ?thesis using files(2) by (auto simp: IH v DirectoryKind)
  next
    case FileKind
    then have visit: "ss_ignoredPaths (source_visit env c content v ?s) = ss_ignoredPaths ?s"
      "ss_files (source_visit env c content v ?s) = Some
        (case (if blocked env c base (dirnamePath p) then None else source_entry env c content p) of
           None \<Rightarrow> files | Some a \<Rightarrow> js_set p a files)"
      using source_visit_file [OF files(1), of env c content p] by (simp_all add: v ignored)
    then show ?thesis
      by (auto simp: IH v FileKind files(2) update_conv' split: option.split)
  next
    case OtherKind
    then show ?thesis using files by (auto simp: IH v OtherKind)
  qed
qed

section \<open>Sources below the base directory\<close>

text \<open>
  With \<open>sonar.sources\<close> set to \<open>src/main\<close>, the directory \<open>src\<close> above it has no type itself, so that it
  is ignored, and everything below it with it: the walk keeps no file of a nested source directory,
  though the file has a type and is accepted.
\<close>

definition nested_config :: configuration where
  "nested_config = (case createConfiguration ''/'' (JObj [(''baseDir'', JStr ''/p''), (''sources'', JArr [JStr ''src/main''])])
     of Inr c \<Rightarrow> c | Inl _ \<Rightarrow> undefined)"

lemma nested_sources_not_found:
  "source_entry sample_env nested_config (\<lambda>p. ''x'') ''/p/src/main/a.js'' \<noteq> None"
  "ss_files (fold (source_visit sample_env nested_config (\<lambda>p. ''x''))
     [(''/p/src'', DirectoryKind), (''/p/src/main'', DirectoryKind), (''/p/src/main/a.js'', FileKind)]
     (setup_source nested_config fresh_source)) = Some []"
  by code_simp+

section \<open>The contract of a store\<close>

text \<open>
  What \<open>initFileStores\<close> relies on. \<open>key\<close> is the part of the state from which \<open>isInitialized\<close> decides, and
  \<open>applies\<close> tells for which configurations the store is ever pending. The laws are for a request
  without file events, with which nothing is cleared.
\<close>

locale file_store =
  fixes isInitialized :: "configuration \<Rightarrow> 's \<Rightarrow> bool \<times> 's"
    and set_up :: "configuration \<Rightarrow> 's \<Rightarrow> 's"
    and key :: "'s \<Rightarrow> 'k"
    and applies :: "configuration \<Rightarrow> bool"
  assumes initialized_settled: "cfg_fsEvents c = [] \<Longrightarrow> isInitialized c s = (True, s') \<Longrightarrow> isInitialized c s' = (True, s')"
    and pending_applies: "isInitialized c s = (False, s') \<Longrightarrow> applies c"
    and setup_initialized: "cfg_fsEvents c = [] \<Longrightarrow> applies c \<Longrightarrow> isInitialized c (set_up c s) = (True, set_up c s)"
    and key_decides: "cfg_fsEvents c = [] \<Longrightarrow> applies c \<Longrightarrow> isInitialized c s = (True, s) \<Longrightarrow> key s' = key s
      \<Longrightarrow> isInitialized c s' = (True, s')"
begin

text \<open>Once it was asked, and set up if need be, a store is initialized, whatever became of the walk.\<close>

lemma initialized_again:
  assumes "cfg_fsEvents c = []" "isInitialized c s = (b, s1)"
    and "if b then s2 = s1 else key s2 = key (set_up c s1)"
  shows "isInitialized c s2 = (True, s2)"
proof (cases b)
  case True
  then show ?thesis using initialized_settled [OF assms(1)] assms(2,3) by simp
next
  case False
  then have "applies c" using pending_applies [of c s s1] assms(2) by simp
  then show ?thesis using key_decides [OF assms(1) _ setup_initialized [OF assms(1)]] assms(3) False by simp
qed

end

definition source_key :: "source_store \<Rightarrow> string option \<times> bool option \<times> string option \<times> bool" where
  "source_key s = (ss_baseDir s, ss_canAccessFileSystem s, ss_analyzableFilesConfigKey s, ss_files s = None)"

interpretation source: file_store "\<lambda>c. source_isInitialized c None" setup_source source_key "\<lambda>c. True"
  by unfold_locales
    (auto simp: source_isInitialized_def dirty_source_def setup_source_def source_key_def fresh_source_def Let_def split: if_splits)

lemma source_key_kept [simp]:
  "source_key (snd (source_wantsFile env f c s)) = source_key s"
  "source_key (snd (source_processFile env f c file_opt s)) = source_key s"
  "source_key (source_processDirectory env f c s) = source_key s"
  "source_key (source_postProcess s) = source_key s"
  by (auto simp: source_key_def source_wantsFile_def source_processFile_def source_processDirectory_def
      source_postProcess_def Let_def split: option.split)

end
