(* ===== verification/Manifest_Store.thy ===== *)
theory Manifest_Store
  imports Manifest_Caches Source_File_Store
begin

text \<open>
  The store of dependency manifests, \<open>packages/analysis/src/file-stores/dependency-manifests.ts\<close>. The
  caches it fills and clears are part of the state.
\<close>

definition manifests_UNINITIALIZED_ERROR :: string where
  "manifests_UNINITIALIZED_ERROR = ''dependency manifest cache has not been initialized. Call loadFiles() first.''"

type_synonym manifest_files = "(string, shared_file) js_map per_name"

definition createManifestFilesByName :: manifest_files where
  "createManifestFilesByName = map (\<lambda>manifestName. (manifestName, [])) PRELOADABLE_DEPENDENCY_MANIFESTS"

record manifest_store =
  ms_manifestsByName :: manifest_files
  ms_baseDir :: "string option"
  ms_canAccessFileSystem :: "bool option"
  ms_projectFileDiscoveryConfigKey :: "string option"
  ms_dirnameToParent :: "(string, string option) js_map"
  ms_caches :: find_up_caches

definition clear_manifests :: "manifest_store \<Rightarrow> manifest_store" where
  "clear_manifests s = s\<lparr>ms_baseDir := None, ms_canAccessFileSystem := None, ms_projectFileDiscoveryConfigKey := None,
     ms_manifestsByName := map (\<lambda>(name, files). (name, [])) (ms_manifestsByName s),
     ms_dirnameToParent := [], ms_caches := clearDependenciesCache (ms_caches s)\<rparr>"

definition dirty_manifests :: "configuration \<Rightarrow> manifest_store \<Rightarrow> manifest_store" where
  "dirty_manifests c s =
     (if Some (cfg_baseDir c) \<noteq> ms_baseDir s \<or> Some (cfg_canAccessFileSystem c) \<noteq> ms_canAccessFileSystem s
         \<or> Some (getProjectFileDiscoveryConfigKey c) \<noteq> ms_projectFileDiscoveryConfigKey s
      then clear_manifests s
      else if list_ex isPreloadableDependencyManifestPath (cfg_fsEvents c) then clear_manifests s else s)"

definition manifests_isInitialized :: "configuration \<Rightarrow> manifest_store \<Rightarrow> bool \<times> manifest_store" where
  "manifests_isInitialized c s = (let s' = dirty_manifests c s in (ms_baseDir s' \<noteq> None, s'))"

definition getPackageJsons :: "manifest_store \<Rightarrow> 'e store_error + (string, shared_file) js_map" where
  "getPackageJsons s =
     (if truthy_string (ms_baseDir s) = None then Inl (StoreError manifests_UNINITIALIZED_ERROR)
      else Inr (entry (ms_manifestsByName s) PACKAGE_JSON))"

definition setup_manifests :: "configuration \<Rightarrow> manifest_store \<Rightarrow> manifest_store" where
  "setup_manifests c s = s\<lparr>ms_baseDir := Some (cfg_baseDir c),
     ms_canAccessFileSystem := Some (cfg_canAccessFileSystem c),
     ms_projectFileDiscoveryConfigKey := Some (getProjectFileDiscoveryConfigKey c),
     ms_dirnameToParent := js_set (cfg_baseDir c) None (ms_dirnameToParent s)\<rparr>"

definition manifests_wantsFile :: "string \<Rightarrow> file_processing_mode option" where
  "manifests_wantsFile filename = (if isPreloadableDependencyManifestPath filename then Some ContentMode else None)"

text \<open>The store asks for the content of what it wants, so there is a file.\<close>

definition manifests_processFile ::
  "string \<Rightarrow> shared_file \<Rightarrow> manifest_store \<Rightarrow> 'e store_error option \<times> manifest_store" where
  "manifests_processFile filename f s =
     (if truthy_string (ms_baseDir s) = None then (Some (StoreError manifests_UNINITIALIZED_ERROR), s)
      else case getPreloadableDependencyManifestName filename of
             Some manifestName \<Rightarrow>
               (None, s\<lparr>ms_manifestsByName := set_entry manifestName (dirnamePath filename) f (ms_manifestsByName s)\<rparr>)
           | None \<Rightarrow> (Some (StoreError ''Cannot read properties of undefined''), s))"

definition manifests_processDirectory :: "string \<Rightarrow> manifest_store \<Rightarrow> manifest_store" where
  "manifests_processDirectory dir s = s\<lparr>ms_dirnameToParent := js_set dir (Some (dirnamePath dir)) (ms_dirnameToParent s)\<rparr>"

fun fill_names ::
  "up_env \<Rightarrow> string comparator \<Rightarrow> configuration \<Rightarrow> string \<Rightarrow> string list \<Rightarrow> manifest_store
   \<Rightarrow> 'e store_error option \<times> manifest_store" where
  "fill_names u localeCompare c baseDir [] s = (None, s)"
| "fill_names u localeCompare c baseDir (manifestName # names) s =
     (case fillManifestCaches u localeCompare manifestName (entry (ms_manifestsByName s) manifestName)
             (ms_dirnameToParent s) baseDir (cfg_canAccessFileSystem c) (ms_caches s) of
        (Some message, F) \<Rightarrow> (Some (StoreError message), s\<lparr>ms_caches := F\<rparr>)
      | (None, F) \<Rightarrow> fill_names u localeCompare c baseDir names (s\<lparr>ms_caches := F\<rparr>))"

definition manifests_postProcess ::
  "up_env \<Rightarrow> string comparator \<Rightarrow> configuration \<Rightarrow> manifest_store \<Rightarrow> 'e store_error option \<times> manifest_store" where
  "manifests_postProcess u localeCompare c s =
     (case truthy_string (ms_baseDir s) of
        None \<Rightarrow> (Some (StoreError manifests_UNINITIALIZED_ERROR), s)
      | Some baseDir \<Rightarrow> fill_names u localeCompare c baseDir PRELOADABLE_DEPENDENCY_MANIFESTS s)"

section \<open>The contract of a store\<close>

definition manifests_key :: "manifest_store \<Rightarrow> string option \<times> bool option \<times> string option" where
  "manifests_key s = (ms_baseDir s, ms_canAccessFileSystem s, ms_projectFileDiscoveryConfigKey s)"

interpretation manifests: file_store manifests_isInitialized setup_manifests manifests_key "\<lambda>c. True"
  by unfold_locales
    (auto simp: manifests_isInitialized_def dirty_manifests_def setup_manifests_def manifests_key_def clear_manifests_def
      Let_def split: if_splits)

lemma fill_names_key [simp]: "manifests_key (snd (fill_names u localeCompare c baseDir names s)) = manifests_key s"
  by (induction names arbitrary: s) (auto simp: manifests_key_def split: prod.split option.split)

lemma manifests_key_kept [simp]:
  "manifests_key (snd (manifests_processFile f file_given s)) = manifests_key s"
  "manifests_key (manifests_processDirectory f s) = manifests_key s"
  "manifests_key (snd (manifests_postProcess u localeCompare c s)) = manifests_key s"
  by (auto simp: manifests_postProcess_def split: option.split)
    (auto simp: manifests_processFile_def manifests_processDirectory_def manifests_key_def split: option.split)

end
