(* ===== verification/Generated_Source_Store.thy ===== *)
theory Generated_Source_Store
  imports Manifest_Store
begin

text \<open>
  The store of generated sources, \<open>file-stores/generated-sources/store.ts\<close> with \<open>snapshot-files.ts\<close>, and
  the context of a walk that the stores share (\<open>createFileStoreContext\<close> of \<open>index.ts\<close>). The detectors,
  the reading of package contexts and the derivation from a snapshot are parameters; what the store only
  keeps for the log is left out. A JavaScript \<open>Set\<close> is the list of its elements in insertion order.
\<close>

section \<open>The context of a walk\<close>

text \<open>Promises of files are cached for the paths that are retained, rejected ones as well.\<close>

record 'e store_context =
  sx_inputFiles :: "analyzable_files option"
  sx_retained :: "string list"
  sx_files :: "(string, 'e store_error + shared_file) js_map"

definition createFileStoreContext :: "analyzable_files option \<Rightarrow> 'e store_context" where
  "createFileStoreContext inputFiles = \<lparr>sx_inputFiles = inputFiles, sx_retained = [], sx_files = []\<rparr>"

definition retainFile :: "string \<Rightarrow> 'e store_context \<Rightarrow> 'e store_context" where
  "retainFile filePath x = x\<lparr>sx_retained := add_member filePath (sx_retained x)\<rparr>"

definition read_shared :: "'e request_env \<Rightarrow> string \<Rightarrow> 'e store_error + shared_file" where
  "read_shared env filePath =
     (case env_read env filePath of
        Inl e \<Rightarrow> Inl (NativeError e)
      | Inr t \<Rightarrow> Inr \<lparr>sf_filePath = filePath, sf_fileContent = stripBOM (env_bom env) t\<rparr>)"

definition context_getFile ::
  "'e request_env \<Rightarrow> string \<Rightarrow> string option \<Rightarrow> 'e store_context \<Rightarrow> ('e store_error + shared_file) \<times> 'e store_context" where
  "context_getFile env filePath fileContent x =
     (case map_of (sx_files x) filePath of
        Some f \<Rightarrow> (f, x)
      | None \<Rightarrow>
          (let f = (case Option.bind (sx_inputFiles x) (\<lambda>files. map_of files filePath) of
               Some inputFile \<Rightarrow> Inr \<lparr>sf_filePath = af_filePath inputFile, sf_fileContent = af_fileContent inputFile\<rparr>
             | None \<Rightarrow>
                 (case fileContent of
                    Some content \<Rightarrow> Inr \<lparr>sf_filePath = filePath, sf_fileContent = content\<rparr>
                  | None \<Rightarrow> read_shared env filePath))
           in (f, if filePath \<in> set (sx_retained x) then x\<lparr>sx_files := js_set filePath f (sx_files x)\<rparr> else x)))"

section \<open>Detectors\<close>

record generated_snapshot =
  gn_directories :: "string list"
  gn_sourceFiles :: "string list"
  gn_preloadedFiles :: "(string, shared_file) js_map"

record derived_sources =
  dv_familyByFile :: "(string, string) js_map"
  dv_configPaths :: "string list"
  dv_watchedOutputPaths :: "string list"

record ('e, 'c) detectors =
  dt_shouldPreload :: "string \<Rightarrow> bool"
  dt_watchedFilenames :: "string list"
  dt_packageContexts :: "string \<Rightarrow> (string, shared_file) js_map \<Rightarrow> 'e store_error + 'c list"
  dt_declaredPreloadPaths :: "string \<Rightarrow> 'c list \<Rightarrow> 'e store_error + string list"
  dt_derive :: "string \<Rightarrow> (string, shared_file) js_map \<Rightarrow> 'c list \<Rightarrow> generated_snapshot \<Rightarrow> (string \<Rightarrow> bool)
      \<Rightarrow> 'e store_error + derived_sources"

definition GENERATED_SOURCE_SOURCE_CONFIG_EXTENSIONS :: "string list" where
  "GENERATED_SOURCE_SOURCE_CONFIG_EXTENSIONS = [''.cjs'', ''.cts'', ''.js'', ''.mjs'', ''.mts'', ''.ts'']"

definition GENERATED_SOURCE_STRUCTURED_CONFIG_EXTENSIONS :: "string list" where
  "GENERATED_SOURCE_STRUCTURED_CONFIG_EXTENSIONS = [''.json'', ''.yaml'', ''.yml'']"

definition isPackageJsonPath :: "string \<Rightarrow> bool" where
  "isPackageJsonPath filePath \<longleftrightarrow> toLowerCase (base_name filePath) = PACKAGE_JSON"

definition shouldCaptureGeneratedSourceSnapshotPath :: "('e, 'c) detectors \<Rightarrow> string \<Rightarrow> bool" where
  "shouldCaptureGeneratedSourceSnapshotPath dt filePath =
     (if isPackageJsonPath filePath then False
      else if dt_shouldPreload dt filePath then True
      else toLowerCase (extname filePath) \<in> set GENERATED_SOURCE_SOURCE_CONFIG_EXTENSIONS
           \<or> toLowerCase (extname filePath) \<in> set GENERATED_SOURCE_STRUCTURED_CONFIG_EXTENSIONS)"

definition shouldPreloadGeneratedSourceSnapshotPath :: "('e, 'c) detectors \<Rightarrow> string \<Rightarrow> bool" where
  "shouldPreloadGeneratedSourceSnapshotPath dt filePath \<longleftrightarrow> \<not> isPackageJsonPath filePath \<and> dt_shouldPreload dt filePath"

section \<open>The store\<close>

record generated_store =
  gs_baseDir :: "string option"
  gs_canAccessFileSystem :: "bool option"
  gs_derivedConfigKey :: "string option"
  gs_projectFileDiscoveryConfigKey :: "string option"
  gs_derivedMetadataInitialized :: bool
  gs_derivedFamilyByFile :: "(string, string) js_map"
  gs_configPaths :: "string list"
  gs_watchedConfigPaths :: "string list"
  gs_preloadCandidatePaths :: "string list"
  gs_preloadedFiles :: "(string, shared_file) js_map"
  gs_sourceFiles :: "string list"
  gs_walkedDirectories :: "string list"
  gs_watchedOutputPaths :: "string list"

definition getGeneratedSourceConfigKey :: "configuration \<Rightarrow> string" where
  "getGeneratedSourceConfigKey c =
     json_stringify (JObj [(''jsSuffixes'', strings (cfg_jsSuffixes c)), (''tsSuffixes'', strings (cfg_tsSuffixes c))])"

definition clearDerivedState :: "generated_store \<Rightarrow> generated_store" where
  "clearDerivedState s = s\<lparr>gs_derivedFamilyByFile := [], gs_configPaths := [], gs_watchedConfigPaths := [],
     gs_watchedOutputPaths := []\<rparr>"

definition clearSnapshotState :: "generated_store \<Rightarrow> generated_store" where
  "clearSnapshotState s = s\<lparr>gs_preloadCandidatePaths := [], gs_preloadedFiles := [], gs_sourceFiles := [],
     gs_walkedDirectories := []\<rparr>"

definition clear_generated :: "generated_store \<Rightarrow> generated_store" where
  "clear_generated s = clearSnapshotState (clearDerivedState
     (s\<lparr>gs_baseDir := None, gs_canAccessFileSystem := None, gs_derivedConfigKey := None,
        gs_projectFileDiscoveryConfigKey := None, gs_derivedMetadataInitialized := False\<rparr>))"

definition isRelevantEvent :: "string \<Rightarrow> string list \<Rightarrow> generated_store \<Rightarrow> bool" where
  "isRelevantEvent filename generatedSourceWatchedFilenames s =
     (let eventBaseName = toLowerCase (base_name filename) in
      if isPreloadableDependencyManifestPath filename \<or> eventBaseName \<in> set generatedSourceWatchedFilenames
         \<or> filename \<in> set (gs_watchedConfigPaths s) then True
      else if filename \<in> set (gs_configPaths s) \<or> map_of (gs_derivedFamilyByFile s) filename \<noteq> None then True
      else list_ex (\<lambda>watchedOutputPath. filename = watchedOutputPath \<or> starts_with filename (watchedOutputPath @ ''/''))
             (gs_watchedOutputPaths s))"

definition dirty_generated :: "('e, 'c) detectors \<Rightarrow> configuration \<Rightarrow> generated_store \<Rightarrow> generated_store" where
  "dirty_generated dt c s =
     (if Some (cfg_baseDir c) \<noteq> gs_baseDir s \<or> Some (cfg_canAccessFileSystem c) \<noteq> gs_canAccessFileSystem s
      then clear_generated s
      else if Some (getGeneratedSourceConfigKey c) \<noteq> gs_derivedConfigKey s then clear_generated s
      else if Some (getProjectFileDiscoveryConfigKey c) \<noteq> gs_projectFileDiscoveryConfigKey s then clear_generated s
      else if list_ex (\<lambda>filename. isRelevantEvent filename (dt_watchedFilenames dt) s) (cfg_fsEvents c)
      then clear_generated s else s)"

definition generated_isInitialized :: "('e, 'c) detectors \<Rightarrow> configuration \<Rightarrow> generated_store \<Rightarrow> bool \<times> generated_store" where
  "generated_isInitialized dt c s =
     (if \<not> cfg_detectGeneratedCode c then (True, clear_generated s)
      else if \<not> cfg_canAccessFileSystem c then (True, clear_generated s)
      else let s' = dirty_generated dt c s in (gs_baseDir s' \<noteq> None, s'))"

definition getFamily :: "string \<Rightarrow> generated_store \<Rightarrow> string option" where
  "getFamily filePath s = map_of (gs_derivedFamilyByFile s) filePath"

definition setup_generated :: "configuration \<Rightarrow> generated_store \<Rightarrow> generated_store" where
  "setup_generated c s = s\<lparr>gs_baseDir := Some (cfg_baseDir c), gs_canAccessFileSystem := Some (cfg_canAccessFileSystem c),
     gs_derivedConfigKey := Some (getGeneratedSourceConfigKey c),
     gs_projectFileDiscoveryConfigKey := Some (getProjectFileDiscoveryConfigKey c),
     gs_walkedDirectories := add_member (cfg_baseDir c) (gs_walkedDirectories s)\<rparr>"

abbreviation is_jsts_file :: "configuration \<Rightarrow> string \<Rightarrow> bool" where
  "is_jsts_file c filename \<equiv> isJsTsFile filename (cfg_jsSuffixes c) (cfg_tsSuffixes c)"

definition generated_wantsFile :: "('e, 'c) detectors \<Rightarrow> string \<Rightarrow> configuration \<Rightarrow> file_processing_mode option" where
  "generated_wantsFile dt filename c =
     (if shouldPreloadGeneratedSourceSnapshotPath dt filename then Some ContentMode
      else if shouldCaptureGeneratedSourceSnapshotPath dt filename then Some DeferredContentMode
      else if is_jsts_file c filename then Some PathMode else None)"

definition generated_processFile ::
  "('e, 'c) detectors \<Rightarrow> string \<Rightarrow> configuration \<Rightarrow> shared_file option \<Rightarrow> generated_store \<Rightarrow> generated_store" where
  "generated_processFile dt filename c file_opt s =
     (let s1 = (if shouldCaptureGeneratedSourceSnapshotPath dt filename
                then s\<lparr>gs_preloadCandidatePaths := add_member filename (gs_preloadCandidatePaths s)\<rparr> else s);
          s2 = (if is_jsts_file c filename then s1\<lparr>gs_sourceFiles := add_member filename (gs_sourceFiles s1)\<rparr> else s1)
      in case file_opt of
           Some f \<Rightarrow> s2\<lparr>gs_preloadedFiles := js_set filename f (gs_preloadedFiles s2)\<rparr>
         | None \<Rightarrow> s2)"

definition generated_processDirectory :: "string \<Rightarrow> generated_store \<Rightarrow> generated_store" where
  "generated_processDirectory dir s = s\<lparr>gs_walkedDirectories := add_member dir (gs_walkedDirectories s)\<rparr>"

section \<open>After the walk\<close>

definition addPackageJsonsToSnapshot :: "(string, shared_file) js_map \<Rightarrow> generated_store \<Rightarrow> generated_store" where
  "addPackageJsonsToSnapshot packageJsons s =
     s\<lparr>gs_preloadedFiles := fold (\<lambda>(d, f). js_set (sf_filePath f) f) packageJsons (gs_preloadedFiles s)\<rparr>"

fun preload_paths ::
  "'e request_env \<Rightarrow> string list \<Rightarrow> 'e store_context \<Rightarrow> generated_store
   \<Rightarrow> 'e store_error option \<times> 'e store_context \<times> generated_store" where
  "preload_paths env [] x s = (None, x, s)"
| "preload_paths env (filePath # ps) x s =
     (if filePath \<notin> set (gs_preloadCandidatePaths s) \<or> map_of (gs_preloadedFiles s) filePath \<noteq> None
      then preload_paths env ps x s
      else case context_getFile env filePath None x of
             (Inl e, x') \<Rightarrow> (Some e, x', s)
           | (Inr f, x') \<Rightarrow> preload_paths env ps x' (s\<lparr>gs_preloadedFiles := js_set filePath f (gs_preloadedFiles s)\<rparr>))"

definition preloadDeclaredConfigFiles ::
  "'e request_env \<Rightarrow> 'e store_context \<Rightarrow> generated_store \<Rightarrow> 'e store_error option \<times> 'e store_context \<times> generated_store" where
  "preloadDeclaredConfigFiles env x s = preload_paths env (gs_watchedConfigPaths s) x s"

definition createProjectSnapshot :: "generated_store \<Rightarrow> generated_snapshot" where
  "createProjectSnapshot s = \<lparr>gn_directories = gs_walkedDirectories s, gn_sourceFiles = gs_sourceFiles s,
     gn_preloadedFiles = gs_preloadedFiles s\<rparr>"

text \<open>The body of the \<open>try\<close>; the snapshot is cleared whether or not it throws.\<close>

definition derive_metadata ::
  "'e request_env \<Rightarrow> ('e, 'c) detectors \<Rightarrow> configuration \<Rightarrow> ('e store_error + (string, shared_file) js_map) \<Rightarrow> string
   \<Rightarrow> 'e store_context \<Rightarrow> generated_store \<Rightarrow> 'e store_error option \<times> 'e store_context \<times> generated_store" where
  "derive_metadata env dt c getPackageJsons_result baseDir x s =
     (case getPackageJsons_result of
        Inl e \<Rightarrow> (Some e, x, s)
      | Inr packageJsons \<Rightarrow>
          (case dt_packageContexts dt baseDir packageJsons of
             Inl e \<Rightarrow> (Some e, x, s)
           | Inr packageContexts \<Rightarrow>
               (let s1 = addPackageJsonsToSnapshot packageJsons s in
                case dt_declaredPreloadPaths dt baseDir packageContexts of
                  Inl e \<Rightarrow> (Some e, x, s1)
                | Inr paths \<Rightarrow>
                    (case preloadDeclaredConfigFiles env x (s1\<lparr>gs_watchedConfigPaths := paths\<rparr>) of
                       (Some e, x', s2) \<Rightarrow> (Some e, x', s2)
                     | (None, x', s2) \<Rightarrow>
                         (case dt_derive dt baseDir packageJsons packageContexts (createProjectSnapshot s2) (is_jsts_file c) of
                            Inl e \<Rightarrow> (Some e, x', s2)
                          | Inr derived \<Rightarrow> (None, x',
                              s2\<lparr>gs_derivedFamilyByFile := dv_familyByFile derived, gs_configPaths := dv_configPaths derived,
                                 gs_watchedOutputPaths := dv_watchedOutputPaths derived,
                                 gs_derivedMetadataInitialized := True\<rparr>))))))"

definition generated_postProcess ::
  "'e request_env \<Rightarrow> ('e, 'c) detectors \<Rightarrow> configuration \<Rightarrow> ('e store_error + (string, shared_file) js_map)
   \<Rightarrow> 'e store_context \<Rightarrow> generated_store \<Rightarrow> 'e store_error option \<times> 'e store_context \<times> generated_store" where
  "generated_postProcess env dt c getPackageJsons_result x s =
     (if \<not> cfg_detectGeneratedCode c then (None, x, clear_generated s)
      else if gs_derivedMetadataInitialized s then (None, x, s)
      else case derive_metadata env dt c getPackageJsons_result (nullish (gs_baseDir s) '''') x s of
             (r, x', s') \<Rightarrow> (r, x', clearSnapshotState s'))"

section \<open>The contract of a store\<close>

definition generated_key :: "generated_store \<Rightarrow> string option \<times> bool option \<times> string option \<times> string option" where
  "generated_key s = (gs_baseDir s, gs_canAccessFileSystem s, gs_derivedConfigKey s, gs_projectFileDiscoveryConfigKey s)"

abbreviation generated_applies :: "configuration \<Rightarrow> bool" where
  "generated_applies c \<equiv> cfg_detectGeneratedCode c \<and> cfg_canAccessFileSystem c"

interpretation generated: file_store "generated_isInitialized dt" setup_generated generated_key generated_applies
  by unfold_locales
    (auto simp: generated_isInitialized_def dirty_generated_def setup_generated_def generated_key_def clear_generated_def
      clearSnapshotState_def clearDerivedState_def Let_def split: if_splits)

lemma preload_paths_key [simp]: "generated_key (snd (snd (preload_paths env ps x s))) = generated_key s"
  by (induction ps arbitrary: x s) (auto simp: generated_key_def split: prod.split sum.split)

lemma derive_metadata_key [simp]:
  "generated_key (snd (snd (derive_metadata env dt c packageJsons baseDir x s))) = generated_key s"
proof -
  have preloaded: "generated_key b = generated_key s"
    if "preload_paths env ps x (addPackageJsonsToSnapshot m s\<lparr>gs_watchedConfigPaths := ps\<rparr>) = (r, x', b)" for ps m r x' b
    using preload_paths_key [of env ps x "addPackageJsonsToSnapshot m s\<lparr>gs_watchedConfigPaths := ps\<rparr>"]
    unfolding that by (simp add: generated_key_def addPackageJsonsToSnapshot_def)
  have same: "generated_key (addPackageJsonsToSnapshot m s) = generated_key s"
    "generated_key (s'\<lparr>gs_derivedFamilyByFile := f, gs_configPaths := p, gs_watchedOutputPaths := o', gs_derivedMetadataInitialized := i\<rparr>)
      = generated_key s'" for m s' f p o' i
    by (simp_all add: generated_key_def addPackageJsonsToSnapshot_def)
  show ?thesis
    by (auto simp: derive_metadata_def preloadDeclaredConfigFiles_def Let_def same dest: preloaded
        split: sum.split prod.split option.split)
qed

lemma generated_key_kept [simp]:
  "generated_key (generated_processFile dt f c file_opt s) = generated_key s"
  "generated_key (generated_processDirectory f s) = generated_key s"
  by (auto simp: generated_processFile_def generated_processDirectory_def generated_key_def Let_def split: option.split)

lemma generated_key_post [simp]:
  assumes "cfg_detectGeneratedCode c"
  shows "generated_key (snd (snd (generated_postProcess env dt c packageJsons x s))) = generated_key s"
proof -
  have "generated_key (clearSnapshotState s') = generated_key s'" for s'
    by (simp add: generated_key_def clearSnapshotState_def)
  moreover have "generated_key s' = generated_key s"
    if "derive_metadata env dt c packageJsons (nullish (gs_baseDir s) '''') x s = (r, x', s')" for r x' s'
    using derive_metadata_key [of env dt c packageJsons "nullish (gs_baseDir s) ''''" x s] unfolding that by simp
  ultimately show ?thesis using assms by (auto simp: generated_postProcess_def split: prod.split)
qed

end
