(* ===== verification/File_Stores.thy ===== *)
theory File_Stores
  imports Generated_Source_Store Tsconfig_Store
begin

text \<open>
  The stores together, \<open>packages/analysis/src/file-stores/index.ts\<close>: the four stores are initialized by
  one walk over the project, or from the files of the request when the file system is out of reach. The
  stores share no state, so they are the fields of a record; a list of stores is a list of their names.
\<close>

section \<open>The stores\<close>

datatype store_name = SourceStore | ManifestStore | GeneratedStore | TsconfigStore

record ('p, 'o, 'ast) project_stores =
  st_source :: source_store
  st_manifests :: manifest_store
  st_generated :: generated_store
  st_tsconfigs :: "('p, 'o) tsconfig_store"
  st_sourceFiles :: "'ast source_caches"

definition fileStores :: "store_name list" where
  "fileStores = [SourceStore, ManifestStore, GeneratedStore, TsconfigStore]"

text \<open>What is outside: the file system and globs, the detectors, and the order of \<open>localeCompare\<close>.\<close>

record ('e, 'c) stores_env =
  se_request :: "'e request_env"
  se_opendir :: "'e store_error opendir"
  se_up :: up_env
  se_detectors :: "('e, 'c) detectors"
  se_localeCompare :: "string comparator"

definition resetFileStores :: "('p, 'o, 'ast) project_stores \<Rightarrow> ('p, 'o, 'ast) project_stores" where
  "resetFileStores st = st\<lparr>st_source := clear_source (st_source st), st_manifests := clear_manifests (st_manifests st),
     st_generated := clear_generated (st_generated st), st_tsconfigs := clear_tsconfigs (st_tsconfigs st)\<rparr>"

section \<open>The interface of the stores\<close>

fun store_isInitialized ::
  "('e, 'c) stores_env \<Rightarrow> store_name \<Rightarrow> configuration \<Rightarrow> analyzable_files option \<Rightarrow> ('p, 'o, 'ast) project_stores
   \<Rightarrow> bool \<times> ('p, 'o, 'ast) project_stores" where
  "store_isInitialized E SourceStore c inputFiles st =
     (case source_isInitialized c inputFiles (st_source st) of (b, s) \<Rightarrow> (b, st\<lparr>st_source := s\<rparr>))"
| "store_isInitialized E ManifestStore c inputFiles st =
     (case manifests_isInitialized c (st_manifests st) of (b, s) \<Rightarrow> (b, st\<lparr>st_manifests := s\<rparr>))"
| "store_isInitialized E GeneratedStore c inputFiles st =
     (case generated_isInitialized (se_detectors E) c (st_generated st) of (b, s) \<Rightarrow> (b, st\<lparr>st_generated := s\<rparr>))"
| "store_isInitialized E TsconfigStore c inputFiles st =
     (case tsconfigs_isInitialized (env_glob (se_request E)) c (st_tsconfigs st) of (b, s) \<Rightarrow> (b, st\<lparr>st_tsconfigs := s\<rparr>))"

fun store_setup :: "store_name \<Rightarrow> configuration \<Rightarrow> ('p, 'o, 'ast) project_stores \<Rightarrow> ('p, 'o, 'ast) project_stores" where
  "store_setup SourceStore c st = st\<lparr>st_source := setup_source c (st_source st)\<rparr>"
| "store_setup ManifestStore c st = st\<lparr>st_manifests := setup_manifests c (st_manifests st)\<rparr>"
| "store_setup GeneratedStore c st = st\<lparr>st_generated := setup_generated c (st_generated st)\<rparr>"
| "store_setup TsconfigStore c st = st\<lparr>st_tsconfigs := setup_tsconfigs c (st_tsconfigs st)\<rparr>"

fun store_wantsFile ::
  "('e, 'c) stores_env \<Rightarrow> store_name \<Rightarrow> string \<Rightarrow> configuration \<Rightarrow> ('p, 'o, 'ast) project_stores
   \<Rightarrow> file_processing_mode option \<times> ('p, 'o, 'ast) project_stores" where
  "store_wantsFile E SourceStore filename c st =
     (case source_wantsFile (se_request E) filename c (st_source st) of (m, s) \<Rightarrow> (m, st\<lparr>st_source := s\<rparr>))"
| "store_wantsFile E ManifestStore filename c st = (manifests_wantsFile filename, st)"
| "store_wantsFile E GeneratedStore filename c st = (generated_wantsFile (se_detectors E) filename c, st)"
| "store_wantsFile E TsconfigStore filename c st =
     (if tsconfigs_wantsFile (env_glob (se_request E)) filename (st_tsconfigs st) then Some PathMode else None, st)"

text \<open>The store of manifests is given a file, since it never asks for less.\<close>

fun store_processFile ::
  "('e, 'c) stores_env \<Rightarrow> store_name \<Rightarrow> string \<Rightarrow> configuration \<Rightarrow> shared_file option \<Rightarrow> ('p, 'o, 'ast) project_stores
   \<Rightarrow> 'e store_error option \<times> ('p, 'o, 'ast) project_stores" where
  "store_processFile E SourceStore filename c f st =
     (case source_processFile (se_request E) filename c f (st_source st) of (r, s) \<Rightarrow> (r, st\<lparr>st_source := s\<rparr>))"
| "store_processFile E ManifestStore filename c f st =
     (case f of
        Some file_given \<Rightarrow>
          (case manifests_processFile filename file_given (st_manifests st) of (r, s) \<Rightarrow> (r, st\<lparr>st_manifests := s\<rparr>))
      | None \<Rightarrow> (None, st))"
| "store_processFile E GeneratedStore filename c f st =
     (None, st\<lparr>st_generated := generated_processFile (se_detectors E) filename c f (st_generated st)\<rparr>)"
| "store_processFile E TsconfigStore filename c f st =
     (None, st\<lparr>st_tsconfigs := tsconfigs_processFile (env_glob (se_request E)) filename (st_tsconfigs st)\<rparr>)"

fun store_processDirectory ::
  "('e, 'c) stores_env \<Rightarrow> store_name \<Rightarrow> string \<Rightarrow> configuration \<Rightarrow> ('p, 'o, 'ast) project_stores \<Rightarrow> ('p, 'o, 'ast) project_stores" where
  "store_processDirectory E SourceStore dir c st = st\<lparr>st_source := source_processDirectory (se_request E) dir c (st_source st)\<rparr>"
| "store_processDirectory E ManifestStore dir c st = st\<lparr>st_manifests := manifests_processDirectory dir (st_manifests st)\<rparr>"
| "store_processDirectory E GeneratedStore dir c st = st\<lparr>st_generated := generated_processDirectory dir (st_generated st)\<rparr>"
| "store_processDirectory E TsconfigStore dir c st = st"

fun store_postProcess ::
  "('e, 'c) stores_env \<Rightarrow> store_name \<Rightarrow> configuration \<Rightarrow> 'e store_context \<Rightarrow> ('p, 'o, 'ast) project_stores
   \<Rightarrow> 'e store_error option \<times> 'e store_context \<times> ('p, 'o, 'ast) project_stores" where
  "store_postProcess E SourceStore c x st = (None, x, st\<lparr>st_source := source_postProcess (st_source st)\<rparr>)"
| "store_postProcess E ManifestStore c x st =
     (case manifests_postProcess (se_up E) (se_localeCompare E) c (st_manifests st) of
        (r, s) \<Rightarrow> (r, x, st\<lparr>st_manifests := s\<rparr>))"
| "store_postProcess E GeneratedStore c x st =
     (case generated_postProcess (se_request E) (se_detectors E) c (getPackageJsons (st_manifests st)) x (st_generated st) of
        (r, x', s) \<Rightarrow> (r, x', st\<lparr>st_generated := s\<rparr>))"
| "store_postProcess E TsconfigStore c x st = (None, x, st\<lparr>st_tsconfigs := tsconfigs_postProcess (st_tsconfigs st)\<rparr>)"

section \<open>Files and directories\<close>

fun collect_requests ::
  "('e, 'c) stores_env \<Rightarrow> store_name list \<Rightarrow> string \<Rightarrow> configuration \<Rightarrow> ('p, 'o, 'ast) project_stores
   \<Rightarrow> (store_name \<times> file_processing_mode option) list \<times> ('p, 'o, 'ast) project_stores" where
  "collect_requests E [] filePath c st = ([], st)"
| "collect_requests E (n # ns) filePath c st =
     (let (m, st1) = store_wantsFile E n filePath c st; (rs, st2) = collect_requests E ns filePath c st1
      in ((n, m) # rs, st2))"

fun process_requests ::
  "('e, 'c) stores_env \<Rightarrow> (store_name \<times> file_processing_mode option) list \<Rightarrow> string \<Rightarrow> configuration \<Rightarrow> string option
   \<Rightarrow> shared_file option \<Rightarrow> 'e store_context \<Rightarrow> ('p, 'o, 'ast) project_stores
   \<Rightarrow> 'e store_error option \<times> 'e store_context \<times> ('p, 'o, 'ast) project_stores" where
  "process_requests E [] filePath c fileContent sharedFile x st = (None, x, st)"
| "process_requests E ((n, m) # rs) filePath c fileContent sharedFile x st =
     (case m of
        None \<Rightarrow> process_requests E rs filePath c fileContent sharedFile x st
      | Some ContentMode \<Rightarrow>
          (case (case sharedFile of Some f \<Rightarrow> (Inr f, x) | None \<Rightarrow> context_getFile (se_request E) filePath fileContent x) of
             (Inl e, x') \<Rightarrow> (Some e, x', st)
           | (Inr f, x') \<Rightarrow>
               (case store_processFile E n filePath c (Some f) st of
                  (Some e, st') \<Rightarrow> (Some e, x', st')
                | (None, st') \<Rightarrow> process_requests E rs filePath c fileContent (Some f) x' st'))
      | Some _ \<Rightarrow>
          (case store_processFile E n filePath c None st of
             (Some e, st') \<Rightarrow> (Some e, x, st')
           | (None, st') \<Rightarrow> process_requests E rs filePath c fileContent sharedFile x st'))"

definition processPendingFileStores ::
  "('e, 'c) stores_env \<Rightarrow> store_name list \<Rightarrow> string \<Rightarrow> configuration \<Rightarrow> string option \<Rightarrow> 'e store_context
   \<Rightarrow> ('p, 'o, 'ast) project_stores \<Rightarrow> 'e store_error option \<times> 'e store_context \<times> ('p, 'o, 'ast) project_stores" where
  "processPendingFileStores E pendingStores filePath c fileContent x st =
     (let (storeRequests, st1) = collect_requests E pendingStores filePath c st;
          x1 = (if list_ex (\<lambda>(n, m). m = Some DeferredContentMode) storeRequests then retainFile filePath x else x)
      in process_requests E storeRequests filePath c fileContent None x1 st1)"

definition process_directory ::
  "('e, 'c) stores_env \<Rightarrow> store_name list \<Rightarrow> string \<Rightarrow> configuration \<Rightarrow> ('p, 'o, 'ast) project_stores \<Rightarrow> ('p, 'o, 'ast) project_stores" where
  "process_directory E pendingStores dir c st = fold (\<lambda>n st. store_processDirectory E n dir c st) pendingStores st"

section \<open>Initialization\<close>

text \<open>The callback of the walk, on the context and the stores.\<close>

definition walk_entry ::
  "('e, 'c) stores_env \<Rightarrow> store_name list \<Rightarrow> configuration \<Rightarrow> dirent_kind \<Rightarrow> string
   \<Rightarrow> 'e store_context \<times> ('p, 'o, 'ast) project_stores
   \<Rightarrow> 'e store_error option \<times> 'e store_context \<times> ('p, 'o, 'ast) project_stores" where
  "walk_entry E pendingStores c k filePath = (\<lambda>(x, st).
     (let st1 = (if k = DirectoryKind then process_directory E pendingStores filePath c st else st) in
      if k = FileKind then processPendingFileStores E pendingStores filePath c None x st1 else (None, x, st1)))"

definition stores_walk :: "('e, 'c) stores_env \<Rightarrow> configuration \<Rightarrow> 'e store_error walk_env" where
  "stores_walk E c = \<lparr>we_cwd = env_cwd (se_request E), we_opendir = se_opendir E, we_glob = env_glob (se_request E),
     we_exclusions = cfg_jsTsExclusions c\<rparr>"

text \<open>
  The directories above a file, up to the base directory or a root. Each is shorter than the one
  before; \<open>None\<close> is a loop that does not end, as for a relative path.
\<close>

fun parents_up :: "nat \<Rightarrow> string \<Rightarrow> string \<Rightarrow> string list option" where
  "parents_up fuel baseDir currentPath =
     (if baseDir = currentPath \<or> isRoot currentPath then Some []
      else case fuel of
             0 \<Rightarrow> None
           | Suc fuel' \<Rightarrow> map_option (Cons currentPath) (parents_up fuel' baseDir (dirnamePath currentPath)))"

fun all_directories :: "string \<Rightarrow> string list \<Rightarrow> string list \<Rightarrow> string list option" where
  "all_directories baseDir [] allDirs = Some allDirs"
| "all_directories baseDir (filePath # fs) allDirs =
     (case parents_up (length filePath) baseDir (dirnamePath filePath) of
        None \<Rightarrow> None
      | Some ds \<Rightarrow> all_directories baseDir fs (fold add_member ds allDirs))"

fun simulate_files ::
  "('e, 'c) stores_env \<Rightarrow> store_name list \<Rightarrow> configuration \<Rightarrow> (string \<times> analyzable_file) list \<Rightarrow> 'e store_context
   \<Rightarrow> ('p, 'o, 'ast) project_stores \<Rightarrow> 'e store_error option \<times> 'e store_context \<times> ('p, 'o, 'ast) project_stores" where
  "simulate_files E pendingStores c [] x st = (None, x, st)"
| "simulate_files E pendingStores c ((filePath, f) # fs) x st =
     (case processPendingFileStores E pendingStores filePath c (Some (af_fileContent f)) x st of
        (Some e, x', st') \<Rightarrow> (Some e, x', st')
      | (None, x', st') \<Rightarrow> simulate_files E pendingStores c fs x' st')"

definition walk_result :: "'e option \<times> 'a \<Rightarrow> 'e walk_end \<times> 'a" where
  "walk_result r = (case r of (None, s) \<Rightarrow> (WalkDone, s) | (Some e, s) \<Rightarrow> (WalkFailed e, s))"

definition simulateFromInputFiles ::
  "('e, 'c) stores_env \<Rightarrow> analyzable_files \<Rightarrow> configuration \<Rightarrow> store_name list \<Rightarrow> 'e store_context
   \<Rightarrow> ('p, 'o, 'ast) project_stores \<Rightarrow> 'e store_error walk_end \<times> 'e store_context \<times> ('p, 'o, 'ast) project_stores" where
  "simulateFromInputFiles E inputFiles c pendingStores x st =
     (case all_directories (cfg_baseDir c) (js_keys inputFiles) [] of
        None \<Rightarrow> (WalkOutOfFuel, x, st)
      | Some allDirs \<Rightarrow>
          walk_result (simulate_files E pendingStores c inputFiles x
            (fold (\<lambda>n st. fold (\<lambda>dir st. store_processDirectory E n dir c st) allDirs st) pendingStores st)))"

fun post_process ::
  "('e, 'c) stores_env \<Rightarrow> store_name list \<Rightarrow> configuration \<Rightarrow> 'e store_context \<Rightarrow> ('p, 'o, 'ast) project_stores
   \<Rightarrow> 'e store_error option \<times> ('p, 'o, 'ast) project_stores" where
  "post_process E [] c x st = (None, st)"
| "post_process E (n # ns) c x st =
     (case store_postProcess E n c x st of
        (Some e, x', st') \<Rightarrow> (Some e, st')
      | (None, x', st') \<Rightarrow> post_process E ns c x' st')"

fun pending_stores ::
  "('e, 'c) stores_env \<Rightarrow> store_name list \<Rightarrow> configuration \<Rightarrow> analyzable_files option \<Rightarrow> ('p, 'o, 'ast) project_stores
   \<Rightarrow> store_name list \<times> ('p, 'o, 'ast) project_stores" where
  "pending_stores E [] c inputFiles st = ([], st)"
| "pending_stores E (n # ns) c inputFiles st =
     (let (initialized, st1) = store_isInitialized E n c inputFiles st;
          (pending, st2) = pending_stores E ns c inputFiles st1
      in (if initialized then pending else n # pending, st2))"

definition initFileStores ::
  "('e, 'c) stores_env \<Rightarrow> nat \<Rightarrow> configuration \<Rightarrow> analyzable_files option \<Rightarrow> ('p, 'o, 'ast) project_stores
   \<Rightarrow> 'e store_error walk_end \<times> ('p, 'o, 'ast) project_stores" where
  "initFileStores E fuel c inputFiles st =
     (let (pendingStores, st1) = pending_stores E fileStores c inputFiles st in
      if pendingStores = [] then (WalkDone, st1)
      else
        let x = createFileStoreContext inputFiles;
            st2 = fold (\<lambda>n st. store_setup n c st) pendingStores st1
        in case (if cfg_canAccessFileSystem c
                 then findFiles (stores_walk E c) (walk_entry E pendingStores c) fuel (cfg_baseDir c) (x, st2)
                 else case inputFiles of
                        Some files \<Rightarrow> simulateFromInputFiles E files c pendingStores x st2
                      | None \<Rightarrow> (WalkDone, x, st2)) of
             (WalkDone, x', st3) \<Rightarrow> walk_result (post_process E pendingStores c x' st3)
           | (stop, x', st3) \<Rightarrow> (stop, st3))"

definition initFileStoresForAnalysis ::
  "('e, 'c) stores_env \<Rightarrow> nat \<Rightarrow> configuration \<Rightarrow> analyzable_files option \<Rightarrow> ('p, 'o, 'ast) project_stores
   \<Rightarrow> 'e store_error walk_end \<times> ('p, 'o, 'ast) project_stores" where
  "initFileStoresForAnalysis E fuel c inputFiles st =
     initFileStores E fuel c inputFiles
       (if \<not> cfg_sonarlint c
        then (resetFileStores st)\<lparr>st_sourceFiles := clearSourceFileContentCache (st_sourceFiles st)\<rparr> else st)"

end
