(* ===== verification/File_Discovery.thy ===== *)
theory File_Discovery
  imports File_Stores
begin

text \<open>
  What a walk over a tree of files leaves in the stores: the files to analyze, and the manifests and
  directories from which the caches of manifests are filled.
\<close>

section \<open>No store fails during a walk\<close>

text \<open>The content of a file, as the stores see it.\<close>

definition content_of :: "'e request_env \<Rightarrow> string \<Rightarrow> string" where
  "content_of env p = (case env_read env p of Inl e \<Rightarrow> '''' | Inr t \<Rightarrow> stripBOM (env_bom env) t)"

definition readable :: "'e request_env \<Rightarrow> string \<Rightarrow> bool" where
  "readable env p \<longleftrightarrow> (\<exists>t. env_read env p = Inr t)"

abbreviation shared_of :: "'e request_env \<Rightarrow> string \<Rightarrow> shared_file" where
  "shared_of env p \<equiv> \<lparr>sf_filePath = p, sf_fileContent = content_of env p\<rparr>"

lemma read_shared: "readable env p \<Longrightarrow> read_shared env p = Inr (shared_of env p)"
  by (auto simp: readable_def read_shared_def content_of_def)

text \<open>The context caches what reading gives; there are no files of the request.\<close>

definition context_ok :: "'e request_env \<Rightarrow> 'e store_context \<Rightarrow> bool" where
  "context_ok env x \<longleftrightarrow> sx_inputFiles x = None \<and> (\<forall>p f. map_of (sx_files x) p = Some f \<longrightarrow> f = Inr (shared_of env p))"

definition stores_ready :: "('p, 'o, 'ast) project_stores \<Rightarrow> bool" where
  "stores_ready st \<longleftrightarrow> ss_files (st_source st) \<noteq> None \<and> truthy_string (ms_baseDir (st_manifests st)) \<noteq> None"

lemma context_getFile_ok:
  "context_ok env x \<Longrightarrow> readable env p \<Longrightarrow>
     \<exists>x'. context_getFile env p None x = (Inr (shared_of env p), x') \<and> context_ok env x'"
  by (cases "map_of (sx_files x) p") (auto simp: context_getFile_def context_ok_def read_shared update_conv' Let_def)

lemma context_ok_retain: "context_ok env x \<Longrightarrow> context_ok env (retainFile p x)"
  by (simp add: context_ok_def retainFile_def)

lemma context_ok_create: "context_ok env (createFileStoreContext None)"
  by (simp add: context_ok_def createFileStoreContext_def)

text \<open>What one file does to a store of sources and to a store of manifests.\<close>

definition manifest_visit :: "'e request_env \<Rightarrow> visit \<Rightarrow> manifest_store \<Rightarrow> manifest_store" where
  "manifest_visit env = (\<lambda>(p, k) s.
     (case k of
        DirectoryKind \<Rightarrow> manifests_processDirectory p s
      | FileKind \<Rightarrow>
          (case getPreloadableDependencyManifestName p of
             None \<Rightarrow> s
           | Some name \<Rightarrow>
               s\<lparr>ms_manifestsByName := set_entry name (dirnamePath p) (shared_of env p) (ms_manifestsByName s)\<rparr>)
      | OtherKind \<Rightarrow> s))"

lemma source_processFile_ready:
  "ss_files s \<noteq> None \<Longrightarrow> fst (source_processFile env p c f s) = None \<and> ss_files (snd (source_processFile env p c f s)) \<noteq> None"
  by (auto simp: source_processFile_def Let_def split: option.split)

lemma preloadable_name: "isPreloadableDependencyManifestPath p \<longleftrightarrow> getPreloadableDependencyManifestName p \<noteq> None"
  by (simp add: isPreloadableDependencyManifestPath_def getPreloadableDependencyManifestName_def Let_def)

lemma store_processFile_ready:
  assumes "stores_ready st" "n = ManifestStore \<longrightarrow> isPreloadableDependencyManifestPath p \<and> f = Some (shared_of (se_request E) p)"
  shows "\<exists>st'. store_processFile E n p c f st = (None, st') \<and> stores_ready st'
     \<and> st_source st' = (if n = SourceStore then snd (source_processFile (se_request E) p c f (st_source st)) else st_source st)
     \<and> st_manifests st' = (if n = ManifestStore then manifest_visit (se_request E) (p, FileKind) (st_manifests st)
                           else st_manifests st)"
proof (cases n)
  case SourceStore
  then show ?thesis
    using source_processFile_ready [of "st_source st" "se_request E" p c f] assms(1)
    by (cases "source_processFile (se_request E) p c f (st_source st)") (auto simp: stores_ready_def)
next
  case ManifestStore
  then show ?thesis
    using assms by (auto simp: manifests_processFile_def stores_ready_def preloadable_name manifest_visit_def)
next
  case GeneratedStore
  then show ?thesis using assms(1) by (simp add: stores_ready_def)
next
  case TsconfigStore
  then show ?thesis using assms(1) by (simp add: stores_ready_def)
qed

text \<open>The requests of the stores, each store once.\<close>

definition requests_ok :: "string \<Rightarrow> (store_name \<times> file_processing_mode option) list \<Rightarrow> bool" where
  "requests_ok p rs \<longleftrightarrow> distinct (map fst rs)
     \<and> (\<forall>m. (ManifestStore, Some m) \<in> set rs \<longrightarrow> m = ContentMode \<and> isPreloadableDependencyManifestPath p)"

definition source_request ::
  "'e request_env \<Rightarrow> configuration \<Rightarrow> string \<Rightarrow> (store_name \<times> file_processing_mode option) list \<Rightarrow> source_store \<Rightarrow> source_store" where
  "source_request env c p rs s =
     (case map_of rs SourceStore of
        Some (Some m) \<Rightarrow> snd (source_processFile env p c (if m = ContentMode then Some (shared_of env p) else None) s)
      | _ \<Rightarrow> s)"

definition manifest_request ::
  "'e request_env \<Rightarrow> string \<Rightarrow> (store_name \<times> file_processing_mode option) list \<Rightarrow> manifest_store \<Rightarrow> manifest_store" where
  "manifest_request env p rs s =
     (case map_of rs ManifestStore of Some (Some m) \<Rightarrow> manifest_visit env (p, FileKind) s | _ \<Rightarrow> s)"

lemma process_requests_ready:
  assumes "stores_ready st" "context_ok (se_request E) x" "readable (se_request E) p" "requests_ok p rs"
    "sharedFile = None \<or> sharedFile = Some (shared_of (se_request E) p)"
  shows "\<exists>x' st'. process_requests E rs p c None sharedFile x st = (None, x', st')
     \<and> stores_ready st' \<and> context_ok (se_request E) x'
     \<and> st_source st' = source_request (se_request E) c p rs (st_source st)
     \<and> st_manifests st' = manifest_request (se_request E) p rs (st_manifests st)"
  using assms
proof (induction rs arbitrary: x st sharedFile)
  case Nil
  then show ?case by (simp add: source_request_def manifest_request_def)
next
  case (Cons r rs)
  obtain n m where r: "r = (n, m)" by fastforce
  have rs: "requests_ok p rs" using Cons.prems(4) by (simp add: requests_ok_def r)
  have fresh: "map_of rs n = None" using Cons.prems(4) by (auto simp: requests_ok_def r map_of_eq_None_iff)
  show ?case
  proof (cases m)
    case None
    have same: "source_request (se_request E) c p (r # rs) = source_request (se_request E) c p rs"
      "manifest_request (se_request E) p (r # rs) = manifest_request (se_request E) p rs"
      using fresh by (auto simp: source_request_def manifest_request_def r None fun_eq_iff)
    show ?thesis
      unfolding same using Cons.IH [OF Cons.prems(1,2,3) rs Cons.prems(5)] by (simp add: r None)
  next
    case (Some mode)
    let ?f = "if mode = ContentMode then Some (shared_of (se_request E) p) else None"
    have manifest: "n = ManifestStore \<longrightarrow> isPreloadableDependencyManifestPath p \<and> ?f = Some (shared_of (se_request E) p)"
      using Cons.prems(4) by (auto simp: requests_ok_def r Some)
    obtain st1 where st1: "store_processFile E n p c ?f st = (None, st1)" "stores_ready st1"
      "st_source st1 = (if n = SourceStore then snd (source_processFile (se_request E) p c ?f (st_source st)) else st_source st)"
      "st_manifests st1 = (if n = ManifestStore then manifest_visit (se_request E) (p, FileKind) (st_manifests st)
                           else st_manifests st)"
      using store_processFile_ready [OF Cons.prems(1) manifest] by blast
    obtain sharedFile' x1 where step: "process_requests E (r # rs) p c None sharedFile x st
        = process_requests E rs p c None sharedFile' x1 st1" "context_ok (se_request E) x1"
      "sharedFile' = None \<or> sharedFile' = Some (shared_of (se_request E) p)"
    proof (cases "mode = ContentMode \<and> sharedFile = None")
      case True
      obtain x1 where "context_getFile (se_request E) p None x = (Inr (shared_of (se_request E) p), x1)"
        "context_ok (se_request E) x1"
        using context_getFile_ok [OF Cons.prems(2,3)] by blast
      with True st1(1) show ?thesis by (intro that [of "Some (shared_of (se_request E) p)" x1]) (simp_all add: r Some)
    next
      case False
      then show ?thesis
        using Cons.prems(2,5) st1(1) by (intro that [of sharedFile x]; cases mode) (auto simp: r Some)
    qed
    obtain x' st' where res: "process_requests E rs p c None sharedFile' x1 st1 = (None, x', st')"
      "stores_ready st'" "context_ok (se_request E) x'"
      "st_source st' = source_request (se_request E) c p rs (st_source st1)"
      "st_manifests st' = manifest_request (se_request E) p rs (st_manifests st1)"
      using Cons.IH [OF st1(2) step(2) Cons.prems(3) rs step(3)] by blast
    have "source_request (se_request E) c p rs (st_source st1) = source_request (se_request E) c p (r # rs) (st_source st)"
      "manifest_request (se_request E) p rs (st_manifests st1) = manifest_request (se_request E) p (r # rs) (st_manifests st)"
      using fresh by (auto simp: source_request_def manifest_request_def r Some st1)
    then show ?thesis using step(1) res by auto
  qed
qed

text \<open>Asking the stores changes only what the store of sources remembers for the next call.\<close>

lemma ss_files_wantsFile [simp]: "ss_files (snd (source_wantsFile env p c s)) = ss_files s"
  by (auto simp: source_wantsFile_def split: option.split)

lemma collect_requests_ok:
  assumes "distinct ns" "stores_ready st"
  shows "\<exists>rs st'. collect_requests E ns p c st = (rs, st') \<and> map fst rs = ns \<and> requests_ok p rs \<and> stores_ready st'
     \<and> st_manifests st' = st_manifests st
     \<and> (SourceStore \<in> set ns \<longrightarrow> map_of rs SourceStore = Some (fst (source_wantsFile (se_request E) p c (st_source st)))
          \<and> st_source st' = snd (source_wantsFile (se_request E) p c (st_source st)))
     \<and> (SourceStore \<notin> set ns \<longrightarrow> st_source st' = st_source st)
     \<and> (ManifestStore \<in> set ns \<longrightarrow> map_of rs ManifestStore = Some (manifests_wantsFile p))"
  using assms
proof (induction ns arbitrary: st)
  case Nil
  then show ?case by (simp add: requests_ok_def)
next
  case (Cons n ns)
  obtain m st1 where st1: "store_wantsFile E n p c st = (m, st1)" by fastforce
  have ready: "stores_ready st1" "st_manifests st1 = st_manifests st"
    "st_source st1 = (if n = SourceStore then snd (source_wantsFile (se_request E) p c (st_source st)) else st_source st)"
    "n = SourceStore \<longrightarrow> m = fst (source_wantsFile (se_request E) p c (st_source st))"
    "n = ManifestStore \<longrightarrow> m = manifests_wantsFile p"
    using st1 Cons.prems(2) ss_files_wantsFile [of "se_request E" p c "st_source st"]
    by (cases n; auto simp: stores_ready_def split: prod.splits)+
  obtain rs st' where rs: "collect_requests E ns p c st1 = (rs, st')" "map fst rs = ns" "requests_ok p rs" "stores_ready st'"
    "st_manifests st' = st_manifests st1"
    "SourceStore \<in> set ns \<longrightarrow> map_of rs SourceStore = Some (fst (source_wantsFile (se_request E) p c (st_source st1)))
          \<and> st_source st' = snd (source_wantsFile (se_request E) p c (st_source st1))"
    "SourceStore \<notin> set ns \<longrightarrow> st_source st' = st_source st1"
    "ManifestStore \<in> set ns \<longrightarrow> map_of rs ManifestStore = Some (manifests_wantsFile p)"
    using Cons.IH [of st1] Cons.prems(1) ready(1) by auto
  show ?case
  proof (rule exI [of _ "(n, m) # rs"], rule exI [of _ st'], intro conjI)
    show "collect_requests E (n # ns) p c st = ((n, m) # rs, st')" by (simp add: st1 rs(1))
    show "map fst ((n, m) # rs) = n # ns" by (simp add: rs(2))
    show "requests_ok p ((n, m) # rs)"
      using rs(2,3) Cons.prems(1) ready(5) by (auto simp: requests_ok_def manifests_wantsFile_def split: if_splits)
    show "stores_ready st'" by (rule rs(4))
    show "st_manifests st' = st_manifests st" by (simp add: rs(5) ready(2))
    show "SourceStore \<in> set (n # ns) \<longrightarrow>
        map_of ((n, m) # rs) SourceStore = Some (fst (source_wantsFile (se_request E) p c (st_source st)))
        \<and> st_source st' = snd (source_wantsFile (se_request E) p c (st_source st))"
      using rs(6,7) ready(3,4) Cons.prems(1) by (cases "n = SourceStore") simp_all
    show "SourceStore \<notin> set (n # ns) \<longrightarrow> st_source st' = st_source st"
      using rs(7) ready(3) by simp
    show "ManifestStore \<in> set (n # ns) \<longrightarrow> map_of ((n, m) # rs) ManifestStore = Some (manifests_wantsFile p)"
      using rs(8) ready(5) by simp
  qed
qed

lemma processPendingFileStores_ready:
  assumes "distinct ns" "SourceStore \<in> set ns" "ManifestStore \<in> set ns"
    "stores_ready st" "context_ok (se_request E) x" "readable (se_request E) p"
  shows "\<exists>x' st'. processPendingFileStores E ns p c None x st = (None, x', st')
     \<and> stores_ready st' \<and> context_ok (se_request E) x'
     \<and> st_source st' = source_visit (se_request E) c (content_of (se_request E)) (p, FileKind) (st_source st)
     \<and> st_manifests st' = manifest_visit (se_request E) (p, FileKind) (st_manifests st)"
proof -
  obtain rs st1 where rs: "collect_requests E ns p c st = (rs, st1)" "requests_ok p rs" "stores_ready st1"
    "st_manifests st1 = st_manifests st"
    "map_of rs SourceStore = Some (fst (source_wantsFile (se_request E) p c (st_source st)))"
    "st_source st1 = snd (source_wantsFile (se_request E) p c (st_source st))"
    "map_of rs ManifestStore = Some (manifests_wantsFile p)"
    using collect_requests_ok [OF assms(1,4), of E p c] assms(2,3) by auto
  let ?x = "if list_ex (\<lambda>(n, m). m = Some DeferredContentMode) rs then retainFile p x else x"
  have "context_ok (se_request E) ?x" using assms(5) context_ok_retain [OF assms(5)] by simp
  then obtain x' st' where res: "process_requests E rs p c None None ?x st1 = (None, x', st')"
    "stores_ready st'" "context_ok (se_request E) x'"
    "st_source st' = source_request (se_request E) c p rs (st_source st1)"
    "st_manifests st' = manifest_request (se_request E) p rs (st_manifests st1)"
    using process_requests_ready [OF rs(3) _ assms(6) rs(2), of ?x None c] by blast
  have "source_request (se_request E) c p rs (st_source st1)
      = source_visit (se_request E) c (content_of (se_request E)) (p, FileKind) (st_source st)"
    unfolding source_request_def rs(5,6)
    by (auto simp: source_visit_def source_wantsFile_def split: option.split)
  moreover have "manifest_request (se_request E) p rs (st_manifests st1) = manifest_visit (se_request E) (p, FileKind) (st_manifests st)"
    unfolding manifest_request_def rs(4,7)
    by (auto simp: manifests_wantsFile_def manifest_visit_def preloadable_name split: option.split)
  ultimately show ?thesis using rs(1) res by (auto simp: processPendingFileStores_def)
qed

lemma process_directory_stores:
  assumes "distinct ns"
  shows "st_source (process_directory E ns d c st)
      = (if SourceStore \<in> set ns then source_processDirectory (se_request E) d c (st_source st) else st_source st)"
    and "st_manifests (process_directory E ns d c st)
      = (if ManifestStore \<in> set ns then manifests_processDirectory d (st_manifests st) else st_manifests st)"
proof -
  have "st_source (process_directory E ns d c st)
      = (if SourceStore \<in> set ns then source_processDirectory (se_request E) d c (st_source st) else st_source st)
    \<and> st_manifests (process_directory E ns d c st)
      = (if ManifestStore \<in> set ns then manifests_processDirectory d (st_manifests st) else st_manifests st)"
    using assms
  proof (induction ns arbitrary: st)
    case (Cons n ns)
    have "process_directory E (n # ns) d c st = process_directory E ns d c (store_processDirectory E n d c st)"
      by (simp add: process_directory_def)
    then show ?case using Cons by (cases n) simp_all
  qed (simp add: process_directory_def)
  then show "st_source (process_directory E ns d c st)
      = (if SourceStore \<in> set ns then source_processDirectory (se_request E) d c (st_source st) else st_source st)"
    "st_manifests (process_directory E ns d c st)
      = (if ManifestStore \<in> set ns then manifests_processDirectory d (st_manifests st) else st_manifests st)" by blast+
qed

lemma walk_entry_ready:
  assumes ns: "distinct ns" "SourceStore \<in> set ns" "ManifestStore \<in> set ns"
    and st: "stores_ready st" "context_ok (se_request E) x" and p: "k = FileKind \<longrightarrow> readable (se_request E) p"
  shows "\<exists>x' st'. walk_entry E ns c k p (x, st) = (None, x', st') \<and> stores_ready st' \<and> context_ok (se_request E) x'
     \<and> st_source st' = source_visit (se_request E) c (content_of (se_request E)) (p, k) (st_source st)
     \<and> st_manifests st' = manifest_visit (se_request E) (p, k) (st_manifests st)"
proof (cases k)
  case FileKind
  then show ?thesis using processPendingFileStores_ready [OF ns st] p by (simp add: walk_entry_def)
next
  case DirectoryKind
  have "ss_files (source_processDirectory (se_request E) p c (st_source st)) = ss_files (st_source st)"
    by (simp add: source_processDirectory_def Let_def)
  then show ?thesis
    using st ns(2,3) process_directory_stores [OF ns(1), of E p c st]
    by (simp add: walk_entry_def DirectoryKind stores_ready_def manifest_visit_def manifests_processDirectory_def)
next
  case OtherKind
  then show ?thesis using st by (simp add: walk_entry_def manifest_visit_def)
qed

lemma run_visits_ready:
  assumes ns: "distinct ns" "SourceStore \<in> set ns" "ManifestStore \<in> set ns"
    and "stores_ready st" "context_ok (se_request E) x" "\<forall>p. (p, FileKind) \<in> set vs \<longrightarrow> readable (se_request E) p"
  shows "\<exists>x' st'. run_visits (walk_entry E ns c) vs WalkDone (x, st) = (WalkDone, x', st')
     \<and> stores_ready st' \<and> context_ok (se_request E) x'
     \<and> st_source st' = fold (source_visit (se_request E) c (content_of (se_request E))) vs (st_source st)
     \<and> st_manifests st' = fold (manifest_visit (se_request E)) vs (st_manifests st)"
  using assms(4-)
proof (induction vs arbitrary: x st)
  case (Cons v vs)
  obtain p k where v: "v = (p, k)" by fastforce
  obtain x1 st1 where st1: "walk_entry E ns c k p (x, st) = (None, x1, st1)" "stores_ready st1" "context_ok (se_request E) x1"
    "st_source st1 = source_visit (se_request E) c (content_of (se_request E)) (p, k) (st_source st)"
    "st_manifests st1 = manifest_visit (se_request E) (p, k) (st_manifests st)"
    using walk_entry_ready [OF ns Cons.prems(1,2), of k p c] Cons.prems(3) by (auto simp: v)
  show ?case using Cons.IH [OF st1(2,3)] Cons.prems(3) st1(1,4,5) by (simp add: v)
qed simp

section \<open>After a reset\<close>

lemma pending_after_reset:
  assumes "cfg_canAccessFileSystem c"
  shows "\<exists>st'. pending_stores E fileStores c None (resetFileStores st)
       = (if cfg_detectGeneratedCode c then [SourceStore, ManifestStore, GeneratedStore, TsconfigStore]
          else [SourceStore, ManifestStore, TsconfigStore], st')
     \<and> st_source st' = fresh_source \<and> ms_dirnameToParent (st_manifests st') = []
     \<and> ms_manifestsByName (st_manifests st') = map (\<lambda>(name, files). (name, [])) (ms_manifestsByName (st_manifests st))"
  using assms
  by (simp add: resetFileStores_def fileStores_def Let_def source_isInitialized_def dirty_source_def
      manifests_isInitialized_def dirty_manifests_def generated_isInitialized_def dirty_generated_def
      tsconfigs_isInitialized_def dirty_tsconfigs_def clear_manifests_def clear_generated_def clear_tsconfigs_def
      clearSnapshotState_def clearDerivedState_def fresh_source_def split_beta)

section \<open>The directories of the manifests\<close>

lemma js_set_subset: "set (js_set k v m) \<subseteq> insert (k, v) (set m)"
  by (induction m) auto

lemma directory_tree_add:
  assumes "directory_tree base D" "plain rel" "plain [n]" "abs_path (base @ rel) \<in> set (js_keys D)"
  shows "directory_tree base (js_set (abs_path (base @ rel @ [n])) (Some (abs_path (base @ rel))) D)"
proof -
  let ?D = "js_set (abs_path (base @ rel @ [n])) (Some (abs_path (base @ rel))) D"
  have keys: "set (js_keys D) \<subseteq> set (js_keys ?D)" by (auto simp: AList.update_keys)
  have "placed base (set (js_keys ?D)) d p" if "(d, p) \<in> set ?D" for d p
  proof (cases "(d, p) \<in> set D")
    case True
    then show ?thesis using directory_tree_placed [OF assms(1)] keys unfolding placed_def by blast
  next
    case False
    then have "d = abs_path (base @ rev (n # rev rel))" "p = Some (abs_path (base @ rev (rev rel)))"
      using that js_set_subset by fastforce+
    then show ?thesis using assms(2-) keys unfolding placed_def by (intro disjI2 exI [of _ "rev rel"] exI [of _ n]) auto
  qed
  then show ?thesis
    using assms(1) keys by (auto simp: directory_tree_def placed_def distinct_update)
qed

lemma manifest_walk:
  assumes base: "plain base" and s0: "ms_dirnameToParent s0 = [(abs_path base, None)]"
    and order: "parents_first base {} vs"
  shows "directory_tree base (ms_dirnameToParent (fold (manifest_visit env) vs s0))
     \<and> set (js_keys (ms_dirnameToParent (fold (manifest_visit env) vs s0))) = insert (abs_path base) (set (directories_in vs))
     \<and> ms_baseDir (fold (manifest_visit env) vs s0) = ms_baseDir s0"
  using order
proof (induction vs rule: rev_induct)
  case Nil
  then show ?case using base by (simp add: s0 directory_tree_def)
next
  case (snoc v vs)
  obtain p k where v: "v = (p, k)" by fastforce
  let ?s = "fold (manifest_visit env) vs s0"
  have IH: "directory_tree base (ms_dirnameToParent ?s)"
    "set (js_keys (ms_dirnameToParent ?s)) = insert (abs_path base) (set (directories_in vs))" "ms_baseDir ?s = ms_baseDir s0"
    and "parent_seen base (seen_after vs {}) p"
    using snoc by (simp_all add: v parents_first_append)
  then obtain rel n where rel: "plain rel" "plain [n]" "p = abs_path (base @ rel @ [n])"
    "rel = [] \<or> abs_path (base @ rel) \<in> set (directories_in vs)"
    by (auto simp: parent_seen_def seen_after_def)
  have dir: "dirnamePath p = abs_path (base @ rel)"
    using dirnamePath_snoc [of "base @ rel" n] base rel by simp
  have add: "directory_tree base (js_set p (Some (abs_path (base @ rel))) (ms_dirnameToParent ?s))"
    unfolding rel(3) by (rule directory_tree_add [OF IH(1) rel(1,2)]) (use rel(4) in \<open>auto simp only: IH(2) append_Nil2\<close>)
  show ?case
    using IH add by (cases k) (auto simp: v dir manifest_visit_def manifests_processDirectory_def AList.update_keys
      directories_in_def split: option.split simp del: set_map)
qed

section \<open>After the walk\<close>

lemma fill_names_done:
  assumes "directory_tree base (ms_dirnameToParent s)" "base \<noteq> []"
  shows "\<exists>s'. fill_names u localeCompare c (abs_path base) names s = (None, s')"
  using assms(1)
proof (induction names arbitrary: s)
  case (Cons name names)
  obtain F' where "fillManifestCaches u localeCompare name (entry (ms_manifestsByName s) name) (ms_dirnameToParent s)
      (abs_path base) (cfg_canAccessFileSystem c) (ms_caches s) = (None, F')"
    using fill_all [OF Cons.prems disjI1 [OF assms(2)]] by blast
  then show ?case using Cons.IH [of "s\<lparr>ms_caches := F'\<rparr>"] Cons.prems by simp
qed simp

lemma ss_files_post_process: "ss_files (st_source (snd (post_process E ns c x st))) = ss_files (st_source st)"
proof (induction ns arbitrary: x st)
  case (Cons n ns)
  obtain r x' st' where step: "store_postProcess E n c x st = (r, x', st')" by (metis prod.exhaust)
  have "ss_files (st_source st') = ss_files (st_source st)"
    using step by (cases n) (auto simp: source_postProcess_def split: prod.splits)
  then show ?case using Cons.IH step by (cases r) simp_all
qed simp

lemma post_process_done:
  fixes E :: "('e, 'c) stores_env"
  assumes "directory_tree base (ms_dirnameToParent (st_manifests st))" "base \<noteq> []"
    "ms_baseDir (st_manifests st) = Some (abs_path base)"
  shows "fst (post_process E [SourceStore, ManifestStore, TsconfigStore] c x st) = None"
proof -
  have "truthy_string (ms_baseDir (st_manifests st)) = Some (abs_path base)"
    using assms(3) by (simp add: truthy_string_def abs_path_def)
  moreover obtain s' where "fill_names (se_up E) (se_localeCompare E) c (abs_path base) PRELOADABLE_DEPENDENCY_MANIFESTS
      (st_manifests st) = (None :: 'e store_error option, s')"
    using fill_names_done [OF assms(1,2)] by blast
  ultimately show ?thesis by (simp add: manifests_postProcess_def)
qed

section \<open>The files of a project\<close>

lemma reset_keeps_sourceFiles: "(resetFileStores st)\<lparr>st_sourceFiles := a\<rparr> = resetFileStores (st\<lparr>st_sourceFiles := a\<rparr>)"
  by (simp add: resetFileStores_def)

lemma init_after_reset:
  assumes tree: "plain base" "cfg_baseDir c = abs_path base" "presents (stores_walk E c) base (DirNode es)"
      "directory_count (DirNode es) \<le> fuel"
    and conf: "\<not> cfg_sonarlint c" "cfg_canAccessFileSystem c"
    and read: "\<forall>p. (p, FileKind) \<in> set (node_visits (stores_walk E c) base (DirNode es)) \<longrightarrow> readable (se_request E) p"
  shows "\<exists>r st'. initFileStoresForAnalysis E fuel c None st = (r, st')
     \<and> ss_files (st_source st') = ss_files (fold (source_visit (se_request E) c (content_of (se_request E)))
           (node_visits (stores_walk E c) base (DirNode es)) (setup_source c fresh_source))
     \<and> (\<not> cfg_detectGeneratedCode c \<longrightarrow> base \<noteq> [] \<longrightarrow> r = WalkDone)"
proof -
  let ?w = "stores_walk E c"
  let ?vs = "node_visits ?w base (DirNode es)"
  let ?ns = "if cfg_detectGeneratedCode c then [SourceStore, ManifestStore, GeneratedStore, TsconfigStore]
          else [SourceStore, ManifestStore, TsconfigStore]"
  let ?st0 = "resetFileStores (st\<lparr>st_sourceFiles := clearSourceFileContentCache (st_sourceFiles st)\<rparr>)"
  obtain st1 where st1: "pending_stores E fileStores c None ?st0 = (?ns, st1)" "st_source st1 = fresh_source"
    "ms_dirnameToParent (st_manifests st1) = []"
    using pending_after_reset [OF conf(2), of E] by blast
  let ?st2 = "fold (\<lambda>n st. store_setup n c st) ?ns st1"
  have st2: "st_source ?st2 = setup_source c fresh_source" "st_manifests ?st2 = setup_manifests c (st_manifests st1)"
    by (simp_all add: st1(2))
  have ready: "stores_ready ?st2"
    using tree(2) by (simp add: stores_ready_def st2 setup_source_def setup_manifests_def truthy_string_def abs_path_def)
  have ns: "distinct ?ns" "SourceStore \<in> set ?ns" "ManifestStore \<in> set ?ns" by simp_all
  obtain x' st3 where st3: "run_visits (walk_entry E ?ns c) ?vs WalkDone (createFileStoreContext None, ?st2) = (WalkDone, x', st3)"
    "st_source st3 = fold (source_visit (se_request E) c (content_of (se_request E))) ?vs (st_source ?st2)"
    "st_manifests st3 = fold (manifest_visit (se_request E)) ?vs (st_manifests ?st2)"
    using run_visits_ready [OF ns ready context_ok_create read] by blast
  have "findFiles ?w (walk_entry E ?ns c) fuel (cfg_baseDir c) (createFileStoreContext None, ?st2) = (WalkDone, x', st3)"
    unfolding tree(2) findFiles_tree [OF tree(1,3,4)] by (rule st3(1))
  then have init: "initFileStoresForAnalysis E fuel c None st = walk_result (post_process E ?ns c x' st3)"
    using conf st1(1) by (simp add: initFileStoresForAnalysis_def reset_keeps_sourceFiles initFileStores_def Let_def)
  have order: "parents_first base {} ?vs"
    using parents_first_visits(1) [of base "[]" ?w "DirNode es" "{}"] tree(1,3) by simp
  have post: "fst (post_process E ?ns c x' st3) = None" if "\<not> cfg_detectGeneratedCode c" "base \<noteq> []"
  proof -
    have "ms_dirnameToParent (st_manifests ?st2) = [(abs_path base, None)]" "ms_baseDir (st_manifests ?st2) = Some (abs_path base)"
      using tree(2) by (simp_all add: st2 setup_manifests_def st1(3))
    then have "directory_tree base (ms_dirnameToParent (st_manifests st3))" "ms_baseDir (st_manifests st3) = Some (abs_path base)"
      using manifest_walk [OF tree(1) _ order, of "st_manifests ?st2" "se_request E"] unfolding st3(3) by simp_all
    then show ?thesis using post_process_done [of base st3 E c x'] that by simp
  qed
  obtain r0 st4 where pp: "post_process E ?ns c x' st3 = (r0, st4)" by fastforce
  have "ss_files (st_source st4) = ss_files (fold (source_visit (se_request E) c (content_of (se_request E))) ?vs
      (setup_source c fresh_source))"
    using ss_files_post_process [of E ?ns c x' st3] unfolding pp snd_conv st3(2) st2(1) .
  moreover have "initFileStoresForAnalysis E fuel c None st = (case r0 of None \<Rightarrow> WalkDone | Some e \<Rightarrow> WalkFailed e, st4)"
    unfolding init pp by (simp add: walk_result_def split: option.split)
  moreover have "\<not> cfg_detectGeneratedCode c \<Longrightarrow> base \<noteq> [] \<Longrightarrow> r0 = None" using post unfolding pp by simp
  ultimately show ?thesis by simp
qed

lemma file_visit_iff:
  assumes "plain base" "presents w base (DirNode es)"
  shows "(p, FileKind) \<in> set (node_visits w base (DirNode es)) \<and> \<not> blocked env c base (dirnamePath p)
     \<longleftrightarrow> (\<exists>rel n. p = abs_path (base @ rel @ [n]) \<and> node_at (DirNode es) (rel @ [n]) = Some FileNode
        \<and> (\<forall>i\<le>length rel. not_excluded w (abs_path (base @ take (Suc i) (rel @ [n]))))
        \<and> (\<forall>i<length rel. \<not> untyped env c (abs_path (base @ take (Suc i) rel))))" (is "?lhs \<longleftrightarrow> ?rhs")
proof -
  have kind: "node_kind y = FileKind \<longleftrightarrow> y = FileNode" for y by (cases y) simp_all
  have path: "\<not> blocked env c base (dirnamePath (abs_path (base @ rel @ [n])))
      \<longleftrightarrow> (\<forall>i<length rel. \<not> untyped env c (abs_path (base @ take (Suc i) rel)))"
    if "node_at (DirNode es) (rel @ [n]) = Some FileNode" for rel n
  proof -
    have "plain (rel @ [n])" using node_at_plain [OF assms(2) that] .
    then show ?thesis
      using assms(1) dirnamePath_snoc [of "base @ rel" n] blocked_iff [of base rel env c] by auto
  qed
  have "?lhs \<longleftrightarrow> (\<exists>rel n. p = abs_path (base @ rel @ [n]) \<and> node_at (DirNode es) (rel @ [n]) = Some FileNode
      \<and> kept_below w base (rel @ [n]) \<and> \<not> blocked env c base (dirnamePath p))"
    unfolding node_visits_iff [OF assms(2)] reaches_def kind
    by (auto, metis append_butlast_last_id)
  also have "\<dots> \<longleftrightarrow> ?rhs"
  proof (intro arg_cong [of _ _ Ex] ext conj_cong [OF refl])
    fix rel n
    assume "p = abs_path (base @ rel @ [n])" "node_at (DirNode es) (rel @ [n]) = Some FileNode"
    then show "kept_below w base (rel @ [n]) \<and> \<not> blocked env c base (dirnamePath p) \<longleftrightarrow>
        (\<forall>i\<le>length rel. not_excluded w (abs_path (base @ take (Suc i) (rel @ [n]))))
        \<and> (\<forall>i<length rel. \<not> untyped env c (abs_path (base @ take (Suc i) rel)))"
      using path [of rel n] by (simp add: kept_below_iff less_Suc_eq_le del: take_append)
  qed
  finally show ?thesis .
qed

text \<open>
  C38. A scanner's analysis of a project whose files it may read finds, whatever the stores held
  before, exactly the following files to analyze, each with its content and its types: the files of
  the tree with a suffix, a type and a content that the configuration accepts, for which neither
  they nor a directory on the way is excluded, and for which every directory on the way has a type
  itself. Without detection of generated sources the initialization succeeds.
\<close>

theorem source_files_found:
  assumes "plain base" "cfg_baseDir c = abs_path base" "presents (stores_walk E c) base (DirNode es)"
    "directory_count (DirNode es) \<le> fuel" "\<not> cfg_sonarlint c" "cfg_canAccessFileSystem c"
    and read: "\<forall>rel. node_at (DirNode es) rel = Some FileNode \<longrightarrow> readable (se_request E) (abs_path (base @ rel))"
  shows "\<exists>r st' files. initFileStoresForAnalysis E fuel c None st = (r, st') \<and> ss_files (st_source st') = Some files
     \<and> (\<not> cfg_detectGeneratedCode c \<longrightarrow> base \<noteq> [] \<longrightarrow> r = WalkDone)
     \<and> (\<forall>p. map_of files p =
          (if \<exists>rel n. p = abs_path (base @ rel @ [n]) \<and> node_at (DirNode es) (rel @ [n]) = Some FileNode
                \<and> (\<forall>i\<le>length rel. not_excluded (stores_walk E c) (abs_path (base @ take (Suc i) (rel @ [n]))))
                \<and> (\<forall>i<length rel. \<not> untyped (se_request E) c (abs_path (base @ take (Suc i) rel)))
           then source_entry (se_request E) c (content_of (se_request E)) p else None))"
proof -
  let ?vs = "node_visits (stores_walk E c) base (DirNode es)"
  have "\<forall>p. (p, FileKind) \<in> set ?vs \<longrightarrow> readable (se_request E) p"
  proof (intro allI impI)
    fix p assume "(p, FileKind) \<in> set ?vs"
    then obtain rel y where "p = abs_path (base @ rel)" "node_at (DirNode es) rel = Some y" "node_kind y = FileKind"
      unfolding node_visits_iff [OF assms(3)] reaches_def by blast
    then show "readable (se_request E) p" using read by (cases y) auto
  qed
  from init_after_reset [OF assms(1-6) this, of st]
  obtain r st' where init: "initFileStoresForAnalysis E fuel c None st = (r, st')"
    "ss_files (st_source st') = ss_files (fold (source_visit (se_request E) c (content_of (se_request E))) ?vs
       (setup_source c fresh_source))"
    "\<not> cfg_detectGeneratedCode c \<longrightarrow> base \<noteq> [] \<longrightarrow> r = WalkDone" by blast
  have order: "parents_first base {} ?vs"
    using parents_first_visits(1) [of base "[]" "stores_walk E c" "DirNode es" "{}"] assms(1,3) by simp
  have "ss_files (setup_source c fresh_source) = Some []" "ss_ignoredPaths (setup_source c fresh_source) = []"
    by (simp_all add: setup_source_def fresh_source_def)
  from source_walk [OF assms(1) this order, of "se_request E" c "content_of (se_request E)"]
  obtain files where "ss_files (st_source st') = Some files" "\<forall>p. map_of files p =
      (if (p, FileKind) \<in> set ?vs \<and> \<not> blocked (se_request E) c base (dirnamePath p)
       then source_entry (se_request E) c (content_of (se_request E)) p else None)"
    unfolding init(2) by blast
  then show ?thesis using init(1,3) unfolding file_visit_iff [OF assms(1,3)] by blast
qed

definition found_config :: configuration where
  "found_config = (case createConfiguration ''/'' (JObj [(''baseDir'', JStr ''/p'')]) of Inr c \<Rightarrow> c | Inl _ \<Rightarrow> undefined)"

definition found_tree :: "(string \<times> file_node) list" where
  "found_tree = [(''a.js'', FileNode), (''src'', DirNode [(''b.js'', FileNode), (''c.txt'', FileNode)])]"

definition found_env :: "(string, unit) stores_env" where
  "found_env = \<lparr>se_request = sample_env,
     se_opendir = (\<lambda>p.
       if p = ''/p'' then Inr ([(''a.js'', FileKind), (''src'', DirectoryKind)], None)
       else if p = ''/p/src'' then Inr ([(''b.js'', FileKind), (''c.txt'', FileKind)], None)
       else Inl (NativeError ''ENOENT'')),
     se_up = \<lparr>ue_readdir = (\<lambda>p. None), ue_isFile = (\<lambda>p. None), ue_readFile = (\<lambda>p. None), ue_match = (\<lambda>p f. p = f)\<rparr>,
     se_detectors = \<lparr>dt_shouldPreload = (\<lambda>p. False), dt_watchedFilenames = [], dt_packageContexts = (\<lambda>b m. Inr []),
       dt_declaredPreloadPaths = (\<lambda>b c. Inr []),
       dt_derive = (\<lambda>b m c s e. Inl (StoreError ''none''))\<rparr>,
     se_localeCompare = Comparator.flat\<rparr>"

lemma found_config_simps:
  "cfg_baseDir found_config = abs_path [''p'']" "\<not> cfg_sonarlint found_config" "cfg_canAccessFileSystem found_config"
  by code_simp+

lemma found_presented: "presents (stores_walk found_env found_config) [''p''] (DirNode found_tree)"
  by (simp add: found_env_def found_tree_def stores_walk_def abs_path_def plain_def clean_segment_def)

lemma found_env_simps: "se_request found_env = sample_env"
  by (simp add: found_env_def)

lemma found_suffixes:
  "source_entry sample_env found_config (content_of sample_env) ''/p/src/b.js'' \<noteq> None"
  "source_entry sample_env found_config (content_of sample_env) ''/p/src/c.txt'' = None"
  by code_simp+

lemma found_path:
  "not_excluded (stores_walk found_env found_config) ''/p/src''"
  "not_excluded (stores_walk found_env found_config) ''/p/src/b.js''"
  "\<not> untyped sample_env found_config ''/p/src''"
  by code_simp+

text \<open>The file below \<open>src\<close> is found, the one without a suffix of the configuration is not.\<close>

theorem source_files_found_witness:
  "\<forall>st :: (nat, unit, unit) project_stores.
     \<exists>r st' files. initFileStoresForAnalysis found_env 2 found_config None st = (r, st')
       \<and> ss_files (st_source st') = Some files \<and> map_of files ''/p/src/b.js'' \<noteq> None
       \<and> map_of files ''/p/src/c.txt'' = None"
proof
  fix st :: "(nat, unit, unit) project_stores"
  have fuel: "directory_count (DirNode found_tree) \<le> 2" by code_simp
  have read: "\<forall>rel. node_at (DirNode found_tree) rel = Some FileNode \<longrightarrow> readable (se_request found_env) (abs_path ([''p''] @ rel))"
    by (simp add: found_env_simps readable_def sample_env_def)
  have plain: "plain [''p'']" by code_simp
  have walked: "\<exists>rel n. ''/p/src/b.js'' = abs_path ([''p''] @ rel @ [n]) \<and> node_at (DirNode found_tree) (rel @ [n]) = Some FileNode
      \<and> (\<forall>i\<le>length rel. not_excluded (stores_walk found_env found_config) (abs_path ([''p''] @ take (Suc i) (rel @ [n]))))
      \<and> (\<forall>i<length rel. \<not> untyped (se_request found_env) found_config (abs_path ([''p''] @ take (Suc i) rel)))"
    by (rule exI [of _ "[''src'']"], rule exI [of _ "''b.js''"])
      (use found_path in \<open>simp add: found_env_simps found_tree_def le_Suc_eq all_conj_distrib abs_path_def\<close>)
  from source_files_found [OF plain found_config_simps(1) found_presented fuel found_config_simps(2,3) read, of st]
  obtain r st' files where run: "initFileStoresForAnalysis found_env 2 found_config None st = (r, st')"
    "ss_files (st_source st') = Some files"
    and found: "\<And>p. map_of files p = (if \<exists>rel n. p = abs_path ([''p''] @ rel @ [n])
          \<and> node_at (DirNode found_tree) (rel @ [n]) = Some FileNode
          \<and> (\<forall>i\<le>length rel. not_excluded (stores_walk found_env found_config) (abs_path ([''p''] @ take (Suc i) (rel @ [n]))))
          \<and> (\<forall>i<length rel. \<not> untyped (se_request found_env) found_config (abs_path ([''p''] @ take (Suc i) rel)))
        then source_entry (se_request found_env) found_config (content_of (se_request found_env)) p else None)"
    by blast
  have "map_of files ''/p/src/b.js'' \<noteq> None"
    unfolding found unfolding if_P [OF walked] unfolding found_env_simps by (rule found_suffixes(1))
  moreover have "map_of files ''/p/src/c.txt'' = None"
    unfolding found found_env_simps found_suffixes(2) if_cancel ..
  ultimately show "\<exists>r st' files. initFileStoresForAnalysis found_env 2 found_config None st = (r, st')
       \<and> ss_files (st_source st') = Some files \<and> map_of files ''/p/src/b.js'' \<noteq> None
       \<and> map_of files ''/p/src/c.txt'' = None"
    using run by blast
qed

end
