(* ===== verification/Store_Reuse.thy ===== *)
theory Store_Reuse
  imports File_Discovery
begin

text \<open>
  When the stores are reused (\<open>initFileStores\<close> of \<open>file-stores/index.ts\<close> for SonarQube for IDE): the
  store of configuration files fulfils the contract of a store, and an initialization leaves every store
  initialized for the same configuration.
\<close>

definition tsconfigs_key :: "('p, 'o) tsconfig_store \<Rightarrow> string option \<times> bool option \<times> string option \<times> string option" where
  "tsconfigs_key s = (ts_baseDir s, ts_canAccessFileSystem s, ts_propertyTsConfigsHash s, ts_projectFileDiscoveryConfigKey s)"

interpretation tsconfigs: file_store "tsconfigs_isInitialized glob" setup_tsconfigs tsconfigs_key "\<lambda>c. True"
  by unfold_locales
    (auto simp: tsconfigs_isInitialized_def dirty_tsconfigs_def setup_tsconfigs_def tsconfigs_key_def clear_tsconfigs_def
      Let_def split: if_splits)

lemma tsconfigs_key_kept [simp]:
  "tsconfigs_key (tsconfigs_processFile glob f s) = tsconfigs_key s"
  "tsconfigs_key (tsconfigs_postProcess s) = tsconfigs_key s"
  by (simp_all add: tsconfigs_key_def tsconfigs_processFile_def tsconfigs_postProcess_def Let_def)

section \<open>What an initialization keeps\<close>

text \<open>The stores that were pending keep their keys, the others are not touched.\<close>

definition kept_by :: "'s set \<Rightarrow> 's \<Rightarrow> ('t \<Rightarrow> 'k) \<Rightarrow> 't \<Rightarrow> 't \<Rightarrow> bool" where
  "kept_by ns n k s s' \<longleftrightarrow> (if n \<in> ns then k s' = k s else s' = s)"

definition stores_kept :: "store_name list \<Rightarrow> ('p, 'o, 'ast) project_stores \<Rightarrow> ('p, 'o, 'ast) project_stores \<Rightarrow> bool" where
  "stores_kept ns st st' \<longleftrightarrow>
     kept_by (set ns) SourceStore source_key (st_source st) (st_source st')
     \<and> kept_by (set ns) ManifestStore manifests_key (st_manifests st) (st_manifests st')
     \<and> kept_by (set ns) GeneratedStore generated_key (st_generated st) (st_generated st')
     \<and> kept_by (set ns) TsconfigStore tsconfigs_key (st_tsconfigs st) (st_tsconfigs st')"

lemma kept_by_refl [simp]: "kept_by ns n k s s"
  by (simp add: kept_by_def)

lemma kept_by_key: "n \<in> ns \<Longrightarrow> k s' = k s \<Longrightarrow> kept_by ns n k s s'"
  by (simp add: kept_by_def)

lemma stores_kept_refl [simp]: "stores_kept ns st st"
  by (simp add: stores_kept_def)

lemma stores_kept_trans [trans]: "stores_kept ns a b \<Longrightarrow> stores_kept ns b d \<Longrightarrow> stores_kept ns a d"
  by (auto simp: stores_kept_def kept_by_def split: if_splits)

lemma stores_kept_fold:
  assumes "\<And>x st. x \<in> set xs \<Longrightarrow> stores_kept ns st (f x st)"
  shows "stores_kept ns st (fold f xs st)"
  using assms
proof (induction xs arbitrary: st)
  case (Cons x xs)
  have "stores_kept ns st (f x st)" using Cons.prems by simp
  also have "stores_kept ns (f x st) (fold f xs (f x st))" using Cons by simp
  finally show ?case by simp
qed simp

lemmas kept_simps = stores_kept_def kept_by_key case_prod_unfold

lemma directory_kept: "n \<in> set ns \<Longrightarrow> stores_kept ns st (store_processDirectory E n dir c st)"
  by (cases n) (simp_all add: kept_simps)

lemma wants_kept: "n \<in> set ns \<Longrightarrow> stores_kept ns st (snd (store_wantsFile E n f c st))"
  by (cases n) (simp_all add: kept_simps)

lemma processFile_kept: "n \<in> set ns \<Longrightarrow> stores_kept ns st (snd (store_processFile E n p c f st))"
  by (cases n) (simp_all add: kept_simps split: option.split)

lemma postProcess_kept:
  "n \<in> set ns \<Longrightarrow> n = GeneratedStore \<longrightarrow> cfg_detectGeneratedCode c
     \<Longrightarrow> stores_kept ns st (snd (snd (store_postProcess E n c x st)))"
  by (cases n) (simp_all add: kept_simps)

lemma collect_kept:
  "set ms \<subseteq> set ns \<Longrightarrow> collect_requests E ms p c st = (rs, st') \<Longrightarrow> stores_kept ns st st' \<and> map fst rs = ms"
proof (induction ms arbitrary: st rs)
  case (Cons m ms)
  obtain w st1 where step: "store_wantsFile E m p c st = (w, st1)" by fastforce
  obtain rs' where rest: "collect_requests E ms p c st1 = (rs', st')" "rs = (m, w) # rs'"
    using Cons.prems(2) by (auto simp: step split: prod.splits)
  have "stores_kept ns st st1" using wants_kept [of m ns st E p c] Cons.prems(1) by (simp add: step)
  then show ?case using Cons.IH [OF _ rest(1)] Cons.prems(1) rest(2) by (auto intro: stores_kept_trans)
qed simp

lemma requests_kept:
  "fst ` set rs \<subseteq> set ns \<Longrightarrow> process_requests E rs p c content sf x st = (r, x', st') \<Longrightarrow> stores_kept ns st st'"
proof (induction rs arbitrary: sf x st)
  case (Cons q rs)
  obtain n m where q: "q = (n, m)" by fastforce
  have n: "n \<in> set ns" "fst ` set rs \<subseteq> set ns" using Cons.prems(1) by (simp_all add: q)
  have next_kept: "stores_kept ns st st'"
    if "store_processFile E n p c f st = (None, st1)" "process_requests E rs p c content sf' x1 st1 = (r, x', st')"
    for f st1 sf' x1
    using processFile_kept [OF n(1), of st E p c f] Cons.IH [OF n(2) that(2)] by (auto simp: that(1) intro: stores_kept_trans)
  have stop_kept: "stores_kept ns st st1" if "store_processFile E n p c f st = (e, st1)" for f e st1
    using processFile_kept [OF n(1), of st E p c f] by (simp add: that)
  show ?case
    using Cons.prems(2) Cons.IH [OF n(2)] next_kept stop_kept
    by (cases m) (auto simp: q split: file_processing_mode.splits sum.splits option.splits prod.splits)
qed simp

lemma pending_file_kept: "processPendingFileStores E ns p c content x st = (r, x', st') \<Longrightarrow> stores_kept ns st st'"
proof -
  assume run: "processPendingFileStores E ns p c content x st = (r, x', st')"
  obtain rs st1 where rs: "collect_requests E ns p c st = (rs, st1)" by fastforce
  have "stores_kept ns st st1" "fst ` set rs \<subseteq> set ns" using collect_kept [OF _ rs, of ns] by (auto simp flip: set_map)
  then have "stores_kept ns st1 st'"
    using run requests_kept by (auto simp: processPendingFileStores_def rs)
  with \<open>stores_kept ns st st1\<close> show ?thesis by (rule stores_kept_trans)
qed

lemma entry_kept: "walk_entry E ns c k p (x, st) = (r, x', st') \<Longrightarrow> stores_kept ns st st'"
proof -
  assume run: "walk_entry E ns c k p (x, st) = (r, x', st')"
  let ?st = "if k = DirectoryKind then process_directory E ns p c st else st"
  have "stores_kept ns st ?st"
    by (auto simp: process_directory_def intro!: stores_kept_fold directory_kept)
  also have "stores_kept ns ?st st'"
    using run pending_file_kept by (cases "k = FileKind") (auto simp: walk_entry_def Let_def)
  finally show ?thesis .
qed

lemma visits_kept: "run_visits (walk_entry E ns c) vs stop (x, st) = (r, x', st') \<Longrightarrow> stores_kept ns st st'"
proof (induction vs arbitrary: x st)
  case (Cons v vs)
  obtain p k where v: "v = (p, k)" by fastforce
  obtain e x1 st1 where step: "walk_entry E ns c k p (x, st) = (e, x1, st1)" by (metis prod_cases3)
  note first = entry_kept [OF step]
  show ?case
  proof (cases e)
    case None
    then have "run_visits (walk_entry E ns c) vs stop (x1, st1) = (r, x', st')" using Cons.prems by (simp add: v step)
    then show ?thesis by (rule stores_kept_trans [OF first Cons.IH])
  next
    case (Some err)
    then show ?thesis using Cons.prems first by (simp add: v step)
  qed
qed simp

lemma simulate_kept: "simulate_files E ns c fs x st = (r, x', st') \<Longrightarrow> stores_kept ns st st'"
proof (induction fs arbitrary: x st)
  case (Cons f fs)
  obtain e x1 st1 where step: "processPendingFileStores E ns (fst f) c (Some (af_fileContent (snd f))) x st = (e, x1, st1)"
    by (metis prod_cases3)
  note first = pending_file_kept [OF step]
  show ?case
  proof (cases e)
    case None
    then have "simulate_files E ns c fs x1 st1 = (r, x', st')" using Cons.prems step by (cases f) simp
    then show ?thesis by (rule stores_kept_trans [OF first Cons.IH])
  next
    case (Some err)
    then show ?thesis using Cons.prems first step by (cases f) simp
  qed
qed simp

lemma input_files_kept:
  assumes "simulateFromInputFiles E files c ns x st = (r, x', st')"
  shows "stores_kept ns st st'"
proof (cases "all_directories (cfg_baseDir c) (js_keys files) []")
  case None
  then show ?thesis using assms by (simp add: simulateFromInputFiles_def)
next
  case (Some dirs)
  let ?st = "fold (\<lambda>n st. fold (\<lambda>dir st. store_processDirectory E n dir c st) dirs st) ns st"
  have "stores_kept ns st ?st" by (intro stores_kept_fold directory_kept)
  also have "stores_kept ns ?st st'"
    using assms Some simulate_kept [of E ns c files x ?st] by (auto simp: simulateFromInputFiles_def walk_result_def
        split: prod.splits option.splits)
  finally show ?thesis .
qed

lemma post_process_kept:
  "set ms \<subseteq> set ns \<Longrightarrow> GeneratedStore \<in> set ms \<longrightarrow> cfg_detectGeneratedCode c \<Longrightarrow> post_process E ms c x st = (r, st')
     \<Longrightarrow> stores_kept ns st st'"
proof (induction ms arbitrary: x st)
  case (Cons n ms)
  obtain e x1 st1 where step: "store_postProcess E n c x st = (e, x1, st1)" by (metis prod_cases3)
  have first: "stores_kept ns st st1" using postProcess_kept [of n ns c st E x] Cons.prems by (simp add: step)
  show ?case
  proof (cases e)
    case None
    then have "post_process E ms c x1 st1 = (r, st')" using Cons.prems step by simp
    then show ?thesis using Cons.prems by (intro stores_kept_trans [OF first Cons.IH]) auto
  next
    case (Some err)
    then show ?thesis using Cons.prems first step by simp
  qed
qed simp

section \<open>Initializing again\<close>

lemma walk_kept:
  assumes "findFiles w (walk_entry E ns c) fuel dir (x, st) = (r, x', st')"
  shows "stores_kept ns st st'"
  using assms visits_kept by (fastforce simp: findFiles_trace split: prod.splits)

lemma pending_kept:
  assumes "GeneratedStore \<in> set ns \<longrightarrow> cfg_detectGeneratedCode c"
    and "initFileStores E fuel c inputFiles st = (r, st')" "pending_stores E fileStores c inputFiles st = (ns, st1)"
  shows "if ns = [] then st' = st1 else stores_kept ns (fold (\<lambda>n st. store_setup n c st) ns st1) st'"
proof (cases "ns = []")
  case True
  then show ?thesis using assms by (simp add: initFileStores_def)
next
  case False
  let ?x = "createFileStoreContext inputFiles" and ?st = "fold (\<lambda>n st. store_setup n c st) ns st1"
  obtain e x' st2 where walked: "(if cfg_canAccessFileSystem c
        then findFiles (stores_walk E c) (walk_entry E ns c) fuel (cfg_baseDir c) (?x, ?st)
        else case inputFiles of
               Some files \<Rightarrow> simulateFromInputFiles E files c ns ?x ?st
             | None \<Rightarrow> (WalkDone, ?x, ?st)) = (e, x', st2)"
    by (metis prod_cases3)
  have kept: "stores_kept ns ?st st2"
    using walked walk_kept input_files_kept by (fastforce split: if_splits option.splits)
  have run: "(r, st') = (case e of WalkDone \<Rightarrow> walk_result (post_process E ns c x' st2) | _ \<Rightarrow> (e, st2))"
    using assms(2) False unfolding initFileStores_def assms(3) Let_def prod.case walked
    by (cases e) auto
  obtain e' st3 where post: "post_process E ns c x' st2 = (e', st3)" by fastforce
  have "stores_kept ns st2 st'"
    using run post_process_kept [OF _ assms(1) post, of ns] by (auto simp: post walk_result_def split: walk_end.splits option.splits)
  with kept False show ?thesis by (auto intro: stores_kept_trans)
qed

text \<open>A store is initialized or pending, each by its own state.\<close>

definition store_settled :: "('e, 'c) stores_env \<Rightarrow> configuration \<Rightarrow> ('p, 'o, 'ast) project_stores \<Rightarrow> bool" where
  "store_settled E c st \<longleftrightarrow> source_isInitialized c None (st_source st) = (True, st_source st)
     \<and> manifests_isInitialized c (st_manifests st) = (True, st_manifests st)
     \<and> generated_isInitialized (se_detectors E) c (st_generated st) = (True, st_generated st)
     \<and> tsconfigs_isInitialized (env_glob (se_request E)) c (st_tsconfigs st) = (True, st_tsconfigs st)"

lemma settled_again: "store_settled E c st \<Longrightarrow> initFileStores E fuel c None st = (WalkDone, st)"
  by (simp add: store_settled_def initFileStores_def fileStores_def Let_def)

lemma settled_after:
  assumes "cfg_fsEvents c = []" "initFileStores E fuel c None st = (r, st')"
  shows "store_settled E c st'"
proof -
  obtain b1 s1 b2 s2 b3 s3 b4 s4 where asked: "source_isInitialized c None (st_source st) = (b1, s1)"
    "manifests_isInitialized c (st_manifests st) = (b2, s2)"
    "generated_isInitialized (se_detectors E) c (st_generated st) = (b3, s3)"
    "tsconfigs_isInitialized (env_glob (se_request E)) c (st_tsconfigs st) = (b4, s4)"
    by (meson surj_pair)
  let ?ns = "(if b1 then [] else [SourceStore]) @ (if b2 then [] else [ManifestStore])
     @ (if b3 then [] else [GeneratedStore]) @ (if b4 then [] else [TsconfigStore])"
  let ?st = "st\<lparr>st_source := s1, st_manifests := s2, st_generated := s3, st_tsconfigs := s4\<rparr>"
  have pending: "pending_stores E fileStores c None st = (?ns, ?st)"
    using asked by (simp add: fileStores_def Let_def)
  have "GeneratedStore \<in> set ?ns \<longrightarrow> cfg_detectGeneratedCode c"
    using generated.pending_applies [of "se_detectors E" c "st_generated st" s3] asked(3) by (auto split: if_splits)
  from pending_kept [OF this assms(2) pending]
  have kept: "if b1 then st_source st' = s1 else source_key (st_source st') = source_key (setup_source c s1)"
    "if b2 then st_manifests st' = s2 else manifests_key (st_manifests st') = manifests_key (setup_manifests c s2)"
    "if b3 then st_generated st' = s3 else generated_key (st_generated st') = generated_key (setup_generated c s3)"
    "if b4 then st_tsconfigs st' = s4 else tsconfigs_key (st_tsconfigs st') = tsconfigs_key (setup_tsconfigs c s4)"
    by (cases b1; cases b2; cases b3; cases b4; simp add: stores_kept_def kept_by_def)+
  show ?thesis
    unfolding store_settled_def
    using source.initialized_again [OF assms(1) asked(1) kept(1)] manifests.initialized_again [OF assms(1) asked(2) kept(2)]
      generated.initialized_again [OF assms(1) asked(3) kept(3)] tsconfigs.initialized_again [OF assms(1) asked(4) kept(4)]
    by blast
qed

text \<open>
  C39. The stores of SonarQube for IDE are filled once: after a request without file events, the same
  request finds every store initialized and changes nothing, whatever has become of the files in the
  meantime (\<open>E'\<close> is another file system), and even if the first walk has failed half-way.
\<close>

theorem initialized_once:
  fixes st :: "('p, 'o, 'ast) project_stores"
  assumes "cfg_sonarlint c" "cfg_fsEvents c = []" "initFileStoresForAnalysis E fuel c None st = (r, st')"
  shows "initFileStoresForAnalysis E' fuel' c None st' = (WalkDone, st')"
proof -
  have "store_settled E c st'"
    using settled_after [OF assms(2), of E fuel st r st'] assms(1,3) by (simp add: initFileStoresForAnalysis_def)
  moreover have "generated_isInitialized (se_detectors E') c = generated_isInitialized (se_detectors E) c"
    "tsconfigs_isInitialized (env_glob (se_request E')) c
       = (tsconfigs_isInitialized (env_glob (se_request E)) c :: ('p, 'o) tsconfig_store \<Rightarrow> _)"
    using assms(2) by (simp_all add: fun_eq_iff generated_isInitialized_def dirty_generated_def tsconfigs_isInitialized_def
        dirty_tsconfigs_def)
  ultimately have "store_settled E' c st'" by (simp add: store_settled_def)
  then show ?thesis using settled_again assms(1) by (simp add: initFileStoresForAnalysis_def)
qed

definition ide_config :: configuration where
  "ide_config = found_config\<lparr>cfg_sonarlint := True, cfg_fsEvents := []\<rparr>"

definition broken_env :: "(string, unit) stores_env" where
  "broken_env = found_env\<lparr>se_opendir := (\<lambda>p. Inl (NativeError ''EACCES''))\<rparr>"

text \<open>The first walk fails. Once the directory can be read, the stores stay as that walk left them.\<close>

theorem initialized_once_witness:
  "\<forall>st :: (nat, unit, unit) project_stores. \<exists>st'.
     initFileStoresForAnalysis broken_env 2 ide_config None (resetFileStores st) = (WalkFailed (NativeError ''EACCES''), st')
     \<and> initFileStoresForAnalysis found_env 2 ide_config None st' = (WalkDone, st')"
proof
  fix st :: "(nat, unit, unit) project_stores"
  have conf: "cfg_sonarlint ide_config" "cfg_fsEvents ide_config = []" "cfg_canAccessFileSystem ide_config"
    using found_config_simps(3) by (simp_all add: ide_config_def)
  obtain ns st1 where pending: "pending_stores broken_env fileStores ide_config None (resetFileStores st) = (ns, st1)" "ns \<noteq> []"
    using pending_after_reset [OF conf(3), of broken_env st] by (auto split: if_splits)
  then obtain st' where
    "initFileStoresForAnalysis broken_env 2 ide_config None (resetFileStores st) = (WalkFailed (NativeError ''EACCES''), st')"
    using conf by (simp add: initFileStoresForAnalysis_def initFileStores_def findFiles_def stores_walk_def broken_env_def
        numeral_2_eq_2 Let_def)
  then show "\<exists>st'. initFileStoresForAnalysis broken_env 2 ide_config None (resetFileStores st)
       = (WalkFailed (NativeError ''EACCES''), st')
     \<and> initFileStoresForAnalysis found_env 2 ide_config None st' = (WalkDone, st')"
    using initialized_once [OF conf(1,2)] by blast
qed

end
