(* ===== verification/Spec2Isabelle.thy ===== *)
theory Spec2Isabelle
  imports FS_Properties Analysis_Server Request_Properties Scanner_Locations Sonar_Resolve
    Analysis_Response Source_Files Worker_Thread Store_Reuse
begin

text \<open>
  SonarJS is the analyzer of JavaScript, TypeScript, CSS and embedded code behind SonarQube. A plugin
  of the scanner starts a Node.js process, the \<^emph>\<open>bridge\<close>, and sends it requests over gRPC; the process
  analyzes a project and sends results back. This development models the process between the request
  and the analysis of a single file, and the filesystem cache under it. Paths are relative to
  \<open>src/packages\<close>.

  \<^bold>\<open>The parts and how they interact.\<close> A call of the gRPC server (\<open>grpc/src/analyze-project-server*.ts\<close>)
  is admitted to a queue and, when its turn comes, posted to a worker thread. The worker
  (\<open>analyze-project-worker.ts\<close>, \<open>analyze-project-handle-request.ts\<close>) opens a session of the filesystem
  cache (\<open>shared/src/fs-cache\<close>), normalizes the request (\<open>analyze-project-normalize.ts\<close> and
  \<open>analysis/src/common\<close>), and runs \<open>analyzeProject\<close>, which asks TypeScript for a program for each file
  (\<open>analysis/src/jsts/program\<close>, \<open>file-stores\<close>), analyzes the files one by one, moves locations to the
  lines of the scanner and hands each result to the channel or the output; the worker converts results
  into messages (\<open>analyze-project-convert.ts\<close>), which the server writes to the call. A cancellation
  takes the same way and is seen at the checks between files.

  \<^bold>\<open>Theories.\<close>

  Filesystem cache, \<open>shared/src/fs-cache\<close>: \<open>Archive_Types\<close> (the data of \<open>archive.ts\<close> and the protocol
  buffer messages), \<open>Archive_Nodes\<close> (nodes, slots, \<open>mergeNodes\<close>), \<open>Archive_Serialization\<close> and \<open>Base64\<close>
  (the document and its encoding), \<open>Archive\<close>, \<open>Archive_Keys\<close>, \<open>Archive_Flush\<close> and \<open>Archive_Reload\<close> (the
  class \<open>FsCacheArchive\<close>: keys of paths, lookups, recording, the lock and the atomic replacement of the
  file), \<open>FS_Executor\<close>, \<open>FS_Values\<close>, \<open>FS_Hook\<close>, \<open>FS_Descriptors\<close>, \<open>FS_Async\<close>, \<open>FS_Session\<close> and
  \<open>FS_Install\<close> (\<open>hook.ts\<close>: the operations of \<open>fs\<close> and \<open>fs/promises\<close> that record and replay, virtual
  descriptors, sessions, and what the installation replaces). \<open>FS_Record\<close> states recording and replaying
  as an abstract store of observations (the locale \<open>observation_store\<close>) and interprets it on the archive;
  \<open>FS_Fidelity\<close>, \<open>Archive_Properties\<close> and \<open>FS_Properties\<close> hold the properties.

  Server, \<open>grpc/src\<close>: \<open>Analysis_Queue\<close> (\<open>-server-queue.ts\<close>; the locale \<open>fifo_line\<close> is the contract of a
  fair bounded line, interpreted on the queue), \<open>Analysis_Server\<close> (\<open>-server.ts\<close>, \<open>-lifecycle.ts\<close>,
  \<open>-grpc.ts\<close> as one state machine of calls, runs, leases and timers), \<open>Analysis_Worker\<close> and
  \<open>Worker_Thread\<close> (the worker: what it does with one request, and the interleaving of its handlers),
  \<open>Analysis_Response\<close> (\<open>analyze-project-convert.ts\<close>).

  Requests, \<open>analysis/src/common\<close>: \<open>Posix_Path\<close>, \<open>Regex_Match\<close>, \<open>Normalized_Path\<close>, \<open>Path_Normalize\<close>
  (\<open>node:path\<close> as far as it is used, and \<open>path-normalization.ts\<close>), \<open>Project_Configuration\<close>
  (\<open>configuration.ts\<close>), \<open>File_Filters\<close> (\<open>filter/*.ts\<close>), \<open>Analysis_Request\<close> (\<open>input-sanitize.ts\<close> and the
  normalization of messages), \<open>Request_Properties\<close>.

  Analysis, \<open>analysis/src\<close>: \<open>Analysis_Results\<close> and \<open>Scanner_Locations\<close> (results and the move of their
  locations), \<open>Sonar_Resolve\<close> (directives in comments), \<open>Source_Files\<close> (\<open>sourceFileCache.ts\<close>,
  \<open>compilerHost.ts\<close>), \<open>Tsconfig_Options\<close> (\<open>tsconfig/options.ts\<close> and its caches), \<open>Program_Cache\<close>
  (\<open>programCache.ts\<close>, \<open>factory.ts\<close>), \<open>Tsconfig_Store\<close> (\<open>file-stores/tsconfigs.ts\<close>), \<open>Project_Analysis\<close>
  (\<open>analyzeProject.ts\<close>, \<open>analyzeFile.ts\<close>, \<open>analyzeWith*.ts\<close>), and on it \<open>Project_Runs\<close> (what a run has
  sent), \<open>Project_Returns\<close> (that it returns) and \<open>Project_Channel\<close> (its two ways of delivering results).

  Files of a project, \<open>analysis/src/file-stores\<close> and what it calls: \<open>Path_Parents\<close> (roots and joined paths),
  \<open>File_Walk\<close> (\<open>common/find-files.ts\<close>, and the walk over a tree), \<open>Find_Up\<close> (\<open>jsts/rules/helpers/find-up\<close>,
  \<open>cache.ts\<close>), \<open>Manifest_Caches\<close> (\<open>dependency-manifests/index.ts\<close>, \<open>closest.ts\<close>), \<open>Source_File_Store\<close>
  (\<open>source-files.ts\<close> with the index of directories, and the locale \<open>file_store\<close>, the contract of a store,
  which each of the four stores interprets), \<open>Manifest_Store\<close> (\<open>dependency-manifests.ts\<close>),
  \<open>Generated_Source_Store\<close> (\<open>generated-sources/store.ts\<close>, \<open>snapshot-files.ts\<close>), \<open>File_Stores\<close> (\<open>index.ts\<close>),
  and on it \<open>File_Discovery\<close> (which files are found) and \<open>Store_Reuse\<close> (when stores are reused).

  \<open>Prelude\<close> has the errors as sums, the maps of JavaScript (association lists in the order of insertion,
  \<open>object_entries\<close> with array indices first) and the lemmas that all theories share.

  \<^bold>\<open>Conventions.\<close> Definitions have the names of the source; where several classes have a method of one
  name, the class is part of it (\<open>clear_programs\<close>). An object is a record, a method a function that
  returns the new record; a thrown error is \<open>Inl\<close>. An asynchronous function is one step where nothing
  can come between, and a state machine where something can (server, queue, worker thread, promise forms
  of the cache). Log messages are left out everywhere.

  \<^bold>\<open>Bounds and fuel.\<close> The lock is tried \<open>LOCK_RETRY_LIMIT\<close> = 1000 times and the queue holds
  \<open>MAX_PENDING_ANALYSIS_REQUESTS\<close> requests, as in the code. Writing a file may loop: it returns if every
  write makes progress (\<open>writes_progress\<close>), and without that the model says \<open>None\<close>. Iterating a replayed
  directory needs one read more than it has entries. The loops over configuration files take fuel, since
  each file can add references: \<open>analysis_returns\<close> shows that one step more than there are configuration
  files and existing references is enough. The walk over a project takes fuel, since the file system is outside;
  one step per directory is enough for a tree (\<open>findFiles_tree\<close>). The loop over the directories above a file
  of a request has the length of the path as fuel, and \<open>None\<close> stands for a loop that does not end. 64-bit numbers of a request are words.

  \<^bold>\<open>What the lemmas show.\<close> For the cache: what is recorded is what is replayed, through serialization,
  merging, relocation and reloading, and flushing is atomic. For the queue, server and worker: every call
  is answered once, in order, whatever happens, and a cancellation reaches exactly the analysis that is
  under way. For requests: what is accepted is well formed and what is analyzed comes from the request.
  For the analysis: every file is reported once unless it is cancelled, the analysis returns, the two forms
  of a response agree, trees are those of the contents of the request, caches of programs are bounded, and
  moved locations keep their offset. For the stores: the walk finds exactly the files that the configuration
  accepts and types below directories that are neither excluded nor untyped, the index of directories mirrors
  the files, preloaded lookups of manifests give what climbing through the file system gives, and in
  SonarQube for IDE a store is filled once for a configuration.

  \<^bold>\<open>Parameters.\<close> Code outside the repository is an argument: the codec of protocol buffers and gzip, the
  native functions of \<open>fs\<close>, \<open>localeCompare\<close> and encodings, \<open>Minimatch\<close>, the parsers and programs of
  TypeScript, \<open>merge\<close> of lodash, the gRPC library. So are the parts of the repository that are not modelled
  but called: the analyzers of one file, parsed manifests, the detectors of generated sources, the telemetry.

  \<^bold>\<open>Not modelled.\<close> The rules (\<open>jsts/rules\<close>, \<open>css/rules\<close>, about 1,900 files that visit syntax trees of
  ESLint and stylelint and whose meaning is that of those libraries and of TypeScript's types), the
  helpers of rules, the linters that run them, the parsers and the encoding of trees, artifacts of files
  (highlighting, metrics, which walk syntax trees), the analyzers of HTML, YAML and CSS, the detectors of
  generated sources, the parsing of manifests, telemetry, the plugin in Java, generators of code, build scripts and the tools for ruling tests. They
  are listed as components with the reason.
\<close>

end
